(* ===== verification/Gateway_Prelude.thy ===== *)
theory Gateway_Prelude
  imports Main "HOL-Library.Word" "HOL-Library.AList" "HOL-Library.Multiset"
begin

text \<open>
  Shared vocabulary of the development: the named collections of simplification and
  preservation facts, the type synonyms for Go's scalar types, the outcome of a call that may
  panic, association lists for Go maps whose iteration is observable, and a generic theory of
  event-driven machines (locale \<open>machine\<close>) whose invariants hold after every run.
\<close>

named_theorems inv_intros \<open>an operation keeps the invariant of its component\<close>
named_theorems frame_simps \<open>what an operation leaves unchanged\<close>

type_synonym uuid = string
type_synonym go_time = int \<comment> \<open>nanoseconds since Go's zero time, so the zero value is 0\<close>

text \<open>The zero value of a UUID, rendered as text.\<close>

definition uuid_nil :: uuid where
  "uuid_nil = ''00000000-0000-0000-0000-000000000000''"

definition second :: int where
  "second = 1000000000"

text \<open>A call that can panic (an index or slice bound that Go checks at run time).\<close>

datatype 'a outcome = Returns 'a | Panics

section \<open>Generic list facts\<close>

lemma find_Some_mem: "find P xs = Some x \<Longrightarrow> x \<in> set xs \<and> P x"
  by (auto simp: find_Some_iff)

lemma find_cong_None: "find P xs = None \<longleftrightarrow> (\<forall>x \<in> set xs. \<not> P x)"
  by (auto simp: find_None_iff)

lemma map_of_mem_snd: "map_of xs k = Some v \<Longrightarrow> v \<in> snd ` set xs"
  by (force dest: map_of_SomeD)

lemma distinct_fst_map_of:
  "distinct (map fst xs) \<Longrightarrow> (k, v) \<in> set xs \<Longrightarrow> map_of xs k = Some v"
  by simp

lemma sum_list_update_diff:
  fixes xs :: "int list"
  assumes "i < length xs"
  shows "sum_list (xs[i := v]) = sum_list xs + (v - xs ! i)"
  using assms by (induction xs arbitrary: i) (auto split: nat.splits)

lemma sum_list_map2_add:
  fixes xs ys :: "int list"
  assumes "length xs = length ys"
  shows "sum_list (map2 (+) xs ys) = sum_list xs + sum_list ys"
  using assms by (induction xs ys rule: list_induct2) auto

lemma sum_list_le_eq:
  fixes f g :: "nat \<Rightarrow> int"
  assumes "\<And>i. i < n \<Longrightarrow> f i \<le> g i" and "(\<Sum>i<n. f i) = (\<Sum>i<n. g i)" and "i < n"
  shows "f i = g i"
proof -
  have "(\<Sum>i<n. g i - f i) = 0"
    using assms(2) by (simp add: sum_subtractf)
  moreover have "\<And>i. i \<in> {..<n} \<Longrightarrow> 0 \<le> g i - f i"
    using assms(1) by simp
  ultimately have "\<forall>i \<in> {..<n}. g i - f i = 0"
    using sum_nonneg_eq_0_iff [of "{..<n}" "\<lambda>i. g i - f i"] by blast
  with assms(3) show ?thesis by simp
qed

section \<open>Association lists for Go maps\<close>

lemma alist_update_keys:
  "map fst (AList.update k v xs) = (if k \<in> fst ` set xs then map fst xs else map fst xs @ [k])"
  by (simp add: update_keys)

lemma map_of_alist_update [simp]:
  "map_of (AList.update k v xs) k' = (if k' = k then Some v else map_of xs k')"
  by (simp add: update_conv')

lemma map_of_alist_delete [simp]:
  "map_of (AList.delete k xs) k' = (if k' = k then None else map_of xs k')"
  by (simp add: delete_conv')

lemma map_of_map_entry_option:
  "map_of (AList.map_entry k f xs) = (map_of xs)(k := map_option f (map_of xs k))"
  by (auto simp: map_of_map_entry fun_eq_iff split: option.splits)

lemma map_entry_keys [simp]: "map fst (AList.map_entry i f xs) = map fst xs"
  by (induction xs) auto

text \<open>Loading a table: every row replaces what its key held.\<close>

lemma fold_update_rows:
  "distinct (map fst rows) \<Longrightarrow>
   map_of (fold (\<lambda>(i, row). AList.update i (g i row)) rows xs) j =
     (case map_of rows j of None \<Rightarrow> map_of xs j | Some row \<Rightarrow> Some (g j row))"
proof (induction rows arbitrary: xs)
  case (Cons x rows)
  obtain i row where x: "x = (i, row)" by (cases x)
  with Cons.prems have "map_of rows i = None" by (simp add: map_of_eq_None_iff)
  with Cons x show ?case by (auto split: option.splits)
qed simp

section \<open>Machine integers\<close>

text \<open>A Go \<open>int\<close> or \<open>int64\<close> after an operation that can overflow.\<close>

definition wrap64 :: "int \<Rightarrow> int" where
  "wrap64 x = (x + 2 ^ 63) mod 2 ^ 64 - 2 ^ 63"

lemma wrap64_id: "- (2 ^ 63) \<le> x \<Longrightarrow> x < 2 ^ 63 \<Longrightarrow> wrap64 x = x"
  by (simp add: wrap64_def)

section \<open>Event-driven machines\<close>

text \<open>
  A component is a state with a step function; a run folds the step over the events. The
  locale is the interface every component's invariant is proved against: given that one step
  keeps the invariant, every run keeps it, and an observation that no step changes is constant
  along every run.
\<close>

locale machine =
  fixes mstep :: "'s \<Rightarrow> 'e \<Rightarrow> 's"
    and minv :: "'s \<Rightarrow> bool"
  assumes mstep_inv: "minv s \<Longrightarrow> minv (mstep s e)"
begin

lemma mrun_inv: "minv s \<Longrightarrow> minv (foldl mstep s es)"
  by (induction es arbitrary: s) (simp_all add: mstep_inv)

lemma mrun_frame:
  assumes "\<And>s e. minv s \<Longrightarrow> obs s = Some v \<Longrightarrow> obs (mstep s e) = Some v"
    and "minv s" and "obs s = Some v"
  shows "obs (foldl mstep s es) = Some v"
  using assms(2,3) by (induction es arbitrary: s) (simp_all add: assms(1) mstep_inv)

lemma mrun_frame_on:
  assumes "\<And>s e. minv s \<Longrightarrow> ok e \<Longrightarrow> obs s = Some v \<Longrightarrow> obs (mstep s e) = Some v"
    and "minv s" and "\<forall>e \<in> set es. ok e" and "obs s = Some v"
  shows "obs (foldl mstep s es) = Some v"
  using assms(2-4) by (induction es arbitrary: s) (simp_all add: assms(1) mstep_inv)

lemma mrun_mono:
  fixes rank :: "'s \<Rightarrow> nat"
  assumes "\<And>s e. minv s \<Longrightarrow> rank s \<le> rank (mstep s e)" and "minv s"
  shows "rank s \<le> rank (foldl mstep s es)"
  using assms(2)
proof (induction es arbitrary: s)
  case Nil
  then show ?case by simp
next
  case (Cons e es)
  have "rank s \<le> rank (mstep s e)" by (rule assms(1)) (rule Cons.prems)
  also have "\<dots> \<le> rank (foldl mstep (mstep s e) es)"
    by (rule Cons.IH) (rule mstep_inv, rule Cons.prems)
  finally show ?case by simp
qed

end

end
