(* ===== verification/Ipam.thy ===== *)
theory Ipam
  imports Go_Text
begin

unbundle bit_operations_syntax

text \<open>
  \<open>containermanager/ipam/cidr.go\<close>: IPv4 networks, the enumeration of a pool's subnets and the
  checks on pools and subnets. A \<open>netip.Prefix\<close> is a 32-bit address with a prefix length; the
  functions of \<open>net/netip\<close> the code calls are modelled first, then the functions of the file in
  their order. An IPv6 text is refused by \<open>Parse\<close> just like a text that is no prefix, so both
  are the error \<open>BadCidr\<close>. The lemmas read each operation as arithmetic on \<open>unat\<close>: a network
  is the block of addresses with one quotient by \<open>2 ^ (32 - bits)\<close>.
\<close>

record cidr =
  addr :: "32 word"
  bits :: nat

datatype ipam_error =
    BadCidr | HostBitsSet | SubPrefixNotLonger | SubPrefixTooLong | CapacityTooLarge
  | NegativeIndex | IndexOutOfRange | IndexOverflow | SubnetOutsidePool | NoHostAddress
  | ReservedOverlap | SubnetPrefixMismatch

section \<open>net/netip on IPv4\<close>

definition addr_to_u32 :: "8 word \<times> 8 word \<times> 8 word \<times> 8 word \<Rightarrow> 32 word" where
  "addr_to_u32 q = (case q of (b0, b1, b2, b3) \<Rightarrow>
     push_bit 24 (ucast b0) OR push_bit 16 (ucast b1) OR push_bit 8 (ucast b2) OR ucast b3)"

definition u32_to_addr :: "32 word \<Rightarrow> 8 word \<times> 8 word \<times> 8 word \<times> 8 word" where
  "u32_to_addr v = (ucast (drop_bit 24 v), ucast (drop_bit 16 v), ucast (drop_bit 8 v), ucast v)"

definition masked :: "nat \<Rightarrow> 32 word \<Rightarrow> 32 word" where
  "masked n a = a AND NOT (mask (32 - n))"

definition prefix_contains :: "cidr \<Rightarrow> 32 word \<Rightarrow> bool" where
  "prefix_contains c ip \<longleftrightarrow> drop_bit (32 - bits c) (ip XOR addr c) = 0"

definition prefix_overlaps :: "cidr \<Rightarrow> cidr \<Rightarrow> bool" where
  "prefix_overlaps p q \<longleftrightarrow> p = q \<or>
     (let m = min (bits p) (bits q) in m = 0 \<or> masked m (addr p) = masked m (addr q))"

definition parse_octet :: "string \<Rightarrow> nat option" where
  "parse_octet s =
     (if s \<noteq> [] \<and> list_all is_digit s \<and> (length s > 1 \<longrightarrow> hd s \<noteq> CHR ''0'') \<and> dec_value s \<le> 255
      then Some (dec_value s) else None)"

definition parse_ipv4 :: "string \<Rightarrow> (32 word) option" where
  "parse_ipv4 s = (case map parse_octet (split_byte CHR ''.'' s) of
       [Some a, Some b, Some c, Some d] \<Rightarrow>
         Some (addr_to_u32 (of_nat a, of_nat b, of_nat c, of_nat d))
     | _ \<Rightarrow> None)"

definition parse_bits :: "string \<Rightarrow> nat option" where
  "parse_bits s =
     (if s \<noteq> [] \<and> list_all is_digit s \<and> (length s > 1 \<longrightarrow> hd s \<noteq> CHR ''0'') \<and> dec_value s \<le> 32
      then Some (dec_value s) else None)"

definition parse_prefix :: "string \<Rightarrow> cidr option" where
  "parse_prefix s = (case last_index_byte CHR ''/'' s of
       None \<Rightarrow> None
     | Some i \<Rightarrow> (case (parse_ipv4 (take i s), parse_bits (drop (Suc i) s)) of
           (Some a, Some n) \<Rightarrow> Some \<lparr>addr = a, bits = n\<rparr>
         | _ \<Rightarrow> None))"

definition ip_string :: "32 word \<Rightarrow> string" where
  "ip_string v = (case u32_to_addr v of (a, b, c, d) \<Rightarrow>
     dec_string (unat a) @ CHR ''.'' # dec_string (unat b) @ CHR ''.'' #
     dec_string (unat c) @ CHR ''.'' # dec_string (unat d))"

section \<open>The operations of cidr.go\<close>

definition parse_cidr :: "string \<Rightarrow> ipam_error + cidr" where
  "parse_cidr s = (case parse_prefix s of
       None \<Rightarrow> Inl BadCidr
     | Some p \<Rightarrow> if addr p \<noteq> masked (bits p) (addr p) then Inl HostBitsSet else Inr p)"

definition cidr_string :: "cidr \<Rightarrow> string" where
  "cidr_string c = ip_string (addr c) @ CHR ''/'' # dec_string (bits c)"

definition network :: "cidr \<Rightarrow> 32 word" where
  "network c = masked (bits c) (addr c)"

definition last_addr :: "cidr \<Rightarrow> 32 word" where
  "last_addr c = network c + (push_bit (32 - bits c) 1 - 1)"

definition valid_prefix :: "int \<Rightarrow> int \<Rightarrow> ipam_error option" where
  "valid_prefix pool_bits sub_prefix =
     (if sub_prefix \<le> pool_bits then Some SubPrefixNotLonger
      else if sub_prefix > 30 then Some SubPrefixTooLong
      else None)"

definition capacity :: "cidr \<Rightarrow> int \<Rightarrow> ipam_error + int" where
  "capacity c sub_prefix = (case valid_prefix (int (bits c)) sub_prefix of
       Some e \<Rightarrow> Inl e
     | None \<Rightarrow> (let n = sub_prefix - int (bits c) in
         if n \<ge> 31 then Inl CapacityTooLarge else Inr (2 ^ nat n)))"

definition contains :: "cidr \<Rightarrow> cidr \<Rightarrow> bool" where
  "contains c sub \<longleftrightarrow>
     \<not> bits sub < bits c \<and> prefix_contains c (network sub) \<and> prefix_contains c (last_addr sub)"

definition subnet_at :: "cidr \<Rightarrow> int \<Rightarrow> int \<Rightarrow> ipam_error + cidr" where
  "subnet_at c index sub_prefix =
     (if index < 0 then Inl NegativeIndex else
      case capacity c sub_prefix of
        Inl e \<Rightarrow> Inl e
      | Inr cap \<Rightarrow>
          if index \<ge> cap then Inl IndexOutOfRange else
          let step = push_bit (nat (32 - sub_prefix)) (1 :: 64 word);
              base = (ucast (network c) :: 64 word);
              v = base + word_of_int index * step in
          if v > 0xFFFFFFFF then Inl IndexOverflow else
          let sub = \<lparr>addr = ucast v, bits = nat sub_prefix\<rparr> in
          if \<not> contains c sub then Inl SubnetOutsidePool else Inr sub)"

definition subnet_index :: "cidr \<Rightarrow> cidr \<Rightarrow> ipam_error + int" where
  "subnet_index c sub =
     (if \<not> contains c sub then Inl SubnetOutsidePool else
      let step = push_bit (32 - bits sub) (1 :: 64 word);
          base = (ucast (network c) :: 64 word);
          v = (ucast (network sub) :: 64 word) in
      Inr (sint ((v - base) div step)))"

definition overlaps :: "cidr \<Rightarrow> cidr \<Rightarrow> bool" where
  "overlaps c d = prefix_overlaps c d"

definition gateway :: "cidr \<Rightarrow> ipam_error + 32 word" where
  "gateway c = (if bits c > 30 then Inl NoHostAddress else Inr (network c + 1))"

text \<open>\<open>reservedRanges\<close> and \<open>cgnatRange\<close>: the texts of the source with their parsed values, which
  \<open>reserved_ranges_parse\<close> checks against \<open>parse_cidr\<close>.\<close>

definition reserved_ranges :: "cidr list" where
  "reserved_ranges =
     [\<lparr>addr = 0, bits = 8\<rparr>, \<lparr>addr = 0x7F000000, bits = 8\<rparr>, \<lparr>addr = 0xA9FE0000, bits = 16\<rparr>,
      \<lparr>addr = 0xE0000000, bits = 4\<rparr>, \<lparr>addr = 0xF0000000, bits = 4\<rparr>]"

definition cgnat_range :: cidr where
  "cgnat_range = \<lparr>addr = 0x64400000, bits = 10\<rparr>"

text \<open>\<open>ValidatePool\<close>: an error, or whether there is the CGNAT warning.\<close>

definition validate_pool :: "cidr \<Rightarrow> ipam_error + bool" where
  "validate_pool p =
     (if \<exists>r \<in> set reserved_ranges. overlaps p r then Inl ReservedOverlap
      else Inr (overlaps p cgnat_range))"

definition validate_subnet :: "cidr \<Rightarrow> cidr \<Rightarrow> int \<Rightarrow> ipam_error option" where
  "validate_subnet pool subnet sub_prefix = (case valid_prefix (int (bits pool)) sub_prefix of
       Some e \<Rightarrow> Some e
     | None \<Rightarrow> if int (bits subnet) \<noteq> sub_prefix then Some SubnetPrefixMismatch
         else if \<not> contains pool subnet then Some SubnetOutsidePool else None)"

section \<open>Reading the operations as arithmetic\<close>

text \<open>A prefix the package can hold: a length of at most 32 bits.\<close>

definition cidr_ok :: "cidr \<Rightarrow> bool" where
  "cidr_ok c \<longleftrightarrow> bits c \<le> 32"

definition block :: "cidr \<Rightarrow> nat" where
  "block c = unat (addr c) div 2 ^ (32 - bits c)"

text \<open>The addresses of a network.\<close>

definition range_of :: "cidr \<Rightarrow> 32 word set" where
  "range_of c = {a. prefix_contains c a}"

lemma unat32_lt: "unat (w :: 32 word) < 2 ^ 32"
  using unsigned_less [of w, where ?'a = nat] by simp

lemma unat32_div [simp]: "unat (w :: 32 word) div 4294967296 = 0"
  using unat32_lt [of w] by simp

lemma and_not_mask_eq: "a AND NOT (mask k) = push_bit k (drop_bit k (a :: 32 word))"
  by (rule bit_word_eqI) (auto simp: bit_simps)

lemma unat_drop: "unat (drop_bit k (w :: 32 word)) = unat w div 2 ^ k"
  by (simp only: unat_drop_bit_eq drop_bit_eq_div [of k "unat w"])

lemma unat_push: "unat (push_bit k (w :: 32 word)) = (unat w * 2 ^ k) mod 2 ^ 32"
  by (simp only: unsigned_push_bit_eq push_bit_eq_mult [of k "unat w"] take_bit_eq_mod) simp

lemma unat_masked: "unat (masked n a) = unat a div 2 ^ (32 - n) * 2 ^ (32 - n)"
proof -
  let ?k = "32 - n"
  have "unat (push_bit ?k (drop_bit ?k a)) = (unat a div 2 ^ ?k * 2 ^ ?k) mod 2 ^ 32"
    by (simp only: unat_push unat_drop)
  moreover have "unat a div 2 ^ ?k * 2 ^ ?k < 2 ^ 32"
  proof -
    have "unat a div 2 ^ ?k * 2 ^ ?k \<le> unat a" by (rule div_times_less_eq_dividend)
    also have "unat a < 2 ^ 32" using unsigned_less [of a] by simp
    finally show ?thesis .
  qed
  ultimately show ?thesis by (simp add: masked_def and_not_mask_eq)
qed

lemma drop_bit_xor_0: "drop_bit k (a XOR b) = 0 \<longleftrightarrow> drop_bit k a = drop_bit k (b :: 32 word)"
  by (auto simp: bit_eq_iff bit_simps)

lemma drop_bit_eq_iff_div:
  "drop_bit k a = drop_bit k (b :: 32 word) \<longleftrightarrow> unat a div 2 ^ k = unat b div 2 ^ k"
  by (simp only: word_unat_eq_iff unat_drop)

lemma prefix_contains_iff:
  "prefix_contains c ip \<longleftrightarrow> unat ip div 2 ^ (32 - bits c) = block c"
  by (simp only: prefix_contains_def drop_bit_xor_0 drop_bit_eq_iff_div block_def)

lemma masked_eq_iff:
  "masked n a = masked n b \<longleftrightarrow> unat a div 2 ^ (32 - n) = unat b div 2 ^ (32 - n)"
  by (simp add: word_unat_eq_iff unat_masked)

lemma unat_network: "unat (network c) = block c * 2 ^ (32 - bits c)"
  by (simp add: network_def unat_masked block_def)

lemma block_bound: "cidr_ok c \<Longrightarrow> block c < 2 ^ bits c"
proof -
  assume "cidr_ok c"
  then have "(2::nat) ^ 32 = 2 ^ bits c * 2 ^ (32 - bits c)"
    by (simp add: cidr_ok_def flip: power_add)
  moreover have "unat (addr c) < 2 ^ 32" using unsigned_less [of "addr c"] by simp
  ultimately show ?thesis by (simp add: block_def less_mult_imp_div_less)
qed

lemma unat_ones: "k \<le> 32 \<Longrightarrow> unat (push_bit k 1 - 1 :: 32 word) = 2 ^ k - 1"
proof -
  assume k: "k \<le> 32"
  have "push_bit k 1 - 1 = (mask k :: 32 word)" by (simp add: mask_eq_exp_minus_1 push_bit_eq_mult)
  moreover have "unat (mask k :: 32 word) = 2 ^ k - 1"
  proof -
    have lt: "(2::nat) ^ k - 1 < 2 ^ 32"
    proof -
      have "(2::nat) ^ k \<le> 2 ^ 32" using k by (intro power_increasing) simp_all
      moreover have "(1::nat) \<le> 2 ^ k" by simp
      ultimately show ?thesis by linarith
    qed
    have "mask k = (of_nat (2 ^ k - 1) :: 32 word)" by (simp add: mask_eq_exp_minus_1 of_nat_diff)
    then have "unat (mask k :: 32 word) = (2 ^ k - 1) mod 2 ^ 32" by (simp only: unat_of_nat) simp
    also have "\<dots> = 2 ^ k - 1" using lt by (rule mod_less)
    finally show ?thesis .
  qed
  ultimately show ?thesis by simp
qed

lemma block_end_bound: "cidr_ok c \<Longrightarrow> block c * 2 ^ (32 - bits c) + (2 ^ (32 - bits c) - 1) < 2 ^ 32"
proof -
  assume ok: "cidr_ok c"
  let ?k = "32 - bits c"
  from block_bound [OF ok] have "(block c + 1) * 2 ^ ?k \<le> 2 ^ bits c * 2 ^ ?k"
    by (intro mult_right_mono) simp_all
  also have "(2::nat) ^ bits c * 2 ^ ?k = 2 ^ 32"
    using ok by (simp add: cidr_ok_def flip: power_add)
  finally have "block c * 2 ^ ?k + 2 ^ ?k \<le> 2 ^ 32" by (simp add: algebra_simps)
  moreover have "(1::nat) \<le> 2 ^ ?k" by simp
  ultimately show ?thesis by linarith
qed

lemma unat_last_addr:
  "cidr_ok c \<Longrightarrow> unat (last_addr c) = block c * 2 ^ (32 - bits c) + (2 ^ (32 - bits c) - 1)"
  using block_end_bound [of c] unat_ones [of "32 - bits c"]
  by (simp only: last_addr_def unat_word_ariths unat_network) simp

lemma div_block: "m < n \<Longrightarrow> (b * n + m) div n = (b :: nat)"
  by simp

text \<open>The network and the last address of a network lie in it, and bound it.\<close>

lemma range_of_iff:
  assumes "cidr_ok c"
  shows "a \<in> range_of c \<longleftrightarrow> network c \<le> a \<and> a \<le> last_addr c"
proof -
  let ?n = "(2::nat) ^ (32 - bits c)"
  have "unat a div ?n = block c \<longleftrightarrow> block c * ?n \<le> unat a \<and> unat a \<le> block c * ?n + (?n - 1)"
  proof
    assume "unat a div ?n = block c"
    then have "unat a = block c * ?n + unat a mod ?n" by (metis div_mult_mod_eq)
    moreover have "unat a mod ?n < ?n" by simp
    ultimately show "block c * ?n \<le> unat a \<and> unat a \<le> block c * ?n + (?n - 1)" by linarith
  next
    assume h: "block c * ?n \<le> unat a \<and> unat a \<le> block c * ?n + (?n - 1)"
    then obtain m where m: "unat a = block c * ?n + m" by (metis le_Suc_ex)
    with h have "m \<le> ?n - 1" by simp
    moreover have "0 < ?n" by simp
    ultimately have "m < ?n" by linarith
    then show "unat a div ?n = block c" by (simp add: m)
  qed
  then show ?thesis
    by (simp only: range_of_def mem_Collect_eq prefix_contains_iff word_le_nat_alt unat_network
        unat_last_addr [OF assms])
qed

section \<open>Containment and overlap are those of the address sets\<close>

lemma div_coarser:
  assumes "k \<le> K" and "x div 2 ^ k = y div (2::nat) ^ k"
  shows "x div 2 ^ K = y div (2::nat) ^ K"
proof -
  have "(2::nat) ^ K = 2 ^ k * 2 ^ (K - k)" using assms(1) by (simp flip: power_add)
  then show ?thesis using assms(2) by (simp add: div_mult2_eq)
qed

lemma addr_in_range: "addr c \<in> range_of c"
  by (simp add: range_of_def prefix_contains_iff block_def)

lemma network_in_range: "cidr_ok c \<Longrightarrow> network c \<in> range_of c"
  by (simp add: range_of_def prefix_contains_iff unat_network)

lemma last_addr_in_range: "cidr_ok c \<Longrightarrow> last_addr c \<in> range_of c"
  using div_block [of "2 ^ (32 - bits c) - 1" "2 ^ (32 - bits c)" "block c"]
  by (simp only: range_of_def prefix_contains_iff unat_last_addr mem_Collect_eq) simp

lemma contains_iff:
  assumes "cidr_ok c" and "cidr_ok sub"
  shows "contains c sub \<longleftrightarrow> bits c \<le> bits sub \<and> range_of sub \<subseteq> range_of c"
proof -
  have "network sub \<in> range_of c \<and> last_addr sub \<in> range_of c \<longleftrightarrow> range_of sub \<subseteq> range_of c"
    using network_in_range [OF assms(2)] last_addr_in_range [OF assms(2)]
    by (auto simp: range_of_iff assms intro: order_trans)
  then show ?thesis by (auto simp: contains_def range_of_def)
qed

lemma overlap_aux:
  assumes "bits c \<le> bits d" and "cidr_ok d"
  shows "range_of c \<inter> range_of d \<noteq> {} \<longleftrightarrow>
    unat (addr c) div 2 ^ (32 - bits c) = unat (addr d) div 2 ^ (32 - bits c)"
proof
  assume "range_of c \<inter> range_of d \<noteq> {}"
  then obtain a :: "32 word" where "unat a div 2 ^ (32 - bits c) = block c" "unat a div 2 ^ (32 - bits d) = block d"
    by (auto simp: range_of_def prefix_contains_iff)
  moreover have "32 - bits d \<le> 32 - bits c" using assms(1) by simp
  ultimately show "unat (addr c) div 2 ^ (32 - bits c) = unat (addr d) div 2 ^ (32 - bits c)"
    unfolding block_def using div_coarser by metis
next
  assume "unat (addr c) div 2 ^ (32 - bits c) = unat (addr d) div 2 ^ (32 - bits c)"
  then have "addr d \<in> range_of c" by (simp add: range_of_def prefix_contains_iff block_def)
  with addr_in_range [of d] show "range_of c \<inter> range_of d \<noteq> {}" by auto
qed

lemma overlaps_eq_masked:
  "overlaps c d \<longleftrightarrow>
     unat (addr c) div 2 ^ (32 - min (bits c) (bits d)) = unat (addr d) div 2 ^ (32 - min (bits c) (bits d))"
proof -
  show ?thesis
    by (auto simp: overlaps_def prefix_overlaps_def Let_def masked_eq_iff)
qed

lemma overlaps_sym: "overlaps c d \<longleftrightarrow> overlaps d c"
  by (auto simp: overlaps_eq_masked min.commute)

lemma overlaps_iff:
  assumes "cidr_ok c" and "cidr_ok d"
  shows "overlaps c d \<longleftrightarrow> range_of c \<inter> range_of d \<noteq> {}"
proof (cases "bits c \<le> bits d")
  case True
  with overlap_aux [OF this assms(2)] show ?thesis by (simp add: overlaps_eq_masked min_def)
next
  case False
  then have "bits d \<le> bits c" by simp
  from overlap_aux [OF this assms(1)] have "overlaps d c \<longleftrightarrow> range_of d \<inter> range_of c \<noteq> {}"
    using False by (simp add: overlaps_eq_masked min_def)
  then show ?thesis by (simp add: overlaps_sym [of c d] Int_commute)
qed

section \<open>The subnets of a pool\<close>

lemma capacity_Inr:
  "capacity c sp = Inr cap \<longleftrightarrow>
     int (bits c) < sp \<and> sp \<le> 30 \<and> sp - int (bits c) < 31 \<and> cap = 2 ^ nat (sp - int (bits c))"
  by (auto simp: capacity_def valid_prefix_def Let_def)

text \<open>The subnet an index stands for, as arithmetic.\<close>

definition nth_block :: "cidr \<Rightarrow> nat \<Rightarrow> nat \<Rightarrow> nat" where
  "nth_block c s i = block c * 2 ^ (s - bits c) + i"

lemma nth_block_bound:
  assumes "bits c < s" "s \<le> 30" "i < 2 ^ (s - bits c)"
  shows "nth_block c s i < 2 ^ s"
proof -
  have "block c < 2 ^ bits c" using assms by (intro block_bound) (simp add: cidr_ok_def)
  then have "(block c + 1) * 2 ^ (s - bits c) \<le> 2 ^ bits c * 2 ^ (s - bits c)"
    by (intro mult_right_mono) simp_all
  also have "(2::nat) ^ bits c * 2 ^ (s - bits c) = 2 ^ s" using assms by (simp flip: power_add)
  finally show ?thesis using assms(3) by (simp add: nth_block_def algebra_simps)
qed

lemma nth_block_addr_bound:
  assumes "bits c < s" "s \<le> 30" "i < 2 ^ (s - bits c)"
  shows "nth_block c s i * 2 ^ (32 - s) < 2 ^ 32"
proof -
  have "nth_block c s i * 2 ^ (32 - s) < 2 ^ s * 2 ^ (32 - s)"
    using nth_block_bound [OF assms] by simp
  also have "(2::nat) ^ s * 2 ^ (32 - s) = 2 ^ 32" using assms by (simp flip: power_add)
  finally show ?thesis .
qed

text \<open>The 64-bit computation of \<open>SubnetAt\<close> does not wrap around.\<close>

lemma subnet_at_word:
  assumes "bits c < s" "s \<le> 30" "i < 2 ^ (s - bits c)"
  shows "unat ((ucast (network c) :: 64 word) + word_of_int (int i) * push_bit (32 - s) 1)
    = nth_block c s i * 2 ^ (32 - s)"
proof -
  have net: "unat (ucast (network c) :: 64 word) = unat (network c)"
    using unat32_lt [of "network c"] by (simp add: unsigned_ucast_eq take_bit_eq_mod)
  have "i * 2 ^ (32 - s) \<le> nth_block c s i * 2 ^ (32 - s)" by (simp add: nth_block_def)
  also note nth_block_addr_bound [OF assms]
  also have "(2::nat) ^ 32 < 2 ^ 64" by simp
  finally have i_lt: "i * 2 ^ (32 - s) < 2 ^ 64" .
  have "(1::nat) * i \<le> 2 ^ (32 - s) * i" by (intro mult_right_mono) simp_all
  then have "i \<le> i * 2 ^ (32 - s)" by (simp add: mult.commute)
  then have "i < 2 ^ 64" using i_lt by (rule le_less_trans)
  then have i: "unat (word_of_int (int i) :: 64 word) = i" by (simp add: unat_of_nat)
  have step: "unat (push_bit (32 - s) 1 :: 64 word) = 2 ^ (32 - s)"
  proof -
    have "(2::nat) ^ (32 - s) < 2 ^ 64" by (intro power_strict_increasing) simp_all
    moreover have "push_bit (32 - s) 1 = (of_nat (2 ^ (32 - s)) :: 64 word)"
      by (simp add: push_bit_eq_mult)
    ultimately show ?thesis by (simp only: unat_of_nat) simp
  qed
  have net_lt: "unat (network c) + i * 2 ^ (32 - s) = nth_block c s i * 2 ^ (32 - s)"
  proof -
    have "(2::nat) ^ (32 - bits c) = 2 ^ (s - bits c) * 2 ^ (32 - s)"
      using assms by (simp flip: power_add)
    then show ?thesis by (simp add: unat_network nth_block_def algebra_simps)
  qed
  show ?thesis
    using nth_block_addr_bound [OF assms] i_lt
    by (simp only: unat_word_ariths net i step net_lt mod_less len_num1 len_bit0 mod_add_right_eq) simp
qed

lemma subnet_addr_unat:
  assumes "bits c < s" "s \<le> 30" "i < 2 ^ (s - bits c)"
  shows "unat (of_nat (nth_block c s i * 2 ^ (32 - s)) :: 32 word) = nth_block c s i * 2 ^ (32 - s)"
  using nth_block_addr_bound [OF assms] by (simp only: unat_of_nat) simp

lemma subnet_in_pool:
  assumes "bits c < s" "s \<le> 30" "i < 2 ^ (s - bits c)" and "block sub = nth_block c s i" "bits sub = s"
  shows "contains c sub"
proof -
  have ok: "cidr_ok c" "cidr_ok sub" using assms by (simp_all add: cidr_ok_def)
  have "a \<in> range_of c" if "a \<in> range_of sub" for a
  proof -
    have "(2::nat) ^ (32 - bits c) = 2 ^ (32 - s) * 2 ^ (s - bits c)"
      using assms by (simp flip: power_add)
    then have "unat a div 2 ^ (32 - bits c) = nth_block c s i div 2 ^ (s - bits c)"
      using that assms(4,5) by (simp add: range_of_def prefix_contains_iff div_mult2_eq)
    also have "\<dots> = block c" using assms(3) by (simp add: nth_block_def)
    finally show ?thesis by (simp add: range_of_def prefix_contains_iff)
  qed
  then show ?thesis using assms by (auto simp: contains_iff [OF ok])
qed

lemma subnet_at_eq:
  assumes "bits c < s" "s \<le> 30" "i < 2 ^ (s - bits c)" "s - bits c < 31"
  shows "subnet_at c (int i) (int s) = Inr \<lparr>addr = of_nat (nth_block c s i * 2 ^ (32 - s)), bits = s\<rparr>"
proof -
  define v where "v = (ucast (network c) :: 64 word) + word_of_int (int i) * push_bit (32 - s) 1"
  have v: "unat v = nth_block c s i * 2 ^ (32 - s)"
    unfolding v_def by (rule subnet_at_word [OF assms(1-3)])
  let ?sub = "\<lparr>addr = of_nat (nth_block c s i * 2 ^ (32 - s)), bits = s\<rparr>"
  have cap: "capacity c (int s) = Inr (2 ^ (s - bits c))"
    using assms by (simp add: capacity_Inr nat_diff_distrib)
  have "int i < 2 ^ (s - bits c)" using assms(3) by (metis of_nat_less_iff of_nat_numeral of_nat_power)
  moreover have "\<not> v > 0xFFFFFFFF"
    using nth_block_addr_bound [OF assms(1-3)] by (simp add: word_less_nat_alt v)
  moreover have "ucast v = (of_nat (nth_block c s i * 2 ^ (32 - s)) :: 32 word)"
    by (rule word_unat_eq_iff [THEN iffD2])
      (use nth_block_addr_bound [OF assms(1-3)] in
        \<open>simp only: subnet_addr_unat [OF assms(1-3)] unsigned_ucast_eq v take_bit_eq_mod\<close>, simp)
  moreover have "block ?sub = nth_block c s i"
    by (simp only: block_def cidr.simps subnet_addr_unat [OF assms(1-3)]) simp
  then have "contains c ?sub" by (intro subnet_in_pool [OF assms(1-3)]) simp_all
  moreover have "nat (32 - int s) = 32 - s" by simp
  moreover have "(ucast (network c) :: 64 word) + word_of_nat i * 2 ^ (32 - s) = v"
    by (simp add: v_def)
  ultimately show ?thesis
    by (simp add: subnet_at_def cap Let_def)
qed

lemma block_subnet:
  assumes "bits c < s" "s \<le> 30" "i < 2 ^ (s - bits c)"
  shows "block \<lparr>addr = of_nat (nth_block c s i * 2 ^ (32 - s)), bits = s\<rparr> = nth_block c s i"
  by (simp only: block_def cidr.simps subnet_addr_unat [OF assms]) simp

text \<open>Every call that succeeds is one of these: the view the properties use.\<close>

lemma subnet_at_InrE:
  assumes "subnet_at c idx sp = Inr sub"
  obtains i s where "idx = int i" "sp = int s" "bits c < s" "s \<le> 30" "s - bits c < 31"
    "i < 2 ^ (s - bits c)" "bits sub = s" "block sub = nth_block c s i"
    "unat (addr sub) = nth_block c s i * 2 ^ (32 - s)"
proof -
  from assms obtain cap where nn: "0 \<le> idx" and cap: "capacity c sp = Inr cap" and lt: "idx < cap"
    by (auto simp: subnet_at_def Let_def split: if_splits sum.splits)
  then obtain i s where eqs: "idx = int i" "sp = int s"
    by (metis capacity_Inr int_nat_eq le_less_trans less_imp_le of_nat_0_le_iff zero_le_imp_eq_int)
  with cap have b: "bits c < s" "s \<le> 30" "s - bits c < 31" and "cap = 2 ^ nat (int s - int (bits c))"
    by (auto simp: capacity_Inr)
  moreover have "nat (int s - int (bits c)) = s - bits c" by simp
  ultimately have "int i < 2 ^ (s - bits c)" using lt eqs by simp
  then have i: "i < 2 ^ (s - bits c)" by (metis of_nat_less_iff of_nat_numeral of_nat_power)
  from subnet_at_eq [OF b(1,2) i b(3)] assms eqs
  have sub: "sub = \<lparr>addr = of_nat (nth_block c s i * 2 ^ (32 - s)), bits = s\<rparr>" by simp
  show ?thesis
    by (rule that [OF eqs b i])
      (simp_all only: sub cidr.simps block_subnet [OF b(1,2) i] subnet_addr_unat [OF b(1,2) i])
qed

text \<open>Two indices give subnets with no address in common, and each call inverts.\<close>

lemma subnets_disjoint:
  assumes "subnet_at c i sp = Inr a" and "subnet_at c j sp = Inr b" and "i \<noteq> j"
  shows "\<not> overlaps a b"
proof -
  from assms(1) obtain m s where m: "i = int m" "sp = int s" "bits a = s" "block a = nth_block c s m"
    by (rule subnet_at_InrE) blast
  from assms(2) obtain n t where n: "j = int n" "sp = int t" "bits b = t" "block b = nth_block c t n"
    by (rule subnet_at_InrE) blast
  from m n have "t = s" by simp
  with m n assms(3) have "block a \<noteq> block b" by (simp add: nth_block_def)
  with m n \<open>t = s\<close> show ?thesis by (simp add: overlaps_eq_masked block_def)
qed

lemma subnet_at_contains:
  assumes "subnet_at c i sp = Inr a"
  shows "contains c a" and "cidr_ok a" and "cidr_ok c" and "int (bits a) = sp" and "bits a \<le> 30"
proof -
  from assms obtain m s where *: "sp = int s" "bits c < s" "s \<le> 30" "m < 2 ^ (s - bits c)"
    "bits a = s" "block a = nth_block c s m"
    by (rule subnet_at_InrE) blast
  then show "contains c a" by (intro subnet_in_pool)
  from * show "cidr_ok a" "cidr_ok c" "int (bits a) = sp" "bits a \<le> 30" by (simp_all add: cidr_ok_def)
qed

lemma subnet_at_network:
  assumes "subnet_at c i sp = Inr a"
  shows "network a = addr a"
proof -
  from assms obtain m s where "bits a = s" "block a = nth_block c s m"
    "unat (addr a) = nth_block c s m * 2 ^ (32 - s)"
    by (rule subnet_at_InrE) blast
  then show ?thesis by (simp add: word_unat_eq_iff unat_network)
qed

lemma sint_small: "unat (w :: 64 word) < 2 ^ 63 \<Longrightarrow> sint w = int (unat w)"
proof -
  assume "unat w < 2 ^ 63"
  then have "int (unat w) < 2 ^ 63" by (metis of_nat_less_iff of_nat_numeral of_nat_power)
  then have "uint w < 2 ^ 63" by (simp only: int_nat_eq uint_nat)
  moreover have "- (2 ^ 63) \<le> uint w" by (rule order_trans [of _ 0]) simp_all
  ultimately have "signed_take_bit 63 (uint w) = uint w" by (intro signed_take_bit_int_eq_self)
  then show ?thesis by (simp add: sint_uint)
qed

lemma subnet_index_at:
  assumes "subnet_at c i sp = Inr a"
  shows "subnet_index c a = Inr i"
proof -
  from assms obtain m s where *: "i = int m" "sp = int s" "bits c < s" "s \<le> 30" "s - bits c < 31"
    "m < 2 ^ (s - bits c)" "bits a = s" "block a = nth_block c s m"
    "unat (addr a) = nth_block c s m * 2 ^ (32 - s)"
    by (rule subnet_at_InrE)
  define base where "base = (ucast (network c) :: 64 word)"
  define step where "step = (push_bit (32 - s) 1 :: 64 word)"
  define v where "v = (ucast (network a) :: 64 word)"
  have up: "unat (ucast w :: 64 word) = unat w" for w :: "32 word"
    using unat32_lt [of w] by (simp add: unsigned_ucast_eq take_bit_eq_mod)
  have step: "unat step = 2 ^ (32 - s)"
  proof -
    have "(2::nat) ^ (32 - s) < 2 ^ 64" by (intro power_strict_increasing) simp_all
    moreover have "step = of_nat (2 ^ (32 - s))" by (simp add: step_def push_bit_eq_mult)
    ultimately show ?thesis by (simp only: unat_of_nat) simp
  qed
  have base: "unat base = block c * 2 ^ (s - bits c) * 2 ^ (32 - s)"
  proof -
    have "(2::nat) ^ (32 - bits c) = 2 ^ (s - bits c) * 2 ^ (32 - s)" using * by (simp flip: power_add)
    then show ?thesis by (simp add: base_def up unat_network)
  qed
  have v: "unat v = unat base + m * 2 ^ (32 - s)"
    using *(9) by (simp add: v_def up subnet_at_network [OF assms] base nth_block_def algebra_simps)
  have "unat (v - base) = m * 2 ^ (32 - s)"
    by (simp add: unat_sub word_le_nat_alt v)
  then have q: "unat ((v - base) div step) = m" by (simp add: unat_div step)
  have "m < 2 ^ 31"
  proof -
    have "m < 2 ^ (s - bits c)" by (fact *)
    also have "(2::nat) ^ (s - bits c) \<le> 2 ^ 31" using * by (intro power_increasing) simp_all
    finally show ?thesis .
  qed
  then have "sint ((v - base) div step) = int m" by (subst sint_small) (simp_all add: q)
  then show ?thesis
    using subnet_at_contains(1) [OF assms] *
    by (simp add: subnet_index_def Let_def base_def step_def v_def)
qed

section \<open>Text\<close>

lemma addr_u32_roundtrip: "addr_to_u32 (u32_to_addr v) = v"
proof (rule bit_word_eqI)
  fix n assume "n < LENGTH(32)"
  then show "bit (addr_to_u32 (u32_to_addr v)) n \<longleftrightarrow> bit v n"
    by (simp add: addr_to_u32_def u32_to_addr_def bit_simps) (cases "n < 8"; cases "n < 16"; cases "n < 24"; auto)
qed

lemma not_digit_dot: "\<not> is_digit CHR ''.''" and not_digit_slash: "\<not> is_digit CHR ''/''"
  by (simp_all add: is_digit_def code_def)

lemma dec_string_no_dot: "CHR ''.'' \<notin> set (dec_string n)"
  using dec_string_digits not_digit_dot by blast

lemma dec_string_no_slash: "CHR ''/'' \<notin> set (dec_string n)"
  using dec_string_digits not_digit_slash by blast

lemma dec_string_shape:
  "dec_string n \<noteq> [] \<and> list_all is_digit (dec_string n) \<and>
   (length (dec_string n) > 1 \<longrightarrow> hd (dec_string n) \<noteq> CHR ''0'')"
proof -
  have "length (dec_string n) \<le> 1" if "hd (dec_string n) = CHR ''0''"
    using that dec_string_no_leading_zero [of n "tl (dec_string n)"]
    by (metis One_nat_def Suc_eq_plus1 add_0 dec_string_nonempty list.collapse list.size(3,4) order_refl)
  then show ?thesis using dec_string_digits by (auto simp: list_all_iff)
qed

lemma parse_octet_dec: "n \<le> 255 \<Longrightarrow> parse_octet (dec_string n) = Some n"
  using dec_string_shape [of n] by (simp add: parse_octet_def)

lemma parse_bits_dec: "n \<le> 32 \<Longrightarrow> parse_bits (dec_string n) = Some n"
  using dec_string_shape [of n] by (simp add: parse_bits_def)

lemma unat8_le: "unat (w :: 8 word) \<le> 255"
  using unsigned_less [of w, where ?'a = nat] by simp

lemma parse_ipv4_ip_string: "parse_ipv4 (ip_string v) = Some v"
proof -
  obtain a b c d where q: "u32_to_addr v = (a, b, c, d)" by (metis prod_cases4)
  have "split_byte CHR ''.'' (ip_string v) =
    [dec_string (unat a), dec_string (unat b), dec_string (unat c), dec_string (unat d)]"
    by (simp add: ip_string_def q split_byte_append split_byte_single dec_string_no_dot)
  then have "parse_ipv4 (ip_string v) = Some (addr_to_u32 (a, b, c, d))"
    by (simp add: parse_ipv4_def parse_octet_dec unat8_le)
  then show ?thesis using addr_u32_roundtrip [of v] by (simp add: q)
qed

lemma parse_cidr_string:
  assumes "cidr_ok c" and "network c = addr c"
  shows "parse_cidr (cidr_string c) = Inr c"
proof -
  have "last_index_byte CHR ''/'' (cidr_string c) = Some (length (ip_string (addr c)))"
    unfolding cidr_string_def by (rule last_index_byte_append) (rule dec_string_no_slash)
  then have "parse_prefix (cidr_string c) = Some c"
    using assms(1) by (simp add: parse_prefix_def cidr_string_def parse_ipv4_ip_string parse_bits_dec cidr_ok_def)
  then show ?thesis using assms(2) by (simp add: parse_cidr_def network_def)
qed

lemma parse_cidr_Inr: "parse_cidr s = Inr c \<Longrightarrow> cidr_ok c \<and> network c = addr c"
  by (auto simp: parse_cidr_def parse_prefix_def parse_bits_def cidr_ok_def network_def
      split: option.splits if_splits)

lemma cidr_string_inj:
  "cidr_ok c \<Longrightarrow> network c = addr c \<Longrightarrow> cidr_ok d \<Longrightarrow> network d = addr d \<Longrightarrow>
    cidr_string c = cidr_string d \<longleftrightarrow> c = d"
  by (metis parse_cidr_string sum.inject(2))

lemma cidr_string_no_bar: "CHR ''|'' \<notin> set (cidr_string c)"
proof -
  have "\<not> is_digit CHR ''|''" by (simp add: is_digit_def code_def)
  then have "CHR ''|'' \<notin> set (dec_string n)" for n using dec_string_digits by blast
  then show ?thesis by (auto simp: cidr_string_def ip_string_def split: prod.split)
qed

lemma reserved_ranges_parse:
  "map parse_cidr [''0.0.0.0/8'', ''127.0.0.0/8'', ''169.254.0.0/16'', ''224.0.0.0/4'', ''240.0.0.0/4'']
     = map Inr reserved_ranges"
  by code_simp

lemma cgnat_range_parse: "parse_cidr ''100.64.0.0/10'' = Inr cgnat_range"
  by code_simp

section \<open>Properties\<close>

text \<open>Property C16. Every index below the capacity of a pool names a subnet: \<open>SubnetAt\<close> returns it
  without error, the 64-bit arithmetic does not overflow, the subnet lies in the pool with the
  requested prefix, \<open>Index\<close> gives the index back, and its text parses to the same subnet.\<close>

theorem subnet_at_roundtrip:
  assumes "capacity c sp = Inr cap" and "0 \<le> i" and "i < cap"
  shows "\<exists>sub. subnet_at c i sp = Inr sub \<and> int (bits sub) = sp \<and> range_of sub \<subseteq> range_of c \<and>
    subnet_index c sub = Inr i \<and> parse_cidr (cidr_string sub) = Inr sub"
proof -
  from assms(1) have b: "int (bits c) < sp" "sp \<le> 30" "sp - int (bits c) < 31"
    and cap: "cap = 2 ^ nat (sp - int (bits c))" by (simp_all add: capacity_Inr)
  then obtain s where s: "sp = int s" by (metis less_imp_le of_nat_0_le_iff order_trans zero_le_imp_eq_int)
  obtain k where k: "i = int k" using assms(2) by (metis zero_le_imp_eq_int)
  have "nat (sp - int (bits c)) = s - bits c" by (simp add: s)
  with cap assms(3) k have "int k < 2 ^ (s - bits c)" by simp
  then have "k < 2 ^ (s - bits c)" by (metis of_nat_less_iff of_nat_numeral of_nat_power)
  with b s have "subnet_at c i sp = Inr \<lparr>addr = of_nat (nth_block c s k * 2 ^ (32 - s)), bits = s\<rparr>"
    unfolding s k by (intro subnet_at_eq) auto
  then obtain sub where sub: "subnet_at c i sp = Inr sub" by blast
  note facts = subnet_at_contains [OF sub]
  have "range_of sub \<subseteq> range_of c" using facts by (simp add: contains_iff)
  moreover have "parse_cidr (cidr_string sub) = Inr sub"
    by (rule parse_cidr_string [OF facts(2) subnet_at_network [OF sub]])
  ultimately show ?thesis using sub facts(4) subnet_index_at [OF sub] by blast
qed

lemma subnet_at_roundtrip_witness:
  "\<exists>sub. subnet_at \<lparr>addr = 0x0A800000, bits = 9\<rparr> 32767 24 = Inr sub \<and> int (bits sub) = 24 \<and>
    range_of sub \<subseteq> range_of \<lparr>addr = 0x0A800000, bits = 9\<rparr> \<and>
    subnet_index \<lparr>addr = 0x0A800000, bits = 9\<rparr> sub = Inr 32767 \<and> parse_cidr (cidr_string sub) = Inr sub"
  by (rule subnet_at_roundtrip [where cap = 32768]) (simp_all add: capacity_Inr)

text \<open>Two indices of one pool never share an address.\<close>

theorem subnets_share_no_address:
  assumes "subnet_at c i sp = Inr a" and "subnet_at c j sp = Inr b" and "i \<noteq> j"
  shows "range_of a \<inter> range_of b = {}"
  using subnets_disjoint [OF assms] subnet_at_contains(2) [OF assms(1)] subnet_at_contains(2) [OF assms(2)]
  by (simp add: overlaps_iff)

lemma subnets_share_no_address_witness:
  "\<exists>a b. subnet_at \<lparr>addr = 0x0A000000, bits = 28\<rparr> 0 30 = Inr a \<and>
     subnet_at \<lparr>addr = 0x0A000000, bits = 28\<rparr> 3 30 = Inr b \<and> range_of a \<inter> range_of b = {}"
proof -
  have "\<exists>a. subnet_at \<lparr>addr = 0x0A000000, bits = 28\<rparr> 0 30 = Inr a"
    "\<exists>b. subnet_at \<lparr>addr = 0x0A000000, bits = 28\<rparr> 3 30 = Inr b"
    using subnet_at_eq [of "\<lparr>addr = 0x0A000000, bits = 28\<rparr>" 30 0]
      subnet_at_eq [of "\<lparr>addr = 0x0A000000, bits = 28\<rparr>" 30 3] by simp_all
  then obtain a b where ab: "subnet_at \<lparr>addr = 0x0A000000, bits = 28\<rparr> 0 30 = Inr a"
    "subnet_at \<lparr>addr = 0x0A000000, bits = 28\<rparr> 3 30 = Inr b" by blast
  from subnets_share_no_address [OF ab] ab show ?thesis by auto
qed

text \<open>The prefix arithmetic agrees with the address sets it stands for: \<open>Overlaps\<close> is
  non-empty intersection, and \<open>Contains\<close> is inclusion of a network with an equal or longer prefix.\<close>

theorem overlaps_contains_correct:
  assumes "cidr_ok c" and "cidr_ok d"
  shows "(overlaps c d \<longleftrightarrow> range_of c \<inter> range_of d \<noteq> {}) \<and>
    (contains c d \<longleftrightarrow> bits c \<le> bits d \<and> range_of d \<subseteq> range_of c)"
  using assms by (simp add: overlaps_iff contains_iff)

lemma overlaps_contains_correct_witness:
  "(overlaps \<lparr>addr = 0x0A000000, bits = 8\<rparr> \<lparr>addr = 0x0A010000, bits = 16\<rparr> \<longleftrightarrow>
     range_of \<lparr>addr = 0x0A000000, bits = 8\<rparr> \<inter> range_of \<lparr>addr = 0x0A010000, bits = 16\<rparr> \<noteq> {}) \<and>
   (contains \<lparr>addr = 0x0A000000, bits = 8\<rparr> \<lparr>addr = 0x0A010000, bits = 16\<rparr> \<longleftrightarrow>
     bits \<lparr>addr = 0x0A000000, bits = 8\<rparr> \<le> bits \<lparr>addr = 0x0A010000, bits = 16\<rparr> \<and>
     range_of \<lparr>addr = 0x0A010000, bits = 16\<rparr> \<subseteq> range_of \<lparr>addr = 0x0A000000, bits = 8\<rparr>)"
  by (rule overlaps_contains_correct) (simp_all add: cidr_ok_def)

end
