(* ===== verification/Netpools.thy ===== *)
theory Netpools
  imports Ipam "HOL-Library.Product_Lexorder"
begin

text \<open>
  \<open>containermanager/netpools/pool.go\<close> and \<open>project_network.go\<close>: the in-memory views of a node's
  network pools and of the projects' networks, written through to PostgreSQL when a database is
  configured. A Go map that is iterated is an association list with distinct keys, standing for
  the order in which one run visits it. The database (field \<open>db\<close>, None without one) is its two
  tables with the unique indexes of \<open>migrations/0031_cm_network_pools.sql\<close>; a statement fails
  exactly when it breaks one. Statuses are strings, as in the code. \<open>now\<close> and \<open>uid\<close> are the
  values the clock and the UUID generator return to the call.
\<close>

abbreviation "StatusActive \<equiv> ''active''"
abbreviation "StatusDraining \<equiv> ''draining''"
abbreviation "StatusDisabled \<equiv> ''disabled''"
abbreviation "StatusExhausted \<equiv> ''exhausted''"
abbreviation "StatusConflict \<equiv> ''conflict''"

abbreviation "NetReserved \<equiv> ''reserved''"
abbreviation "NetCreating \<equiv> ''creating''"
abbreviation "NetActive \<equiv> ''active''"
abbreviation "NetDeleting \<equiv> ''deleting''"
abbreviation "NetReleased \<equiv> ''released''"
abbreviation "NetFailed \<equiv> ''failed''"
abbreviation "NetConflict \<equiv> ''conflict''"
abbreviation "NetDrift \<equiv> ''drift''"

record pool =
  p_id :: uuid
  p_node :: string
  p_name :: string
  p_description :: string
  p_address_pool :: string
  p_project_prefix :: int
  p_priority :: int
  p_status :: string
  p_next_index :: int
  p_reuse_enabled :: bool
  p_reuse_delay :: int
  p_system_default :: bool
  p_conflict_reason :: string
  p_created :: go_time
  p_updated :: go_time

record project_network =
  n_id :: uuid
  n_node :: string
  n_project :: string
  n_pool :: uuid
  n_index :: int
  n_subnet :: string
  n_gateway :: string
  n_docker :: string
  n_status :: string
  n_allocated :: go_time
  n_released :: go_time
  n_reuse_after :: go_time
  n_error :: string
  n_created :: go_time
  n_updated :: go_time

record tables =
  t_pools :: "pool list"
  t_nets :: "project_network list"

record ipam_state =
  pools :: "(uuid \<times> pool) list"
  nets :: "(string \<times> project_network) list"
  by_sub :: "string \<Rightarrow> project_network option"
  db :: "tables option"

datatype pool_error =
    PoolNotFound | PoolCidrInvalid ipam_error | PoolPrefixInvalid ipam_error
  | PoolReserved ipam_error | PoolOverlap | DbConstraint | NetNotFound | MissingIds
  | LockPoolFailed | PoolExhausted | AllPoolsExhausted | PoolInUse | Unplaceable ipam_error | AgentError string

section \<open>Pools\<close>

definition pool_cidr :: "pool \<Rightarrow> ipam_error + cidr" where
  "pool_cidr p = parse_cidr (p_address_pool p)"

definition capacity_int64 :: "pool \<Rightarrow> ipam_error + int" where
  "capacity_int64 p = (case pool_cidr p of Inl e \<Rightarrow> Inl e | Inr c \<Rightarrow> capacity c (p_project_prefix p))"

text \<open>\<open>INSERT ... ON CONFLICT (id) DO UPDATE\<close> on the pools table, with its unique indexes on
  \<open>(node_id, name)\<close> and \<open>(node_id, address_pool)\<close>. The update clause leaves the node, the
  address range, the prefix, the default flag and the creation time of the row.\<close>

definition pool_conflict :: "pool \<Rightarrow> pool list \<Rightarrow> bool" where
  "pool_conflict p ps \<longleftrightarrow> (\<exists>q \<in> set ps. p_id q \<noteq> p_id p \<and> p_node q = p_node p \<and>
     (p_name q = p_name p \<or> p_address_pool q = p_address_pool p))"

definition pool_do_update :: "pool \<Rightarrow> pool \<Rightarrow> pool" where
  "pool_do_update row p = row\<lparr>p_name := p_name p, p_description := p_description p,
     p_priority := p_priority p, p_status := p_status p, p_next_index := p_next_index p,
     p_reuse_enabled := p_reuse_enabled p, p_reuse_delay := p_reuse_delay p,
     p_conflict_reason := p_conflict_reason p, p_updated := p_updated p\<rparr>"

definition persist_pool :: "pool \<Rightarrow> ipam_state \<Rightarrow> ipam_state option" where
  "persist_pool p s = (case db s of
       None \<Rightarrow> Some s
     | Some t \<Rightarrow>
         let ps = (if p_id p \<in> p_id ` set (t_pools t)
                   then map (\<lambda>r. if p_id r = p_id p then pool_do_update r p else r) (t_pools t)
                   else p # t_pools t) in
         if \<exists>r \<in> set ps. p_id r = p_id p \<and> pool_conflict r ps then None
         else Some (s\<lparr>db := Some (t\<lparr>t_pools := ps\<rparr>)\<rparr>))"

definition load_pools :: "ipam_state \<Rightarrow> ipam_state" where
  "load_pools s = (case db s of
       None \<Rightarrow> s
     | Some t \<Rightarrow> s\<lparr>pools := foldl (\<lambda>m p. AList.update (p_id p) p m) (pools s) (t_pools t)\<rparr>)"

definition with_pool_defaults :: "uuid \<Rightarrow> pool \<Rightarrow> pool" where
  "with_pool_defaults uid p =
     (let p = (if p_id p = [] then p\<lparr>p_id := uid\<rparr> else p);
          p = (if p_status p = [] then p\<lparr>p_status := StatusActive\<rparr> else p);
          p = (if p_priority p = 0 then p\<lparr>p_priority := 100\<rparr> else p);
          p = p\<lparr>p_reuse_enabled := True\<rparr>
      in if p_reuse_delay p = 0 then p\<lparr>p_reuse_delay := 600\<rparr> else p)"

definition pool_overlaps_node :: "cidr \<Rightarrow> string \<Rightarrow> ipam_state \<Rightarrow> bool" where
  "pool_overlaps_node c node s \<longleftrightarrow> (\<exists>(_, other) \<in> set (pools s).
     p_node other = node \<and> (case pool_cidr other of Inl _ \<Rightarrow> False | Inr oc \<Rightarrow> overlaps oc c))"

definition create_pool :: "go_time \<Rightarrow> uuid \<Rightarrow> pool \<Rightarrow> ipam_state \<Rightarrow> (pool_error + pool) \<times> ipam_state" where
  "create_pool now uid p0 s =
     (let p = with_pool_defaults uid p0 in
      case parse_cidr (p_address_pool p) of
        Inl e \<Rightarrow> (Inl (PoolCidrInvalid e), s)
      | Inr c \<Rightarrow> (case capacity c (p_project_prefix p) of
          Inl e \<Rightarrow> (Inl (PoolPrefixInvalid e), s)
        | Inr _ \<Rightarrow> (case validate_pool c of
            Inl e \<Rightarrow> (Inl (PoolReserved e), s)
          | Inr _ \<Rightarrow>
              if pool_overlaps_node c (p_node p) s then (Inl PoolOverlap, s) else
              let p = p\<lparr>p_created := now, p_updated := now\<rparr> in
              case persist_pool p s of
                None \<Rightarrow> (Inl DbConstraint, s)
              | Some s' \<Rightarrow> (Inr p, s'\<lparr>pools := AList.update (p_id p) p (pools s')\<rparr>))))"

definition adopt_pool :: "pool \<Rightarrow> ipam_state \<Rightarrow> ipam_state" where
  "adopt_pool p s = s\<lparr>pools := AList.update (p_id p) p (pools s)\<rparr>"

definition get_pool :: "uuid \<Rightarrow> ipam_state \<Rightarrow> pool option" where
  "get_pool i s = map_of (pools s) i"

definition list_by_node :: "string \<Rightarrow> ipam_state \<Rightarrow> pool list" where
  "list_by_node node s =
     sort_key (\<lambda>p. (p_priority p, p_created p)) (filter (\<lambda>p. p_node p = node) (map snd (pools s)))"

definition list_pools :: "ipam_state \<Rightarrow> pool list" where
  "list_pools s = sort_key p_created (map snd (pools s))"

text \<open>A write that reaches memory first: the in-memory change stays when the database refuses.\<close>

definition update_pool :: "go_time \<Rightarrow> pool \<Rightarrow> ipam_state \<Rightarrow> (pool_error + pool) \<times> ipam_state" where
  "update_pool now p s = (case map_of (pools s) (p_id p) of
       None \<Rightarrow> (Inl PoolNotFound, s)
     | Some old \<Rightarrow>
         let new = old\<lparr>p_name := p_name p, p_description := p_description p, p_priority := p_priority p,
               p_status := p_status p, p_reuse_enabled := p_reuse_enabled p,
               p_reuse_delay := p_reuse_delay p, p_updated := now\<rparr>;
             s' = s\<lparr>pools := AList.update (p_id p) new (pools s)\<rparr> in
         case persist_pool new s' of None \<Rightarrow> (Inl DbConstraint, s') | Some s'' \<Rightarrow> (Inr new, s''))"

definition set_pool_status :: "go_time \<Rightarrow> uuid \<Rightarrow> string \<Rightarrow> string \<Rightarrow> ipam_state \<Rightarrow> pool_error option \<times> ipam_state" where
  "set_pool_status now i status reason s = (case map_of (pools s) i of
       None \<Rightarrow> (Some PoolNotFound, s)
     | Some p \<Rightarrow>
         let p = p\<lparr>p_status := status, p_conflict_reason := reason, p_updated := now\<rparr>;
             s' = s\<lparr>pools := AList.update i p (pools s)\<rparr> in
         case persist_pool p s' of None \<Rightarrow> (Some DbConstraint, s') | Some s'' \<Rightarrow> (None, s''))"

text \<open>The delete statement fails when a network row still references the pool.\<close>

definition delete_pool :: "uuid \<Rightarrow> ipam_state \<Rightarrow> pool_error option \<times> ipam_state" where
  "delete_pool i s = (case db s of
       None \<Rightarrow> (None, s\<lparr>pools := AList.delete i (pools s)\<rparr>)
     | Some t \<Rightarrow>
         if \<exists>n \<in> set (t_nets t). n_pool n = i then (Some DbConstraint, s)
         else (None, s\<lparr>pools := AList.delete i (pools s),
                 db := Some (t\<lparr>t_pools := filter (\<lambda>p. p_id p \<noteq> i) (t_pools t)\<rparr>)\<rparr>))"

section \<open>Project networks\<close>

definition subnet_key :: "string \<Rightarrow> string \<Rightarrow> string" where
  "subnet_key node subnet = node @ CHR ''|'' # subnet"

definition net_key :: "project_network \<Rightarrow> string" where
  "net_key n = subnet_key (n_node n) (n_subnet n)"

text \<open>Both indexes of the store are written together.\<close>

definition adopt_net :: "project_network \<Rightarrow> ipam_state \<Rightarrow> ipam_state" where
  "adopt_net n s = s\<lparr>nets := AList.update (n_project n) n (nets s),
     by_sub := (by_sub s)(net_key n \<mapsto> n)\<rparr>"

definition net_conflict :: "project_network \<Rightarrow> project_network list \<Rightarrow> bool" where
  "net_conflict n ns \<longleftrightarrow> (\<exists>m \<in> set ns. n_id m \<noteq> n_id n \<and>
     (n_node m = n_node n \<and> n_subnet m = n_subnet n \<or> n_project m = n_project n))"

definition net_do_update :: "project_network \<Rightarrow> project_network \<Rightarrow> project_network" where
  "net_do_update row n = row\<lparr>n_index := n_index n, n_subnet := n_subnet n, n_gateway := n_gateway n,
     n_docker := n_docker n, n_status := n_status n, n_allocated := n_allocated n,
     n_released := n_released n, n_reuse_after := n_reuse_after n, n_error := n_error n,
     n_updated := n_updated n\<rparr>"

definition persist_net :: "project_network \<Rightarrow> ipam_state \<Rightarrow> ipam_state option" where
  "persist_net n s = (case db s of
       None \<Rightarrow> Some s
     | Some t \<Rightarrow>
         let ns = (if n_id n \<in> n_id ` set (t_nets t)
                   then map (\<lambda>r. if n_id r = n_id n then net_do_update r n else r) (t_nets t)
                   else n # t_nets t) in
         if \<exists>r \<in> set ns. n_id r = n_id n \<and> net_conflict r ns then None
         else Some (s\<lparr>db := Some (t\<lparr>t_nets := ns\<rparr>)\<rparr>))"

definition load_nets :: "ipam_state \<Rightarrow> ipam_state" where
  "load_nets s = (case db s of None \<Rightarrow> s | Some t \<Rightarrow> foldl (\<lambda>s n. adopt_net n s) s (t_nets t))"

definition get_by_project :: "string \<Rightarrow> ipam_state \<Rightarrow> project_network option" where
  "get_by_project p s = map_of (nets s) p"

definition in_use_on_node :: "go_time \<Rightarrow> string \<Rightarrow> string \<Rightarrow> ipam_state \<Rightarrow> bool" where
  "in_use_on_node now node subnet s = (case by_sub s (subnet_key node subnet) of
       None \<Rightarrow> False
     | Some n \<Rightarrow> \<not> (n_status n = NetReleased \<and> \<not> n_reuse_after n > now))"

definition is_free :: "go_time \<Rightarrow> string \<Rightarrow> string \<Rightarrow> bool \<Rightarrow> ipam_state \<Rightarrow> bool" where
  "is_free now node subnet reuse_enabled s = (case by_sub s (subnet_key node subnet) of
       None \<Rightarrow> True
     | Some n \<Rightarrow> if n_status n = NetReleased then reuse_enabled \<and> \<not> n_reuse_after n > now else False)"

definition put_net :: "go_time \<Rightarrow> uuid \<Rightarrow> project_network \<Rightarrow> ipam_state \<Rightarrow>
    (pool_error + project_network) \<times> ipam_state" where
  "put_net now uid n0 s =
     (let n = (if n_id n0 = [] then n0\<lparr>n_id := uid\<rparr> else n0);
          n = (if n_created n = 0 then n\<lparr>n_created := now\<rparr> else n);
          n = n\<lparr>n_updated := now\<rparr> in
      case persist_net n s of None \<Rightarrow> (Inl DbConstraint, s) | Some s' \<Rightarrow> (Inr n, adopt_net n s'))"

definition set_net_status :: "go_time \<Rightarrow> string \<Rightarrow> string \<Rightarrow> (project_network \<Rightarrow> project_network) \<Rightarrow>
    ipam_state \<Rightarrow> pool_error option \<times> ipam_state" where
  "set_net_status now project status mutate s = (case map_of (nets s) project of
       None \<Rightarrow> (Some NetNotFound, s)
     | Some n \<Rightarrow>
         let n = mutate (n\<lparr>n_status := status, n_updated := now\<rparr>);
             s' = s\<lparr>nets := AList.update project n (nets s), by_sub := (by_sub s)(net_key n \<mapsto> n)\<rparr> in
         case persist_net n s' of None \<Rightarrow> (Some DbConstraint, s') | Some s'' \<Rightarrow> (None, s''))"

definition delete_net :: "string \<Rightarrow> ipam_state \<Rightarrow> ipam_state" where
  "delete_net project s = (case map_of (nets s) project of
       None \<Rightarrow> s
     | Some n \<Rightarrow> s\<lparr>nets := AList.delete project (nets s), by_sub := (by_sub s)(net_key n := None),
         db := map_option (\<lambda>t. t\<lparr>t_nets := filter (\<lambda>r. n_project r \<noteq> project) (t_nets t)\<rparr>) (db s)\<rparr>)"

definition count_by_pool_status :: "uuid \<Rightarrow> string \<Rightarrow> ipam_state \<Rightarrow> nat" where
  "count_by_pool_status pl status s =
     length (filter (\<lambda>n. n_pool n = pl \<and> n_status n = status) (map snd (nets s)))"

record usage =
  u_allocated :: int
  u_reserved :: int
  u_waiting :: int
  u_available :: int

definition pool_nets :: "uuid \<Rightarrow> ipam_state \<Rightarrow> project_network list" where
  "pool_nets pl s = filter (\<lambda>n. n_pool n = pl) (map snd (nets s))"

definition pool_usage :: "go_time \<Rightarrow> pool \<Rightarrow> ipam_state \<Rightarrow> ipam_error + usage" where
  "pool_usage now p s = (case capacity_int64 p of
       Inl e \<Rightarrow> Inl e
     | Inr cap \<Rightarrow>
         let ns = pool_nets (p_id p) s;
             a = int (length (filter (\<lambda>n. n_status n = NetActive) ns));
             r = int (length (filter (\<lambda>n. n_status n \<in>
                   {NetReserved, NetCreating, NetDeleting, NetFailed, NetConflict, NetDrift}) ns));
             w = int (length (filter (\<lambda>n. n_status n = NetReleased \<and> n_reuse_after n > now) ns)) in
         Inr \<lparr>u_allocated = a, u_reserved = r, u_waiting = w, u_available = cap - a - r - w\<rparr>)"

end
