(* ===== verification/Net_Allocator.thy ===== *)
theory Net_Allocator
  imports Netpools
begin

text \<open>
  \<open>containermanager/netpools/allocator.go\<close>, \<open>service.go\<close>, \<open>provisioner.go\<close>, \<open>checker.go\<close> and
  \<open>defaults.go\<close>: the allocation of subnets to projects and the operations built on it. Every
  function takes the time of the call and the UUID it would generate, and threads the state of
  \<open>Netpools\<close>. Memory mode is \<open>db s = None\<close>. What the node agent answers is an argument.
\<close>

section \<open>Allocation\<close>

text \<open>The loop of \<open>pickSubnet\<close>; the last argument counts the rounds left, so round \<open>i\<close> is
  \<open>cap - Suc n\<close>.\<close>

fun pick_loop :: "cidr \<Rightarrow> int \<Rightarrow> int \<Rightarrow> int \<Rightarrow> (string \<Rightarrow> bool) \<Rightarrow> nat \<Rightarrow> pool_error + int \<times> cidr" where
  "pick_loop c cap start sp free 0 = Inl PoolExhausted"
| "pick_loop c cap start sp free (Suc n) =
     (let idx = (start + (cap - int (Suc n))) mod cap in
      case subnet_at c idx sp of
        Inl e \<Rightarrow> Inl (Unplaceable e)
      | Inr sub \<Rightarrow> if free (cidr_string sub) then Inr (idx, sub) else pick_loop c cap start sp free n)"

definition pick_subnet :: "cidr \<Rightarrow> int \<Rightarrow> int \<Rightarrow> int \<Rightarrow> (string \<Rightarrow> bool) \<Rightarrow> pool_error + int \<times> cidr" where
  "pick_subnet c cap start sp free =
     (if cap \<le> 0 then Inl PoolExhausted
      else let start = (if start < 0 \<or> start \<ge> cap then 0 else start) in
        pick_loop c cap start sp free (nat cap))"

definition gateway_string :: "cidr \<Rightarrow> string" where
  "gateway_string c = (case gateway c of Inl _ \<Rightarrow> ''invalid IP'' | Inr a \<Rightarrow> ip_string a)"

definition build_network :: "go_time \<Rightarrow> uuid \<Rightarrow> pool \<Rightarrow> string \<Rightarrow> string \<Rightarrow> int \<Rightarrow> cidr \<Rightarrow> project_network" where
  "build_network now uid p project name idx sub =
     \<lparr>n_id = uid, n_node = p_node p, n_project = project, n_pool = p_id p, n_index = idx,
      n_subnet = cidr_string sub, n_gateway = gateway_string sub, n_docker = name,
      n_status = NetReserved, n_allocated = 0, n_released = 0, n_reuse_after = 0, n_error = [],
      n_created = now, n_updated = now\<rparr>"

text \<open>\<open>loadUsed\<close>: the rows of one pool on one node, by subnet.\<close>

definition load_used :: "string \<Rightarrow> uuid \<Rightarrow> tables \<Rightarrow> string \<Rightarrow> (string \<times> go_time) option" where
  "load_used node pl t = map_of (map (\<lambda>n. (n_subnet n, n_status n, n_reuse_after n))
     (filter (\<lambda>n. n_node n = node \<and> n_pool n = pl) (rev (t_nets t))))"

definition insert_network :: "project_network \<Rightarrow> tables \<Rightarrow> tables option" where
  "insert_network n t =
     (if n_id n \<in> n_id ` set (t_nets t) \<or> net_conflict n (t_nets t) then None
      else Some (t\<lparr>t_nets := n # t_nets t\<rparr>))"

definition free_in_used :: "go_time \<Rightarrow> bool \<Rightarrow> (string \<Rightarrow> (string \<times> go_time) option) \<Rightarrow> string \<Rightarrow> bool" where
  "free_in_used now reuse used subnet = (case used subnet of
       None \<Rightarrow> True
     | Some (status, reuse_after) \<Rightarrow>
         if status = NetReleased then reuse \<and> \<not> reuse_after > now else False)"

definition allocate_in_pool :: "go_time \<Rightarrow> uuid \<Rightarrow> pool \<Rightarrow> string \<Rightarrow> string \<Rightarrow> ipam_state \<Rightarrow>
    (pool_error + project_network) \<times> ipam_state" where
  "allocate_in_pool now uid p project name s = (case (pool_cidr p, capacity_int64 p) of
       (Inl e, _) \<Rightarrow> (Inl (PoolCidrInvalid e), s)
     | (Inr _, Inl e) \<Rightarrow> (Inl (PoolPrefixInvalid e), s)
     | (Inr c, Inr cap) \<Rightarrow> (case db s of
         None \<Rightarrow>
           (case pick_subnet c cap (p_next_index p) (p_project_prefix p)
                   (\<lambda>sub. is_free now (p_node p) sub (p_reuse_enabled p) s) of
              Inl e \<Rightarrow> (Inl e, s)
            | Inr (idx, sub) \<Rightarrow> put_net now uid (build_network now uid p project name idx sub) s)
       | Some t \<Rightarrow>
           (case find (\<lambda>r. p_id r = p_id p) (t_pools t) of
              None \<Rightarrow> (Inl LockPoolFailed, s)
            | Some row \<Rightarrow>
                (case pick_subnet c cap (p_next_index row) (p_project_prefix p)
                        (free_in_used now (p_reuse_enabled p) (load_used (p_node p) (p_id p) t)) of
                   Inl e \<Rightarrow> (Inl e, s)
                 | Inr (idx, sub) \<Rightarrow>
                     let n = build_network now uid p project name idx sub;
                         next = (idx + 1) mod cap in
                     case insert_network n t of
                       None \<Rightarrow> (Inl DbConstraint, s)
                     | Some t' \<Rightarrow>
                         let t'' = t'\<lparr>t_pools := map (\<lambda>r. if p_id r = p_id p
                               then r\<lparr>p_next_index := next, p_updated := now\<rparr> else r) (t_pools t')\<rparr>;
                             s' = adopt_pool (p\<lparr>p_next_index := next\<rparr>) (s\<lparr>db := Some t''\<rparr>) in
                         (Inr n, adopt_net n s')))))"

fun allocate_loop :: "go_time \<Rightarrow> uuid \<Rightarrow> string \<Rightarrow> string \<Rightarrow> pool list \<Rightarrow> ipam_state \<Rightarrow>
    (pool_error + project_network) \<times> ipam_state" where
  "allocate_loop now uid project name [] s = (Inl AllPoolsExhausted, s)"
| "allocate_loop now uid project name (p # ps) s =
     (if p_status p = StatusDraining \<or> p_status p = StatusDisabled \<or> p_status p = StatusConflict
      then allocate_loop now uid project name ps s
      else (case allocate_in_pool now uid p project name s of
         (Inr n, s') \<Rightarrow> (Inr n, if p_status p = StatusExhausted
              then snd (set_pool_status now (p_id p) StatusActive [] s') else s')
       | (Inl e, s') \<Rightarrow>
           if e = PoolExhausted
           then allocate_loop now uid project name ps
             (if p_status p \<noteq> StatusExhausted
              then snd (set_pool_status now (p_id p) StatusExhausted [] s') else s')
           else (Inl e, s')))"

definition allocate :: "go_time \<Rightarrow> uuid \<Rightarrow> string \<Rightarrow> string \<Rightarrow> string \<Rightarrow> ipam_state \<Rightarrow>
    (pool_error + project_network) \<times> ipam_state" where
  "allocate now uid node project name s =
     (if node = [] \<or> project = [] then (Inl MissingIds, s)
      else case get_by_project project s of
        Some n \<Rightarrow> if n_status n \<noteq> NetReleased then (Inr n, s)
          else allocate_loop now uid project name (list_by_node node s) s
      | None \<Rightarrow> allocate_loop now uid project name (list_by_node node s) s)"

text \<open>\<open>Release\<close>: the project's record is released and may be reused after the delay.\<close>

definition mark_released :: "go_time \<Rightarrow> int \<Rightarrow> project_network \<Rightarrow> project_network" where
  "mark_released now delay n = n\<lparr>n_released := now, n_reuse_after := now + wrap64 (delay * second)\<rparr>"

definition release :: "go_time \<Rightarrow> string \<Rightarrow> int \<Rightarrow> ipam_state \<Rightarrow> pool_error option \<times> ipam_state" where
  "release now project delay s = (case get_by_project project s of
       None \<Rightarrow> (None, s)
     | Some n \<Rightarrow>
         let delay = (if delay \<le> 0 then 600 else delay) in
         case set_net_status now project NetReleased (mark_released now delay) s of
           (Some e, s') \<Rightarrow> (Some e, s')
         | (None, s') \<Rightarrow> (case get_pool (n_pool n) s' of
               None \<Rightarrow> (None, s')
             | Some p \<Rightarrow> (None, if p_status p = StatusExhausted
                  then snd (set_pool_status now (p_id p) StatusActive [] s') else s')))"

section \<open>The pool service\<close>

record default_pool =
  d_address :: string
  d_prefix :: int
  d_reuse :: bool
  d_delay :: int

definition default_system_pool :: default_pool where
  "default_system_pool = \<lparr>d_address = ''10.128.0.0/9'', d_prefix = 24, d_reuse = True, d_delay = 600\<rparr>"

definition set_default_pool :: "default_pool \<Rightarrow> default_pool \<Rightarrow> default_pool" where
  "set_default_pool cfg cur = (if d_address cfg \<noteq> [] \<and> d_prefix cfg > 0 then cfg else cur)"

text \<open>\<open>applyContainerKey\<close> on a decoded JSON value; a value of the wrong type is ignored.\<close>

datatype json_value = JString string | JInt int | JBool bool | JOther

definition apply_container_key :: "string \<Rightarrow> json_value \<Rightarrow> default_pool \<Rightarrow> default_pool" where
  "apply_container_key key v out =
     (if key = ''default_network_pool'' then
        (case v of JString a \<Rightarrow> if a \<noteq> [] then out\<lparr>d_address := a\<rparr> else out | _ \<Rightarrow> out)
      else if key = ''default_project_prefix'' then
        (case v of JInt n \<Rightarrow> if n > 0 then out\<lparr>d_prefix := n\<rparr> else out | _ \<Rightarrow> out)
      else if key = ''default_reuse_enabled'' then
        (case v of JBool b \<Rightarrow> out\<lparr>d_reuse := b\<rparr> | _ \<Rightarrow> out)
      else if key = ''default_reuse_delay_seconds'' then
        (case v of JInt n \<Rightarrow> if n \<ge> 0 then out\<lparr>d_delay := n\<rparr> else out | _ \<Rightarrow> out)
      else out)"

text \<open>\<open>network.check\<close> on the node: the subnets of its Docker networks, its routes and its
  interfaces, None when the call fails. The pool conflicts with the first that parses and
  overlaps it; the number says which list.\<close>

record node_networks =
  docker_subnets :: "string list"
  host_routes :: "string list"
  interface_nets :: "string list"

definition overlaps_text :: "cidr \<Rightarrow> string \<Rightarrow> bool" where
  "overlaps_text c t = (case parse_cidr t of Inl _ \<Rightarrow> False | Inr o' \<Rightarrow> overlaps c o')"

definition check_node :: "node_networks option \<Rightarrow> cidr \<Rightarrow> pool_error + (nat \<times> string) option" where
  "check_node answer c = (case answer of
       None \<Rightarrow> Inl (AgentError ''network.check'')
     | Some nn \<Rightarrow> (case find (\<lambda>t. t \<noteq> [] \<and> overlaps_text c t) (docker_subnets nn) of
           Some t \<Rightarrow> Inr (Some (0, t))
         | None \<Rightarrow> (case find (overlaps_text c) (host_routes nn) of
               Some t \<Rightarrow> Inr (Some (1, t))
             | None \<Rightarrow> (case find (overlaps_text c) (interface_nets nn) of
                   Some t \<Rightarrow> Inr (Some (2, t))
                 | None \<Rightarrow> Inr None))))"

definition conflict_reason :: "nat \<times> string \<Rightarrow> string" where
  "conflict_reason r = ''overlaps '' @ snd r"

definition service_create :: "go_time \<Rightarrow> uuid \<Rightarrow> node_networks option \<Rightarrow> pool \<Rightarrow> ipam_state \<Rightarrow>
    (pool_error + pool) \<times> ipam_state" where
  "service_create now uid answer p s = (case create_pool now uid p s of
       (Inl e, s') \<Rightarrow> (Inl e, s')
     | (Inr p', s') \<Rightarrow> (case pool_cidr p' of
           Inl _ \<Rightarrow> (Inr p', s')
         | Inr c \<Rightarrow> (case check_node answer c of
               Inr (Some r) \<Rightarrow>
                 (Inr (p'\<lparr>p_status := StatusConflict, p_conflict_reason := conflict_reason r\<rparr>),
                  snd (set_pool_status now (p_id p') StatusConflict (conflict_reason r) s'))
             | Inr None \<Rightarrow> (Inr p', s')
             | Inl _ \<Rightarrow> (Inr (p'\<lparr>p_conflict_reason := ''check failed''\<rparr>), s'))))"

record update_pool_input =
  i_name :: string
  i_description :: string
  i_priority :: "int option"
  i_status :: string
  i_reuse :: "bool option"
  i_delay :: "int option"

definition service_update :: "go_time \<Rightarrow> string \<Rightarrow> uuid \<Rightarrow> update_pool_input \<Rightarrow> ipam_state \<Rightarrow>
    (pool_error + pool) \<times> ipam_state" where
  "service_update now node i inp s = (case get_pool i s of
       None \<Rightarrow> (Inl PoolNotFound, s)
     | Some old \<Rightarrow>
         if p_node old \<noteq> node then (Inl PoolNotFound, s) else
         let cur = (if i_name inp \<noteq> [] then old\<lparr>p_name := i_name inp\<rparr> else old);
             cur = cur\<lparr>p_description := i_description inp\<rparr>;
             cur = (case i_priority inp of None \<Rightarrow> cur | Some v \<Rightarrow> cur\<lparr>p_priority := v\<rparr>);
             cur = (if i_status inp \<noteq> [] then cur\<lparr>p_status := i_status inp\<rparr> else cur);
             cur = (case i_reuse inp of None \<Rightarrow> cur | Some v \<Rightarrow> cur\<lparr>p_reuse_enabled := v\<rparr>);
             cur = (case i_delay inp of None \<Rightarrow> cur | Some v \<Rightarrow> cur\<lparr>p_reuse_delay := v\<rparr>) in
         update_pool now cur s)"

definition service_delete :: "string \<Rightarrow> uuid \<Rightarrow> ipam_state \<Rightarrow> pool_error option \<times> ipam_state" where
  "service_delete node i s = (case get_pool i s of
       None \<Rightarrow> (Some PoolNotFound, s)
     | Some p \<Rightarrow>
         if p_node p \<noteq> node then (Some PoolNotFound, s)
         else if \<exists>st \<in> set [NetActive, NetReserved, NetCreating, NetDeleting, NetFailed].
                count_by_pool_status i st s > 0 then (Some PoolInUse, s)
         else delete_pool i s)"

definition service_check :: "go_time \<Rightarrow> string \<Rightarrow> uuid \<Rightarrow> node_networks option \<Rightarrow> ipam_state \<Rightarrow>
    pool_error option \<times> ipam_state" where
  "service_check now node i answer s = (case get_pool i s of
       None \<Rightarrow> (Some PoolNotFound, s)
     | Some p \<Rightarrow>
         if p_node p \<noteq> node then (Some PoolNotFound, s) else
         case pool_cidr p of
           Inl e \<Rightarrow> (Some (PoolCidrInvalid e), s)
         | Inr c \<Rightarrow> (case check_node answer c of
               Inl e \<Rightarrow> (Some e, s)
             | Inr (Some r) \<Rightarrow> set_pool_status now i StatusConflict (conflict_reason r) s
             | Inr None \<Rightarrow> if p_status p = StatusConflict then set_pool_status now i StatusActive [] s
                 else (None, s)))"

definition ensure_default :: "go_time \<Rightarrow> uuid \<Rightarrow> default_pool \<Rightarrow> string \<Rightarrow> ipam_state \<Rightarrow>
    pool_error option \<times> ipam_state" where
  "ensure_default now uid d node s =
     (if list_by_node node s \<noteq> [] then (None, s) else
      case create_pool now uid
          \<lparr>p_id = [], p_node = node, p_name = ''default'', p_description = [],
           p_address_pool = d_address d, p_project_prefix = d_prefix d, p_priority = 10,
           p_status = [], p_next_index = 0, p_reuse_enabled = False, p_reuse_delay = 0,
           p_system_default = True, p_conflict_reason = [], p_created = 0, p_updated = 0\<rparr> s of
        (Inl e, s') \<Rightarrow> (Some e, s')
      | (Inr p, s') \<Rightarrow>
          let p = p\<lparr>p_reuse_enabled := d_reuse d\<rparr>;
              p = (if d_delay d > 0 then p\<lparr>p_reuse_delay := d_delay d\<rparr> else p) in
          case update_pool now p s' of (Inl e, s'') \<Rightarrow> (Some e, s'') | (Inr _, s'') \<Rightarrow> (None, s''))"

section \<open>The provisioner\<close>

text \<open>\<open>Ensure\<close> and \<open>Release\<close> of an application's network. The agent's answer is an error text, or
  None when the node was reached and the call succeeded; \<open>reached\<close> tells the lookup of the node
  apart from the call.\<close>

definition provision_ensure :: "go_time \<Rightarrow> uuid \<Rightarrow> string option \<Rightarrow> string \<Rightarrow> string \<Rightarrow> string \<Rightarrow> ipam_state \<Rightarrow>
    (pool_error + string) \<times> ipam_state" where
  "provision_ensure now uid answer node app name s = (case allocate now uid node app name s of
       (Inl e, s') \<Rightarrow> (Inl e, s')
     | (Inr _, s') \<Rightarrow> (case answer of
           Some err \<Rightarrow> (Inl (AgentError err),
             snd (set_net_status now app NetReserved (\<lambda>n. n\<lparr>n_error := err\<rparr>) s'))
         | None \<Rightarrow> (case set_net_status now app NetActive (\<lambda>n. n\<lparr>n_allocated := now, n_error := []\<rparr>) s' of
             (Some e, s'') \<Rightarrow> (Inl e, s'')
           | (None, s'') \<Rightarrow> (Inr name, s''))))"

definition provision_release :: "go_time \<Rightarrow> bool \<Rightarrow> string option \<Rightarrow> string \<Rightarrow> ipam_state \<Rightarrow>
    pool_error option \<times> ipam_state" where
  "provision_release now reached answer app s = (case get_by_project app s of
       None \<Rightarrow> (None, s)
     | Some rec \<Rightarrow>
         if \<not> reached then (Some (AgentError ''node''), s) else
         case answer of
           Some err \<Rightarrow> (Some (AgentError err),
             snd (set_net_status now app NetFailed (\<lambda>n. n\<lparr>n_error := err\<rparr>) s))
         | None \<Rightarrow> release now app
             (case get_pool (n_pool rec) s of None \<Rightarrow> 0 | Some p \<Rightarrow> p_reuse_delay p) s)"

end
