(* ===== verification/Net_Invariant.thy ===== *)
theory Net_Invariant
  imports Net_Allocator
begin

text \<open>
  What the IP pools promise: \<open>pick_subnet\<close> finds a free subnet whenever there is one, and in
  every state the operations of \<open>Net_Allocator\<close> reach without a database and without a second
  release of a network, two projects that hold a network on one node hold address ranges with no
  address in common. The invariant ties the two indexes of the network store together and every live
  network to a slot of its pool.
\<close>

section \<open>Picking a subnet\<close>

lemma pick_loop_Inr:
  "pick_loop c cap start sp free n = Inr (idx, sub) \<Longrightarrow> 0 < cap \<Longrightarrow>
    subnet_at c idx sp = Inr sub \<and> free (cidr_string sub) \<and> 0 \<le> idx \<and> idx < cap"
  by (induction n) (auto simp: Let_def split: sum.splits if_splits)

lemma subnet_at_total:
  assumes "capacity c sp = Inr cap" and "0 \<le> i" and "i < cap"
  shows "\<exists>sub. subnet_at c i sp = Inr sub"
proof -
  from assms(1) obtain s where s: "sp = int s" "bits c < s" "s \<le> 30" "s - bits c < 31"
    and cap: "cap = 2 ^ (s - bits c)"
  proof -
    assume a: "\<And>s. sp = int s \<Longrightarrow> bits c < s \<Longrightarrow> s \<le> 30 \<Longrightarrow> s - bits c < 31 \<Longrightarrow>
      cap = 2 ^ (s - bits c) \<Longrightarrow> thesis"
    from assms(1) have "int (bits c) < sp" "sp \<le> 30" "sp - int (bits c) < 31"
      "cap = 2 ^ nat (sp - int (bits c))" by (simp_all add: capacity_Inr)
    then show thesis by (intro a [of "nat sp"]) (auto simp: nat_diff_distrib)
  qed
  have "nat i < 2 ^ (s - bits c)"
    using assms(2,3) cap by (simp add: nat_less_iff)
  from subnet_at_eq [OF s(2,3) this s(4)] assms(2) s(1) show ?thesis by simp
qed

lemma pick_loop_Inl:
  assumes cap: "capacity c sp = Inr cap" and pos: "0 < cap"
  shows "pick_loop c cap start sp free n = Inl e \<Longrightarrow> e = PoolExhausted \<and>
    (\<forall>k sub. cap - int n \<le> k \<and> k < cap \<and> subnet_at c ((start + k) mod cap) sp = Inr sub \<longrightarrow>
      \<not> free (cidr_string sub))"
proof (induction n)
  case 0
  then show ?case by auto
next
  case (Suc n)
  let ?idx = "(start + (cap - int (Suc n))) mod cap"
  have "0 \<le> ?idx \<and> ?idx < cap" using pos by simp
  then obtain sub where sub: "subnet_at c ?idx sp = Inr sub"
    using subnet_at_total [OF cap] by blast
  with Suc.prems have nf: "\<not> free (cidr_string sub)" and "pick_loop c cap start sp free n = Inl e"
    by (auto simp: Let_def split: if_splits)
  with Suc.IH have IH: "e = PoolExhausted"
    "\<And>k sub. cap - int n \<le> k \<Longrightarrow> k < cap \<Longrightarrow> subnet_at c ((start + k) mod cap) sp = Inr sub \<Longrightarrow>
      \<not> free (cidr_string sub)" by blast+
  have "\<not> free (cidr_string sub')"
    if "cap - int (Suc n) \<le> k" "k < cap" "subnet_at c ((start + k) mod cap) sp = Inr sub'" for k sub'
  proof (cases "k = cap - int (Suc n)")
    case True
    with that(3) sub nf show ?thesis by simp
  next
    case False
    with that(1) have "cap - int n \<le> k" by simp
    from IH(2) [OF this that(2,3)] show ?thesis .
  qed
  with IH(1) show ?case by blast
qed

lemma pick_subnet_Inr:
  "pick_subnet c cap start sp free = Inr (idx, sub) \<Longrightarrow>
    subnet_at c idx sp = Inr sub \<and> free (cidr_string sub) \<and> 0 \<le> idx \<and> idx < cap"
  by (auto simp: pick_subnet_def Let_def dest: pick_loop_Inr split: if_splits)

lemma pick_subnet_Inl:
  assumes cap: "capacity c sp = Inr cap" and none: "pick_subnet c cap start sp free = Inl e"
  shows "e = PoolExhausted \<and>
    (\<forall>i sub. 0 \<le> i \<and> i < cap \<and> subnet_at c i sp = Inr sub \<longrightarrow> \<not> free (cidr_string sub))"
proof -
  from cap have pos: "0 < cap" by (auto simp: capacity_Inr)
  define st where "st = (if start < 0 \<or> start \<ge> cap then 0 else start)"
  have st: "0 \<le> st" "st < cap" using pos by (auto simp: st_def)
  from none pos have "pick_loop c cap st sp free (nat cap) = Inl e"
    by (simp add: pick_subnet_def st_def Let_def split: if_splits)
  from pick_loop_Inl [OF cap pos this] have e: "e = PoolExhausted" and
    nf: "\<And>k sub. 0 \<le> k \<Longrightarrow> k < cap \<Longrightarrow> subnet_at c ((st + k) mod cap) sp = Inr sub \<Longrightarrow>
      \<not> free (cidr_string sub)" using pos by auto
  have "\<not> free (cidr_string sub)" if "0 \<le> i" "i < cap" "subnet_at c i sp = Inr sub" for i sub
  proof (rule nf [of "(i - st) mod cap"])
    have "(st + (i - st) mod cap) mod cap = i"
      using that by (simp add: mod_add_right_eq)
    then show "subnet_at c ((st + (i - st) mod cap) mod cap) sp = Inr sub" using that by simp
  qed (use pos in simp_all)
  with e show ?thesis by blast
qed

section \<open>The invariant\<close>

definition live :: "project_network \<Rightarrow> bool" where
  "live n \<longleftrightarrow> n_status n \<noteq> NetReleased"

definition net_statuses :: "string list" where
  "net_statuses = [NetReleased, NetActive, NetReserved, NetCreating, NetDeleting, NetFailed]"

definition placed :: "(uuid \<Rightarrow> pool option) \<Rightarrow> project_network \<Rightarrow> bool" where
  "placed P n \<longleftrightarrow> (\<exists>p c sub. P (n_pool n) = Some p \<and> n_node n = p_node p \<and> pool_cidr p = Inr c \<and>
     subnet_at c (n_index n) (p_project_prefix p) = Inr sub \<and> n_subnet n = cidr_string sub)"

definition pool_ok :: "uuid \<Rightarrow> pool \<Rightarrow> bool" where
  "pool_ok i p \<longleftrightarrow> p_id p = i \<and>
     (\<exists>c cap. pool_cidr p = Inr c \<and> capacity c (p_project_prefix p) = Inr cap)"

definition apart :: "pool \<Rightarrow> pool \<Rightarrow> bool" where
  "apart p q \<longleftrightarrow> (p_node p = p_node q \<longrightarrow>
     (\<forall>c d. pool_cidr p = Inr c \<longrightarrow> pool_cidr q = Inr d \<longrightarrow> \<not> overlaps c d))"

definition net_ok :: "(uuid \<Rightarrow> pool option) \<Rightarrow> (string \<Rightarrow> project_network option) \<Rightarrow> string \<Rightarrow>
    project_network \<Rightarrow> bool" where
  "net_ok P B x n \<longleftrightarrow> n_project n = x \<and> n_status n \<in> set net_statuses \<and>
     (live n \<longrightarrow> B (net_key n) = Some n \<and> placed P n)"

definition ipam_inv :: "ipam_state \<Rightarrow> bool" where
  "ipam_inv s \<longleftrightarrow> db s = None \<and> distinct (map fst (pools s)) \<and> distinct (map fst (nets s)) \<and>
     (\<forall>i p. map_of (pools s) i = Some p \<longrightarrow> pool_ok i p) \<and>
     (\<forall>i j p q. map_of (pools s) i = Some p \<longrightarrow> map_of (pools s) j = Some q \<longrightarrow> i \<noteq> j \<longrightarrow> apart p q) \<and>
     (\<forall>x n. map_of (nets s) x = Some n \<longrightarrow> net_ok (map_of (pools s)) (by_sub s) x n)"

lemma ipam_invD:
  assumes "ipam_inv s"
  shows "db s = None" and "distinct (map fst (pools s))" and "distinct (map fst (nets s))"
    and "map_of (pools s) i = Some p \<Longrightarrow> pool_ok i p"
    and "map_of (pools s) i = Some p \<Longrightarrow> map_of (pools s) j = Some q \<Longrightarrow> i \<noteq> j \<Longrightarrow> apart p q"
    and "map_of (nets s) x = Some n \<Longrightarrow> net_ok (map_of (pools s)) (by_sub s) x n"
  using assms by (simp_all add: ipam_inv_def)

lemma ipam_invI:
  assumes "db s = None" "distinct (map fst (pools s))" "distinct (map fst (nets s))"
    and "\<And>i p. map_of (pools s) i = Some p \<Longrightarrow> pool_ok i p"
    and "\<And>i j p q. map_of (pools s) i = Some p \<Longrightarrow> map_of (pools s) j = Some q \<Longrightarrow> i \<noteq> j \<Longrightarrow> apart p q"
    and "\<And>x n. map_of (nets s) x = Some n \<Longrightarrow> net_ok (map_of (pools s)) (by_sub s) x n"
  shows "ipam_inv s"
  using assms by (simp add: ipam_inv_def)

lemma apart_sym: "apart p q \<Longrightarrow> apart q p"
  using overlaps_sym by (auto simp: apart_def)

lemma persist_none [simp]: "db s = None \<Longrightarrow> persist_pool p s = Some s" "db s = None \<Longrightarrow> persist_net n s = Some s"
  by (simp_all add: persist_pool_def persist_net_def)

text \<open>A pool keeps its identity: node, address range and prefix.\<close>

definition same_core :: "pool \<Rightarrow> pool \<Rightarrow> bool" where
  "same_core p q \<longleftrightarrow> p_id p = p_id q \<and> p_node p = p_node q \<and> p_address_pool p = p_address_pool q \<and>
     p_project_prefix p = p_project_prefix q"

lemma same_coreD:
  assumes "same_core p q"
  shows "pool_ok i p = pool_ok i q" and "apart p r = apart q r" and "apart r p = apart r q"
  using assms by (simp_all add: same_core_def pool_ok_def apart_def pool_cidr_def)

lemma placed_same_core:
  assumes "placed P n" and "P i = Some p" and "same_core p q"
  shows "placed (P(i \<mapsto> q)) n"
  using assms by (auto simp: placed_def same_core_def pool_cidr_def)

lemma ipam_inv_pool_change [inv_intros]:
  assumes inv: "ipam_inv s" and p: "map_of (pools s) i = Some p" and core: "same_core p q"
  shows "ipam_inv (s\<lparr>pools := AList.update i q (pools s)\<rparr>)"
proof (rule ipam_invI)
  let ?P = "(map_of (pools s))(i \<mapsto> q)"
  note upd = update_conv'
  show "db (s\<lparr>pools := AList.update i q (pools s)\<rparr>) = None" using ipam_invD(1) [OF inv] by simp
  show "distinct (map fst (pools (s\<lparr>pools := AList.update i q (pools s)\<rparr>)))"
    using ipam_invD(2) [OF inv] by (simp add: distinct_update)
  show "distinct (map fst (nets (s\<lparr>pools := AList.update i q (pools s)\<rparr>)))"
    using ipam_invD(3) [OF inv] by simp
  fix j r assume "map_of (pools (s\<lparr>pools := AList.update i q (pools s)\<rparr>)) j = Some r"
  then have r: "?P j = Some r" by (simp add: upd)
  then show "pool_ok j r"
    using ipam_invD(4) [OF inv] p same_coreD(1) [OF core] by (auto split: if_splits)
next
  fix j k r t
  assume "map_of (pools (s\<lparr>pools := AList.update i q (pools s)\<rparr>)) j = Some r"
    and "map_of (pools (s\<lparr>pools := AList.update i q (pools s)\<rparr>)) k = Some t" and "j \<noteq> k"
  then show "apart r t"
    using ipam_invD(5) [OF inv p] ipam_invD(5) [OF inv _ p] ipam_invD(5) [OF inv, of j r k t]
      same_coreD(2,3) [OF core]
    by (cases "j = i"; cases "k = i") (simp_all add: update_conv')
next
  fix x n assume "map_of (nets (s\<lparr>pools := AList.update i q (pools s)\<rparr>)) x = Some n"
  then have "net_ok (map_of (pools s)) (by_sub s) x n" using ipam_invD(6) [OF inv] by simp
  then show "net_ok (map_of (pools (s\<lparr>pools := AList.update i q (pools s)\<rparr>)))
      (by_sub (s\<lparr>pools := AList.update i q (pools s)\<rparr>)) x n"
    using placed_same_core [of "map_of (pools s)", OF _ p core] by (auto simp: net_ok_def update_conv')
qed

lemma set_pool_status_inv [inv_intros]:
  assumes "ipam_inv s"
  shows "ipam_inv (snd (set_pool_status now i st reason s))"
proof (cases "map_of (pools s) i")
  case None
  with assms show ?thesis by (simp add: set_pool_status_def)
next
  case (Some p)
  have "same_core p (p\<lparr>p_status := st, p_conflict_reason := reason, p_updated := now\<rparr>)"
    by (simp add: same_core_def)
  from ipam_inv_pool_change [OF assms Some this] show ?thesis
    using ipam_invD(1) [OF assms] by (simp add: set_pool_status_def Some Let_def)
qed

lemma update_pool_inv [inv_intros]:
  assumes "ipam_inv s"
  shows "ipam_inv (snd (update_pool now p s))"
proof (cases "map_of (pools s) (p_id p)")
  case None
  with assms show ?thesis by (simp add: update_pool_def)
next
  case (Some old)
  have "same_core old (old\<lparr>p_name := p_name p, p_description := p_description p, p_priority := p_priority p,
      p_status := p_status p, p_reuse_enabled := p_reuse_enabled p,
      p_reuse_delay := p_reuse_delay p, p_updated := now\<rparr>)"
    by (simp add: same_core_def)
  from ipam_inv_pool_change [OF assms Some this] show ?thesis
    using ipam_invD(1) [OF assms] by (simp add: update_pool_def Some Let_def)
qed

section \<open>The operations keep the invariant\<close>

lemma with_pool_defaults_core [simp]:
  "p_node (with_pool_defaults u p) = p_node p"
  "p_address_pool (with_pool_defaults u p) = p_address_pool p"
  "p_project_prefix (with_pool_defaults u p) = p_project_prefix p"
  "p_id (with_pool_defaults u p) = (if p_id p = [] then u else p_id p)"
  by (simp_all add: with_pool_defaults_def Let_def)

lemma placed_new_pool:
  "placed P n \<Longrightarrow> P i = None \<Longrightarrow> placed (P(i \<mapsto> p)) n"
  by (auto simp: placed_def)

lemma ipam_inv_add_pool:
  assumes inv: "ipam_inv s" and fresh: "map_of (pools s) i = None" and ok: "pool_ok i p"
    and apart: "\<And>j q. map_of (pools s) j = Some q \<Longrightarrow> apart p q"
  shows "ipam_inv (s\<lparr>pools := AList.update i p (pools s)\<rparr>)"
proof (rule ipam_invI)
  show "db (s\<lparr>pools := AList.update i p (pools s)\<rparr>) = None" using ipam_invD(1) [OF inv] by simp
  show "distinct (map fst (pools (s\<lparr>pools := AList.update i p (pools s)\<rparr>)))"
    using ipam_invD(2) [OF inv] by (simp add: distinct_update)
  show "distinct (map fst (nets (s\<lparr>pools := AList.update i p (pools s)\<rparr>)))"
    using ipam_invD(3) [OF inv] by simp
next
  fix j r assume "map_of (pools (s\<lparr>pools := AList.update i p (pools s)\<rparr>)) j = Some r"
  then show "pool_ok j r" using ipam_invD(4) [OF inv] ok by (auto simp: update_conv' split: if_splits)
next
  fix j k r t
  assume "map_of (pools (s\<lparr>pools := AList.update i p (pools s)\<rparr>)) j = Some r"
    and "map_of (pools (s\<lparr>pools := AList.update i p (pools s)\<rparr>)) k = Some t" and "j \<noteq> k"
  then show "apart r t"
    using ipam_invD(5) [OF inv, of j r k t] apart apart_sym
    by (cases "j = i"; cases "k = i") (auto simp: update_conv')
next
  fix x n assume "map_of (nets (s\<lparr>pools := AList.update i p (pools s)\<rparr>)) x = Some n"
  then have "net_ok (map_of (pools s)) (by_sub s) x n" using ipam_invD(6) [OF inv] by simp
  then show "net_ok (map_of (pools (s\<lparr>pools := AList.update i p (pools s)\<rparr>)))
      (by_sub (s\<lparr>pools := AList.update i p (pools s)\<rparr>)) x n"
    using placed_new_pool [of "map_of (pools s)", OF _ fresh] by (auto simp: net_ok_def update_conv')
qed

lemma no_overlap_apart:
  assumes "\<not> pool_overlaps_node c (p_node p) s" and "pool_cidr p = Inr c"
    and "map_of (pools s) j = Some q"
  shows "apart p q"
proof -
  from assms(3) have "(j, q) \<in> set (pools s)" by (rule map_of_SomeD)
  with assms(1,2) overlaps_sym show ?thesis
    by (fastforce simp: apart_def pool_overlaps_node_def)
qed

lemma create_pool_inv [inv_intros]:
  assumes inv: "ipam_inv s" and fresh: "get_pool (if p_id p = [] then uid else p_id p) s = None"
  shows "ipam_inv (snd (create_pool now uid p s))"
proof (cases "\<exists>p'. fst (create_pool now uid p s) = Inr p'")
  case False
  then show ?thesis
    using inv ipam_invD(1) [OF inv]
    by (auto simp: create_pool_def Let_def split: sum.splits if_splits option.splits)
next
  case True
  define q where "q = (with_pool_defaults uid p)\<lparr>p_created := now, p_updated := now\<rparr>"
  have core: "p_node q = p_node p" "p_address_pool q = p_address_pool p"
    "p_project_prefix q = p_project_prefix p" "p_id q = (if p_id p = [] then uid else p_id p)"
    by (simp_all add: q_def)
  from True ipam_invD(1) [OF inv] obtain c cap where c: "pool_cidr q = Inr c"
    and cap: "capacity c (p_project_prefix q) = Inr cap"
    and no: "\<not> pool_overlaps_node c (p_node q) s"
    and res: "snd (create_pool now uid p s) = s\<lparr>pools := AList.update (p_id q) q (pools s)\<rparr>"
    by (auto simp: create_pool_def Let_def pool_cidr_def core q_def split: sum.splits if_splits)
  show ?thesis unfolding res
  proof (rule ipam_inv_add_pool [OF inv])
    show "map_of (pools s) (p_id q) = None" using fresh by (simp add: core get_pool_def)
    show "pool_ok (p_id q) q" using c cap by (auto simp: pool_ok_def)
    show "apart q r" if "map_of (pools s) j = Some r" for j r
      by (rule no_overlap_apart [OF no c that])
  qed
qed

text \<open>A pool no live network is placed in can go.\<close>

lemma ipam_inv_delete_pool:
  assumes inv: "ipam_inv s" and unused: "\<And>x n. map_of (nets s) x = Some n \<Longrightarrow> live n \<Longrightarrow> n_pool n \<noteq> i"
  shows "ipam_inv (s\<lparr>pools := AList.delete i (pools s)\<rparr>)"
proof (rule ipam_invI)
  show "db (s\<lparr>pools := AList.delete i (pools s)\<rparr>) = None" using ipam_invD(1) [OF inv] by simp
  show "distinct (map fst (pools (s\<lparr>pools := AList.delete i (pools s)\<rparr>)))"
    using ipam_invD(2) [OF inv] by (simp add: distinct_delete)
  show "distinct (map fst (nets (s\<lparr>pools := AList.delete i (pools s)\<rparr>)))"
    using ipam_invD(3) [OF inv] by simp
next
  fix j r assume "map_of (pools (s\<lparr>pools := AList.delete i (pools s)\<rparr>)) j = Some r"
  then show "pool_ok j r" using ipam_invD(4) [OF inv] by (auto simp: delete_conv' split: if_splits)
next
  fix j k r t
  assume "map_of (pools (s\<lparr>pools := AList.delete i (pools s)\<rparr>)) j = Some r"
    and "map_of (pools (s\<lparr>pools := AList.delete i (pools s)\<rparr>)) k = Some t" and "j \<noteq> k"
  then show "apart r t"
    using ipam_invD(5) [OF inv, of j r k t] by (auto simp: delete_conv' split: if_splits)
next
  fix x n assume "map_of (nets (s\<lparr>pools := AList.delete i (pools s)\<rparr>)) x = Some n"
  then have "net_ok (map_of (pools s)) (by_sub s) x n" "live n \<Longrightarrow> n_pool n \<noteq> i"
    using ipam_invD(6) [OF inv] unused by auto
  then show "net_ok (map_of (pools (s\<lparr>pools := AList.delete i (pools s)\<rparr>)))
      (by_sub (s\<lparr>pools := AList.delete i (pools s)\<rparr>)) x n"
    by (auto simp: net_ok_def delete_conv' placed_def)
qed

lemma service_delete_inv [inv_intros]:
  assumes inv: "ipam_inv s"
  shows "ipam_inv (snd (service_delete node i s))"
proof (cases "\<exists>st \<in> set [NetActive, NetReserved, NetCreating, NetDeleting, NetFailed].
    count_by_pool_status i st s > 0")
  case True
  with inv show ?thesis by (auto simp: service_delete_def split: option.splits)
next
  case False
  have "n_pool n \<noteq> i" if n: "map_of (nets s) x = Some n" and l: "live n" for x n
  proof
    assume "n_pool n = i"
    moreover have "n \<in> snd ` set (nets s)" using n by (rule map_of_mem_snd)
    ultimately have "n \<in> set (filter (\<lambda>m. n_pool m = i \<and> n_status m = n_status n) (map snd (nets s)))"
      by auto
    then have "count_by_pool_status i (n_status n) s > 0"
      unfolding count_by_pool_status_def by (metis length_pos_if_in_set)
    moreover have "n_status n \<in> set [NetActive, NetReserved, NetCreating, NetDeleting, NetFailed]"
      using ipam_invD(6) [OF inv n] l by (auto simp: net_ok_def net_statuses_def live_def)
    ultimately show False using False by blast
  qed
  from ipam_inv_delete_pool [OF inv this] inv show ?thesis
    using ipam_invD(1) [OF inv]
    by (auto simp: service_delete_def delete_pool_def split: option.splits)
qed

text \<open>The key of a record names its node and its subnet, because a subnet text has no bar.\<close>

lemma append_bar_inj:
  "CHR ''|'' \<notin> set x \<Longrightarrow> CHR ''|'' \<notin> set y \<Longrightarrow>
    a @ CHR ''|'' # x = b @ CHR ''|'' # y \<longleftrightarrow> a = b \<and> x = y"
proof
  assume x: "CHR ''|'' \<notin> set x" and y: "CHR ''|'' \<notin> set y"
    and eq: "a @ CHR ''|'' # x = b @ CHR ''|'' # y"
  have "last_index_byte CHR ''|'' (a @ CHR ''|'' # x) = Some (length a)"
    "last_index_byte CHR ''|'' (b @ CHR ''|'' # y) = Some (length b)"
    using x y by (simp_all add: last_index_byte_append)
  with eq have "length a = length b" by simp
  with eq show "a = b \<and> x = y" by simp
qed simp

lemma placed_key_inj:
  assumes "placed P n" and "placed P m"
  shows "net_key n = net_key m \<longleftrightarrow> n_node n = n_node m \<and> n_subnet n = n_subnet m"
proof -
  from assms obtain c d where "n_subnet n = cidr_string c" "n_subnet m = cidr_string d"
    by (auto simp: placed_def)
  then show ?thesis by (simp add: net_key_def subnet_key_def append_bar_inj cidr_string_no_bar)
qed

text \<open>Writing a record whose slot no other live record holds.\<close>

lemma adopt_net_inv:
  assumes inv: "ipam_inv s" and st: "n_status n \<in> set net_statuses"
    and pl: "live n \<Longrightarrow> placed (map_of (pools s)) n"
    and slot: "\<And>m. by_sub s (net_key n) = Some m \<Longrightarrow> live m \<Longrightarrow> n_project m = n_project n"
  shows "ipam_inv (adopt_net n s)"
proof (rule ipam_invI)
  let ?B = "(by_sub s)(net_key n \<mapsto> n)"
  show "db (adopt_net n s) = None" using ipam_invD(1) [OF inv] by (simp add: adopt_net_def)
  show "distinct (map fst (pools (adopt_net n s)))"
    using ipam_invD(2) [OF inv] by (simp add: adopt_net_def)
  show "distinct (map fst (nets (adopt_net n s)))"
    using ipam_invD(3) [OF inv] by (simp add: adopt_net_def distinct_update)
  show "pool_ok i p" if "map_of (pools (adopt_net n s)) i = Some p" for i p
    using that ipam_invD(4) [OF inv] by (simp add: adopt_net_def)
  show "apart p q" if "map_of (pools (adopt_net n s)) i = Some p"
    "map_of (pools (adopt_net n s)) j = Some q" "i \<noteq> j" for i j p q
    using that ipam_invD(5) [OF inv] by (simp add: adopt_net_def)
  fix x m assume m: "map_of (nets (adopt_net n s)) x = Some m"
  have "net_ok (map_of (pools s)) ?B x m"
  proof (cases "x = n_project n")
    case True
    with m have "m = n" by (simp add: adopt_net_def update_conv')
    with True st pl show ?thesis by (simp add: net_ok_def)
  next
    case False
    with m have old: "net_ok (map_of (pools s)) (by_sub s) x m"
      using ipam_invD(6) [OF inv] by (simp add: adopt_net_def update_conv')
    moreover have "net_key m \<noteq> net_key n" if "live m"
      using old that slot False by (auto simp: net_ok_def)
    ultimately show ?thesis by (auto simp: net_ok_def)
  qed
  then show "net_ok (map_of (pools (adopt_net n s))) (by_sub (adopt_net n s)) x m"
    by (simp add: adopt_net_def)
qed

lemma allocate_in_pool_inv [inv_intros]:
  assumes inv: "ipam_inv s" and p: "map_of (pools s) (p_id p) = Some p"
  shows "ipam_inv (snd (allocate_in_pool now uid p project name s))"
proof (cases "fst (allocate_in_pool now uid p project name s)")
  case (Inl e)
  then show ?thesis using inv ipam_invD(1) [OF inv]
    by (auto simp: allocate_in_pool_def put_net_def Let_def split: sum.splits option.splits prod.splits)
next
  case (Inr n)
  have none: "db s = None" by (rule ipam_invD(1) [OF inv])
  from Inr none obtain c cap idx sub where c: "pool_cidr p = Inr c" "capacity_int64 p = Inr cap"
    and pick: "pick_subnet c cap (p_next_index p) (p_project_prefix p)
      (\<lambda>sub. is_free now (p_node p) sub (p_reuse_enabled p) s) = Inr (idx, sub)"
    and res: "allocate_in_pool now uid p project name s =
      put_net now uid (build_network now uid p project name idx sub) s"
    by (auto simp: allocate_in_pool_def split: sum.splits)
  define m where "m = (build_network now uid p project name idx sub)
    \<lparr>n_id := n_id (build_network now uid p project name idx sub), n_updated := now\<rparr>"
  have fields: "n_node m = p_node p" "n_pool m = p_id p" "n_index m = idx" "n_subnet m = cidr_string sub"
    "n_status m = NetReserved" "n_project m = project"
    by (simp_all add: m_def build_network_def)
  obtain m' where put: "put_net now uid (build_network now uid p project name idx sub) s = (Inr m', adopt_net m' s)"
    and same: "n_node m' = n_node m" "n_pool m' = n_pool m" "n_index m' = n_index m"
      "n_subnet m' = n_subnet m" "n_status m' = n_status m" "n_project m' = n_project m"
    using none by (auto simp: put_net_def Let_def m_def build_network_def)
  from pick_subnet_Inr [OF pick] have sub: "subnet_at c idx (p_project_prefix p) = Inr sub"
    and free: "is_free now (p_node p) (cidr_string sub) (p_reuse_enabled p) s" by simp_all
  have "ipam_inv (adopt_net m' s)"
  proof (rule adopt_net_inv [OF inv])
    show "n_status m' \<in> set net_statuses" by (simp add: same fields net_statuses_def)
    show "placed (map_of (pools s)) m'" using p c sub by (auto simp: placed_def same fields)
    show "n_project k = n_project m'" if "by_sub s (net_key m') = Some k" "live k" for k
      using free that by (simp add: is_free_def net_key_def same fields live_def)
  qed
  then show ?thesis by (simp add: res put)
qed

lemma set_pool_status_pools:
  "map_of (pools (snd (set_pool_status now i st reason s))) j =
     (if j = i then map_option (\<lambda>p. p\<lparr>p_status := st, p_conflict_reason := reason, p_updated := now\<rparr>)
        (map_of (pools s) i) else map_of (pools s) j)" if "db s = None"
  using that by (auto simp: set_pool_status_def Let_def update_conv' split: option.splits)

lemma list_by_node_mem:
  "ipam_inv s \<Longrightarrow> p \<in> set (list_by_node node s) \<Longrightarrow> map_of (pools s) (p_id p) = Some p \<and> p_node p = node"
  unfolding list_by_node_def
  by (auto simp: ipam_inv_def pool_ok_def)

lemma allocate_in_pool_pools:
  "db s = None \<Longrightarrow> pools (snd (allocate_in_pool now uid p project name s)) = pools s"
  by (auto simp: allocate_in_pool_def put_net_def adopt_net_def Let_def
      split: sum.splits option.splits prod.splits)

text \<open>The loop works on copies of the pools read before it started; the pools it has not yet
  tried are still what the store holds.\<close>

lemma allocate_loop_inv:
  assumes "ipam_inv s" and "\<And>p. p \<in> set ps \<Longrightarrow> map_of (pools s) (p_id p) = Some p"
    and "distinct (map p_id ps)"
  shows "ipam_inv (snd (allocate_loop now uid project name ps s))"
  using assms
proof (induction ps arbitrary: s)
  case Nil
  then show ?case by simp
next
  case (Cons p ps)
  obtain r s' where r: "allocate_in_pool now uid p project name s = (r, s')"
    by (cases "allocate_in_pool now uid p project name s")
  have inv': "ipam_inv s'"
    using allocate_in_pool_inv [OF Cons.prems(1) Cons.prems(2), of p now uid project name] r by simp
  have pools': "pools s' = pools s"
    using allocate_in_pool_pools [OF ipam_invD(1) [OF Cons.prems(1)], of now uid p project name] r by simp
  let ?s = "if p_status p \<noteq> StatusExhausted then snd (set_pool_status now (p_id p) StatusExhausted [] s') else s'"
  have "ipam_inv ?s" using inv' by (simp add: set_pool_status_inv)
  moreover have "map_of (pools ?s) (p_id q) = Some q" if "q \<in> set ps" for q
  proof -
    have "p_id q \<in> p_id ` set ps" using that by simp
    then have "p_id q \<noteq> p_id p" using Cons.prems(3) by auto
    then show ?thesis
      using Cons.prems(2) [of q] that pools' by (simp add: set_pool_status_pools ipam_invD(1) [OF inv'])
  qed
  ultimately have nxt: "ipam_inv (snd (allocate_loop now uid project name ps ?s))"
    using Cons.prems(3) by (intro Cons.IH) simp_all
  have skip: "ipam_inv (snd (allocate_loop now uid project name ps s))"
    using Cons.prems by (intro Cons.IH) simp_all
  show ?case
    using nxt skip inv' set_pool_status_inv [OF inv', of now "p_id p" StatusActive "[]"]
    by (auto simp: r split: sum.splits)
qed

lemma list_by_node_distinct:
  assumes "ipam_inv s"
  shows "distinct (map p_id (list_by_node node s))"
proof -
  have "map p_id (map snd (pools s)) = map fst (pools s)"
    using assms by (auto simp: ipam_inv_def pool_ok_def)
  with ipam_invD(2) [OF assms] have "distinct (map p_id (map snd (pools s)))" by (simp only:)
  then have "distinct (map p_id (filter (\<lambda>p. p_node p = node) (map snd (pools s))))"
    by (rule distinct_map_filter)
  then show ?thesis
    unfolding list_by_node_def distinct_map by (simp add: inj_on_def)
qed

lemma allocate_inv [inv_intros]:
  assumes "ipam_inv s"
  shows "ipam_inv (snd (allocate now uid node project name s))"
  using assms allocate_loop_inv [OF assms _ list_by_node_distinct [OF assms]] list_by_node_mem [OF assms]
  by (auto simp: allocate_def split: option.splits)

text \<open>A status change of a live record that keeps its identity.\<close>

lemma set_net_status_inv [inv_intros]:
  assumes inv: "ipam_inv s" and st: "status \<in> set net_statuses"
    and live: "\<And>n. get_by_project x s = Some n \<Longrightarrow> live n"
    and keep: "\<And>n. n_project (f n) = n_project n \<and> n_node (f n) = n_node n \<and> n_pool (f n) = n_pool n \<and>
      n_index (f n) = n_index n \<and> n_subnet (f n) = n_subnet n \<and> n_status (f n) = n_status n"
  shows "ipam_inv (snd (set_net_status now x status f s))"
proof (cases "map_of (nets s) x")
  case None
  with inv show ?thesis by (simp add: set_net_status_def)
next
  case (Some n)
  let ?m = "f (n\<lparr>n_status := status, n_updated := now\<rparr>)"
  have ok: "n_project n = x" "by_sub s (net_key n) = Some n" "placed (map_of (pools s)) n"
    using ipam_invD(6) [OF inv Some] live Some by (auto simp: net_ok_def get_by_project_def)
  have key: "net_key ?m = net_key n" by (simp add: net_key_def keep)
  have proj: "n_project ?m = x" by (simp add: keep ok)
  have "snd (set_net_status now x status f s) = adopt_net ?m s"
    using ipam_invD(1) [OF inv] Some proj by (simp add: set_net_status_def adopt_net_def Let_def)
  moreover have "ipam_inv (adopt_net ?m s)"
  proof (rule adopt_net_inv [OF inv])
    show "n_status ?m \<in> set net_statuses" using st by (simp add: keep)
    show "placed (map_of (pools s)) ?m" using ok(3) by (simp add: placed_def keep)
    show "n_project k = n_project ?m" if "by_sub s (net_key ?m) = Some k" for k
    proof -
      from that ok(2) key have "k = n" by simp
      then show ?thesis using ok(1) proj by simp
    qed
  qed
  ultimately show ?thesis by simp
qed

lemma allocate_live:
  assumes "ipam_inv s" and "allocate now uid node project name s = (Inr n, s')"
  shows "get_by_project project s' = Some n \<and> live n \<and> n_project n = project"
proof -
  have loop: "get_by_project project s' = Some n \<and> live n \<and> n_project n = project"
    if "allocate_loop now uid project name ps s = (Inr n, s')" "db s = None" for ps s
    using that
  proof (induction ps arbitrary: s)
    case Nil
    then show ?case by simp
  next
    case (Cons p ps)
    have one: "map_of (nets t) project = Some m \<and> live m \<and> n_project m = project \<and> db t = None"
      if "allocate_in_pool now uid p project name s = (Inr m, t)" for m t
      using that Cons.prems(2)
      by (auto simp: allocate_in_pool_def put_net_def build_network_def Let_def adopt_net_def
          update_conv' live_def split: sum.splits option.splits prod.splits if_splits)
    have err: "db t = None" if "allocate_in_pool now uid p project name s = (Inl e, t)" for e t
      using that Cons.prems(2)
      by (auto simp: allocate_in_pool_def put_net_def Let_def adopt_net_def
          split: sum.splits option.splits prod.splits if_splits)
    have pure: "nets (snd (set_pool_status now i st r t)) = nets t \<and> db (snd (set_pool_status now i st r t)) = None"
      if "db t = None" for i st r t
      using that by (auto simp: set_pool_status_def Let_def split: option.splits)
    show ?case
      using Cons.prems Cons.IH one err pure
      by (fastforce simp: get_by_project_def split: if_splits prod.splits sum.splits)
  qed
  show ?thesis
    using assms loop [OF _ ipam_invD(1) [OF assms(1)]] ipam_invD(6) [OF assms(1), of project n]
    by (auto simp: allocate_def get_by_project_def live_def net_ok_def split: option.splits if_splits)
qed

lemma provision_ensure_inv [inv_intros]:
  assumes inv: "ipam_inv s"
  shows "ipam_inv (snd (provision_ensure now uid answer node app name s))"
proof (cases "allocate now uid node app name s")
  case (Pair r s')
  have s': "ipam_inv s'" using allocate_inv [OF inv, of now uid node app name] Pair by simp
  show ?thesis
  proof (cases r)
    case (Inl e)
    with Pair s' show ?thesis by (simp add: provision_ensure_def)
  next
    case (Inr n)
    have l: "live m" if "get_by_project app s' = Some m" for m
      using allocate_live [OF inv] Pair Inr that by auto
    have a: "ipam_inv (snd (set_net_status now app NetActive (\<lambda>n. n\<lparr>n_allocated := now, n_error := []\<rparr>) s'))"
      by (rule set_net_status_inv [OF s' _ l]) (simp_all add: net_statuses_def)
    have b: "ipam_inv (snd (set_net_status now app NetReserved (\<lambda>n. n\<lparr>n_error := err\<rparr>) s'))" for err
      by (rule set_net_status_inv [OF s' _ l]) (simp_all add: net_statuses_def)
    show ?thesis using a b
      by (auto simp: provision_ensure_def Pair Inr split: option.splits prod.splits)
  qed
qed

lemma release_inv:
  assumes inv: "ipam_inv s" and l: "\<And>n. get_by_project x s = Some n \<Longrightarrow> live n"
  shows "ipam_inv (snd (release now x delay s))"
proof (cases "get_by_project x s")
  case None
  with inv show ?thesis by (simp add: release_def)
next
  case (Some n)
  define d where "d = (if delay \<le> 0 then 600 else delay)"
  have "ipam_inv (snd (set_net_status now x NetReleased (mark_released now d) s))"
    by (rule set_net_status_inv [OF inv _ l]) (simp_all add: net_statuses_def mark_released_def)
  then show ?thesis
    by (auto simp: release_def Some Let_def set_pool_status_inv simp flip: d_def
        split: prod.splits option.splits)
qed

lemma provision_release_inv [inv_intros]:
  assumes inv: "ipam_inv s" and l: "\<And>n. get_by_project x s = Some n \<Longrightarrow> live n"
  shows "ipam_inv (snd (provision_release now reached answer x s))"
proof -
  have "ipam_inv (snd (set_net_status now x NetFailed (\<lambda>n. n\<lparr>n_error := err\<rparr>) s))" for err
    by (rule set_net_status_inv [OF inv _ l]) (simp_all add: net_statuses_def)
  then show ?thesis
    using inv release_inv [OF inv l]
    by (auto simp: provision_release_def split: option.splits)
qed

lemma service_update_inv [inv_intros]: "ipam_inv s \<Longrightarrow> ipam_inv (snd (service_update now node i inp s))"
  by (auto simp: service_update_def Let_def update_pool_inv split: option.split)

lemma service_check_inv [inv_intros]: "ipam_inv s \<Longrightarrow> ipam_inv (snd (service_check now node i answer s))"
  by (auto simp: service_check_def set_pool_status_inv split: option.split sum.split prod.split)

lemma service_create_inv [inv_intros]:
  assumes "ipam_inv s" and "get_pool (if p_id p = [] then uid else p_id p) s = None"
  shows "ipam_inv (snd (service_create now uid answer p s))"
  using create_pool_inv [OF assms, of now]
  by (auto simp: service_create_def set_pool_status_inv split: prod.splits sum.splits option.splits)

lemma ensure_default_inv [inv_intros]:
  assumes inv: "ipam_inv s" and "get_pool uid s = None"
  shows "ipam_inv (snd (ensure_default now uid d node s))"
proof -
  have "ipam_inv s'" if "create_pool now uid (p\<lparr>p_id := []\<rparr>) s = (r, s')" for p r s'
    using create_pool_inv [OF inv, of "p\<lparr>p_id := []\<rparr>" uid now] that assms(2) by simp
  from this [of "\<lparr>p_id = [], p_node = node, p_name = ''default'', p_description = [],
      p_address_pool = d_address d, p_project_prefix = d_prefix d, p_priority = 10,
      p_status = [], p_next_index = 0, p_reuse_enabled = False, p_reuse_delay = 0,
      p_system_default = True, p_conflict_reason = [], p_created = 0, p_updated = 0\<rparr>"]
  have made: "ipam_inv s'" if "create_pool now uid \<lparr>p_id = [], p_node = node, p_name = ''default'', p_description = [],
      p_address_pool = d_address d, p_project_prefix = d_prefix d, p_priority = 10,
      p_status = [], p_next_index = 0, p_reuse_enabled = False, p_reuse_delay = 0,
      p_system_default = True, p_conflict_reason = [], p_created = 0, p_updated = 0\<rparr> s = (r, s')" for r s'
    using that by simp
  have "ipam_inv s''" if "update_pool now p s' = (r, s'')" "ipam_inv s'" for p r s' s''
    using update_pool_inv [OF that(2), of now p] that(1) by simp
  with inv made show ?thesis
    by (fastforce simp: ensure_default_def Let_def split: prod.split sum.split)
qed

section \<open>Every run keeps live networks apart\<close>

text \<open>
  The calls a container manager without a database handles, with the answers of the nodes, the
  clock and the UUIDs they see: the pool service, the default pool of a node that comes on line, and the
  provisioner. A new pool gets its UUID from the generator, because the input of the handler has none.
\<close>

datatype ipam_event =
    Create_pool go_time uuid "node_networks option" pool
  | Update_pool go_time string uuid update_pool_input
  | Delete_pool string uuid
  | Check_pool go_time string uuid "node_networks option"
  | Default_pool go_time uuid default_pool string
  | Ensure_net go_time uuid "string option" string string string
  | Release_net go_time bool "string option" string

fun ipam_step :: "ipam_state \<Rightarrow> ipam_event \<Rightarrow> ipam_state" where
  "ipam_step s (Create_pool now uid answer p) = snd (service_create now uid answer (p\<lparr>p_id := []\<rparr>) s)"
| "ipam_step s (Update_pool now node i inp) = snd (service_update now node i inp s)"
| "ipam_step s (Delete_pool node i) = snd (service_delete node i s)"
| "ipam_step s (Check_pool now node i answer) = snd (service_check now node i answer s)"
| "ipam_step s (Default_pool now uid d node) = snd (ensure_default now uid d node s)"
| "ipam_step s (Ensure_net now uid answer node app name) = snd (provision_ensure now uid answer node app name s)"
| "ipam_step s (Release_net now reached answer app) = snd (provision_release now reached answer app s)"

text \<open>UUIDs are fresh.\<close>

fun fresh_uuid :: "ipam_state \<Rightarrow> ipam_event \<Rightarrow> bool" where
  "fresh_uuid s (Create_pool now uid answer p) = (get_pool uid s = None)"
| "fresh_uuid s (Default_pool now uid d node) = (get_pool uid s = None)"
| "fresh_uuid s _ = True"

text \<open>A release is orderly when the application has no record yet or holds its network; the code does
  not check it.\<close>

fun orderly :: "ipam_state \<Rightarrow> ipam_event \<Rightarrow> bool" where
  "orderly s (Release_net now reached answer app) = (case get_by_project app s of None \<Rightarrow> True | Some n \<Rightarrow> live n)"
| "orderly s _ = True"

definition ipam_init :: ipam_state where
  "ipam_init = \<lparr>pools = [], nets = [], by_sub = Map.empty, db = None\<rparr>"

text \<open>The states reached by runs whose events satisfy \<open>I\<close>.\<close>

inductive ipam_reachable :: "(ipam_state \<Rightarrow> ipam_event \<Rightarrow> bool) \<Rightarrow> ipam_state \<Rightarrow> bool"
  for I :: "ipam_state \<Rightarrow> ipam_event \<Rightarrow> bool" where
  start: "ipam_reachable I ipam_init"
| step: "ipam_reachable I s \<Longrightarrow> fresh_uuid s e \<Longrightarrow> I s e \<Longrightarrow> ipam_reachable I (ipam_step s e)"

lemma ipam_step_inv:
  assumes "ipam_inv s" and "fresh_uuid s e" and "orderly s e"
  shows "ipam_inv (ipam_step s e)"
proof (cases e)
  case (Release_net now reached answer app)
  with assms show ?thesis by (auto intro!: provision_release_inv split: option.splits)
qed (use assms in \<open>simp_all add: inv_intros\<close>)

lemma ipam_reachable_inv: "ipam_reachable orderly s \<Longrightarrow> ipam_inv s"
proof (induction rule: ipam_reachable.induct)
  case start
  show ?case by (simp add: ipam_inv_def ipam_init_def)
next
  case (step s e)
  then show ?case by (blast intro: ipam_step_inv)
qed

lemma live_networks_apart:
  assumes inv: "ipam_inv s"
    and n: "get_by_project x s = Some n" "live n" and m: "get_by_project y s = Some m" "live m"
    and neq: "x \<noteq> y" and node: "n_node n = n_node m"
  obtains a b where "parse_cidr (n_subnet n) = Inr a" "parse_cidr (n_subnet m) = Inr b" "\<not> overlaps a b"
proof -
  have ok: "net_ok (map_of (pools s)) (by_sub s) x n" "net_ok (map_of (pools s)) (by_sub s) y m"
    using n(1) m(1) ipam_invD(6) [OF inv] by (simp_all add: get_by_project_def)
  obtain p c a where p: "map_of (pools s) (n_pool n) = Some p" "n_node n = p_node p" "pool_cidr p = Inr c"
    "subnet_at c (n_index n) (p_project_prefix p) = Inr a" "n_subnet n = cidr_string a"
    using ok(1) n(2) by (auto simp: net_ok_def placed_def)
  obtain q d b where q: "map_of (pools s) (n_pool m) = Some q" "n_node m = p_node q" "pool_cidr q = Inr d"
    "subnet_at d (n_index m) (p_project_prefix q) = Inr b" "n_subnet m = cidr_string b"
    using ok(2) m(2) by (auto simp: net_ok_def placed_def)
  have key: "net_key n \<noteq> net_key m"
  proof
    assume eq: "net_key n = net_key m"
    have a: "by_sub s (net_key n) = Some n" "n_project n = x" and b: "by_sub s (net_key m) = Some m" "n_project m = y"
      using ok n(2) m(2) unfolding net_ok_def by blast+
    from a(1) b(1) have "n = m" unfolding eq by (metis option.inject)
    with a(2) b(2) neq show False by metis
  qed
  have "\<not> overlaps a b"
  proof (cases "n_pool n = n_pool m")
    case True
    with p q have "q = p" "d = c" by simp_all
    moreover have "n_index n \<noteq> n_index m"
      using key p(4,5) q(4,5) \<open>q = p\<close> \<open>d = c\<close> node by (auto simp: net_key_def)
    ultimately show ?thesis using p(4) q(4) subnets_disjoint by blast
  next
    case False
    then have no: "\<not> overlaps c d"
      using ipam_invD(5) [OF inv p(1) q(1)] p q node by (simp add: apart_def)
    note A = subnet_at_contains [OF p(4)] and B = subnet_at_contains [OF q(4)]
    have "range_of a \<subseteq> range_of c" using A by (simp add: contains_iff)
    moreover have "range_of b \<subseteq> range_of d" using B by (simp add: contains_iff)
    moreover have "range_of c \<inter> range_of d = {}" using no A(3) B(3) by (simp add: overlaps_iff)
    ultimately have "range_of a \<inter> range_of b = {}" by blast
    then show ?thesis using A(2) B(2) by (simp add: overlaps_iff)
  qed
  moreover have "parse_cidr (n_subnet n) = Inr a" "parse_cidr (n_subnet m) = Inr b"
    using p(4,5) q(4,5) subnet_at_contains(2) subnet_at_network by (simp_all add: parse_cidr_string)
  ultimately show ?thesis using that by blast
qed

section \<open>Properties\<close>

text \<open>Property C1. In every state a container manager without a database reaches by calls of the pool
  service and the provisioner, in any order, among which no release is of an application whose network
  is released already, two live networks of different projects on one node hold subnets whose texts
  parse and whose address ranges do not overlap, whichever pools they come from. (The code does not
  refuse a second release; \<open>double_release_shares_subnet\<close> shows that one breaks the guarantee.)\<close>

theorem live_networks_never_overlap:
  assumes "ipam_reachable orderly s"
    and "get_by_project x s = Some n" and "live n" and "get_by_project y s = Some m" and "live m"
    and "x \<noteq> y" and "n_node n = n_node m"
  shows "\<exists>a b. parse_cidr (n_subnet n) = Inr a \<and> parse_cidr (n_subnet m) = Inr b \<and>
    range_of a \<inter> range_of b = {}"
proof -
  from ipam_reachable_inv [OF assms(1)] assms(2-) obtain a b
    where ab: "parse_cidr (n_subnet n) = Inr a" "parse_cidr (n_subnet m) = Inr b" "\<not> overlaps a b"
    by (rule live_networks_apart)
  moreover have "cidr_ok a" "cidr_ok b" using ab by (simp_all add: parse_cidr_Inr)
  ultimately show ?thesis by (auto simp: overlaps_iff)
qed

definition example_pool :: pool where
  "example_pool = \<lparr>p_id = [], p_node = ''n1'', p_name = ''small'', p_description = [],
     p_address_pool = ''10.0.0.0/28'', p_project_prefix = 30, p_priority = 1, p_status = [],
     p_next_index = 0, p_reuse_enabled = False, p_reuse_delay = 0, p_system_default = False,
     p_conflict_reason = [], p_created = 0, p_updated = 0\<rparr>"

definition example_s1 :: ipam_state where
  "example_s1 = snd (service_create 5 ''pool1'' (Some \<lparr>docker_subnets = [], host_routes = [], interface_nets = []\<rparr>)
     example_pool ipam_init)"

definition example_s2 :: ipam_state where
  "example_s2 = snd (provision_ensure 6 ''id1'' None ''n1'' ''app1'' ''net1'' example_s1)"

definition example_s3 :: ipam_state where
  "example_s3 = snd (provision_ensure 7 ''id2'' None ''n1'' ''app2'' ''net2'' example_s2)"

lemma example_reachable: "ipam_reachable orderly example_s3"
proof -
  let ?none = "\<lparr>docker_subnets = [], host_routes = [], interface_nets = []\<rparr>"
  have "example_s1 = ipam_step ipam_init (Create_pool 5 ''pool1'' (Some ?none) example_pool)"
    by (simp add: example_s1_def example_pool_def)
  moreover have "fresh_uuid ipam_init (Create_pool 5 ''pool1'' (Some ?none) example_pool)"
    by (simp add: ipam_init_def get_pool_def)
  ultimately have "ipam_reachable orderly example_s1"
    by (metis ipam_reachable.start ipam_reachable.step orderly.simps(2))
  then have "ipam_reachable orderly (ipam_step example_s1 (Ensure_net 6 ''id1'' None ''n1'' ''app1'' ''net1''))"
    by (rule ipam_reachable.step) simp_all
  then have "ipam_reachable orderly
      (ipam_step (ipam_step example_s1 (Ensure_net 6 ''id1'' None ''n1'' ''app1'' ''net1''))
         (Ensure_net 7 ''id2'' None ''n1'' ''app2'' ''net2''))"
    by (rule ipam_reachable.step) simp_all
  then show ?thesis by (simp add: example_s3_def example_s2_def)
qed

lemma example_networks:
  "map_option (\<lambda>n. (n_subnet n, n_node n, n_status n)) (get_by_project ''app1'' example_s3) =
     Some (''10.0.0.0/30'', ''n1'', NetActive)"
  "map_option (\<lambda>n. (n_subnet n, n_node n, n_status n)) (get_by_project ''app2'' example_s3) =
     Some (''10.0.0.4/30'', ''n1'', NetActive)"
  by code_simp+

lemma live_networks_never_overlap_witness:
  "\<exists>n m a b. get_by_project ''app1'' example_s3 = Some n \<and> get_by_project ''app2'' example_s3 = Some m \<and>
    parse_cidr (n_subnet n) = Inr a \<and> parse_cidr (n_subnet m) = Inr b \<and> range_of a \<inter> range_of b = {}"
proof -
  obtain n m where n: "get_by_project ''app1'' example_s3 = Some n" "n_node n = ''n1''" "n_status n = NetActive"
    and m: "get_by_project ''app2'' example_s3 = Some m" "n_node m = ''n1''" "n_status m = NetActive"
    using example_networks by auto
  from live_networks_never_overlap [OF example_reachable n(1) _ m(1)] n m
  show ?thesis by (auto simp: live_def)
qed

text \<open>\<open>pickSubnet\<close> is complete: within the capacity of the pool it returns a subnet
  of the pool, with its index, that the test calls free, and it reports exhaustion only when no
  subnet of the pool is free. No other error comes out.\<close>

theorem pick_subnet_correct:
  assumes "capacity c sp = Inr cap"
  shows "case pick_subnet c cap start sp free of
      Inr (i, sub) \<Rightarrow> 0 \<le> i \<and> i < cap \<and> subnet_at c i sp = Inr sub \<and> free (cidr_string sub)
    | Inl e \<Rightarrow> e = PoolExhausted \<and>
        (\<forall>i sub. 0 \<le> i \<and> i < cap \<and> subnet_at c i sp = Inr sub \<longrightarrow> \<not> free (cidr_string sub))"
proof (cases "pick_subnet c cap start sp free")
  case (Inl e)
  from pick_subnet_Inl [OF assms Inl] Inl show ?thesis by simp
next
  case (Inr r)
  obtain i sub where "r = (i, sub)" by (cases r)
  with Inr pick_subnet_Inr show ?thesis by fastforce
qed

definition example_cidr :: cidr where
  "example_cidr = \<lparr>addr = 0x0A000000, bits = 28\<rparr>"

lemma pick_subnet_correct_witness:
  "capacity example_cidr 30 = Inr 4 \<and>
   (case pick_subnet example_cidr 4 3 30 (\<lambda>t. t \<noteq> ''10.0.0.12/30'') of
      Inr (i, sub) \<Rightarrow> 0 \<le> i \<and> i < 4 \<and> subnet_at example_cidr i 30 = Inr sub \<and> cidr_string sub \<noteq> ''10.0.0.12/30''
    | Inl e \<Rightarrow> e = PoolExhausted \<and> (\<forall>i sub. 0 \<le> i \<and> i < 4 \<and> subnet_at example_cidr i 30 = Inr sub \<longrightarrow>
        \<not> cidr_string sub \<noteq> ''10.0.0.12/30''))"
proof -
  have cap: "capacity example_cidr 30 = Inr 4" by (simp add: capacity_Inr example_cidr_def)
  with pick_subnet_correct [OF cap, where start = 3 and free = "\<lambda>t. t \<noteq> ''10.0.0.12/30''"] show ?thesis by simp
qed

text \<open>Releasing a network twice breaks the guarantee: after app1 is released, its
  slot is reused by app2 once the delay has passed, a second release of app1 marks the slot
  released again although app2 holds it, and after another delay app3 gets the same subnet, so two
  live networks of one node share a subnet.\<close>

definition double_release_run :: ipam_state where
  "double_release_run = foldl ipam_step ipam_init
     [Create_pool 5 ''pool1'' (Some \<lparr>docker_subnets = [], host_routes = [], interface_nets = []\<rparr>)
        (example_pool\<lparr>p_project_prefix := 29, p_address_pool := ''10.0.0.0/28''\<rparr>),
      Ensure_net 6 ''i1'' None ''n1'' ''app1'' ''net1'',
      Release_net 7 True None ''app1'',
      Ensure_net (7 + 601 * second) ''i2'' None ''n1'' ''app2'' ''net2'',
      Release_net (8 + 601 * second) True None ''app1'',
      Ensure_net (8 + 1202 * second) ''i3'' None ''n1'' ''app3'' ''net3'']"

lemma double_release_reachable: "ipam_reachable (\<lambda>s e. True) double_release_run"
  unfolding double_release_run_def foldl.simps
  by (intro ipam_reachable.intros) (simp_all add: ipam_init_def get_pool_def)

theorem double_release_shares_subnet:
  "\<exists>n m. get_by_project ''app2'' double_release_run = Some n \<and>
     get_by_project ''app3'' double_release_run = Some m \<and>
     n_status n = NetActive \<and> n_status m = NetActive \<and> n_node n = n_node m \<and> n_subnet n = n_subnet m"
proof -
  have "map_option (\<lambda>n. (n_status n, n_node n, n_subnet n)) (get_by_project ''app2'' double_release_run) =
      Some (NetActive, ''n1'', ''10.0.0.0/29'')"
    "map_option (\<lambda>n. (n_status n, n_node n, n_subnet n)) (get_by_project ''app3'' double_release_run) =
      Some (NetActive, ''n1'', ''10.0.0.0/29'')"
    by code_simp+
  then show ?thesis by auto
qed

text \<open>With a database, a project whose network row is still in the table (a released
  row is never deleted) gets no subnet again: every allocation for it ends in an error, whatever
  the pools hold, because the row's project is unique in the table.\<close>

lemma insert_network_same_project:
  "row \<in> set (t_nets t) \<Longrightarrow> n_project row = n_project n \<Longrightarrow> insert_network n t = None"
  unfolding insert_network_def net_conflict_def
  by (cases "n_id row = n_id n") (metis image_eqI, metis)

lemma allocate_in_pool_db_blocked:
  assumes "db s = Some t" and "row \<in> set (t_nets t)" and "n_project row = project"
  shows "\<exists>e. allocate_in_pool now uid p project name s = (Inl e, s)"
proof -
  have "insert_network (build_network now uid p project name idx sub) t = None" for idx sub
    using assms(2,3) by (intro insert_network_same_project) (simp_all add: build_network_def)
  then show ?thesis
    using assms(1) by (auto simp: allocate_in_pool_def Let_def split: sum.splits option.splits)
qed

lemma set_pool_status_t_nets:
  assumes "db s = Some t"
  shows "\<exists>t'. db (snd (set_pool_status now i st r s)) = Some t' \<and> t_nets t' = t_nets t"
  using assms
  by (cases "map_of (pools s) i") (auto simp: set_pool_status_def persist_pool_def Let_def)

lemma allocate_loop_db_blocked:
  assumes "db s = Some t" and "row \<in> set (t_nets t)" and "n_project row = project"
  shows "\<exists>e. fst (allocate_loop now uid project name ps s) = Inl e"
  using assms(1,2)
proof (induction ps arbitrary: s t)
  case Nil
  then show ?case by simp
next
  case (Cons p ps)
  obtain e where e: "allocate_in_pool now uid p project name s = (Inl e, s)"
    using allocate_in_pool_db_blocked [OF Cons.prems assms(3)] by blast
  obtain t' where "db (snd (set_pool_status now (p_id p) StatusExhausted [] s)) = Some t'" "t_nets t' = t_nets t"
    using set_pool_status_t_nets [OF Cons.prems(1)] by blast
  then show ?case using Cons e by (simp add: Cons.IH)
qed

theorem released_project_never_reallocated_db:
  assumes "db s = Some t" and "row \<in> set (t_nets t)" and "n_project row = project"
    and "get_by_project project s = Some n" and "n_status n = NetReleased"
  shows "\<exists>e. fst (allocate now uid node project name s) = Inl e"
  using assms allocate_loop_db_blocked [OF assms(1-3)] by (simp add: allocate_def)

definition example_db_state :: ipam_state where
  "example_db_state =
     (let s = snd (service_create 5 ''pool1'' (Some \<lparr>docker_subnets = [], host_routes = [], interface_nets = []\<rparr>)
                example_pool (ipam_init\<lparr>db := Some \<lparr>t_pools = [], t_nets = []\<rparr>\<rparr>));
          s = snd (provision_ensure 6 ''i1'' None ''n1'' ''app1'' ''net1'' s)
      in snd (provision_release 7 True None ''app1'' s))"

lemma released_project_never_reallocated_db_witness:
  "\<exists>e. fst (allocate 999999999999999 ''i2'' ''n1'' ''app1'' ''net1'' example_db_state) = Inl e"
proof -
  have facts: "map_option (\<lambda>n. n_status n) (get_by_project ''app1'' example_db_state) = Some NetReleased"
    "map_option (\<lambda>t. map n_project (t_nets t)) (db example_db_state) = Some [''app1'']"
    by code_simp+
  then obtain t n where t: "db example_db_state = Some t" "map n_project (t_nets t) = [''app1'']"
    and n: "get_by_project ''app1'' example_db_state = Some n" "n_status n = NetReleased" by auto
  from t(2) obtain row where row: "row \<in> set (t_nets t)" "n_project row = ''app1''"
    by (cases "t_nets t") auto
  show ?thesis by (rule released_project_never_reallocated_db [OF t(1) row n])
qed

end
