(* ===== verification/Tasksys.thy ===== *)
theory Tasksys
  imports Go_Text "HOL-Library.Product_Lexorder" "HOL-Library.List_Lexorder" "HOL-Library.Char_ord"
begin

text \<open>
  \<open>containermanager/tasksys\<close>: the life of a task, from its creation through delivery to an
  agent, acknowledgement, progress and result, to one of the four final states, with
  cancellation, the deadline sweep, paging, probes and the reload after a restart; and the action
  whitelist of \<open>agentprotocol/actions.go\<close>. The task map is an association list (its order is
  one iteration order of the Go map); a task's pointer is its key in the map. The store is the
  list of rows of \<open>cm_tasks\<close> (None without a database). \<open>call_env\<close> is what a call reads from
  outside the package: the clock, the random ID, the senders of the connected agents, and whether
  PostgreSQL accepts a statement.
\<close>

section \<open>Actions\<close>

definition allowed_actions :: "string list" where
  "allowed_actions =
    [''system.info'', ''docker.info'', ''node.metrics'',
     ''container.list'', ''container.inspect'', ''container.create'', ''container.start'',
     ''container.stop'', ''container.restart'', ''container.remove'', ''container.stats'',
     ''image.list'', ''image.inspect'', ''image.pull'', ''image.remove'',
     ''network.list'', ''network.inspect'', ''network.create'', ''network.remove'',
     ''network.delete'', ''network.list_managed'', ''network.check'',
     ''volume.list'', ''volume.inspect'', ''volume.create'', ''volume.remove'',
     ''application.validate'', ''application.deploy'', ''application.stop'',
     ''application.start'', ''application.restart'', ''application.remove'', ''application.ps'',
     ''logs.read'']"

definition forbidden_actions :: "string list" where
  "forbidden_actions = [''shell.exec'', ''host.exec'', ''command.exec'']"

definition is_allowed_action :: "string \<Rightarrow> bool" where
  "is_allowed_action action \<longleftrightarrow> action \<in> set allowed_actions"

definition is_forbidden_action :: "string \<Rightarrow> bool" where
  "is_forbidden_action action \<longleftrightarrow> action \<in> set forbidden_actions"

section \<open>Tasks\<close>

datatype status =
    TaskPending | TaskDispatching | TaskRunning
  | TaskSuccess | TaskFailed | TaskCancelled | TaskTimeout

fun terminal :: "status \<Rightarrow> bool" where
  "terminal TaskSuccess = True"
| "terminal TaskFailed = True"
| "terminal TaskCancelled = True"
| "terminal TaskTimeout = True"
| "terminal _ = False"

record task =
  k_id :: string
  k_node :: string
  k_action :: string
  k_params :: string
  k_status :: status
  k_message :: string
  k_percent :: int
  k_error :: string
  k_result :: string
  k_request :: string
  k_parent :: string
  k_by :: string
  k_created :: int
  k_started :: int
  k_finished_ms :: int
  k_deadline :: int
  k_attempts :: int
  k_finished :: bool
  k_ephemeral :: bool

definition new_task :: task where
  "new_task = \<lparr>k_id = [], k_node = [], k_action = [], k_params = [], k_status = TaskPending,
     k_message = [], k_percent = 0, k_error = [], k_result = [], k_request = [], k_parent = [],
     k_by = [], k_created = 0, k_started = 0, k_finished_ms = 0, k_deadline = 0, k_attempts = 0,
     k_finished = False, k_ephemeral = False\<rparr>"

definition set_status :: "int \<Rightarrow> status \<Rightarrow> task \<Rightarrow> task" where
  "set_status now s t =
    (let t1 = t\<lparr>k_status := s\<rparr>;
         t2 = (if s = TaskRunning \<and> k_started t1 = 0 then t1\<lparr>k_started := now\<rparr> else t1)
     in if terminal s then t2\<lparr>k_finished_ms := now, k_finished := True\<rparr> else t2)"

section \<open>The manager and its store\<close>

datatype envelope =
    TaskExecute string string string string \<comment> \<open>request ID, task ID, action, parameters\<close>
  | TaskCancel string string \<comment> \<open>task ID, reason\<close>

record manager =
  m_timeout :: int \<comment> \<open>nanoseconds\<close>
  m_tasks :: "(string \<times> task) list"
  m_store :: "task list option"
  m_sent :: "(string \<times> envelope) list" \<comment> \<open>what was handed to a sender, in order\<close>

record call_env =
  e_clock :: int \<comment> \<open>nanoseconds since the Unix epoch\<close>
  e_random :: "string option" \<comment> \<open>the hexadecimal part of a random ID, None on an error\<close>
  e_sender :: "string \<Rightarrow> bool option" \<comment> \<open>None: no session; Some b: Send returns b\<close>
  e_accepts :: "task \<Rightarrow> bool"
  e_jsonb :: "string \<Rightarrow> string" \<comment> \<open>PostgreSQL's text of a jsonb value\<close>

definition now_ms :: "call_env \<Rightarrow> int" where
  "now_ms env = e_clock env div 1000000"

definition default_timeout :: int where
  "default_timeout = 5 * 60 * second"

definition new_manager :: "int \<Rightarrow> task list option \<Rightarrow> manager" where
  "new_manager timeout store =
    \<lparr>m_timeout = (if timeout \<le> 0 then default_timeout else timeout), m_tasks = [],
     m_store = store, m_sent = []\<rparr>"

definition raw_or_null :: "string \<Rightarrow> string" where
  "raw_or_null r = (if r = [] then ''null'' else r)"

text \<open>The row a task is written as: the columns of the INSERT, the rest at their zero value.\<close>

definition row_of :: "call_env \<Rightarrow> task \<Rightarrow> task" where
  "row_of env t = t\<lparr>k_params := e_jsonb env (raw_or_null (k_params t)),
     k_result := e_jsonb env (raw_or_null (k_result t)), k_finished := False,
     k_ephemeral := False\<rparr>"

definition row_update :: "task \<Rightarrow> task \<Rightarrow> task" where
  "row_update new old = old\<lparr>k_status := k_status new, k_percent := k_percent new,
     k_message := k_message new, k_error := k_error new, k_result := k_result new,
     k_attempts := k_attempts new, k_started := k_started new,
     k_finished_ms := k_finished_ms new, k_deadline := k_deadline new\<rparr>"

definition save :: "call_env \<Rightarrow> task \<Rightarrow> task list \<Rightarrow> task list" where
  "save env t rows =
    (if \<not> e_accepts env t then rows
     else if k_id t \<in> k_id ` set rows
     then map (\<lambda>r. if k_id r = k_id t then row_update (row_of env t) r else r) rows
     else rows @ [row_of env t])"

definition load_rows :: "task list \<Rightarrow> task list" where
  "load_rows rows = map (\<lambda>r. r\<lparr>k_finished := False, k_ephemeral := False\<rparr>)
     (take 1000 (sort_key (\<lambda>r. - k_created r) rows))"

definition persist :: "call_env \<Rightarrow> task \<Rightarrow> manager \<Rightarrow> manager" where
  "persist env t m =
    (case m_store m of
       None \<Rightarrow> m
     | Some rows \<Rightarrow> if k_ephemeral t then m else m\<lparr>m_store := Some (save env t rows)\<rparr>)"

definition put_task :: "task \<Rightarrow> manager \<Rightarrow> manager" where
  "put_task t m = m\<lparr>m_tasks := AList.update (k_id t) t (m_tasks m)\<rparr>"

text \<open>A change of a task under its lock, followed by the write-through.\<close>

definition edit_task :: "string \<Rightarrow> (task \<Rightarrow> task) \<Rightarrow> manager \<Rightarrow> manager" where
  "edit_task tid f m =
    (case map_of (m_tasks m) tid of
       None \<Rightarrow> m
     | Some t \<Rightarrow> m\<lparr>m_tasks := AList.update tid (f t) (m_tasks m)\<rparr>)"

definition commit :: "call_env \<Rightarrow> string \<Rightarrow> (task \<Rightarrow> task) \<Rightarrow> manager \<Rightarrow> manager" where
  "commit env tid f m =
    (case map_of (m_tasks m) tid of
       None \<Rightarrow> m
     | Some t \<Rightarrow> persist env (f t) (m\<lparr>m_tasks := AList.update tid (f t) (m_tasks m)\<rparr>))"

definition post :: "string \<Rightarrow> envelope \<Rightarrow> manager \<Rightarrow> manager" where
  "post node e m = m\<lparr>m_sent := m_sent m @ [(node, e)]\<rparr>"

text \<open>\<open>lookup\<close>: the task with that ID, if it belongs to the node.\<close>

definition lookup_task :: "manager \<Rightarrow> string \<Rightarrow> string \<Rightarrow> task option" where
  "lookup_task m node tid =
    (case map_of (m_tasks m) tid of
       None \<Rightarrow> None
     | Some t \<Rightarrow> if k_node t = node then Some t else None)"

section \<open>Delivery\<close>

datatype task_error =
    ActionNotAllowed string | MarshalError | RandomError | NodeOffline string
  | SendFailed string | UnknownTask | NotCancellable | NotFinished string | ContextDone
  | TaskEnded status string

datatype marshalled = NoParams | Json string | MarshalFails

text \<open>
  \<open>deliver\<close> in two steps: the first looks up the session, counts the attempt and hands the envelope to the
  session; the second records how that went. Between them the task's lock is free, so the agent's
  reply, a cancellation or a sweep can be handled in between.
\<close>

datatype delivery = Offline | Refused | Accepted

definition deliver_send :: "call_env \<Rightarrow> string \<Rightarrow> string \<Rightarrow> manager \<Rightarrow> manager \<times> delivery" where
  "deliver_send env node tid m =
    (case e_sender env node of
       None \<Rightarrow> (m, Offline)
     | Some ok \<Rightarrow>
         (case map_of (m_tasks m) tid of
            None \<Rightarrow> m
          | Some t \<Rightarrow> post node (TaskExecute (k_request t) (k_id t) (k_action t) (k_params t))
              (edit_task tid (\<lambda>t. t\<lparr>k_attempts := k_attempts t + 1\<rparr>) m),
          if ok then Accepted else Refused))"

definition deliver_done :: "call_env \<Rightarrow> string \<Rightarrow> delivery \<Rightarrow> manager \<Rightarrow> manager" where
  "deliver_done env tid d m =
    commit env tid
      (\<lambda>t. case d of
         Offline \<Rightarrow> set_status (now_ms env) TaskFailed (t\<lparr>k_error := ''node offline''\<rparr>)
       | Refused \<Rightarrow> set_status (now_ms env) TaskFailed (t\<lparr>k_error := ''send failed''\<rparr>)
       | Accepted \<Rightarrow> set_status (now_ms env) TaskDispatching t) m"

definition deliver_error :: "string \<Rightarrow> delivery \<Rightarrow> task_error option" where
  "deliver_error node d =
    (case d of Offline \<Rightarrow> Some (NodeOffline node) | Refused \<Rightarrow> Some (SendFailed node) | Accepted \<Rightarrow> None)"

text \<open>The two steps when nothing is handled between them.\<close>

definition deliver ::
  "call_env \<Rightarrow> string \<Rightarrow> string \<Rightarrow> manager \<Rightarrow> manager \<times> task option \<times> task_error option" where
  "deliver env node tid m =
    (case deliver_send env node tid m of
       (m1, d) \<Rightarrow>
         (let m2 = deliver_done env tid d m1 in (m2, map_of (m_tasks m2) tid, deliver_error node d)))"

text \<open>The part of \<open>dispatch\<close> before the delivery.\<close>

definition create_task ::
  "call_env \<Rightarrow> string \<Rightarrow> string \<Rightarrow> marshalled \<Rightarrow> string \<Rightarrow> bool \<Rightarrow> manager
    \<Rightarrow> manager \<times> (task_error + string)" where
  "create_task env node action params by eph m =
    (if \<not> is_allowed_action action then (m, Inl (ActionNotAllowed action))
     else if params = MarshalFails then (m, Inl MarshalError)
     else case e_random env of
       None \<Rightarrow> (m, Inl RandomError)
     | Some r \<Rightarrow>
         (let tid = ''task_'' @ r;
              t = new_task\<lparr>k_id := tid, k_node := node, k_action := action,
                    k_params := (case params of Json s \<Rightarrow> s | _ \<Rightarrow> []), k_status := TaskPending,
                    k_request := tid, k_by := by, k_created := now_ms env,
                    k_deadline := (e_clock env + m_timeout m) div 1000000, k_ephemeral := eph\<rparr>
          in (persist env t (put_task t m), Inr tid)))"

definition dispatch ::
  "call_env \<Rightarrow> string \<Rightarrow> string \<Rightarrow> marshalled \<Rightarrow> string \<Rightarrow> bool \<Rightarrow> manager
    \<Rightarrow> manager \<times> task option \<times> task_error option" where
  "dispatch env node action params by eph m =
    (case create_task env node action params by eph m of
       (m1, Inl e) \<Rightarrow> (m1, None, Some e)
     | (m1, Inr tid) \<Rightarrow> deliver env node tid m1)"

definition dispatch_by ::
  "call_env \<Rightarrow> string \<Rightarrow> string \<Rightarrow> marshalled \<Rightarrow> string \<Rightarrow> manager
    \<Rightarrow> manager \<times> task option \<times> task_error option" where
  "dispatch_by env node action params by m = dispatch env node action params by False m"

text \<open>\<open>Retry\<close> files a new task for the node of the old one, and delivers it.\<close>

definition create_retry ::
  "call_env \<Rightarrow> string \<Rightarrow> manager \<Rightarrow> manager \<times> (task_error + string \<times> string)" where
  "create_retry env tid m =
    (case map_of (m_tasks m) tid of
       None \<Rightarrow> (m, Inl UnknownTask)
     | Some snap \<Rightarrow>
         if \<not> terminal (k_status snap) then (m, Inl (NotFinished tid))
         else (case e_random env of
           None \<Rightarrow> (m, Inl RandomError)
         | Some r \<Rightarrow>
             (let new = ''task_'' @ r;
                  t = new_task\<lparr>k_id := new, k_node := k_node snap, k_action := k_action snap,
                        k_params := k_params snap, k_status := TaskPending, k_request := new,
                        k_parent := k_id snap, k_by := k_by snap, k_attempts := k_attempts snap,
                        k_created := now_ms env,
                        k_deadline := (e_clock env + m_timeout m) div 1000000\<rparr>
              in (persist env t (put_task t m), Inr (new, k_node snap)))))"

definition retry ::
  "call_env \<Rightarrow> string \<Rightarrow> manager \<Rightarrow> manager \<times> task option \<times> task_error option" where
  "retry env tid m =
    (case create_retry env tid m of
       (m1, Inl e) \<Rightarrow> (m1, None, Some e)
     | (m1, Inr (new, node)) \<Rightarrow> deliver env node new m1)"

section \<open>The agent's replies, cancellation and the sweep\<close>

definition transition ::
  "call_env \<Rightarrow> string \<Rightarrow> string \<Rightarrow> status \<Rightarrow> status \<Rightarrow> string \<Rightarrow> manager \<Rightarrow> manager" where
  "transition env node tid frm to err m =
    (case lookup_task m node tid of
       None \<Rightarrow> m
     | Some t \<Rightarrow>
         if k_status t \<noteq> frm then m
         else commit env tid
           (\<lambda>t. set_status (now_ms env) to (if err \<noteq> [] then t\<lparr>k_error := err\<rparr> else t)) m)"

definition on_ack :: "call_env \<Rightarrow> string \<Rightarrow> string \<Rightarrow> manager \<Rightarrow> manager" where
  "on_ack env node tid m = transition env node tid TaskDispatching TaskRunning [] m"

definition on_progress ::
  "call_env \<Rightarrow> string \<Rightarrow> string \<Rightarrow> int \<Rightarrow> string \<Rightarrow> manager \<Rightarrow> manager" where
  "on_progress env node tid percent msg m =
    (case lookup_task m node tid of
       None \<Rightarrow> m
     | Some t \<Rightarrow>
         if k_status t \<noteq> TaskRunning \<and> k_status t \<noteq> TaskDispatching then m
         else commit env tid
           (\<lambda>t. let t1 = (if 0 \<le> percent then t\<lparr>k_percent := percent\<rparr> else t)
                in if msg \<noteq> [] then t1\<lparr>k_message := msg\<rparr> else t1) m)"

definition on_result ::
  "call_env \<Rightarrow> string \<Rightarrow> string \<Rightarrow> string \<Rightarrow> string \<Rightarrow> string \<Rightarrow> manager \<Rightarrow> manager" where
  "on_result env node tid status err result m =
    (case lookup_task m node tid of
       None \<Rightarrow> m
     | Some t \<Rightarrow>
         if terminal (k_status t) then m
         else commit env tid
           (\<lambda>t. let t1 = t\<lparr>k_result := result, k_error := err\<rparr>
                in if status = ''success''
                   then set_status (now_ms env) TaskSuccess (t1\<lparr>k_percent := 100\<rparr>)
                   else set_status (now_ms env) TaskFailed t1) m)"

definition send_cancel :: "call_env \<Rightarrow> string \<Rightarrow> string \<Rightarrow> string \<Rightarrow> manager \<Rightarrow> manager" where
  "send_cancel env node tid reason m =
    (case e_sender env node of None \<Rightarrow> m | Some _ \<Rightarrow> post node (TaskCancel tid reason) m)"

definition cancel ::
  "call_env \<Rightarrow> string \<Rightarrow> string \<Rightarrow> string \<Rightarrow> manager \<Rightarrow> manager \<times> task_error option" where
  "cancel env node tid reason m =
    (case lookup_task m node tid of
       None \<Rightarrow> (m, Some UnknownTask)
     | Some t \<Rightarrow>
         if terminal (k_status t) then (m, Some NotCancellable)
         else (send_cancel env node tid reason
                 (commit env tid
                    (\<lambda>t. set_status (now_ms env) TaskCancelled (t\<lparr>k_error := reason\<rparr>)) m), None))"

definition admin_cancel ::
  "call_env \<Rightarrow> string \<Rightarrow> string \<Rightarrow> manager \<Rightarrow> manager \<times> task_error option" where
  "admin_cancel env tid reason m =
    (case map_of (m_tasks m) tid of
       None \<Rightarrow> (m, Some UnknownTask)
     | Some t \<Rightarrow> cancel env (k_node t) tid reason m)"

definition expired :: "int \<Rightarrow> task \<Rightarrow> bool" where
  "expired now t \<longleftrightarrow> \<not> terminal (k_status t) \<and> 0 < k_deadline t \<and> k_deadline t \<le> now"

definition sweep_one :: "call_env \<Rightarrow> string \<Rightarrow> manager \<times> nat \<Rightarrow> manager \<times> nat" where
  "sweep_one env tid mn =
    (case mn of (m, n) \<Rightarrow>
       (case map_of (m_tasks m) tid of
          None \<Rightarrow> (m, n)
        | Some t \<Rightarrow>
            if expired (now_ms env) t
            then (send_cancel env (k_node t) (k_id t) ''task timeout''
                    (commit env tid
                       (\<lambda>t. set_status (now_ms env) TaskTimeout (t\<lparr>k_error := ''task timeout''\<rparr>)) m),
                  n + 1)
            else (m, n)))"

definition sweep :: "call_env \<Rightarrow> manager \<Rightarrow> manager \<times> nat" where
  "sweep env m = fold (sweep_one env) (map fst (m_tasks m)) (m, 0)"

section \<open>Reading tasks\<close>

definition get_task :: "manager \<Rightarrow> string \<Rightarrow> task option" where
  "get_task m tid =
    (case map_of (m_tasks m) tid of
       None \<Rightarrow> None
     | Some t \<Rightarrow> if k_ephemeral t then None else Some t)"

definition list_tasks :: "manager \<Rightarrow> task list" where
  "list_tasks m = filter (\<lambda>t. \<not> k_ephemeral t) (map snd (m_tasks m))"

text \<open>The comparator of \<open>Page\<close>, and the sort it gives (IDs are distinct, so it is unique).\<close>

definition task_before :: "task \<Rightarrow> task \<Rightarrow> bool" where
  "task_before s t \<longleftrightarrow>
    (if k_created s \<noteq> k_created t then k_created s > k_created t else k_id s > k_id t)"

definition newest_first :: "task list \<Rightarrow> task list" where
  "newest_first ts = rev (sort_key (\<lambda>t. (k_created t, k_id t)) ts)"

definition page :: "manager \<Rightarrow> string \<Rightarrow> int \<Rightarrow> int \<Rightarrow> (task list \<times> nat) outcome" where
  "page m node limit offset =
    (let ts0 = list_tasks m;
         ts1 = (if node \<noteq> [] then filter (\<lambda>t. k_node t = node) ts0 else ts0);
         ts = newest_first ts1;
         total = int (length ts);
         off = (if offset < 0 then 0 else offset);
         off = (if off > total then total else off);
         end' = wrap64 (off + limit);
         end'' = (if limit \<le> 0 \<or> end' > total then total else end')
     in if end'' < off then Panics
        else Returns (take (nat (end'' - off)) (drop (nat off) ts), length ts))"

text \<open>The limits the handler of \<open>GET /api/mgmt/tasks\<close> applies before it calls \<open>Page\<close>.\<close>

definition page_limit :: "int \<Rightarrow> int" where
  "page_limit limit =
    (let l = (if limit \<le> 0 then 20 else limit) in if l > 200 then 200 else l)"

section \<open>Reload, synchronous calls and probes\<close>

definition interrupted :: string where
  "interrupted = ''interrupted by cm restart''"

definition load_one :: "call_env \<Rightarrow> task \<Rightarrow> task" where
  "load_one env t =
    (if terminal (k_status t) then t
     else set_status (now_ms env) TaskFailed (t\<lparr>k_error := interrupted\<rparr>))"

definition load :: "call_env \<Rightarrow> manager \<Rightarrow> manager" where
  "load env m =
    (case m_store m of
       None \<Rightarrow> m
     | Some rows \<Rightarrow>
         (let ts = map (load_one env) (load_rows rows);
              m1 = fold put_task ts m
          in fold (\<lambda>t m. if k_status t = TaskFailed \<and> k_error t = interrupted
                         then persist env t m else m) ts m1))"

definition drop_ephemeral :: "task option \<Rightarrow> manager \<Rightarrow> manager" where
  "drop_ephemeral t m =
    (case t of
       None \<Rightarrow> m
     | Some t \<Rightarrow>
         if \<not> k_ephemeral t then m else m\<lparr>m_tasks := AList.delete (k_id t) (m_tasks m)\<rparr>)"

text \<open>
  \<open>await\<close>: the case of the select that fires, and the answer; \<open>None\<close> while the done channel is
  still open. The live task is found by its key (its pointer).
\<close>

datatype wake = DoneClosed | ContextCancelled

definition await ::
  "call_env \<Rightarrow> string \<Rightarrow> string \<Rightarrow> wake \<Rightarrow> manager \<Rightarrow> (manager \<times> (task_error + string)) option"
where
  "await env node tid w m =
    (case map_of (m_tasks m) tid of
       None \<Rightarrow> None
     | Some live \<Rightarrow>
         (case w of
            ContextCancelled \<Rightarrow> Some (fst (cancel env node tid ''context canceled'' m), Inl ContextDone)
          | DoneClosed \<Rightarrow>
              if \<not> k_finished live then None
              else if k_status live \<noteq> TaskSuccess
              then Some (m, Inl (TaskEnded (k_status live) (k_error live)))
              else Some (m, Inr (k_result live))))"

text \<open>
  Several goroutines use the manager at once. Its state together with the deliveries under way: for
  a task that is being delivered, its node and, once the envelope was handed over, how that went.
\<close>

record task_system =
  sys_tasks :: manager
  sys_delivering :: "string \<Rightarrow> (string \<times> delivery option) option"

definition on_tasks :: "(manager \<Rightarrow> manager) \<Rightarrow> task_system \<Rightarrow> task_system" where
  "on_tasks f s = s\<lparr>sys_tasks := f (sys_tasks s)\<rparr>"

text \<open>
  The critical sections: \<open>EvDispatch\<close> and \<open>EvRetry\<close> file the task and leave its delivery to the events
  \<open>EvSend\<close> and \<open>EvRecord\<close>, \<open>EvSweepOne\<close> is the turn of one task in a sweep.
\<close>

datatype task_event =
    EvDispatch string string marshalled string bool
  | EvRetry string
  | EvSend string
  | EvRecord string
  | EvAck string string
  | EvProgress string string int string
  | EvResult string string string string string
  | EvCancel string string string
  | EvAdminCancel string string
  | EvSweep
  | EvSweepOne string
  | EvDropEphemeral string

fun task_step :: "task_system \<Rightarrow> call_env \<times> task_event \<Rightarrow> task_system" where
  "task_step s (env, EvDispatch node action params by eph) =
     (case create_task env node action params by eph (sys_tasks s) of
        (m, Inl e) \<Rightarrow> s\<lparr>sys_tasks := m\<rparr>
      | (m, Inr i) \<Rightarrow> \<lparr>sys_tasks = m, sys_delivering = (sys_delivering s)(i \<mapsto> (node, None))\<rparr>)"
| "task_step s (env, EvRetry tid) =
     (case create_retry env tid (sys_tasks s) of
        (m, Inl e) \<Rightarrow> s\<lparr>sys_tasks := m\<rparr>
      | (m, Inr (i, node)) \<Rightarrow> \<lparr>sys_tasks = m, sys_delivering = (sys_delivering s)(i \<mapsto> (node, None))\<rparr>)"
| "task_step s (env, EvSend tid) =
     (case sys_delivering s tid of
        Some (node, None) \<Rightarrow>
          (case deliver_send env node tid (sys_tasks s) of
             (m, d) \<Rightarrow> \<lparr>sys_tasks = m, sys_delivering = (sys_delivering s)(tid \<mapsto> (node, Some d))\<rparr>)
      | _ \<Rightarrow> s)"
| "task_step s (env, EvRecord tid) =
     (case sys_delivering s tid of
        Some (node, Some d) \<Rightarrow>
          \<lparr>sys_tasks = deliver_done env tid d (sys_tasks s),
           sys_delivering = (sys_delivering s)(tid := None)\<rparr>
      | _ \<Rightarrow> s)"
| "task_step s (env, EvAck node tid) = on_tasks (on_ack env node tid) s"
| "task_step s (env, EvProgress node tid p msg) = on_tasks (on_progress env node tid p msg) s"
| "task_step s (env, EvResult node tid st err r) = on_tasks (on_result env node tid st err r) s"
| "task_step s (env, EvCancel node tid reason) = on_tasks (\<lambda>m. fst (cancel env node tid reason m)) s"
| "task_step s (env, EvAdminCancel tid reason) = on_tasks (\<lambda>m. fst (admin_cancel env tid reason m)) s"
| "task_step s (env, EvSweep) = on_tasks (\<lambda>m. fst (sweep env m)) s"
| "task_step s (env, EvSweepOne tid) = on_tasks (\<lambda>m. fst (sweep_one env tid (m, 0))) s"
| "task_step s (env, EvDropEphemeral tid) = on_tasks (\<lambda>m. drop_ephemeral (map_of (m_tasks m) tid) m) s"

text \<open>
  What a synchronous call meets: the events handled before its envelope is sent, between that and the
  record of the delivery, and while it waits, and the environments of its own steps.
\<close>

record schedule =
  sd_before :: "(call_env \<times> task_event) list"
  sd_send :: call_env
  sd_between :: "(call_env \<times> task_event) list"
  sd_record :: call_env
  sd_after :: "(call_env \<times> task_event) list"
  sd_wake :: call_env

definition deliver_during :: "schedule \<Rightarrow> string \<Rightarrow> string \<Rightarrow> task_system \<Rightarrow> task_system \<times> delivery" where
  "deliver_during sd node i s =
    (let s1 = foldl task_step s (sd_before sd);
         md = deliver_send (sd_send sd) node i (sys_tasks s1);
         s2 = foldl task_step (s1\<lparr>sys_tasks := fst md\<rparr>) (sd_between sd)
     in (on_tasks (deliver_done (sd_record sd) i (snd md)) s2, snd md))"

definition await_during ::
  "schedule \<Rightarrow> string \<Rightarrow> string \<Rightarrow> wake \<Rightarrow> task_system \<Rightarrow> (task_system \<times> (task_error + string)) option" where
  "await_during sd node i w s =
    (let s1 = foldl task_step s (sd_after sd) in
     case await (sd_wake sd) node i w (sys_tasks s1) of
       None \<Rightarrow> None
     | Some (m, res) \<Rightarrow> Some (s1\<lparr>sys_tasks := m\<rparr>, res))"


definition probe ::
  "call_env \<Rightarrow> string \<Rightarrow> string \<Rightarrow> marshalled \<Rightarrow> schedule \<Rightarrow> wake \<Rightarrow> task_system
    \<Rightarrow> (task_system \<times> (task_error + string)) option" where
  "probe env node action params sd w s =
    (case create_task env node action params [] True (sys_tasks s) of
       (m, Inl e) \<Rightarrow> Some (s\<lparr>sys_tasks := m\<rparr>, Inl e)
     | (m, Inr i) \<Rightarrow>
         (case deliver_during sd node i (s\<lparr>sys_tasks := m\<rparr>) of
            (s1, d) \<Rightarrow>
              (let t = map_of (m_tasks (sys_tasks s1)) i in
               case deliver_error node d of
                 Some e \<Rightarrow> Some (on_tasks (drop_ephemeral t) s1, Inl e)
               | None \<Rightarrow>
                   (case t of
                      None \<Rightarrow> Some (s1, Inl UnknownTask)
                    | Some _ \<Rightarrow>
                        (case await_during sd node i w s1 of
                           None \<Rightarrow> None
                         | Some (s2, res) \<Rightarrow> Some (on_tasks (drop_ephemeral t) s2, res))))))"

section \<open>How each operation acts on the task map, the store and the outbox\<close>

lemma set_status_simps [simp]:
  "k_id (set_status now s t) = k_id t" "k_node (set_status now s t) = k_node t"
  "k_status (set_status now s t) = s" "k_ephemeral (set_status now s t) = k_ephemeral t"
  "k_error (set_status now s t) = k_error t" "k_result (set_status now s t) = k_result t"
  "k_deadline (set_status now s t) = k_deadline t"
  "k_attempts (set_status now s t) = k_attempts t"
  "k_finished (set_status now s t) = (terminal s \<or> k_finished t)"
  by (auto simp: set_status_def Let_def)

lemma persist_frame [simp]:
  "m_tasks (persist env t m) = m_tasks m" "m_sent (persist env t m) = m_sent m"
  "m_timeout (persist env t m) = m_timeout m"
  by (auto simp: persist_def split: option.splits)

lemma commit_tasks [frame_simps]:
  "map_of (m_tasks (commit env tid f m)) k =
    (if k = tid then map_option f (map_of (m_tasks m) k) else map_of (m_tasks m) k)"
  by (auto simp: commit_def split: option.splits)

lemma commit_Some:
  "map_of (m_tasks m) i = Some t \<Longrightarrow>
    commit env i f m = persist env (f t) (m\<lparr>m_tasks := AList.update i (f t) (m_tasks m)\<rparr>)"
  by (simp add: commit_def)

lemma edit_tasks [frame_simps]:
  "map_of (m_tasks (edit_task tid f m)) k =
    (if k = tid then map_option f (map_of (m_tasks m) k) else map_of (m_tasks m) k)"
  by (auto simp: edit_task_def split: option.splits)

lemma put_tasks [frame_simps]:
  "map_of (m_tasks (put_task t m)) k = (if k = k_id t then Some t else map_of (m_tasks m) k)"
  by (auto simp: put_task_def)

lemma post_frame [simp]:
  "m_tasks (post n e m) = m_tasks m" "m_store (post n e m) = m_store m"
  by (simp_all add: post_def)

lemma send_cancel_frame [simp]:
  "m_tasks (send_cancel env n tid r m) = m_tasks m"
  "m_store (send_cancel env n tid r m) = m_store m"
  by (auto simp: send_cancel_def split: option.splits)

lemma drop_tasks [frame_simps]:
  "map_of (m_tasks (drop_ephemeral t m)) k =
    (case t of
       None \<Rightarrow> map_of (m_tasks m) k
     | Some t \<Rightarrow> if k_ephemeral t \<and> k = k_id t then None else map_of (m_tasks m) k)"
  by (auto simp: drop_ephemeral_def split: option.splits)

lemma commit_keys [simp]: "map fst (m_tasks (commit env tid f m)) = map fst (m_tasks m)"
  using map_of_eq_None_iff [of "m_tasks m" tid]
  by (auto simp: commit_def alist_update_keys split: option.splits)

lemma edit_keys [simp]: "map fst (m_tasks (edit_task tid f m)) = map fst (m_tasks m)"
  using map_of_eq_None_iff [of "m_tasks m" tid]
  by (auto simp: edit_task_def alist_update_keys split: option.splits)

lemma deliver_send_tasks [frame_simps]:
  "map_of (m_tasks (fst (deliver_send env node tid m))) k =
    (if k = tid \<and> e_sender env node \<noteq> None
     then map_option (\<lambda>t. t\<lparr>k_attempts := k_attempts t + 1\<rparr>) (map_of (m_tasks m) k)
     else map_of (m_tasks m) k)"
  by (auto simp: deliver_send_def frame_simps split: option.splits)

lemma deliver_done_other [frame_simps]:
  "k \<noteq> tid \<Longrightarrow> map_of (m_tasks (deliver_done env tid d m)) k = map_of (m_tasks m) k"
  by (simp add: deliver_done_def frame_simps)

lemma deliver_other [frame_simps]:
  "k \<noteq> tid \<Longrightarrow> map_of (m_tasks (fst (deliver env node tid m))) k = map_of (m_tasks m) k"
  using deliver_send_tasks [of env node tid m k]
  by (cases "deliver_send env node tid m") (simp add: deliver_def Let_def frame_simps)

lemma create_other [frame_simps]:
  assumes "\<And>r. e_random env = Some r \<Longrightarrow> k \<noteq> ''task_'' @ r"
  shows "map_of (m_tasks (fst (create_task env node action ps by eph m))) k = map_of (m_tasks m) k"
  using assms by (auto simp: create_task_def Let_def frame_simps new_task_def split: option.splits)

lemma create_Inr:
  "create_task env node action ps by eph m = (m1, Inr i) \<Longrightarrow>
    \<exists>r. e_random env = Some r \<and> i = ''task_'' @ r"
  by (auto simp: create_task_def Let_def split: if_splits option.splits)

lemma dispatch_other [frame_simps]:
  assumes "\<And>r. e_random env = Some r \<Longrightarrow> k \<noteq> ''task_'' @ r"
  shows "map_of (m_tasks (fst (dispatch env node action ps by eph m))) k = map_of (m_tasks m) k"
proof (cases "create_task env node action ps by eph m")
  case (Pair m1 e)
  have "map_of (m_tasks m1) k = map_of (m_tasks m) k"
    using create_other [of env k, OF assms] Pair by (metis fst_conv)
  then show ?thesis
    using Pair assms create_Inr [of env node action ps "by" eph m m1]
    by (cases e) (auto simp: dispatch_def frame_simps)
qed

lemma create_retry_other [frame_simps]:
  assumes "\<And>r. e_random env = Some r \<Longrightarrow> k \<noteq> ''task_'' @ r"
  shows "map_of (m_tasks (fst (create_retry env tid m))) k = map_of (m_tasks m) k"
  using assms by (auto simp: create_retry_def Let_def frame_simps new_task_def split: option.splits)

lemma create_retry_Inr:
  "create_retry env tid m = (m1, Inr (i, n)) \<Longrightarrow> \<exists>r. e_random env = Some r \<and> i = ''task_'' @ r"
  by (auto simp: create_retry_def Let_def split: if_splits option.splits)

lemma on_tasks_simps [simp]:
  "sys_tasks (on_tasks f s) = f (sys_tasks s)" "sys_delivering (on_tasks f s) = sys_delivering s"
  by (simp_all add: on_tasks_def)

section \<open>The sweep\<close>

definition expire :: "int \<Rightarrow> task \<Rightarrow> task" where
  "expire now t =
    (if expired now t then set_status now TaskTimeout (t\<lparr>k_error := ''task timeout''\<rparr>) else t)"

lemma expired_expire [simp]: "\<not> expired now (expire now t)"
  by (simp add: expire_def expired_def)

lemma sweep_one_tasks:
  "map_of (m_tasks (fst (sweep_one env i (m, n)))) k =
    (if k = i then map_option (expire (now_ms env)) (map_of (m_tasks m) k)
     else map_of (m_tasks m) k)"
  by (auto simp: sweep_one_def frame_simps expire_def split: option.splits)

lemma sweep_one_keys [simp]:
  "map fst (m_tasks (fst (sweep_one env i (m, n)))) = map fst (m_tasks m)"
  by (auto simp: sweep_one_def split: option.splits)

lemma sweep_fold_tasks:
  "map_of (m_tasks (fst (fold (sweep_one env) ks (m, n)))) k =
    (if k \<in> set ks then map_option (expire (now_ms env)) (map_of (m_tasks m) k)
     else map_of (m_tasks m) k)"
proof (induction ks arbitrary: m n)
  case Nil
  then show ?case by simp
next
  case (Cons i ks)
  obtain m1 n1 where s: "sweep_one env i (m, n) = (m1, n1)" by fastforce
  have e: "expire (now_ms env) (expire (now_ms env) t) = expire (now_ms env) t" for t
    by (simp add: expire_def expired_def)
  show ?case
    using sweep_one_tasks [of env i m n k] s Cons.IH [of m1 n1]
    by (auto simp: e option.map_comp comp_def)
qed

lemma sweep_tasks [frame_simps]:
  "map_of (m_tasks (fst (sweep env m))) k = map_option (expire (now_ms env)) (map_of (m_tasks m) k)"
proof -
  have "k \<notin> set (map fst (m_tasks m)) \<Longrightarrow> map_of (m_tasks m) k = None"
    by (simp add: map_of_eq_None_iff)
  then show ?thesis by (auto simp: sweep_def sweep_fold_tasks)
qed

lemma sweep_fold_keys:
  "map fst (m_tasks (fst (fold (sweep_one env) ks (m, n)))) = map fst (m_tasks m)"
proof (induction ks arbitrary: m n)
  case (Cons i ks)
  obtain m1 n1 where s: "sweep_one env i (m, n) = (m1, n1)" by fastforce
  show ?case using sweep_one_keys [of env i m n] s Cons.IH [of m1 n1] by simp
qed simp

lemma sweep_keys [simp]: "map fst (m_tasks (fst (sweep env m))) = map fst (m_tasks m)"
  by (simp add: sweep_def sweep_fold_keys)

text \<open>The cancel messages and the count of one sweep, over the tasks it finds expired.\<close>

definition expired_tasks :: "call_env \<Rightarrow> manager \<Rightarrow> string list \<Rightarrow> task list" where
  "expired_tasks env m ks =
    filter (expired (now_ms env)) (map (\<lambda>k. the (map_of (m_tasks m) k)) ks)"

lemma sweep_fold_count:
  assumes "distinct ks" and "\<forall>k \<in> set ks. map_of (m_tasks m) k \<noteq> None"
  shows "snd (fold (sweep_one env) ks (m, n)) = n + length (expired_tasks env m ks)
    \<and> m_sent (fst (fold (sweep_one env) ks (m, n))) =
        m_sent m @ map (\<lambda>t. (k_node t, TaskCancel (k_id t) ''task timeout''))
          (filter (\<lambda>t. e_sender env (k_node t) \<noteq> None) (expired_tasks env m ks))"
  using assms
proof (induction ks arbitrary: m n)
  case Nil
  then show ?case by (simp add: expired_tasks_def)
next
  case (Cons i ks)
  obtain m1 n1 where s: "sweep_one env i (m, n) = (m1, n1)" by fastforce
  obtain t where t: "map_of (m_tasks m) i = Some t" using Cons.prems by auto
  have m1: "map_of (m_tasks m1) k = map_of (m_tasks m) k" if "k \<in> set ks" for k
    using sweep_one_tasks [of env i m n k] s that Cons.prems(1) by auto
  have ex: "expired_tasks env m1 ks = expired_tasks env m ks"
    using m1 by (simp add: expired_tasks_def cong: map_cong)
  have hd: "expired_tasks env m (i # ks) =
      (if expired (now_ms env) t then t # expired_tasks env m ks else expired_tasks env m ks)"
    by (simp add: expired_tasks_def t)
  have n1: "n1 = n + (if expired (now_ms env) t then 1 else 0)"
    and snt: "m_sent m1 = m_sent m @
      (if expired (now_ms env) t \<and> e_sender env (k_node t) \<noteq> None
       then [(k_node t, TaskCancel (k_id t) ''task timeout'')] else [])"
    using s t by (auto simp: sweep_one_def send_cancel_def post_def commit_def
        split: if_splits option.splits)
  have "\<forall>k \<in> set ks. map_of (m_tasks m1) k \<noteq> None" using m1 Cons.prems(2) by simp
  then show ?case
    using Cons.IH [of m1 n1] Cons.prems(1) s n1 snt
    by (simp add: ex hd)
qed

section \<open>The task invariant\<close>

text \<open>
  Every task is filed under its own ID, and the done channel of one in a final state is closed. (The
  converse fails: see \<open>late_delivery_record_overwrites_success\<close>.) The tasks in \<open>L\<close> are the ones read
  back from the database, whose channel nobody waits on.
\<close>

definition task_ok :: "string set \<Rightarrow> string \<Rightarrow> task \<Rightarrow> bool" where
  "task_ok L k t \<longleftrightarrow> k_id t = k \<and> (terminal (k_status t) \<longrightarrow> k_finished t \<or> k \<in> L)"

definition task_inv :: "string set \<Rightarrow> manager \<Rightarrow> bool" where
  "task_inv L m \<longleftrightarrow> (\<forall>k t. map_of (m_tasks m) k = Some t \<longrightarrow> task_ok L k t)"

lemma task_inv_new [inv_intros]: "task_inv L (new_manager timeout store)"
  by (simp add: task_inv_def new_manager_def)

lemma task_invI:
  "(\<And>k t. map_of (m_tasks m) k = Some t \<Longrightarrow> task_ok L k t) \<Longrightarrow> task_inv L m"
  by (simp add: task_inv_def)

lemma task_invD: "map_of (m_tasks m) k = Some t \<Longrightarrow> task_inv L m \<Longrightarrow> task_ok L k t"
  by (simp add: task_inv_def)

lemma task_inv_tasks_cong:
  "(\<And>k. map_of (m_tasks m') k = map_of (m_tasks m) k) \<Longrightarrow> task_inv L m' = task_inv L m"
  by (simp add: task_inv_def)

lemma task_inv_persist [simp]: "task_inv L (persist env t m) = task_inv L m"
  and task_inv_post [simp]: "task_inv L (post n e m) = task_inv L m"
  and task_inv_send_cancel [simp]: "task_inv L (send_cancel env n i r m) = task_inv L m"
  by (rule task_inv_tasks_cong, simp)+

lemma task_inv_commit [inv_intros]:
  assumes "task_inv L m"
    and "\<And>t. map_of (m_tasks m) i = Some t \<Longrightarrow> task_ok L i t \<Longrightarrow> task_ok L i (f t)"
  shows "task_inv L (commit env i f m)"
  using assms by (intro task_invI) (auto simp: frame_simps dest: task_invD split: if_splits)

lemma task_inv_put [inv_intros]:
  "task_inv L m \<Longrightarrow> task_ok L (k_id t) t \<Longrightarrow> task_inv L (put_task t m)"
  by (rule task_invI) (auto simp: frame_simps dest: task_invD split: if_splits)

lemma task_inv_deliver_send [inv_intros]:
  assumes "task_inv L m"
  shows "task_inv L (fst (deliver_send env node i m))"
  using assms
  by (intro task_invI) (auto simp: frame_simps task_ok_def dest!: task_invD [rotated] split: if_splits)

lemma task_inv_deliver_done [inv_intros]:
  assumes "task_inv L m"
  shows "task_inv L (deliver_done env i d m)"
  using assms unfolding deliver_done_def
  by (rule task_inv_commit) (auto simp: task_ok_def split: delivery.split)

lemma task_inv_deliver [inv_intros]: "task_inv L m \<Longrightarrow> task_inv L (fst (deliver env node i m))"
  using task_inv_deliver_send [of L m env node i]
  by (cases "deliver_send env node i m") (simp add: deliver_def Let_def task_inv_deliver_done)

lemma task_inv_create [inv_intros]:
  "task_inv L m \<Longrightarrow> task_inv L (fst (create_task env node action ps by eph m))"
  by (auto simp: create_task_def Let_def new_task_def task_ok_def split: option.splits intro!: inv_intros)

lemma task_inv_dispatch [inv_intros]:
  assumes "task_inv L m"
  shows "task_inv L (fst (dispatch env node action ps by eph m))"
  using task_inv_create [OF assms, of env node action ps "by" eph]
  by (auto simp: dispatch_def task_inv_deliver split: prod.split sum.split)

lemma task_inv_create_retry [inv_intros]:
  "task_inv L m \<Longrightarrow> task_inv L (fst (create_retry env i m))"
  by (auto simp: create_retry_def Let_def new_task_def task_ok_def split: option.splits intro!: inv_intros)

lemma task_inv_transition [inv_intros]:
  assumes "task_inv L m" and "\<not> terminal frm" and "\<not> terminal to"
  shows "task_inv L (transition env node i frm to err m)"
  using assms
  by (auto simp: transition_def lookup_task_def task_ok_def split: option.splits intro!: inv_intros)

lemma task_inv_on_progress [inv_intros]:
  assumes "task_inv L m"
  shows "task_inv L (on_progress env node i p msg m)"
  using assms
  by (auto simp: on_progress_def lookup_task_def task_ok_def Let_def
      split: option.splits intro!: inv_intros)

lemma task_inv_on_result [inv_intros]:
  assumes "task_inv L m"
  shows "task_inv L (on_result env node i st err r m)"
  using assms
  by (auto simp: on_result_def lookup_task_def task_ok_def Let_def
      split: option.splits intro!: inv_intros)

lemma task_inv_cancel [inv_intros]:
  assumes "task_inv L m"
  shows "task_inv L (fst (cancel env node i reason m))"
  using assms
  by (auto simp: cancel_def lookup_task_def task_ok_def split: option.splits intro!: inv_intros)

lemma task_inv_admin_cancel [inv_intros]:
  "task_inv L m \<Longrightarrow> task_inv L (fst (admin_cancel env i reason m))"
  by (auto simp: admin_cancel_def split: option.splits intro: inv_intros)

lemma task_ok_expire: "task_ok L k t \<Longrightarrow> task_ok L k (expire now t)"
  by (simp add: expire_def task_ok_def)

lemma task_inv_sweep_one [inv_intros]: "task_inv L m \<Longrightarrow> task_inv L (fst (sweep_one env i (m, n)))"
  by (rule task_invI) (auto simp: sweep_one_tasks task_ok_expire dest: task_invD split: if_splits)

lemma task_inv_sweep [inv_intros]: "task_inv L m \<Longrightarrow> task_inv L (fst (sweep env m))"
  by (rule task_invI) (auto simp: frame_simps task_ok_expire dest: task_invD)

lemma task_inv_drop [inv_intros]:
  "task_inv L m \<Longrightarrow> task_inv L (drop_ephemeral t m)"
  by (rule task_invI) (auto simp: frame_simps dest: task_invD split: option.splits if_splits)

lemma task_inv_step:
  assumes "task_inv L (sys_tasks s)"
  shows "task_inv L (sys_tasks (task_step s e))"
proof -
  obtain env ev where e: "e = (env, ev)" by fastforce
  have frm: "\<not> terminal TaskDispatching" "\<not> terminal TaskRunning" by simp_all
  show ?thesis
  proof (cases ev)
    case (EvDispatch node a ps b eph)
    then show ?thesis using task_inv_create [OF assms, of env node a ps b eph]
      by (auto simp: e split: prod.split sum.split)
  next
    case (EvRetry i)
    then show ?thesis using task_inv_create_retry [OF assms, of env i]
      by (auto simp: e split: prod.split sum.split)
  next
    case (EvSend i)
    have "task_inv L m" if "deliver_send env node i (sys_tasks s) = (m, d)" for node m d
      using task_inv_deliver_send [OF assms, of env node i] that by simp
    then show ?thesis using assms EvSend by (auto simp: e split: prod.split option.split)
  next
    case (EvRecord i)
    then show ?thesis using assms by (auto simp: e task_inv_deliver_done split: prod.split option.split)
  qed (use assms in \<open>auto simp: e on_ack_def intro!: inv_intros\<close>)
qed

interpretation tasks: machine task_step "\<lambda>s. task_inv L (sys_tasks s)" for L
  by unfold_locales (rule task_inv_step)

section \<open>Final states are final\<close>

text \<open>The random ID an event draws is not the given one.\<close>

definition draws_other :: "string \<Rightarrow> call_env \<times> task_event \<Rightarrow> bool" where
  "draws_other i e \<longleftrightarrow> (\<forall>r. e_random (fst e) = Some r \<longrightarrow> i \<noteq> ''task_'' @ r)"

text \<open>A recorded task that is in a final state and whose delivery is not under way.\<close>

definition settled_as :: "string \<Rightarrow> task \<Rightarrow> task_system \<Rightarrow> bool" where
  "settled_as i t s \<longleftrightarrow> map_of (m_tasks (sys_tasks s)) i = Some t \<and> terminal (k_status t)
    \<and> \<not> k_ephemeral t \<and> sys_delivering s i = None"

lemma settled_as_step:
  assumes inv: "task_inv L (sys_tasks s)" and ok: "draws_other i e" and t: "settled_as i t s"
  shows "settled_as i t (task_step s e)"
proof -
  obtain env ev where e: "e = (env, ev)" by fastforce
  have dr: "\<And>r. e_random env = Some r \<Longrightarrow> i \<noteq> ''task_'' @ r"
    using ok by (simp add: draws_other_def e)
  note t' = t [unfolded settled_as_def]
  show ?thesis
  proof (cases ev)
    case (EvDispatch node a ps b eph)
    obtain m res where c: "create_task env node a ps b eph (sys_tasks s) = (m, res)" by fastforce
    then have "map_of (m_tasks m) i = map_of (m_tasks (sys_tasks s)) i"
      using create_other [of env i, OF dr] by (metis fst_conv)
    moreover have "j \<noteq> i" if "res = Inr j" for j using c that dr by (auto dest: create_Inr)
    ultimately show ?thesis using EvDispatch t' c by (auto simp: e settled_as_def split: sum.split)
  next
    case (EvRetry j)
    obtain m res where c: "create_retry env j (sys_tasks s) = (m, res)" by fastforce
    then have "map_of (m_tasks m) i = map_of (m_tasks (sys_tasks s)) i"
      using create_retry_other [of env i, OF dr] by (metis fst_conv)
    moreover have "k \<noteq> i" if "res = Inr (k, n)" for k n using c that dr by (auto dest: create_retry_Inr)
    ultimately show ?thesis using EvRetry t' c by (auto simp: e settled_as_def split: sum.split)
  next
    case (EvSend j)
    have "map_of (m_tasks m) i = map_of (m_tasks (sys_tasks s)) i"
      if "j \<noteq> i" "deliver_send env n j (sys_tasks s) = (m, d)" for n m d
      using deliver_send_tasks [of env n j "sys_tasks s" i] that by simp
    then show ?thesis using EvSend t' by (cases "j = i") (auto simp: e settled_as_def split: option.split prod.split)
  next
    case (EvRecord j)
    then show ?thesis using t' by (cases "j = i") (auto simp: e settled_as_def frame_simps split: option.split)
  next
    case EvSweep
    then show ?thesis using t' by (simp add: e settled_as_def frame_simps expire_def expired_def)
  next
    case (EvSweepOne j)
    have "expire (now_ms env) t = t" using t' by (simp add: expire_def expired_def)
    then show ?thesis using EvSweepOne t' by (cases "i = j") (simp_all add: e settled_as_def sweep_one_tasks)
  next
    case (EvDropEphemeral j)
    have "k_id t' = j" if "map_of (m_tasks (sys_tasks s)) j = Some t'" for t'
      using inv that by (auto simp: task_inv_def task_ok_def)
    then show ?thesis using EvDropEphemeral t'
      by (auto simp: e settled_as_def frame_simps split: option.splits)
  qed (use t' in \<open>auto simp: e settled_as_def on_ack_def transition_def on_progress_def on_result_def
        cancel_def admin_cancel_def lookup_task_def frame_simps split: option.splits if_splits\<close>)
qed

lemma settled_as_run:
  assumes "task_inv L (sys_tasks s)" and "settled_as i t s" and "\<forall>e \<in> set es. draws_other i e"
  shows "settled_as i t (foldl task_step s es)"
  using assms
proof (induction es arbitrary: s)
  case (Cons e es)
  then show ?case by (simp add: task_inv_step settled_as_step)
qed simp

text \<open>A call environment for the concrete runs: node n1 is connected, n2's connection refuses.\<close>

definition sample_env :: "int \<Rightarrow> string \<Rightarrow> call_env" where
  "sample_env ms r = \<lparr>e_clock = ms * 1000000, e_random = Some r,
     e_sender = (\<lambda>n. if n = ''n1'' then Some True else if n = ''n2'' then Some False else None),
     e_accepts = (\<lambda>_. True), e_jsonb = (\<lambda>s. s)\<rparr>"

text \<open>Property C2. A recorded task that has reached a final state (success, failed, cancelled or
timeout) and whose delivery has been recorded is never changed again, in any field: not by a late
acknowledgement, progress report or result, not by a cancellation, a sweep or a retry, nor by
anything done to other tasks, whatever the order in which these calls are handled, deliveries of
other tasks being handled in their two steps. (While the task's own delivery is under way this is
false, as \<open>late_delivery_record_overwrites_success\<close> shows.)\<close>

theorem terminal_tasks_are_final:
  assumes "task_inv L (sys_tasks s)" and "map_of (m_tasks (sys_tasks s)) i = Some t"
    and "terminal (k_status t)" and "\<not> k_ephemeral t" and "sys_delivering s i = None"
    and "\<forall>e \<in> set es. draws_other i e"
  shows "map_of (m_tasks (sys_tasks (foldl task_step s es))) i = Some t"
  using settled_as_run [OF assms(1), of i t es] assms(2-) by (simp add: settled_as_def)

lemma terminal_tasks_are_final_witness:
  "\<exists>s t. k_status t = TaskFailed \<and> map_of (m_tasks (sys_tasks s)) ''task_a'' = Some t \<and>
    map_of (m_tasks (sys_tasks (foldl task_step s
      [(sample_env 9 ''b'', EvResult ''n2'' ''task_a'' ''success'' [] ''{}''),
       (sample_env 9 ''b'', EvRetry ''task_a''), (sample_env 9 ''c'', EvSend ''task_b''),
       (sample_env 9 ''c'', EvRecord ''task_b''), (sample_env 999999 ''c'', EvSweep)])))
      ''task_a'' = Some t"
proof -
  let ?s = "foldl task_step \<lparr>sys_tasks = new_manager 0 None, sys_delivering = Map.empty\<rparr>
    [(sample_env 5 ''a'', EvDispatch ''n2'' ''image.pull'' NoParams [] False),
     (sample_env 6 ''z'', EvSend ''task_a''), (sample_env 6 ''z'', EvRecord ''task_a'')]"
  let ?t = "the (map_of (m_tasks (sys_tasks ?s)) ''task_a'')"
  have a: "task_inv {} (sys_tasks ?s)" by (rule tasks.mrun_inv) (simp add: task_inv_new)
  have b: "map_of (m_tasks (sys_tasks ?s)) ''task_a'' = Some ?t" and c: "k_status ?t = TaskFailed"
    and d: "\<not> k_ephemeral ?t" and e: "sys_delivering ?s ''task_a'' = None"
    by code_simp+
  have f: "terminal (k_status ?t)" using c by simp
  show ?thesis
    by (intro exI conjI, rule c, rule b, rule terminal_tasks_are_final [OF a b f d e])
       (simp add: draws_other_def sample_env_def)
qed

section \<open>Delivery\<close>

text \<open>Dispatching a whitelisted action files exactly one new task under a fresh ID
with the manager's deadline, and reports its fate: without a session for the node it is failed with
''node offline'' and nothing is sent; if the connection refuses the envelope it is failed with
''send failed'' after one attempt; otherwise the node was handed one task.execute carrying the
task's ID, action and parameters, and the task is dispatching with one attempt. An action outside
the whitelist changes nothing.\<close>

theorem dispatch_outcomes:
  assumes r: "e_random env = Some r" and p: "params \<noteq> MarshalFails"
  shows "(\<not> is_allowed_action action \<longrightarrow>
      dispatch env node action params by eph m = (m, None, Some (ActionNotAllowed action)))
    \<and> (is_allowed_action action \<longrightarrow>
      (\<exists>t e. snd (dispatch env node action params by eph m) = (Some t, e)
         \<and> map_of (m_tasks (fst (dispatch env node action params by eph m))) (k_id t) = Some t
         \<and> k_id t = ''task_'' @ r \<and> k_node t = node \<and> k_action t = action
         \<and> k_ephemeral t = eph \<and> k_deadline t = (e_clock env + m_timeout m) div 1000000
         \<and> (case e_sender env node of
              None \<Rightarrow> e = Some (NodeOffline node) \<and> k_status t = TaskFailed
                \<and> k_error t = ''node offline'' \<and> k_attempts t = 0
                \<and> m_sent (fst (dispatch env node action params by eph m)) = m_sent m
            | Some ok \<Rightarrow>
                m_sent (fst (dispatch env node action params by eph m)) = m_sent m @
                  [(node, TaskExecute (k_id t) (k_id t) action (k_params t))] \<and> k_attempts t = 1
                \<and> (if ok then e = None \<and> k_status t = TaskDispatching \<and> k_error t = []
                   else e = Some (SendFailed node) \<and> k_status t = TaskFailed
                        \<and> k_error t = ''send failed''))))"
proof (cases "is_allowed_action action")
  case False
  then show ?thesis by (simp add: dispatch_def create_task_def)
next
  case True
  then show ?thesis
    using r p
    by (simp add: commit_Some dispatch_def create_task_def deliver_def deliver_send_def deliver_done_def
        deliver_error_def Let_def put_task_def edit_task_def post_def new_task_def set_status_def
        split: option.split)
qed

lemma dispatch_outcomes_witness:
  "map_of (m_tasks (fst (dispatch (sample_env 5 ''a'') ''n1'' ''image.pull'' (Json ''{}'') [] False
      (new_manager 0 None)))) ''task_a'' =
    fst (snd (dispatch (sample_env 5 ''a'') ''n1'' ''image.pull'' (Json ''{}'') [] False
      (new_manager 0 None)))"
  using dispatch_outcomes [of "sample_env 5 ''a''" "''a''" "Json ''{}''" "''image.pull''" "''n1''"
      "[]" False "new_manager 0 None"]
  by (auto simp: is_allowed_action_def allowed_actions_def sample_env_def)

text \<open>The two halves of the delivery are not one critical section: if the agent's
success is handled after the envelope was sent but before the delivery is recorded, the record
writes ''dispatching'' over the final state. The task then has a closed done channel and a result,
but a caller waiting for it gets the error that it is ''dispatching'', and a sweep past its deadline
turns the success into a timeout.\<close>

theorem late_delivery_record_overwrites_success:
  assumes t: "map_of (m_tasks (sys_tasks s)) i = Some t" "k_node t = node" "k_id t = i"
    and pend: "k_status t = TaskPending" "sys_delivering s i = Some (node, None)"
    and on: "e_sender env node = Some True" and dl: "0 < k_deadline t" "k_deadline t \<le> now_ms env4"
    and s2_def: "s2 = foldl task_step s [(env, EvSend i), (env2, EvResult node i ''success'' [] res)]"
    and s3_def: "s3 = task_step s2 (env3, EvRecord i)"
  shows "(\<exists>t2. map_of (m_tasks (sys_tasks s2)) i = Some t2 \<and> k_status t2 = TaskSuccess)
      \<and> (\<exists>t3. map_of (m_tasks (sys_tasks s3)) i = Some t3 \<and> k_status t3 = TaskDispatching
            \<and> k_finished t3 \<and> k_result t3 = res)
      \<and> await env2 node i DoneClosed (sys_tasks s3) = Some (sys_tasks s3, Inl (TaskEnded TaskDispatching []))
      \<and> (\<exists>t4. map_of (m_tasks (sys_tasks (task_step s3 (env4, EvSweep)))) i = Some t4 \<and> k_status t4 = TaskTimeout)"
proof -
  obtain m1 d where m1: "deliver_send env node i (sys_tasks s) = (m1, d)" by fastforce
  then have d: "d = Accepted" using on by (simp add: deliver_send_def split: option.splits)
  have t1: "map_of (m_tasks m1) i = Some (t\<lparr>k_attempts := k_attempts t + 1\<rparr>)"
    using t on m1 deliver_send_tasks [of env node i "sys_tasks s" i] by simp
  define t2 where "t2 = set_status (now_ms env2) TaskSuccess
    (t\<lparr>k_attempts := k_attempts t + 1, k_result := res, k_error := [], k_percent := 100\<rparr>)"
  have s2: "map_of (m_tasks (sys_tasks s2)) i = Some t2" "sys_delivering s2 i = Some (node, Some d)"
    using t1 t pend by (simp_all add: s2_def m1 on_result_def lookup_task_def frame_simps Let_def t2_def)
  define t3 where "t3 = set_status (now_ms env3) TaskDispatching t2"
  have s3: "map_of (m_tasks (sys_tasks s3)) i = Some t3"
    using s2 by (simp add: s3_def d deliver_done_def frame_simps t3_def)
  have f3: "k_status t3 = TaskDispatching" "k_finished t3" "k_result t3 = res" "k_error t3 = []"
    "k_deadline t3 = k_deadline t"
    by (simp_all add: t3_def t2_def)
  show ?thesis
    using s2 s3 f3 dl by (simp add: await_def frame_simps expire_def expired_def) (simp add: t2_def)
qed

lemma late_delivery_record_overwrites_success_witness:
  "\<exists>(s :: task_system) t3. map_of (m_tasks (sys_tasks s)) ''task_a'' = Some t3 \<and> k_status t3 = TaskDispatching \<and> k_finished t3"
proof -
  let ?s = "task_step \<lparr>sys_tasks = new_manager 0 None, sys_delivering = Map.empty\<rparr>
    (sample_env 5 ''a'', EvDispatch ''n1'' ''image.pull'' NoParams [] False)"
  let ?t = "the (map_of (m_tasks (sys_tasks ?s)) ''task_a'')"
  have a: "map_of (m_tasks (sys_tasks ?s)) ''task_a'' = Some ?t" "k_node ?t = ''n1''" "k_id ?t = ''task_a''"
    "k_status ?t = TaskPending" "sys_delivering ?s ''task_a'' = Some (''n1'', None)"
    "e_sender (sample_env 5 ''a'') ''n1'' = Some True"
    "0 < k_deadline ?t" "k_deadline ?t \<le> now_ms (sample_env 9999999 ''b'')"
    by code_simp+
  define s2 where "s2 = foldl task_step ?s [(sample_env 5 ''a'', EvSend ''task_a''),
    (sample_env 6 ''b'', EvResult ''n1'' ''task_a'' ''success'' [] ''{}'')]"
  define s3 where "s3 = task_step s2 (sample_env 7 ''b'', EvRecord ''task_a'')"
  obtain t3 where "map_of (m_tasks (sys_tasks s3)) ''task_a'' = Some t3" "k_status t3 = TaskDispatching"
    "k_finished t3"
    using late_delivery_record_overwrites_success [OF a s2_def s3_def] by (elim conjE exE) (rule that)
  then show ?thesis by blast
qed

section \<open>The deadline sweep\<close>

lemma sweep_facts:
  assumes "distinct (map fst (m_tasks m))"
  shows "\<forall>k. map_of (m_tasks (fst (sweep env m))) k =
      map_option (\<lambda>t. if expired (now_ms env) t
        then set_status (now_ms env) TaskTimeout (t\<lparr>k_error := ''task timeout''\<rparr>) else t)
        (map_of (m_tasks m) k)"
    and "snd (sweep env m) = length (filter (expired (now_ms env)) (map snd (m_tasks m)))"
    and "m_sent (fst (sweep env m)) = m_sent m @
      map (\<lambda>t. (k_node t, TaskCancel (k_id t) ''task timeout''))
        (filter (\<lambda>t. expired (now_ms env) t \<and> e_sender env (k_node t) \<noteq> None)
          (map snd (m_tasks m)))"
    and "snd (sweep env (fst (sweep env m))) = 0"
proof -
  have vals: "map (\<lambda>k. the (map_of (m_tasks m') k)) (map fst (m_tasks m')) = map snd (m_tasks m')"
    if "distinct (map fst (m_tasks m'))" for m'
    using that by (auto simp: map_of_eq_Some_iff)
  have ex: "expired_tasks env m' (map fst (m_tasks m')) =
      filter (expired (now_ms env)) (map snd (m_tasks m'))"
    if "distinct (map fst (m_tasks m'))" for m'
    by (simp only: expired_tasks_def vals [OF that])
  have cnt: "snd (sweep env m') = length (filter (expired (now_ms env)) (map snd (m_tasks m')))"
    and snt: "m_sent (fst (sweep env m')) = m_sent m' @
      map (\<lambda>t. (k_node t, TaskCancel (k_id t) ''task timeout''))
        (filter (\<lambda>t. e_sender env (k_node t) \<noteq> None)
          (filter (expired (now_ms env)) (map snd (m_tasks m'))))"
    if d: "distinct (map fst (m_tasks m'))" for m'
  proof -
    have all: "\<forall>k \<in> set (map fst (m_tasks m')). map_of (m_tasks m') k \<noteq> None"
      by (simp add: map_of_eq_None_iff)
    note c = sweep_fold_count [OF d all, of env 0, unfolded ex [OF d]]
    from c show "snd (sweep env m') = length (filter (expired (now_ms env)) (map snd (m_tasks m')))"
      by (simp add: sweep_def)
    from c show "m_sent (fst (sweep env m')) = m_sent m' @
      map (\<lambda>t. (k_node t, TaskCancel (k_id t) ''task timeout''))
        (filter (\<lambda>t. e_sender env (k_node t) \<noteq> None)
          (filter (expired (now_ms env)) (map snd (m_tasks m'))))"
      by (simp add: sweep_def)
  qed
  show "\<forall>k. map_of (m_tasks (fst (sweep env m))) k =
      map_option (\<lambda>t. if expired (now_ms env) t
        then set_status (now_ms env) TaskTimeout (t\<lparr>k_error := ''task timeout''\<rparr>) else t)
        (map_of (m_tasks m) k)"
    by (simp add: sweep_tasks expire_def [abs_def])
  show "snd (sweep env m) = length (filter (expired (now_ms env)) (map snd (m_tasks m)))"
    by (rule cnt [OF assms])
  show "m_sent (fst (sweep env m)) = m_sent m @
      map (\<lambda>t. (k_node t, TaskCancel (k_id t) ''task timeout''))
        (filter (\<lambda>t. expired (now_ms env) t \<and> e_sender env (k_node t) \<noteq> None)
          (map snd (m_tasks m)))"
    using snt [OF assms] by (simp add: conj_commute)
  have d': "distinct (map fst (m_tasks (fst (sweep env m))))" using assms by simp
  have "\<not> expired (now_ms env) t" if "t \<in> snd ` set (m_tasks (fst (sweep env m)))" for t
  proof -
    from that obtain k where "(k, t) \<in> set (m_tasks (fst (sweep env m)))"
      by force
    then have "map_of (m_tasks (fst (sweep env m))) k = Some t"
      using d' by simp
    then show ?thesis by (auto simp: sweep_tasks)
  qed
  then show "snd (sweep env (fst (sweep env m))) = 0"
    by (simp add: cnt [OF d'] filter_empty_conv)
qed

text \<open>One sweep times out exactly the tasks that have not reached a final state and
are past their deadline, and leaves every other task as it was; it returns how many they were and
asks the agent of each one that is connected to cancel it. A second sweep at the same time finds
nothing.\<close>

theorem sweep_times_out_exactly_the_expired:
  assumes "distinct (map fst (m_tasks m))"
  shows "(\<forall>k. map_of (m_tasks (fst (sweep env m))) k =
      map_option (\<lambda>t. if expired (now_ms env) t
        then set_status (now_ms env) TaskTimeout (t\<lparr>k_error := ''task timeout''\<rparr>) else t)
        (map_of (m_tasks m) k))
    \<and> snd (sweep env m) = length (filter (expired (now_ms env)) (map snd (m_tasks m)))
    \<and> m_sent (fst (sweep env m)) = m_sent m @
      map (\<lambda>t. (k_node t, TaskCancel (k_id t) ''task timeout''))
        (filter (\<lambda>t. expired (now_ms env) t \<and> e_sender env (k_node t) \<noteq> None)
          (map snd (m_tasks m)))
    \<and> snd (sweep env (fst (sweep env m))) = 0"
  using sweep_facts [OF assms] by blast

lemma sweep_times_out_exactly_the_expired_witness:
  "snd (sweep (sample_env 400000 ''b'') (fst (dispatch (sample_env 5 ''a'') ''n1'' ''image.pull''
      NoParams [] False (new_manager 0 None)))) = 1"
proof -
  let ?m = "fst (dispatch (sample_env 5 ''a'') ''n1'' ''image.pull'' NoParams [] False
    (new_manager 0 None))"
  have d: "distinct (map fst (m_tasks ?m))" by code_simp
  have "length (filter (expired (now_ms (sample_env 400000 ''b''))) (map snd (m_tasks ?m))) = 1"
    by code_simp
  then show ?thesis using sweep_times_out_exactly_the_expired [OF d] by metis
qed

section \<open>Paging\<close>

lemma newest_first_sorted:
  assumes "distinct (map k_id ts)"
  shows "sorted_wrt task_before (newest_first ts)"
proof -
  have le: "sorted_wrt (\<lambda>s t. task_before t s) us"
    if "sorted (map (\<lambda>t. (k_created t, k_id t)) us)" and "distinct (map k_id us)" for us
    using that by (induction us) (force simp: task_before_def less_eq_prod_def)+
  have "distinct (map k_id (sort_key (\<lambda>t. (k_created t, k_id t)) ts))"
    using assms by (simp add: distinct_map)
  then show ?thesis
    by (simp add: newest_first_def sorted_wrt_rev le)
qed

lemma newest_first_mset [simp]: "mset (newest_first ts) = mset ts"
  and newest_first_length [simp]: "length (newest_first ts) = length ts"
  by (simp_all add: newest_first_def)

lemma take_drop_pages:
  "concat (map (\<lambda>p. take l (drop (p * l) xs)) [0..<n]) = take (n * l) xs"
proof (induction n)
  case (Suc n)
  then show ?case by (simp add: take_add [symmetric] add.commute)
qed simp

definition visible :: "manager \<Rightarrow> string \<Rightarrow> task list" where
  "visible m node = filter (\<lambda>t. node \<noteq> [] \<longrightarrow> k_node t = node) (list_tasks m)"

lemma page_slice:
  assumes "0 < limit" and "limit \<le> 200" and "0 \<le> offset" and "length (m_tasks m) < 2 ^ 62"
  shows "page m node limit offset =
    Returns (take (nat limit) (drop (nat offset) (newest_first (visible m node))),
             length (visible m node))"
proof -
  let ?ts = "newest_first (visible m node)"
  let ?n = "length (visible m node)"
  have vis: "(if node \<noteq> [] then filter (\<lambda>t. k_node t = node) (list_tasks m) else list_tasks m)
      = visible m node"
    by (simp add: visible_def)
  have "?n \<le> length (m_tasks m)"
    unfolding visible_def list_tasks_def
    by (rule order_trans [OF length_filter_le], rule order_trans [OF length_filter_le]) simp
  then have "int ?n < int (2 ^ 62)" using assms(4) by (simp only: of_nat_less_iff)
  then have n: "int ?n < 2 ^ 62" by simp
  define off where "off = min offset (int ?n)"
  have off: "0 \<le> off" "off \<le> int ?n" using assms(3) by (auto simp: off_def)
  have w: "wrap64 (off + limit) = off + limit"
    using off n assms(1,2) by (intro wrap64_id) auto
  have pg: "page m node limit offset =
      Returns (take (nat (min (off + limit) (int ?n) - off)) (drop (nat off) ?ts), ?n)"
    using assms(1,3) off w
    by (simp add: page_def Let_def vis off_def [symmetric] min_def)
       (auto simp: off_def min_def)
  show ?thesis
  proof (cases "offset \<le> int ?n")
    case True
    then have o: "off = offset" by (simp add: off_def)
    show ?thesis
      using assms(1,3) True by (auto simp: pg o min_def nat_diff_distrib nat_add_distrib)
  next
    case False
    then have "nat offset \<ge> ?n" "off = int ?n" by (auto simp: off_def)
    then show ?thesis using pg by simp
  qed
qed

lemma visible_distinct:
  assumes "task_inv L m" and "distinct (map fst (m_tasks m))"
  shows "distinct (map k_id (visible m node))"
proof -
  have "k_id t = k" if "(k, t) \<in> set (m_tasks m)" for k t
    using assms that by (auto simp: task_inv_def task_ok_def)
  then have "map (k_id \<circ> snd) (m_tasks m) = map fst (m_tasks m)"
    by (auto intro: map_cong)
  then have "distinct (map k_id (map snd (m_tasks m)))" using assms(2) by (simp only: map_map)
  then show ?thesis by (simp add: visible_def list_tasks_def distinct_map_filter)
qed

text \<open>The pages the task list serves (limits as the handler clamps them) are
consecutive slices of one list, which holds every recorded task of the node exactly once, newest
first with ties broken by ID; each page also reports the list's length, never panics, and enough
pages together are the whole list.\<close>

theorem pages_cover_every_task_once:
  assumes "task_inv L m" and "distinct (map fst (m_tasks m))" and "length (m_tasks m) < 2 ^ 62"
  shows "\<exists>ts. mset ts = mset (filter (\<lambda>t. node \<noteq> [] \<longrightarrow> k_node t = node) (list_tasks m))
    \<and> sorted_wrt task_before ts
    \<and> (\<forall>offset \<ge> 0. page m node (page_limit limit) offset =
          Returns (take (nat (page_limit limit)) (drop (nat offset) ts), length ts))
    \<and> (\<forall>n. length ts \<le> n * nat (page_limit limit) \<longrightarrow>
          concat (map (\<lambda>p. case page m node (page_limit limit) (int p * page_limit limit) of
              Returns (xs, _) \<Rightarrow> xs | Panics \<Rightarrow> []) [0..<n]) = ts)"
proof (intro exI conjI allI impI)
  let ?ts = "newest_first (visible m node)" and ?l = "page_limit limit"
  have l: "0 < ?l" "?l \<le> 200" by (auto simp: page_limit_def Let_def)
  show "mset ?ts = mset (filter (\<lambda>t. node \<noteq> [] \<longrightarrow> k_node t = node) (list_tasks m))"
    by (simp add: visible_def)
  show "sorted_wrt task_before ?ts"
    by (rule newest_first_sorted, rule visible_distinct) (rule assms)+
  have pg: "page m node ?l offset =
      Returns (take (nat ?l) (drop (nat offset) ?ts), length ?ts)" if "0 \<le> offset" for offset
    using page_slice [OF l that assms(3)] by simp
  show "page m node ?l offset = Returns (take (nat ?l) (drop (nat offset) ?ts), length ?ts)"
    if "0 \<le> offset" for offset by (rule pg [OF that])
  have "nat (int p * ?l) = p * nat ?l" for p using l by (simp add: nat_mult_distrib)
  then have "concat (map (\<lambda>p. case page m node ?l (int p * ?l) of
      Returns (xs, _) \<Rightarrow> xs | Panics \<Rightarrow> []) [0..<n]) = take (n * nat ?l) ?ts" for n
    using l by (simp add: pg take_drop_pages)
  then show "concat (map (\<lambda>p. case page m node ?l (int p * ?l) of
      Returns (xs, _) \<Rightarrow> xs | Panics \<Rightarrow> []) [0..<n]) = ?ts"
    if "length ?ts \<le> n * nat ?l" for n using that by simp
qed

lemma pages_cover_every_task_once_witness:
  "\<exists>xs n. page (fst (dispatch (sample_env 7 ''b'') ''n2'' ''image.pull'' NoParams [] False
      (fst (dispatch (sample_env 5 ''a'') ''n1'' ''image.pull'' NoParams [] False
        (new_manager 0 None))))) [] (page_limit 0) 0 = Returns (xs, n)"
proof -
  let ?m = "fst (dispatch (sample_env 7 ''b'') ''n2'' ''image.pull'' NoParams [] False
      (fst (dispatch (sample_env 5 ''a'') ''n1'' ''image.pull'' NoParams [] False
        (new_manager 0 None))))"
  have a: "task_inv {} ?m" by (intro inv_intros)
  have b: "distinct (map fst (m_tasks ?m))" by code_simp
  have "length (m_tasks ?m) = 2" by code_simp
  then have c: "length (m_tasks ?m) < 2 ^ 62" by simp
  obtain ts where "\<forall>offset \<ge> 0. page ?m [] (page_limit 0) offset =
      Returns (take (nat (page_limit 0)) (drop (nat offset) ts), length ts)"
    using pages_cover_every_task_once [OF a b c, of "[]" 0] by (elim exE conjE) (rule that)
  from this [rule_format, OF order_refl] show ?thesis by (intro exI)
qed

section \<open>An agent reaches only its own tasks\<close>

text \<open>What a connected agent can cause: the handlers of its messages, called with its node ID.\<close>

fun agent_event :: "string \<Rightarrow> task_event \<Rightarrow> bool" where
  "agent_event node (EvAck n _) = (n = node)"
| "agent_event node (EvProgress n _ _ _) = (n = node)"
| "agent_event node (EvResult n _ _ _ _) = (n = node)"
| "agent_event node _ = False"

lemma save_other:
  "k_id t \<noteq> i \<Longrightarrow> filter (\<lambda>r. k_id r = i) (save env t rows) = filter (\<lambda>r. k_id r = i) rows"
proof -
  assume ne: "k_id t \<noteq> i"
  have "filter (\<lambda>r. k_id r = i) (map (\<lambda>r. if k_id r = k_id t then row_update (row_of env t) r else r) rs)
      = filter (\<lambda>r. k_id r = i) rs" for rs
    using ne by (induction rs) (auto simp: row_update_def)
  then show ?thesis using ne by (simp add: save_def row_of_def)
qed

lemma persist_rows:
  "k_id u \<noteq> i \<Longrightarrow> map_option (filter (\<lambda>r. k_id r = i)) (m_store (persist env u s)) =
    map_option (filter (\<lambda>r. k_id r = i)) (m_store s)"
  by (auto simp: persist_def save_other split: option.splits)

lemma commit_rows:
  assumes "task_inv L s" and "j \<noteq> i" and "\<And>u. k_id (f u) = k_id u"
  shows "map_option (filter (\<lambda>r. k_id r = i)) (m_store (commit env j f s)) =
    map_option (filter (\<lambda>r. k_id r = i)) (m_store s)"
proof (cases "map_of (m_tasks s) j")
  case (Some u)
  then have "k_id u = j" using assms(1) by (auto simp: task_inv_def task_ok_def)
  then show ?thesis using Some assms by (simp add: commit_Some persist_rows)
qed (simp add: commit_def)

text \<open>Property C27. Whatever acknowledgements, progress reports and results one node's agent sends,
with whatever task IDs, every task of another node is left exactly as it was, in memory and in its
row of the store.\<close>

theorem agents_reach_only_their_own_tasks:
  assumes "task_inv L (sys_tasks s)" and "map_of (m_tasks (sys_tasks s)) i = Some t" and "k_node t \<noteq> node"
    and "\<forall>e \<in> set es. agent_event node (snd e)"
  shows "map_of (m_tasks (sys_tasks (foldl task_step s es))) i = Some t
    \<and> map_option (filter (\<lambda>r. k_id r = i)) (m_store (sys_tasks (foldl task_step s es))) =
        map_option (filter (\<lambda>r. k_id r = i)) (m_store (sys_tasks s))"
proof -
  let ?obs = "\<lambda>m. map_option (\<lambda>t. (t, map_option (filter (\<lambda>r. k_id r = i)) (m_store m)))
    (map_of (m_tasks m) i)"
  let ?v = "(t, map_option (filter (\<lambda>r. k_id r = i)) (m_store (sys_tasks s)))"
  have "?obs (sys_tasks (foldl task_step s es)) = Some ?v"
  proof (rule tasks.mrun_frame_on [where ok = "\<lambda>e. agent_event node (snd e)" and obs = "\<lambda>s. ?obs (sys_tasks s)"])
    fix s :: task_system and e :: "call_env \<times> task_event"
    assume inv: "task_inv L (sys_tasks s)" and ok: "agent_event node (snd e)" and v: "?obs (sys_tasks s) = Some ?v"
    obtain env ev where e: "e = (env, ev)" by fastforce
    have t: "map_of (m_tasks (sys_tasks s)) i = Some t" using v by auto
    define obs :: "manager \<Rightarrow> _" where "obs = ?obs"
    have same: "obs (sys_tasks s) = Some ?v" using v by (simp only: obs_def)
    have goal: "obs (commit env j f (sys_tasks s)) = Some ?v"
      if "lookup_task (sys_tasks s) node j = Some u" "\<And>u. k_id (f u) = k_id u" for j f u
    proof -
      have "j \<noteq> i" using that t assms(3) by (auto simp: lookup_task_def split: option.splits if_splits)
      then show ?thesis using commit_rows [OF inv, of j i f env] v that(2) by (simp add: obs_def commit_tasks)
    qed
    have "obs (sys_tasks (task_step s e)) = Some ?v"
      using ok
      by (cases ev)
         (simp_all add: e on_ack_def transition_def on_progress_def on_result_def Let_def same goal
           split: option.split)
    then show "?obs (sys_tasks (task_step s e)) = Some ?v" by (simp only: obs_def)
  qed (use assms in auto)
  then show ?thesis by auto
qed

lemma agents_reach_only_their_own_tasks_witness:
  "\<exists>s t. map_of (m_tasks (sys_tasks s)) ''task_a'' = Some t \<and> map_of (m_tasks (sys_tasks (foldl task_step s
      [(sample_env 9 ''b'', EvResult ''n2'' ''task_a'' ''success'' [] ''{}'')]))) ''task_a'' = Some t"
proof -
  let ?s = "foldl task_step \<lparr>sys_tasks = new_manager 0 (Some []), sys_delivering = Map.empty\<rparr>
    [(sample_env 5 ''a'', EvDispatch ''n1'' ''image.pull'' NoParams [] False), (sample_env 6 ''z'', EvSend ''task_a'')]"
  let ?t = "the (map_of (m_tasks (sys_tasks ?s)) ''task_a'')"
  have a: "task_inv {} (sys_tasks ?s)" by (rule tasks.mrun_inv) (simp add: task_inv_new)
  have b: "map_of (m_tasks (sys_tasks ?s)) ''task_a'' = Some ?t" "k_node ?t \<noteq> ''n2''" by code_simp+
  have c: "\<forall>e \<in> set [(sample_env 9 ''b'', EvResult ''n2'' ''task_a'' ''success'' [] ''{}'')].
      agent_event ''n2'' (snd e)" by simp
  show ?thesis
    using agents_reach_only_their_own_tasks [OF a b c] b(1) by blast
qed

section \<open>Synchronous calls, probes and the reload\<close>



definition open_at :: "string \<Rightarrow> string \<Rightarrow> int \<Rightarrow> task_system \<Rightarrow> bool" where
  "open_at i node d s \<longleftrightarrow> sys_delivering s i = None \<and> (\<exists>t. map_of (m_tasks (sys_tasks s)) i = Some t
    \<and> k_node t = node \<and> \<not> terminal (k_status t) \<and> k_deadline t = d \<and> \<not> k_ephemeral t)"

lemma open_commit:
  assumes "open_at i node d s"
    and "\<And>t. j = i \<Longrightarrow> \<not> terminal (k_status t) \<Longrightarrow> \<not> terminal (k_status (f t)) \<and> k_node (f t) = k_node t
      \<and> k_deadline (f t) = k_deadline t \<and> k_ephemeral (f t) = k_ephemeral t"
  shows "open_at i node d (on_tasks (commit env j f) s)"
  using assms by (cases "j = i") (auto simp: open_at_def frame_simps)







definition sample_schedule :: schedule where
  "sample_schedule = \<lparr>sd_before = [(sample_env 5 ''x'', EvSweep)], sd_send = sample_env 6 ''b'', sd_between = [],
     sd_record = sample_env 6 ''b'',
     sd_after = [(sample_env 6 ''b'', EvAck ''n1'' (''task_'' @ ''a''))]
       @ (sample_env 7 ''c'', EvResult ''n1'' (''task_'' @ ''a'') ''success'' [] ''{}'')
       # [(sample_env 999999 ''d'', EvSweep)],
     sd_wake = sample_env 8 ''e''\<rparr>"


text \<open>A task that is to leave no record: it is ephemeral while it is in memory, and no row of the
store has its ID.\<close>

definition hidden :: "string \<Rightarrow> manager \<Rightarrow> bool" where
  "hidden i m \<longleftrightarrow> (\<forall>k t. map_of (m_tasks m) k = Some t \<longrightarrow> k_id t = k)
    \<and> (\<forall>t. map_of (m_tasks m) i = Some t \<longrightarrow> k_ephemeral t)
    \<and> (\<forall>rows. m_store m = Some rows \<longrightarrow> i \<notin> k_id ` set rows)"

lemma save_ids: "k_id ` set (save env t rows) \<subseteq> insert (k_id t) (k_id ` set rows)"
  by (auto simp: save_def row_of_def row_update_def)

lemma hidden_persist [inv_intros]:
  "hidden i m \<Longrightarrow> k_id t \<noteq> i \<or> k_ephemeral t \<Longrightarrow> hidden i (persist env t m)"
proof -
  assume h: "hidden i m" and t: "k_id t \<noteq> i \<or> k_ephemeral t"
  have "i \<notin> k_id ` set (save env t rows)" if "m_store m = Some rows" "\<not> k_ephemeral t" for rows
    using h t that save_ids [of env t rows] by (auto simp: hidden_def)
  then show ?thesis using h by (simp add: hidden_def persist_def split: option.split)
qed

lemma hidden_commit [inv_intros]:
  assumes "hidden i m" and "\<And>u. k_id (f u) = k_id u" and "\<And>u. k_ephemeral (f u) = k_ephemeral u"
  shows "hidden i (commit env j f m)"
proof (cases "map_of (m_tasks m) j")
  case (Some u)
  have "hidden i (m\<lparr>m_tasks := AList.update j (f u) (m_tasks m)\<rparr>)"
    using assms Some by (auto simp: hidden_def)
  moreover have "k_id (f u) \<noteq> i \<or> k_ephemeral (f u)"
    using assms Some by (auto simp: hidden_def)
  ultimately show ?thesis by (simp add: commit_Some [OF Some] hidden_persist)
qed (use assms(1) in \<open>simp add: commit_def\<close>)

lemma hidden_put [inv_intros]: "hidden i m \<Longrightarrow> k_id t \<noteq> i \<Longrightarrow> hidden i (put_task t m)"
  by (auto simp: hidden_def put_task_def)

lemma hidden_edit [inv_intros]:
  assumes "hidden i m" and "\<And>u. k_id (f u) = k_id u" and "\<And>u. k_ephemeral (f u) = k_ephemeral u"
  shows "hidden i (edit_task j f m)"
  using assms by (auto simp: hidden_def edit_task_def split: option.splits)

lemma hidden_post [inv_intros]: "hidden i m \<Longrightarrow> hidden i (post n e m)"
  and hidden_send_cancel [inv_intros]: "hidden i m \<Longrightarrow> hidden i (send_cancel env n j r m)"
  by (simp_all add: hidden_def)

lemma hidden_drop [inv_intros]: "hidden i m \<Longrightarrow> hidden i (drop_ephemeral t m)"
  by (auto simp: hidden_def drop_ephemeral_def split: option.splits)

lemma hidden_deliver_send [inv_intros]: "hidden i m \<Longrightarrow> hidden i (fst (deliver_send env n j m))"
  by (auto simp: deliver_send_def split: option.splits intro!: inv_intros)

lemma hidden_deliver_done [inv_intros]: "hidden i m \<Longrightarrow> hidden i (deliver_done env j d m)"
  unfolding deliver_done_def by (rule hidden_commit) (auto split: delivery.split)

lemma hidden_sweep_one [inv_intros]: "hidden i (fst mn) \<Longrightarrow> hidden i (fst (sweep_one env k mn))"
  by (cases mn) (auto simp: sweep_one_def split: option.splits intro!: inv_intros)

lemma hidden_sweep [inv_intros]: "hidden i m \<Longrightarrow> hidden i (fst (sweep env m))"
proof -
  have "hidden i (fst (fold (sweep_one env) ks mn))" if "hidden i (fst mn)" for ks mn
    using that by (induction ks arbitrary: mn) (simp_all add: hidden_sweep_one)
  then show "hidden i m \<Longrightarrow> ?thesis" by (simp add: sweep_def)
qed

lemma hidden_create [inv_intros]:
  "hidden i m \<Longrightarrow> (\<And>r. e_random env = Some r \<Longrightarrow> i \<noteq> ''task_'' @ r) \<Longrightarrow>
    hidden i (fst (create_task env n a ps b eph m))"
  by (auto simp: create_task_def new_task_def Let_def split: option.splits intro!: inv_intros)

lemma hidden_create_retry [inv_intros]:
  "hidden i m \<Longrightarrow> (\<And>r. e_random env = Some r \<Longrightarrow> i \<noteq> ''task_'' @ r) \<Longrightarrow> hidden i (fst (create_retry env j m))"
  by (auto simp: create_retry_def new_task_def Let_def split: option.splits intro!: inv_intros)

lemma hidden_step:
  assumes h: "hidden i (sys_tasks s)" and "draws_other i e"
  shows "hidden i (sys_tasks (task_step s e))"
proof -
  obtain env ev where e: "e = (env, ev)" by fastforce
  have dr: "\<And>r. e_random env = Some r \<Longrightarrow> i \<noteq> ''task_'' @ r"
    using assms(2) by (simp add: draws_other_def e)
  show ?thesis
  proof (cases ev)
    case (EvDispatch n a ps b eph)
    then show ?thesis using hidden_create [of i "sys_tasks s" env n a ps b eph, OF h dr]
      by (auto simp: e split: prod.split sum.split)
  next
    case (EvRetry j)
    then show ?thesis using hidden_create_retry [of i "sys_tasks s" env j, OF h dr]
      by (auto simp: e split: prod.split sum.split)
  next
    case (EvSend j)
    have "hidden i m" if "deliver_send env n j (sys_tasks s) = (m, d)" for n m d
      using hidden_deliver_send [OF h, of env n j] that by simp
    then show ?thesis using EvSend h by (auto simp: e split: option.split prod.split)
  next
    case (EvRecord j)
    then show ?thesis using h by (auto simp: e hidden_deliver_done split: option.split)
  qed (use h in \<open>auto simp: e on_ack_def transition_def on_progress_def on_result_def cancel_def
        admin_cancel_def Let_def split: option.splits if_splits intro!: inv_intros\<close>)
qed

lemma hidden_run:
  "hidden i (sys_tasks s) \<Longrightarrow> \<forall>e \<in> set es. draws_other i e \<Longrightarrow> hidden i (sys_tasks (foldl task_step s es))"
  by (induction es arbitrary: s) (simp_all add: hidden_step)

lemma hidden_deliver_during:
  assumes "hidden i (sys_tasks s)" and "\<forall>e \<in> set (sd_before sd @ sd_between sd). draws_other i e"
  shows "hidden i (sys_tasks (fst (deliver_during sd n j s)))"
  using assms by (simp add: deliver_during_def Let_def hidden_run hidden_deliver_done hidden_deliver_send)

lemma hidden_put_self:
  "hidden i m \<Longrightarrow> k_id t = i \<Longrightarrow> k_ephemeral t \<Longrightarrow> hidden i (put_task t m)"
  by (auto simp: hidden_def put_task_def)

lemma hidden_await:
  assumes "hidden i s" and "await env n j w s = Some (s', res)"
  shows "hidden i s'"
proof -
  have "hidden i (fst (cancel env n j r s))" for r
    using assms(1) by (auto simp: cancel_def split: option.splits intro!: inv_intros)
  then show ?thesis
    using assms by (auto simp: await_def split: option.splits wake.splits if_splits)
qed

text \<open>A probe leaves no record: while it runs its task is not visible to the
administration, and when it returns, whatever was handled meanwhile and however it ended (answered,
failed, offline, cancelled context), the task is neither in memory nor in the store.\<close>

theorem probe_leaves_no_record:
  assumes inv: "task_inv L (sys_tasks s)" and r: "e_random env = Some r"
    and fresh: "map_of (m_tasks (sys_tasks s)) (''task_'' @ r) = None"
    and rows: "\<forall>rows. m_store (sys_tasks s) = Some rows \<longrightarrow> ''task_'' @ r \<notin> k_id ` set rows"
    and es: "\<forall>e \<in> set (sd_before sd @ sd_between sd @ sd_after sd). draws_other (''task_'' @ r) e"
    and p: "probe env node action params sd w s = Some (s', res)"
  shows "get_task (sys_tasks (foldl task_step
        (fst (deliver_during sd node (''task_'' @ r)
          (s\<lparr>sys_tasks := fst (create_task env node action params [] True (sys_tasks s))\<rparr>))) (sd_after sd)))
      (''task_'' @ r) = None
    \<and> map_of (m_tasks (sys_tasks s')) (''task_'' @ r) = None
    \<and> (\<forall>rows. m_store (sys_tasks s') = Some rows \<longrightarrow> ''task_'' @ r \<notin> k_id ` set rows)"
proof -
  define i where "i = ''task_'' @ r"
  note fresh = fresh [folded i_def] and rows = rows [folded i_def] and es = es [folded i_def]
  obtain m1 c where c: "create_task env node action params [] True (sys_tasks s) = (m1, c)" by fastforce
  have h0: "hidden i (sys_tasks s)"
    using inv fresh rows by (auto simp: hidden_def task_inv_def task_ok_def)
  have h1: "hidden i m1"
    using h0 r c by (auto simp: create_task_def Let_def new_task_def i_def split: if_splits option.splits
        intro!: hidden_persist hidden_put_self)
  obtain s1 d where d: "deliver_during sd node i (s\<lparr>sys_tasks := m1\<rparr>) = (s1, d)" by fastforce
  have h2: "hidden i (sys_tasks s1)"
    using hidden_deliver_during [of i "s\<lparr>sys_tasks := m1\<rparr>" sd node i] h1 d es by (auto simp: ball_Un)
  have h3: "hidden i (sys_tasks (foldl task_step s1 (sd_after sd)))" using hidden_run [OF h2] es by simp
  define t where "t = map_of (m_tasks (sys_tasks s1)) i"
  have gone: "map_of (m_tasks (drop_ephemeral t m)) i = None" if "t \<noteq> None" for m
    using that h2 by (auto simp: t_def hidden_def drop_tasks)
  have "hidden i (sys_tasks s') \<and> map_of (m_tasks (sys_tasks s')) i = None"
  proof (cases c)
    case (Inl e)
    then have "m1 = sys_tasks s" using c by (auto simp: create_task_def Let_def split: if_splits option.splits)
    then show ?thesis using p c Inl h0 fresh by (simp add: probe_def)
  next
    case (Inr j)
    then have j: "j = i" using c r by (auto simp: i_def dest: create_Inr)
    show ?thesis
    proof (cases "deliver_error node d")
      case (Some e)
      then have s': "s' = on_tasks (drop_ephemeral t) s1" using p c Inr j d by (simp add: probe_def t_def Let_def)
      have "map_of (m_tasks (drop_ephemeral t (sys_tasks s1))) i = None"
        using gone by (cases t) (simp_all add: t_def drop_tasks)
      then show ?thesis using h2 by (simp add: s' hidden_drop)
    next
      case None
      show ?thesis
      proof (cases t)
        case None
        then show ?thesis using p c Inr j d h2 \<open>deliver_error node d = None\<close>
          by (simp add: probe_def t_def [symmetric] Let_def) (simp add: t_def)
      next
        case (Some u)
        then obtain s2 where w: "await_during sd node i w s1 = Some (s2, res)"
          and s': "s' = on_tasks (drop_ephemeral t) s2"
          using p c Inr j d \<open>deliver_error node d = None\<close>
          by (auto simp: probe_def t_def [symmetric] Let_def split: option.splits)
        have "hidden i (sys_tasks s2)"
          using w hidden_await [OF h3] by (auto simp: await_during_def Let_def split: option.splits)
        then show ?thesis using gone Some by (simp add: s' hidden_drop)
      qed
    qed
  qed
  then show ?thesis using h3 c d unfolding i_def [symmetric] by (auto simp: hidden_def get_task_def split: option.split)
qed

lemma probe_leaves_no_record_witness:
  "\<exists>s'. probe (sample_env 5 ''a'') ''n1'' ''docker.info'' NoParams sample_schedule DoneClosed
      \<lparr>sys_tasks = new_manager 0 (Some []), sys_delivering = Map.empty\<rparr> = Some (s', Inr ''{}'')
    \<and> map_of (m_tasks (sys_tasks s')) ''task_a'' = None"
proof -
  let ?s = "\<lparr>sys_tasks = new_manager 0 (Some []), sys_delivering = Map.empty\<rparr>"
  let ?p = "probe (sample_env 5 ''a'') ''n1'' ''docker.info'' NoParams sample_schedule DoneClosed ?s"
  have a: "task_inv {} (sys_tasks ?s)" by (simp add: task_inv_new)
  have b: "e_random (sample_env 5 ''a'') = Some ''a''" by code_simp
  have c: "map_of (m_tasks (sys_tasks ?s)) (''task_'' @ ''a'') = None" by code_simp
  have d: "\<forall>rows. m_store (sys_tasks ?s) = Some rows \<longrightarrow>
      ''task_'' @ ''a'' \<notin> k_id ` set rows" by (simp add: new_manager_def)
  have e: "\<forall>e \<in> set (sd_before sample_schedule @ sd_between sample_schedule @ sd_after sample_schedule).
      draws_other (''task_'' @ ''a'') e"
    by (simp add: sample_schedule_def draws_other_def sample_env_def)
  have r: "map_option snd ?p = Some (Inr ''{}'')" by code_simp
  then obtain s' where p: "?p = Some (s', Inr ''{}'')" by auto
  then show ?thesis using probe_leaves_no_record [OF a b c d e p] by auto
qed

lemma fold_put_tasks:
  assumes "distinct (map k_id ts)"
  shows "map_of (m_tasks (fold put_task ts m)) k =
    (case map_of (map (\<lambda>t. (k_id t, t)) ts) k of None \<Rightarrow> map_of (m_tasks m) k | Some t \<Rightarrow> Some t)"
  using assms
proof (induction ts arbitrary: m)
  case (Cons t ts)
  have "k_id t \<notin> fst ` set (map (\<lambda>t. (k_id t, t)) ts)" using Cons.prems by auto
  then have "map_of (map (\<lambda>t. (k_id t, t)) ts) (k_id t) = None"
    by (rule iffD2 [OF map_of_eq_None_iff])
  then show ?case using Cons by (auto simp: put_tasks split: option.splits)
qed simp

definition interrupted_task :: "task \<Rightarrow> bool" where
  "interrupted_task t \<longleftrightarrow> k_status t = TaskFailed \<and> k_error t = interrupted"

lemma fold_persist:
  assumes "m_store m = Some rows" and "k_id ` set ts \<subseteq> k_id ` set rows"
    and "\<forall>t \<in> set ts. \<not> k_ephemeral t \<and> e_accepts env t"
  shows "\<exists>rows'. m_store (fold (\<lambda>t m. if interrupted_task t then persist env t m else m) ts m)
      = Some rows' \<and> k_id ` set rows' = k_id ` set rows
    \<and> (\<forall>r \<in> set rows'. r \<in> set rows \<and> (\<forall>t \<in> set ts. interrupted_task t \<longrightarrow> k_id t \<noteq> k_id r)
        \<or> k_status r = TaskFailed)"
  using assms
proof (induction ts arbitrary: m rows)
  case (Cons t ts)
  show ?case
  proof (cases "interrupted_task t")
    case False
    then show ?thesis using Cons.IH [OF Cons.prems(1)] Cons.prems by simp
  next
    case True
    let ?rows = "map (\<lambda>r. if k_id r = k_id t then row_update (row_of env t) r else r) rows"
    have st: "m_store (persist env t m) = Some ?rows"
      using Cons.prems by (simp add: persist_def save_def)
    have ids: "k_id ` set ?rows = k_id ` set rows"
    proof -
      have "k_id (if k_id r = k_id t then row_update (row_of env t) r else r) = k_id r" for r
        by (simp add: row_update_def)
      then show ?thesis by (simp only: set_map image_image)
    qed
    obtain rows' where rows': "m_store (fold (\<lambda>t m. if interrupted_task t then persist env t m else m)
        ts (persist env t m)) = Some rows'" "k_id ` set rows' = k_id ` set ?rows"
      "\<forall>r \<in> set rows'. r \<in> set ?rows \<and> (\<forall>t \<in> set ts. interrupted_task t \<longrightarrow> k_id t \<noteq> k_id r)
        \<or> k_status r = TaskFailed"
      using Cons.IH [OF st] Cons.prems(2,3) ids by auto
    have "r \<in> set rows \<and> (\<forall>t \<in> set (t # ts). interrupted_task t \<longrightarrow> k_id t \<noteq> k_id r)
        \<or> k_status r = TaskFailed" if "r \<in> set rows'" for r
      using rows'(3) that True
      by (auto simp: row_update_def row_of_def interrupted_task_def split: if_splits)
    then show ?thesis using rows'(1,2) ids True by simp
  qed
qed simp

text \<open>After a restart, when the rows fit in the 1000 that are read, every task of the
store is back in memory under its ID and every one of them is in a final state: a task that had not
ended is failed as interrupted, the others keep the status they had. The store is brought to the
same point, so no row says that a task is still going on.\<close>

theorem restart_settles_every_task:
  assumes st: "m_store m = Some rows" and m: "m_tasks m = []"
    and d: "distinct (map k_id rows)" and n: "length rows \<le> 1000"
    and acc: "\<forall>t. e_accepts env t"
  shows "(\<forall>r \<in> set rows. \<exists>t. map_of (m_tasks (load env m)) (k_id r) = Some t
      \<and> k_status t = (if terminal (k_status r) then k_status r else TaskFailed)
      \<and> k_error t = (if terminal (k_status r) then k_error r else interrupted))
    \<and> (\<forall>k t. map_of (m_tasks (load env m)) k = Some t \<longrightarrow> terminal (k_status t))
    \<and> (\<exists>rows'. m_store (load env m) = Some rows' \<and> k_id ` set rows' = k_id ` set rows
        \<and> (\<forall>r \<in> set rows'. terminal (k_status r)))"
proof -
  define ts where "ts = map (load_one env) (load_rows rows)"
  have ld: "load env m = fold (\<lambda>t m. if interrupted_task t then persist env t m else m) ts
      (fold put_task ts m)"
    by (simp add: load_def st ts_def interrupted_task_def Let_def)
  have lid: "k_id (load_one env t) = k_id t" for t by (simp add: load_one_def)
  have "length (sort_key (\<lambda>r. - k_created r) rows) \<le> 1000" using n by simp
  then have lr: "load_rows rows = map (\<lambda>r. r\<lparr>k_finished := False, k_ephemeral := False\<rparr>)
      (sort_key (\<lambda>r. - k_created r) rows)"
    by (simp add: load_rows_def)
  have ts_set: "set ts = (\<lambda>r. load_one env (r\<lparr>k_finished := False, k_ephemeral := False\<rparr>)) ` set rows"
    by (auto simp: ts_def lr)
  have "map k_id ts = map k_id (sort_key (\<lambda>r. - k_created r) rows)"
    by (simp add: ts_def lr lid comp_def)
  then have dts: "distinct (map k_id ts)" using d by (simp add: distinct_map)
  have tasks: "m_tasks (load env m) = m_tasks (fold put_task ts m)"
  proof -
    have "m_tasks (fold (\<lambda>t m. if interrupted_task t then persist env t m else m) us s) = m_tasks s"
      for us s by (induction us arbitrary: s) simp_all
    then show ?thesis by (simp add: ld)
  qed
  have look: "map_of (m_tasks (load env m)) k = map_of (map (\<lambda>t. (k_id t, t)) ts) k" for k
    by (simp add: tasks fold_put_tasks [OF dts] m split: option.split)
  have in_ts: "map_of (map (\<lambda>t. (k_id t, t)) ts) (k_id t) = Some t" if "t \<in> set ts" for t
    using that dts by (simp add: comp_def image_iff)
  have put_store: "m_store (fold put_task us s) = m_store s" for us s
    by (induction us arbitrary: s) (simp_all add: put_task_def)
  have A: "\<exists>t. map_of (m_tasks (load env m)) (k_id r) = Some t
      \<and> k_status t = (if terminal (k_status r) then k_status r else TaskFailed)
      \<and> k_error t = (if terminal (k_status r) then k_error r else interrupted)"
    if "r \<in> set rows" for r
  proof -
    let ?t = "load_one env (r\<lparr>k_finished := False, k_ephemeral := False\<rparr>)"
    have "?t \<in> set ts" using that by (simp add: ts_set)
    from in_ts [OF this] show ?thesis by (auto simp: look load_one_def)
  qed
  have B: "terminal (k_status t)" if "map_of (m_tasks (load env m)) k = Some t" for k t
  proof -
    have "t \<in> set ts" using that by (auto simp: look dest: map_of_SomeD)
    then show ?thesis by (auto simp: ts_set load_one_def)
  qed
  have ids: "k_id ` set ts = k_id ` set rows" by (force simp: ts_set lid image_iff)
  have "\<forall>t \<in> set ts. \<not> k_ephemeral t \<and> e_accepts env t"
    using acc by (auto simp: ts_set load_one_def)
  then obtain rows' where rows': "m_store (load env m) = Some rows'"
      "k_id ` set rows' = k_id ` set rows"
      "\<forall>r \<in> set rows'. r \<in> set rows \<and> (\<forall>t \<in> set ts. interrupted_task t \<longrightarrow> k_id t \<noteq> k_id r)
        \<or> k_status r = TaskFailed"
    using fold_persist [of "fold put_task ts m" rows ts env] st ids by (auto simp: ld put_store)
  have "terminal (k_status r)" if r: "r \<in> set rows'" for r
  proof (rule ccontr)
    assume nt: "\<not> terminal (k_status r)"
    then have "r \<in> set rows" and no: "\<forall>t \<in> set ts. interrupted_task t \<longrightarrow> k_id t \<noteq> k_id r"
      using rows'(3) r by fastforce+
    then have "load_one env (r\<lparr>k_finished := False, k_ephemeral := False\<rparr>) \<in> set ts"
      by (simp add: ts_set)
    from bspec [OF no this] show False
      using nt by (simp add: load_one_def interrupted_task_def)
  qed
  then show ?thesis using A B rows'(1,2) by blast
qed

lemma restart_settles_every_task_witness:
  "\<exists>rows'. m_store (load (sample_env 9 ''b'') (new_manager 0 (Some
      [new_task\<lparr>k_id := ''task_a'', k_status := TaskRunning\<rparr>,
       new_task\<lparr>k_id := ''task_b'', k_status := TaskSuccess\<rparr>]))) = Some rows'
    \<and> (\<forall>r \<in> set rows'. terminal (k_status r))"
  using restart_settles_every_task [of "new_manager 0 (Some
      [new_task\<lparr>k_id := ''task_a'', k_status := TaskRunning\<rparr>,
       new_task\<lparr>k_id := ''task_b'', k_status := TaskSuccess\<rparr>])"
     "[new_task\<lparr>k_id := ''task_a'', k_status := TaskRunning\<rparr>,
       new_task\<lparr>k_id := ''task_b'', k_status := TaskSuccess\<rparr>]" "sample_env 9 ''b''"]
  by (auto simp: new_manager_def sample_env_def)

end
