(* ===== verification/Release.thy ===== *)
theory Release
  imports Complex_Main Go_Text
begin

text \<open>
  \<open>release\<close>: canary and blue-green releases. The strategies (\<open>strategy.go\<close>) compute what an
  action does, the repository and the service write it in one transaction, and the automatic canary
  (\<open>auto.go\<close>) drives it from the version metrics. The database is the table of deployment versions
  (by ID), the rows of \<open>releases\<close> with the CHECKs and the partial unique index of
  \<open>migrations/0025_releases_unify.sql\<close>, and the event log; an operation that fails leaves it as it
  was (the transaction is rolled back). Floating-point rates are exact rationals.
\<close>

section \<open>model.go\<close>

datatype strategy = Canary | BlueGreen | OtherStrategy string

definition valid_strategy :: "strategy \<Rightarrow> bool" where
  "valid_strategy s \<longleftrightarrow> s = Canary \<or> s = BlueGreen"

datatype phase = PhCreated | PhRunning | PhPaused | PhCompleted | PhRolledBack | PhFailed | PhActive

definition phase_terminal :: "phase \<Rightarrow> bool" where
  "phase_terminal p \<longleftrightarrow> p = PhCompleted \<or> p = PhRolledBack \<or> p = PhFailed"

datatype action = ActStart | ActPause | ActResume | ActWeight | ActPromote | ActRollback | ActSwitch

datatype act_arg = NoArg | IntArg int | UuidArg uuid

datatype rel_config = CanaryConfig int int | BlueGreenConfig uuid uuid

record release =
  r_id :: uuid
  r_strategy :: strategy
  r_deployment :: uuid
  r_service :: "uuid option"
  r_name :: string
  r_phase :: phase
  r_primary :: uuid
  r_secondary :: uuid
  r_primary_weight :: int
  r_secondary_weight :: int
  r_previous :: "uuid option"
  r_config :: rel_config
  r_started :: "go_time option"
  r_finished :: "go_time option"
  r_created :: go_time
  r_updated :: go_time

datatype event_detail =
    DetStart int | DetPause int | DetResume int | DetWeight int int | DetPromote
  | DetBlueGreenRollback | DetCanaryRollback | DetSwitch act_arg

record event =
  ev_release :: uuid
  ev_action :: action
  ev_from_weight :: "int option"
  ev_to_weight :: "int option"
  ev_from_version :: "uuid option"
  ev_to_version :: "uuid option"
  ev_detail :: event_detail
  ev_created :: go_time

record new_release =
  nr_strategy :: strategy
  nr_service :: "uuid option"
  nr_name :: string
  nr_deployment :: uuid
  nr_primary :: uuid
  nr_secondary :: uuid
  nr_initial :: int
  nr_target :: int
  nr_step :: int
  nr_blue :: uuid
  nr_green :: uuid

record update_input =
  ui_name :: "string option"
  ui_target :: "int option"
  ui_step :: "int option"

record version =
  v_deployment :: uuid
  v_weight :: int
  v_status :: string

record rel_db =
  versions :: "uuid \<Rightarrow> version option"
  releases :: "release list"
  events :: "event list"

datatype rel_error =
    BadStrategy | NeedTwoVersions | SameVersions | DifferentDeployments | WrongDeployment
  | VersionMissing uuid | UnsupportedAction action | BadPhase action phase | NotBaseline
  | WeightRange | TargetRequired | TargetForeign | TargetAlreadyActive | NoPrevious
  | PreviousForeign | AlreadyPrevious | ActiveReleaseExists | CheckViolation | StateRace
  | ReleaseMissing | AllocationFailed uuid | StillActive | VersionRefused | VersionForeign | DeploymentNeeded

section \<open>strategy.go\<close>

record allocation =
  al_version :: uuid
  al_weight :: int
  al_status :: string

record create_plan =
  cp_strategy :: strategy
  cp_deployment :: uuid
  cp_service :: "uuid option"
  cp_name :: string
  cp_phase :: phase
  cp_primary :: uuid
  cp_secondary :: uuid
  cp_primary_weight :: int
  cp_secondary_weight :: int
  cp_previous :: "uuid option"
  cp_config :: rel_config
  cp_allocations :: "allocation list"

record action_result =
  ar_phase :: phase
  ar_primary_weight :: int
  ar_secondary_weight :: int
  ar_set_start :: bool
  ar_set_finish :: bool
  ar_allocations :: "allocation list"

definition alloc :: "uuid \<Rightarrow> int \<Rightarrow> string \<Rightarrow> allocation" where
  "alloc v w s = \<lparr>al_version = v, al_weight = w, al_status = s\<rparr>"

definition default_name :: "string \<Rightarrow> string \<Rightarrow> string" where
  "default_name name fallback = (if name = [] then fallback else name)"

definition canary_validate_create :: "rel_db \<Rightarrow> new_release \<Rightarrow> rel_error + create_plan" where
  "canary_validate_create db inp =
    (if nr_primary inp = uuid_nil \<or> nr_secondary inp = uuid_nil then Inl NeedTwoVersions
     else if nr_primary inp = nr_secondary inp then Inl SameVersions
     else (case versions db (nr_primary inp) of
         None \<Rightarrow> Inl (VersionMissing (nr_primary inp))
       | Some sv \<Rightarrow> (case versions db (nr_secondary inp) of
           None \<Rightarrow> Inl (VersionMissing (nr_secondary inp))
         | Some cv \<Rightarrow>
             if v_deployment sv \<noteq> v_deployment cv then Inl DifferentDeployments
             else Inr \<lparr>cp_strategy = Canary, cp_deployment = v_deployment sv,
                   cp_service = nr_service inp, cp_name = nr_name inp, cp_phase = PhCreated,
                   cp_primary = nr_primary inp, cp_secondary = nr_secondary inp,
                   cp_primary_weight = 100, cp_secondary_weight = 0, cp_previous = None,
                   cp_config = CanaryConfig (if nr_target inp = 0 then 100 else nr_target inp)
                                 (if nr_step inp = 0 then 10 else nr_step inp),
                   cp_allocations = []\<rparr>)))"

definition canary_start :: "rel_db \<Rightarrow> release \<Rightarrow> rel_error + action_result" where
  "canary_start db rel =
    (if r_phase rel \<notin> {PhCreated, PhPaused, PhRolledBack} then Inl (BadPhase ActStart (r_phase rel))
     else (case versions db (r_primary rel) of
         None \<Rightarrow> Inl (VersionMissing (r_primary rel))
       | Some sv \<Rightarrow>
           if v_weight sv \<noteq> 100 then Inl NotBaseline
           else (let w = (if r_secondary_weight rel = 0 then 10 else r_secondary_weight rel)
                 in Inr \<lparr>ar_phase = PhRunning, ar_primary_weight = 100 - w,
                         ar_secondary_weight = w, ar_set_start = True, ar_set_finish = False,
                         ar_allocations = [alloc (r_secondary rel) w ''canary'',
                                           alloc (r_primary rel) (100 - w) ''stable'']\<rparr>)))"

definition canary_pause :: "release \<Rightarrow> rel_error + action_result" where
  "canary_pause rel =
    (if r_phase rel \<noteq> PhRunning then Inl (BadPhase ActPause (r_phase rel))
     else Inr \<lparr>ar_phase = PhPaused, ar_primary_weight = r_primary_weight rel,
               ar_secondary_weight = r_secondary_weight rel, ar_set_start = False,
               ar_set_finish = False, ar_allocations = []\<rparr>)"

definition canary_resume :: "release \<Rightarrow> rel_error + action_result" where
  "canary_resume rel =
    (if r_phase rel \<noteq> PhPaused then Inl (BadPhase ActResume (r_phase rel))
     else Inr \<lparr>ar_phase = PhRunning, ar_primary_weight = r_primary_weight rel,
               ar_secondary_weight = r_secondary_weight rel, ar_set_start = False,
               ar_set_finish = False, ar_allocations = []\<rparr>)"

definition canary_set_weight :: "release \<Rightarrow> act_arg \<Rightarrow> rel_error + action_result" where
  "canary_set_weight rel arg =
    (let w = (case arg of IntArg i \<Rightarrow> i | _ \<Rightarrow> 0) in
     if w < 0 \<or> w > 100 then Inl WeightRange
     else if r_phase rel \<noteq> PhRunning \<and> r_phase rel \<noteq> PhPaused then Inl (BadPhase ActWeight (r_phase rel))
     else Inr \<lparr>ar_phase = r_phase rel, ar_primary_weight = 100 - w, ar_secondary_weight = w,
               ar_set_start = False, ar_set_finish = False,
               ar_allocations = [alloc (r_secondary rel) w ''canary'',
                                 alloc (r_primary rel) (100 - w) ''stable'']\<rparr>)"

definition canary_promote :: "release \<Rightarrow> rel_error + action_result" where
  "canary_promote rel =
    (if r_phase rel \<noteq> PhRunning \<and> r_phase rel \<noteq> PhPaused then Inl (BadPhase ActPromote (r_phase rel))
     else Inr \<lparr>ar_phase = PhCompleted, ar_primary_weight = 0, ar_secondary_weight = 100,
               ar_set_start = False, ar_set_finish = True,
               ar_allocations = [alloc (r_secondary rel) 100 ''stable'',
                                 alloc (r_primary rel) 0 ''draining'']\<rparr>)"

definition canary_rollback :: "release \<Rightarrow> rel_error + action_result" where
  "canary_rollback rel =
    (if r_phase rel \<notin> {PhRunning, PhPaused, PhCreated} then Inl (BadPhase ActRollback (r_phase rel))
     else Inr \<lparr>ar_phase = PhRolledBack, ar_primary_weight = 100, ar_secondary_weight = 0,
               ar_set_start = False, ar_set_finish = True,
               ar_allocations = [alloc (r_secondary rel) 0 ''standby'',
                                 alloc (r_primary rel) 100 ''stable'']\<rparr>)"

definition canary_action :: "rel_db \<Rightarrow> release \<Rightarrow> action \<Rightarrow> act_arg \<Rightarrow> rel_error + action_result" where
  "canary_action db rel act arg =
    (case act of
       ActStart \<Rightarrow> canary_start db rel
     | ActPause \<Rightarrow> canary_pause rel
     | ActResume \<Rightarrow> canary_resume rel
     | ActWeight \<Rightarrow> canary_set_weight rel arg
     | ActPromote \<Rightarrow> canary_promote rel
     | ActRollback \<Rightarrow> canary_rollback rel
     | ActSwitch \<Rightarrow> Inl (UnsupportedAction act))"

definition bluegreen_validate_create :: "rel_db \<Rightarrow> new_release \<Rightarrow> rel_error + create_plan" where
  "bluegreen_validate_create db inp =
    (let blue = nr_blue inp; green = nr_green inp in
     if blue = uuid_nil \<or> green = uuid_nil then Inl NeedTwoVersions
     else if blue = green then Inl SameVersions
     else (case versions db blue of
         None \<Rightarrow> Inl (VersionMissing blue)
       | Some bv \<Rightarrow> (case versions db green of
           None \<Rightarrow> Inl (VersionMissing green)
         | Some gv \<Rightarrow>
             if v_deployment bv \<noteq> v_deployment gv then Inl DifferentDeployments
             else if nr_deployment inp \<noteq> uuid_nil \<and> nr_deployment inp \<noteq> v_deployment bv
             then Inl WrongDeployment
             else (let act = nr_primary inp;
                       active = (if act = uuid_nil \<or> (act \<noteq> blue \<and> act \<noteq> green) then blue else act);
                       other = (if active = blue then green else blue)
                   in Inr \<lparr>cp_strategy = BlueGreen, cp_deployment = v_deployment bv,
                         cp_service = nr_service inp,
                         cp_name = default_name (nr_name inp) ''blue-green'',
                         cp_phase = PhActive, cp_primary = active, cp_secondary = other,
                         cp_primary_weight = 100, cp_secondary_weight = 0, cp_previous = None,
                         cp_config = BlueGreenConfig blue green,
                         cp_allocations = [alloc active 100 ''active'', alloc other 0 ''standby'']\<rparr>))))"

definition switch_active :: "release \<Rightarrow> act_arg \<Rightarrow> rel_error + action_result" where
  "switch_active rel arg =
    (let tgt = (case arg of UuidArg u \<Rightarrow> u | _ \<Rightarrow> uuid_nil) in
     if tgt = uuid_nil then Inl TargetRequired
     else if tgt \<noteq> r_primary rel \<and> tgt \<noteq> r_secondary rel then Inl TargetForeign
     else if tgt = r_primary rel then Inl TargetAlreadyActive
     else Inr \<lparr>ar_phase = PhActive, ar_primary_weight = 100, ar_secondary_weight = 0,
               ar_set_start = False, ar_set_finish = False,
               ar_allocations = [alloc tgt 100 ''active'', alloc (r_primary rel) 0 ''standby'']\<rparr>)"

definition bluegreen_rollback :: "release \<Rightarrow> rel_error + action_result" where
  "bluegreen_rollback rel =
    (case r_previous rel of
       None \<Rightarrow> Inl NoPrevious
     | Some prev \<Rightarrow>
         if prev \<noteq> r_primary rel \<and> prev \<noteq> r_secondary rel then Inl PreviousForeign
         else if prev = r_primary rel then Inl AlreadyPrevious
         else Inr \<lparr>ar_phase = PhActive, ar_primary_weight = 100, ar_secondary_weight = 0,
                   ar_set_start = False, ar_set_finish = False,
                   ar_allocations = [alloc prev 100 ''active'',
                                     alloc (r_primary rel) 0 ''standby'']\<rparr>)"

definition bluegreen_action :: "release \<Rightarrow> action \<Rightarrow> act_arg \<Rightarrow> rel_error + action_result" where
  "bluegreen_action rel act arg =
    (case act of
       ActSwitch \<Rightarrow> switch_active rel arg
     | ActRollback \<Rightarrow> bluegreen_rollback rel
     | _ \<Rightarrow> Inl (UnsupportedAction act))"

definition parse_canary_config :: "rel_config \<Rightarrow> int \<times> int" where
  "parse_canary_config raw =
    (let (t, s) = (case raw of CanaryConfig t s \<Rightarrow> (t, s) | BlueGreenConfig _ _ \<Rightarrow> (0, 0))
     in (if t = 0 then 100 else t, if s = 0 then 10 else s))"

text \<open>\<open>strategyFor\<close> followed by the strategy's method.\<close>

definition strategy_create :: "rel_db \<Rightarrow> new_release \<Rightarrow> rel_error + create_plan" where
  "strategy_create db inp =
    (case nr_strategy inp of
       Canary \<Rightarrow> canary_validate_create db inp
     | BlueGreen \<Rightarrow> bluegreen_validate_create db inp
     | OtherStrategy _ \<Rightarrow> Inl BadStrategy)"

definition strategy_action ::
  "strategy \<Rightarrow> rel_db \<Rightarrow> release \<Rightarrow> action \<Rightarrow> act_arg \<Rightarrow> rel_error + action_result" where
  "strategy_action s db rel act arg =
    (case s of
       Canary \<Rightarrow> canary_action db rel act arg
     | BlueGreen \<Rightarrow> bluegreen_action rel act arg
     | OtherStrategy _ \<Rightarrow> Inl BadStrategy)"

section \<open>repository.go\<close>

text \<open>The CHECKs of the table and its partial unique index, against the other rows.\<close>

definition row_checks :: "release \<Rightarrow> bool" where
  "row_checks r \<longleftrightarrow> r_primary r \<noteq> r_secondary r
     \<and> 0 \<le> r_primary_weight r \<and> r_primary_weight r \<le> 100
     \<and> 0 \<le> r_secondary_weight r \<and> r_secondary_weight r \<le> 100"

definition active_conflict :: "release \<Rightarrow> release list \<Rightarrow> bool" where
  "active_conflict r rs \<longleftrightarrow> \<not> phase_terminal (r_phase r) \<and>
     (\<exists>q \<in> set rs. r_id q \<noteq> r_id r \<and> r_deployment q = r_deployment r \<and> \<not> phase_terminal (r_phase q))"

definition get_release :: "rel_db \<Rightarrow> uuid \<Rightarrow> release option" where
  "get_release db rid = find (\<lambda>r. r_id r = rid) (releases db)"

definition create_tx :: "uuid \<Rightarrow> go_time \<Rightarrow> create_plan \<Rightarrow> rel_db \<Rightarrow> rel_error + (release \<times> rel_db)" where
  "create_tx uid now p db =
    (let r = \<lparr>r_id = uid, r_strategy = cp_strategy p, r_deployment = cp_deployment p,
              r_service = cp_service p, r_name = cp_name p, r_phase = cp_phase p,
              r_primary = cp_primary p, r_secondary = cp_secondary p,
              r_primary_weight = cp_primary_weight p, r_secondary_weight = cp_secondary_weight p,
              r_previous = cp_previous p, r_config = cp_config p, r_started = None,
              r_finished = None, r_created = now, r_updated = now\<rparr>
     in if uid \<in> r_id ` set (releases db) \<or> active_conflict r (releases db)
        then Inl ActiveReleaseExists
        else if \<not> row_checks r then Inl CheckViolation
        else Inr (r, db\<lparr>releases := releases db @ [r]\<rparr>))"

definition list_releases ::
  "rel_db \<Rightarrow> strategy option \<Rightarrow> uuid option \<Rightarrow> phase option \<Rightarrow> nat \<Rightarrow> nat \<Rightarrow> release list \<times> nat" where
  "list_releases db st svc ph limit offset =
    (let rs = filter (\<lambda>r. (st = None \<or> Some (r_strategy r) = st)
                \<and> (svc = None \<or> r_service r = svc)
                \<and> (ph = None \<or> Some (r_phase r) = ph)) (releases db)
     in (take limit (drop offset (sort_key (\<lambda>r. - r_created r) rs)), length rs))"

definition set_release :: "uuid \<Rightarrow> (release \<Rightarrow> release) \<Rightarrow> rel_db \<Rightarrow> rel_db" where
  "set_release rid f db =
    db\<lparr>releases := map (\<lambda>r. if r_id r = rid then f r else r) (releases db)\<rparr>"

definition update_release ::
  "uuid \<Rightarrow> update_input \<Rightarrow> go_time \<Rightarrow> rel_db \<Rightarrow> rel_error + (release \<times> rel_db)" where
  "update_release rid inp now db =
    (case get_release db rid of
       None \<Rightarrow> Inl ReleaseMissing
     | Some rel \<Rightarrow>
         (let r1 = rel\<lparr>r_updated := now\<rparr>;
              r2 = (case ui_name inp of None \<Rightarrow> r1 | Some n \<Rightarrow> r1\<lparr>r_name := n\<rparr>);
              r3 = (if r_strategy rel = Canary \<and> (ui_target inp \<noteq> None \<or> ui_step inp \<noteq> None) then
                      (case parse_canary_config (r_config rel) of (t, s) \<Rightarrow>
                         r2\<lparr>r_config := CanaryConfig
                              (case ui_target inp of None \<Rightarrow> t | Some t' \<Rightarrow> t')
                              (case ui_step inp of None \<Rightarrow> s | Some s' \<Rightarrow> s')\<rparr>)
                    else r2)
          in Inr (r3, set_release rid (\<lambda>_. r3) db)))"

definition release_events :: "rel_db \<Rightarrow> uuid \<Rightarrow> event list" where
  "release_events db rid =
    sort_key (\<lambda>e. - ev_created e) (filter (\<lambda>e. ev_release e = rid) (events db))"

definition delete_release_row :: "uuid \<Rightarrow> rel_db \<Rightarrow> rel_error + rel_db" where
  "delete_release_row rid db =
    (if get_release db rid = None then Inl ReleaseMissing
     else Inr (db\<lparr>releases := filter (\<lambda>r. r_id r \<noteq> rid) (releases db),
                  events := filter (\<lambda>e. ev_release e \<noteq> rid) (events db)\<rparr>))"

fun apply_allocation :: "allocation list \<Rightarrow> rel_db \<Rightarrow> rel_error + rel_db" where
  "apply_allocation [] db = Inr db"
| "apply_allocation (a # as) db =
    (case versions db (al_version a) of
       None \<Rightarrow> Inl (AllocationFailed (al_version a))
     | Some v \<Rightarrow> apply_allocation as
         (db\<lparr>versions := (versions db)(al_version a \<mapsto>
               v\<lparr>v_weight := al_weight a, v_status := al_status a\<rparr>)\<rparr>))"

definition state_row :: "release \<Rightarrow> release \<Rightarrow> action_result \<Rightarrow> uuid option \<Rightarrow> go_time \<Rightarrow> release" where
  "state_row row rel res previous now =
    (let r1 = row\<lparr>r_phase := ar_phase res, r_primary_weight := ar_primary_weight res,
                  r_secondary_weight := ar_secondary_weight res, r_updated := now\<rparr>;
         r2 = (if previous \<noteq> None then r1\<lparr>r_previous := previous\<rparr> else r1);
         r3 = (if ar_set_start res \<and> r_started rel = None then r2\<lparr>r_started := Some now\<rparr> else r2)
     in if ar_set_finish res then r3\<lparr>r_finished := Some now\<rparr> else r3)"

definition update_state ::
  "release \<Rightarrow> action_result \<Rightarrow> uuid option \<Rightarrow> go_time \<Rightarrow> rel_db \<Rightarrow> rel_error + rel_db" where
  "update_state rel res previous now db =
    (case get_release db (r_id rel) of
       None \<Rightarrow> Inl StateRace
     | Some row \<Rightarrow>
         if r_phase row \<noteq> r_phase rel then Inl StateRace
         else (let r = state_row row rel res previous now in
           if active_conflict r (releases db) \<or> \<not> row_checks r then Inl CheckViolation
           else Inr (set_release (r_id rel) (\<lambda>_. r) db)))"

section \<open>service.go\<close>

definition create_release ::
  "uuid \<Rightarrow> go_time \<Rightarrow> new_release \<Rightarrow> rel_db \<Rightarrow> rel_error + (release \<times> rel_db)" where
  "create_release uid now inp db =
    (if \<not> valid_strategy (nr_strategy inp) then Inl BadStrategy
     else (case strategy_create db inp of
         Inl e \<Rightarrow> Inl e
       | Inr plan \<Rightarrow> (case create_tx uid now plan db of
           Inl e \<Rightarrow> Inl e
         | Inr (rel, db1) \<Rightarrow> (case apply_allocation (cp_allocations plan) db1 of
             Inl e \<Rightarrow> Inl e
           | Inr db2 \<Rightarrow> Inr (rel, db2)))))"

definition delete_release :: "uuid \<Rightarrow> rel_db \<Rightarrow> rel_error + rel_db" where
  "delete_release rid db =
    (case get_release db rid of
       None \<Rightarrow> Inl ReleaseMissing
     | Some rel \<Rightarrow>
         if r_phase rel \<in> {PhRunning, PhPaused, PhActive, PhCreated} then Inl StillActive
         else delete_release_row rid db)"

definition weights_for_event :: "release \<Rightarrow> action_result \<Rightarrow> int option \<times> int option" where
  "weights_for_event rel res =
    (if r_strategy rel = Canary then (Some (r_secondary_weight rel), Some (ar_secondary_weight res))
     else (None, None))"

definition versions_for_event ::
  "release \<Rightarrow> action_result \<Rightarrow> action \<Rightarrow> uuid option \<times> uuid option" where
  "versions_for_event rel res act =
    (if r_strategy rel \<noteq> BlueGreen then (None, None)
     else if act = ActSwitch \<or> act = ActRollback then
       (Some (r_primary rel),
        map_option al_version (find (\<lambda>a. al_status a = ''active'') (ar_allocations res)))
     else (None, None))"

definition event_detail_of :: "action \<Rightarrow> release \<Rightarrow> action_result \<Rightarrow> act_arg \<Rightarrow> event_detail" where
  "event_detail_of act rel res arg =
    (case act of
       ActStart \<Rightarrow> DetStart (ar_secondary_weight res)
     | ActPause \<Rightarrow> DetPause (r_secondary_weight rel)
     | ActResume \<Rightarrow> DetResume (r_secondary_weight rel)
     | ActWeight \<Rightarrow> DetWeight (r_secondary_weight rel) (ar_secondary_weight res)
     | ActPromote \<Rightarrow> DetPromote
     | ActRollback \<Rightarrow> if r_strategy rel = BlueGreen then DetBlueGreenRollback else DetCanaryRollback
     | ActSwitch \<Rightarrow> DetSwitch arg)"

definition previous_for :: "release \<Rightarrow> action \<Rightarrow> uuid option" where
  "previous_for rel act =
    (if r_strategy rel = BlueGreen \<and> (act = ActSwitch \<or> act = ActRollback)
     then Some (r_primary rel) else None)"

text \<open>The body of the transaction of \<open>act\<close>, for the release \<open>rel\<close> it has read.\<close>

definition act_on ::
  "strategy \<Rightarrow> release \<Rightarrow> action \<Rightarrow> act_arg \<Rightarrow> go_time \<Rightarrow> rel_db \<Rightarrow> rel_error + rel_db" where
  "act_on st rel act arg now db =
    (case strategy_action st db rel act arg of
       Inl e \<Rightarrow> Inl e
     | Inr res \<Rightarrow> (case apply_allocation (ar_allocations res) db of
         Inl e \<Rightarrow> Inl e
       | Inr db1 \<Rightarrow> (case update_state rel res (previous_for rel act) now db1 of
           Inl e \<Rightarrow> Inl e
         | Inr db2 \<Rightarrow> Inr (db2\<lparr>events := events db2 @
             [\<lparr>ev_release = r_id rel, ev_action = act,
               ev_from_weight = fst (weights_for_event rel res),
               ev_to_weight = snd (weights_for_event rel res),
               ev_from_version = fst (versions_for_event rel res act),
               ev_to_version = snd (versions_for_event rel res act),
               ev_detail = event_detail_of act rel res arg, ev_created = now\<rparr>]\<rparr>))))"

definition act :: "uuid \<Rightarrow> action \<Rightarrow> act_arg \<Rightarrow> go_time \<Rightarrow> rel_db \<Rightarrow> rel_error + (release \<times> rel_db)" where
  "act rid a arg now db =
    (case get_release db rid of
       None \<Rightarrow> Inl ReleaseMissing
     | Some rel \<Rightarrow> (case act_on (r_strategy rel) rel a arg now db of
         Inl e \<Rightarrow> Inl e
       | Inr db' \<Rightarrow> (case get_release db' rid of
           None \<Rightarrow> Inl ReleaseMissing
         | Some rel' \<Rightarrow> Inr (rel', db'))))"

section \<open>metric_reader.go\<close>

record version_stat =
  vs_requests :: int
  vs_errors :: int
  vs_avg_ms :: rat

record metric_point =
  mp_counters :: "(string \<times> int) list" \<comment> \<open>of \<open>maple_requests_total\<close>, by encoded labels\<close>
  mp_durations :: "(string \<times> rat \<times> int) list" \<comment> \<open>sum in seconds and count, by encoded labels\<close>

definition label_has_version :: "string \<Rightarrow> string \<Rightarrow> bool" where
  "label_has_version labels vid =
    (if labels = [] then False
     else (case find (\<lambda>p. has_prefix p ''version='') (split_byte CHR '','' labels) of
         None \<Rightarrow> False
       | Some p \<Rightarrow> trim_prefix p ''version='' = vid))"

definition is_err_labels :: "string \<Rightarrow> bool" where
  "is_err_labels labels =
    list_ex (\<lambda>p. has_prefix p ''status='' \<and>
        (let c = trim_prefix p ''status='' in c = ''rejected'' \<or> (length c = 3 \<and> hd c = CHR ''5'')))
      (split_byte CHR '','' labels)"

definition report :: "metric_point list \<Rightarrow> string \<Rightarrow> version_stat option" where
  "report pts vid =
    (let mine = filter (\<lambda>(l, _). label_has_version l vid) (concat (map mp_counters pts));
         durs = filter (\<lambda>(l, _). label_has_version l vid) (concat (map mp_durations pts));
         req = sum_list (map snd mine);
         errs = sum_list (map snd (filter (\<lambda>(l, _). is_err_labels l) mine));
         sum_ms = sum_list (map (\<lambda>(_, s, _). s * 1000) durs);
         cnt = sum_list (map (\<lambda>(_, _, c). c) durs)
     in if req = 0 then None
        else Some \<lparr>vs_requests = req, vs_errors = errs,
                   vs_avg_ms = (if cnt > 0 then sum_ms / of_int cnt else 0)\<rparr>)"

section \<open>auto.go\<close>

record auto_config =
  ac_err_rate_max :: rat
  ac_err_latency_ms :: rat
  ac_min_requests :: int

text \<open>The defaults \<open>Run\<close> sets before its loop.\<close>

definition auto_defaults :: "auto_config \<Rightarrow> auto_config" where
  "auto_defaults cfg = cfg\<lparr>
     ac_err_rate_max := (if ac_err_rate_max cfg \<le> 0 then 5 else ac_err_rate_max cfg),
     ac_min_requests := (if ac_min_requests cfg \<le> 0 then 10 else ac_min_requests cfg)\<rparr>"

definition should_stop_loss :: "auto_config \<Rightarrow> version_stat \<Rightarrow> bool" where
  "should_stop_loss cfg cs =
    (let rate = (if vs_requests cs > 0
                 then of_int (vs_errors cs) / of_int (vs_requests cs) * 100 else 0)
     in rate > ac_err_rate_max cfg
        \<or> (ac_err_latency_ms cfg > 0 \<and> vs_avg_ms cs > ac_err_latency_ms cfg))"

definition commit_or_keep :: "(rel_error + (release \<times> rel_db)) \<Rightarrow> rel_db \<Rightarrow> rel_db" where
  "commit_or_keep r db = (case r of Inl _ \<Rightarrow> db | Inr (_, db') \<Rightarrow> db')"

definition evaluate_release ::
  "auto_config \<Rightarrow> (uuid \<Rightarrow> version_stat option) \<Rightarrow> go_time \<Rightarrow> release \<Rightarrow> rel_db \<Rightarrow> rel_db" where
  "evaluate_release cfg metric now rel db =
    (case metric (r_secondary rel) of
       None \<Rightarrow> db
     | Some cs \<Rightarrow>
         if vs_requests cs < ac_min_requests cfg then db
         else if should_stop_loss cfg cs then
           (case act (r_id rel) ActWeight (IntArg 0) now db of
              Inl _ \<Rightarrow> db
            | Inr (_, db1) \<Rightarrow> commit_or_keep (act (r_id rel) ActPause NoArg now db1) db1)
         else (case parse_canary_config (r_config rel) of (tgt, step) \<Rightarrow>
           if r_secondary_weight rel \<ge> tgt then db
           else (let nxt = (if r_secondary_weight rel + step > tgt then tgt
                            else r_secondary_weight rel + step)
                 in if nxt \<le> r_secondary_weight rel then db
                    else commit_or_keep (act (r_id rel) ActWeight (IntArg nxt) now db) db)))"

definition evaluate_once ::
  "auto_config \<Rightarrow> (uuid \<Rightarrow> version_stat option) \<Rightarrow> go_time \<Rightarrow> rel_db \<Rightarrow> rel_db" where
  "evaluate_once cfg metric now db =
    fold (evaluate_release cfg metric now)
      (fst (list_releases db (Some Canary) None (Some PhRunning) 100 0)) db"

section \<open>deployment/repository.go: the other writers of versions\<close>

text \<open>
  The weight, the status and the deployment of a version; its other columns have no part in a release.
  \<open>accepted\<close> says that the name is free in the deployment and the deployment exists. Deleting a deployment
  takes its versions and its releases along (\<open>ON DELETE CASCADE\<close>); deleting a service deletes its
  deployments.
\<close>

definition create_version :: "uuid \<Rightarrow> bool \<Rightarrow> uuid \<Rightarrow> int \<Rightarrow> string \<Rightarrow> rel_db \<Rightarrow> rel_error + rel_db" where
  "create_version u accepted d w st db =
    (if \<not> accepted \<or> versions db u \<noteq> None then Inl VersionRefused
     else Inr (db\<lparr>versions := (versions db)(u \<mapsto>
       \<lparr>v_deployment = d, v_weight = (if w = 0 then 100 else w),
        v_status = (if st = [] then ''stable'' else st)\<rparr>)\<rparr>))"

definition update_version :: "uuid \<Rightarrow> int option \<Rightarrow> string option \<Rightarrow> rel_db \<Rightarrow> rel_error + rel_db" where
  "update_version u w st db =
    (case versions db u of
       None \<Rightarrow> Inl (VersionMissing u)
     | Some v \<Rightarrow>
         (let v1 = (case w of None \<Rightarrow> v | Some x \<Rightarrow> v\<lparr>v_weight := x\<rparr>);
              v2 = (case st of None \<Rightarrow> v1 | Some x \<Rightarrow> v1\<lparr>v_status := x\<rparr>)
          in Inr (db\<lparr>versions := (versions db)(u \<mapsto> v2)\<rparr>)))"

definition delete_version :: "uuid \<Rightarrow> rel_db \<Rightarrow> rel_error + rel_db" where
  "delete_version u db =
    (if versions db u = None then Inl (VersionMissing u)
     else Inr (db\<lparr>versions := (versions db)(u := None)\<rparr>))"

definition set_default_version :: "uuid \<Rightarrow> uuid \<Rightarrow> rel_db \<Rightarrow> rel_error + rel_db" where
  "set_default_version d u db =
    (if d = uuid_nil then Inl DeploymentNeeded
     else case versions db u of
       None \<Rightarrow> Inl (VersionMissing u)
     | Some v \<Rightarrow>
         if v_deployment v \<noteq> d then Inl VersionForeign
         else Inr (db\<lparr>versions := (\<lambda>x. if x = u then Some (v\<lparr>v_status := ''stable''\<rparr>)
           else map_option (\<lambda>y. if v_deployment y = d
               \<and> v_status y \<in> set [''stable'', ''canary'', ''active'', ''standby'', ''draining'']
             then y\<lparr>v_status := ''standby''\<rparr> else y) (versions db x))\<rparr>))"

definition delete_deployment :: "uuid \<Rightarrow> rel_db \<Rightarrow> rel_db" where
  "delete_deployment d db =
    db\<lparr>versions := (\<lambda>x. case versions db x of None \<Rightarrow> None
         | Some v \<Rightarrow> if v_deployment v = d then None else Some v),
       releases := filter (\<lambda>r. r_deployment r \<noteq> d) (releases db),
       events := filter (\<lambda>e. \<forall>r \<in> set (releases db). r_id r = ev_release e \<longrightarrow> r_deployment r \<noteq> d) (events db)\<rparr>"

section \<open>The invariant of the table\<close>

text \<open>
  What holds of the rows whatever is done to the versions: the recorded weights add up to 100, a
  blue-green release is always active, a canary never, and no deployment has two unfinished releases.
\<close>

definition row_sound :: "release \<Rightarrow> bool" where
  "row_sound r \<longleftrightarrow> row_checks r \<and> valid_strategy (r_strategy r)
     \<and> r_primary_weight r + r_secondary_weight r = 100
     \<and> (r_strategy r = Canary \<longrightarrow> r_phase r \<noteq> PhActive)
     \<and> (r_strategy r = BlueGreen \<longrightarrow> r_phase r = PhActive \<and>
          (r_previous r = None \<or> r_previous r = Some (r_primary r)))"

definition rows_inv :: "rel_db \<Rightarrow> bool" where
  "rows_inv db \<longleftrightarrow> distinct (map r_id (releases db))
     \<and> (\<forall>r \<in> set (releases db). row_sound r \<and> \<not> active_conflict r (releases db))"

text \<open>
  What holds of a row and of the two versions it directs traffic to: while a canary runs, the versions
  carry exactly the recorded weights; and one of the two
  colours of a blue-green release has all the traffic and the other none.
\<close>

definition pair_ok :: "version \<Rightarrow> version \<Rightarrow> release \<Rightarrow> bool" where
  "pair_ok p s r \<longleftrightarrow> v_deployment p = r_deployment r \<and> v_deployment s = r_deployment r
     \<and> (r_strategy r = Canary \<longrightarrow> r_phase r \<noteq> PhActive \<and>
          (r_phase r = PhRunning \<or> r_phase r = PhPaused \<longrightarrow>
             v_weight p = r_primary_weight r \<and> v_weight s = r_secondary_weight r))
     \<and> (r_strategy r = BlueGreen \<longrightarrow> r_phase r = PhActive \<and>
          (r_previous r = None \<or> r_previous r = Some (r_primary r)) \<and>
          (v_weight p = 100 \<and> v_status p = ''active'' \<and> v_weight s = 0 \<and> v_status s = ''standby''
           \<or> v_weight p = 0 \<and> v_status p = ''standby'' \<and> v_weight s = 100 \<and> v_status s = ''active''))"

definition row_ok :: "(uuid \<Rightarrow> version option) \<Rightarrow> release \<Rightarrow> bool" where
  "row_ok vs r \<longleftrightarrow> row_checks r \<and> valid_strategy (r_strategy r)
     \<and> r_primary_weight r + r_secondary_weight r = 100
     \<and> (\<exists>p s. vs (r_primary r) = Some p \<and> vs (r_secondary r) = Some s \<and> pair_ok p s r)"

definition rel_inv :: "rel_db \<Rightarrow> bool" where
  "rel_inv db \<longleftrightarrow> distinct (map r_id (releases db))
     \<and> (\<forall>r \<in> set (releases db). row_ok (versions db) r)
     \<and> (\<forall>r \<in> set (releases db). \<not> active_conflict r (releases db))"

lemma rel_inv_empty [inv_intros]: "releases db = [] \<Longrightarrow> rel_inv db"
  by (simp add: rel_inv_def)

lemma rows_inv_empty [inv_intros]: "releases db = [] \<Longrightarrow> rows_inv db"
  by (simp add: rows_inv_def)

lemma row_ok_sound: "row_ok vs r \<Longrightarrow> row_sound r"
  by (auto simp: row_ok_def row_sound_def pair_ok_def)

lemma rows_inv_cong: "rows_inv db \<Longrightarrow> releases db' = releases db \<Longrightarrow> rows_inv db'"
  by (simp add: rows_inv_def)

lemma get_release_mem: "get_release db rid = Some r \<Longrightarrow> r \<in> set (releases db) \<and> r_id r = rid"
  by (auto simp: get_release_def dest: find_Some_mem)

lemma get_release_unique:
  "distinct (map r_id (releases db)) \<Longrightarrow> r \<in> set (releases db) \<Longrightarrow> get_release db (r_id r) = Some r"
  by (auto simp: get_release_def find_Some_iff in_set_conv_nth distinct_conv_nth)

text \<open>Versions keep their deployment, and those of other deployments keep everything.\<close>

definition versions_frame :: "uuid \<Rightarrow> rel_db \<Rightarrow> rel_db \<Rightarrow> bool" where
  "versions_frame d db db' \<longleftrightarrow> (\<forall>u v. versions db u = Some v \<longrightarrow>
     (\<exists>v'. versions db' u = Some v' \<and> v_deployment v' = v_deployment v
        \<and> (v_deployment v \<noteq> d \<longrightarrow> v' = v)))"

lemma row_ok_frame:
  assumes "row_ok (versions db) q" and "versions_frame d db db'"
    and "r_deployment q \<noteq> d \<or> phase_terminal (r_phase q)"
  shows "row_ok (versions db') q"
proof -
  obtain p s where ps: "versions db (r_primary q) = Some p" "versions db (r_secondary q) = Some s"
    "pair_ok p s q" using assms(1) by (auto simp: row_ok_def)
  obtain p' where p': "versions db' (r_primary q) = Some p'" "v_deployment p' = v_deployment p"
      "v_deployment p \<noteq> d \<longrightarrow> p' = p"
    using assms(2) ps(1) by (auto simp: versions_frame_def)
  obtain s' where s': "versions db' (r_secondary q) = Some s'" "v_deployment s' = v_deployment s"
      "v_deployment s \<noteq> d \<longrightarrow> s' = s"
    using assms(2) ps(2) by (auto simp: versions_frame_def)
  have "pair_ok p' s' q"
  proof (cases "r_deployment q \<noteq> d")
    case True
    then show ?thesis using ps(3) p' s' by (simp add: pair_ok_def)
  next
    case False
    then have "phase_terminal (r_phase q)" using assms(3) by simp
    then show ?thesis using ps(3) p' s' by (auto simp: pair_ok_def phase_terminal_def)
  qed
  then show ?thesis using assms(1) p' s' by (auto simp: row_ok_def)
qed

lemma apply_allocation_frame:
  "apply_allocation as db = Inr db' \<Longrightarrow>
    releases db' = releases db \<and> events db' = events db"
  by (induction as arbitrary: db) (auto split: option.splits)

section \<open>One action\<close>

text \<open>The actions that can succeed, with the phases they go between and what they decide.\<close>

definition decision :: "rel_db \<Rightarrow> release \<Rightarrow> action \<Rightarrow> action_result \<Rightarrow> bool" where
  "decision db rel a res \<longleftrightarrow>
     0 \<le> ar_secondary_weight res \<and> ar_secondary_weight res \<le> 100
     \<and> ar_primary_weight res + ar_secondary_weight res = 100
     \<and> (phase_terminal (r_phase rel) \<longrightarrow> \<not> phase_terminal (ar_phase res))
     \<and> (\<exists>s1 s2. ar_allocations res = [] \<and> r_strategy rel = Canary
            \<and> (r_phase rel = PhRunning \<or> r_phase rel = PhPaused) \<and> ar_phase res \<noteq> PhActive
            \<and> ar_primary_weight res = r_primary_weight rel
            \<and> ar_secondary_weight res = r_secondary_weight rel
          \<or> r_strategy rel = Canary \<and> ar_phase res \<noteq> PhActive
            \<and> ar_allocations res = [alloc (r_secondary rel) (ar_secondary_weight res) s1,
                                    alloc (r_primary rel) (ar_primary_weight res) s2]
          \<or> r_strategy rel = BlueGreen \<and> ar_phase res = PhActive
            \<and> ar_allocations res = [alloc (r_secondary rel) 100 ''active'',
                                    alloc (r_primary rel) 0 ''standby''])"

lemma strategy_action_decision:
  assumes "row_sound rel" and "strategy_action (r_strategy rel) db rel a arg = Inr res"
  shows "decision db rel a res"
proof (cases "r_strategy rel")
  case Canary
  then show ?thesis
    using assms
    by (cases a)
       (auto simp: strategy_action_def canary_action_def canary_start_def canary_pause_def
         canary_resume_def canary_set_weight_def canary_promote_def canary_rollback_def
         decision_def row_sound_def row_checks_def Let_def phase_terminal_def
         split: if_splits option.splits act_arg.splits)
next
  case BlueGreen
  then have "r_previous rel = None \<or> r_previous rel = Some (r_primary rel)"
    using assms(1) by (auto simp: row_sound_def)
  then show ?thesis
    using assms BlueGreen
    by (cases a)
       (auto simp: strategy_action_def bluegreen_action_def switch_active_def bluegreen_rollback_def
         decision_def row_sound_def Let_def phase_terminal_def
         split: if_splits option.splits act_arg.splits)
next
  case (OtherStrategy x)
  then show ?thesis using assms by (simp add: strategy_action_def)
qed

lemma act_on_Inr:
  assumes "act_on st rel a arg now db = Inr db'"
  shows "\<exists>res db1 row. strategy_action st db rel a arg = Inr res
    \<and> apply_allocation (ar_allocations res) db = Inr db1
    \<and> get_release db (r_id rel) = Some row \<and> r_phase row = r_phase rel
    \<and> (let r = state_row row rel res (previous_for rel a) now in
        \<not> active_conflict r (releases db) \<and> row_checks r
        \<and> versions db' = versions db1
        \<and> releases db' = map (\<lambda>q. if r_id q = r_id rel then r else q) (releases db))"
proof -
  obtain res where res: "strategy_action st db rel a arg = Inr res"
    using assms by (auto simp: act_on_def split: sum.splits)
  obtain db1 where db1: "apply_allocation (ar_allocations res) db = Inr db1"
    using assms res by (auto simp: act_on_def split: sum.splits)
  have g: "get_release db1 x = get_release db x" for x
    using apply_allocation_frame [OF db1] by (simp add: get_release_def)
  show ?thesis
    using assms res db1 apply_allocation_frame [OF db1]
    by (auto simp: act_on_def update_state_def set_release_def Let_def g split: sum.splits option.splits
        if_splits)
qed

lemma state_row_simps [simp]:
  "r_id (state_row row rel res pv now) = r_id row"
  "r_strategy (state_row row rel res pv now) = r_strategy row"
  "r_deployment (state_row row rel res pv now) = r_deployment row"
  "r_primary (state_row row rel res pv now) = r_primary row"
  "r_secondary (state_row row rel res pv now) = r_secondary row"
  "r_phase (state_row row rel res pv now) = ar_phase res"
  "r_primary_weight (state_row row rel res pv now) = ar_primary_weight res"
  "r_secondary_weight (state_row row rel res pv now) = ar_secondary_weight res"
  "r_config (state_row row rel res pv now) = r_config row"
  "r_previous (state_row row rel res pv now) = (if pv = None then r_previous row else pv)"
  by (auto simp: state_row_def Let_def)

lemma decision_sound:
  assumes "row_sound rel" and "decision db rel a res" and "row_checks (state_row rel rel res (previous_for rel a) now)"
  shows "row_sound (state_row rel rel res (previous_for rel a) now)"
  using assms by (auto simp: row_sound_def decision_def previous_for_def)

lemma rows_inv_update_row:
  assumes inv: "rows_inv db" and mem: "rel \<in> set (releases db)" and id: "r_id r = r_id rel"
    and dep: "r_deployment r = r_deployment rel" and ok: "row_sound r"
    and ac: "\<not> active_conflict r (releases db)"
    and rels: "releases db' = map (\<lambda>q. if r_id q = r_id rel then r else q) (releases db)"
  shows "rows_inv db'"
proof -
  have ids: "map r_id (releases db') = map r_id (releases db)" using id by (simp add: rels)
  have set': "q \<in> set (releases db') \<Longrightarrow> q = r \<or> q \<in> set (releases db) \<and> r_id q \<noteq> r_id rel" for q
    by (auto simp: rels)
  have old: "r_id x \<noteq> r_id y \<Longrightarrow> r_deployment x = r_deployment y \<Longrightarrow> phase_terminal (r_phase x) \<or> phase_terminal (r_phase y)"
    if "x \<in> set (releases db)" "y \<in> set (releases db)" for x y
    using inv that by (auto simp: rows_inv_def active_conflict_def)
  have new: "r_id q \<noteq> r_id r \<Longrightarrow> r_deployment q = r_deployment r \<Longrightarrow> phase_terminal (r_phase q) \<or> phase_terminal (r_phase r)"
    if "q \<in> set (releases db)" for q
    using ac that by (auto simp: active_conflict_def)
  have "\<not> active_conflict q (releases db')" if "q \<in> set (releases db')" for q
    using set' [OF that] set' old new id by (fastforce simp: active_conflict_def)
  then show ?thesis
    using inv ids set' ok by (auto simp: rows_inv_def)
qed

lemma act_on_rows:
  assumes inv: "rows_inv db" and g: "get_release db rid = Some rel"
    and ok: "act_on (r_strategy rel) rel a arg now db = Inr db'"
  shows "rows_inv db'"
proof -
  have mem: "rel \<in> set (releases db)" and rid: "r_id rel = rid" using get_release_mem [OF g] by auto
  let ?r = "\<lambda>res. state_row rel rel res (previous_for rel a) now"
  obtain res where res: "strategy_action (r_strategy rel) db rel a arg = Inr res"
    and ac: "\<not> active_conflict (?r res) (releases db)" and rc: "row_checks (?r res)"
    and rels: "releases db' = map (\<lambda>q. if r_id q = r_id rel then ?r res else q) (releases db)"
    using act_on_Inr [OF ok] g rid by (auto simp: Let_def)
  have row: "row_sound rel" using inv mem by (simp add: rows_inv_def)
  note snd = decision_sound [OF row strategy_action_decision [OF row res] rc]
  show ?thesis by (rule rows_inv_update_row [OF inv mem _ _ snd ac rels]) simp_all
qed

lemma act_rows [inv_intros]: "rows_inv db \<Longrightarrow> act rid a arg now db = Inr (r, db') \<Longrightarrow> rows_inv db'"
  by (auto simp: act_def split: option.splits sum.splits intro: act_on_rows)

text \<open>What an action does to the two versions and to its row.\<close>

lemma decision_effect:
  assumes ok: "row_ok (versions db) rel" and d: "decision db rel a res"
    and al: "apply_allocation (ar_allocations res) db = Inr db1"
  shows "row_ok (versions db1) (state_row rel rel res (previous_for rel a) now)"
    and "versions_frame (r_deployment rel) db db1"
proof -
  obtain p s where ps: "versions db (r_primary rel) = Some p" "versions db (r_secondary rel) = Some s"
    "pair_ok p s rel" and ne: "r_primary rel \<noteq> r_secondary rel"
    using ok by (auto simp: row_ok_def row_checks_def)
  have rc: "row_checks (state_row rel rel res (previous_for rel a) now)"
    using d ne by (auto simp: row_checks_def decision_def)
  have vs: "valid_strategy (r_strategy rel)" using ok by (simp add: row_ok_def)
  have sum: "ar_primary_weight res + ar_secondary_weight res = 100" using d by (simp add: decision_def)
  have "\<exists>p' s'. versions db1 (r_primary rel) = Some p' \<and> versions db1 (r_secondary rel) = Some s'
      \<and> pair_ok p' s' (state_row rel rel res (previous_for rel a) now)"
    using d al ps ne
    by (auto simp: decision_def alloc_def pair_ok_def previous_for_def split: option.splits if_splits)
  then show "row_ok (versions db1) (state_row rel rel res (previous_for rel a) now)"
    using rc vs sum by (simp add: row_ok_def)
  show "versions_frame (r_deployment rel) db db1"
    using d al ps
    by (auto simp: decision_def alloc_def versions_frame_def pair_ok_def split: option.splits if_splits)
qed

lemma rel_inv_update_row:
  assumes inv: "rel_inv db" and mem: "rel \<in> set (releases db)" and id: "r_id r = r_id rel"
    and dep: "r_deployment r = r_deployment rel" and ok: "row_ok vs r"
    and fr: "\<And>q. q \<in> set (releases db) \<Longrightarrow> r_id q \<noteq> r_id rel \<Longrightarrow> row_ok vs q"
    and ac: "\<not> active_conflict r (releases db)"
    and rels: "releases db' = map (\<lambda>q. if r_id q = r_id rel then r else q) (releases db)"
    and vsd: "versions db' = vs"
  shows "rel_inv db'"
proof -
  have ids: "map r_id (releases db') = map r_id (releases db)" using id by (simp add: rels)
  have set': "q \<in> set (releases db') \<Longrightarrow> q = r \<or> q \<in> set (releases db) \<and> r_id q \<noteq> r_id rel" for q
    by (auto simp: rels)
  have old: "r_id x \<noteq> r_id y \<Longrightarrow> r_deployment x = r_deployment y \<Longrightarrow> phase_terminal (r_phase x) \<or> phase_terminal (r_phase y)"
    if "x \<in> set (releases db)" "y \<in> set (releases db)" for x y
    using inv that by (auto simp: rel_inv_def active_conflict_def)
  have new: "r_id q \<noteq> r_id r \<Longrightarrow> r_deployment q = r_deployment r \<Longrightarrow> phase_terminal (r_phase q) \<or> phase_terminal (r_phase r)"
    if "q \<in> set (releases db)" for q
    using ac that by (auto simp: active_conflict_def)
  have "\<not> active_conflict q (releases db')" if "q \<in> set (releases db')" for q
    using set' [OF that] set' old new id by (fastforce simp: active_conflict_def)
  then show ?thesis
    using inv ids set' ok fr by (auto simp: rel_inv_def vsd)
qed

lemma act_on_inv:
  assumes inv: "rel_inv db" and g: "get_release db rid = Some rel"
    and ok: "act_on (r_strategy rel) rel a arg now db = Inr db'"
  shows "rel_inv db'"
proof -
  have mem: "rel \<in> set (releases db)" and rid: "r_id rel = rid" using get_release_mem [OF g] by auto
  obtain res db1 where
    res: "strategy_action (r_strategy rel) db rel a arg = Inr res"
    and al: "apply_allocation (ar_allocations res) db = Inr db1"
    and ac: "\<not> active_conflict (state_row rel rel res (previous_for rel a) now) (releases db)"
    and vs: "versions db' = versions db1"
    and rels: "releases db' = map (\<lambda>q. if r_id q = r_id rel
        then state_row rel rel res (previous_for rel a) now else q) (releases db)"
    using act_on_Inr [OF ok] g rid by (auto simp: Let_def)
  let ?r = "state_row rel rel res (previous_for rel a) now"
  have row: "row_ok (versions db) rel" using inv mem by (simp add: rel_inv_def)
  note dec = strategy_action_decision [OF row_ok_sound [OF row] res]
  note eff = decision_effect [OF row dec al]
  have "row_ok (versions db1) q" if q: "q \<in> set (releases db)" "r_id q \<noteq> r_id rel" for q
  proof (rule row_ok_frame [OF _ eff(2)])
    show "row_ok (versions db) q" using inv q by (simp add: rel_inv_def)
    have "\<not> phase_terminal (r_phase rel) \<or> \<not> phase_terminal (r_phase ?r)"
      using dec by (auto simp: decision_def)
    then show "r_deployment q \<noteq> r_deployment rel \<or> phase_terminal (r_phase q)"
      using inv ac q mem by (auto simp: rel_inv_def active_conflict_def)
  qed
  then show ?thesis
    using rel_inv_update_row [OF inv mem _ _ eff(1) _ ac rels vs] by simp
qed

lemma act_inv [inv_intros]: "rel_inv db \<Longrightarrow> act rid a arg now db = Inr (r, db') \<Longrightarrow> rel_inv db'"
  by (auto simp: act_def split: option.splits sum.splits intro: act_on_inv)

lemma row_ok_cong:
  "row_ok vs q \<Longrightarrow> r_strategy q' = r_strategy q \<Longrightarrow> r_deployment q' = r_deployment q \<Longrightarrow>
   r_phase q' = r_phase q \<Longrightarrow> r_primary q' = r_primary q \<Longrightarrow> r_secondary q' = r_secondary q \<Longrightarrow>
   r_primary_weight q' = r_primary_weight q \<Longrightarrow> r_secondary_weight q' = r_secondary_weight q \<Longrightarrow>
   r_previous q' = r_previous q \<Longrightarrow> row_ok vs q'"
  by (simp add: row_ok_def row_checks_def pair_ok_def)

lemma update_release_Inr:
  assumes "update_release rid inp now db = Inr (r, db')"
  shows "\<exists>rel. get_release db rid = Some rel \<and> r_id rel = rid \<and> rel \<in> set (releases db) \<and> r_id r = r_id rel
    \<and> r_strategy r = r_strategy rel \<and> r_deployment r = r_deployment rel
    \<and> r_phase r = r_phase rel \<and> r_primary r = r_primary rel \<and> r_secondary r = r_secondary rel
    \<and> r_primary_weight r = r_primary_weight rel \<and> r_secondary_weight r = r_secondary_weight rel
    \<and> r_previous r = r_previous rel \<and> db' = set_release rid (\<lambda>_. r) db"
proof -
  obtain rel where g: "get_release db rid = Some rel"
    using assms by (auto simp: update_release_def split: option.splits)
  then show ?thesis using assms get_release_mem [OF g]
    by (auto simp: update_release_def Let_def split: option.splits prod.splits if_splits)
qed

lemma update_release_rows [inv_intros]:
  assumes inv: "rows_inv db" and u: "update_release rid inp now db = Inr (r, db')"
  shows "rows_inv db'"
proof -
  obtain rel where rel: "r_id rel = rid" "rel \<in> set (releases db)" "r_id r = r_id rel"
    "r_strategy r = r_strategy rel" "r_deployment r = r_deployment rel"
    "r_phase r = r_phase rel" "r_primary r = r_primary rel" "r_secondary r = r_secondary rel"
    "r_primary_weight r = r_primary_weight rel" "r_secondary_weight r = r_secondary_weight rel"
    "r_previous r = r_previous rel" and db': "db' = set_release rid (\<lambda>_. r) db"
    using update_release_Inr [OF u] by blast
  have "row_sound r" and "\<not> active_conflict r (releases db)"
    using inv rel by (auto simp: rows_inv_def row_sound_def row_checks_def active_conflict_def)
  then show ?thesis
    using rows_inv_update_row [OF inv rel(2,3,5), of db'] rel(1) by (simp add: db' set_release_def)
qed

lemma delete_release_rows [inv_intros]:
  assumes "rows_inv db" and "delete_release rid db = Inr db'"
  shows "rows_inv db'"
proof -
  have "releases db' = filter (\<lambda>r. r_id r \<noteq> rid) (releases db)"
    using assms(2) by (auto simp: delete_release_def delete_release_row_def split: option.splits if_splits)
  then show ?thesis
    using assms(1) by (auto simp: rows_inv_def active_conflict_def distinct_map_filter)
qed

lemma update_release_inv [inv_intros]:
  assumes inv: "rel_inv db" and u: "update_release rid inp now db = Inr (r, db')"
  shows "rel_inv db'"
proof -
  obtain rel where mem: "rel \<in> set (releases db)" and rid: "r_id rel = rid"
    and r: "r_id r = r_id rel" "r_strategy r = r_strategy rel" "r_deployment r = r_deployment rel"
    "r_phase r = r_phase rel" "r_primary r = r_primary rel" "r_secondary r = r_secondary rel"
    "r_primary_weight r = r_primary_weight rel" "r_secondary_weight r = r_secondary_weight rel"
    "r_previous r = r_previous rel"
    and db': "db' = set_release rid (\<lambda>_. r) db"
    using update_release_Inr [OF u] by blast
  have ok: "row_ok (versions db) rel" and ac: "\<not> active_conflict rel (releases db)"
    using inv mem by (auto simp: rel_inv_def)
  have "row_ok (versions db) r" using ok by (rule row_ok_cong) (rule r)+
  moreover have "\<not> active_conflict r (releases db)" using ac r by (simp add: active_conflict_def)
  ultimately show ?thesis
    using inv r rid
    by (intro rel_inv_update_row [OF inv mem r(1) r(3)]) (auto simp: db' set_release_def rel_inv_def)
qed

lemma delete_release_inv [inv_intros]:
  assumes "rel_inv db" and "delete_release rid db = Inr db'"
  shows "rel_inv db'"
proof -
  have "releases db' = filter (\<lambda>r. r_id r \<noteq> rid) (releases db)" "versions db' = versions db"
    using assms(2) by (auto simp: delete_release_def delete_release_row_def split: option.splits if_splits)
  then show ?thesis
    using assms(1) by (auto simp: rel_inv_def active_conflict_def distinct_map_filter)
qed

lemma plan_shape:
  assumes "strategy_create db inp = Inr plan"
  shows "\<exists>p s. versions db (cp_primary plan) = Some p \<and> versions db (cp_secondary plan) = Some s
    \<and> v_deployment p = cp_deployment plan \<and> v_deployment s = cp_deployment plan
    \<and> cp_primary_weight plan = 100 \<and> cp_secondary_weight plan = 0
    \<and> (cp_strategy plan = Canary \<and> cp_allocations plan = [] \<and> cp_phase plan = PhCreated
       \<or> cp_strategy plan = BlueGreen \<and> cp_phase plan = PhActive \<and> cp_previous plan = None
        \<and> cp_allocations plan =
            [alloc (cp_primary plan) 100 ''active'', alloc (cp_secondary plan) 0 ''standby''])"
proof (cases "nr_strategy inp")
  case Canary
  then show ?thesis using assms
    by (auto simp: strategy_create_def canary_validate_create_def split: if_splits option.splits)
next
  case BlueGreen
  then show ?thesis using assms
    by (auto simp: strategy_create_def bluegreen_validate_create_def Let_def
        split: if_splits option.splits)
qed (use assms in \<open>simp add: strategy_create_def\<close>)

lemma create_release_rows [inv_intros]:
  assumes inv: "rows_inv db" and c: "create_release uid now inp db = Inr (r, db')"
  shows "rows_inv db'"
proof -
  obtain plan db1 where plan: "strategy_create db inp = Inr plan"
    and tx: "create_tx uid now plan db = Inr (r, db1)"
    and al: "apply_allocation (cp_allocations plan) db1 = Inr db'"
    using c by (auto simp: create_release_def split: if_splits sum.splits)
  have rels: "releases db' = releases db @ [r]" and fresh: "uid \<notin> r_id ` set (releases db)"
    and ac: "\<not> active_conflict r (releases db)" and id: "r_id r = uid" and snd: "row_sound r"
    using tx apply_allocation_frame [OF al] plan_shape [OF plan]
    by (auto simp: create_tx_def Let_def row_sound_def valid_strategy_def split: if_splits)
  then show ?thesis using inv by (auto simp: rows_inv_def active_conflict_def)
qed

lemma create_release_inv [inv_intros]:
  assumes inv: "rel_inv db" and c: "create_release uid now inp db = Inr (r, db')"
  shows "rel_inv db'"
proof -
  obtain plan db1 where plan: "strategy_create db inp = Inr plan"
    and tx: "create_tx uid now plan db = Inr (r, db1)"
    and al: "apply_allocation (cp_allocations plan) db1 = Inr db'"
    using c by (auto simp: create_release_def split: if_splits sum.splits)
  have ndb: "releases db1 = releases db @ [r]" "versions db1 = versions db"
    and r: "r_id r = uid" "r_strategy r = cp_strategy plan" "r_deployment r = cp_deployment plan"
      "r_phase r = cp_phase plan" "r_primary r = cp_primary plan" "r_secondary r = cp_secondary plan"
      "r_primary_weight r = cp_primary_weight plan" "r_secondary_weight r = cp_secondary_weight plan"
      "r_previous r = cp_previous plan"
    and fresh: "uid \<notin> r_id ` set (releases db)" and ac: "\<not> active_conflict r (releases db)"
    and rc: "row_checks r"
    using tx by (auto simp: create_tx_def Let_def split: if_splits)
  note fr = apply_allocation_frame [OF al]
  obtain p s where ps: "versions db (r_primary r) = Some p" "versions db (r_secondary r) = Some s"
    "v_deployment p = r_deployment r" "v_deployment s = r_deployment r"
    and shape: "cp_strategy plan = Canary \<and> cp_allocations plan = [] \<and> cp_phase plan = PhCreated
      \<or> cp_strategy plan = BlueGreen \<and> cp_phase plan = PhActive \<and> cp_previous plan = None
        \<and> cp_allocations plan = [alloc (r_primary r) 100 ''active'', alloc (r_secondary r) 0 ''standby'']"
    and w: "cp_primary_weight plan = 100" "cp_secondary_weight plan = 0"
    using plan_shape [OF plan] unfolding r by blast
  have nt: "\<not> phase_terminal (r_phase r)" using shape r by (auto simp: phase_terminal_def)
  have ne: "r_primary r \<noteq> r_secondary r" using rc by (simp add: row_checks_def)
  have vfr: "versions_frame (r_deployment r) db db'"
    using al shape ps ndb(2)
    by (auto simp: alloc_def versions_frame_def split: option.splits if_splits)
  have new: "row_ok (versions db') r"
    using al shape ps ndb(2) rc ne w
    by (auto simp: row_ok_def pair_ok_def valid_strategy_def r alloc_def split: option.splits if_splits)
  have "row_ok (versions db') q" if q: "q \<in> set (releases db)" for q
  proof (rule row_ok_frame [OF _ vfr])
    show "row_ok (versions db) q" using inv q by (simp add: rel_inv_def)
    show "r_deployment q \<noteq> r_deployment r \<or> phase_terminal (r_phase q)"
    proof (cases "r_id q = uid")
      case True
      then show ?thesis using q fresh by auto
    next
      case False
      then show ?thesis using ac q nt r(1) by (auto simp: active_conflict_def)
    qed
  qed
  then show ?thesis
    using inv new ac nt fresh r(1) by (auto simp: rel_inv_def active_conflict_def ndb fr)
qed

lemma evaluate_release_rows: "rows_inv db \<Longrightarrow> rows_inv (evaluate_release cfg metric now rel db)"
  by (auto simp: evaluate_release_def commit_or_keep_def Let_def
      split: option.splits sum.splits prod.splits intro: act_rows)

lemma evaluate_once_rows [inv_intros]: "rows_inv db \<Longrightarrow> rows_inv (evaluate_once cfg metric now db)"
proof -
  have "rows_inv s \<Longrightarrow> rows_inv (fold (evaluate_release cfg metric now) rs s)" for rs s
    by (induction rs arbitrary: s) (simp_all add: evaluate_release_rows)
  then show "rows_inv db \<Longrightarrow> ?thesis" by (simp add: evaluate_once_def)
qed

lemma evaluate_release_inv: "rel_inv db \<Longrightarrow> rel_inv (evaluate_release cfg metric now rel db)"
  by (auto simp: evaluate_release_def commit_or_keep_def Let_def
      split: option.splits sum.splits prod.splits intro: act_inv)

lemma evaluate_once_inv [inv_intros]: "rel_inv db \<Longrightarrow> rel_inv (evaluate_once cfg metric now db)"
proof -
  have "rel_inv s \<Longrightarrow> rel_inv (fold (evaluate_release cfg metric now) rs s)" for rs s
    by (induction rs arbitrary: s) (simp_all add: evaluate_release_inv)
  then show "rel_inv db \<Longrightarrow> ?thesis" by (simp add: evaluate_once_def)
qed

text \<open>Everything that changes the tables: a request of the administration, on releases, versions or
deployments, or a round of the automatic canary.\<close>

datatype rel_event =
    EvCreateRelease uuid go_time new_release
  | EvUpdateRelease uuid update_input go_time
  | EvDeleteRelease uuid
  | EvAct uuid action act_arg go_time
  | EvAuto auto_config "uuid \<Rightarrow> version_stat option" go_time
  | EvCreateVersion uuid bool uuid int string
  | EvUpdateVersion uuid "int option" "string option"
  | EvDefaultVersion uuid uuid
  | EvDeleteVersion uuid
  | EvDeleteDeployment uuid

definition ok_or_same :: "(rel_error + rel_db) \<Rightarrow> rel_db \<Rightarrow> rel_db" where
  "ok_or_same x db = (case x of Inl _ \<Rightarrow> db | Inr db' \<Rightarrow> db')"

fun rel_step :: "rel_db \<Rightarrow> rel_event \<Rightarrow> rel_db" where
  "rel_step db (EvCreateRelease uid now inp) = commit_or_keep (create_release uid now inp db) db"
| "rel_step db (EvUpdateRelease rid inp now) = commit_or_keep (update_release rid inp now db) db"
| "rel_step db (EvDeleteRelease rid) = ok_or_same (delete_release rid db) db"
| "rel_step db (EvAct rid a arg now) = commit_or_keep (act rid a arg now db) db"
| "rel_step db (EvAuto cfg metric now) = evaluate_once cfg metric now db"
| "rel_step db (EvCreateVersion u accepted d w st) = ok_or_same (create_version u accepted d w st db) db"
| "rel_step db (EvUpdateVersion u w st) = ok_or_same (update_version u w st db) db"
| "rel_step db (EvDefaultVersion d u) = ok_or_same (set_default_version d u db) db"
| "rel_step db (EvDeleteVersion u) = ok_or_same (delete_version u db) db"
| "rel_step db (EvDeleteDeployment d) = delete_deployment d db"

lemma version_writes_rows:
  "create_version u acc d w st db = Inr db' \<Longrightarrow> releases db' = releases db"
  "update_version u w' st' db = Inr db' \<Longrightarrow> releases db' = releases db"
  "set_default_version d u db = Inr db' \<Longrightarrow> releases db' = releases db"
  "delete_version u db = Inr db' \<Longrightarrow> releases db' = releases db"
  by (auto simp: create_version_def update_version_def set_default_version_def delete_version_def Let_def
      split: if_splits option.splits)

lemma delete_deployment_rows: "rows_inv db \<Longrightarrow> rows_inv (delete_deployment d db)"
  by (auto simp: rows_inv_def delete_deployment_def active_conflict_def distinct_map_filter)

interpretation rels: machine rel_step rows_inv
proof
  show "rows_inv (rel_step s e)" if "rows_inv s" for s e
    using that
    by (cases e) (auto simp: commit_or_keep_def ok_or_same_def delete_deployment_rows split: sum.splits
        intro: inv_intros rows_inv_cong version_writes_rows)
qed

text \<open>
  Requests on versions that leave the releases alone: no weight or status is written to a version of an
  unfinished release, no default version is chosen in a deployment with a blue-green release, and no
  version of a release is deleted. The code does not check any of this.
\<close>

fun undisturbing :: "rel_db \<Rightarrow> rel_event \<Rightarrow> bool" where
  "undisturbing db (EvUpdateVersion u w st) \<longleftrightarrow> w = None \<and> st = None \<or>
     (\<forall>r \<in> set (releases db). phase_terminal (r_phase r) \<or> u \<noteq> r_primary r \<and> u \<noteq> r_secondary r)"
| "undisturbing db (EvDefaultVersion d u) \<longleftrightarrow>
     (\<forall>r \<in> set (releases db). r_strategy r = BlueGreen \<longrightarrow> r_deployment r \<noteq> d)"
| "undisturbing db (EvDeleteVersion u) \<longleftrightarrow>
     (\<forall>r \<in> set (releases db). u \<noteq> r_primary r \<and> u \<noteq> r_secondary r)"
| "undisturbing db _ \<longleftrightarrow> True"

fun undisturbed_run :: "rel_db \<Rightarrow> rel_event list \<Rightarrow> bool" where
  "undisturbed_run db [] \<longleftrightarrow> True"
| "undisturbed_run db (e # es) \<longleftrightarrow> undisturbing db e \<and> undisturbed_run (rel_step db e) es"

lemma rel_inv_versions:
  assumes "rel_inv db" and "releases db' = releases db"
    and "\<And>r p s. r \<in> set (releases db) \<Longrightarrow> versions db (r_primary r) = Some p \<Longrightarrow>
      versions db (r_secondary r) = Some s \<Longrightarrow> row_sound r \<Longrightarrow> pair_ok p s r \<Longrightarrow>
      \<exists>p' s'. versions db' (r_primary r) = Some p' \<and> versions db' (r_secondary r) = Some s' \<and> pair_ok p' s' r"
  shows "rel_inv db'"
proof -
  have "row_ok (versions db') r" if r: "r \<in> set (releases db)" for r
  proof -
    have ok: "row_ok (versions db) r" using assms(1) r by (simp add: rel_inv_def)
    then show ?thesis using assms(3) [OF r] row_ok_sound [OF ok] by (auto simp: row_ok_def)
  qed
  then show ?thesis using assms(1,2) by (simp add: rel_inv_def)
qed

lemma update_version_inv:
  assumes inv: "rel_inv db" and u: "update_version u w st db = Inr db'"
    and ok: "undisturbing db (EvUpdateVersion u w st)"
  shows "rel_inv db'"
proof (rule rel_inv_versions [OF inv])
  show "releases db' = releases db" using u by (rule version_writes_rows)
  obtain v where v: "versions db u = Some v" using u by (auto simp: update_version_def split: option.splits)
  fix r p s assume r: "r \<in> set (releases db)" "versions db (r_primary r) = Some p"
    "versions db (r_secondary r) = Some s" "row_sound r" "pair_ok p s r"
  show "\<exists>p' s'. versions db' (r_primary r) = Some p' \<and> versions db' (r_secondary r) = Some s' \<and> pair_ok p' s' r"
  proof (cases "w = None \<and> st = None \<or> u \<noteq> r_primary r \<and> u \<noteq> r_secondary r")
    case True
    then show ?thesis using u v r by (auto simp: update_version_def Let_def)
  next
    case False
    then have t: "phase_terminal (r_phase r)" using ok r(1) by auto
    have ne: "r_primary r \<noteq> r_secondary r" using r(4) by (simp add: row_sound_def row_checks_def)
    have c: "r_strategy r \<noteq> BlueGreen" using t r(5) by (auto simp: pair_ok_def phase_terminal_def)
    show ?thesis using u v r(2,3,5) t c ne
      by (cases "u = r_primary r"; cases "u = r_secondary r")
         (auto simp: update_version_def Let_def pair_ok_def phase_terminal_def split: option.splits)
  qed
qed

lemma set_default_version_inv:
  assumes inv: "rel_inv db" and u: "set_default_version d u db = Inr db'"
    and ok: "undisturbing db (EvDefaultVersion d u)"
  shows "rel_inv db'"
proof (rule rel_inv_versions [OF inv])
  show "releases db' = releases db" using u by (rule version_writes_rows)
  fix r p s assume r: "r \<in> set (releases db)" "versions db (r_primary r) = Some p"
    "versions db (r_secondary r) = Some s" "row_sound r" "pair_ok p s r"
  obtain v where v: "versions db u = Some v" "v_deployment v = d"
    and db': "versions db' = (\<lambda>x. if x = u then Some (v\<lparr>v_status := ''stable''\<rparr>)
           else map_option (\<lambda>y. if v_deployment y = d
               \<and> v_status y \<in> set [''stable'', ''canary'', ''active'', ''standby'', ''draining'']
             then y\<lparr>v_status := ''standby''\<rparr> else y) (versions db x))"
    using u by (auto simp: set_default_version_def split: if_splits option.splits)
  have bg: "r_strategy r = BlueGreen \<Longrightarrow> r_deployment r \<noteq> d" using ok r(1) by simp
  have keep: "\<exists>x'. versions db' i = Some x' \<and> v_deployment x' = v_deployment x \<and> v_weight x' = v_weight x
      \<and> (v_deployment x \<noteq> d \<longrightarrow> x' = x)" if "versions db i = Some x" for i x
  proof (cases "i = u")
    case True
    then show ?thesis using that v by (simp add: db')
  next
    case False
    define y where "y = (if v_deployment x = d
        \<and> v_status x \<in> set [''stable'', ''canary'', ''active'', ''standby'', ''draining'']
      then x\<lparr>v_status := ''standby''\<rparr> else x)"
    have "versions db' i = Some y" using False that by (simp only: db' y_def if_False option.map)
    moreover have "v_deployment y = v_deployment x \<and> v_weight y = v_weight x \<and> (v_deployment x \<noteq> d \<longrightarrow> y = x)"
      unfolding y_def by (simp del: list.set)
    ultimately show ?thesis by blast
  qed
  show "\<exists>p' s'. versions db' (r_primary r) = Some p' \<and> versions db' (r_secondary r) = Some s' \<and> pair_ok p' s' r"
  proof -
    obtain p' where p': "versions db' (r_primary r) = Some p'" "v_deployment p' = v_deployment p"
      "v_weight p' = v_weight p" "v_deployment p \<noteq> d \<longrightarrow> p' = p" using keep [OF r(2)] by blast
    obtain s' where s': "versions db' (r_secondary r) = Some s'" "v_deployment s' = v_deployment s"
      "v_weight s' = v_weight s" "v_deployment s \<noteq> d \<longrightarrow> s' = s" using keep [OF r(3)] by blast
    have "pair_ok p' s' r"
    proof (cases "r_strategy r = BlueGreen")
      case True
      then have "v_deployment p \<noteq> d" "v_deployment s \<noteq> d" using bg r(5) by (simp_all add: pair_ok_def)
      then show ?thesis using p'(4) s'(4) r(5) by simp
    next
      case False
      then show ?thesis using p'(2,3) s'(2,3) r(5) by (simp add: pair_ok_def)
    qed
    then show ?thesis using p'(1) s'(1) by blast
  qed
qed

lemma delete_version_inv:
  assumes inv: "rel_inv db" and u: "delete_version u db = Inr db'"
    and ok: "undisturbing db (EvDeleteVersion u)"
  shows "rel_inv db'"
  by (rule rel_inv_versions [OF inv]) (use u ok in \<open>auto simp: delete_version_def split: if_splits\<close>)

lemma create_version_inv:
  assumes inv: "rel_inv db" and u: "create_version u acc d w st db = Inr db'"
  shows "rel_inv db'"
  by (rule rel_inv_versions [OF inv]) (use u in \<open>auto simp: create_version_def split: if_splits\<close>)

lemma delete_deployment_inv:
  assumes inv: "rel_inv db"
  shows "rel_inv (delete_deployment d db)"
proof -
  have "row_ok (versions (delete_deployment d db)) r"
    if "r \<in> set (releases db)" "r_deployment r \<noteq> d" for r
    using inv that by (fastforce simp: rel_inv_def row_ok_def pair_ok_def delete_deployment_def)
  then show ?thesis using inv
    by (auto simp: rel_inv_def delete_deployment_def active_conflict_def distinct_map_filter)
qed

lemma rel_inv_step: "rel_inv db \<Longrightarrow> undisturbing db e \<Longrightarrow> rel_inv (rel_step db e)"
  by (cases e)
     (auto simp: commit_or_keep_def ok_or_same_def delete_deployment_inv split: sum.splits
       intro: inv_intros update_version_inv set_default_version_inv delete_version_inv create_version_inv)

section \<open>Properties\<close>

lemma run_rows: "releases db0 = [] \<Longrightarrow> rows_inv (foldl rel_step db0 es)"
  by (rule rels.mrun_inv) (rule rows_inv_empty)

lemma run_inv: "releases db0 = [] \<Longrightarrow> undisturbed_run db0 es \<Longrightarrow> rel_inv (foldl rel_step db0 es)"
proof -
  have "rel_inv db \<Longrightarrow> undisturbed_run db es \<Longrightarrow> rel_inv (foldl rel_step db es)" for db
    by (induction es arbitrary: db) (simp_all add: rel_inv_step)
  then show "releases db0 = [] \<Longrightarrow> undisturbed_run db0 es \<Longrightarrow> ?thesis" by (simp add: rel_inv_empty)
qed

text \<open>Two versions of one deployment and a canary and a blue-green release request over them, for the
concrete runs.\<close>

definition sample_db :: rel_db where
  "sample_db = \<lparr>versions = (\<lambda>u. if u = ''v1'' then Some \<lparr>v_deployment = ''d'', v_weight = 100, v_status = ''stable''\<rparr>
       else if u = ''v2'' then Some \<lparr>v_deployment = ''d'', v_weight = 0, v_status = ''standby''\<rparr> else None),
     releases = [], events = []\<rparr>"

definition sample_canary :: new_release where
  "sample_canary = \<lparr>nr_strategy = Canary, nr_service = None, nr_name = ''c'', nr_deployment = uuid_nil,
     nr_primary = ''v1'', nr_secondary = ''v2'', nr_initial = 0, nr_target = 50, nr_step = 20,
     nr_blue = uuid_nil, nr_green = uuid_nil\<rparr>"

definition sample_bluegreen :: new_release where
  "sample_bluegreen = \<lparr>nr_strategy = BlueGreen, nr_service = None, nr_name = ''b'', nr_deployment = ''d'',
     nr_primary = uuid_nil, nr_secondary = uuid_nil, nr_initial = 0, nr_target = 0, nr_step = 0,
     nr_blue = ''v1'', nr_green = ''v2''\<rparr>"

text \<open>Property C4. After any sequence of requests on releases, versions and deployments and of automatic
rounds: no deployment has two unfinished releases, and the weights recorded on a release are between 0
and 100 and add up to 100. If no request wrote a weight or a status to a version of an unfinished
release, chose a default version in a deployment with a blue-green release, or deleted a version of a
release, then also: while a canary runs or is paused, its two versions carry exactly the recorded
weights; and of the two versions of a blue-green release exactly one is active with all the traffic, the
other standby with none. (\<open>a_version_edit_breaks_the_split\<close>: the code does not refuse such requests.)\<close>

theorem releases_split_their_traffic:
  assumes "releases db0 = []" and db: "db = foldl rel_step db0 es" and r: "r \<in> set (releases db)"
  shows "r_primary_weight r + r_secondary_weight r = 100
    \<and> 0 \<le> r_secondary_weight r \<and> r_secondary_weight r \<le> 100
    \<and> (\<forall>q \<in> set (releases db). r_deployment q = r_deployment r \<longrightarrow> \<not> phase_terminal (r_phase q)
          \<longrightarrow> \<not> phase_terminal (r_phase r) \<longrightarrow> q = r)
    \<and> (undisturbed_run db0 es \<longrightarrow>
        (\<exists>p s. versions db (r_primary r) = Some p \<and> versions db (r_secondary r) = Some s
        \<and> v_deployment p = r_deployment r \<and> v_deployment s = r_deployment r
        \<and> (r_strategy r = Canary \<longrightarrow> r_phase r = PhRunning \<or> r_phase r = PhPaused \<longrightarrow>
             v_weight p = r_primary_weight r \<and> v_weight s = r_secondary_weight r)
        \<and> (r_strategy r = BlueGreen \<longrightarrow>
             (v_status p = ''active'' \<and> v_weight p = 100 \<and> v_status s = ''standby'' \<and> v_weight s = 0
              \<or> v_status p = ''standby'' \<and> v_weight p = 0 \<and> v_status s = ''active'' \<and> v_weight s = 100))))"
proof -
  have inv: "rows_inv db" using run_rows [OF assms(1)] by (simp add: db)
  then have ok: "row_sound r" using r by (simp add: rows_inv_def)
  have "q = r" if q: "q \<in> set (releases db)" "r_deployment q = r_deployment r"
      "\<not> phase_terminal (r_phase q)" "\<not> phase_terminal (r_phase r)" for q
  proof -
    have "r_id q = r_id r" using inv q r by (auto simp: rows_inv_def active_conflict_def)
    then show ?thesis using inv q(1) r by (auto simp: rows_inv_def distinct_map inj_on_def)
  qed
  moreover have "row_ok (versions db) r" if "undisturbed_run db0 es"
    using run_inv [OF assms(1) that] r by (simp add: db rel_inv_def)
  ultimately show ?thesis using ok by (auto simp: row_sound_def row_checks_def row_ok_def pair_ok_def)
qed

lemma releases_split_their_traffic_witness:
  "\<exists>r p. releases (foldl rel_step sample_db [EvCreateRelease ''r'' 1 sample_canary,
        EvAct ''r'' ActStart NoArg 2, EvCreateVersion ''v3'' True ''d'' 0 [], EvUpdateVersion ''v3'' (Some 7) None,
        EvAct ''r'' ActWeight (IntArg 35) 3]) = [r]
     \<and> r_primary_weight r + r_secondary_weight r = 100 \<and> r_secondary_weight r = 35
     \<and> versions (foldl rel_step sample_db [EvCreateRelease ''r'' 1 sample_canary,
        EvAct ''r'' ActStart NoArg 2, EvCreateVersion ''v3'' True ''d'' 0 [], EvUpdateVersion ''v3'' (Some 7) None,
        EvAct ''r'' ActWeight (IntArg 35) 3]) (r_primary r) = Some p"
proof -
  let ?es = "[EvCreateRelease ''r'' 1 sample_canary,
        EvAct ''r'' ActStart NoArg 2, EvCreateVersion ''v3'' True ''d'' 0 [], EvUpdateVersion ''v3'' (Some 7) None,
        EvAct ''r'' ActWeight (IntArg 35) 3]"
  let ?r = "hd (releases (foldl rel_step sample_db ?es))"
  have a: "releases sample_db = []" by (simp add: sample_db_def)
  have l: "length (releases (foldl rel_step sample_db ?es)) = 1" by code_simp
  then have rs: "releases (foldl rel_step sample_db ?es) = [?r]"
    by (metis One_nat_def length_0_conv length_Suc_conv list.sel(1))
  then have b: "?r \<in> set (releases (foldl rel_step sample_db ?es))" by (metis list.set_intros(1))
  have c: "r_secondary_weight ?r = 35" by code_simp
  have u: "undisturbed_run sample_db ?es" by code_simp
  from releases_split_their_traffic [OF a refl b] rs c u show ?thesis by blast
qed

text \<open>Without the proviso: changing the weight of the canary's version directly leaves the release with
weights its versions do not carry.\<close>

lemma a_version_edit_breaks_the_split:
  "\<exists>r p s. releases (foldl rel_step sample_db [EvCreateRelease ''r'' 1 sample_canary,
        EvAct ''r'' ActStart NoArg 2, EvAct ''r'' ActWeight (IntArg 35) 3, EvUpdateVersion ''v2'' (Some 90) None]) = [r]
     \<and> r_phase r = PhRunning \<and> r_secondary_weight r = 35
     \<and> map_option v_weight (versions (foldl rel_step sample_db [EvCreateRelease ''r'' 1 sample_canary,
        EvAct ''r'' ActStart NoArg 2, EvAct ''r'' ActWeight (IntArg 35) 3, EvUpdateVersion ''v2'' (Some 90) None])
          (r_secondary r)) = Some 90"
proof -
  let ?db = "foldl rel_step sample_db [EvCreateRelease ''r'' 1 sample_canary,
        EvAct ''r'' ActStart NoArg 2, EvAct ''r'' ActWeight (IntArg 35) 3, EvUpdateVersion ''v2'' (Some 90) None]"
  let ?r = "hd (releases ?db)"
  have "length (releases ?db) = 1" by code_simp
  then have rs: "releases ?db = [?r]" by (metis One_nat_def length_0_conv length_Suc_conv list.sel(1))
  have "r_phase ?r = PhRunning" "r_secondary_weight ?r = 35" "map_option v_weight (versions ?db (r_secondary ?r)) = Some 90"
    by code_simp+
  with rs show ?thesis by blast
qed

text \<open>A blue-green release can never be rolled back: whatever happened to it before,
\<open>rollback\<close> is refused, although it exists to switch back to the previous active version. After a
switch to the other version the release still records the old one as active, so switching back to it
is refused too, as ''already active''.\<close>

theorem bluegreen_rollback_never_succeeds:
  assumes "releases db0 = []" and db: "db = foldl rel_step db0 es"
    and g: "get_release db rid = Some r" and bg: "r_strategy r = BlueGreen"
  shows "(\<exists>e. act rid ActRollback arg now db = Inl e)
    \<and> (\<forall>tgt r' db'. act rid ActSwitch (UuidArg tgt) now db = Inr (r', db') \<longrightarrow>
        tgt = r_secondary r \<and> r_primary r' = r_primary r
        \<and> map_option v_status (versions db' (r_secondary r)) = Some ''active''
        \<and> map_option v_status (versions db' (r_primary r)) = Some ''standby''
        \<and> act rid ActRollback arg now db' = Inl AlreadyPrevious
        \<and> (r_primary r \<noteq> uuid_nil \<longrightarrow>
            act rid ActSwitch (UuidArg (r_primary r)) now db' = Inl TargetAlreadyActive))"
proof -
  have inv: "rows_inv db" using run_rows [OF assms(1)] by (simp add: db)
  have mem: "r \<in> set (releases db)" and rid: "r_id r = rid" using get_release_mem [OF g] by auto
  have ok: "row_sound r" using inv mem by (simp add: rows_inv_def)
  then have prev: "r_previous r = None \<or> r_previous r = Some (r_primary r)"
    and ne: "r_primary r \<noteq> r_secondary r"
    using bg by (auto simp: row_sound_def row_checks_def)
  have refuse: "\<exists>e. act rid ActRollback arg now db = Inl e"
    using g bg prev
    by (auto simp: act_def act_on_def strategy_action_def bluegreen_action_def bluegreen_rollback_def)
  have sw: "tgt = r_secondary r \<and> r_primary r' = r_primary r
        \<and> map_option v_status (versions db' (r_secondary r)) = Some ''active''
        \<and> map_option v_status (versions db' (r_primary r)) = Some ''standby''
        \<and> act rid ActRollback arg now db' = Inl AlreadyPrevious
        \<and> (r_primary r \<noteq> uuid_nil \<longrightarrow>
            act rid ActSwitch (UuidArg (r_primary r)) now db' = Inl TargetAlreadyActive)"
    if s: "act rid ActSwitch (UuidArg tgt) now db = Inr (r', db')" for tgt r' db'
  proof -
    have o: "act_on BlueGreen r ActSwitch (UuidArg tgt) now db = Inr db'"
      and g': "get_release db' rid = Some r'"
      using s g bg by (auto simp: act_def split: sum.splits option.splits)
    obtain res db1 where res: "strategy_action BlueGreen db r ActSwitch (UuidArg tgt) = Inr res"
      and al: "apply_allocation (ar_allocations res) db = Inr db1"
      and vs: "versions db' = versions db1"
      and rels: "releases db' = map (\<lambda>q. if r_id q = r_id r
        then state_row r r res (previous_for r ActSwitch) now else q) (releases db)"
      using act_on_Inr [OF o] g rid by (auto simp: Let_def)
    have tgt: "tgt = r_secondary r"
      and alls: "ar_allocations res = [alloc (r_secondary r) 100 ''active'', alloc (r_primary r) 0 ''standby'']"
      using res by (auto simp: strategy_action_def bluegreen_action_def switch_active_def Let_def
          split: if_splits)
    have "r' \<in> set (releases db')" "r_id r' = rid" using get_release_mem [OF g'] by auto
    then have r': "r' = state_row r r res (previous_for r ActSwitch) now"
      using rid by (auto simp: rels split: if_splits)
    have f: "r_strategy r' = BlueGreen" "r_previous r' = Some (r_primary r)" "r_primary r' = r_primary r"
      "r_secondary r' = r_secondary r"
      using bg by (simp_all add: r' previous_for_def)
    show ?thesis
      using tgt al ne f g'
      by (auto simp: vs alls alloc_def act_def act_on_def strategy_action_def bluegreen_action_def
          bluegreen_rollback_def switch_active_def split: option.splits)
  qed
  show ?thesis using refuse sw by blast
qed

lemma bluegreen_rollback_never_succeeds_witness:
  "\<exists>e. act ''r'' ActRollback NoArg 9 (foldl rel_step sample_db
      [EvCreateRelease ''r'' 1 sample_bluegreen, EvAct ''r'' ActSwitch (UuidArg ''v2'') 2]) = Inl e"
proof -
  let ?es = "[EvCreateRelease ''r'' 1 sample_bluegreen, EvAct ''r'' ActSwitch (UuidArg ''v2'') 2]"
  let ?db = "foldl rel_step sample_db ?es"
  have a: "releases sample_db = []" by (simp add: sample_db_def)
  have n: "get_release ?db ''r'' \<noteq> None" by code_simp
  then have b: "get_release ?db ''r'' = Some (the (get_release ?db ''r''))" by simp
  have c: "r_strategy (the (get_release ?db ''r'')) = BlueGreen" by code_simp
  from bluegreen_rollback_never_succeeds [OF a refl b c] show ?thesis by blast
qed

text \<open>The moves of a canary's state machine.\<close>

inductive canary_move :: "phase \<Rightarrow> action \<Rightarrow> phase \<Rightarrow> bool" where
  start: "p \<in> {PhCreated, PhPaused, PhRolledBack} \<Longrightarrow> canary_move p ActStart PhRunning"
| pause: "canary_move PhRunning ActPause PhPaused"
| resume: "canary_move PhPaused ActResume PhRunning"
| weight: "p \<in> {PhRunning, PhPaused} \<Longrightarrow> canary_move p ActWeight p"
| promote: "p \<in> {PhRunning, PhPaused} \<Longrightarrow> canary_move p ActPromote PhCompleted"
| rollback: "p \<in> {PhCreated, PhRunning, PhPaused} \<Longrightarrow> canary_move p ActRollback PhRolledBack"

inductive_simps canary_move_simps:
  "canary_move p ActStart q" "canary_move p ActPause q" "canary_move p ActResume q"
  "canary_move p ActWeight q" "canary_move p ActPromote q" "canary_move p ActRollback q"
  "canary_move p ActSwitch q"

inductive_cases canary_move_completed: "canary_move PhCompleted a q"

lemma act_Inr:
  assumes g: "get_release db rid = Some r"
    and s: "act rid a arg now db = Inr (r', db')"
  shows "\<exists>res db1. strategy_action (r_strategy r) db r a arg = Inr res
    \<and> apply_allocation (ar_allocations res) db = Inr db1 \<and> versions db' = versions db1
    \<and> r' = state_row r r res (previous_for r a) now
    \<and> releases db' = map (\<lambda>q. if r_id q = rid then r' else q) (releases db)"
proof -
  have rid: "r_id r = rid" using get_release_mem [OF g] by simp
  have o: "act_on (r_strategy r) r a arg now db = Inr db'" and g': "get_release db' rid = Some r'"
    using s g by (auto simp: act_def split: sum.splits option.splits)
  obtain res db1 where res: "strategy_action (r_strategy r) db r a arg = Inr res"
    and al: "apply_allocation (ar_allocations res) db = Inr db1"
    and vs: "versions db' = versions db1"
    and rels: "releases db' = map (\<lambda>q. if r_id q = r_id r
        then state_row r r res (previous_for r a) now else q) (releases db)"
    using act_on_Inr [OF o] g rid by (auto simp: Let_def)
  have "r' \<in> set (releases db')" "r_id r' = rid" using get_release_mem [OF g'] by auto
  then have "r' = state_row r r res (previous_for r a) now"
    using rid by (auto simp: rels split: if_splits)
  then show ?thesis using res al vs rels rid by auto
qed

text \<open>Property C6. An action on a canary succeeds only along the edges of its state machine: start from
created, paused or rolled back, pause and resume between running and paused, weight while running or
paused, promote to completed, rollback to rolled back. A completed canary refuses every action, and
the row keeps its versions and its deployment throughout.\<close>

theorem canary_follows_its_state_machine:
  assumes "releases db0 = []" and db: "db = foldl rel_step db0 es"
    and g: "get_release db rid = Some r" and c: "r_strategy r = Canary"
  shows "(\<forall>r' db'. act rid a arg now db = Inr (r', db') \<longrightarrow>
      canary_move (r_phase r) a (r_phase r') \<and> r_primary r' = r_primary r
      \<and> r_secondary r' = r_secondary r \<and> r_deployment r' = r_deployment r
      \<and> releases db' = map (\<lambda>q. if r_id q = rid then r' else q) (releases db))
    \<and> (r_phase r = PhCompleted \<longrightarrow> (\<exists>e. act rid a arg now db = Inl e))"
proof -
  have mv: "canary_move (r_phase r) a (r_phase r') \<and> r_primary r' = r_primary r
      \<and> r_secondary r' = r_secondary r \<and> r_deployment r' = r_deployment r
      \<and> releases db' = map (\<lambda>q. if r_id q = rid then r' else q) (releases db)"
    if s: "act rid a arg now db = Inr (r', db')" for r' db'
  proof -
    obtain res db1 where res: "canary_action db r a arg = Inr res"
      and r': "r' = state_row r r res (previous_for r a) now"
      and rels: "releases db' = map (\<lambda>q. if r_id q = rid then r' else q) (releases db)"
      using act_Inr [OF g s] c by (auto simp: strategy_action_def)
    have "canary_move (r_phase r) a (ar_phase res)"
      using res
      by (cases a)
         (auto simp: canary_action_def canary_start_def canary_pause_def canary_resume_def
           canary_set_weight_def canary_promote_def canary_rollback_def canary_move_simps Let_def
           split: if_splits option.splits)
    then show ?thesis using r' rels by simp
  qed
  moreover have "\<exists>e. act rid a arg now db = Inl e" if "r_phase r = PhCompleted"
  proof (rule ccontr)
    assume "\<nexists>e. act rid a arg now db = Inl e"
    then obtain r' db' where "act rid a arg now db = Inr (r', db')"
      by (metis sum.exhaust surj_pair)
    from mv [OF this] that show False by (auto elim: canary_move_completed)
  qed
  ultimately show ?thesis by blast
qed

lemma canary_follows_its_state_machine_witness:
  "\<exists>e. act ''r'' ActStart NoArg 9 (foldl rel_step sample_db
      [EvCreateRelease ''r'' 1 sample_canary, EvAct ''r'' ActStart NoArg 2,
       EvAct ''r'' ActPromote NoArg 3]) = Inl e"
proof -
  let ?es = "[EvCreateRelease ''r'' 1 sample_canary, EvAct ''r'' ActStart NoArg 2,
       EvAct ''r'' ActPromote NoArg 3]"
  let ?db = "foldl rel_step sample_db ?es"
  have a: "releases sample_db = []" by (simp add: sample_db_def)
  have n: "get_release ?db ''r'' \<noteq> None" by code_simp
  then have b: "get_release ?db ''r'' = Some (the (get_release ?db ''r''))" by simp
  have c: "r_strategy (the (get_release ?db ''r'')) = Canary" by code_simp
  have d: "r_phase (the (get_release ?db ''r'')) = PhCompleted" by code_simp
  from canary_follows_its_state_machine [OF a refl b c] d show ?thesis by blast
qed

text \<open>Rolling back a canary always works while it is created, running or paused: the
stable version gets all the traffic back and the canary none, the release is rolled back, and no other
release and no version of another deployment is touched.\<close>

theorem canary_rollback_restores_stable:
  assumes "releases db0 = []" and calm: "undisturbed_run db0 es" and db: "db = foldl rel_step db0 es"
    and g: "get_release db rid = Some r" and c: "r_strategy r = Canary"
    and ph: "r_phase r \<in> {PhCreated, PhRunning, PhPaused}"
  shows "\<exists>r' db'. act rid ActRollback arg now db = Inr (r', db') \<and> r_phase r' = PhRolledBack
    \<and> r_primary_weight r' = 100 \<and> r_secondary_weight r' = 0
    \<and> map_option v_weight (versions db' (r_primary r)) = Some 100
    \<and> map_option v_status (versions db' (r_primary r)) = Some ''stable''
    \<and> map_option v_weight (versions db' (r_secondary r)) = Some 0
    \<and> map_option v_status (versions db' (r_secondary r)) = Some ''standby''
    \<and> (\<forall>v. v \<noteq> r_primary r \<longrightarrow> v \<noteq> r_secondary r \<longrightarrow> versions db' v = versions db v)
    \<and> (\<forall>q \<in> set (releases db). r_id q \<noteq> rid \<longrightarrow> q \<in> set (releases db'))"
proof -
  have inv: "rel_inv db" using run_inv [OF assms(1) calm] by (simp add: db)
  have mem: "r \<in> set (releases db)" and rid: "r_id r = rid" using get_release_mem [OF g] by auto
  then have ok: "row_ok (versions db) r" using inv by (simp add: rel_inv_def)
  then obtain p s where ps: "versions db (r_primary r) = Some p" "versions db (r_secondary r) = Some s"
    and ne: "r_primary r \<noteq> r_secondary r"
    by (auto simp: row_ok_def row_checks_def)
  define res where "res = \<lparr>ar_phase = PhRolledBack, ar_primary_weight = 100, ar_secondary_weight = 0,
               ar_set_start = False, ar_set_finish = True,
               ar_allocations = [alloc (r_secondary r) 0 ''standby'',
                                 alloc (r_primary r) 100 ''stable'']\<rparr>"
  have res: "canary_rollback r = Inr res" using ph by (auto simp: canary_rollback_def res_def)
  define vs where "vs = (versions db)(r_secondary r \<mapsto> s\<lparr>v_weight := 0, v_status := ''standby''\<rparr>,
      r_primary r \<mapsto> p\<lparr>v_weight := 100, v_status := ''stable''\<rparr>)"
  have al: "apply_allocation (ar_allocations res) db = Inr (db\<lparr>versions := vs\<rparr>)"
    using ps ne by (simp add: res_def alloc_def vs_def)
  let ?r = "state_row r r res None now"
  have "\<not> active_conflict ?r (releases db)"
    by (simp add: active_conflict_def phase_terminal_def res_def)
  moreover have "row_checks ?r" using ne by (simp add: row_checks_def res_def)
  moreover have "get_release (db\<lparr>versions := vs\<rparr>) rid = Some r" using g by (simp add: get_release_def)
  ultimately have us: "update_state r res None now (db\<lparr>versions := vs\<rparr>) =
      Inr (set_release rid (\<lambda>_. ?r) (db\<lparr>versions := vs\<rparr>))"
    by (simp add: update_state_def rid Let_def)
  have pv: "previous_for r ActRollback = None" using c by (simp add: previous_for_def)
  obtain evs where ao: "act_on Canary r ActRollback arg now db =
      Inr ((set_release rid (\<lambda>_. ?r) (db\<lparr>versions := vs\<rparr>))\<lparr>events := evs\<rparr>)"
    using c by (simp add: act_on_def strategy_action_def canary_action_def res al us pv)
  let ?db' = "(set_release rid (\<lambda>_. ?r) (db\<lparr>versions := vs\<rparr>))\<lparr>events := evs\<rparr>"
  have "get_release ?db' rid = Some ?r"
  proof -
    have "distinct (map r_id (releases ?db'))"
      using inv by (simp add: set_release_def rel_inv_def comp_def rid if_distrib [of r_id] cong: if_cong)
    moreover have "?r \<in> set (releases ?db')" using mem rid by (force simp: set_release_def)
    ultimately show ?thesis using get_release_unique [of ?db' ?r] rid by simp
  qed
  then have "act rid ActRollback arg now db = Inr (?r, ?db')" using g c ao by (simp add: act_def)
  moreover have "q \<in> set (releases ?db')" if "q \<in> set (releases db)" "r_id q \<noteq> rid" for q
    using that by (force simp: set_release_def)
  ultimately show ?thesis
    using ps ne by (intro exI [of _ ?r] exI [of _ ?db']) (auto simp: res_def set_release_def vs_def)
qed

lemma canary_rollback_restores_stable_witness:
  "\<exists>r' db'. act ''r'' ActRollback NoArg 9 (foldl rel_step sample_db
      [EvCreateRelease ''r'' 1 sample_canary, EvAct ''r'' ActStart NoArg 2]) = Inr (r', db')
    \<and> r_phase r' = PhRolledBack"
proof -
  let ?es = "[EvCreateRelease ''r'' 1 sample_canary, EvAct ''r'' ActStart NoArg 2]"
  let ?db = "foldl rel_step sample_db ?es"
  have a: "releases sample_db = []" by (simp add: sample_db_def)
  have u: "undisturbed_run sample_db [EvCreateRelease ''r'' 1 sample_canary, EvAct ''r'' ActStart NoArg 2]" by code_simp
  have n: "get_release ?db ''r'' \<noteq> None" by code_simp
  then have b: "get_release ?db ''r'' = Some (the (get_release ?db ''r''))" by simp
  have c: "r_strategy (the (get_release ?db ''r'')) = Canary" by code_simp
  have "r_phase (the (get_release ?db ''r'')) = PhRunning" by code_simp
  then have d: "r_phase (the (get_release ?db ''r'')) \<in> {PhCreated, PhRunning, PhPaused}" by simp
  from canary_rollback_restores_stable [OF a u refl b c d] show ?thesis by blast
qed

text \<open>Two requests that read the same release and race: once the first has committed and
moved the release to another phase, the second, still working from what it read, is refused as a
conflict or by its own checks, and commits nothing.\<close>

theorem stale_action_is_refused:
  assumes g: "get_release db rid = Some rel"
    and first: "act_on (r_strategy rel) rel a arg now db = Inr db1"
    and moved: "map_option r_phase (get_release db1 rid) \<noteq> Some (r_phase rel)"
  shows "\<exists>e. act_on (r_strategy rel) rel b arg' now' db1 = Inl e"
proof (rule ccontr)
  assume "\<nexists>e. act_on (r_strategy rel) rel b arg' now' db1 = Inl e"
  then obtain db2 where "act_on (r_strategy rel) rel b arg' now' db1 = Inr db2"
    by (metis sum.exhaust)
  from act_on_Inr [OF this] have "map_option r_phase (get_release db1 (r_id rel)) = Some (r_phase rel)"
    by auto
  then show False using moved get_release_mem [OF g] by simp
qed

lemma stale_action_is_refused_witness:
  "\<exists>db1 e rel. act_on Canary rel ActPause NoArg 5
      (foldl rel_step sample_db [EvCreateRelease ''r'' 1 sample_canary, EvAct ''r'' ActStart NoArg 2])
      = Inr db1 \<and> act_on Canary rel ActPromote NoArg 6 db1 = Inl e"
proof -
  let ?db = "foldl rel_step sample_db
    [EvCreateRelease ''r'' 1 sample_canary, EvAct ''r'' ActStart NoArg 2]"
  let ?rel = "the (get_release ?db ''r'')"
  let ?a = "act_on (r_strategy ?rel) ?rel ActPause NoArg 5 ?db"
  let ?db1 = "case ?a of Inr d \<Rightarrow> d | Inl _ \<Rightarrow> ?db"
  have n: "get_release ?db ''r'' \<noteq> None" by code_simp
  then have g: "get_release ?db ''r'' = Some ?rel" by simp
  have s: "r_strategy ?rel = Canary" by code_simp
  have "\<not> isl ?a" by code_simp
  then have f: "?a = Inr ?db1" by (cases ?a) auto
  have m: "map_option r_phase (get_release ?db1 ''r'') \<noteq> Some (r_phase ?rel)" by code_simp
  obtain e where "act_on (r_strategy ?rel) ?rel ActPromote NoArg 6 ?db1 = Inl e"
    using stale_action_is_refused [OF g f m] by blast
  then show ?thesis using f unfolding s by blast
qed

section \<open>The automatic canary\<close>

lemma act_success:
  assumes inv: "rel_inv db" and g: "get_release db rid = Some r"
    and res: "strategy_action (r_strategy r) db r a arg = Inr res"
    and ph: "phase_terminal (ar_phase res) \<or> \<not> phase_terminal (r_phase r)"
  shows "\<exists>r' db'. act rid a arg now db = Inr (r', db')
    \<and> r' = state_row r r res (previous_for r a) now \<and> get_release db' rid = Some r'"
proof -
  have mem: "r \<in> set (releases db)" and rid: "r_id r = rid" using get_release_mem [OF g] by auto
  have ok: "row_ok (versions db) r" and nc: "\<not> active_conflict r (releases db)"
    using inv mem by (auto simp: rel_inv_def)
  note dec = strategy_action_decision [OF row_ok_sound [OF ok] res]
  obtain p s where "versions db (r_primary r) = Some p" "versions db (r_secondary r) = Some s"
    using ok by (auto simp: row_ok_def)
  then have "\<exists>db1. apply_allocation (ar_allocations res) db = Inr db1"
    using dec by (auto simp: decision_def alloc_def split: option.split)
  then obtain db1 where al: "apply_allocation (ar_allocations res) db = Inr db1" by blast
  note fr = apply_allocation_frame [OF al]
  let ?r = "state_row r r res (previous_for r a) now"
  have "\<not> active_conflict ?r (releases db)" using nc ph by (auto simp: active_conflict_def)
  moreover have "row_checks ?r"
    using decision_effect(1) [OF ok dec al, of now] by (simp add: row_ok_def)
  moreover have "get_release db1 rid = Some r" using g fr by (simp add: get_release_def)
  ultimately have us: "update_state r res (previous_for r a) now db1 = Inr (set_release rid (\<lambda>_. ?r) db1)"
    using fr by (simp add: update_state_def rid Let_def)
  obtain evs where ao: "act_on (r_strategy r) r a arg now db =
      Inr ((set_release rid (\<lambda>_. ?r) db1)\<lparr>events := evs\<rparr>)"
    by (simp add: act_on_def res al us)
  let ?db' = "(set_release rid (\<lambda>_. ?r) db1)\<lparr>events := evs\<rparr>"
  have "distinct (map r_id (releases ?db'))"
    using inv fr by (simp add: set_release_def rel_inv_def comp_def rid if_distrib [of r_id] cong: if_cong)
  moreover have "?r \<in> set (releases ?db')" using mem rid fr by (force simp: set_release_def)
  ultimately have "get_release ?db' rid = Some ?r" using get_release_unique [of ?db' ?r] rid by simp
  then show ?thesis using g ao by (simp add: act_def)
qed

lemma act_weight:
  assumes "rel_inv db" and "get_release db rid = Some r" and "r_strategy r = Canary"
    and "r_phase r = PhRunning" and "0 \<le> w" and "w \<le> 100"
  shows "\<exists>r' db'. act rid ActWeight (IntArg w) now db = Inr (r', db') \<and> get_release db' rid = Some r'
    \<and> r_secondary_weight r' = w \<and> r_phase r' = PhRunning \<and> r_strategy r' = Canary"
  using act_success [OF assms(1,2), of ActWeight "IntArg w" _ now] assms(3-6)
  by (fastforce simp: strategy_action_def canary_action_def canary_set_weight_def phase_terminal_def)

lemma act_pause:
  assumes "rel_inv db" and "get_release db rid = Some r" and "r_strategy r = Canary"
    and "r_phase r = PhRunning"
  shows "\<exists>r' db'. act rid ActPause NoArg now db = Inr (r', db') \<and> get_release db' rid = Some r'
    \<and> r_secondary_weight r' = r_secondary_weight r \<and> r_phase r' = PhPaused"
  using act_success [OF assms(1,2), of ActPause NoArg _ now] assms(3,4)
  by (fastforce simp: strategy_action_def canary_action_def canary_pause_def phase_terminal_def)

text \<open>One automatic evaluation of a running canary. Without enough requests nothing
changes. If the error rate or the latency is over its limit, the canary loses all its traffic and the
release is paused. Otherwise the weight goes up by one step but never beyond the target, stays where it
is once the target is reached, and the release keeps running.\<close>

theorem auto_canary_steps_or_stops:
  assumes "releases db0 = []" and calm: "undisturbed_run db0 es" and db: "db = foldl rel_step db0 es"
    and g: "get_release db rid = Some r" and c: "r_strategy r = Canary" "r_phase r = PhRunning"
    and cfg: "parse_canary_config (r_config r) = (tgt, step)" "tgt \<le> 100" "0 < step"
    and db': "db' = evaluate_release ac metric now r db"
  shows "\<exists>r'. get_release db' rid = Some r' \<and>
    (case metric (r_secondary r) of
       None \<Rightarrow> db' = db
     | Some cs \<Rightarrow>
         if vs_requests cs < ac_min_requests ac then db' = db
         else if should_stop_loss ac cs then r_secondary_weight r' = 0 \<and> r_phase r' = PhPaused
         else r_phase r' = PhRunning
           \<and> r_secondary_weight r' = max (r_secondary_weight r) (min tgt (r_secondary_weight r + step)))"
proof -
  have inv: "rel_inv db" using run_inv [OF assms(1) calm] by (simp add: db)
  have mem: "r \<in> set (releases db)" and rid: "r_id r = rid" using get_release_mem [OF g] by auto
  have w0: "0 \<le> r_secondary_weight r"
    using inv mem by (auto simp: rel_inv_def row_ok_def row_checks_def)
  show ?thesis
  proof (cases "metric (r_secondary r)")
    case None
    then show ?thesis using g by (simp add: db' evaluate_release_def)
  next
    case (Some cs)
    show ?thesis
    proof (cases "vs_requests cs < ac_min_requests ac")
      case True
      then show ?thesis using Some g by (simp add: db' evaluate_release_def)
    next
      case enough: False
      show ?thesis
      proof (cases "should_stop_loss ac cs")
        case True
        obtain r1 db1 where a1: "act rid ActWeight (IntArg 0) now db = Inr (r1, db1)"
          "get_release db1 rid = Some r1" "r_secondary_weight r1 = 0" "r_phase r1 = PhRunning"
          "r_strategy r1 = Canary"
          using act_weight [OF inv g c, of 0 now] by auto
        obtain r2 db2 where a2: "act rid ActPause NoArg now db1 = Inr (r2, db2)"
          "get_release db2 rid = Some r2" "r_secondary_weight r2 = 0" "r_phase r2 = PhPaused"
          using act_pause [OF act_inv [OF inv a1(1)] a1(2,5,4), of now] a1(3) by auto
        have "db' = db2"
          using Some enough True a1(1) a2(1)
          by (simp add: db' evaluate_release_def commit_or_keep_def rid)
        then show ?thesis using Some enough True a2 by simp
      next
        case False
        let ?w = "r_secondary_weight r"
        show ?thesis
        proof (cases "tgt \<le> ?w")
          case True
          then have "db' = db" using Some enough False cfg(1)
            by (simp add: db' evaluate_release_def)
          then show ?thesis using Some enough False True g c cfg(3) by simp
        next
          case below: False
          let ?n = "min tgt (?w + step)"
          have n: "(if ?w + step > tgt then tgt else ?w + step) = ?n" "?w < ?n" "0 \<le> ?n" "?n \<le> 100"
            using below cfg(2,3) w0 by auto
          obtain r1 db1 where a1: "act rid ActWeight (IntArg ?n) now db = Inr (r1, db1)"
            "get_release db1 rid = Some r1" "r_secondary_weight r1 = ?n" "r_phase r1 = PhRunning"
            using act_weight [OF inv g c n(3,4), of now] by auto
          have "db' = db1"
            using Some enough False cfg(1) below n(2) a1(1)
            by (simp add: db' evaluate_release_def commit_or_keep_def rid n(1) Let_def)
          then show ?thesis using Some enough False a1 n(2) by simp
        qed
      qed
    qed
  qed
qed

lemma auto_canary_steps_or_stops_witness:
  "\<exists>r'. get_release (evaluate_release \<lparr>ac_err_rate_max = 5, ac_err_latency_ms = 0, ac_min_requests = 10\<rparr>
      (\<lambda>_. Some \<lparr>vs_requests = 100, vs_errors = 9, vs_avg_ms = 3\<rparr>) 7
      (the (get_release (foldl rel_step sample_db [EvCreateRelease ''r'' 1 sample_canary,
         EvAct ''r'' ActStart NoArg 2]) ''r''))
      (foldl rel_step sample_db [EvCreateRelease ''r'' 1 sample_canary,
         EvAct ''r'' ActStart NoArg 2])) ''r'' = Some r'"
proof -
  let ?db = "foldl rel_step sample_db [EvCreateRelease ''r'' 1 sample_canary,
         EvAct ''r'' ActStart NoArg 2]"
  have a: "releases sample_db = []" by (simp add: sample_db_def)
  have u: "undisturbed_run sample_db [EvCreateRelease ''r'' 1 sample_canary, EvAct ''r'' ActStart NoArg 2]" by code_simp
  have n: "get_release ?db ''r'' \<noteq> None" by code_simp
  then have b: "get_release ?db ''r'' = Some (the (get_release ?db ''r''))" by simp
  have c: "r_strategy (the (get_release ?db ''r'')) = Canary"
    and d: "r_phase (the (get_release ?db ''r'')) = PhRunning"
    and e: "parse_canary_config (r_config (the (get_release ?db ''r''))) = (50, 20)"
    by code_simp+
  have f: "(50::int) \<le> 100" "(0::int) < 20" by simp_all
  from auto_canary_steps_or_stops [OF a u refl b c d e f refl, of
      "\<lparr>ac_err_rate_max = 5, ac_err_latency_ms = 0, ac_min_requests = 10\<rparr>"
      "\<lambda>_. Some \<lparr>vs_requests = 100, vs_errors = 9, vs_avg_ms = 3\<rparr>" 7]
  show ?thesis by blast
qed

end
