(* ===== verification/Router_Host.thy ===== *)
theory Router_Host
  imports Ipam
begin

text \<open>
  \<open>router\<close>: the normalization of a request's host (\<open>host.go\<close>), the static resolver
  (\<open>static.go\<close>) and the types of \<open>route.go\<close> that the resolver, the load balancer and the proxy
  share. \<open>to_ascii\<close> stands for \<open>ToASCII\<close> of the \<open>golang.org/x/net/idna\<close> profile, a third-party
  package: None is its error. A slice expression whose bounds Go would refuse is \<open>Panics\<close>.
\<close>

section \<open>Types of route.go\<close>

datatype route_error =
    ErrNotFound | ErrDomainDisabled | ErrTenantSuspended | ErrNoHealthy | ErrInvalidHost
  | ErrRateLimited

record sticky_cookie =
  ck_name :: string
  ck_value :: string
  ck_ttl :: int

record target =
  tg_scheme :: string
  tg_host :: string
  tg_instance :: string
  tg_version :: uuid
  tg_sticky :: "sticky_cookie option"
  tg_route :: string

definition target_url :: "target \<Rightarrow> string" where
  "target_url t = tg_scheme t @ ''://'' @ tg_host t"

record pool_member =
  pm_id :: string
  pm_endpoint :: string
  pm_protocol :: string
  pm_weight :: int

record match_view =
  mv_header :: "string \<Rightarrow> string option"
  mv_path :: string
  mv_client_ip :: string

section \<open>net.ParseIP of a text with a colon\<close>

definition is_hex :: "char \<Rightarrow> bool" where
  "is_hex c \<longleftrightarrow> is_digit c \<or> (97 \<le> code c \<and> code c \<le> 102) \<or> (65 \<le> code c \<and> code c \<le> 70)"

definition hex_digit :: "char \<Rightarrow> nat" where
  "hex_digit c = (if is_digit c then code c - 48 else if 97 \<le> code c then code c - 87 else code c - 55)"

definition hex_value :: "string \<Rightarrow> nat" where
  "hex_value s = foldl (\<lambda>v c. v * 16 + hex_digit c) 0 s"

text \<open>
  The loop of \<open>netip.parseIPv6\<close>: the groups read so far (16 bits each) and the place of the
  ellipsis. A group before a dot starts a trailing IPv4 address, which is two groups.
\<close>

function v6_loop :: "string \<Rightarrow> nat list \<Rightarrow> nat option \<Rightarrow> (nat list \<times> nat option) option" where
  "v6_loop s gs e =
    (if 8 \<le> length gs then (if s = [] then Some (gs, e) else None)
     else (let ds = takeWhile is_hex s; rest = dropWhile is_hex s in
       if ds = [] \<or> 4 < length ds then None
       else (case rest of
           [] \<Rightarrow> Some (gs @ [hex_value ds], e)
         | c # r \<Rightarrow>
             if c = CHR ''.'' then
               (if e = None \<and> length gs \<noteq> 6 \<or> 6 < length gs then None
                else map_option (\<lambda>v. (gs @ [unat v div 65536, unat v mod 65536], e)) (parse_ipv4 s))
             else if c \<noteq> CHR '':'' \<or> r = [] then None
             else if hd r = CHR '':'' then
               (if e \<noteq> None then None
                else if tl r = [] then Some (gs @ [hex_value ds], Some (length gs + 1))
                else v6_loop (tl r) (gs @ [hex_value ds]) (Some (length gs + 1)))
             else v6_loop r (gs @ [hex_value ds]) e)))"
  by pat_completeness auto

lemma dropWhile_shorter: "dropWhile P s = c # r \<Longrightarrow> length r < length s"
  using length_dropWhile_le [of P s] by simp

termination v6_loop
proof (relation "measure (\<lambda>(s, _, _). length s)")
qed (auto dest!: dropWhile_shorter [OF sym] simp: less_imp_diff_less)

definition v6_finish :: "(nat list \<times> nat option) option \<Rightarrow> nat list option" where
  "v6_finish r =
    (case r of
       None \<Rightarrow> None
     | Some (gs, e) \<Rightarrow>
         if length gs < 8 then
           (case e of None \<Rightarrow> None
            | Some k \<Rightarrow> Some (take k gs @ replicate (8 - length gs) 0 @ drop k gs))
         else if e \<noteq> None then None else Some gs)"

definition parse_ipv6 :: "string \<Rightarrow> nat list option" where
  "parse_ipv6 s =
    (if CHR ''%'' \<in> set s then None
     else if take 2 s = ''::'' then
       (if drop 2 s = [] then Some (replicate 8 0) else v6_finish (v6_loop (drop 2 s) [] (Some 0)))
     else v6_finish (v6_loop s [] None))"

text \<open>\<open>ip.To4() != nil\<close> of an address in the 16-byte form.\<close>

definition is_v4_mapped :: "nat list \<Rightarrow> bool" where
  "is_v4_mapped gs \<longleftrightarrow> take 6 gs = [0, 0, 0, 0, 0, 65535]"

section \<open>host.go\<close>

definition strip_port :: "string \<Rightarrow> string outcome" where
  "strip_port host =
    (if CHR ''['' \<in> set host then
       (case index_byte CHR '']'' host of
          Some i \<Rightarrow> if i < 1 then Panics else Returns (take (i - 1) (drop 1 host))
        | None \<Rightarrow> Returns host)
     else (case last_index_byte CHR '':'' host of
          Some i \<Rightarrow> if count_list host CHR '':'' = 1 then Returns (take i host) else Returns host
        | None \<Rightarrow> Returns host))"

definition label_char :: "char \<Rightarrow> bool" where
  "label_char c \<longleftrightarrow> is_lower c \<or> is_digit c \<or> c = CHR ''-''"

definition valid_label :: "string \<Rightarrow> bool" where
  "valid_label l \<longleftrightarrow> l \<noteq> [] \<and> length l \<le> 63 \<and> hd l \<noteq> CHR ''-'' \<and> last l \<noteq> CHR ''-''
     \<and> list_all label_char l"

definition valid_labeled_name :: "string \<Rightarrow> bool" where
  "valid_labeled_name name \<longleftrightarrow> name = ''localhost''
     \<or> (CHR ''.'' \<in> set name \<and> list_all valid_label (split_byte CHR ''.'' name))"

definition normalize_host ::
  "(string \<Rightarrow> string option) \<Rightarrow> string \<Rightarrow> (route_error + string) outcome" where
  "normalize_host to_ascii host0 =
    (case strip_port (trim_space host0) of
       Panics \<Rightarrow> Panics
     | Returns host \<Rightarrow> Returns
         (if host = [] then Inl ErrInvalidHost
          else if count_list host CHR '':'' > 0 then
            (case parse_ipv6 host of
               Some ip \<Rightarrow> if is_v4_mapped ip then Inl ErrInvalidHost else Inr host
             | None \<Rightarrow> Inl ErrInvalidHost)
          else
            (let host1 = trim_suffix host ''.'' in
             if host1 = [] then Inl ErrInvalidHost
             else (case to_ascii (to_lower host1) of
                 None \<Rightarrow> Inl ErrInvalidHost
               | Some ascii \<Rightarrow>
                   if valid_labeled_name ascii then Inr ascii else Inl ErrInvalidHost))))"

definition lookup_host ::
  "(string \<Rightarrow> string option) \<Rightarrow> string \<Rightarrow> (route_error + string) outcome" where
  "lookup_host to_ascii host = normalize_host to_ascii host"

section \<open>static.go\<close>

record static_entry =
  se_scheme :: string
  se_address :: string
  se_status :: string

definition static_resolve ::
  "(string \<Rightarrow> string option) \<Rightarrow> (string \<Rightarrow> static_entry option) \<Rightarrow> string
    \<Rightarrow> (route_error + target) outcome" where
  "static_resolve to_ascii entries host =
    (case normalize_host to_ascii host of
       Panics \<Rightarrow> Panics
     | Returns (Inl _) \<Rightarrow> Returns (Inl ErrNotFound)
     | Returns (Inr norm) \<Rightarrow> Returns
         (case entries norm of
            None \<Rightarrow> Inl ErrNotFound
          | Some e \<Rightarrow>
              if se_status e = ''disabled'' then Inl ErrDomainDisabled
              else Inr \<lparr>tg_scheme = (if se_scheme e = [] then ''http'' else se_scheme e),
                        tg_host = se_address e, tg_instance = [], tg_version = uuid_nil,
                        tg_sticky = None, tg_route = []\<rparr>))"

section \<open>Lemmas\<close>

declare v6_loop.simps [simp del]

text \<open>One rule for facts about a successful parse, by the way the loop reads the text.\<close>

lemma v6_loop_induct [consumes 1, case_names full last v4 end_ellipsis ellipsis colon]:
  assumes "v6_loop s gs e = Some r"
    and full: "\<And>gs e. P [] gs e (gs, e)"
    and last: "\<And>ds gs e. ds \<noteq> [] \<Longrightarrow> list_all is_hex ds \<Longrightarrow> P ds gs e (gs @ [hex_value ds], e)"
    and v4: "\<And>s gs e v. parse_ipv4 s = Some v \<Longrightarrow> (e = None \<Longrightarrow> length gs = 6) \<Longrightarrow>
        P s gs e (gs @ [unat v div 65536, unat v mod 65536], e)"
    and end_ellipsis: "\<And>ds gs. list_all is_hex ds \<Longrightarrow>
        P (ds @ ''::'') gs None (gs @ [hex_value ds], Some (length gs + 1))"
    and ellipsis: "\<And>ds t gs r. list_all is_hex ds \<Longrightarrow>
        P t (gs @ [hex_value ds]) (Some (length gs + 1)) r \<Longrightarrow> P (ds @ CHR '':'' # CHR '':'' # t) gs None r"
    and colon: "\<And>ds t gs e r. list_all is_hex ds \<Longrightarrow>
        P t (gs @ [hex_value ds]) e r \<Longrightarrow> P (ds @ CHR '':'' # t) gs e r"
  shows "P s gs e r"
  using assms(1)
proof (induction s gs e rule: v6_loop.induct)
  case (1 s gs e)
  define ds where "ds = takeWhile is_hex s"
  define rest where "rest = dropWhile is_hex s"
  have s: "s = ds @ rest" by (simp add: ds_def rest_def)
  have hex: "list_all is_hex ds" by (auto simp: ds_def list_all_iff dest: set_takeWhileD)
  show ?case
  proof (cases "8 \<le> length gs")
    case True
    then show ?thesis using "1.prems" full by (auto simp: v6_loop.simps [of s] split: if_splits)
  next
    case False
    then have ds: "ds \<noteq> []" "\<not> 4 < length ds"
      using "1.prems" by (auto simp: v6_loop.simps [of s] Let_def ds_def split: if_splits)
    note step = "1.prems" [unfolded v6_loop.simps [of s], folded ds_def rest_def, unfolded Let_def]
    show ?thesis
    proof (cases rest)
      case Nil
      then show ?thesis using step False ds last [OF ds(1) hex] by (auto simp: s)
    next
      case (Cons c t)
      consider (dot) "c = CHR ''.''" | (end_e) "c = CHR '':''" "t = '':''" "e = None"
        | (ell) u where "c = CHR '':''" "t = CHR '':'' # u" "u \<noteq> []" "e = None"
        | (col) "c = CHR '':''" "t \<noteq> []" "hd t \<noteq> CHR '':''"
        using step False ds Cons by (cases t) (auto split: if_splits)
      then show ?thesis
      proof cases
        case dot
        then show ?thesis using step False ds Cons v4 by (auto split: if_splits)
      next
        case end_e
        then show ?thesis using step False ds Cons end_ellipsis [OF hex] by (auto simp: s)
      next
        case ell
        have "P (tl t) (gs @ [hex_value ds]) (Some (length gs + 1)) r"
          using step False ds Cons ell
          by (intro "1.IH"(1) [OF _ ds_def rest_def]) simp_all
        then show ?thesis using ellipsis [OF hex] ell Cons by (simp add: s)
      next
        case col
        have "P t (gs @ [hex_value ds]) e r"
          using step False ds Cons col
          by (intro "1.IH"(2) [OF _ ds_def rest_def]) simp_all
        then show ?thesis using colon [OF hex] col Cons by (simp add: s)
      qed
    qed
  qed
qed

lemma split_byte_chars:
  "x \<in> set s \<Longrightarrow> x = c \<or> (\<exists>f \<in> set (split_byte c s). x \<in> set f)"
  by (induction s) (auto split: list.splits)

lemma parse_ipv4_chars: "parse_ipv4 s = Some v \<Longrightarrow> c \<in> set s \<Longrightarrow> is_digit c \<or> c = CHR ''.''"
proof -
  assume p: "parse_ipv4 s = Some v" and c: "c \<in> set s"
  have "\<forall>f \<in> set (split_byte CHR ''.'' s). parse_octet f \<noteq> None"
    using p by (auto simp: parse_ipv4_def split: list.splits option.splits)
  then have "\<forall>f \<in> set (split_byte CHR ''.'' s). \<forall>x \<in> set f. is_digit x"
    by (auto simp: parse_octet_def list_all_iff split: if_splits)
  then show ?thesis using split_byte_chars [OF c, of "CHR ''.''"] by blast
qed

lemma v6_loop_chars:
  assumes "v6_loop s gs e = Some r"
  shows "\<forall>c \<in> set s. is_hex c \<or> c = CHR '':'' \<or> c = CHR ''.''"
  using assms
proof (induction rule: v6_loop_induct)
  case (v4 s gs e v)
  then show ?case using parse_ipv4_chars by (auto simp: is_hex_def)
qed (auto simp: list_all_iff)

lemma count_list_hex: "list_all is_hex ds \<Longrightarrow> count_list ds CHR '':'' = 0"
  by (induction ds) (auto simp: is_hex_def is_digit_def code_def)

lemma v6_loop_colons:
  assumes "v6_loop s gs e = Some r"
  shows "length (fst r) \<le> length gs + 2 + count_list s CHR '':''
    \<and> (e = None \<longrightarrow> snd r \<noteq> None \<longrightarrow> 2 \<le> count_list s CHR '':'')"
  using assms by (induction rule: v6_loop_induct) (auto simp: count_list_hex)

lemma parse_ipv6_text:
  assumes "parse_ipv6 s = Some g"
  shows "2 \<le> count_list s CHR '':'' \<and> (\<forall>c \<in> set s. is_hex c \<or> c = CHR '':'' \<or> c = CHR ''.'')"
proof (cases "take 2 s = ''::''")
  case True
  then have s: "s = ''::'' @ drop 2 s" by (metis append_take_drop_id)
  have c: "count_list s CHR '':'' = 2 + count_list (drop 2 s) CHR '':''" by (subst s) simp
  have "drop 2 s = [] \<or> (\<exists>r. v6_loop (drop 2 s) [] (Some 0) = Some r)"
    using assms True by (auto simp: parse_ipv6_def v6_finish_def split: if_splits option.splits)
  then have "\<forall>c \<in> set (drop 2 s). is_hex c \<or> c = CHR '':'' \<or> c = CHR ''.''"
    using v6_loop_chars by fastforce
  then show ?thesis using c by (subst (2) s) auto
next
  case False
  then obtain gs e where r: "v6_loop s [] None = Some (gs, e)"
    and f: "8 \<le> length gs \<or> e \<noteq> None"
    using assms by (auto simp: parse_ipv6_def v6_finish_def split: if_splits option.splits)
  have "2 \<le> count_list s CHR '':''" using v6_loop_colons [OF r] f by auto
  then show ?thesis using v6_loop_chars [OF r] by simp
qed

lemma split_byte_snoc: "split_byte c (s @ [c]) = split_byte c s @ [[]]"
  by (induction s) (auto split: list.splits)

lemma strip_port_id:
  "CHR ''['' \<notin> set h \<Longrightarrow> count_list h CHR '':'' \<noteq> 1 \<Longrightarrow> strip_port h = Returns h"
  by (simp add: strip_port_def split: option.split)

lemma lower_char_id: "label_char c \<or> c = CHR ''.'' \<Longrightarrow> lower_char c = c"
  by (auto simp: label_char_def lower_char_def is_upper_def is_lower_def is_digit_def code_def)

lemma valid_name_chars:
  "valid_labeled_name n \<Longrightarrow> c \<in> set n \<Longrightarrow> label_char c \<or> c = CHR ''.''"
proof -
  assume v: "valid_labeled_name n" and c: "c \<in> set n"
  show ?thesis
  proof (cases "n = ''localhost''")
    case True
    then show ?thesis using c by (auto simp: label_char_def is_lower_def code_def)
  next
    case False
    then have "list_all valid_label (split_byte CHR ''.'' n)" using v
      by (simp add: valid_labeled_name_def)
    then show ?thesis using split_byte_chars [OF c, of "CHR ''.''"]
      by (auto simp: list_all_iff valid_label_def)
  qed
qed

lemma valid_name_last: "valid_labeled_name n \<Longrightarrow> n \<noteq> [] \<and> last n \<noteq> CHR ''.''"
  by (cases n rule: rev_cases)
     (auto simp: valid_labeled_name_def valid_label_def split_byte_snoc)

lemma label_char_plain:
  "label_char c \<or> c = CHR ''.'' \<Longrightarrow> \<not> is_space c \<and> c \<noteq> CHR ''['' \<and> c \<noteq> CHR '':''"
  by (auto simp: label_char_def is_space_def is_lower_def is_digit_def code_def)

lemma hex_char_plain:
  "is_hex c \<or> c = CHR '':'' \<or> c = CHR ''.'' \<Longrightarrow> \<not> is_space c \<and> c \<noteq> CHR ''[''"
  by (auto simp: is_hex_def is_space_def is_digit_def code_def)

lemma trim_suffix_id: "h \<noteq> [] \<Longrightarrow> last h \<noteq> c \<Longrightarrow> trim_suffix h [c] = h"
  by (cases h rule: rev_cases) (auto simp: trim_suffix_def has_suffix_def has_prefix_def)

lemma normalize_host_again:
  assumes idem: "\<forall>x y. to_ascii x = Some y \<longrightarrow> to_ascii y = Some y"
    and n: "normalize_host to_ascii h = Returns (Inr n)"
  shows "normalize_host to_ascii n = Returns (Inr n) \<and> n \<noteq> []"
proof -
  consider (v6) g where "parse_ipv6 n = Some g" "\<not> is_v4_mapped g"
    | (name) x where "to_ascii x = Some n" "valid_labeled_name n"
    using n by (auto simp: normalize_host_def Let_def split: outcome.splits if_splits option.splits)
  then show ?thesis
  proof cases
    case v6
    note t = parse_ipv6_text [OF v6(1)]
    have "trim_space n = n" using t hex_char_plain by (intro trim_space_id) blast
    moreover have "strip_port n = Returns n"
      using t hex_char_plain by (intro strip_port_id) auto
    moreover have "n \<noteq> []" using t by auto
    ultimately show ?thesis using v6 t by (simp add: normalize_host_def)
  next
    case name
    note ch = valid_name_chars [OF name(2)]
    have "trim_space n = n" using ch label_char_plain by (intro trim_space_id) blast
    moreover have c0: "count_list n CHR '':'' = 0"
      using ch label_char_plain by (auto simp: count_list_0_iff)
    moreover have "strip_port n = Returns n"
      using ch label_char_plain c0 by (intro strip_port_id) auto
    moreover have "to_lower n = n"
      using ch lower_char_id by (simp add: to_lower_def map_idI)
    moreover have "to_ascii n = Some n" using idem name(1) by blast
    ultimately show ?thesis
      using valid_name_last [OF name(2)] name(2)
      by (simp add: normalize_host_def trim_suffix_id)
  qed
qed

text \<open>Property C29. A host that \<open>NormalizeHost\<close> accepts is in canonical form: normalizing it again
gives it back, so the data plane's lookup and the stored domain agree. It is either an IPv6 literal
without brackets and port that is not an IPv4-mapped one, or \<open>localhost\<close>, or a dotted name whose
labels have 1 to 63 lower-case letters, digits and inner hyphens. (\<open>to_ascii\<close> is assumed to be
idempotent, as the idna package documents of a name it has already converted.)\<close>

theorem normalize_host_canonical:
  assumes idem: "\<forall>x y. to_ascii x = Some y \<longrightarrow> to_ascii y = Some y"
    and n: "normalize_host to_ascii h = Returns (Inr n)"
  shows "normalize_host to_ascii n = Returns (Inr n)
    \<and> ((\<exists>g. parse_ipv6 n = Some g \<and> \<not> is_v4_mapped g)
       \<or> n = ''localhost''
       \<or> CHR ''.'' \<in> set n \<and> (\<forall>l \<in> set (split_byte CHR ''.'' n). 1 \<le> length l \<and> length l \<le> 63
            \<and> hd l \<noteq> CHR ''-'' \<and> last l \<noteq> CHR ''-''
            \<and> (\<forall>c \<in> set l. is_lower c \<or> is_digit c \<or> c = CHR ''-'')))"
proof -
  consider (v6) g where "parse_ipv6 n = Some g" "\<not> is_v4_mapped g"
    | (name) x where "to_ascii x = Some n" "valid_labeled_name n"
    using n by (auto simp: normalize_host_def Let_def split: outcome.splits if_splits option.splits)
  then show ?thesis
  proof cases
    case v6
    then show ?thesis using normalize_host_again [OF idem n] by blast
  next
    case name
    then have "n = ''localhost'' \<or>
       CHR ''.'' \<in> set n \<and> (\<forall>l \<in> set (split_byte CHR ''.'' n). 1 \<le> length l \<and> length l \<le> 63
            \<and> hd l \<noteq> CHR ''-'' \<and> last l \<noteq> CHR ''-''
            \<and> (\<forall>c \<in> set l. is_lower c \<or> is_digit c \<or> c = CHR ''-''))"
      by (auto simp: valid_labeled_name_def valid_label_def list_all_iff label_char_def Suc_le_eq)
    then show ?thesis using normalize_host_again [OF idem n] by blast
  qed
qed

lemma normalize_host_canonical_witness:
  "normalize_host Some '' Shop.Example.com:8080 '' = Returns (Inr ''shop.example.com'')
   \<and> normalize_host Some ''shop.example.com'' = Returns (Inr ''shop.example.com'')"
proof -
  have a: "normalize_host Some '' Shop.Example.com:8080 '' = Returns (Inr ''shop.example.com'')"
    by code_simp
  have "\<forall>x y. Some x = Some y \<longrightarrow> Some y = Some y" by simp
  from normalize_host_canonical [OF this a] a show ?thesis by blast
qed

text \<open>\<open>NormalizeHost\<close> panics on exactly the hosts that, trimmed, begin with a closing
bracket and contain an opening one (the slice \<open>host[1:0]\<close>); every other host gets an answer.\<close>

theorem normalize_host_panics_iff:
  "normalize_host to_ascii h = Panics \<longleftrightarrow>
    (\<exists>r. trim_space h = CHR '']'' # r \<and> CHR ''['' \<in> set r)"
proof -
  have "strip_port s = Panics \<longleftrightarrow> (\<exists>r. s = CHR '']'' # r \<and> CHR ''['' \<in> set r)" for s
    by (cases s) (auto simp: strip_port_def split: option.splits if_splits)
  from this [of "trim_space h"] show ?thesis
    by (cases "strip_port (trim_space h)") (auto simp: normalize_host_def)
qed

end
