(* ===== verification/Traffic_Policy.thy ===== *)
theory Traffic_Policy
  imports Router_Host
begin

text \<open>
  Traffic policies (\<open>internal/traffic\<close>): the policy and its matching rule (\<open>policy.go\<close>), and the
  repository that stores policies and hands them to the route table (\<open>repository.go\<close>). A Go map
  that is only iterated is an association list in its iteration order; the JSON columns hold the
  values they encode. The table is the list of its rows; the order of rows of equal priority,
  which SQL leaves open, is the order of insertion.
\<close>

section \<open>Headers\<close>

record request_view =
  rv_header :: "string \<Rightarrow> string option"
  rv_path :: string
  rv_client_ip :: string

definition empty_view :: request_view where
  "empty_view = \<lparr>rv_header = Map.empty, rv_path = [], rv_client_ip = []\<rparr>"

text \<open>\<open>http.Header.Get\<close>: the empty string when there is no such header.\<close>

definition header_get :: "request_view \<Rightarrow> string \<Rightarrow> string" where
  "header_get v k = (case rv_header v (canonical_key k) of Some x \<Rightarrow> x | None \<Rightarrow> [])"

text \<open>\<open>ViewFrom\<close>; \<open>order\<close> lists the names of the header map in the order it is iterated.\<close>

definition view_from :: "string list \<Rightarrow> match_view \<Rightarrow> request_view" where
  "view_from order mv =
     \<lparr>rv_header = fold (\<lambda>k h. case mv_header mv k of
          Some x \<Rightarrow> h(canonical_key k \<mapsto> x) | None \<Rightarrow> h) order Map.empty,
      rv_path = mv_path mv, rv_client_ip = mv_client_ip mv\<rparr>"

section \<open>Policies\<close>

definition balance_rr :: string where "balance_rr = ''round_robin''"
definition balance_hash :: string where "balance_hash = ''consistent_hash''"
definition balance_conn :: string where "balance_conn = ''least_conn''"

definition valid_balance :: "string \<Rightarrow> bool" where
  "valid_balance b \<longleftrightarrow> b = balance_rr \<or> b = balance_hash \<or> b = balance_conn"

record match_rule =
  mt_header :: "(string \<times> string) list"
  mt_cookie :: "(string \<times> string) list"
  mt_path :: string
  mt_path_exact :: string
  mt_percent :: int

record sticky =
  sk_header :: string
  sk_cookie :: string
  sk_ttl :: int

record policy =
  po_id :: uuid
  po_service :: uuid
  po_name :: string
  po_priority :: int
  po_match :: match_rule
  po_target :: "uuid option"
  po_weight :: int
  po_balance :: string
  po_sticky :: "sticky option"
  po_status :: string

definition policy_enabled :: "policy \<Rightarrow> bool" where
  "policy_enabled p \<longleftrightarrow> po_status p = ''enabled''"

definition empty_match :: match_rule where
  "empty_match = \<lparr>mt_header = [], mt_cookie = [], mt_path = [], mt_path_exact = [], mt_percent = 0\<rparr>"

text \<open>\<open>NewMatch\<close> on the decoded column.\<close>

definition new_match :: "match_rule \<Rightarrow> match_rule option" where
  "new_match m = (if mt_percent m < 0 \<or> mt_percent m > 100 then None else Some m)"

fun cookie_scan :: "string \<Rightarrow> string list \<Rightarrow> string" where
  "cookie_scan name [] = []"
| "cookie_scan name (p # ps) =
     (case cut_byte CHR ''='' (trim_space p) of
        Some (k, v) \<Rightarrow> if k = name then v else cookie_scan name ps
      | None \<Rightarrow> cookie_scan name ps)"

definition cookie_value :: "string \<Rightarrow> string \<Rightarrow> string" where
  "cookie_value raw name = cookie_scan name (split_byte CHR '';'' raw)"

definition policy_matches :: "policy \<Rightarrow> request_view \<Rightarrow> bool" where
  "policy_matches p v \<longleftrightarrow>
     (let m = po_match p in
      policy_enabled p \<and>
      list_all (\<lambda>(k, want). header_get v k = want) (mt_header m) \<and>
      list_all (\<lambda>(k, want). cookie_value (header_get v ''Cookie'') k = want) (mt_cookie m) \<and>
      \<not> (mt_path_exact m \<noteq> [] \<and> rv_path v \<noteq> mt_path_exact m) \<and>
      \<not> (mt_path m \<noteq> [] \<and> \<not> has_prefix (rv_path v) (mt_path m)))"

section \<open>The repository\<close>

datatype policy_error =
    PolicyInvalid | PolicyConflict | PolicyNoService | PolicyBadMatch uuid | PolicyNotFound

text \<open>\<open>fromEnt\<close>: a row whose match column is not valid cannot be read.\<close>

definition from_ent :: "policy \<Rightarrow> policy_error + policy" where
  "from_ent e = (case new_match (po_match e) of
     None \<Rightarrow> Inl (PolicyBadMatch (po_id e))
   | Some m \<Rightarrow> Inr (e\<lparr>po_match := m\<rparr>))"

fun collect_policies :: "policy list \<Rightarrow> policy_error + policy list" where
  "collect_policies [] = Inr []"
| "collect_policies (e # es) = (case from_ent e of
     Inl x \<Rightarrow> Inl x
   | Inr p \<Rightarrow> (case collect_policies es of Inl x \<Rightarrow> Inl x | Inr ps \<Rightarrow> Inr (p # ps)))"

text \<open>\<open>Create\<close> with the handler's validation: the match rule is stored as given (an absent one is
  the empty rule) and read back only after the row is in the table. \<open>known\<close> is the foreign key.\<close>

definition create_policy :: "(uuid \<Rightarrow> bool) \<Rightarrow> uuid \<Rightarrow> policy \<Rightarrow> match_rule option \<Rightarrow> policy list \<Rightarrow>
    (policy_error + policy) \<times> policy list" where
  "create_policy known new_id inp m rows =
     (let row = inp\<lparr>po_id := new_id,
          po_priority := (if po_priority inp = 0 then 100 else po_priority inp),
          po_match := (case m of None \<Rightarrow> empty_match | Some r \<Rightarrow> r),
          po_balance := (if valid_balance (po_balance inp) then po_balance inp else balance_rr),
          po_status := ''enabled''\<rparr> in
      if po_service inp = uuid_nil \<or> po_name inp = [] \<or> 64 < length (po_name inp)
      then (Inl PolicyInvalid, rows)
      else if \<exists>r \<in> set rows. po_service r = po_service inp \<and> po_name r = po_name inp
      then (Inl PolicyConflict, rows)
      else if \<not> known (po_service inp) then (Inl PolicyNoService, rows)
      else (from_ent row, rows @ [row]))"

record policy_update =
  pu_name :: "string option"
  pu_priority :: "int option"
  pu_match :: "match_rule option"
  pu_target :: "uuid option"
  pu_weight :: "int option"
  pu_balance :: "string option"
  pu_sticky :: "sticky option"
  pu_status :: "string option"

definition get_policy :: "uuid \<Rightarrow> policy list \<Rightarrow> policy_error + policy" where
  "get_policy pid rows = (case find (\<lambda>r. po_id r = pid) rows of
     None \<Rightarrow> Inl PolicyNotFound | Some r \<Rightarrow> from_ent r)"

definition change_policy :: "policy_update \<Rightarrow> policy \<Rightarrow> policy" where
  "change_policy u r = r\<lparr>
     po_name := case_option (po_name r) id (pu_name u),
     po_priority := case_option (po_priority r) id (pu_priority u),
     po_match := case_option (po_match r) id (pu_match u),
     po_target := (case pu_target u of None \<Rightarrow> po_target r
        | Some v \<Rightarrow> if v = uuid_nil then None else Some v),
     po_weight := case_option (po_weight r) id (pu_weight u),
     po_balance := (case pu_balance u of None \<Rightarrow> po_balance r
        | Some b \<Rightarrow> if valid_balance b then b else balance_rr),
     po_sticky := (case pu_sticky u of None \<Rightarrow> po_sticky r | Some s \<Rightarrow> Some s),
     po_status := case_option (po_status r) id (pu_status u)\<rparr>"

definition update_policy :: "uuid \<Rightarrow> policy_update \<Rightarrow> policy list \<Rightarrow>
    (policy_error + policy) \<times> policy list" where
  "update_policy pid u rows = (case get_policy pid rows of
     Inl e \<Rightarrow> (Inl e, rows)
   | Inr r \<Rightarrow>
       let row = change_policy u r in
       if \<exists>q \<in> set rows. po_id q \<noteq> pid \<and> po_service q = po_service row \<and> po_name q = po_name row
       then (Inl PolicyConflict, rows)
       else (from_ent row, map (\<lambda>q. if po_id q = pid then row else q) rows))"

definition delete_policy :: "uuid \<Rightarrow> policy list \<Rightarrow> policy_error option \<times> policy list" where
  "delete_policy pid rows =
     (if \<exists>r \<in> set rows. po_id r = pid then (None, filter (\<lambda>r. po_id r \<noteq> pid) rows)
      else (Some PolicyNotFound, rows))"

definition set_policy_status :: "uuid \<Rightarrow> string \<Rightarrow> policy list \<Rightarrow>
    (policy_error + policy) \<times> policy list" where
  "set_policy_status pid st = update_policy pid
     \<lparr>pu_name = None, pu_priority = None, pu_match = None, pu_target = None, pu_weight = None,
      pu_balance = None, pu_sticky = None, pu_status = Some st\<rparr>"

text \<open>\<open>ListByService\<close>, and \<open>AllGroupedByService\<close> as the policies of each service in the order
  of their priority; one unreadable row fails the whole load.\<close>

definition policies_of :: "policy list \<Rightarrow> uuid \<Rightarrow> policy_error + policy list" where
  "policies_of rows sid = collect_policies (sort_key po_priority (filter (\<lambda>r. po_service r = sid) rows))"

definition all_grouped :: "policy list \<Rightarrow> policy_error + (uuid \<Rightarrow> policy list)" where
  "all_grouped rows = (case collect_policies (sort_key po_priority rows) of
     Inl e \<Rightarrow> Inl e
   | Inr ps \<Rightarrow> Inr (\<lambda>sid. filter (\<lambda>p. po_service p = sid) ps))"

section \<open>Facts\<close>

lemma from_ent_Inr: "from_ent e = Inr p \<longleftrightarrow> p = e \<and> 0 \<le> mt_percent (po_match e) \<and> mt_percent (po_match e) \<le> 100"
  by (auto simp: from_ent_def new_match_def)

lemma collect_policies_Inr:
  "collect_policies es = Inr ps \<longleftrightarrow>
     ps = es \<and> (\<forall>e \<in> set es. 0 \<le> mt_percent (po_match e) \<and> mt_percent (po_match e) \<le> 100)"
proof (induction es arbitrary: ps)
  case (Cons e es)
  show ?case
  proof (cases "from_ent e")
    case (Inl x)
    then show ?thesis using from_ent_Inr [of e e] by auto
  next
    case (Inr p)
    then show ?thesis using Cons.IH from_ent_Inr [of e p] by (auto split: sum.splits)
  qed
qed auto

lemma all_grouped_bad_row:
  assumes "e \<in> set rows" and "mt_percent (po_match e) < 0 \<or> 100 < mt_percent (po_match e)"
  shows "\<exists>x. all_grouped rows = Inl x"
proof (cases "collect_policies (sort_key po_priority rows)")
  case (Inr ps)
  then have "\<forall>e \<in> set (sort_key po_priority rows). 0 \<le> mt_percent (po_match e) \<and> mt_percent (po_match e) \<le> 100"
    by (simp add: collect_policies_Inr)
  with assms show ?thesis by (auto simp: not_less)
qed (simp add: all_grouped_def)

lemma all_grouped_Inr:
  "all_grouped rows = Inr g \<Longrightarrow> set (g sid) = {p \<in> set rows. po_service p = sid} \<and> sorted (map po_priority (g sid))"
proof -
  assume "all_grouped rows = Inr g"
  then have g: "g = (\<lambda>sid. filter (\<lambda>p. po_service p = sid) (sort_key po_priority rows))"
    by (auto simp: all_grouped_def collect_policies_Inr split: sum.splits)
  show ?thesis by (auto simp: g sorted_filter)
qed

end
