(* ===== verification/Rate_Limiter.thy ===== *)
theory Rate_Limiter
  imports Go_Text "HOL-Library.Signed_Division"
begin

text \<open>
  The rate limiter of the data plane (\<open>internal/ratelimit\<close>): the rules and their update
  (\<open>model.go\<close>, \<open>repository.go\<close>), the in-memory fixed-window limiter (\<open>limiter.go\<close>) and the
  limiter that counts in Redis (\<open>redis_limiter.go\<close>). Both limiters provide the interface
  \<open>Backend\<close>, the locale \<open>rate_backend\<close> here. Durations are nanoseconds with the overflow of
  Go's \<open>int64\<close> written out; Redis itself is a parameter.
\<close>

section \<open>Rules\<close>

datatype rl_scope = RScopeGlobal | RScopeTenant | RScopeDomain | RScopeService | RScopeIP

record rate_limit =
  rl_scope :: rl_scope
  rl_tenant :: "uuid option"
  rl_domain :: "uuid option"
  rl_service :: "uuid option"
  rl_name :: string
  rl_limit :: int
  rl_window :: int
  rl_burst :: int
  rl_code :: int
  rl_enabled :: bool

text \<open>\<open>toModel\<close>: a stored burst of 0 reads back as the limit.\<close>

definition rl_to_model :: "rate_limit \<Rightarrow> rate_limit" where
  "rl_to_model r = (if rl_burst r = 0 then r\<lparr>rl_burst := rl_limit r\<rparr> else r)"

text \<open>The creation input: the struct tags checked by the handler, then the repository's check.\<close>

definition rl_input_valid :: "rate_limit \<Rightarrow> bool" where
  "rl_input_valid r \<longleftrightarrow>
     1 \<le> length (rl_name r) \<and> length (rl_name r) \<le> 64 \<and>
     1 \<le> rl_limit r \<and> rl_limit r \<le> 1000000 \<and>
     1 \<le> rl_window r \<and> rl_window r \<le> 86400 \<and>
     0 \<le> rl_burst r \<and> rl_burst r \<le> 1000000 \<and>
     (rl_code r = 0 \<or> 100 \<le> rl_code r \<and> rl_code r \<le> 599)"

definition rl_refs_valid :: "rate_limit \<Rightarrow> bool" where
  "rl_refs_valid r = (case rl_scope r of
     RScopeTenant \<Rightarrow> rl_tenant r \<noteq> None
   | RScopeDomain \<Rightarrow> rl_domain r \<noteq> None
   | RScopeService \<Rightarrow> rl_service r \<noteq> None
   | _ \<Rightarrow> True)"

definition rl_create :: "rate_limit \<Rightarrow> rate_limit option" where
  "rl_create r = (if \<not> rl_input_valid r \<or> \<not> rl_refs_valid r then None
     else Some (rl_to_model (r\<lparr>rl_code := (if rl_code r = 0 then 429 else rl_code r),
                               rl_enabled := True\<rparr>)))"

record rl_update =
  up_name :: "string option"
  up_limit :: "int option"
  up_window :: "int option"
  up_burst :: "int option"
  up_code :: "int option"
  up_enabled :: "bool option"

definition or_keep :: "'a option \<Rightarrow> 'a \<Rightarrow> 'a" where
  "or_keep u v = (case u of Some x \<Rightarrow> x | None \<Rightarrow> v)"

text \<open>\<open>Repository.Update\<close> writes every field the request names; the update struct has no
  validation tags and the handler calls no validator.\<close>

definition rl_apply_update :: "rate_limit \<Rightarrow> rl_update \<Rightarrow> rate_limit" where
  "rl_apply_update r u = rl_to_model (r\<lparr>
     rl_name := or_keep (up_name u) (rl_name r),
     rl_limit := or_keep (up_limit u) (rl_limit r),
     rl_window := or_keep (up_window u) (rl_window r),
     rl_burst := or_keep (up_burst u) (rl_burst r),
     rl_code := or_keep (up_code u) (rl_code r),
     rl_enabled := or_keep (up_enabled u) (rl_enabled r)\<rparr>)"

section \<open>The interface of a backend\<close>

record allowance =
  al_allowed :: bool
  al_limit :: int
  al_window :: int
  al_remain :: int
  al_retry :: int

record rl_request =
  q_key :: string
  q_limit :: int
  q_window :: int
  q_burst :: int
  q_now :: go_time

text \<open>The answer to a rule whose limit is not positive.\<close>

definition refuse_all :: "rl_request \<Rightarrow> allowance" where
  "refuse_all q = \<lparr>al_allowed = False, al_limit = q_limit q, al_window = q_window q,
                   al_remain = 0, al_retry = 0\<rparr>"

text \<open>The number of requests one window admits: the burst, but at least the limit.\<close>

definition hard_limit :: "rl_request \<Rightarrow> int" where
  "hard_limit q = (if q_burst q \<le> 0 \<or> q_burst q < q_limit q then q_limit q else q_burst q)"

lemma hard_limit_pos: "0 < q_limit q \<Longrightarrow> 1 \<le> hard_limit q"
  by (simp add: hard_limit_def)

locale rate_backend =
  fixes allow :: "'s \<Rightarrow> rl_request \<Rightarrow> ('s \<times> allowance) outcome"
  assumes allow_no_limit: "q_limit q \<le> 0 \<Longrightarrow> allow s q = Returns (s, refuse_all q)"
    and allow_echo: "allow s q = Returns (s', a) \<Longrightarrow> al_limit a = q_limit q \<and> al_window a = q_window q"
    and allow_admits: "allow s q = Returns (s', a) \<Longrightarrow> al_allowed a \<Longrightarrow> 0 \<le> al_remain a \<and> al_retry a = 0"
    and allow_refuses: "allow s q = Returns (s', a) \<Longrightarrow> \<not> al_allowed a \<Longrightarrow> al_remain a = 0"
begin

lemma admitted_limit_pos:
  assumes "allow s q = Returns (s', a)" and "al_allowed a"
  shows "0 < q_limit q"
proof (rule ccontr)
  assume "\<not> 0 < q_limit q"
  with allow_no_limit [of q s] assms have "a = refuse_all q" by simp
  with assms(2) show False by (simp add: refuse_all_def)
qed

end

section \<open>The in-memory limiter\<close>

text \<open>\<open>time.Time.Sub\<close> saturates at the ends of \<open>int64\<close>.\<close>

definition time_sub :: "go_time \<Rightarrow> go_time \<Rightarrow> int" where
  "time_sub a b = max (- (2 ^ 63)) (min (2 ^ 63 - 1) (a - b))"

record bucket =
  bk_window :: go_time
  bk_count :: int
  bk_burst :: int
  bk_limit :: int
  bk_winsec :: int

record limiter =
  lm_buckets :: "string \<rightharpoonup> bucket"
  lm_cleanup :: int
  lm_last_gc :: go_time

definition new_limiter :: "int \<Rightarrow> limiter" where
  "new_limiter c = \<lparr>lm_buckets = Map.empty, lm_cleanup = (if c \<le> 0 then 60 * second else c),
                    lm_last_gc = 0\<rparr>"

definition gc_threshold :: "limiter \<Rightarrow> go_time \<Rightarrow> go_time" where
  "gc_threshold l now = now + wrap64 (- 2 * lm_cleanup l)"

definition maybe_gc :: "limiter \<Rightarrow> go_time \<Rightarrow> limiter" where
  "maybe_gc l now =
     (if time_sub now (lm_last_gc l) < lm_cleanup l then l
      else l\<lparr>lm_last_gc := now,
             lm_buckets := (\<lambda>k. case lm_buckets l k of
                 None \<Rightarrow> None
               | Some b \<Rightarrow> if bk_window b < gc_threshold l now then None else Some b)\<rparr>)"

definition window_ns :: "int \<Rightarrow> int" where
  "window_ns w = wrap64 (w * second)"

definition fresh_bucket :: "rl_request \<Rightarrow> bucket" where
  "fresh_bucket q = \<lparr>bk_window = q_now q, bk_count = 0, bk_burst = q_burst q,
                     bk_limit = q_limit q, bk_winsec = q_window q\<rparr>"

definition same_config :: "bucket \<Rightarrow> rl_request \<Rightarrow> bool" where
  "same_config b q \<longleftrightarrow> bk_limit b = q_limit q \<and> bk_winsec b = q_window q \<and> bk_burst b = q_burst q"

text \<open>The bucket of the request: the one in the map, or a new one when there is none or when it
  was made for another configuration.\<close>

definition bucket_for :: "limiter \<Rightarrow> rl_request \<Rightarrow> bucket" where
  "bucket_for l q = (case lm_buckets l (q_key q) of
     None \<Rightarrow> fresh_bucket q
   | Some b \<Rightarrow> if same_config b q then b else fresh_bucket q)"

text \<open>The window restarts once it is over.\<close>

definition roll_window :: "bucket \<Rightarrow> go_time \<Rightarrow> bucket" where
  "roll_window b now =
     (if window_ns (bk_winsec b) \<le> time_sub now (bk_window b)
      then b\<lparr>bk_window := now, bk_count := 0\<rparr> else b)"

definition retry_after :: "int \<Rightarrow> int \<Rightarrow> int" where
  "retry_after winsec elapsed =
     (let rest = wrap64 (window_ns winsec - elapsed)
      in if 0 < rest then wrap64 (rest + second - 1) sdiv second else 1)"

definition mem_allow :: "limiter \<Rightarrow> rl_request \<Rightarrow> limiter \<times> allowance" where
  "mem_allow l q =
     (if q_limit q \<le> 0 then (l, refuse_all q)
      else
        let l1 = maybe_gc l (q_now q);
            b0 = bucket_for l1 q;
            b = roll_window b0 (q_now q);
            hard = hard_limit q
        in if hard \<le> bk_count b
           then (l1\<lparr>lm_buckets := (lm_buckets l1)(q_key q \<mapsto> b)\<rparr>,
                 \<lparr>al_allowed = False, al_limit = q_limit q, al_window = q_window q, al_remain = 0,
                  al_retry = retry_after (bk_winsec b) (time_sub (q_now q) (bk_window b0))\<rparr>)
           else (l1\<lparr>lm_buckets := (lm_buckets l1)(q_key q \<mapsto> b\<lparr>bk_count := bk_count b + 1\<rparr>)\<rparr>,
                 \<lparr>al_allowed = True, al_limit = q_limit q, al_window = q_window q,
                  al_remain = max 0 (hard - (bk_count b + 1)), al_retry = 0\<rparr>))"

definition mem_backend :: "limiter \<Rightarrow> rl_request \<Rightarrow> (limiter \<times> allowance) outcome" where
  "mem_backend l q = Returns (mem_allow l q)"

interpretation mem: rate_backend mem_backend
  by unfold_locales
    (auto simp: mem_backend_def mem_allow_def refuse_all_def Let_def split: if_splits)

text \<open>A sequence of requests, in the order the mutex lets them in.\<close>

fun serve :: "limiter \<Rightarrow> rl_request list \<Rightarrow> limiter \<times> (rl_request \<times> allowance) list" where
  "serve l [] = (l, [])"
| "serve l (q # qs) =
     (let (l1, a) = mem_allow l q; (l2, out) = serve l1 qs in (l2, (q, a) # out))"

section \<open>The Redis limiter\<close>

text \<open>
  Redis is a parameter: \<open>incr r k w\<close> is the pipeline of \<open>INCR k\<close> and \<open>EXPIRE k w\<close> (the new
  state and the count, None when the pipeline fails) and \<open>ttl r k\<close> the remaining life of a key
  in nanoseconds.
\<close>

definition unix :: "go_time \<Rightarrow> int" where
  "unix t = t div second - 62135596800"

fun digits_loop :: "nat \<Rightarrow> string \<Rightarrow> string" where
  "digits_loop v acc = (if 0 < v then digits_loop (v div 10) (digit_char (v mod 10) # acc) else acc)"

declare digits_loop.simps [simp del]

definition itoa64 :: "int \<Rightarrow> string" where
  "itoa64 v = (if v = 0 then ''0''
     else let neg = v < 0; u = (if neg then wrap64 (- v) else v);
              ds = digits_loop (nat u) []
          in if neg then CHR ''-'' # ds else ds)"

text \<open>Integer division panics on a zero divisor.\<close>

definition fixed_window_key :: "string \<Rightarrow> string \<Rightarrow> int \<Rightarrow> go_time \<Rightarrow> string outcome" where
  "fixed_window_key prefix key win now =
     (if win = 0 then Panics
      else let b = unix now sdiv win
           in Returns (if prefix = '''' then ''rl:'' @ key @ '':'' @ itoa64 b
                       else prefix @ '':rl:'' @ key @ '':'' @ itoa64 b))"

definition redis_allow ::
  "('r \<Rightarrow> string \<Rightarrow> int \<Rightarrow> 'r \<times> int option) \<Rightarrow> ('r \<Rightarrow> string \<Rightarrow> int) \<Rightarrow> string \<Rightarrow>
   'r \<Rightarrow> rl_request \<Rightarrow> ('r \<times> allowance) outcome" where
  "redis_allow incr ttl prefix r q =
     (if q_limit q \<le> 0 then Returns (r, refuse_all q)
      else case fixed_window_key prefix (q_key q) (q_window q) (q_now q) of
        Panics \<Rightarrow> Panics
      | Returns k \<Rightarrow>
          (case incr r k (window_ns (q_window q)) of
             (r1, None) \<Rightarrow> Returns (r1, \<lparr>al_allowed = True, al_limit = q_limit q,
                 al_window = q_window q, al_remain = q_limit q, al_retry = 0\<rparr>)
           | (r1, Some n) \<Rightarrow>
               let hard = hard_limit q
               in if hard < n
                  then Returns (r1, \<lparr>al_allowed = False, al_limit = q_limit q,
                      al_window = q_window q, al_remain = 0,
                      al_retry = (if 0 < ttl r1 k then wrap64 (ttl r1 k + second - 1) sdiv second else 1)\<rparr>)
                  else Returns (r1, \<lparr>al_allowed = True, al_limit = q_limit q,
                      al_window = q_window q, al_remain = max 0 (hard - n), al_retry = 0\<rparr>)))"

interpretation redis: rate_backend "redis_allow incr ttl prefix" for incr ttl prefix
  by unfold_locales
    (auto simp: redis_allow_def refuse_all_def Let_def
      split: if_splits outcome.splits prod.splits option.splits)

section \<open>Facts about one decision\<close>

lemma time_sub_ge: "W \<le> 2 ^ 63 - 1 \<Longrightarrow> - (2 ^ 63) < W \<Longrightarrow> W \<le> time_sub a b \<longleftrightarrow> W \<le> a - b"
  by (auto simp: time_sub_def)

lemma window_ns_bound: "window_ns w \<le> 2 ^ 63 - 1" "- (2 ^ 63) \<le> window_ns w"
  by (simp_all add: window_ns_def wrap64_def)

lemma window_ns_exact: "0 \<le> w \<Longrightarrow> w * second < 2 ^ 63 \<Longrightarrow> window_ns w = w * second"
  by (simp add: window_ns_def wrap64_id second_def)

lemma gc_threshold_exact:
  "0 < lm_cleanup l \<Longrightarrow> 2 * lm_cleanup l < 2 ^ 63 \<Longrightarrow> gc_threshold l now = now - 2 * lm_cleanup l"
  by (simp add: gc_threshold_def wrap64_id)

lemma maybe_gc_cleanup [frame_simps]: "lm_cleanup (maybe_gc l now) = lm_cleanup l"
  by (simp add: maybe_gc_def)

lemma mem_allow_cleanup [frame_simps]: "lm_cleanup (fst (mem_allow l q)) = lm_cleanup l"
  by (simp add: mem_allow_def Let_def frame_simps)

lemma maybe_gc_sub: "lm_buckets (maybe_gc l now) k = Some b \<Longrightarrow> lm_buckets l k = Some b"
  by (auto simp: maybe_gc_def split: if_splits option.splits)

lemma maybe_gc_gone:
  "lm_buckets (maybe_gc l now) k = None \<Longrightarrow> lm_buckets l k = Some b \<Longrightarrow> bk_window b < gc_threshold l now"
  by (auto simp: maybe_gc_def split: if_splits)

lemma mem_allow_other:
  "k \<noteq> q_key q \<Longrightarrow> 0 < q_limit q \<Longrightarrow>
   lm_buckets (fst (mem_allow l q)) k = lm_buckets (maybe_gc l (q_now q)) k"
  by (simp add: mem_allow_def Let_def)

lemma hard_limit_max: "0 < q_limit q \<Longrightarrow> hard_limit q = max (q_limit q) (q_burst q)"
  by (auto simp: hard_limit_def)

text \<open>The bucket a positive rule decides on.\<close>

definition live_bucket :: "limiter \<Rightarrow> rl_request \<Rightarrow> bucket" where
  "live_bucket l q = roll_window (bucket_for (maybe_gc l (q_now q)) q) (q_now q)"

lemma mem_allow_iff:
  "0 < q_limit q \<Longrightarrow>
   al_allowed (snd (mem_allow l q)) \<longleftrightarrow> bk_count (live_bucket l q) < hard_limit q"
  by (auto simp: mem_allow_def live_bucket_def Let_def)

lemma mem_allow_own:
  "0 < q_limit q \<Longrightarrow>
   lm_buckets (fst (mem_allow l q)) (q_key q) =
     Some (if al_allowed (snd (mem_allow l q))
           then (live_bucket l q)\<lparr>bk_count := bk_count (live_bucket l q) + 1\<rparr>
           else live_bucket l q)"
  by (simp add: mem_allow_def live_bucket_def Let_def)

lemma live_bucket_config: "same_config (live_bucket l q) q"
  by (auto simp: live_bucket_def roll_window_def bucket_for_def same_config_def fresh_bucket_def
      split: option.splits)

section \<open>Counting admissions\<close>

text \<open>The times at which requests of a key were admitted, and how many lie in an interval.\<close>

definition admissions :: "string \<Rightarrow> (rl_request \<times> allowance) list \<Rightarrow> go_time list" where
  "admissions k out = map (\<lambda>(q, a). q_now q) (filter (\<lambda>(q, a). q_key q = k \<and> al_allowed a) out)"

definition within :: "go_time list \<Rightarrow> go_time \<Rightarrow> go_time \<Rightarrow> int" where
  "within A lo hi = int (length (filter (\<lambda>a. lo \<le> a \<and> a < hi) A))"

definition admitted :: "string \<Rightarrow> go_time \<Rightarrow> go_time \<Rightarrow> (rl_request \<times> allowance) list \<Rightarrow> int" where
  "admitted k lo hi out = within (admissions k out) lo hi"

lemma admissions_simps [simp]:
  "admissions k [] = []"
  "admissions k (xs @ ys) = admissions k xs @ admissions k ys"
  "admissions k [(q, a)] = (if q_key q = k \<and> al_allowed a then [q_now q] else [])"
  by (simp_all add: admissions_def)

lemma within_simps [simp]:
  "within [] lo hi = 0"
  "within (A @ B) lo hi = within A lo hi + within B lo hi"
  "within [a] lo hi = (if lo \<le> a \<and> a < hi then 1 else 0)"
  by (simp_all add: within_def)

lemma within_nonneg [simp]: "0 \<le> within A lo hi"
  by (simp add: within_def)

lemma within_mono:
  assumes "\<And>a. a \<in> set A \<Longrightarrow> lo \<le> a \<Longrightarrow> a < hi \<Longrightarrow> lo' \<le> a \<and> a < hi'"
  shows "within A lo hi \<le> within A lo' hi'"
  using assms
proof (induction A)
  case (Cons a A)
  then have "within A lo hi \<le> within A lo' hi'" by simp
  moreover have "within [a] lo hi \<le> within [a] lo' hi'" using Cons.prems [of a] by simp
  ultimately show ?case
    using within_simps(2) [of "[a]" A lo hi] within_simps(2) [of "[a]" A lo' hi'] by simp
qed simp

lemma within_split: "lo \<le> m \<Longrightarrow> m \<le> hi \<Longrightarrow> within A lo hi = within A lo m + within A m hi"
proof (induction A)
  case (Cons a A)
  moreover have "within [a] lo hi = within [a] lo m + within [a] m hi" using Cons.prems by auto
  ultimately show ?case
    using within_simps(2) [of "[a]" A lo hi] within_simps(2) [of "[a]" A lo m]
      within_simps(2) [of "[a]" A m hi] by simp
qed simp

lemma within_empty: "(\<And>a. a \<in> set A \<Longrightarrow> a < lo) \<Longrightarrow> within A lo hi = 0"
  by (fastforce simp: within_def filter_empty_conv)

section \<open>The window invariant\<close>

text \<open>
  What the limiter maintains for a key whose requests carry one configuration: the bucket counts
  the admissions of its window, at most \<open>N\<close>; at most \<open>N\<close> admissions lie in the window's length
  before it; and no interval of a window's length holds more than \<open>2 * N\<close>. \<open>A\<close> are the
  admission times of the key, \<open>t\<close> the time of the last request.
\<close>

definition sliding_ok :: "int \<Rightarrow> int \<Rightarrow> go_time list \<Rightarrow> bool" where
  "sliding_ok W N A \<longleftrightarrow> (\<forall>s. within A s (s + W) \<le> 2 * N)"

definition bucket_ok :: "int \<Rightarrow> int \<Rightarrow> go_time list \<Rightarrow> go_time \<Rightarrow> bucket \<Rightarrow> bool" where
  "bucket_ok W N A t b \<longleftrightarrow>
     bk_window b \<le> t \<and> bk_count b = within A (bk_window b) (bk_window b + W) \<and> bk_count b \<le> N \<and>
     (\<forall>a \<in> set A. a < bk_window b + W) \<and> within A (bk_window b - W) (bk_window b) \<le> N"

definition absent_ok :: "int \<Rightarrow> int \<Rightarrow> go_time list \<Rightarrow> go_time \<Rightarrow> bool" where
  "absent_ok W N A t \<longleftrightarrow> (\<forall>a \<in> set A. a < t) \<and> within A (t - W) t \<le> N"

definition key_ok :: "int \<Rightarrow> int \<Rightarrow> go_time list \<Rightarrow> go_time \<Rightarrow> bucket option \<Rightarrow> bool" where
  "key_ok W N A t bo \<longleftrightarrow> sliding_ok W N A \<and>
     (case bo of None \<Rightarrow> absent_ok W N A t | Some b \<Rightarrow> bucket_ok W N A t b)"

lemma bucket_ok_later: "bucket_ok W N A t b \<Longrightarrow> t \<le> t' \<Longrightarrow> bucket_ok W N A t' b"
  by (simp add: bucket_ok_def)

lemma absent_ok_later:
  assumes "absent_ok W N A t" and "t \<le> t'"
  shows "absent_ok W N A t'"
proof -
  have "within A (t' - W) t' \<le> within A (t - W) t"
    using assms by (intro within_mono) (auto simp: absent_ok_def)
  with assms show ?thesis by (force simp: absent_ok_def)
qed

text \<open>A bucket whose window is over can be forgotten.\<close>

lemma bucket_ok_gone:
  assumes "bucket_ok W N A t b" and "bk_window b + W \<le> t'"
  shows "absent_ok W N A t'"
proof -
  have "within A (t' - W) t' \<le> within A (bk_window b) (bk_window b + W)"
    using assms by (intro within_mono) (auto simp: bucket_ok_def)
  with assms show ?thesis by (force simp: absent_ok_def bucket_ok_def)
qed

lemma fresh_bucket_ok:
  "absent_ok W N A t \<Longrightarrow> 0 < W \<Longrightarrow> 0 \<le> N \<Longrightarrow> bk_window b = t \<Longrightarrow> bk_count b = 0 \<Longrightarrow> bucket_ok W N A t b"
  by (force simp: absent_ok_def bucket_ok_def within_empty)

lemma bucket_ok_admit:
  assumes b: "bucket_ok W N A t b" and s: "sliding_ok W N A"
    and room: "bk_count b < N" and open_w: "t < bk_window b + W"
  shows "bucket_ok W N (A @ [t]) t (b\<lparr>bk_count := bk_count b + 1\<rparr>) \<and> sliding_ok W N (A @ [t])"
proof -
  let ?w = "bk_window b" and ?A = "A @ [t]"
  have w: "?w \<le> t" and c: "bk_count b = within A ?w (?w + W)"
    and l: "\<forall>a \<in> set A. a < ?w + W" and p: "within A (?w - W) ?w \<le> N"
    using b by (simp_all add: bucket_ok_def)
  have own: "within ?A ?w (?w + W) = bk_count b + 1" and prev: "within ?A (?w - W) ?w \<le> N"
    using w c p open_w by auto
  have "within ?A s (s + W) \<le> 2 * N" for s
  proof (cases "s \<le> t \<and> t < s + W")
    case False
    with s show ?thesis by (auto simp: sliding_ok_def)
  next
    case True
    have hi: "within ?A (max s ?w) (s + W) \<le> within ?A ?w (?w + W)"
      using open_w l by (intro within_mono) auto
    show ?thesis
    proof (cases "s < ?w")
      case False
      then have "max s ?w = s" by simp
      with hi own have "within ?A s (s + W) \<le> bk_count b + 1" by metis
      moreover have "0 \<le> bk_count b" using c by simp
      ultimately show ?thesis using room by linarith
    next
      case less: True
      have "within ?A s ?w \<le> within ?A (?w - W) ?w"
        using True w by (intro within_mono) auto
      moreover have "within ?A s (s + W) = within ?A s ?w + within ?A ?w (s + W)"
        using less True w by (intro within_split) auto
      moreover have "within ?A ?w (s + W) \<le> bk_count b + 1"
        using hi own less by (simp add: max_def del: within_simps)
      ultimately show ?thesis using prev room by linarith
    qed
  qed
  with own prev w open_w l room show ?thesis
    by (auto simp: bucket_ok_def sliding_ok_def)
qed

text \<open>The sweep and the renewal of a bucket keep it.\<close>

lemma key_ok_gc:
  assumes "key_ok W N A t (lm_buckets l k)" and "t \<le> t'"
    and "0 < lm_cleanup l" "2 * lm_cleanup l < 2 ^ 63" "W \<le> 2 * lm_cleanup l"
  shows "key_ok W N A t' (lm_buckets (maybe_gc l t') k)"
proof (cases "lm_buckets (maybe_gc l t') k")
  case (Some b)
  then have "lm_buckets l k = Some b" by (rule maybe_gc_sub)
  with Some assms show ?thesis by (auto simp: key_ok_def intro: bucket_ok_later)
next
  case gone: None
  show ?thesis
  proof (cases "lm_buckets l k")
    case None
    with gone assms show ?thesis by (auto simp: key_ok_def intro: absent_ok_later)
  next
    case (Some b)
    with gone have "bk_window b < gc_threshold l t'" by (rule maybe_gc_gone)
    with assms have "bk_window b + W \<le> t'" by (simp add: gc_threshold_exact)
    with Some gone assms(1) show ?thesis by (auto simp: key_ok_def intro: bucket_ok_gone)
  qed
qed

lemma key_ok_live:
  assumes ok: "key_ok W N A (q_now q) (lm_buckets (maybe_gc l (q_now q)) (q_key q))"
    and conf: "\<And>b. lm_buckets (maybe_gc l (q_now q)) (q_key q) = Some b \<Longrightarrow> same_config b q"
    and W: "W = window_ns (q_window q)" "0 < W" and "0 \<le> N"
  shows "bucket_ok W N A (q_now q) (live_bucket l q) \<and> q_now q < bk_window (live_bucket l q) + W"
proof (cases "lm_buckets (maybe_gc l (q_now q)) (q_key q)")
  case None
  then have live: "live_bucket l q = fresh_bucket q"
    using W by (simp add: live_bucket_def bucket_for_def roll_window_def fresh_bucket_def time_sub_def)
  from None ok assms show ?thesis
    unfolding live by (simp add: key_ok_def fresh_bucket_def fresh_bucket_ok)
next
  case (Some b)
  then have b: "same_config b q" "bucket_ok W N A (q_now q) b"
    using conf ok by (auto simp: key_ok_def)
  have winsec: "window_ns (bk_winsec b) = W" using b W by (simp add: same_config_def)
  have live: "live_bucket l q = roll_window b (q_now q)"
    using Some b by (simp add: live_bucket_def bucket_for_def)
  have over: "W \<le> time_sub (q_now q) (bk_window b) \<longleftrightarrow> bk_window b + W \<le> q_now q"
    using W window_ns_bound [of "q_window q"] by (subst time_sub_ge) auto
  show ?thesis
  proof (cases "bk_window b + W \<le> q_now q")
    case True
    with b have "absent_ok W N A (q_now q)" by (blast intro: bucket_ok_gone)
    with True over winsec W assms(5) show ?thesis
      unfolding live roll_window_def by (simp add: fresh_bucket_ok)
  next
    case False
    with over winsec b show ?thesis unfolding live roll_window_def by simp
  qed
qed

lemma key_ok_later: "key_ok W N A t bo \<Longrightarrow> t \<le> t' \<Longrightarrow> key_ok W N A t' bo"
  by (auto simp: key_ok_def intro: bucket_ok_later absent_ok_later split: option.splits)

text \<open>The configuration of a bucket, and a request that follows it.\<close>

definition has_config :: "int \<Rightarrow> int \<Rightarrow> int \<Rightarrow> bucket \<Rightarrow> bool" where
  "has_config L w B b \<longleftrightarrow> bk_limit b = L \<and> bk_winsec b = w \<and> bk_burst b = B"

definition follows :: "int \<Rightarrow> int \<Rightarrow> int \<Rightarrow> rl_request \<Rightarrow> bool" where
  "follows L w B q \<longleftrightarrow> q_limit q = L \<and> q_window q = w \<and> q_burst q = B"

definition limiter_ok :: "string \<Rightarrow> int \<Rightarrow> int \<Rightarrow> int \<Rightarrow> go_time list \<Rightarrow> go_time \<Rightarrow> limiter \<Rightarrow> bool" where
  "limiter_ok k L w B A t l \<longleftrightarrow>
     key_ok (window_ns w) (max L B) A t (lm_buckets l k) \<and>
     (\<forall>b. lm_buckets l k = Some b \<longrightarrow> has_config L w B b)"

lemma limiter_ok_step_other:
  assumes "limiter_ok k L w B A t l" and "t \<le> q_now q" and "q_key q \<noteq> k"
    and "0 < lm_cleanup l" "2 * lm_cleanup l < 2 ^ 63" "window_ns w \<le> 2 * lm_cleanup l"
  shows "limiter_ok k L w B A (q_now q) (fst (mem_allow l q))"
proof (cases "0 < q_limit q")
  case True
  with assms show ?thesis
    by (auto simp: limiter_ok_def mem_allow_other key_ok_gc dest: maybe_gc_sub)
next
  case False
  with assms show ?thesis
    by (auto simp: limiter_ok_def mem_allow_def intro: key_ok_later)
qed

lemma limiter_ok_step_own:
  assumes ok: "limiter_ok (q_key q) L w B A t l" and t: "t \<le> q_now q" and f: "follows L w B q"
    and L: "0 < L" and W: "0 < window_ns w"
    and c: "0 < lm_cleanup l" "2 * lm_cleanup l < 2 ^ 63" "window_ns w \<le> 2 * lm_cleanup l"
  shows "limiter_ok (q_key q) L w B (A @ (if al_allowed (snd (mem_allow l q)) then [q_now q] else []))
           (q_now q) (fst (mem_allow l q))"
proof -
  let ?b = "live_bucket l q" and ?W = "window_ns w" and ?N = "max L B"
  have q: "q_limit q = L" "q_window q = w" "q_burst q = B" using f by (simp_all add: follows_def)
  have gc: "key_ok ?W ?N A (q_now q) (lm_buckets (maybe_gc l (q_now q)) (q_key q))"
    using ok t c by (auto simp: limiter_ok_def intro: key_ok_gc)
  have "\<And>b. lm_buckets (maybe_gc l (q_now q)) (q_key q) = Some b \<Longrightarrow> same_config b q"
    using ok q by (auto simp: limiter_ok_def has_config_def same_config_def dest: maybe_gc_sub)
  then have b: "bucket_ok ?W ?N A (q_now q) ?b" "q_now q < bk_window ?b + ?W"
    using key_ok_live [OF gc, simplified q, OF _ refl W] L by auto
  have sl: "sliding_ok ?W ?N A" using gc by (simp add: key_ok_def)
  have cfg: "has_config L w B ?b"
    using live_bucket_config [of l q] q by (simp add: has_config_def same_config_def)
  have own: "lm_buckets (fst (mem_allow l q)) (q_key q) =
      Some (if al_allowed (snd (mem_allow l q)) then ?b\<lparr>bk_count := bk_count ?b + 1\<rparr> else ?b)"
    using L q by (intro mem_allow_own) simp
  show ?thesis
  proof (cases "al_allowed (snd (mem_allow l q))")
    case True
    then have "bk_count ?b < ?N" using L q by (simp add: mem_allow_iff hard_limit_max)
    with b sl have "bucket_ok ?W ?N (A @ [q_now q]) (q_now q) (?b\<lparr>bk_count := bk_count ?b + 1\<rparr>)"
      "sliding_ok ?W ?N (A @ [q_now q])"
      using bucket_ok_admit by blast+
    with own True cfg show ?thesis by (simp add: limiter_ok_def key_ok_def has_config_def)
  next
    case False
    with own b sl cfg show ?thesis by (simp add: limiter_ok_def key_ok_def)
  qed
qed

lemma serve_snoc:
  "serve l (qs @ [q]) =
     (let (l1, out) = serve l qs; (l2, a) = mem_allow l1 q in (l2, out @ [(q, a)]))"
  by (induction qs arbitrary: l) (auto simp: Let_def split: prod.splits)

lemma serve_cleanup [frame_simps]: "lm_cleanup (fst (serve l qs)) = lm_cleanup l"
proof (induction qs arbitrary: l)
  case (Cons q qs)
  show ?case
    using Cons.IH [of "fst (mem_allow l q)"]
    by (simp add: frame_simps Let_def case_prod_beta)
qed simp

lemma limiter_ok_serve:
  assumes "sorted (map q_now qs)" and "\<And>q. q \<in> set qs \<Longrightarrow> q_key q = k \<Longrightarrow> follows L w B q"
    and "0 < L" "0 < window_ns w" "0 < c" "2 * c < 2 ^ 63" "window_ns w \<le> 2 * c"
    and "\<And>q. q \<in> set qs \<Longrightarrow> q_now q \<le> t"
  shows "limiter_ok k L w B (admissions k (snd (serve (new_limiter c) qs))) t
           (fst (serve (new_limiter c) qs))"
  using assms(1,2,8)
proof (induction qs arbitrary: t rule: rev_induct)
  case Nil
  then show ?case
    using \<open>0 < L\<close>
    by (simp add: limiter_ok_def key_ok_def sliding_ok_def absent_ok_def new_limiter_def)
next
  case (snoc q qs)
  let ?r = "serve (new_limiter c) qs"
  have "limiter_ok k L w B (admissions k (snd ?r)) (q_now q) (fst ?r)"
    using snoc.prems by (intro snoc.IH) (auto simp: sorted_append)
  moreover have c: "lm_cleanup (fst ?r) = c"
    using \<open>0 < c\<close> by (simp add: frame_simps new_limiter_def)
  ultimately have "limiter_ok k L w B
      (admissions k (snd ?r @ [(q, snd (mem_allow (fst ?r) q))])) (q_now q) (fst (mem_allow (fst ?r) q))"
    using assms(3-7) snoc.prems(2) [of q]
      limiter_ok_step_own [of q L w B "admissions k (snd ?r)" "q_now q" "fst ?r"]
      limiter_ok_step_other [of k L w B "admissions k (snd ?r)" "q_now q" "fst ?r" q]
    by (cases "q_key q = k") (auto split: if_splits)
  moreover have "q_now q \<le> t" using snoc.prems(3) by simp
  ultimately have "limiter_ok k L w B
      (admissions k (snd ?r @ [(q, snd (mem_allow (fst ?r) q))])) t (fst (mem_allow (fst ?r) q))"
    by (auto simp: limiter_ok_def intro: key_ok_later)
  then show ?case by (auto simp: serve_snoc Let_def split: prod.splits)
qed

text \<open>Property C5. \<open>Limiter.Allow\<close> enforces its quota: for a key whose requests all carry the same
  rule (\<open>limit\<close> per \<open>window\<close> seconds, with a burst) no stretch of time as long as the window
  contains more than twice the larger of limit and burst admissions, whatever other keys are
  served in between and however often the sweep runs, as long as the window is at most two
  cleanup periods.
\<close>

theorem sliding_window_bound:
  assumes "sorted (map q_now qs)"
    and "\<forall>q \<in> set qs. q_key q = k \<longrightarrow> q_limit q = limit \<and> q_window q = window \<and> q_burst q = burst"
    and "0 < limit" "0 < window" "0 < cleanup" "2 * cleanup < 2 ^ 63" "window * second \<le> 2 * cleanup"
  shows "admitted k s (s + window * second) (snd (serve (new_limiter cleanup) qs)) \<le> 2 * max limit burst"
proof -
  have W: "window_ns window = window * second"
    using assms by (intro window_ns_exact) auto
  obtain t where t: "\<And>q. q \<in> set qs \<Longrightarrow> q_now q \<le> t"
    by (metis List.finite_set Max_ge finite_imageI imageI)
  have "0 < window_ns window" using W assms by (simp add: second_def)
  then have "limiter_ok k limit window burst (admissions k (snd (serve (new_limiter cleanup) qs))) t
      (fst (serve (new_limiter cleanup) qs))"
    using assms t W by (intro limiter_ok_serve) (auto simp: follows_def)
  then show ?thesis
    using W by (simp add: limiter_ok_def key_ok_def sliding_ok_def admitted_def)
qed

definition five_requests :: "rl_request list" where
  "five_requests = map (\<lambda>(k, t). \<lparr>q_key = k, q_limit = 1, q_window = 120, q_burst = 2, q_now = t * second\<rparr>)
     [(''ip:a'', 0), (''ip:a'', 10), (''ip:b'', 20), (''ip:a'', 30), (''ip:a'', 121)]"

lemma sliding_window_bound_witness:
  "admitted ''ip:a'' 0 (0 + 120 * second) (snd (serve (new_limiter (60 * second)) five_requests)) \<le> 2 * max 1 2"
proof (rule sliding_window_bound)
  show "sorted (map q_now five_requests)"
    and "\<forall>q \<in> set five_requests. q_key q = ''ip:a'' \<longrightarrow> q_limit q = 1 \<and> q_window q = 120 \<and> q_burst q = 2"
    by (simp_all add: five_requests_def second_def)
qed (simp_all add: second_def)

section \<open>Refusals\<close>

text \<open>Whatever the configuration, a bucket never counts more than was admitted in its window.\<close>

definition counted_ok :: "limiter \<Rightarrow> (rl_request \<times> allowance) list \<Rightarrow> go_time \<Rightarrow> bool" where
  "counted_ok l out t \<longleftrightarrow> (\<forall>k b. lm_buckets l k = Some b \<longrightarrow>
     bk_window b \<le> t \<and> bk_count b \<le> within (admissions k out) (bk_window b) (t + 1))"

lemma counted_ok_bucket:
  assumes "counted_ok l out t" and "t \<le> q_now q"
  shows "bk_window (live_bucket l q) \<le> q_now q \<and>
    bk_count (live_bucket l q) \<le>
      within (admissions (q_key q) out) (bk_window (live_bucket l q)) (q_now q + 1)"
proof (cases "lm_buckets (maybe_gc l (q_now q)) (q_key q)")
  case None
  then show ?thesis by (simp add: live_bucket_def bucket_for_def roll_window_def fresh_bucket_def)
next
  case (Some b)
  then have b: "bk_window b \<le> t" "bk_count b \<le> within (admissions (q_key q) out) (bk_window b) (t + 1)"
    using assms(1) by (auto simp: counted_ok_def dest: maybe_gc_sub)
  moreover have "within (admissions (q_key q) out) (bk_window b) (t + 1) \<le>
      within (admissions (q_key q) out) (bk_window b) (q_now q + 1)"
    using assms(2) by (intro within_mono) auto
  ultimately show ?thesis
    using Some assms(2) by (auto simp: live_bucket_def bucket_for_def roll_window_def fresh_bucket_def)
qed

lemma counted_ok_later:
  assumes "counted_ok l out t" and "t \<le> t'"
    and "\<And>k b. lm_buckets l' k = Some b \<Longrightarrow> lm_buckets l k = Some b"
  shows "counted_ok l' (out @ extra) t'"
proof (unfold counted_ok_def, intro allI impI)
  fix k b
  assume "lm_buckets l' k = Some b"
  then have "bk_window b \<le> t" "bk_count b \<le> within (admissions k out) (bk_window b) (t + 1)"
    using assms by (auto simp: counted_ok_def)
  moreover have "within (admissions k out) (bk_window b) (t + 1) \<le>
      within (admissions k out) (bk_window b) (t' + 1)"
    using assms(2) by (intro within_mono) auto
  moreover have "0 \<le> within (admissions k extra) (bk_window b) (t' + 1)" by simp
  ultimately show "bk_window b \<le> t' \<and>
      bk_count b \<le> within (admissions k (out @ extra)) (bk_window b) (t' + 1)"
    using assms(2) by (simp del: within_nonneg)
qed

lemma counted_ok_step:
  assumes ok: "counted_ok l out t" and t: "t \<le> q_now q"
  shows "counted_ok (fst (mem_allow l q)) (out @ [(q, snd (mem_allow l q))]) (q_now q)"
proof (cases "0 < q_limit q")
  case False
  then have "fst (mem_allow l q) = l" by (simp add: mem_allow_def)
  with ok t show ?thesis by (auto intro: counted_ok_later)
next
  case True
  let ?l = "fst (mem_allow l q)" and ?a = "snd (mem_allow l q)" and ?b = "live_bucket l q"
  have rest: "counted_ok (maybe_gc l (q_now q)) (out @ [(q, ?a)]) (q_now q)"
    using ok t by (rule counted_ok_later) (rule maybe_gc_sub)
  have live: "bk_window ?b \<le> q_now q"
    "bk_count ?b \<le> within (admissions (q_key q) out) (bk_window ?b) (q_now q + 1)"
    using counted_ok_bucket [OF ok t] by auto
  show ?thesis
  proof (unfold counted_ok_def, intro allI impI)
    fix k b
    assume b: "lm_buckets ?l k = Some b"
    show "bk_window b \<le> q_now q \<and>
        bk_count b \<le> within (admissions k (out @ [(q, ?a)])) (bk_window b) (q_now q + 1)"
    proof (cases "k = q_key q")
      case True
      with b mem_allow_own [OF \<open>0 < q_limit q\<close>, of l] live show ?thesis by (auto split: if_splits)
    next
      case False
      then have "lm_buckets (maybe_gc l (q_now q)) k = Some b"
        using b mem_allow_other [of k q l] \<open>0 < q_limit q\<close> by simp
      with rest show ?thesis unfolding counted_ok_def by blast
    qed
  qed
qed

lemma counted_ok_serve:
  "sorted (map q_now qs) \<Longrightarrow> (\<And>q. q \<in> set qs \<Longrightarrow> q_now q \<le> t) \<Longrightarrow>
   counted_ok (fst (serve (new_limiter c) qs)) (snd (serve (new_limiter c) qs)) t"
proof (induction qs arbitrary: t rule: rev_induct)
  case Nil
  then show ?case by (simp add: counted_ok_def new_limiter_def)
next
  case (snoc q qs)
  let ?r = "serve (new_limiter c) qs"
  have "counted_ok (fst ?r) (snd ?r) (q_now q)"
    using snoc.prems by (intro snoc.IH) (auto simp: sorted_append)
  then have "counted_ok (fst (mem_allow (fst ?r) q)) (snd ?r @ [(q, snd (mem_allow (fst ?r) q))]) (q_now q)"
    by (rule counted_ok_step) simp
  from counted_ok_later [OF this, of t "fst (mem_allow (fst ?r) q)" "[]"]
  have "counted_ok (fst (mem_allow (fst ?r) q)) (snd ?r @ [(q, snd (mem_allow (fst ?r) q))]) t"
    using snoc.prems(2) [of q] by simp
  then show ?case by (simp add: serve_snoc Let_def case_prod_beta)
qed

text \<open>The wait a refusal names reaches the end of the window and is never longer than it.\<close>

lemma sdiv_pos: "0 \<le> (a::int) \<Longrightarrow> 0 < b \<Longrightarrow> a sdiv b = a div b"
  by (simp add: signed_divide_int_def sgn_if)

lemma retry_after_bounds:
  assumes "1 \<le> w" "w \<le> 86400" "0 \<le> e" "e < w * second"
  shows "1 \<le> retry_after w e \<and> retry_after w e \<le> w \<and> w * second \<le> e + retry_after w e * second"
proof -
  have "w * second \<le> 86400 * second" using assms by (simp add: second_def)
  then have W: "window_ns w = w * second" and rest: "wrap64 (w * second - e) = w * second - e"
    and top: "wrap64 (w * second - e + second - 1) = w * second - e + second - 1"
    using assms by (simp_all add: window_ns_exact wrap64_id second_def)
  define x where "x = w * second - e + second - 1"
  have r: "retry_after w e = x div second"
    unfolding retry_after_def W rest Let_def top x_def using assms
    by (subst sdiv_pos) (simp_all add: second_def)
  have "second * (x div second) + x mod second = x" and "0 \<le> x mod second" "x mod second < second"
    by (simp_all add: second_def)
  moreover have "x = w * second - e + second - 1" and "(w + 1) * second = w * second + second"
    by (simp_all add: x_def distrib_right)
  ultimately have lo: "w * second - e \<le> second * (x div second)"
    and hi: "second * (x div second) < (w + 1) * second"
    using assms by linarith+
  have "0 < second" by (simp add: second_def)
  with lo assms have "0 < second * (x div second)" by linarith
  with \<open>0 < second\<close> have "1 \<le> x div second" by (simp add: zero_less_mult_iff)
  moreover have "x div second < w + 1"
    using hi \<open>0 < second\<close> by (simp add: mult.commute [of second])
  ultimately show ?thesis using lo by (simp add: r mult.commute [of second])
qed

text \<open>A refusal is decided on an unexpired bucket of the request's own configuration.\<close>

lemma refusal_bucket:
  assumes "mem_allow l q = (l', a)" and "\<not> al_allowed a" and "0 < q_limit q"
  shows "hard_limit q \<le> bk_count (live_bucket l q)"
    and "time_sub (q_now q) (bk_window (live_bucket l q)) < window_ns (q_window q)"
    and "al_retry a = retry_after (q_window q) (time_sub (q_now q) (bk_window (live_bucket l q)))"
    and "lm_buckets l' (q_key q) = Some (live_bucket l q)"
proof -
  let ?b0 = "bucket_for (maybe_gc l (q_now q)) q"
  show count: "hard_limit q \<le> bk_count (live_bucket l q)"
    using mem_allow_iff [of q l] assms by simp
  with hard_limit_pos [OF assms(3)] have "live_bucket l q = ?b0"
    and open_w: "time_sub (q_now q) (bk_window ?b0) < window_ns (bk_winsec ?b0)"
    by (auto simp: live_bucket_def roll_window_def split: if_splits)
  moreover have "bk_winsec (live_bucket l q) = q_window q"
    using live_bucket_config [of l q] by (simp add: same_config_def)
  moreover have "al_retry a = retry_after (bk_winsec (live_bucket l q)) (time_sub (q_now q) (bk_window ?b0))"
    using assms count by (auto simp: mem_allow_def live_bucket_def Let_def)
  ultimately show "time_sub (q_now q) (bk_window (live_bucket l q)) < window_ns (q_window q)"
    and "al_retry a = retry_after (q_window q) (time_sub (q_now q) (bk_window (live_bucket l q)))"
    by simp_all
  show "lm_buckets l' (q_key q) = Some (live_bucket l q)"
    using mem_allow_own [of q l] assms by simp
qed

lemma expired_bucket_admits:
  assumes "0 < q_limit q" and "lm_buckets l (q_key q) = Some b"
    and "bk_window b + window_ns (q_window q) \<le> q_now q" and "- (2 ^ 63) < window_ns (q_window q)"
  shows "al_allowed (snd (mem_allow l q))"
proof -
  have "bk_count (live_bucket l q) = 0"
  proof (cases "lm_buckets (maybe_gc l (q_now q)) (q_key q)")
    case None
    then show ?thesis by (simp add: live_bucket_def bucket_for_def roll_window_def fresh_bucket_def)
  next
    case (Some b')
    then have [simp]: "b' = b" using assms(2) maybe_gc_sub [of l "q_now q" "q_key q" b'] by simp
    have "window_ns (q_window q) \<le> time_sub (q_now q) (bk_window b)"
      using assms(3,4) window_ns_bound [of "q_window q"] by (subst time_sub_ge) auto
    with Some show ?thesis
      by (auto simp: live_bucket_def bucket_for_def roll_window_def fresh_bucket_def same_config_def)
  qed
  with hard_limit_pos [OF assms(1)] show ?thesis by (simp add: mem_allow_iff assms(1))
qed

text \<open>A refusal of \<open>Limiter.Allow\<close> is earned and says how long to wait: the requests of
  its key admitted within the last window already reach the quota, the suggested wait is between
  one second and the window, and a request of the same rule made after that wait is admitted.
\<close>

theorem refusals_are_earned:
  assumes "sorted (map q_now (qs @ [q]))"
    and "mem_allow (fst (serve (new_limiter c) qs)) q = (l', a)" and "\<not> al_allowed a"
    and "0 < q_limit q" "1 \<le> q_window q" "q_window q \<le> 86400"
  shows "max (q_limit q) (q_burst q) \<le>
           admitted (q_key q) (q_now q - q_window q * second + 1) (q_now q + 1)
             (snd (serve (new_limiter c) qs)) \<and>
         1 \<le> al_retry a \<and> al_retry a \<le> q_window q \<and>
         (\<forall>t. q_now q + al_retry a * second \<le> t \<longrightarrow> al_allowed (snd (mem_allow l' (q\<lparr>q_now := t\<rparr>))))"
proof -
  let ?r = "serve (new_limiter c) qs" and ?A = "admissions (q_key q) (snd (serve (new_limiter c) qs))"
  let ?b = "live_bucket (fst (serve (new_limiter c) qs)) q"
  note b = refusal_bucket [OF assms(2-4)]
  have "q_window q * second \<le> 86400 * second" using assms by (simp add: second_def)
  then have W: "window_ns (q_window q) = q_window q * second"
    using assms by (intro window_ns_exact) (simp_all add: second_def)
  have "counted_ok (fst ?r) (snd ?r) (q_now q)"
    using assms(1) by (intro counted_ok_serve) (auto simp: sorted_append)
  then have w: "bk_window ?b \<le> q_now q" and "bk_count ?b \<le> within ?A (bk_window ?b) (q_now q + 1)"
    using counted_ok_bucket [of "fst ?r" "snd ?r" "q_now q" q] by auto
  moreover have open_w: "q_now q - bk_window ?b < q_window q * second"
    using b(2) W time_sub_ge [of "window_ns (q_window q)" "q_now q" "bk_window ?b"]
      window_ns_bound [of "q_window q"] assms(5) by (simp add: second_def)
  then have "within ?A (bk_window ?b) (q_now q + 1) \<le>
      within ?A (q_now q - q_window q * second + 1) (q_now q + 1)"
    by (intro within_mono) auto
  ultimately have quota: "max (q_limit q) (q_burst q) \<le>
      admitted (q_key q) (q_now q - q_window q * second + 1) (q_now q + 1) (snd ?r)"
    using b(1) assms(4) by (simp add: hard_limit_max admitted_def)
  have "time_sub (q_now q) (bk_window ?b) = q_now q - bk_window ?b"
    using w open_w \<open>q_window q * second \<le> 86400 * second\<close> by (simp add: time_sub_def second_def)
  then have retry: "1 \<le> al_retry a \<and> al_retry a \<le> q_window q \<and>
      q_window q * second \<le> (q_now q - bk_window ?b) + al_retry a * second"
    using b(3) retry_after_bounds [OF assms(5,6), of "q_now q - bk_window ?b"] w open_w by simp
  have "al_allowed (snd (mem_allow l' (q\<lparr>q_now := t\<rparr>)))" if "q_now q + al_retry a * second \<le> t" for t
  proof (rule expired_bucket_admits)
    have "bk_window ?b + q_window q * second \<le> t" using that retry by linarith
    then show "bk_window ?b + window_ns (q_window (q\<lparr>q_now := t\<rparr>)) \<le> q_now (q\<lparr>q_now := t\<rparr>)"
      using W by simp
  qed (use b(4) W assms(4,5) in \<open>simp_all add: second_def\<close>)
  with quota retry show ?thesis by blast
qed

lemma refusals_are_earned_witness:
  "max 1 2 \<le> admitted ''ip:a'' (30 * second - 120 * second + 1) (30 * second + 1)
     (snd (serve (new_limiter 0) (take 3 five_requests)))"
proof -
  let ?q = "five_requests ! 3"
  have "sorted (map q_now (take 3 five_requests @ [?q]))" and q: "q_key ?q = ''ip:a''"
    "q_now ?q = 30 * second" "q_limit ?q = 1" "q_burst ?q = 2" "q_window ?q = 120"
    by (simp_all add: five_requests_def second_def)
  moreover have "\<not> al_allowed (snd (mem_allow (fst (serve (new_limiter 0) (take 3 five_requests))) ?q))"
    by code_simp
  ultimately show ?thesis
    using refusals_are_earned [of "take 3 five_requests" ?q 0
        "fst (mem_allow (fst (serve (new_limiter 0) (take 3 five_requests))) ?q)"
        "snd (mem_allow (fst (serve (new_limiter 0) (take 3 five_requests))) ?q)"] by simp
qed

section \<open>Windows longer than the sweep keeps buckets\<close>

text \<open>The sweep forgets buckets by the age of their window, not by their last use: a
  key whose window is still open and whose quota is used up is refused when no sweep is due, but
  when one is due and the window began more than two cleanup periods ago (120 s by default) the
  same request is admitted with a full quota. A rule with a longer window is not enforced.
\<close>

theorem sweep_forgets_long_windows:
  assumes "0 < q_limit q" and "lm_buckets l (q_key q) = Some b" and "same_config b q"
    and "hard_limit q \<le> bk_count b" and "time_sub (q_now q) (bk_window b) < window_ns (q_window q)"
    and "bk_window b < gc_threshold l (q_now q)" and "lm_cleanup l \<le> time_sub (q_now q) (lm_last_gc l)"
    and "0 < lm_cleanup l"
  shows "\<not> al_allowed (snd (mem_allow (l\<lparr>lm_last_gc := q_now q\<rparr>) q)) \<and>
         al_allowed (snd (mem_allow l q)) \<and>
         al_remain (snd (mem_allow l q)) = hard_limit q - 1"
proof -
  have "maybe_gc (l\<lparr>lm_last_gc := q_now q\<rparr>) (q_now q) = l\<lparr>lm_last_gc := q_now q\<rparr>"
    using assms(8) by (simp add: maybe_gc_def time_sub_def)
  then have "live_bucket (l\<lparr>lm_last_gc := q_now q\<rparr>) q = b"
    using assms(2,3,5) by (auto simp: live_bucket_def bucket_for_def roll_window_def same_config_def)
  then have "\<not> al_allowed (snd (mem_allow (l\<lparr>lm_last_gc := q_now q\<rparr>) q))"
    using assms(1,4) by (simp add: mem_allow_iff)
  moreover have "lm_buckets (maybe_gc l (q_now q)) (q_key q) = None"
    using assms(2,6,7) by (simp add: maybe_gc_def)
  then have "bk_count (roll_window (bucket_for (maybe_gc l (q_now q)) q) (q_now q)) = 0"
    by (simp add: bucket_for_def roll_window_def fresh_bucket_def)
  ultimately show ?thesis
    using hard_limit_pos [OF assms(1)] assms(1) by (simp add: mem_allow_def Let_def)
qed

text \<open>One request a day: a second one three minutes later is admitted.\<close>

definition daily_request :: "go_time \<Rightarrow> rl_request" where
  "daily_request t = \<lparr>q_key = ''service:s'', q_limit = 1, q_window = 86400, q_burst = 1, q_now = t * second\<rparr>"

lemma sweep_forgets_long_windows_witness:
  "al_allowed (snd (mem_allow (fst (mem_allow (new_limiter 0) (daily_request 1000))) (daily_request 1180)))"
proof -
  let ?q = "daily_request 1180" and ?l = "fst (mem_allow (new_limiter 0) (daily_request 1000))"
  let ?b = "\<lparr>bk_window = 1000 * second, bk_count = 1, bk_burst = 1, bk_limit = 1, bk_winsec = 86400\<rparr>"
  have "lm_buckets ?l (q_key ?q) = Some ?b" and "lm_cleanup ?l = 60 * second"
    and "lm_last_gc ?l = 1000 * second"
    by code_simp+
  moreover have "0 < q_limit ?q" "same_config ?b ?q" "hard_limit ?q \<le> bk_count ?b"
    "time_sub (q_now ?q) (bk_window ?b) < window_ns (q_window ?q)" "q_now ?q = 1180 * second"
    by code_simp+
  ultimately show ?thesis
    using sweep_forgets_long_windows [of ?q ?l ?b]
    by (simp add: gc_threshold_exact time_sub_def second_def)
qed

section \<open>The Redis keys\<close>

lemma digits_loop_eq: "digits_loop n acc = (if n = 0 then acc else dec_string n @ acc)"
proof (induction n acc rule: digits_loop.induct)
  case (1 v acc)
  show ?case
  proof (cases "v < 10")
    case True
    then show ?thesis by (subst digits_loop.simps, subst digits_loop.simps, subst dec_string.simps) simp
  next
    case False
    then have "digits_loop v acc = dec_string (v div 10) @ digit_char (v mod 10) # acc"
      using 1 by (subst digits_loop.simps) auto
    moreover have "dec_string v = dec_string (v div 10) @ [digit_char (v mod 10)]"
      using False by (subst dec_string.simps) simp
    ultimately show ?thesis using False by simp
  qed
qed

lemma dec_string_0: "dec_string 0 = ''0''"
  by code_simp

lemma itoa64_itoa: "- (2 ^ 63) < v \<Longrightarrow> v < 2 ^ 63 \<Longrightarrow> itoa64 v = itoa v"
  by (auto simp: itoa64_def itoa_def digits_loop_eq dec_string_0 Let_def wrap64_id)

lemma itoa_inj:
  assumes "itoa a = itoa b"
  shows "a = b"
proof -
  have "CHR ''-'' \<notin> set (dec_string n)" for n
    using dec_string_digits [of "CHR ''-''" n] by (auto simp: is_digit_def code_def)
  then have no: "dec_string m \<noteq> CHR ''-'' # dec_string n" for m n
    by (metis list.set_intros(1))
  show ?thesis
    using assms no [of "nat a" "nat (- b)"] no [of "nat b" "nat (- a)"]
    by (auto simp: itoa_def split: if_splits)
qed

text \<open>Two requests of a key meet in one Redis counter exactly when they fall in the same window.\<close>

lemma fixed_window_key_eq:
  assumes "w \<noteq> 0" "\<bar>unix t1\<bar> < 2 ^ 63" "\<bar>unix t2\<bar> < 2 ^ 63"
  shows "fixed_window_key p k w t1 = fixed_window_key p k w t2 \<longleftrightarrow> unix t1 sdiv w = unix t2 sdiv w"
proof -
  have small: "\<bar>unix t sdiv w\<bar> \<le> \<bar>unix t\<bar>" for t
  proof -
    have "\<bar>unix t\<bar> div \<bar>w\<bar> \<le> \<bar>unix t\<bar>" using assms(1) zdiv_mono2 [of "\<bar>unix t\<bar>" 1 "\<bar>w\<bar>"] by simp
    moreover have "0 \<le> \<bar>unix t\<bar> div \<bar>w\<bar>" using assms(1) by (simp add: pos_imp_zdiv_nonneg_iff)
    moreover have "\<bar>unix t sdiv w\<bar> \<le> \<bar>\<bar>unix t\<bar> div \<bar>w\<bar>\<bar>"
      by (simp add: signed_divide_int_def abs_mult abs_sgn_eq)
    ultimately show ?thesis by linarith
  qed
  have "itoa64 (unix t sdiv w) = itoa (unix t sdiv w)" if "\<bar>unix t\<bar> < 2 ^ 63" for t
  proof (rule itoa64_itoa)
    from that small [of t] have "\<bar>unix t sdiv w\<bar> < 2 ^ 63" by linarith
    then show "- (2 ^ 63) < unix t sdiv w" "unix t sdiv w < 2 ^ 63" by linarith+
  qed
  with assms(2,3) have "itoa64 (unix t1 sdiv w) = itoa (unix t1 sdiv w)"
    "itoa64 (unix t2 sdiv w) = itoa (unix t2 sdiv w)" by blast+
  then show ?thesis using assms(1) by (auto simp: fixed_window_key_def Let_def dest: itoa_inj)
qed

text \<open>An update of a rule is not validated: setting its window to 0 is stored as given,
  and with the Redis limiter every later request that the rule applies to panics on a division
  by zero, whatever Redis answers; a rule as the creation accepts it never panics.
\<close>

theorem zero_window_update_panics_redis:
  assumes "rl_create input = Some rule" and "q_limit q = rl_limit rule"
  shows "rl_window (rl_apply_update rule (u\<lparr>up_window := Some 0, up_limit := None\<rparr>)) = 0 \<and>
    rl_limit (rl_apply_update rule (u\<lparr>up_window := Some 0, up_limit := None\<rparr>)) = rl_limit rule \<and>
    redis_allow incr ttl prefix r (q\<lparr>q_window := 0\<rparr>) = Panics \<and>
    redis_allow incr ttl prefix r (q\<lparr>q_window := rl_window rule\<rparr>) \<noteq> Panics"
proof -
  have rule: "0 < rl_limit rule" "0 < rl_window rule"
    using assms(1) by (auto simp: rl_create_def rl_input_valid_def rl_to_model_def split: if_splits)
  then have "redis_allow incr ttl prefix r (q\<lparr>q_window := 0\<rparr>) = Panics"
    using assms(2) by (simp add: redis_allow_def fixed_window_key_def)
  moreover have "redis_allow incr ttl prefix r (q\<lparr>q_window := rl_window rule\<rparr>) \<noteq> Panics"
    using rule assms(2)
    by (simp add: redis_allow_def fixed_window_key_def Let_def split: prod.splits option.splits)
  ultimately show ?thesis by (simp add: rl_apply_update_def rl_to_model_def or_keep_def)
qed

definition sample_rule :: rate_limit where
  "sample_rule = \<lparr>rl_scope = RScopeGlobal, rl_tenant = None, rl_domain = None, rl_service = None,
     rl_name = ''per minute'', rl_limit = 100, rl_window = 60, rl_burst = 0, rl_code = 0, rl_enabled = False\<rparr>"

lemma zero_window_update_panics_redis_witness:
  "redis_allow (\<lambda>(r::nat) k w. (r + 1, Some (int r + 1))) (\<lambda>r k. second) ''maple'' 0
     (\<lparr>q_key = ''ip:a'', q_limit = 100, q_window = 60, q_burst = 100, q_now = 0\<rparr>\<lparr>q_window := 0\<rparr>) = Panics"
proof -
  obtain rule where "rl_create sample_rule = Some rule" and "rl_limit rule = 100"
    by (simp add: rl_create_def rl_input_valid_def rl_refs_valid_def sample_rule_def rl_to_model_def)
  then show ?thesis
    using zero_window_update_panics_redis [of sample_rule rule
        "\<lparr>q_key = ''ip:a'', q_limit = 100, q_window = 60, q_burst = 100, q_now = 0\<rparr>" _
        "\<lambda>(r::nat) k w. (r + 1, Some (int r + 1))" "\<lambda>r k. second" "''maple''" 0]
    by simp
qed

end
