(* ===== verification/Route_Table.thy ===== *)
theory Route_Table
  imports Traffic_Policy Rate_Limiter
begin

text \<open>
  The data plane's route table (\<open>internal/cache/route.go\<close>): the entries, \<open>buildTable\<close>, which
  assembles them from the rows of the database, and the cache that holds the current table and
  replaces it when a rebuild succeeds. A map that is only looked up is a partial function; the
  repositories the rebuild reads are its arguments, None being a failed query.
\<close>

section \<open>Rows\<close>

record instance_row =
  in_id :: uuid
  in_service :: uuid
  in_version :: "uuid option"
  in_node :: "uuid option"
  in_address :: string
  in_port :: int
  in_protocol :: string
  in_weight :: int
  in_status :: string
  in_health :: string

text \<open>\<open>net.JoinHostPort\<close> brackets an address with a colon.\<close>

definition join_host_port :: "string \<Rightarrow> string \<Rightarrow> string" where
  "join_host_port h p =
     (if CHR '':'' \<in> set h then ''['' @ h @ '']:'' @ p else h @ '':'' @ p)"

definition addr_join :: "string \<Rightarrow> int \<Rightarrow> string" where
  "addr_join address port = (if port \<le> 0 then address else join_host_port address (itoa port))"

definition endpoint :: "instance_row \<Rightarrow> string" where
  "endpoint i = addr_join (in_address i) (in_port i)"

definition is_routable :: "instance_row \<Rightarrow> bool" where
  "is_routable i \<longleftrightarrow> in_status i = ''enabled'' \<and> in_health i = ''healthy''"

record tenant_row =
  tn_id :: uuid
  tn_status :: string

record service_row =
  sv_id :: uuid
  sv_tenant :: uuid
  sv_name :: string
  sv_protocol :: string

record domain_row =
  dm_id :: uuid
  dm_hostname :: string
  dm_service :: "uuid option"
  dm_status :: string

record version_group =
  vg_deployment :: uuid
  vg_version :: uuid
  vg_name :: string
  vg_weight :: int
  vg_status :: string

record version_pool =
  vp_id :: uuid
  vp_name :: string
  vp_weight :: int
  vp_pool :: "pool_member list"

record route_entry =
  re_domain :: uuid
  re_hostname :: string
  re_tenant :: uuid
  re_service :: uuid
  re_service_name :: string
  re_protocol :: string
  re_tenant_ok :: bool
  re_pool :: "pool_member list"
  re_has_versions :: bool
  re_versions :: "version_pool list"
  re_policies :: "policy list"
  re_limits :: "rate_limit list"

record route_source =
  rs_tenants :: "tenant_row list"
  rs_services :: "service_row list"
  rs_domains :: "domain_row list"
  rs_insts :: "uuid \<Rightarrow> instance_row list"
  rs_groups :: "uuid \<Rightarrow> version_group list"
  rs_policies :: "uuid \<Rightarrow> policy list"
  rs_nodes :: "(uuid \<times> bool) list"
  rs_limits :: "rate_limit list"

section \<open>buildTable\<close>

text \<open>Maps filled by a loop over rows: the last row of a key wins, and the zero value stands for
  a missing key.\<close>

definition last_row :: "('r \<Rightarrow> uuid) \<Rightarrow> 'r list \<Rightarrow> uuid \<Rightarrow> 'r option" where
  "last_row key rows k = find (\<lambda>r. key r = k) (rev rows)"

definition tenant_active :: "route_source \<Rightarrow> uuid \<Rightarrow> bool" where
  "tenant_active src t =
     (case last_row tn_id (rs_tenants src) t of None \<Rightarrow> False | Some r \<Rightarrow> tn_status r = ''active'')"

definition service_proto :: "route_source \<Rightarrow> uuid \<Rightarrow> string" where
  "service_proto src s = (case last_row sv_id (rs_services src) s of None \<Rightarrow> [] | Some r \<Rightarrow> sv_protocol r)"

definition service_tenant :: "route_source \<Rightarrow> uuid \<Rightarrow> uuid" where
  "service_tenant src s =
     (case last_row sv_id (rs_services src) s of None \<Rightarrow> uuid_nil | Some r \<Rightarrow> sv_tenant r)"

definition service_name :: "route_source \<Rightarrow> uuid \<Rightarrow> string" where
  "service_name src s = (case last_row sv_id (rs_services src) s of None \<Rightarrow> [] | Some r \<Rightarrow> sv_name r)"

definition node_ok :: "route_source \<Rightarrow> uuid option \<Rightarrow> bool" where
  "node_ok src n = (case n of None \<Rightarrow> True
     | Some x \<Rightarrow> rs_nodes src = [] \<or> map_of (rs_nodes src) x = Some True)"

definition routable :: "route_source \<Rightarrow> instance_row \<Rightarrow> bool" where
  "routable src i \<longleftrightarrow> is_routable i \<and> node_ok src (in_node i)"

definition member_of :: "instance_row \<Rightarrow> pool_member" where
  "member_of i = \<lparr>pm_id = in_id i, pm_endpoint = endpoint i, pm_protocol = in_protocol i,
                  pm_weight = in_weight i\<rparr>"

text \<open>The limits of an entry: global and per-client rules, then those of its domain, its tenant
  and its service, each group in the order of the rows.\<close>

definition global_limits :: "rate_limit list \<Rightarrow> rate_limit list" where
  "global_limits ls = filter (\<lambda>l. rl_scope l = RScopeGlobal \<or> rl_scope l = RScopeIP) ls"

definition entry_limits :: "rate_limit list \<Rightarrow> uuid \<Rightarrow> uuid \<Rightarrow> uuid \<Rightarrow> rate_limit list" where
  "entry_limits ls did ten svc =
     global_limits ls
     @ filter (\<lambda>l. rl_scope l = RScopeDomain \<and> rl_domain l = Some did) ls
     @ filter (\<lambda>l. rl_scope l = RScopeTenant \<and> rl_tenant l = Some ten) ls
     @ filter (\<lambda>l. rl_scope l = RScopeService \<and> rl_service l = Some svc) ls"

definition version_routable :: "string \<Rightarrow> bool" where
  "version_routable s \<longleftrightarrow> s \<in> {''stable'', ''canary'', ''active'', ''standby''}"

definition version_members :: "route_source \<Rightarrow> uuid \<Rightarrow> uuid \<Rightarrow> pool_member list" where
  "version_members src sid v =
     map member_of (filter (\<lambda>i. routable src i \<and> in_version i = Some v) (rs_insts src sid))"

definition version_pools :: "route_source \<Rightarrow> uuid \<Rightarrow> version_pool list" where
  "version_pools src sid =
     (if \<exists>i \<in> set (rs_insts src sid). routable src i \<and> in_version i \<noteq> None
      then filter (\<lambda>v. vp_pool v \<noteq> [])
        (map (\<lambda>g. \<lparr>vp_id = vg_version g, vp_name = vg_name g, vp_weight = vg_weight g,
                   vp_pool = version_members src sid (vg_version g)\<rparr>)
          (filter (\<lambda>g. version_routable (vg_status g)) (rs_groups src sid)))
      else [])"

definition entry_policies :: "route_source \<Rightarrow> uuid \<Rightarrow> policy list" where
  "entry_policies src sid =
     (if \<exists>i \<in> set (rs_insts src sid). routable src i \<and> in_version i \<noteq> None
      then rs_policies src sid else [])"

text \<open>The entry of a domain, None where the loop continues without one.\<close>

definition build_entry :: "route_source \<Rightarrow> domain_row \<Rightarrow> route_entry option" where
  "build_entry src d =
     (case dm_service d of
        None \<Rightarrow> None
      | Some sid \<Rightarrow>
          if dm_status d \<noteq> ''active'' \<or> service_proto src sid = [] then None
          else
            let ten = service_tenant src sid; vers = rs_groups src sid \<noteq> [] in
            Some \<lparr>re_domain = dm_id d, re_hostname = dm_hostname d, re_tenant = ten, re_service = sid,
                  re_service_name = service_name src sid, re_protocol = service_proto src sid,
                  re_tenant_ok = tenant_active src ten,
                  re_pool = (if vers then []
                    else map member_of (filter (routable src) (rs_insts src sid))),
                  re_has_versions = vers,
                  re_versions = (if vers then version_pools src sid else []),
                  re_policies = (if vers then entry_policies src sid else []),
                  re_limits = entry_limits (rs_limits src) (dm_id d) ten sid\<rparr>)"

text \<open>\<open>normalizeHost\<close>: the empty key for a host that cannot be normalised.\<close>

definition host_key :: "(string \<Rightarrow> string option) \<Rightarrow> string \<Rightarrow> string outcome" where
  "host_key to_ascii h = (case normalize_host to_ascii h of
     Panics \<Rightarrow> Panics | Returns (Inl e) \<Rightarrow> Returns [] | Returns (Inr n) \<Rightarrow> Returns n)"

fun build_domains :: "(string \<Rightarrow> string option) \<Rightarrow> route_source \<Rightarrow> domain_row list \<Rightarrow>
    (string \<rightharpoonup> route_entry) \<Rightarrow> (string \<rightharpoonup> route_entry) outcome" where
  "build_domains to_ascii src [] t = Returns t"
| "build_domains to_ascii src (d # ds) t =
     (case build_entry src d of
        None \<Rightarrow> build_domains to_ascii src ds t
      | Some e \<Rightarrow>
          (case host_key to_ascii (dm_hostname d) of
             Panics \<Rightarrow> Panics
           | Returns k \<Rightarrow> build_domains to_ascii src ds (t(k \<mapsto> e))))"

text \<open>An empty table is nil.\<close>

definition build_table :: "(string \<Rightarrow> string option) \<Rightarrow> route_source \<Rightarrow>
    (string \<rightharpoonup> route_entry) option outcome" where
  "build_table to_ascii src =
     (case build_domains to_ascii src (rs_domains src) Map.empty of
        Panics \<Rightarrow> Panics
      | Returns t \<Rightarrow>
          Returns (if \<forall>d \<in> set (rs_domains src). build_entry src d = None then None else Some t))"

section \<open>The cache\<close>

record route_cache =
  ca_table :: "(string \<rightharpoonup> route_entry) option"
  ca_hits :: "64 word"
  ca_misses :: "64 word"

definition new_cache :: route_cache where
  "new_cache = \<lparr>ca_table = None, ca_hits = 0, ca_misses = 0\<rparr>"

definition table_lookup :: "(string \<Rightarrow> string option) \<Rightarrow> (string \<rightharpoonup> route_entry) option \<Rightarrow> string \<Rightarrow>
    route_entry option outcome" where
  "table_lookup to_ascii t host = (case t of
     None \<Rightarrow> Returns None
   | Some m \<Rightarrow> (case host_key to_ascii host of Panics \<Rightarrow> Panics | Returns k \<Rightarrow> Returns (m k)))"

definition cache_lookup :: "(string \<Rightarrow> string option) \<Rightarrow> route_cache \<Rightarrow> string \<Rightarrow>
    (route_cache \<times> route_entry option) outcome" where
  "cache_lookup to_ascii c host = (case table_lookup to_ascii (ca_table c) host of
     Panics \<Rightarrow> Panics
   | Returns None \<Rightarrow> Returns (c\<lparr>ca_misses := ca_misses c + 1\<rparr>, None)
   | Returns (Some e) \<Rightarrow> Returns (c\<lparr>ca_hits := ca_hits c + 1\<rparr>, Some e))"

text \<open>What the queries of a rebuild return; the versioning, node and limit loaders may be absent.\<close>

record rebuild_reads =
  rd_tenants :: "tenant_row list option"
  rd_services :: "service_row list option"
  rd_domains :: "domain_row list option"
  rd_insts :: "(uuid \<Rightarrow> instance_row list) option"
  rd_groups :: "(uuid \<Rightarrow> version_group list) option"
  rd_policies :: "policy list option"
  rd_nodes :: "(uuid \<times> bool) list option"
  rd_limits :: "rate_limit list option"

text \<open>\<open>LoadVersioning\<close>: the version groups, and the policies grouped by service.\<close>

definition load_versioning :: "rebuild_reads \<Rightarrow>
    ((uuid \<Rightarrow> version_group list) \<times> (uuid \<Rightarrow> policy list)) option" where
  "load_versioning rd = (case (rd_groups rd, rd_policies rd) of
     (Some g, Some rows) \<Rightarrow>
       (case all_grouped rows of Inl _ \<Rightarrow> None | Inr p \<Rightarrow> Some (g, p))
   | _ \<Rightarrow> None)"

definition gather :: "rebuild_reads \<Rightarrow> route_source option" where
  "gather rd = (case (rd_tenants rd, rd_services rd, rd_domains rd, rd_insts rd, load_versioning rd,
                      rd_nodes rd, rd_limits rd) of
     (Some t, Some s, Some d, Some i, Some (g, p), Some n, Some l) \<Rightarrow>
       Some \<lparr>rs_tenants = t, rs_services = s, rs_domains = d, rs_insts = i, rs_groups = g,
             rs_policies = p, rs_nodes = n, rs_limits = l\<rparr>
   | _ \<Rightarrow> None)"

definition rebuild :: "(string \<Rightarrow> string option) \<Rightarrow> rebuild_reads \<Rightarrow> route_cache \<Rightarrow>
    (route_cache \<times> bool) outcome" where
  "rebuild to_ascii rd c = (case gather rd of
     None \<Rightarrow> Returns (c, False)
   | Some src \<Rightarrow> (case build_table to_ascii src of
       Panics \<Rightarrow> Panics | Returns t \<Rightarrow> Returns (c\<lparr>ca_table := t\<rparr>, True)))"

end
