(* ===== verification/Load_Balancer.thy ===== *)
theory Load_Balancer
  imports Router_Host
begin

text \<open>
  \<open>loadbalancer\<close>: smooth weighted round robin per route key (\<open>weighted.go\<close>), least connections
  (\<open>leastconn.go\<close>) and consistent hashing (\<open>hash.go\<close>). A pointer into the pool is the index it
  points at. The interface they share, a selection that always answers with a member of a non-empty
  pool, is the locale \<open>pool_selector\<close>, interpreted by all three. Round-robin counters are unbounded
  integers; \<open>wrr_inv\<close> keeps every counter above minus the total weight with sum zero.
\<close>

section \<open>hash.go\<close>

definition vnode_count :: nat where
  "vnode_count = 100"

definition hash_key :: "string \<Rightarrow> 32 word" where
  "hash_key s = fnv1a s"

record hash_ring =
  hr_points :: "32 word list"
  hr_by_pt :: "32 word \<Rightarrow> string option"

text \<open>\<open>seen\<close> holds the points already taken; they are the keys of \<open>byPt\<close>.\<close>

definition add_vnode :: "string \<times> nat \<Rightarrow> hash_ring \<Rightarrow> hash_ring" where
  "add_vnode v r =
    (case v of (ident, i) \<Rightarrow>
       let h = hash_key (ident @ ''#'' @ itoa (int i)) in
       if hr_by_pt r h \<noteq> None then r
       else r\<lparr>hr_points := hr_points r @ [h], hr_by_pt := (hr_by_pt r)(h \<mapsto> ident)\<rparr>)"

definition new_hash_ring :: "string list \<Rightarrow> hash_ring" where
  "new_hash_ring ids =
    (let r = fold add_vnode (List.product ids [0..<vnode_count])
               \<lparr>hr_points = [], hr_by_pt = (\<lambda>_. None)\<rparr>
     in r\<lparr>hr_points := sort (hr_points r)\<rparr>)"

text \<open>\<open>sort.Search\<close> on the interval from i to j.\<close>

function sort_search :: "(nat \<Rightarrow> bool) \<Rightarrow> nat \<Rightarrow> nat \<Rightarrow> nat" where
  "sort_search f i j =
    (if i < j then (let h = (i + j) div 2 in if \<not> f h then sort_search f (h + 1) j
                    else sort_search f i h)
     else i)"
  by pat_completeness auto
termination by (relation "measure (\<lambda>(f, i, j). j - i)") auto

definition ring_lookup :: "hash_ring \<Rightarrow> string \<Rightarrow> string" where
  "ring_lookup r key =
    (if hr_points r = [] then []
     else (let h = hash_key key;
               i = sort_search (\<lambda>i. h \<le> hr_points r ! i) 0 (length (hr_points r));
               i' = (if i = length (hr_points r) then 0 else i)
           in (case hr_by_pt r (hr_points r ! i') of None \<Rightarrow> [] | Some ident \<Rightarrow> ident)))"

definition member_id :: "pool_member \<Rightarrow> string" where
  "member_id m = (if pm_id m = [] then pm_endpoint m else pm_id m)"

definition consistent_hash :: "pool_member list \<Rightarrow> string \<Rightarrow> nat option" where
  "consistent_hash pool key =
    (if pool = [] then None
     else (let ids = map member_id pool;
               by_id = map_of (rev (zip ids [0..<length pool]));
               ident = ring_lookup (new_hash_ring ids) key
           in if ident \<noteq> [] then by_id ident else None))"

section \<open>leastconn.go\<close>

type_synonym conn_tracker = "string \<Rightarrow> int"

definition inc_conn :: "string \<Rightarrow> conn_tracker \<Rightarrow> conn_tracker" where
  "inc_conn ident t = t(ident := t ident + 1)"

definition dec_conn :: "string \<Rightarrow> conn_tracker \<Rightarrow> conn_tracker" where
  "dec_conn ident t = (if 0 < t ident then t(ident := t ident - 1) else t)"

definition least_step ::
  "pool_member list \<Rightarrow> conn_tracker \<Rightarrow> nat \<Rightarrow> nat option \<times> int \<Rightarrow> nat option \<times> int" where
  "least_step pool t i st =
    (case st of (best, best_conn) \<Rightarrow>
       let c = t (member_id (pool ! i)) in
       case best of
         None \<Rightarrow> (Some i, c)
       | Some b \<Rightarrow>
           if c < best_conn \<or> (c = best_conn \<and> pm_weight (pool ! i) > pm_weight (pool ! b))
           then (Some i, c) else (best, best_conn))"

definition least_connections :: "pool_member list \<Rightarrow> conn_tracker \<Rightarrow> nat option" where
  "least_connections pool t =
    (if pool = [] then None else fst (fold (least_step pool t) [0..<length pool] (None, 2 ^ 62)))"

section \<open>weighted.go\<close>

record wrr =
  w_fingerprint :: string
  w_weight :: "int list"
  w_current :: "int list"
  w_total :: int

definition wrr_zero :: wrr where
  "wrr_zero = \<lparr>w_fingerprint = [], w_weight = [], w_current = [], w_total = 0\<rparr>"

definition pos_weight :: "int \<Rightarrow> int" where
  "pos_weight w = (if w \<le> 0 then 1 else w)"

definition weights_fingerprint :: "int list \<Rightarrow> string" where
  "weights_fingerprint ws = concat (map (\<lambda>w. itoa (pos_weight w) @ '','') ws)"

definition pool_fingerprint :: "pool_member list \<Rightarrow> string" where
  "pool_fingerprint pool =
    concat (map (\<lambda>m. pm_id m @ ''|'' @ itoa (pos_weight (pm_weight m)) @ '','') pool)"

definition member_weights :: "pool_member list \<Rightarrow> int list" where
  "member_weights pool = map pm_weight pool"

definition reset_weights :: "int list \<Rightarrow> wrr" where
  "reset_weights ws =
    \<lparr>w_fingerprint = weights_fingerprint ws, w_weight = map pos_weight ws,
     w_current = map (\<lambda>_. 0) ws, w_total = sum_list (map pos_weight ws)\<rparr>"

definition reset_pool :: "pool_member list \<Rightarrow> wrr" where
  "reset_pool pool =
    (reset_weights (member_weights pool))\<lparr>w_fingerprint := pool_fingerprint pool\<rparr>"

definition next_step :: "int list \<Rightarrow> nat \<Rightarrow> int list \<times> nat \<Rightarrow> int list \<times> nat" where
  "next_step ws i st =
    (case st of (cur, best) \<Rightarrow>
       let cur' = cur[i := cur ! i + ws ! i] in
       (cur', if cur' ! i > cur' ! best then i else best))"

definition wrr_next :: "wrr \<Rightarrow> (wrr \<times> nat) outcome" where
  "wrr_next s =
    (case fold (next_step (w_weight s)) [0..<length (w_weight s)] (w_current s, 0) of
       (cur, best) \<Rightarrow>
         if length cur \<le> best then Panics
         else Returns (s\<lparr>w_current := cur[best := cur ! best - w_total s]\<rparr>, best))"

record balancer =
  b_by_key :: "string \<Rightarrow> wrr option"
  b_conn :: conn_tracker

definition new_balancer :: balancer where
  "new_balancer = \<lparr>b_by_key = (\<lambda>_. None), b_conn = (\<lambda>_. 0)\<rparr>"

definition select_least :: "balancer \<Rightarrow> pool_member list \<Rightarrow> nat option" where
  "select_least b pool = least_connections pool (b_conn b)"

definition state_of :: "balancer \<Rightarrow> string \<Rightarrow> wrr" where
  "state_of b key = (case b_by_key b key of None \<Rightarrow> wrr_zero | Some s \<Rightarrow> s)"

definition select ::
  "balancer \<Rightarrow> string \<Rightarrow> pool_member list \<Rightarrow> (balancer \<times> nat option) outcome" where
  "select b key pool =
    (if pool = [] then Returns (b, None)
     else (let s = state_of b key;
               s1 = (if w_fingerprint s \<noteq> pool_fingerprint pool then reset_pool pool else s)
           in case wrr_next s1 of
                Panics \<Rightarrow> Panics
              | Returns (s2, i) \<Rightarrow>
                  if length pool \<le> i then Panics
                  else Returns (b\<lparr>b_by_key := (b_by_key b)(key \<mapsto> s2)\<rparr>, Some i)))"

definition pick_weighted :: "balancer \<Rightarrow> string \<Rightarrow> int list \<Rightarrow> (balancer \<times> int) outcome" where
  "pick_weighted b key ws =
    (if ws = [] then Returns (b, -1)
     else (let s = state_of b key;
               s1 = (if w_fingerprint s \<noteq> weights_fingerprint ws then reset_weights ws else s)
           in case wrr_next s1 of
                Panics \<Rightarrow> Panics
              | Returns (s2, i) \<Rightarrow> Returns (b\<lparr>b_by_key := (b_by_key b)(key \<mapsto> s2)\<rparr>, int i)))"

section \<open>The interface of a selection\<close>

fun select_seq :: "('s \<Rightarrow> 'r \<Rightarrow> ('s \<times> nat option) outcome) \<Rightarrow> 's \<Rightarrow> 'r list
    \<Rightarrow> ('s \<times> nat option list) outcome" where
  "select_seq sel s [] = Returns (s, [])"
| "select_seq sel s (r # rs) =
    (case sel s r of
       Panics \<Rightarrow> Panics
     | Returns (s1, p) \<Rightarrow>
         (case select_seq sel s1 rs of
            Panics \<Rightarrow> Panics
          | Returns (s2, ps) \<Rightarrow> Returns (s2, p # ps)))"

locale pool_selector =
  fixes sel :: "'s \<Rightarrow> 'r \<Rightarrow> ('s \<times> nat option) outcome"
    and pool_of :: "'r \<Rightarrow> pool_member list"
    and usable :: "'r \<Rightarrow> bool"
    and sinv :: "'s \<Rightarrow> bool"
  assumes sel_some: "sinv s \<Longrightarrow> usable r \<Longrightarrow> pool_of r \<noteq> [] \<Longrightarrow>
      \<exists>s' i. sel s r = Returns (s', Some i) \<and> i < length (pool_of r) \<and> sinv s'"
    and sel_none: "pool_of r = [] \<Longrightarrow> sel s r = Returns (s, None)"
begin

lemma seq_total:
  "sinv s \<Longrightarrow> \<forall>r \<in> set rs. usable r \<Longrightarrow>
    \<exists>s' picks. select_seq sel s rs = Returns (s', picks) \<and> sinv s' \<and>
      list_all2 (\<lambda>r p. case p of None \<Rightarrow> pool_of r = [] | Some i \<Rightarrow> i < length (pool_of r)) rs picks"
proof (induction rs arbitrary: s)
  case (Cons r rs)
  show ?case
  proof (cases "pool_of r = []")
    case True
    then show ?thesis using Cons.IH [OF Cons.prems(1)] Cons.prems(2) by (auto simp: sel_none)
  next
    case False
    then obtain s1 i where "sel s r = Returns (s1, Some i)" "i < length (pool_of r)" "sinv s1"
      using sel_some Cons.prems by fastforce
    then show ?thesis using Cons.IH [of s1] Cons.prems(2) by auto
  qed
qed simp

end

section \<open>One round of the weighted round robin\<close>

lemma next_fold:
  assumes "length cur = length ws" and "k \<le> length ws" and "ws \<noteq> []"
  shows "\<exists>cur' best. fold (next_step ws) [0..<k] (cur, 0) = (cur', best)
    \<and> length cur' = length ws \<and> best < max 1 k
    \<and> (\<forall>j < length ws. cur' ! j = cur ! j + (if j < k then ws ! j else 0))
    \<and> (\<forall>j < k. cur' ! j \<le> cur' ! best)"
  using assms(2)
proof (induction k)
  case 0
  then show ?case using assms by auto
next
  case (Suc k)
  then obtain cur' best where IH: "fold (next_step ws) [0..<k] (cur, 0) = (cur', best)"
      "length cur' = length ws" "best < max 1 k"
      "\<forall>j < length ws. cur' ! j = cur ! j + (if j < k then ws ! j else 0)"
      "\<forall>j < k. cur' ! j \<le> cur' ! best"
    by auto
  let ?c = "cur'[k := cur' ! k + ws ! k]"
  let ?b = "if ?c ! k > ?c ! best then k else best"
  have k: "k < length ws" using Suc.prems by simp
  have f: "fold (next_step ws) [0..<Suc k] (cur, 0) = (?c, ?b)"
    by (simp add: IH(1) next_step_def Let_def)
  have "\<forall>j < Suc k. ?c ! j \<le> ?c ! ?b"
    using IH(2,3,5) k by (auto simp: less_Suc_eq nth_list_update max_def split: if_splits)
  moreover have "\<forall>j < length ws. ?c ! j = cur ! j + (if j < Suc k then ws ! j else 0)"
    using IH(2,4) k by (auto simp: nth_list_update less_Suc_eq)
  moreover have "?b < max 1 (Suc k)" using IH(3) by (auto simp: max_def split: if_splits)
  ultimately show ?case using f IH(2) by auto
qed

definition wrr_ok :: "wrr \<Rightarrow> bool" where
  "wrr_ok s \<longleftrightarrow> length (w_current s) = length (w_weight s) \<and> w_total s = sum_list (w_weight s)
    \<and> (\<forall>w \<in> set (w_weight s). 0 < w)"

lemma wrr_next_spec:
  assumes "wrr_ok s" and "w_weight s \<noteq> []"
  shows "\<exists>cur best. wrr_next s = Returns (s\<lparr>w_current := cur\<rparr>, best) \<and> best < length (w_weight s)
    \<and> length cur = length (w_weight s)
    \<and> (\<forall>j < length cur. cur ! j =
        w_current s ! j + w_weight s ! j - (if j = best then w_total s else 0))
    \<and> (\<forall>j < length cur. w_current s ! j + w_weight s ! j
        \<le> w_current s ! best + w_weight s ! best)"
proof -
  obtain c b where f: "fold (next_step (w_weight s)) [0..<length (w_weight s)] (w_current s, 0) = (c, b)"
      "length c = length (w_weight s)" "b < max 1 (length (w_weight s))"
      "\<forall>j < length (w_weight s). c ! j = w_current s ! j + w_weight s ! j"
      "\<forall>j < length (w_weight s). c ! j \<le> c ! b"
    using next_fold [of "w_current s" "w_weight s" "length (w_weight s)"] assms
    by (auto simp: wrr_ok_def)
  have b: "b < length (w_weight s)" using f(3) assms(2) by (auto simp: max_def split: if_splits)
  show ?thesis
    using f b by (intro exI [of _ "c[b := c ! b - w_total s]"] exI [of _ b])
      (auto simp: wrr_next_def nth_list_update)
qed

section \<open>Counters against picks\<close>

text \<open>
  \<open>wrr_counts c n s\<close>: since the reset, \<open>c\<close> rounds were played and index \<open>j\<close> was picked \<open>n j\<close>
  times. Each counter is then \<open>c\<close> times its weight minus the total for every pick, and it is above
  minus the total.
\<close>

definition wrr_counts :: "nat \<Rightarrow> (nat \<Rightarrow> nat) \<Rightarrow> wrr \<Rightarrow> bool" where
  "wrr_counts c n s \<longleftrightarrow> wrr_ok s
    \<and> (\<Sum>j<length (w_weight s). n j) = c
    \<and> (\<forall>j < length (w_weight s). w_current s ! j = int c * w_weight s ! j - w_total s * int (n j)
        \<and> - w_total s < w_current s ! j)"

lemma wrr_total_pos: "wrr_ok s \<Longrightarrow> w_weight s \<noteq> [] \<Longrightarrow> 0 < w_total s"
proof -
  assume ok: "wrr_ok s" and ne: "w_weight s \<noteq> []"
  have "0 < sum_list ws" if "ws \<noteq> []" "\<forall>w \<in> set ws. 0 < w" for ws :: "int list"
    using that by (induction ws) (auto, metis add_pos_pos list.discI neq_Nil_conv sum_list.Nil add.right_neutral)
  then show ?thesis using ok ne by (simp add: wrr_ok_def)
qed

lemma wrr_counts_sum:
  assumes "wrr_counts c n s"
  shows "(\<Sum>j<length (w_weight s). w_current s ! j) = 0"
proof -
  let ?n = "length (w_weight s)"
  have "(\<Sum>j<?n. w_current s ! j) = (\<Sum>j<?n. int c * w_weight s ! j - w_total s * int (n j))"
    using assms by (intro sum.cong) (auto simp: wrr_counts_def)
  also have "\<dots> = int c * (\<Sum>j<?n. w_weight s ! j) - w_total s * (\<Sum>j<?n. int (n j))"
    by (simp add: sum_subtractf sum_distrib_left)
  also have "(\<Sum>j<?n. w_weight s ! j) = w_total s"
    using assms by (simp add: wrr_counts_def wrr_ok_def sum_list_sum_nth atLeast0LessThan)
  also have "(\<Sum>j<?n. int (n j)) = int c"
    using assms by (simp add: wrr_counts_def flip: of_nat_sum)
  finally show ?thesis by simp
qed

lemma wrr_counts_next:
  assumes c: "wrr_counts c n s" and ne: "w_weight s \<noteq> []"
  shows "\<exists>s' i. wrr_next s = Returns (s', i) \<and> i < length (w_weight s)
    \<and> wrr_counts (c + 1) (n(i := n i + 1)) s'
    \<and> w_weight s' = w_weight s \<and> w_fingerprint s' = w_fingerprint s \<and> w_total s' = w_total s"
proof -
  let ?n = "length (w_weight s)"
  have ok: "wrr_ok s" using c by (simp add: wrr_counts_def)
  obtain cur i where nx: "wrr_next s = Returns (s\<lparr>w_current := cur\<rparr>, i)" and i: "i < ?n"
    and len: "length cur = ?n"
    and cur: "\<forall>j < ?n. cur ! j =
        w_current s ! j + w_weight s ! j - (if j = i then w_total s else 0)"
    and mx: "\<forall>j < ?n. w_current s ! j + w_weight s ! j \<le> w_current s ! i + w_weight s ! i"
    using wrr_next_spec [OF ok ne] by auto
  have wpos: "\<forall>j < ?n. 0 < w_weight s ! j" using ok by (simp add: wrr_ok_def)
  have tp: "0 < w_total s" using wrr_total_pos [OF ok ne] .
  have "0 < (\<Sum>j<?n. w_current s ! j + w_weight s ! j)"
    using wrr_counts_sum [OF c] ok tp
    by (simp add: sum.distrib wrr_ok_def sum_list_sum_nth atLeast0LessThan)
  moreover have "(\<Sum>j<?n. w_current s ! j + w_weight s ! j)
      \<le> of_nat (card {..<?n}) * (w_current s ! i + w_weight s ! i)"
    by (rule sum_bounded_above) (use mx in auto)
  ultimately have "0 < int ?n * (w_current s ! i + w_weight s ! i)" by simp
  then have ipos: "0 < w_current s ! i + w_weight s ! i" by (simp add: zero_less_mult_iff)
  have sum: "(\<Sum>j<?n. (n(i := n i + 1)) j) = c + 1"
  proof -
    have "(\<Sum>j<?n. (n(i := n i + 1)) j) = (\<Sum>j<?n. n j + (if j = i then 1 else 0))"
      by (intro sum.cong) auto
    then show ?thesis using c i by (simp add: sum.distrib wrr_counts_def)
  qed
  have "cur ! j = int (c + 1) * w_weight s ! j - w_total s * int ((n(i := n i + 1)) j)
      \<and> - w_total s < cur ! j" if j: "j < ?n" for j
  proof -
    have e: "w_current s ! j = int c * w_weight s ! j - w_total s * int (n j)"
      and lo: "- w_total s < w_current s ! j"
      using c j by (auto simp: wrr_counts_def)
    have cj: "cur ! j = w_current s ! j + w_weight s ! j - (if j = i then w_total s else 0)"
      and wj: "0 < w_weight s ! j" using cur wpos j by blast+
    have "- w_total s < cur ! j" using cj wj lo ipos by (cases "j = i") simp_all
    moreover have "cur ! j = int (c + 1) * w_weight s ! j - w_total s * int ((n(i := n i + 1)) j)"
      using cj e by (cases "j = i") (simp_all add: algebra_simps)
    ultimately show ?thesis by simp
  qed
  note step = this
  have "wrr_counts (c + 1) (n(i := n i + 1)) (s\<lparr>w_current := cur\<rparr>)"
    unfolding wrr_counts_def
  proof (intro conjI allI impI)
    show "wrr_ok (s\<lparr>w_current := cur\<rparr>)" using ok len by (simp add: wrr_ok_def)
    show "(\<Sum>j<length (w_weight (s\<lparr>w_current := cur\<rparr>)). (n(i := n i + 1)) j) = c + 1"
      using sum by simp
    fix j assume "j < length (w_weight (s\<lparr>w_current := cur\<rparr>))"
    then have j: "j < ?n" by simp
    show "- w_total (s\<lparr>w_current := cur\<rparr>) < w_current (s\<lparr>w_current := cur\<rparr>) ! j"
      using step [OF j, THEN conjunct2] by simp
    show "w_current (s\<lparr>w_current := cur\<rparr>) ! j = int (c + 1) * w_weight (s\<lparr>w_current := cur\<rparr>) ! j
        - w_total (s\<lparr>w_current := cur\<rparr>) * int ((n(i := n i + 1)) j)"
      using step [OF j, THEN conjunct1] by simp
  qed
  then show ?thesis using nx i by auto
qed

lemma wrr_counts_fingerprint [simp]:
  "wrr_counts c n (s\<lparr>w_fingerprint := f\<rparr>) = wrr_counts c n s"
  by (simp add: wrr_counts_def wrr_ok_def)

lemma wrr_ok_reset: "wrr_ok (reset_weights ws)"
  by (auto simp: wrr_ok_def reset_weights_def pos_weight_def)

lemma wrr_counts_reset:
  assumes "ws \<noteq> []"
  shows "wrr_counts 0 (\<lambda>_. 0) (reset_weights ws)"
proof -
  have "w_weight (reset_weights ws) \<noteq> []" using assms by (simp add: reset_weights_def)
  from wrr_total_pos [OF wrr_ok_reset this] wrr_ok_reset [of ws] show ?thesis
    by (simp add: wrr_counts_def) (simp add: reset_weights_def)
qed

text \<open>What the counters say of the picks: nobody is ahead of its share by a whole round, and after
a multiple of the total everybody has exactly its share.\<close>

lemma wrr_counts_shares:
  assumes c: "wrr_counts c n s" and i: "i < length (w_weight s)"
  shows "int (n i) * w_total s < int c * w_weight s ! i + w_total s"
    and "int c = m * w_total s \<Longrightarrow> int (n i) = m * w_weight s ! i"
proof -
  let ?n = "length (w_weight s)"
  have e: "\<And>j. j < ?n \<Longrightarrow> int (n j) * w_total s < int c * w_weight s ! j + w_total s"
    using c by (auto simp: wrr_counts_def mult.commute)
  show "int (n i) * w_total s < int c * w_weight s ! i + w_total s" using e i by simp
  assume m: "int c = m * w_total s"
  have tp: "0 < w_total s" using wrr_total_pos c i by (fastforce simp: wrr_counts_def)
  have le: "int (n j) \<le> m * w_weight s ! j" if "j < ?n" for j
  proof -
    have "int (n j) * w_total s < (m * w_weight s ! j + 1) * w_total s"
      using e [OF that] by (simp add: m algebra_simps)
    then show ?thesis using tp by (simp add: mult_less_cancel_right)
  qed
  have "(\<Sum>j<?n. int (n j)) = (\<Sum>j<?n. m * w_weight s ! j)"
    using c m
    by (simp add: wrr_counts_def wrr_ok_def sum_list_sum_nth atLeast0LessThan
        flip: of_nat_sum sum_distrib_left)
  then show "int (n i) = m * w_weight s ! i"
    using sum_list_le_eq [where f = "\<lambda>j. int (n j)" and g = "\<lambda>j. m * w_weight s ! j" and n = ?n]
      le i by blast
qed

section \<open>Fingerprints\<close>

lemma itoa_pos_no_comma: "count_list (itoa (pos_weight w)) CHR '','' = 0"
proof -
  have "CHR '','' \<notin> set (dec_string n)" for n
    using dec_string_digits [of "CHR '',''" n] by (auto simp: is_digit_def code_def)
  then show ?thesis by (auto simp: itoa_def pos_weight_def count_list_0_iff)
qed

lemma count_list_append: "count_list (xs @ ys) c = count_list xs c + count_list ys c"
  by (induction xs) auto

lemma weights_fingerprint_commas: "count_list (weights_fingerprint ws) CHR '','' = length ws"
  by (induction ws)
     (simp_all add: weights_fingerprint_def count_list_append itoa_pos_no_comma)

definition comma_free :: "pool_member list \<Rightarrow> bool" where
  "comma_free pool \<longleftrightarrow> list_all (\<lambda>m. CHR '','' \<notin> set (pm_id m)) pool"

lemma pool_fingerprint_commas:
  "comma_free pool \<Longrightarrow> count_list (pool_fingerprint pool) CHR '','' = length pool"
  by (induction pool)
     (simp_all add: pool_fingerprint_def comma_free_def count_list_append itoa_pos_no_comma
       count_list_0_iff)

lemma pool_fingerprint_nonempty: "pool \<noteq> [] \<Longrightarrow> pool_fingerprint pool \<noteq> []"
  by (cases pool) (simp_all add: pool_fingerprint_def)

definition bal_inv :: "balancer \<Rightarrow> bool" where
  "bal_inv b \<longleftrightarrow> (\<forall>k s. b_by_key b k = Some s \<longrightarrow>
     wrr_ok s \<and> count_list (w_fingerprint s) CHR '','' = length (w_weight s))"

lemma bal_inv_new [inv_intros]: "bal_inv new_balancer"
  by (simp add: bal_inv_def new_balancer_def)

lemma wrr_ok_reset_pool: "wrr_ok (reset_pool pool)"
  and weight_reset_pool: "w_weight (reset_pool pool) = map (pos_weight \<circ> pm_weight) pool"
  and fingerprint_reset_pool: "w_fingerprint (reset_pool pool) = pool_fingerprint pool"
  by (auto simp: reset_pool_def reset_weights_def wrr_ok_def member_weights_def pos_weight_def)

lemma state_of_ok:
  "bal_inv b \<Longrightarrow> wrr_ok (state_of b k)
    \<and> count_list (w_fingerprint (state_of b k)) CHR '','' = length (w_weight (state_of b k))"
  by (auto simp: state_of_def bal_inv_def wrr_zero_def wrr_ok_def split: option.split)

lemma select_ok:
  assumes inv: "bal_inv b" and cf: "comma_free pool" and ne: "pool \<noteq> []"
  shows "\<exists>b' i. select b key pool = Returns (b', Some i) \<and> i < length pool \<and> bal_inv b'
    \<and> (\<forall>k. k \<noteq> key \<longrightarrow> b_by_key b' k = b_by_key b k)"
proof -
  define s where "s = state_of b key"
  define s1 where "s1 = (if w_fingerprint s \<noteq> pool_fingerprint pool then reset_pool pool else s)"
  have s: "wrr_ok s" "count_list (w_fingerprint s) CHR '','' = length (w_weight s)"
    using state_of_ok [OF inv] by (auto simp: s_def)
  have fp: "w_fingerprint s1 = pool_fingerprint pool"
    and ok: "wrr_ok s1" and len: "length (w_weight s1) = length pool"
    using s pool_fingerprint_commas [OF cf]
    by (auto simp: s1_def wrr_ok_reset_pool weight_reset_pool fingerprint_reset_pool)
  have "w_weight s1 \<noteq> []" using len ne by auto
  from wrr_next_spec [OF ok this] obtain cur i where
    nx: "wrr_next s1 = Returns (s1\<lparr>w_current := cur\<rparr>, i)" "i < length pool"
      "length cur = length (w_weight s1)"
    by (auto simp: len)
  have sel: "select b key pool =
      Returns (b\<lparr>b_by_key := (b_by_key b)(key \<mapsto> s1\<lparr>w_current := cur\<rparr>)\<rparr>, Some i)"
    using ne nx by (simp add: select_def Let_def flip: s_def s1_def)
  have "wrr_ok (s1\<lparr>w_current := cur\<rparr>)" using ok nx(3) by (simp add: wrr_ok_def)
  then have "bal_inv (b\<lparr>b_by_key := (b_by_key b)(key \<mapsto> s1\<lparr>w_current := cur\<rparr>)\<rparr>)"
    using inv fp len pool_fingerprint_commas [OF cf] by (simp add: bal_inv_def)
  then show ?thesis using sel nx(2) by auto
qed

text \<open>The state of one key after \<open>c\<close> selections from the same pool, \<open>n j\<close> of them at index \<open>j\<close>.\<close>

definition tracks :: "balancer \<Rightarrow> string \<Rightarrow> pool_member list \<Rightarrow> nat \<Rightarrow> (nat \<Rightarrow> nat) \<Rightarrow> bool" where
  "tracks b key pool c n \<longleftrightarrow>
    c = 0 \<and> b_by_key b key = None \<and> n = (\<lambda>_. 0)
    \<or> (\<exists>s. b_by_key b key = Some s \<and> wrr_counts c n s \<and> w_fingerprint s = pool_fingerprint pool
         \<and> w_weight s = map (pos_weight \<circ> pm_weight) pool)"

lemma tracks_select:
  assumes t: "tracks b key pool c n" and ne: "pool \<noteq> []"
  shows "\<exists>b' i. select b key pool = Returns (b', Some i) \<and> tracks b' key pool (c + 1) (n(i := n i + 1))"
proof -
  define s where "s = state_of b key"
  define s1 where "s1 = (if w_fingerprint s \<noteq> pool_fingerprint pool then reset_pool pool else s)"
  have s1: "wrr_counts c n s1 \<and> w_fingerprint s1 = pool_fingerprint pool
      \<and> w_weight s1 = map (pos_weight \<circ> pm_weight) pool"
  proof (cases "b_by_key b key")
    case None
    then have "s1 = reset_pool pool" and c: "c = 0" "n = (\<lambda>_. 0)"
      using t pool_fingerprint_nonempty [OF ne]
      by (auto simp: s1_def s_def state_of_def wrr_zero_def tracks_def)
    moreover have "wrr_counts 0 (\<lambda>_. 0) (reset_pool pool)"
      using wrr_counts_reset [of "member_weights pool"] ne
      by (simp add: reset_pool_def member_weights_def)
    ultimately show ?thesis by (simp add: weight_reset_pool fingerprint_reset_pool)
  next
    case (Some s0)
    then show ?thesis using t by (auto simp: s1_def s_def state_of_def tracks_def)
  qed
  then have "w_weight s1 \<noteq> []" using ne by auto
  with s1 wrr_counts_next obtain s2 i where
    nx: "wrr_next s1 = Returns (s2, i)" "i < length pool"
      "wrr_counts (c + 1) (n(i := n i + 1)) s2" "w_weight s2 = w_weight s1"
      "w_fingerprint s2 = w_fingerprint s1"
    by (metis length_map)
  have "select b key pool = Returns (b\<lparr>b_by_key := (b_by_key b)(key \<mapsto> s2)\<rparr>, Some i)"
    using ne nx by (simp add: select_def Let_def flip: s_def s1_def)
  then show ?thesis using nx s1 by (auto simp: tracks_def)
qed

text \<open>The round robin as a selection: a request is a route key with its pool.\<close>

definition wrr_select :: "balancer \<Rightarrow> string \<times> pool_member list \<Rightarrow> (balancer \<times> nat option) outcome" where
  "wrr_select b r = select b (fst r) (snd r)"

interpretation wrr_sel: pool_selector wrr_select snd "\<lambda>r. comma_free (snd r)" bal_inv
proof
  show "\<exists>s' i. wrr_select s r = Returns (s', Some i) \<and> i < length (snd r) \<and> bal_inv s'"
    if "bal_inv s" "comma_free (snd r)" "snd r \<noteq> []" for s r
    using select_ok [OF that, of "fst r"] by (auto simp: wrr_select_def)
qed (simp add: wrr_select_def select_def)

definition picks_of :: "string \<Rightarrow> nat \<Rightarrow> ((string \<times> pool_member list) \<times> nat option) list \<Rightarrow> nat" where
  "picks_of key i log = length (filter (\<lambda>(r, p). fst r = key \<and> p = Some i) log)"

lemma select_seq_tracks:
  assumes "bal_inv b" and "tracks b key pool c n" and "pool \<noteq> []"
    and "\<forall>r \<in> set rs. comma_free (snd r)" and "\<forall>r \<in> set rs. fst r = key \<longrightarrow> snd r = pool"
  shows "\<exists>b' picks. select_seq wrr_select b rs = Returns (b', picks) \<and> length picks = length rs
    \<and> tracks b' key pool (c + length (filter (\<lambda>r. fst r = key) rs))
        (\<lambda>i. n i + picks_of key i (zip rs picks))"
  using assms(1,2,4,5)
proof (induction rs arbitrary: b c n)
  case Nil
  then show ?case by (simp add: picks_of_def)
next
  case (Cons r rs)
  show ?case
  proof (cases "snd r = []")
    case True
    have ne: "fst r \<noteq> key" using True Cons.prems(4) assms(3) by auto
    from Cons.IH [OF Cons.prems(1,2)] Cons.prems(3,4) obtain b' picks where
      "select_seq wrr_select b rs = Returns (b', picks)" "length picks = length rs"
      "tracks b' key pool (c + length (filter (\<lambda>r. fst r = key) rs))
        (\<lambda>i. n i + picks_of key i (zip rs picks))" by auto
    moreover have "wrr_select b r = Returns (b, None)"
      using True by (simp add: wrr_select_def select_def)
    ultimately show ?thesis using ne
      by (intro exI [of _ b'] exI [of _ "None # picks"]) (simp add: picks_of_def)
  next
    case False
    obtain b1 i where sel: "select b (fst r) (snd r) = Returns (b1, Some i)" "bal_inv b1"
      and oth: "\<forall>k. k \<noteq> fst r \<longrightarrow> b_by_key b1 k = b_by_key b k"
      using select_ok [OF Cons.prems(1) _ False, of "fst r"] Cons.prems(3) by auto
    define d where "d = (if fst r = key then 1 else 0 :: nat)"
    define n1 where "n1 = (if fst r = key then n(i := n i + 1) else n)"
    have "tracks b1 key pool (c + d) n1"
    proof (cases "fst r = key")
      case True
      then show ?thesis
        using tracks_select [OF Cons.prems(2) assms(3)] sel Cons.prems(4) by (auto simp: d_def n1_def)
    next
      case False
      then show ?thesis using oth Cons.prems(2) by (simp add: d_def n1_def tracks_def)
    qed
    from Cons.IH [OF sel(2) this] Cons.prems(3,4) obtain b' picks where
      IH: "select_seq wrr_select b1 rs = Returns (b', picks)" "length picks = length rs"
      "tracks b' key pool (c + d + length (filter (\<lambda>r. fst r = key) rs))
        (\<lambda>i. n1 i + picks_of key i (zip rs picks))" by auto
    have "(\<lambda>j. n1 j + picks_of key j (zip rs picks)) =
        (\<lambda>j. n j + picks_of key j (zip (r # rs) (Some i # picks)))"
      by (rule ext) (auto simp: n1_def picks_of_def)
    moreover have "wrr_select b r = Returns (b1, Some i)"
      using sel by (simp add: wrr_select_def)
    moreover have "length (filter (\<lambda>r. fst r = key) (r # rs)) =
        d + length (filter (\<lambda>r. fst r = key) rs)" by (simp add: d_def)
    ultimately show ?thesis using IH
      by (intro exI [of _ b'] exI [of _ "Some i # picks"]) (simp add: add.assoc)
  qed
qed

text \<open>Property C3. Smooth weighted round robin gives every member its share. Take any sequence of
selections, over any route keys, in which one key always comes with the same pool and starts fresh:
no selection panics, and of the \<open>c\<close> selections of that key, index \<open>i\<close> gets less than
\<open>c * weight / total + 1\<close>, and exactly \<open>m * weight\<close> when \<open>c\<close> is \<open>m\<close> times the total weight.\<close>

theorem round_robin_shares:
  assumes "bal_inv b" and "b_by_key b key = None" and "pool \<noteq> []"
    and "\<forall>r \<in> set rs. comma_free (snd r)" and "\<forall>r \<in> set rs. fst r = key \<longrightarrow> snd r = pool"
    and "i < length pool"
    and "c = length (filter (\<lambda>r. fst r = key) rs)"
    and "tw = sum_list (map (pos_weight \<circ> pm_weight) pool)"
  shows "\<exists>b' picks. select_seq wrr_select b rs = Returns (b', picks) \<and> length picks = length rs
    \<and> int (picks_of key i (zip rs picks)) * tw
        < int c * pos_weight (pm_weight (pool ! i)) + tw
    \<and> (\<forall>m. int c = m * tw \<longrightarrow>
        int (picks_of key i (zip rs picks)) = m * pos_weight (pm_weight (pool ! i)))"
proof -
  have "tracks b key pool 0 (\<lambda>_. 0)" using assms(2) by (simp add: tracks_def)
  from select_seq_tracks [OF assms(1) this assms(3-5)] obtain b' picks where
    r: "select_seq wrr_select b rs = Returns (b', picks)" "length picks = length rs"
    and t: "tracks b' key pool c (\<lambda>i. picks_of key i (zip rs picks))"
    by (auto simp: assms(7))
  let ?n = "picks_of key i (zip rs picks)" and ?w = "pos_weight (pm_weight (pool ! i))"
  have tp: "0 < tw"
    using wrr_total_pos [OF wrr_ok_reset_pool, of pool] assms(3,8)
    by (simp add: weight_reset_pool) (simp add: reset_pool_def reset_weights_def member_weights_def)
  have "int ?n * tw < int c * ?w + tw \<and> (\<forall>m. int c = m * tw \<longrightarrow> int ?n = m * ?w)"
  proof (cases "b_by_key b' key")
    case None
    then have "c = 0" "?n = 0" using t by (auto simp: tracks_def dest: fun_cong)
    then show ?thesis using tp by auto
  next
    case (Some s)
    then have wc: "wrr_counts c (\<lambda>i. picks_of key i (zip rs picks)) s"
      and w: "w_weight s = map (pos_weight \<circ> pm_weight) pool"
      using t by (auto simp: tracks_def)
    have "w_total s = tw" using wc w assms(8) by (simp add: wrr_counts_def wrr_ok_def)
    then show ?thesis
      using wrr_counts_shares [OF wc, of i] w assms(6) by simp
  qed
  then show ?thesis using r by blast
qed

lemma round_robin_shares_witness:
  "\<exists>b' picks. select_seq wrr_select new_balancer
      (replicate 4 (''d1'', [\<lparr>pm_id = ''a'', pm_endpoint = ''h:1'', pm_protocol = ''http'', pm_weight = 3\<rparr>,
         \<lparr>pm_id = ''b'', pm_endpoint = ''h:2'', pm_protocol = ''http'', pm_weight = 1\<rparr>])) = Returns (b', picks)
    \<and> picks_of ''d1'' 0 (zip (replicate 4 (''d1'',
        [\<lparr>pm_id = ''a'', pm_endpoint = ''h:1'', pm_protocol = ''http'', pm_weight = 3\<rparr>,
         \<lparr>pm_id = ''b'', pm_endpoint = ''h:2'', pm_protocol = ''http'', pm_weight = 1\<rparr>])) picks) = 3"
proof -
  let ?p = "[\<lparr>pm_id = ''a'', pm_endpoint = ''h:1'', pm_protocol = ''http'', pm_weight = 3\<rparr>,
         \<lparr>pm_id = ''b'', pm_endpoint = ''h:2'', pm_protocol = ''http'', pm_weight = 1\<rparr>]"
  have "\<exists>b' picks. select_seq wrr_select new_balancer (replicate 4 (''d1'', ?p)) = Returns (b', picks)
    \<and> length picks = length (replicate 4 (''d1'', ?p))
    \<and> int (picks_of ''d1'' 0 (zip (replicate 4 (''d1'', ?p)) picks)) * 4
        < int 4 * pos_weight (pm_weight (?p ! 0)) + 4
    \<and> (\<forall>m. int 4 = m * 4 \<longrightarrow> int (picks_of ''d1'' 0 (zip (replicate 4 (''d1'', ?p)) picks))
          = m * pos_weight (pm_weight (?p ! 0)))"
    by (rule round_robin_shares [OF bal_inv_new])
       (simp_all add: new_balancer_def comma_free_def pos_weight_def)
  then obtain b' picks where r: "select_seq wrr_select new_balancer (replicate 4 (''d1'', ?p)) = Returns (b', picks)"
    and m: "\<forall>m. int 4 = m * 4 \<longrightarrow> int (picks_of ''d1'' 0 (zip (replicate 4 (''d1'', ?p)) picks))
          = m * pos_weight (pm_weight (?p ! 0))" by blast
  from m [rule_format, of 1] have "picks_of ''d1'' 0 (zip (replicate 4 (''d1'', ?p)) picks) = 3"
    by (simp add: pos_weight_def)
  with r show ?thesis by blast
qed

section \<open>Least connections\<close>

text \<open>\<open>better p t j i\<close>: member \<open>j\<close> beats member \<open>i\<close> - fewer connections, or as many and a higher
weight.\<close>

definition better :: "pool_member list \<Rightarrow> conn_tracker \<Rightarrow> nat \<Rightarrow> nat \<Rightarrow> bool" where
  "better pool t j i \<longleftrightarrow> t (member_id (pool ! j)) < t (member_id (pool ! i))
     \<or> t (member_id (pool ! j)) = t (member_id (pool ! i))
        \<and> pm_weight (pool ! j) > pm_weight (pool ! i)"

lemma least_fold:
  "0 < k \<Longrightarrow> \<exists>b. fold (least_step pool t) [0..<k] (None, c0) = (Some b, t (member_id (pool ! b)))
     \<and> b < k \<and> (\<forall>j < k. \<not> better pool t j b) \<and> (\<forall>j < b. better pool t b j)"
proof (induction k)
  case (Suc k)
  show ?case
  proof (cases "k = 0")
    case True
    then show ?thesis by (simp add: least_step_def better_def Let_def)
  next
    case False
    then obtain b where b: "fold (least_step pool t) [0..<k] (None, c0) =
        (Some b, t (member_id (pool ! b)))" "b < k" "\<forall>j < k. \<not> better pool t j b"
      "\<forall>j < b. better pool t b j" using Suc.IH by auto
    have tr: "better pool t i j" if "better pool t i l" "\<not> better pool t j l" for i j l
      using that by (auto simp: better_def)
    have tr2: "\<not> better pool t j i" if "better pool t i l" "\<not> better pool t j l" for i j l
      using that by (auto simp: better_def)
    show ?thesis
    proof (cases "better pool t k b")
      case True
      then have "fold (least_step pool t) [0..<Suc k] (None, c0) = (Some k, t (member_id (pool ! k)))"
        using b(1) by (auto simp: least_step_def better_def Let_def)
      moreover have "\<forall>j < k. better pool t k j" using tr [OF True] b(3) by blast
      moreover have "\<forall>j < Suc k. \<not> better pool t j k"
        using tr2 [OF True] b(3) by (auto simp: less_Suc_eq better_def)
      ultimately show ?thesis by blast
    next
      case False
      then have "fold (least_step pool t) [0..<Suc k] (None, c0) = (Some b, t (member_id (pool ! b)))"
        using b(1) by (auto simp: least_step_def better_def Let_def)
      then show ?thesis using b(2-4) False by (auto simp: less_Suc_eq)
    qed
  qed
qed simp

lemma least_connections_spec:
  assumes "pool \<noteq> []"
  shows "\<exists>i. least_connections pool t = Some i \<and> i < length pool
    \<and> (\<forall>j < length pool. \<not> better pool t j i) \<and> (\<forall>j < i. better pool t i j)"
  using least_fold [of "length pool" pool t "2 ^ 62"] assms
  by (auto simp: least_connections_def)

interpretation lc_sel: pool_selector "\<lambda>b pool. Returns (b, select_least b pool)" "\<lambda>p. p"
  "\<lambda>_. True" "\<lambda>_. True"
proof
  show "\<exists>s' i. Returns (s, select_least s r) = Returns (s', Some i) \<and> i < length r \<and> True"
    if "r \<noteq> []" for s r
    using least_connections_spec [OF that, of "b_conn s"] by (auto simp: select_least_def)
qed (simp add: select_least_def least_connections_def)

text \<open>What requests do to the counters: one event per request that starts or ends on a member.\<close>

datatype conn_event = ConnOpen string | ConnClose string

fun conn_step :: "conn_tracker \<Rightarrow> conn_event \<Rightarrow> conn_tracker" where
  "conn_step t (ConnOpen i) = inc_conn i t"
| "conn_step t (ConnClose i) = dec_conn i t"

interpretation conns: machine conn_step "\<lambda>t. \<forall>i. 0 \<le> t i"
proof
  fix s e assume "\<forall>i. 0 \<le> (s :: conn_tracker) i"
  then show "\<forall>i. 0 \<le> conn_step s e i" by (cases e) (auto simp: inc_conn_def dec_conn_def)
qed

definition opened :: "string \<Rightarrow> conn_event list \<Rightarrow> nat" where
  "opened i es = length (filter ((=) (ConnOpen i)) es)"

definition closed :: "string \<Rightarrow> conn_event list \<Rightarrow> nat" where
  "closed i es = length (filter ((=) (ConnClose i)) es)"

lemma conn_counts:
  assumes "\<forall>k \<le> length es. closed i (take k es) \<le> opened i (take k es)"
  shows "foldl conn_step (\<lambda>_. 0) es i = int (opened i es) - int (closed i es)"
  using assms
proof (induction es rule: rev_induct)
  case (snoc e es)
  have "\<forall>k \<le> length es. closed i (take k es) \<le> opened i (take k es)"
  proof (intro allI impI)
    fix k assume "k \<le> length es"
    then show "closed i (take k es) \<le> opened i (take k es)"
      using snoc.prems [rule_format, of k] by simp
  qed
  note IH = snoc.IH [OF this]
  have "closed i (es @ [e]) \<le> opened i (es @ [e])"
    using snoc.prems [rule_format, of "length (es @ [e])"] by simp
  then show ?case
    using IH by (cases e) (auto simp: inc_conn_def dec_conn_def opened_def closed_def)
qed (simp add: opened_def closed_def)

text \<open>Least connections picks, from the requests started and ended so far, a member
with the fewest in flight: nobody has fewer, nobody with as many has a higher weight, and among
equals it is the first of the pool. The counter it reads is the true number in flight as long as no
member ends more requests than it started, and no counter is ever negative.\<close>

theorem least_connections_picks_the_least_loaded:
  assumes "pool \<noteq> []"
    and bal: "\<forall>m \<in> set pool. \<forall>k \<le> length es.
      closed (member_id m) (take k es) \<le> opened (member_id m) (take k es)"
  shows "\<exists>i < length pool. least_connections pool (foldl conn_step (\<lambda>_. 0) es) = Some i
    \<and> (\<forall>j < length pool.
        let load = (\<lambda>l. int (opened (member_id (pool ! l)) es) - int (closed (member_id (pool ! l)) es))
        in load i \<le> load j
          \<and> (load i = load j \<longrightarrow> pm_weight (pool ! j) \<le> pm_weight (pool ! i)
              \<and> (pm_weight (pool ! j) = pm_weight (pool ! i) \<longrightarrow> i \<le> j)))
    \<and> (\<forall>m. 0 \<le> foldl conn_step (\<lambda>_. 0) es m)"
proof -
  let ?t = "foldl conn_step (\<lambda>_. 0) es"
  obtain i where i: "least_connections pool ?t = Some i" "i < length pool"
    "\<forall>j < length pool. \<not> better pool ?t j i" "\<forall>j < i. better pool ?t i j"
    using least_connections_spec [OF assms(1)] by blast
  have t: "?t (member_id (pool ! j)) =
      int (opened (member_id (pool ! j)) es) - int (closed (member_id (pool ! j)) es)"
    if "j < length pool" for j
    using bal that by (intro conn_counts) simp
  have nn: "\<forall>m. 0 \<le> ?t m" by (rule conns.mrun_inv) simp
  have "let load = (\<lambda>l. int (opened (member_id (pool ! l)) es) - int (closed (member_id (pool ! l)) es))
        in load i \<le> load j
          \<and> (load i = load j \<longrightarrow> pm_weight (pool ! j) \<le> pm_weight (pool ! i)
              \<and> (pm_weight (pool ! j) = pm_weight (pool ! i) \<longrightarrow> i \<le> j))"
    if j: "j < length pool" for j
  proof -
    have "\<not> better pool ?t j i" using i(3) j by blast
    moreover have "j < i \<Longrightarrow> better pool ?t i j" using i(4) by blast
    ultimately show ?thesis
      unfolding better_def Let_def t [OF j] t [OF i(2)] by linarith
  qed
  then show ?thesis using i(1,2) nn by blast
qed

lemma least_connections_picks_the_least_loaded_witness:
  "\<exists>i < 2. least_connections
      [\<lparr>pm_id = ''a'', pm_endpoint = ''h:1'', pm_protocol = ''http'', pm_weight = 1\<rparr>,
       \<lparr>pm_id = ''b'', pm_endpoint = ''h:2'', pm_protocol = ''http'', pm_weight = 1\<rparr>]
      (foldl conn_step (\<lambda>_. 0) [ConnOpen ''a'', ConnOpen ''b'', ConnClose ''b'']) = Some i"
proof -
  let ?p = "[\<lparr>pm_id = ''a'', pm_endpoint = ''h:1'', pm_protocol = ''http'', pm_weight = 1\<rparr>,
       \<lparr>pm_id = ''b'', pm_endpoint = ''h:2'', pm_protocol = ''http'', pm_weight = 1\<rparr>]"
  let ?es = "[ConnOpen ''a'', ConnOpen ''b'', ConnClose ''b'']"
  have a: "?p \<noteq> []" by simp
  have "\<forall>m \<in> set ?p. list_all (\<lambda>k. closed (member_id m) (take k ?es)
      \<le> opened (member_id m) (take k ?es)) [0..<4]"
    by (simp add: member_id_def closed_def opened_def upt_rec)
  then have b: "\<forall>m \<in> set ?p. \<forall>k \<le> length ?es. closed (member_id m) (take k ?es)
      \<le> opened (member_id m) (take k ?es)"
    by (auto simp: list_all_iff)
  show ?thesis using least_connections_picks_the_least_loaded [OF a b] by auto
qed

section \<open>Consistent hashing\<close>

declare sort_search.simps [simp del]

lemma sort_search_spec:
  assumes "\<forall>a b. a \<le> b \<longrightarrow> b < j \<longrightarrow> f a \<longrightarrow> f b" and "i \<le> j"
  shows "i \<le> sort_search f i j \<and> sort_search f i j \<le> j
    \<and> (\<forall>k. i \<le> k \<longrightarrow> k < sort_search f i j \<longrightarrow> \<not> f k)
    \<and> (sort_search f i j < j \<longrightarrow> f (sort_search f i j))"
  using assms
proof (induction f i j rule: sort_search.induct)
  case (1 f i j)
  show ?case
  proof (cases "i < j")
    case True
    let ?h = "(i + j) div 2"
    have h: "i \<le> ?h" "?h < j" using True by auto
    show ?thesis
    proof (cases "f ?h")
      case False
      have lo: "\<not> f k" if "k \<le> ?h" for k using that False "1.prems"(1) h by blast
      have e: "sort_search f i j = sort_search f (?h + 1) j"
        using True False by (simp add: sort_search.simps [of f i j])
      have "?h + 1 \<le> j" using h by simp
      note IH = "1.IH"(1) [OF True refl False "1.prems"(1) this]
      have "\<not> f k" if "i \<le> k" "k < sort_search f (?h + 1) j" for k
        using lo [of k] IH that by (cases "k \<le> ?h") auto
      then show ?thesis using IH h unfolding e by (meson le_trans le_add1 less_imp_le)
    next
      case fh: True
      have "\<forall>a b. a \<le> b \<longrightarrow> b < ?h \<longrightarrow> f a \<longrightarrow> f b" using "1.prems"(1) h by auto
      note IH = "1.IH"(2) [OF True refl _ this h(1)]
      have e: "sort_search f i j = sort_search f i ?h"
        using True fh by (simp add: sort_search.simps [of f i j])
      have "f (sort_search f i ?h)"
        using IH fh by (cases "sort_search f i ?h < ?h") auto
      then show ?thesis using IH fh h unfolding e by auto
    qed
  next
    case False
    then have "sort_search f i j = i" by (simp add: sort_search.simps [of f i j])
    then show ?thesis using "1.prems"(2) False by simp
  qed
qed

text \<open>The point of a set that serves a hash: the least one not below it, else the least of all.\<close>

definition is_succ :: "32 word set \<Rightarrow> 32 word \<Rightarrow> 32 word \<Rightarrow> bool" where
  "is_succ S h p \<longleftrightarrow> p \<in> S
    \<and> (if \<exists>q \<in> S. h \<le> q then h \<le> p \<and> (\<forall>q \<in> S. h \<le> q \<longrightarrow> p \<le> q) else \<forall>q \<in> S. p \<le> q)"

lemma is_succ_unique: "is_succ S h p \<Longrightarrow> is_succ S h q \<Longrightarrow> p = q"
  by (auto simp: is_succ_def split: if_splits intro: order.antisym)

lemma is_succ_subset: "is_succ T h p \<Longrightarrow> S \<subseteq> T \<Longrightarrow> p \<in> S \<Longrightarrow> is_succ S h p"
  unfolding is_succ_def by (smt (verit) subsetD)

lemma ring_lookup_succ:
  assumes "sorted (hr_points r)" and "hr_points r \<noteq> []"
  shows "\<exists>p. is_succ (set (hr_points r)) (hash_key key) p
    \<and> ring_lookup r key = (case hr_by_pt r p of None \<Rightarrow> [] | Some ident \<Rightarrow> ident)"
proof -
  let ?pts = "hr_points r" and ?h = "hash_key key"
  let ?i = "sort_search (\<lambda>i. ?h \<le> ?pts ! i) 0 (length ?pts)"
  let ?p = "?pts ! (if ?i = length ?pts then 0 else ?i)"
  have mono: "\<forall>a b. a \<le> b \<longrightarrow> b < length ?pts \<longrightarrow> ?h \<le> ?pts ! a \<longrightarrow> ?h \<le> ?pts ! b"
    using assms(1) by (meson order_trans sorted_nth_mono)
  note sp = sort_search_spec [OF mono, of 0, simplified]
  have "is_succ (set ?pts) ?h ?p"
  proof (cases "?i = length ?pts")
    case True
    then have "\<not> ?h \<le> q" if "q \<in> set ?pts" for q
      using sp that by (auto simp: in_set_conv_nth)
    moreover have "?pts ! 0 \<le> q" if "q \<in> set ?pts" for q
      using assms(1) that by (auto simp: in_set_conv_nth intro: sorted_nth_mono)
    ultimately show ?thesis using True assms(2) by (auto simp: is_succ_def)
  next
    case False
    then have i: "?i < length ?pts" using sp by auto
    have "?pts ! ?i \<le> q" if q: "q \<in> set ?pts" "?h \<le> q" for q
    proof -
      obtain k where k: "q = ?pts ! k" "k < length ?pts" using q(1) by (auto simp: in_set_conv_nth)
      have "\<not> k < ?i" using sp k q(2) by auto
      then show ?thesis using assms(1) k by (auto intro: sorted_nth_mono)
    qed
    then show ?thesis using False i sp by (auto simp: is_succ_def)
  qed
  then show ?thesis
    using assms(2) by (intro exI [of _ ?p]) (simp add: ring_lookup_def Let_def)
qed

text \<open>The owner of a point is the first member of the list that has it among its virtual nodes.\<close>

definition vnode_at :: "string \<Rightarrow> nat \<Rightarrow> 32 word" where
  "vnode_at ident i = hash_key (ident @ ''#'' @ itoa (int i))"

definition point_owner :: "string list \<Rightarrow> 32 word \<Rightarrow> string option" where
  "point_owner ids h = find (\<lambda>ident. \<exists>i < vnode_count. vnode_at ident i = h) ids"

lemma find_append: "find P (xs @ ys) = (case find P xs of None \<Rightarrow> find P ys | Some x \<Rightarrow> Some x)"
  by (induction xs) auto

lemma find_map_Pair:
  "map_option fst (find P (map (Pair x) ys)) = (if \<exists>y \<in> set ys. P (x, y) then Some x else None)"
proof (induction ys)
  case (Cons y ys)
  then show ?case by (cases "P (x, y)") (simp_all del: map_option_eq_Some)
qed simp

lemma find_product:
  "map_option fst (find P (List.product xs ys)) = find (\<lambda>x. \<exists>y \<in> set ys. P (x, y)) xs"
proof (induction xs)
  case (Cons x xs)
  have "map_option fst (find P (List.product (x # xs) ys)) =
      (case map_option fst (find P (map (Pair x) ys)) of
         None \<Rightarrow> map_option fst (find P (List.product xs ys)) | Some z \<Rightarrow> Some z)"
    by (simp add: find_append split: option.split)
  then show ?case by (simp add: find_map_Pair Cons.IH)
qed simp

lemma fold_add_vnode:
  "let r = fold add_vnode vs \<lparr>hr_points = [], hr_by_pt = (\<lambda>_. None)\<rparr> in
     set (hr_points r) = dom (hr_by_pt r)
     \<and> hr_by_pt r h = map_option fst (find (\<lambda>(ident, i). vnode_at ident i = h) vs)"
proof (induction vs arbitrary: h rule: rev_induct)
  case (snoc v vs)
  obtain ident i where v: "v = (ident, i)" by fastforce
  from snoc [of h] snoc [of "vnode_at ident i"] show ?case
    by (auto simp: v add_vnode_def Let_def find_append vnode_at_def split: option.split)
qed simp

lemma ring_points:
  "sorted (hr_points (new_hash_ring ids))
   \<and> set (hr_points (new_hash_ring ids)) = {h. point_owner ids h \<noteq> None}
   \<and> hr_by_pt (new_hash_ring ids) = point_owner ids"
proof -
  have o: "map_option fst (find (\<lambda>(ident, i). vnode_at ident i = h) (List.product ids [0..<vnode_count]))
      = point_owner ids h" for h
    by (simp add: find_product point_owner_def atLeast0LessThan Bex_def)
  note f = fold_add_vnode [of "List.product ids [0..<vnode_count]", unfolded Let_def o]
  have by_pt: "hr_by_pt (new_hash_ring ids) = point_owner ids"
    using f by (simp add: new_hash_ring_def Let_def fun_eq_iff)
  moreover have "set (hr_points (new_hash_ring ids)) = dom (hr_by_pt (new_hash_ring ids))"
    using f by (simp add: new_hash_ring_def Let_def)
  ultimately show ?thesis by (simp add: new_hash_ring_def Let_def dom_def)
qed

lemma ring_nonempty: "ids \<noteq> [] \<Longrightarrow> hr_points (new_hash_ring ids) \<noteq> []"
proof -
  assume "ids \<noteq> []"
  then have "\<exists>ident \<in> set ids. \<exists>i < vnode_count. vnode_at ident i = vnode_at (hd ids) 0"
    by (intro bexI [of _ "hd ids"] exI [of _ 0]) (simp_all add: vnode_count_def)
  then have "point_owner ids (vnode_at (hd ids) 0) \<noteq> None"
    by (auto simp: point_owner_def find_None_iff)
  then have "vnode_at (hd ids) 0 \<in> set (hr_points (new_hash_ring ids))" using ring_points by simp
  then show ?thesis by auto
qed

lemma ring_lookup_owner:
  assumes "ids \<noteq> []"
  shows "\<exists>p. is_succ {h. point_owner ids h \<noteq> None} (hash_key key) p
    \<and> point_owner ids p = Some (ring_lookup (new_hash_ring ids) key)"
proof -
  obtain p where "is_succ {h. point_owner ids h \<noteq> None} (hash_key key) p"
    "ring_lookup (new_hash_ring ids) key = (case point_owner ids p of None \<Rightarrow> [] | Some i \<Rightarrow> i)"
    using ring_lookup_succ [of "new_hash_ring ids" key] ring_points [of ids] ring_nonempty [OF assms]
    by auto
  moreover from this have "point_owner ids p \<noteq> None" by (simp add: is_succ_def)
  ultimately show ?thesis by (intro exI [of _ p]) auto
qed

lemma ring_lookup_mem: "ids \<noteq> [] \<Longrightarrow> ring_lookup (new_hash_ring ids) key \<in> set ids"
  using ring_lookup_owner [of ids key] by (auto simp: point_owner_def find_Some_iff)

lemma ring_lookup_insert:
  assumes "xs @ ys \<noteq> []"
  shows "ring_lookup (new_hash_ring (xs @ n # ys)) key = n
    \<or> ring_lookup (new_hash_ring (xs @ n # ys)) key = ring_lookup (new_hash_ring (xs @ ys)) key"
proof -
  let ?S = "{h. point_owner (xs @ ys) h \<noteq> None}"
  let ?T = "{h. point_owner (xs @ n # ys) h \<noteq> None}"
  obtain p where p: "is_succ ?S (hash_key key) p"
    "point_owner (xs @ ys) p = Some (ring_lookup (new_hash_ring (xs @ ys)) key)"
    using ring_lookup_owner [OF assms] by blast
  obtain q where q: "is_succ ?T (hash_key key) q"
    "point_owner (xs @ n # ys) q = Some (ring_lookup (new_hash_ring (xs @ n # ys)) key)"
    using ring_lookup_owner [of "xs @ n # ys" key] by auto
  have own: "point_owner (xs @ n # ys) h = point_owner (xs @ ys) h
      \<or> point_owner (xs @ n # ys) h = Some n" for h
    by (auto simp: point_owner_def find_append split: option.split)
  show ?thesis
  proof (cases "point_owner (xs @ n # ys) q = Some n")
    case True
    then show ?thesis using q(2) by simp
  next
    case False
    then have "point_owner (xs @ ys) q = point_owner (xs @ n # ys) q" using own by metis
    moreover have "?S \<subseteq> ?T"
      by (auto simp: point_owner_def find_append split: option.splits)
    ultimately have "is_succ ?S (hash_key key) q" using is_succ_subset [OF q(1)] q(2) by auto
    then have "q = p" using is_succ_unique p(1) by blast
    then show ?thesis using own [of q] p(2) q(2) False by auto
  qed
qed

lemma by_id_index:
  assumes "distinct ids" and "i < length ids"
  shows "map_of (rev (zip ids [0..<length ids])) (ids ! i) = Some i"
proof -
  have "map fst (rev (zip ids [0..<length ids])) = rev ids" by (simp add: rev_map [symmetric])
  then have "distinct (map fst (rev (zip ids [0..<length ids])))" using assms(1) by simp
  moreover have "(ids ! i, i) \<in> set (rev (zip ids [0..<length ids]))"
    using assms(2) by (auto simp: set_zip)
  ultimately show ?thesis by simp
qed

lemma consistent_hash_id:
  assumes "pool \<noteq> []" and "[] \<notin> member_id ` set pool" and "distinct (map member_id pool)"
  shows "\<exists>i < length pool. consistent_hash pool key = Some i
    \<and> member_id (pool ! i) = ring_lookup (new_hash_ring (map member_id pool)) key"
proof -
  let ?ids = "map member_id pool" and ?x = "ring_lookup (new_hash_ring (map member_id pool)) key"
  have "?x \<in> set ?ids" using ring_lookup_mem [of ?ids key] assms(1) by simp
  then obtain i where i: "i < length pool" "?x = member_id (pool ! i)"
    by (auto simp: in_set_conv_nth)
  moreover have "?x \<noteq> []" using assms(2) \<open>?x \<in> set ?ids\<close> by auto
  ultimately show ?thesis
    using assms(1) by_id_index [OF assms(3), of i] by (auto simp: consistent_hash_def Let_def)
qed

interpretation hash_sel: pool_selector "\<lambda>s r. Returns (s, consistent_hash (fst r) (snd r))" fst
  "\<lambda>r. [] \<notin> member_id ` set (fst r) \<and> distinct (map member_id (fst r))" "\<lambda>_. True"
proof
  fix s :: 'a and r :: "pool_member list \<times> string"
  assume "[] \<notin> member_id ` set (fst r) \<and> distinct (map member_id (fst r))" "fst r \<noteq> []"
  then show "\<exists>s' i. Returns (s, consistent_hash (fst r) (snd r)) = Returns (s', Some i)
      \<and> i < length (fst r) \<and> True"
    using consistent_hash_id [of "fst r" "snd r"] by auto
qed (simp add: consistent_hash_def)

text \<open>Property C28. Consistent hashing moves as few sessions as possible. When a member is added to a
pool (anywhere in it), every session key either keeps the member it had or moves to the new one; read
the other way, removing a member moves only the keys it served. In particular the choice depends on
nothing but the key and the pool.\<close>

theorem consistent_hash_moves_only_to_the_new_member:
  assumes "xs @ ys \<noteq> []" and "distinct (map member_id (xs @ m # ys))"
    and "[] \<notin> member_id ` set (xs @ m # ys)"
  shows "\<exists>i j. consistent_hash (xs @ ys) key = Some i \<and> i < length (xs @ ys)
    \<and> consistent_hash (xs @ m # ys) key = Some j \<and> j < length (xs @ m # ys)
    \<and> ((xs @ m # ys) ! j = m \<or> (xs @ m # ys) ! j = (xs @ ys) ! i)"
proof -
  obtain i where i: "i < length (xs @ ys)" "consistent_hash (xs @ ys) key = Some i"
    "member_id ((xs @ ys) ! i) = ring_lookup (new_hash_ring (map member_id (xs @ ys))) key"
    using consistent_hash_id [of "xs @ ys" key] assms by auto
  obtain j where j: "j < length (xs @ m # ys)" "consistent_hash (xs @ m # ys) key = Some j"
    "member_id ((xs @ m # ys) ! j) = ring_lookup (new_hash_ring (map member_id (xs @ m # ys))) key"
    using consistent_hash_id [of "xs @ m # ys" key] assms by auto
  have "member_id ((xs @ m # ys) ! j) = member_id m
      \<or> member_id ((xs @ m # ys) ! j) = member_id ((xs @ ys) ! i)"
    using ring_lookup_insert [of "map member_id xs" "map member_id ys" "member_id m" key] assms(1) i j
    by simp
  moreover have inj: "inj_on member_id (set (xs @ m # ys))"
    using assms(2) by (simp only: distinct_map)
  moreover have zj: "(xs @ m # ys) ! j \<in> set (xs @ m # ys)" using j(1) by (rule nth_mem)
  moreover have "(xs @ ys) ! i \<in> set (xs @ m # ys)" using nth_mem [OF i(1)] by auto
  moreover have "m \<in> set (xs @ m # ys)" by simp
  ultimately have "(xs @ m # ys) ! j = m \<or> (xs @ m # ys) ! j = (xs @ ys) ! i"
    by (metis inj_onD)
  then show ?thesis using i(1,2) j(1,2) by blast
qed

lemma consistent_hash_moves_only_to_the_new_member_witness:
  "\<exists>i. consistent_hash
      ([\<lparr>pm_id = ''a'', pm_endpoint = ''h:1'', pm_protocol = ''http'', pm_weight = 1\<rparr>] @ []) ''sess-1'' = Some i"
proof -
  let ?a = "\<lparr>pm_id = ''a'', pm_endpoint = ''h:1'', pm_protocol = ''http'', pm_weight = 1\<rparr>"
  let ?b = "\<lparr>pm_id = [], pm_endpoint = ''h:2'', pm_protocol = ''http'', pm_weight = 1\<rparr>"
  have a: "[?a] @ [] \<noteq> []" by simp
  have b: "distinct (map member_id ([?a] @ ?b # []))" by (simp add: member_id_def)
  have c: "[] \<notin> member_id ` set ([?a] @ ?b # [])" by (simp add: member_id_def)
  from consistent_hash_moves_only_to_the_new_member [OF a b c, of "''sess-1''"]
  show ?thesis by (elim exE conjE) (rule exI)
qed

end
