(* ===== verification/Route_Resolver.thy ===== *)
theory Route_Resolver
  imports Route_Table Load_Balancer
begin

text \<open>
  \<open>CacheResolver\<close> (\<open>internal/cache/resolver.go\<close>): from a host and a request to the instance that
  serves it. A route's limits are enforced first; then a matching policy, a percentage policy or
  the version weights choose a version, and a balancer chooses the instance in its pool. The
  functions thread the balancer's state. \<open>pickFromVersionBalanced\<close> and \<open>pickFallback\<close> call each
  other; their model takes fuel, and None means that it ran out.
\<close>

type_synonym pick = "(balancer \<times> (route_error + target)) outcome option"

section \<open>Small helpers\<close>

definition version_pool_of :: "route_entry \<Rightarrow> uuid \<Rightarrow> pool_member list" where
  "version_pool_of e v = (case find (\<lambda>p. vp_id p = v) (re_versions e) of None \<Rightarrow> [] | Some p \<Rightarrow> vp_pool p)"

definition target_from_member :: "route_entry \<Rightarrow> pool_member \<Rightarrow> uuid \<Rightarrow> target" where
  "target_from_member e m v =
     (let s = pm_protocol m;
          s = (if s = [] then re_protocol e else s);
          s = (if s = [] then ''http'' else s)
      in \<lparr>tg_scheme = s, tg_host = pm_endpoint m, tg_instance = pm_id m, tg_version = v,
          tg_sticky = None, tg_route = re_service_name e\<rparr>)"

definition sticky_target :: "route_entry \<Rightarrow> pool_member \<Rightarrow> sticky_cookie option \<Rightarrow> uuid \<Rightarrow> target" where
  "sticky_target e m c v = (target_from_member e m v)\<lparr>tg_sticky := c\<rparr>"

definition hash_bucket :: "string \<Rightarrow> int" where
  "hash_bucket key = uint (fnv1a key mod 100)"

text \<open>An index into a non-empty pool.\<close>

definition sticky_select :: "pool_member list \<Rightarrow> string \<Rightarrow> nat option" where
  "sticky_select pool key =
     (if pool = [] then None else Some (unat (fnv1a key mod word_of_nat (length pool))))"

definition inst_key :: "route_entry \<Rightarrow> uuid \<Rightarrow> string" where
  "inst_key e v = re_domain e @ ''#inst:'' @ v"

text \<open>\<open>sessionKey\<close> and \<open>stableSessionKey\<close> share the search for a sticky header.\<close>

fun sticky_header :: "policy list \<Rightarrow> request_view \<Rightarrow> string" where
  "sticky_header [] rv = []"
| "sticky_header (p # ps) rv =
     (case po_sticky p of
        None \<Rightarrow> sticky_header ps rv
      | Some s \<Rightarrow>
          if \<not> policy_enabled p \<or> sk_header s = [] then sticky_header ps rv
          else let v = header_get rv (sk_header s)
               in if v \<noteq> [] then ''h:'' @ v else sticky_header ps rv)"

definition cookie_name :: "sticky \<Rightarrow> string" where
  "cookie_name s = (if sk_cookie s = [] then ''MAPLE_SRV'' else sk_cookie s)"

fun sticky_cookie_key :: "policy list \<Rightarrow> request_view \<Rightarrow> string" where
  "sticky_cookie_key [] rv = []"
| "sticky_cookie_key (p # ps) rv =
     (case po_sticky p of
        None \<Rightarrow> sticky_cookie_key ps rv
      | Some s \<Rightarrow>
          if \<not> policy_enabled p \<or> po_target p = None then sticky_cookie_key ps rv
          else let raw = header_get rv ''Cookie'';
                   v = (if raw = [] then [] else cookie_value raw (cookie_name s))
               in if v \<noteq> [] then ''c:'' @ v else sticky_cookie_key ps rv)"

definition ip_key :: "request_view \<Rightarrow> string" where
  "ip_key rv = (if rv_client_ip rv \<noteq> [] then ''ip:'' @ rv_client_ip rv else [])"

definition stable_session_key :: "route_entry \<Rightarrow> request_view \<Rightarrow> string" where
  "stable_session_key e rv =
     (if sticky_header (re_policies e) rv \<noteq> [] then sticky_header (re_policies e) rv
      else if sticky_cookie_key (re_policies e) rv \<noteq> [] then sticky_cookie_key (re_policies e) rv
      else ip_key rv)"

definition session_key :: "route_entry \<Rightarrow> request_view \<Rightarrow> string" where
  "session_key e rv =
     (let raw = header_get rv ''Cookie'';
          c = (if raw = [] then [] else cookie_value raw ''MAPLE_SRV'')
      in if sticky_header (re_policies e) rv \<noteq> [] then sticky_header (re_policies e) rv
         else if c \<noteq> [] then ''c:'' @ c else ip_key rv)"

section \<open>Choosing a version\<close>

fun index_of :: "('a \<Rightarrow> bool) \<Rightarrow> 'a list \<Rightarrow> nat option" where
  "index_of P [] = None"
| "index_of P (x # xs) = (if P x then Some 0 else map_option Suc (index_of P xs))"

text \<open>\<open>pickVersionIndex\<close>; None is -1.\<close>

definition pick_version_index :: "string \<Rightarrow> version_pool list \<Rightarrow> (version_pool \<Rightarrow> bool) \<Rightarrow> balancer \<Rightarrow>
    (balancer \<times> nat option) outcome" where
  "pick_version_index key versions allowed b =
     (let pool = filter (\<lambda>v. 0 < vp_weight v \<and> allowed v) versions in
      if pool = [] then Returns (b, None)
      else case pick_weighted b key (map vp_weight pool) of
             Panics \<Rightarrow> Panics
           | Returns (b1, vi) \<Rightarrow>
               if vi < 0 then Returns (b1, None)
               else if int (length pool) \<le> vi then Panics
               else Returns (b1, index_of (\<lambda>v. vp_id v = vp_id (pool ! nat vi)) versions))"

text \<open>\<open>matchPolicy\<close>: of the policies with a condition that match, the first of lowest priority.\<close>

definition has_condition :: "policy \<Rightarrow> bool" where
  "has_condition p \<longleftrightarrow> (let m = po_match p in
     mt_header m \<noteq> [] \<or> mt_cookie m \<noteq> [] \<or> mt_path m \<noteq> [] \<or> mt_path_exact m \<noteq> [])"

definition keep_better :: "policy option \<Rightarrow> policy \<Rightarrow> policy option" where
  "keep_better best p = (case best of None \<Rightarrow> Some p
     | Some q \<Rightarrow> if po_priority p < po_priority q then Some p else Some q)"

definition match_policy :: "route_entry \<Rightarrow> request_view \<Rightarrow> policy option" where
  "match_policy e rv = foldl (\<lambda>best p.
     if \<not> has_condition p \<or> \<not> policy_matches p rv then best else keep_better best p)
     None (re_policies e)"

text \<open>The percentage policy of \<open>pickPercentPolicy\<close>.\<close>

definition percent_policy :: "route_entry \<Rightarrow> policy option" where
  "percent_policy e = foldl (\<lambda>best p.
     if \<not> policy_enabled p \<or> po_target p = None \<or> has_condition p \<or> mt_percent (po_match p) \<le> 0
     then best else keep_better best p) None (re_policies e)"

section \<open>Choosing an instance\<close>

definition choose_member :: "route_entry \<Rightarrow> uuid \<Rightarrow> string \<Rightarrow> request_view \<Rightarrow> pool_member list \<Rightarrow>
    balancer \<Rightarrow> (balancer \<times> nat option) outcome" where
  "choose_member e v bal rv pool b =
     (if bal = balance_hash then
        (let key = session_key e rv; m = (if key \<noteq> [] then consistent_hash pool key else None) in
         case m of Some i \<Rightarrow> Returns (b, Some i) | None \<Rightarrow> select b (inst_key e v) pool)
      else if bal = balance_conn then Returns (b, select_least b pool)
      else select b (inst_key e v) pool)"

definition finish :: "(balancer \<times> nat option) outcome \<Rightarrow> (nat \<Rightarrow> target) \<Rightarrow> pick" where
  "finish r f = (case r of
     Panics \<Rightarrow> Some Panics
   | Returns (b, None) \<Rightarrow> Some (Returns (b, Inl ErrNoHealthy))
   | Returns (b, Some i) \<Rightarrow> Some (Returns (b, Inr (f i))))"

fun pick_balanced :: "nat \<Rightarrow> route_entry \<Rightarrow> uuid \<Rightarrow> string \<Rightarrow> request_view \<Rightarrow> balancer \<Rightarrow> pick"
  and pick_fallback :: "nat \<Rightarrow> route_entry \<Rightarrow> uuid \<Rightarrow> balancer \<Rightarrow> pick" where
  "pick_balanced 0 e v bal rv b = None"
| "pick_balanced (Suc n) e v bal rv b =
     (let pool = version_pool_of e v in
      if pool = [] then pick_fallback n e v b
      else finish (choose_member e v bal rv pool b) (\<lambda>i. target_from_member e (pool ! i) v))"
| "pick_fallback 0 e v b = None"
| "pick_fallback (Suc n) e v b =
     (case pick_version_index (re_domain e @ ''#versions-fb'') (re_versions e)
             (\<lambda>w. vp_id w \<noteq> v \<and> vp_pool w \<noteq> []) b of
        Panics \<Rightarrow> Some Panics
      | Returns (b1, None) \<Rightarrow> Some (Returns (b1, Inl ErrNoHealthy))
      | Returns (b1, Some i) \<Rightarrow>
          pick_balanced n e (vp_id (re_versions e ! i)) balance_rr empty_view b1)"

definition pick_from_version :: "nat \<Rightarrow> route_entry \<Rightarrow> uuid \<Rightarrow> balancer \<Rightarrow> pick" where
  "pick_from_version n e v b = pick_balanced n e v balance_rr empty_view b"

definition pick_weighted_version :: "nat \<Rightarrow> route_entry \<Rightarrow> balancer \<Rightarrow> pick" where
  "pick_weighted_version n e b =
     (case pick_version_index (re_domain e @ ''#versions'') (re_versions e) (\<lambda>_. True) b of
        Panics \<Rightarrow> Some Panics
      | Returns (b1, None) \<Rightarrow> Some (Returns (b1, Inl ErrNoHealthy))
      | Returns (b1, Some i) \<Rightarrow> pick_from_version n e (vp_id (re_versions e ! i)) b1)"

definition pick_from_version_with_sticky :: "nat \<Rightarrow> route_entry \<Rightarrow> sticky \<Rightarrow> uuid \<Rightarrow> string \<Rightarrow>
    balancer \<Rightarrow> pick" where
  "pick_from_version_with_sticky n e s v name b =
     (let pool = version_pool_of e v in
      if pool = [] then pick_fallback n e v b
      else finish (select b (inst_key e v) pool) (\<lambda>i.
        sticky_target e (pool ! i)
          (Some \<lparr>ck_name = name, ck_value = pm_id (pool ! i), ck_ttl = sk_ttl s\<rparr>) v))"

definition pick_sticky :: "nat \<Rightarrow> route_entry \<Rightarrow> policy \<Rightarrow> uuid \<Rightarrow> request_view \<Rightarrow> balancer \<Rightarrow> pick" where
  "pick_sticky n e p v rv b =
     (case po_sticky p of
        None \<Rightarrow> pick_from_version n e v b
      | Some s \<Rightarrow>
          let pool = version_pool_of e v in
          if pool = [] then pick_fallback n e v b
          else
            let h = (if sk_header s \<noteq> [] then header_get rv (sk_header s) else []) in
            if h \<noteq> [] then
              (case sticky_select pool (''h:'' @ h) of
                 None \<Rightarrow> Some Panics
               | Some i \<Rightarrow> Some (Returns (b, Inr (sticky_target e (pool ! i) None v))))
            else
              let name = cookie_name s;
                  raw = header_get rv ''Cookie'';
                  ident = (if raw \<noteq> [] then cookie_value raw name else [])
              in if ident \<noteq> [] then
                   (case find (\<lambda>m. pm_id m = ident) pool of
                      Some m \<Rightarrow> Some (Returns (b, Inr (sticky_target e m None v)))
                    | None \<Rightarrow> pick_from_version_with_sticky n e s v name b)
                 else pick_from_version_with_sticky n e s v name b)"

text \<open>\<open>pickPercentPolicy\<close>; None means that it did not decide.\<close>

definition pick_percent :: "nat \<Rightarrow> route_entry \<Rightarrow> request_view \<Rightarrow> balancer \<Rightarrow> pick option" where
  "pick_percent n e rv b =
     (case percent_policy e of
        None \<Rightarrow> None
      | Some p \<Rightarrow>
          let key = stable_session_key e rv in
          if key = [] then None
          else if hash_bucket key < mt_percent (po_match p)
          then Some (pick_balanced n e (the (po_target p)) (po_balance p) rv b)
          else None)"

definition select_versioned :: "nat \<Rightarrow> route_entry \<Rightarrow> request_view \<Rightarrow> balancer \<Rightarrow> pick" where
  "select_versioned n e rv b =
     (if re_versions e = [] then Some (Returns (b, Inl ErrNoHealthy))
      else case match_policy e rv of
        Some p \<Rightarrow>
          (case po_target p of
             None \<Rightarrow> pick_weighted_version n e b
           | Some v \<Rightarrow>
               if po_sticky p \<noteq> None then pick_sticky n e p v rv b
               else pick_balanced n e v (po_balance p) rv b)
      | None \<Rightarrow>
          (case pick_percent n e rv b of
             Some r \<Rightarrow> r
           | None \<Rightarrow> pick_weighted_version n e b))"

section \<open>Limits\<close>

definition limit_key :: "route_entry \<Rightarrow> rate_limit \<Rightarrow> request_view \<Rightarrow> string" where
  "limit_key e l rv = (case rl_scope l of
     RScopeDomain \<Rightarrow> ''domain:'' @ re_domain e
   | RScopeTenant \<Rightarrow> ''tenant:'' @ re_tenant e
   | RScopeService \<Rightarrow> ''service:'' @ re_service e
   | RScopeIP \<Rightarrow> ''ip:'' @ (if rv_client_ip rv = [] then ''unknown'' else rv_client_ip rv)
   | RScopeGlobal \<Rightarrow> ''global:'' @ re_domain e)"

definition limit_request :: "route_entry \<Rightarrow> rate_limit \<Rightarrow> request_view \<Rightarrow> go_time \<Rightarrow> rl_request" where
  "limit_request e l rv now =
     \<lparr>q_key = limit_key e l rv, q_limit = rl_limit l, q_window = rl_window l,
      q_burst = (if rl_burst l \<le> 0 then rl_limit l else rl_burst l), q_now = now\<rparr>"

text \<open>\<open>enforceLimits\<close> over a backend; True when every rule lets the request through.\<close>

fun enforce_limits :: "('s \<Rightarrow> rl_request \<Rightarrow> ('s \<times> allowance) outcome) \<Rightarrow> route_entry \<Rightarrow>
    request_view \<Rightarrow> go_time \<Rightarrow> rate_limit list \<Rightarrow> 's \<Rightarrow> ('s \<times> bool) outcome" where
  "enforce_limits allow e rv now [] s = Returns (s, True)"
| "enforce_limits allow e rv now (l # ls) s =
     (case allow s (limit_request e l rv now) of
        Panics \<Rightarrow> Panics
      | Returns (s1, a) \<Rightarrow>
          if \<not> al_allowed a then Returns (s1, False) else enforce_limits allow e rv now ls s1)"

section \<open>Resolving\<close>

record 's resolver =
  rz_cache :: route_cache
  rz_bal :: balancer
  rz_lim :: 's

text \<open>The part of \<open>resolveWith\<close> after the limits.\<close>

definition route_request :: "nat \<Rightarrow> route_entry \<Rightarrow> request_view \<Rightarrow> balancer \<Rightarrow> pick" where
  "route_request n e rv b =
     (if re_has_versions e then select_versioned n e rv b
      else finish (select b (re_domain e) (re_pool e)) (\<lambda>i. target_from_member e (re_pool e ! i) uuid_nil))"

definition resolve_with :: "nat \<Rightarrow> (string \<Rightarrow> string option) \<Rightarrow>
    ('s \<Rightarrow> rl_request \<Rightarrow> ('s \<times> allowance) outcome) \<Rightarrow> go_time \<Rightarrow> string \<Rightarrow> request_view \<Rightarrow>
    's resolver \<Rightarrow> ('s resolver \<times> (route_error + target)) outcome option" where
  "resolve_with n to_ascii allow now host rv z =
     (case cache_lookup to_ascii (rz_cache z) host of
        Panics \<Rightarrow> Some Panics
      | Returns (c, None) \<Rightarrow> Some (Returns (z\<lparr>rz_cache := c\<rparr>, Inl ErrNotFound))
      | Returns (c, Some e) \<Rightarrow>
          let z = z\<lparr>rz_cache := c\<rparr> in
          if \<not> re_tenant_ok e then Some (Returns (z, Inl ErrTenantSuspended))
          else case enforce_limits allow e rv now (re_limits e) (rz_lim z) of
            Panics \<Rightarrow> Some Panics
          | Returns (s, False) \<Rightarrow> Some (Returns (z\<lparr>rz_lim := s\<rparr>, Inl ErrRateLimited))
          | Returns (s, True) \<Rightarrow>
              (case route_request n e rv (rz_bal z) of
                 None \<Rightarrow> None
               | Some Panics \<Rightarrow> Some Panics
               | Some (Returns (b, r)) \<Rightarrow> Some (Returns (z\<lparr>rz_lim := s, rz_bal := b\<rparr>, r))))"

end
