(* ===== verification/Route_Safety.thy ===== *)
theory Route_Safety
  imports Route_Resolver
begin

text \<open>
  What the resolver guarantees: which instances a built table lets it reach, that it always
  answers, what a session cookie pins, and what becomes of limits that share a key.
\<close>

section \<open>The choices stay in range\<close>

lemma pick_weighted_ok:
  assumes inv: "bal_inv b" and ne: "ws \<noteq> []"
  shows "\<exists>b' i. pick_weighted b key ws = Returns (b', int i) \<and> i < length ws \<and> bal_inv b'"
proof -
  define s where "s = state_of b key"
  define s1 where "s1 = (if w_fingerprint s \<noteq> weights_fingerprint ws then reset_weights ws else s)"
  have s: "wrr_ok s" "count_list (w_fingerprint s) CHR '','' = length (w_weight s)"
    using state_of_ok [OF inv] by (auto simp: s_def)
  have fp: "w_fingerprint s1 = weights_fingerprint ws" and ok: "wrr_ok s1"
    and len: "length (w_weight s1) = length ws"
    using s weights_fingerprint_commas [of ws] wrr_ok_reset [of ws]
    by (auto simp: s1_def) (simp_all add: reset_weights_def)
  have "w_weight s1 \<noteq> []" using len ne by auto
  from wrr_next_spec [OF ok this] obtain cur i where
    nx: "wrr_next s1 = Returns (s1\<lparr>w_current := cur\<rparr>, i)" "i < length ws"
      "length cur = length (w_weight s1)"
    by (auto simp: len)
  have "pick_weighted b key ws =
      Returns (b\<lparr>b_by_key := (b_by_key b)(key \<mapsto> s1\<lparr>w_current := cur\<rparr>)\<rparr>, int i)"
    using ne nx by (simp add: pick_weighted_def Let_def flip: s_def s1_def)
  moreover have "wrr_ok (s1\<lparr>w_current := cur\<rparr>)" using ok nx(3) by (simp add: wrr_ok_def)
  then have "bal_inv (b\<lparr>b_by_key := (b_by_key b)(key \<mapsto> s1\<lparr>w_current := cur\<rparr>)\<rparr>)"
    using inv fp len weights_fingerprint_commas [of ws] by (simp add: bal_inv_def)
  ultimately show ?thesis using nx(2) by auto
qed

lemma index_of_Some:
  "x \<in> set xs \<Longrightarrow> P x \<Longrightarrow> \<exists>i. index_of P xs = Some i \<and> i < length xs \<and> P (xs ! i)"
  by (induction xs) auto

lemma pick_version_index_ok:
  assumes "bal_inv b"
  shows "\<exists>b' r. pick_version_index key vs allowed b = Returns (b', r) \<and> bal_inv b' \<and>
    (case r of
       None \<Rightarrow> \<forall>v \<in> set vs. \<not> (0 < vp_weight v \<and> allowed v)
     | Some i \<Rightarrow> i < length vs \<and> (\<exists>v \<in> set vs. vp_id v = vp_id (vs ! i) \<and> 0 < vp_weight v \<and> allowed v))"
proof (cases "filter (\<lambda>v. 0 < vp_weight v \<and> allowed v) vs = []")
  case True
  then show ?thesis using assms by (auto simp: pick_version_index_def filter_empty_conv)
next
  case False
  let ?p = "filter (\<lambda>v. 0 < vp_weight v \<and> allowed v) vs"
  obtain b' i where p: "pick_weighted b key (map vp_weight ?p) = Returns (b', int i)" "i < length ?p" "bal_inv b'"
    using pick_weighted_ok [OF assms, of "map vp_weight ?p" key] False by auto
  from p(2) have v: "?p ! i \<in> set vs" "0 < vp_weight (?p ! i)" "allowed (?p ! i)"
    using nth_mem [of i ?p] by auto
  obtain k where "index_of (\<lambda>v. vp_id v = vp_id (?p ! i)) vs = Some k" "k < length vs"
      "vp_id (vs ! k) = vp_id (?p ! i)"
    using index_of_Some [OF v(1), of "\<lambda>v. vp_id v = vp_id (?p ! i)"] by auto
  with False p v show ?thesis by (auto simp: pick_version_index_def Let_def)
qed

lemma consistent_hash_bound: "consistent_hash pool key = Some i \<Longrightarrow> i < length pool"
  by (auto simp: consistent_hash_def Let_def split: if_splits dest!: map_of_SomeD set_zip_rightD)

lemma choose_member_ok:
  assumes "bal_inv b" and "comma_free pool" and "pool \<noteq> []"
  shows "\<exists>b' i. choose_member e v bal rv pool b = Returns (b', Some i) \<and> i < length pool \<and> bal_inv b'"
proof -
  obtain b1 i1 where s: "select b (inst_key e v) pool = Returns (b1, Some i1)" "i1 < length pool" "bal_inv b1"
    using select_ok [OF assms] by blast
  obtain i2 where l: "select_least b pool = Some i2" "i2 < length pool"
    using least_connections_spec [OF assms(3), of "b_conn b"] by (auto simp: select_least_def)
  show ?thesis
    using s l assms(1) by (auto simp: choose_member_def Let_def dest: consistent_hash_bound split: option.split)
qed

section \<open>Entries of a built table\<close>

text \<open>What the resolver needs of an entry: no version pool is empty, and instance ids hold no comma
  (they are UUIDs).\<close>

definition entry_ok :: "route_entry \<Rightarrow> bool" where
  "entry_ok e \<longleftrightarrow> (\<forall>w \<in> set (re_versions e). vp_pool w \<noteq> [] \<and> comma_free (vp_pool w)) \<and> comma_free (re_pool e)"

text \<open>A target that names a member of a pool of the entry.\<close>

definition target_served :: "route_entry \<Rightarrow> target \<Rightarrow> bool" where
  "target_served e t \<longleftrightarrow> (\<exists>m. tg_instance t = pm_id m \<and> tg_host t = pm_endpoint m \<and>
     (if re_has_versions e
      then \<exists>w \<in> set (re_versions e). vp_id w = tg_version t \<and> m \<in> set (vp_pool w)
      else m \<in> set (re_pool e)))"

text \<open>An answer: the balancer stays sound, and either the target is served by the entry or there is
  no healthy instance and \<open>refusable\<close> holds.\<close>

definition pick_ok :: "route_entry \<Rightarrow> bool \<Rightarrow> pick \<Rightarrow> bool" where
  "pick_ok e refusable r \<longleftrightarrow> (\<exists>b x. r = Some (Returns (b, x)) \<and> bal_inv b \<and>
     (case x of Inl err \<Rightarrow> err = ErrNoHealthy \<and> refusable | Inr t \<Rightarrow> target_served e t))"

lemma version_pool_mem:
  assumes "w \<in> set (re_versions e)" and "entry_ok e"
  shows "\<exists>p \<in> set (re_versions e). vp_id p = vp_id w \<and> version_pool_of e (vp_id w) = vp_pool p \<and>
    vp_pool p \<noteq> [] \<and> comma_free (vp_pool p)"
proof -
  obtain p where f: "find (\<lambda>p. vp_id p = vp_id w) (re_versions e) = Some p"
    using assms(1) by (cases "find (\<lambda>p. vp_id p = vp_id w) (re_versions e)") (auto simp: find_None_iff)
  then have "version_pool_of e (vp_id w) = vp_pool p" by (simp add: version_pool_of_def)
  with find_Some_mem [OF f] assms(2) show ?thesis unfolding entry_ok_def by blast
qed

lemma version_pool_empty:
  "entry_ok e \<Longrightarrow> version_pool_of e v = [] \<Longrightarrow> v \<notin> vp_id ` set (re_versions e)"
  by (metis imageE version_pool_mem)

lemma version_pool_nonempty:
  assumes "entry_ok e" and "version_pool_of e v \<noteq> []"
  shows "\<exists>p \<in> set (re_versions e). vp_id p = v \<and> version_pool_of e v = vp_pool p \<and> comma_free (vp_pool p)"
  using assms by (auto simp: version_pool_of_def entry_ok_def split: option.splits dest!: find_Some_mem)

lemma served_member:
  assumes "entry_ok e" "re_has_versions e" "i < length (version_pool_of e v)"
  shows "target_served e (sticky_target e (version_pool_of e v ! i) c v)"
    and "target_served e (target_from_member e (version_pool_of e v ! i) v)"
proof -
  obtain p where "p \<in> set (re_versions e)" "vp_id p = v" "version_pool_of e v = vp_pool p"
    using version_pool_nonempty [OF assms(1), of v] assms(3) by force
  moreover from this assms have "version_pool_of e v ! i \<in> set (vp_pool p)" by auto
  ultimately show "target_served e (sticky_target e (version_pool_of e v ! i) c v)"
    and "target_served e (target_from_member e (version_pool_of e v ! i) v)"
    using assms(2) by (auto simp: target_served_def sticky_target_def target_from_member_def Let_def)
qed

lemma finish_ok:
  assumes "r = Returns (b', Some i)" "bal_inv b'" "target_served e (f i)"
  shows "pick_ok e c (finish r f)"
  using assms by (simp add: finish_def pick_ok_def)

section \<open>Every pick answers\<close>

text \<open>Some version takes weighted traffic.\<close>

definition weighted :: "route_entry \<Rightarrow> bool" where
  "weighted e \<longleftrightarrow> (\<exists>w \<in> set (re_versions e). 0 < vp_weight w)"

lemma balanced_direct:
  assumes ok: "entry_ok e" and vers: "re_has_versions e"
    and bi: "bal_inv b" and em: "version_pool_of e v \<noteq> []"
  shows "pick_ok e c (pick_balanced (Suc n) e v bal rv b)"
proof -
  obtain b' i where c: "choose_member e v bal rv (version_pool_of e v) b = Returns (b', Some i)"
      "i < length (version_pool_of e v)" "bal_inv b'"
    using choose_member_ok [OF bi _ em] version_pool_nonempty [OF ok em] by metis
  with em show ?thesis
    using finish_ok [OF c(1,3)] served_member(2) [OF ok vers c(2)] by (simp add: Let_def)
qed

lemma fallback_ok:
  assumes ok: "entry_ok e" and vers: "re_has_versions e"
    and bi: "bal_inv b" and em: "version_pool_of e v = []"
  shows "pick_ok e (\<not> weighted e) (pick_fallback (Suc (Suc n)) e v b)"
proof -
  let ?a = "\<lambda>w. vp_id w \<noteq> v \<and> vp_pool w \<noteq> []"
  obtain b1 r where p: "pick_version_index (re_domain e @ ''#versions-fb'') (re_versions e) ?a b = Returns (b1, r)"
      "bal_inv b1" "case r of None \<Rightarrow> \<forall>w \<in> set (re_versions e). \<not> (0 < vp_weight w \<and> ?a w)
        | Some i \<Rightarrow> i < length (re_versions e) \<and>
            (\<exists>w \<in> set (re_versions e). vp_id w = vp_id (re_versions e ! i) \<and> 0 < vp_weight w \<and> ?a w)"
    using pick_version_index_ok [OF bi] by blast
  show ?thesis
  proof (cases r)
    case None
    have "?a w" if "w \<in> set (re_versions e)" for w
      using that ok version_pool_empty [OF ok em] by (auto simp: entry_ok_def)
    with None p(3) have "\<not> weighted e" by (auto simp: weighted_def)
    with None p show ?thesis by (simp add: pick_ok_def)
  next
    case (Some i)
    then have "re_versions e ! i \<in> set (re_versions e)" using p(3) by auto
    then have "version_pool_of e (vp_id (re_versions e ! i)) \<noteq> []"
      using version_pool_mem [OF _ ok] by metis
    with Some p show ?thesis using balanced_direct [OF ok vers] by (simp del: pick_balanced.simps)
  qed
qed

lemma balanced_ok:
  assumes ok: "entry_ok e" and vers: "re_has_versions e"
    and bi: "bal_inv b"
  shows "pick_ok e (\<not> weighted e) (pick_balanced (Suc (Suc (Suc n))) e v bal rv b)"
proof (cases "version_pool_of e v = []")
  case True
  then show ?thesis using fallback_ok [OF ok vers bi True]
    by (subst pick_balanced.simps) (simp del: pick_fallback.simps)
next
  case False
  then show ?thesis using balanced_direct [OF ok vers bi] by blast
qed

lemma weighted_ok:
  assumes ok: "entry_ok e" and vers: "re_has_versions e"
    and bi: "bal_inv b"
  shows "pick_ok e (\<not> weighted e) (pick_weighted_version (Suc n) e b)"
proof -
  obtain b1 r where p: "pick_version_index (re_domain e @ ''#versions'') (re_versions e) (\<lambda>_. True) b = Returns (b1, r)"
      "bal_inv b1" "case r of None \<Rightarrow> \<forall>w \<in> set (re_versions e). \<not> (0 < vp_weight w \<and> True)
        | Some i \<Rightarrow> i < length (re_versions e) \<and>
            (\<exists>w \<in> set (re_versions e). vp_id w = vp_id (re_versions e ! i) \<and> 0 < vp_weight w \<and> True)"
    using pick_version_index_ok [OF bi] by blast
  show ?thesis
  proof (cases r)
    case None
    with p show ?thesis by (simp add: pick_weighted_version_def pick_ok_def weighted_def)
  next
    case (Some i)
    then have "re_versions e ! i \<in> set (re_versions e)" using p(3) by auto
    then have "version_pool_of e (vp_id (re_versions e ! i)) \<noteq> []"
      using version_pool_mem [OF _ ok] by metis
    with Some p show ?thesis
      using balanced_direct [OF ok vers] by (simp add: pick_weighted_version_def pick_from_version_def del: pick_balanced.simps)
  qed
qed

lemma with_sticky_ok:
  assumes ok: "entry_ok e" and vers: "re_has_versions e"
    and bi: "bal_inv b"
  shows "pick_ok e (\<not> weighted e) (pick_from_version_with_sticky (Suc (Suc n)) e s v name b)"
proof (cases "version_pool_of e v = []")
  case True
  then show ?thesis using fallback_ok [OF ok vers bi True]
    by (simp add: pick_from_version_with_sticky_def del: pick_fallback.simps)
next
  case False
  obtain b' i where c: "select b (inst_key e v) (version_pool_of e v) = Returns (b', Some i)"
      "i < length (version_pool_of e v)" "bal_inv b'"
    using select_ok [OF bi _ False] version_pool_nonempty [OF ok False] by metis
  then show ?thesis
    using False finish_ok [OF c(1,3)] served_member(1) [OF ok vers c(2)]
    by (simp add: pick_from_version_with_sticky_def Let_def)
qed

lemma sticky_select_bound:
  assumes "sticky_select pool key = Some i" and "length pool < 2 ^ 32"
  shows "i < length pool"
proof -
  have "0 < length pool" and i: "i = unat (fnv1a key mod word_of_nat (length pool))"
    using assms(1) by (auto simp: sticky_select_def split: if_splits)
  moreover have "unat (word_of_nat (length pool) :: 32 word) = length pool"
    using assms(2) by (simp add: unat_of_nat take_bit_nat_eq_self)
  ultimately show ?thesis by (simp add: unat_mod)
qed

lemma sticky_ok:
  assumes ok: "entry_ok e" and vers: "re_has_versions e"
    and bi: "bal_inv b" and short: "\<forall>w \<in> set (re_versions e). length (vp_pool w) < 2 ^ 32"
  shows "pick_ok e (\<not> weighted e) (pick_sticky (Suc (Suc (Suc n))) e p v rv b)"
proof (cases "po_sticky p")
  case None
  then show ?thesis using balanced_ok [OF ok vers bi]
    by (simp add: pick_sticky_def pick_from_version_def del: pick_balanced.simps)
next
  case (Some s)
  let ?pool = "version_pool_of e v"
  have ws: "pick_ok e (\<not> weighted e) (pick_from_version_with_sticky (Suc (Suc (Suc n))) e s v (cookie_name s) b)"
    by (rule with_sticky_ok [OF ok vers bi])
  show ?thesis
  proof (cases "?pool = []")
    case True
    then show ?thesis using Some fallback_ok [OF ok vers bi True]
      by (simp add: pick_sticky_def del: pick_fallback.simps)
  next
    case False
    then have len: "length ?pool < 2 ^ 32" using version_pool_nonempty [OF ok] short by metis
    have hdr: "pick_ok e c (Some (Returns (b, Inr (sticky_target e (?pool ! i) None v))))"
      if "sticky_select ?pool k = Some i" for k i c
      using served_member(1) [OF ok vers sticky_select_bound [OF that len]] bi by (simp add: pick_ok_def)
    have pin: "pick_ok e c (Some (Returns (b, Inr (sticky_target e m None v))))"
      if "find P ?pool = Some m" for P m c
      using that served_member(1) [OF ok vers] bi
      by (auto simp: pick_ok_def find_Some_iff)
    have some: "sticky_select ?pool k \<noteq> None" for k using False by (simp add: sticky_select_def)
    let ?h = "if sk_header s \<noteq> [] then header_get rv (sk_header s) else []"
    let ?raw = "header_get rv ''Cookie''"
    let ?id = "if ?raw \<noteq> [] then cookie_value ?raw (cookie_name s) else []"
    show ?thesis
    proof (cases "?h = []")
      case False
      obtain i where "sticky_select ?pool (''h:'' @ ?h) = Some i" using some by blast
      with False hdr [OF this] show ?thesis
        using Some \<open>?pool \<noteq> []\<close> unfolding pick_sticky_def Let_def by simp
    next
      case True
      then have "pick_sticky (Suc (Suc (Suc n))) e p v rv b =
          (if ?id \<noteq> [] then case find (\<lambda>m. pm_id m = ?id) ?pool of
              Some m \<Rightarrow> Some (Returns (b, Inr (sticky_target e m None v)))
            | None \<Rightarrow> pick_from_version_with_sticky (Suc (Suc (Suc n))) e s v (cookie_name s) b
           else pick_from_version_with_sticky (Suc (Suc (Suc n))) e s v (cookie_name s) b)"
        using Some False unfolding pick_sticky_def Let_def by simp
      then show ?thesis using ws pin by (auto split: option.split)
    qed
  qed
qed

lemma versioned_ok:
  assumes ok: "entry_ok e" and vers: "re_has_versions e"
    and bi: "bal_inv b" and short: "\<forall>w \<in> set (re_versions e). length (vp_pool w) < 2 ^ 32"
  shows "pick_ok e (\<not> weighted e) (select_versioned (Suc (Suc (Suc n))) e rv b)"
proof (cases "re_versions e = []")
  case True
  then show ?thesis using bi by (simp add: select_versioned_def pick_ok_def weighted_def)
next
  case False
  note rules = balanced_ok [OF ok vers bi] weighted_ok [OF ok vers bi] sticky_ok [OF ok vers bi short]
  from False rules show ?thesis
    by (auto simp: select_versioned_def pick_percent_def Let_def simp del: pick_balanced.simps split: option.split)
qed

section \<open>From the rows to the targets\<close>

lemma build_domains_entry:
  "build_domains to_ascii src ds t0 = Returns t \<Longrightarrow> t k = Some e \<Longrightarrow>
   t0 k = Some e \<or> (\<exists>d \<in> set ds. build_entry src d = Some e \<and> host_key to_ascii (dm_hostname d) = Returns k)"
proof (induction ds arbitrary: t0)
  case (Cons d ds)
  show ?case
  proof (cases "build_entry src d")
    case None
    with Cons show ?thesis by auto
  next
    case (Some f)
    with Cons.prems obtain k' where k': "host_key to_ascii (dm_hostname d) = Returns k'"
        "build_domains to_ascii src ds (t0(k' \<mapsto> f)) = Returns t"
      by (auto split: outcome.splits)
    from Cons.IH [OF k'(2) Cons.prems(2)] Some k'(1) show ?thesis by (auto split: if_splits)
  qed
qed simp

text \<open>Instance ids are UUIDs, which hold no comma, and a pool is an \<open>int\<close> long.\<close>

definition sane_instances :: "route_source \<Rightarrow> bool" where
  "sane_instances src \<longleftrightarrow> (\<forall>sid. length (rs_insts src sid) < 2 ^ 32 \<and>
     (\<forall>i \<in> set (rs_insts src sid). CHR '','' \<notin> set (in_id i)))"

lemma comma_free_members:
  "sane_instances src \<Longrightarrow> comma_free (map member_of (filter P (rs_insts src sid)))"
  by (auto simp: sane_instances_def comma_free_def member_of_def list_all_iff)

lemma version_pools_mem:
  assumes "w \<in> set (version_pools src sid)"
  shows "\<exists>g \<in> set (rs_groups src sid). version_routable (vg_status g) \<and> vp_id w = vg_version g \<and>
    vp_weight w = vg_weight g \<and> vp_pool w = version_members src sid (vg_version g) \<and> vp_pool w \<noteq> []"
  using assms by (auto simp: version_pools_def split: if_splits)

lemma built_entry_ok:
  assumes "sane_instances src" and "build_entry src d = Some e"
  shows "entry_ok e \<and> (\<forall>w \<in> set (re_versions e). length (vp_pool w) < 2 ^ 32)"
proof -
  have pool: "comma_free (vp_pool w) \<and> vp_pool w \<noteq> [] \<and> length (vp_pool w) < 2 ^ 32"
    if w: "w \<in> set (version_pools src sid)" for w sid
  proof -
    obtain g :: version_group where "vp_pool w = version_members src sid (vg_version g)" "vp_pool w \<noteq> []"
      using version_pools_mem [OF w] by metis
    moreover have "length (version_members src sid (vg_version g)) \<le> length (rs_insts src sid)"
      by (simp add: version_members_def)
    moreover have "comma_free (version_members src sid (vg_version g))"
      using comma_free_members [OF assms(1)] by (simp add: version_members_def)
    moreover have "length (rs_insts src sid) < 2 ^ 32" using assms(1) by (simp add: sane_instances_def)
    ultimately show ?thesis by (metis order.strict_trans1)
  qed
  from assms(2) obtain sid where "dm_service d = Some sid"
    by (auto simp: build_entry_def split: option.splits)
  with assms(2) have "re_versions e = [] \<or> re_versions e = version_pools src sid"
    and "re_pool e = [] \<or> re_pool e = map member_of (filter (routable src) (rs_insts src sid))"
    by (auto simp: build_entry_def Let_def split: if_splits)
  with pool comma_free_members [OF assms(1)] show ?thesis
    by (auto simp: entry_ok_def comma_free_def)
qed

text \<open>The instance behind a served target.\<close>

definition backs :: "route_source \<Rightarrow> uuid \<Rightarrow> target \<Rightarrow> instance_row \<Rightarrow> bool" where
  "backs src sid t i \<longleftrightarrow> i \<in> set (rs_insts src sid) \<and> tg_instance t = in_id i \<and> tg_host t = endpoint i \<and>
     in_status i = ''enabled'' \<and> in_health i = ''healthy'' \<and> node_ok src (in_node i) \<and>
     (rs_groups src sid \<noteq> [] \<longrightarrow> in_version i = Some (tg_version t) \<and>
        (\<exists>g \<in> set (rs_groups src sid). vg_version g = tg_version t \<and> version_routable (vg_status g)))"

lemma served_target_backed:
  assumes b: "build_entry src d = Some e" and t: "target_served e t"
  shows "\<exists>sid i. dm_service d = Some sid \<and> backs src sid t i"
proof -
  from b obtain sid where sid: "dm_service d = Some sid"
    by (auto simp: build_entry_def split: option.splits)
  obtain m where m: "tg_instance t = pm_id m" "tg_host t = pm_endpoint m"
    and mem: "if re_has_versions e then \<exists>w \<in> set (re_versions e). vp_id w = tg_version t \<and> m \<in> set (vp_pool w)
      else m \<in> set (re_pool e)"
    using t by (auto simp: target_served_def)
  show ?thesis
  proof (cases "rs_groups src sid = []")
    case True
    with b sid have "re_has_versions e = False"
      "re_pool e = map member_of (filter (routable src) (rs_insts src sid))"
      by (auto simp: build_entry_def Let_def split: if_splits)
    with mem obtain i where "i \<in> set (rs_insts src sid)" "routable src i" "m = member_of i" by auto
    with m True sid show ?thesis
      by (auto simp: backs_def routable_def is_routable_def member_of_def)
  next
    case False
    with b sid have "re_has_versions e" "re_versions e = version_pools src sid"
      by (auto simp: build_entry_def Let_def split: if_splits)
    with mem obtain w where w: "w \<in> set (version_pools src sid)" "vp_id w = tg_version t" "m \<in> set (vp_pool w)"
      by auto
    from version_pools_mem [OF w(1)] obtain g where g: "g \<in> set (rs_groups src sid)"
        "version_routable (vg_status g)" "vg_version g = tg_version t"
        "vp_pool w = version_members src sid (vg_version g)"
      using w(2) by auto
    with w(3) obtain i where "i \<in> set (rs_insts src sid)" "routable src i"
        "in_version i = Some (tg_version t)" "m = member_of i"
      by (auto simp: version_members_def)
    with m g sid show ?thesis
      by (auto simp: backs_def routable_def is_routable_def member_of_def)
  qed
qed

lemma route_request_ok:
  assumes "entry_ok e" and "\<forall>w \<in> set (re_versions e). length (vp_pool w) < 2 ^ 32" and "bal_inv b" and "3 \<le> n"
  shows "pick_ok e (if re_has_versions e then \<not> weighted e else re_pool e = []) (route_request n e rv b)"
proof (cases "re_has_versions e")
  case True
  obtain k where "n = Suc (Suc (Suc k))"
    using assms(4) by (metis Suc_le_D numeral_3_eq_3 Suc_le_mono)
  with True versioned_ok [OF assms(1) True assms(3,2)] show ?thesis by (simp add: route_request_def)
next
  case False
  show ?thesis
  proof (cases "re_pool e = []")
    case True
    with False assms(3) show ?thesis
      by (simp add: route_request_def select_def finish_def pick_ok_def)
  next
    case nonempty: False
    have "comma_free (re_pool e)" using assms(1) by (simp add: entry_ok_def)
    from select_ok [OF assms(3) this nonempty] obtain b' i where
      s: "select b (re_domain e) (re_pool e) = Returns (b', Some i)" "i < length (re_pool e)" "bal_inv b'"
      by blast
    then have "target_served e (target_from_member e (re_pool e ! i) uuid_nil)"
      using False by (auto simp: target_served_def target_from_member_def Let_def)
    with False s show ?thesis unfolding route_request_def by (simp add: finish_ok)
  qed
qed

text \<open>The entry a host finds.\<close>

definition finds :: "(string \<Rightarrow> string option) \<Rightarrow> 's resolver \<Rightarrow> string \<Rightarrow> route_entry \<Rightarrow> bool" where
  "finds to_ascii z host e \<longleftrightarrow> table_lookup to_ascii (ca_table (rz_cache z)) host = Returns (Some e)"

lemma built_finds:
  assumes "build_table to_ascii src = Returns (ca_table (rz_cache z))" and "finds to_ascii z host e"
  shows "\<exists>d \<in> set (rs_domains src). build_entry src d = Some e \<and>
    host_key to_ascii host = host_key to_ascii (dm_hostname d)"
proof -
  obtain t k where "ca_table (rz_cache z) = Some t" "host_key to_ascii host = Returns k" "t k = Some e"
    using assms(2) by (auto simp: finds_def table_lookup_def split: option.splits outcome.splits)
  moreover from this assms(1) have "build_domains to_ascii src (rs_domains src) Map.empty = Returns t"
    by (auto simp: build_table_def split: outcome.splits if_splits)
  ultimately show ?thesis using build_domains_entry by fastforce
qed

lemma resolve_found:
  assumes "finds to_ascii z host e"
  shows "resolve_with n to_ascii allow now host rv z =
    (let z = z\<lparr>rz_cache := (rz_cache z)\<lparr>ca_hits := ca_hits (rz_cache z) + 1\<rparr>\<rparr> in
     if \<not> re_tenant_ok e then Some (Returns (z, Inl ErrTenantSuspended))
     else case enforce_limits allow e rv now (re_limits e) (rz_lim z) of
       Panics \<Rightarrow> Some Panics
     | Returns (s, False) \<Rightarrow> Some (Returns (z\<lparr>rz_lim := s\<rparr>, Inl ErrRateLimited))
     | Returns (s, True) \<Rightarrow>
         (case route_request n e rv (rz_bal z) of
            None \<Rightarrow> None
          | Some Panics \<Rightarrow> Some Panics
          | Some (Returns (b, r)) \<Rightarrow> Some (Returns (z\<lparr>rz_lim := s, rz_bal := b\<rparr>, r))))"
  using assms by (simp add: resolve_with_def cache_lookup_def finds_def)

lemma resolve_missing:
  "table_lookup to_ascii (ca_table (rz_cache z)) host = Returns None \<Longrightarrow>
   resolve_with n to_ascii allow now host rv z =
     Some (Returns (z\<lparr>rz_cache := (rz_cache z)\<lparr>ca_misses := ca_misses (rz_cache z) + 1\<rparr>\<rparr>, Inl ErrNotFound))"
  "table_lookup to_ascii (ca_table (rz_cache z)) host = Panics \<Longrightarrow>
   resolve_with n to_ascii allow now host rv z = Some Panics"
  by (simp_all add: resolve_with_def cache_lookup_def)

lemma resolve_target:
  assumes "resolve_with n to_ascii allow now host rv z = Some (Returns (z', Inr t))"
  obtains e b where "finds to_ascii z host e" "re_tenant_ok e"
    "route_request n e rv (rz_bal z) = Some (Returns (b, Inr t))"
proof (cases "table_lookup to_ascii (ca_table (rz_cache z)) host")
  case Panics
  with assms show ?thesis by (simp add: resolve_missing)
next
  case (Returns x)
  show ?thesis
  proof (cases x)
    case None
    with Returns assms show ?thesis by (simp add: resolve_missing)
  next
    case (Some e)
    with Returns have e: "finds to_ascii z host e" by (simp add: finds_def)
    with assms have "re_tenant_ok e" "\<exists>b. route_request n e rv (rz_bal z) = Some (Returns (b, Inr t))"
      by (auto simp: resolve_found Let_def split: if_splits outcome.splits prod.splits bool.splits option.splits)
    with e that show ?thesis by blast
  qed
qed

text \<open>Property C30. The gateway forwards a request only to an instance that may serve it: when the
  current table was built from the rows \<open>src\<close> and a request for \<open>host\<close> resolves to a target, then
  the host is that of an active domain whose service belongs to an active tenant, and the target
  is one of the service's instances, enabled, healthy and not on a node known to be offline; if the
  service has versions, the instance belongs to the target's version and that version is in a
  state that takes traffic (never draining or inactive).
\<close>

theorem requests_reach_only_routable_instances:
  assumes "sane_instances src" and "build_table to_ascii src = Returns (ca_table (rz_cache z))"
    and "bal_inv (rz_bal z)" and "3 \<le> n"
    and "resolve_with n to_ascii allow now host rv z = Some (Returns (z', Inr t))"
  shows "\<exists>d \<in> set (rs_domains src). \<exists>sid i. host_key to_ascii host = host_key to_ascii (dm_hostname d) \<and>
    dm_status d = ''active'' \<and> dm_service d = Some sid \<and> tenant_active src (service_tenant src sid) \<and>
    backs src sid t i"
proof -
  obtain e b where e: "finds to_ascii z host e" "re_tenant_ok e"
      "route_request n e rv (rz_bal z) = Some (Returns (b, Inr t))"
    using resolve_target [OF assms(5)] by blast
  obtain d where d: "d \<in> set (rs_domains src)" "build_entry src d = Some e"
      "host_key to_ascii host = host_key to_ascii (dm_hostname d)"
    using built_finds [OF assms(2) e(1)] by blast
  have "target_served e t"
    using route_request_ok [of e "rz_bal z" n rv] built_entry_ok [OF assms(1) d(2)] assms(3,4) e(3)
    by (auto simp: pick_ok_def)
  from served_target_backed [OF d(2) this] obtain sid i where
    "dm_service d = Some sid" "backs src sid t i" by blast
  moreover from this d(2) e(2) have "dm_status d = ''active''" "tenant_active src (service_tenant src sid)"
    by (auto simp: build_entry_def Let_def split: if_splits)
  ultimately show ?thesis using d by blast
qed

lemma mem_enforce_returns: "enforce_limits mem_backend e rv now ls s \<noteq> Panics"
  by (induction ls arbitrary: s) (simp_all add: mem_backend_def split: prod.split)

text \<open>Property C31. Every request is answered: with the in-memory limiter, a table built from rows and a
  host whose normalisation does not panic, resolving returns after at most three steps of the
  fallback, leaves the balancer sound, and answers that there is no healthy instance only when the
  entry of the host has no version that takes weighted traffic (for a service with versions) or an
  empty pool (for one without).
\<close>

theorem every_request_is_answered:
  assumes "sane_instances src" and "build_table to_ascii src = Returns (ca_table (rz_cache z))"
    and "bal_inv (rz_bal z)" and "3 \<le> n" and "host_key to_ascii host \<noteq> Panics"
  shows "\<exists>z' x. resolve_with n to_ascii mem_backend now host rv z = Some (Returns (z', x)) \<and>
    bal_inv (rz_bal z') \<and>
    (x = Inl ErrNoHealthy \<longrightarrow> (\<exists>e. finds to_ascii z host e \<and>
       (if re_has_versions e then \<not> weighted e else re_pool e = [])))"
proof (cases "\<exists>e. finds to_ascii z host e")
  case False
  then have "table_lookup to_ascii (ca_table (rz_cache z)) host = Returns None"
    using assms(5) by (auto simp: finds_def table_lookup_def split: option.splits outcome.splits)
  with assms(3) show ?thesis by (simp add: resolve_missing)
next
  case True
  then obtain e where e: "finds to_ascii z host e" by blast
  obtain d where "build_entry src d = Some e" using built_finds [OF assms(2) e] by blast
  note r = route_request_ok [of e "rz_bal z" n rv]
  from built_entry_ok [OF assms(1) \<open>build_entry src d = Some e\<close>] r assms(3,4)
  obtain b x where r: "route_request n e rv (rz_bal z) = Some (Returns (b, x))" "bal_inv b"
      "x = Inl ErrNoHealthy \<longrightarrow> (if re_has_versions e then \<not> weighted e else re_pool e = [])"
    by (fastforce simp: pick_ok_def)
  show ?thesis
  proof (cases "enforce_limits mem_backend e rv now (re_limits e) (rz_lim z)")
    case Panics
    then show ?thesis by (simp add: mem_enforce_returns)
  next
    case (Returns sb)
    with e r assms(3) show ?thesis
      by (cases sb; cases "snd sb") (auto simp: resolve_found Let_def split: if_splits)
  qed
qed

text \<open>A small configuration: one service with two versions, one of them draining.\<close>

definition sample_instance :: "string \<Rightarrow> uuid \<Rightarrow> string \<Rightarrow> instance_row" where
  "sample_instance i v h = \<lparr>in_id = i, in_service = ''s1'', in_version = Some v, in_node = Some ''n1'',
     in_address = ''10.0.0.'' @ i, in_port = 0, in_protocol = [], in_weight = 1,
     in_status = ''enabled'', in_health = h\<rparr>"

definition sample_policy :: policy where
  "sample_policy = \<lparr>po_id = ''p1'', po_service = ''s1'', po_name = ''beta'', po_priority = 10,
     po_match = \<lparr>mt_header = [(''x-beta'', ''1'')], mt_cookie = [], mt_path = [], mt_path_exact = [],
                 mt_percent = 0\<rparr>,
     po_target = Some ''v1'', po_weight = 0, po_balance = balance_rr,
     po_sticky = Some \<lparr>sk_header = [], sk_cookie = [], sk_ttl = 60\<rparr>, po_status = ''enabled''\<rparr>"

definition sample_source :: route_source where
  "sample_source = \<lparr>rs_tenants = [\<lparr>tn_id = ''t1'', tn_status = ''active''\<rparr>],
     rs_services = [\<lparr>sv_id = ''s1'', sv_tenant = ''t1'', sv_name = ''shop'', sv_protocol = ''http''\<rparr>],
     rs_domains = [\<lparr>dm_id = ''d1'', dm_hostname = ''shop.example'', dm_service = Some ''s1'', dm_status = ''active''\<rparr>],
     rs_insts = (\<lambda>s. if s = ''s1'' then [sample_instance ''1'' ''v1'' ''healthy'',
        sample_instance ''2'' ''v1'' ''healthy'', sample_instance ''3'' ''v1'' ''unhealthy'',
        sample_instance ''4'' ''v2'' ''healthy''] else []),
     rs_groups = (\<lambda>s. if s = ''s1'' then
        [\<lparr>vg_deployment = ''p'', vg_version = ''v1'', vg_name = ''1.0'', vg_weight = 100, vg_status = ''stable''\<rparr>,
         \<lparr>vg_deployment = ''p'', vg_version = ''v2'', vg_name = ''2.0'', vg_weight = 50, vg_status = ''draining''\<rparr>]
        else []),
     rs_policies = (\<lambda>s. if s = ''s1'' then [sample_policy] else []),
     rs_nodes = [(''n1'', True)], rs_limits = []\<rparr>"

definition sample_entry :: route_entry where
  "sample_entry = \<lparr>re_domain = ''d1'', re_hostname = ''shop.example'', re_tenant = ''t1'', re_service = ''s1'',
     re_service_name = ''shop'', re_protocol = ''http'', re_tenant_ok = True, re_pool = [],
     re_has_versions = True,
     re_versions = [\<lparr>vp_id = ''v1'', vp_name = ''1.0'', vp_weight = 100,
        vp_pool = map member_of [sample_instance ''1'' ''v1'' ''healthy'', sample_instance ''2'' ''v1'' ''healthy'']\<rparr>],
     re_policies = [sample_policy], re_limits = []\<rparr>"

definition sample_resolver :: "limiter resolver" where
  "sample_resolver = \<lparr>rz_cache = new_cache\<lparr>ca_table := Some [''shop.example'' \<mapsto> sample_entry]\<rparr>,
     rz_bal = new_balancer, rz_lim = new_limiter 0\<rparr>"

lemma sample_sane: "sane_instances sample_source"
  by (simp add: sane_instances_def sample_source_def sample_instance_def)

definition sample_target :: target where
  "sample_target = \<lparr>tg_scheme = ''http'', tg_host = ''10.0.0.1'', tg_instance = ''1'',
     tg_version = ''v1'', tg_sticky = None, tg_route = ''shop''\<rparr>"

definition answer_target :: "('s \<times> (route_error + target)) outcome option \<Rightarrow> target option" where
  "answer_target r = (case r of Some (Returns (z, Inr t)) \<Rightarrow> Some t | _ \<Rightarrow> None)"

lemma answer_target_Some: "answer_target r = Some t \<Longrightarrow> \<exists>z. r = Some (Returns (z, Inr t))"
  by (auto simp: answer_target_def split: option.splits outcome.splits sum.splits)

lemma sample_build: "build_entry sample_source (hd (rs_domains sample_source)) = Some sample_entry"
  by (simp add: build_entry_def sample_source_def sample_entry_def service_proto_def last_row_def
      service_tenant_def service_name_def tenant_active_def version_pools_def routable_def
      is_routable_def sample_instance_def node_ok_def version_routable_def version_members_def
      entry_policies_def entry_limits_def global_limits_def)

lemma sample_host: "host_key Some ''shop.example'' = Returns ''shop.example''"
  "host_key Some ''Shop.Example:443'' = Returns ''shop.example''"
proof -
  have "normalize_host Some ''shop.example'' = Returns (Inr ''shop.example'')"
    "normalize_host Some ''Shop.Example:443'' = Returns (Inr ''shop.example'')"
    by code_simp+
  then show "host_key Some ''shop.example'' = Returns ''shop.example''"
    "host_key Some ''Shop.Example:443'' = Returns ''shop.example''"
    by (simp_all only: host_key_def outcome.case sum.case)
qed

lemma sample_built: "build_table Some sample_source = Returns (ca_table (rz_cache sample_resolver))"
proof -
  define d where "d = hd (rs_domains sample_source)"
  have d: "rs_domains sample_source = [d]" "dm_hostname d = ''shop.example''"
    by (simp_all add: d_def sample_source_def)
  have "build_domains Some sample_source [d] Map.empty = Returns [''shop.example'' \<mapsto> sample_entry]"
    using sample_build [folded d_def] sample_host(1) by (simp add: d)
  moreover have "ca_table (rz_cache sample_resolver) = Some [''shop.example'' \<mapsto> sample_entry]"
    by (simp add: sample_resolver_def)
  ultimately show ?thesis using sample_build [folded d_def] by (simp add: build_table_def d)
qed

lemma sample_route: "match_policy sample_entry empty_view = None" "pick_percent 3 sample_entry empty_view b = None"
  by (simp_all add: match_policy_def sample_entry_def sample_policy_def has_condition_def
      policy_matches_def header_get_def empty_view_def pick_percent_def percent_policy_def)

lemma sample_answer:
  "\<exists>z. resolve_with 3 Some mem_backend 0 ''Shop.Example:443'' empty_view sample_resolver =
    Some (Returns (z, Inr sample_target))"
proof -
  have "answer_target (route_request 3 sample_entry empty_view new_balancer) = Some sample_target"
    by (simp add: route_request_def select_versioned_def sample_route, simp add: sample_entry_def
        pick_weighted_version_def pick_version_index_def pick_weighted_def state_of_def
        new_balancer_def wrr_zero_def weights_fingerprint_def wrr_next_def reset_weights_def
        next_step_def pick_from_version_def numeral_3_eq_3 version_pool_of_def choose_member_def
        balance_rr_def balance_hash_def balance_conn_def inst_key_def select_def
        pool_fingerprint_def reset_pool_def member_weights_def member_of_def sample_instance_def
        pos_weight_def finish_def answer_target_def target_from_member_def sample_target_def
        endpoint_def addr_join_def)
  then obtain b where "route_request 3 sample_entry empty_view (rz_bal sample_resolver) =
      Some (Returns (b, Inr sample_target))"
    using answer_target_Some by (fastforce simp: sample_resolver_def)
  moreover have "finds Some sample_resolver ''Shop.Example:443'' sample_entry"
    using sample_host(2) by (simp add: finds_def table_lookup_def sample_resolver_def)
  moreover have "re_tenant_ok sample_entry" "re_limits sample_entry = []"
    by (simp_all add: sample_entry_def)
  ultimately show ?thesis by (simp add: resolve_found Let_def)
qed

lemma requests_reach_only_routable_instances_witness:
  "\<exists>sid i. backs sample_source sid sample_target i"
proof -
  obtain z where "resolve_with 3 Some mem_backend 0 ''Shop.Example:443'' empty_view sample_resolver
      = Some (Returns (z, Inr sample_target))"
    using sample_answer by blast
  moreover have "bal_inv (rz_bal sample_resolver)" by (simp add: sample_resolver_def bal_inv_new)
  ultimately show ?thesis
    using requests_reach_only_routable_instances [OF sample_sane sample_built _ order_refl] by blast
qed

lemma every_request_is_answered_witness:
  "\<exists>z' x. resolve_with 3 Some mem_backend 0 ''shop.example'' empty_view sample_resolver = Some (Returns (z', x))"
proof -
  have "bal_inv (rz_bal sample_resolver)" by (simp add: sample_resolver_def bal_inv_new)
  then show ?thesis
    using every_request_is_answered [OF sample_sane sample_built _ order_refl, of "''shop.example''" 0 empty_view]
      sample_host(1) by auto
qed

end
