(* ===== verification/Route_Behaviour.thy ===== *)
theory Route_Behaviour
  imports Route_Safety
begin

text \<open>
  Three behaviours that cross the components of the data plane: a session cookie brings its client
  back to the same instance, limits that share a counter cancel each other, and a policy that
  cannot be read back stops every later rebuild of the route table.
\<close>

section \<open>Session cookies\<close>

text \<open>A \<open>Cookie\<close> header that carries a pair, among others if there are others, and before it none of the same name.\<close>

definition carries_cookie :: "string \<Rightarrow> string \<Rightarrow> string \<Rightarrow> bool" where
  "carries_cookie raw name v \<longleftrightarrow> (\<exists>before part after. split_byte CHR '';'' raw = before @ part # after
     \<and> trim_space part = name @ ''='' @ v \<and> (\<forall>q \<in> set before. \<forall>w. cut_byte CHR ''='' (trim_space q) \<noteq> Some (name, w)))"

lemma cookie_value_own:
  assumes "CHR ''='' \<notin> set name" and "carries_cookie raw name v"
  shows "cookie_value raw name = v"
proof -
  obtain before part after where raw: "split_byte CHR '';'' raw = before @ part # after" "trim_space part = name @ ''='' @ v"
    "\<forall>q \<in> set before. \<forall>w. cut_byte CHR ''='' (trim_space q) \<noteq> Some (name, w)"
    using assms(2) by (auto simp: carries_cookie_def)
  have "index_byte CHR ''='' (name @ ''='' @ v) = Some (length name)"
    using index_byte_append [of "CHR ''=''" name v] assms(1) by simp
  then have "cut_byte CHR ''='' (trim_space part) = Some (name, v)" by (simp add: raw(2) cut_byte_def)
  then have "cookie_scan name (before @ part # after) = v"
    using raw(3) by (induction before) (auto split: option.splits)
  then show ?thesis by (simp add: cookie_value_def raw(1))
qed

text \<open>A request that a sticky policy for version \<open>v\<close> takes.\<close>

definition sticky_request :: "route_entry \<Rightarrow> request_view \<Rightarrow> policy \<Rightarrow> sticky \<Rightarrow> uuid \<Rightarrow> bool" where
  "sticky_request e rv p s v \<longleftrightarrow> re_has_versions e \<and> re_versions e \<noteq> [] \<and> match_policy e rv = Some p \<and>
     po_target p = Some v \<and> po_sticky p = Some s"

text \<open>It sends nothing in the header the policy names; a value there would decide before any cookie.\<close>

definition no_sticky_header :: "request_view \<Rightarrow> sticky \<Rightarrow> bool" where
  "no_sticky_header rv s \<longleftrightarrow> sk_header s = [] \<or> header_get rv (sk_header s) = []"

lemma sticky_request_route:
  "sticky_request e rv p s v \<Longrightarrow> route_request n e rv b = pick_sticky n e p v rv b"
  by (simp add: sticky_request_def route_request_def select_versioned_def)

lemma pick_balanced_no_cookie:
  "pick_balanced n e v bal rv b = Some (Returns (b1, Inr t)) \<Longrightarrow> tg_sticky t = None"
  "pick_fallback n e v b = Some (Returns (b1, Inr t)) \<Longrightarrow> tg_sticky t = None"
proof (induction n e v bal rv b and n e v b arbitrary: b1 t and b1 t rule: pick_balanced_pick_fallback.induct)
  case (2 n e v bal rv b)
  then show ?case
    by (auto simp: Let_def finish_def target_from_member_def split: if_splits outcome.splits option.splits prod.splits)
next
  case (4 n e v b)
  then show ?case by (auto split: outcome.splits option.splits prod.splits)
qed simp_all

lemma sticky_answer_cookie:
  assumes "sticky_request e rv p s v" and "pick_sticky n e p v rv b = Some (Returns (b1, Inr t))"
    and "tg_sticky t = Some c"
  shows "ck_name c = cookie_name s \<and> ck_value c = tg_instance t \<and> ck_ttl c = sk_ttl s \<and> tg_version t = v"
proof -
  have "tg_sticky t \<noteq> None" using assms(3) by simp
  with assms(1,2) have "pick_from_version_with_sticky n e s v (cookie_name s) b = Some (Returns (b1, Inr t))"
    and "version_pool_of e v \<noteq> []"
    by (auto simp: pick_sticky_def sticky_request_def Let_def sticky_target_def
        dest: pick_balanced_no_cookie(2) split: if_splits option.splits)
  with assms(3) show ?thesis
    by (auto simp: pick_from_version_with_sticky_def Let_def finish_def sticky_target_def
        target_from_member_def split: outcome.splits option.splits prod.splits)
qed

text \<open>Property C35. The session cookie is a round trip: when the answer to a request under a sticky
policy sets a cookie, a later request under a sticky policy for the same version and cookie name, with nothing in the header that policy may
name, whose \<open>Cookie\<close> header carries that pair, alone or among others but as the first of its name, reaches the same instance, whatever the balancer's
state has become and even on a rebuilt table, as long as the instance is still in the version's pool; the balancer is not
consulted and no new cookie is set. (The name of the cookie has no \<open>=\<close> in it.)\<close>

theorem session_cookie_returns_to_its_instance:
  assumes "sticky_request e rv p s v" and "route_request n e rv b = Some (Returns (b1, Inr t))"
    and "tg_sticky t = Some c"
    and "sticky_request e' rv' p' s' v" and "sk_cookie s' = sk_cookie s" and "no_sticky_header rv' s'"
    and "carries_cookie (header_get rv' ''Cookie'') (ck_name c) (ck_value c)"
    and "CHR ''='' \<notin> set (ck_name c)" and "tg_instance t \<noteq> []"
    and "tg_instance t \<in> pm_id ` set (version_pool_of e' v)"
  shows "\<exists>t'. route_request n' e' rv' b' = Some (Returns (b', Inr t')) \<and>
    tg_instance t' = tg_instance t \<and> tg_version t' = v \<and> tg_sticky t' = None"
proof -
  have c: "ck_name c = cookie_name s" "ck_value c = tg_instance t"
    using sticky_answer_cookie [OF assms(1) _ assms(3)] assms(2) sticky_request_route [OF assms(1)] by auto
  then have name: "cookie_name s' = ck_name c" using assms(5) by (simp add: cookie_name_def)
  have v: "cookie_value (header_get rv' ''Cookie'') (ck_name c) = tg_instance t"
    using cookie_value_own [OF assms(8,7)] c by simp
  have raw: "header_get rv' ''Cookie'' \<noteq> []"
  proof
    assume "header_get rv' ''Cookie'' = []"
    then have "trim_space [] = ck_name c @ ''='' @ ck_value c"
      using assms(7) by (auto simp: carries_cookie_def Cons_eq_append_conv)
    then show False by (simp add: trim_space_def)
  qed
  obtain m where m: "find (\<lambda>m. pm_id m = tg_instance t) (version_pool_of e' v) = Some m"
    using assms(10) by (cases "find (\<lambda>m. pm_id m = tg_instance t) (version_pool_of e' v)")
      (auto simp: find_None_iff)
  have "version_pool_of e' v \<noteq> []" using assms(10) by auto
  then have "pick_sticky n' e' p' v rv' b' = Some (Returns (b', Inr (sticky_target e' m None v)))"
    using assms(4,6,9) name v raw m by (auto simp: pick_sticky_def sticky_request_def no_sticky_header_def Let_def)
  moreover have "pm_id m = tg_instance t" using find_Some_mem [OF m] by simp
  ultimately show ?thesis
    using sticky_request_route [OF assms(4)]
    by (simp add: sticky_target_def target_from_member_def Let_def)
qed

text \<open>The beta client of the sample configuration, before and after its first answer.\<close>

definition beta_view :: "string option \<Rightarrow> request_view" where
  "beta_view cookie = \<lparr>rv_header = (case cookie of None \<Rightarrow> [''X-Beta'' \<mapsto> ''1'']
       | Some c \<Rightarrow> [''X-Beta'' \<mapsto> ''1'', ''Cookie'' \<mapsto> c]), rv_path = ''/'', rv_client_ip = ''192.0.2.1''\<rparr>"

definition sample_sticky :: sticky where
  "sample_sticky = \<lparr>sk_header = [], sk_cookie = [], sk_ttl = 60\<rparr>"

lemma beta_keys: "canonical_key ''x-beta'' = ''X-Beta''" "canonical_key ''Cookie'' = ''Cookie''"
  by code_simp+

lemma beta_sticky: "sticky_request sample_entry (beta_view c) sample_policy sample_sticky ''v1''"
proof -
  have "header_get (beta_view c) ''x-beta'' = ''1''"
    by (simp add: header_get_def beta_view_def beta_keys split: option.split)
  then have "match_policy sample_entry (beta_view c) = Some sample_policy"
    by (simp add: match_policy_def sample_entry_def sample_policy_def has_condition_def
        policy_matches_def policy_enabled_def keep_better_def)
  then show ?thesis
    by (simp add: sticky_request_def sample_entry_def sample_sticky_def) (simp add: sample_policy_def)
qed

definition beta_target :: target where
  "beta_target = sample_target\<lparr>tg_sticky := Some \<lparr>ck_name = ''MAPLE_SRV'', ck_value = ''1'', ck_ttl = 60\<rparr>\<rparr>"

lemma beta_first: "\<exists>b1. route_request 3 sample_entry (beta_view None) new_balancer = Some (Returns (b1, Inr beta_target))"
proof -
  have "header_get (beta_view None) ''Cookie'' = []"
    by (simp add: header_get_def beta_view_def beta_keys)
  then have "answer_target (pick_sticky 3 sample_entry sample_policy ''v1'' (beta_view None) new_balancer) =
      Some beta_target"
    by (simp add: sample_policy_def pick_sticky_def sample_entry_def version_pool_of_def cookie_name_def
        pick_from_version_with_sticky_def inst_key_def select_def state_of_def new_balancer_def
        wrr_zero_def pool_fingerprint_def wrr_next_def reset_pool_def reset_weights_def next_step_def
        member_weights_def member_of_def sample_instance_def pos_weight_def finish_def
        answer_target_def sticky_target_def target_from_member_def sample_target_def endpoint_def addr_join_def beta_target_def)
  then show ?thesis
    using answer_target_Some by (fastforce simp: sticky_request_route [OF beta_sticky])
qed

lemma session_cookie_returns_to_its_instance_witness:
  "\<exists>t'. route_request 3 sample_entry (beta_view (Some ''theme=dark; MAPLE_SRV=1'')) new_balancer =
     Some (Returns (new_balancer, Inr t')) \<and> tg_instance t' = ''1''"
proof -
  obtain b1 where r: "route_request 3 sample_entry (beta_view None) new_balancer = Some (Returns (b1, Inr beta_target))"
    using beta_first by blast
  have c: "tg_sticky beta_target = Some \<lparr>ck_name = ''MAPLE_SRV'', ck_value = ''1'', ck_ttl = 60\<rparr>"
    "tg_instance beta_target = ''1''"
    by (simp_all add: beta_target_def sample_target_def)
  have "header_get (beta_view (Some ''theme=dark; MAPLE_SRV=1'')) ''Cookie'' = ''theme=dark; MAPLE_SRV=1''"
    by (simp add: header_get_def beta_view_def beta_keys)
  moreover have "split_byte CHR '';'' ''theme=dark; MAPLE_SRV=1'' = [''theme=dark''] @ '' MAPLE_SRV=1'' # []"
    "trim_space '' MAPLE_SRV=1'' = ''MAPLE_SRV'' @ ''='' @ ''1''" "cut_byte CHR ''='' (trim_space ''theme=dark'') = Some (''theme'', ''dark'')"
    by code_simp+
  then have "carries_cookie ''theme=dark; MAPLE_SRV=1'' ''MAPLE_SRV'' ''1''"
    unfolding carries_cookie_def by (intro exI [of _ "[''theme=dark'']"] exI [of _ "'' MAPLE_SRV=1''"] exI [of _ "[]"]) simp
  moreover have "no_sticky_header rv sample_sticky" for rv by (simp add: no_sticky_header_def sample_sticky_def)
  moreover have "''1'' \<in> pm_id ` set (version_pool_of sample_entry ''v1'')"
    by (simp add: version_pool_of_def sample_entry_def member_of_def sample_instance_def)
  ultimately show ?thesis
    using session_cookie_returns_to_its_instance [OF beta_sticky r c(1) beta_sticky refl, of "Some ''theme=dark; MAPLE_SRV=1''" 3 new_balancer]
    by (auto simp: c)
qed

section \<open>Limits that share a counter\<close>

text \<open>The limits of an entry applied to a sequence of requests: which of them pass.\<close>

fun limit_run :: "route_entry \<Rightarrow> rate_limit list \<Rightarrow> (request_view \<times> go_time) list \<Rightarrow> limiter \<Rightarrow>
    bool list outcome" where
  "limit_run e ls [] l = Returns []"
| "limit_run e ls ((rv, now) # rs) l =
     (case enforce_limits mem_backend e rv now ls l of
        Panics \<Rightarrow> Panics
      | Returns (l1, passed) \<Rightarrow>
          (case limit_run e ls rs l1 of Panics \<Rightarrow> Panics | Returns out \<Rightarrow> Returns (passed # out)))"

definition distinct_config :: "rl_request \<Rightarrow> rl_request \<Rightarrow> bool" where
  "distinct_config q r \<longleftrightarrow> (q_limit q, q_window q, q_burst q) \<noteq> (q_limit r, q_window r, q_burst r)"

text \<open>Every bucket carries the configuration of \<open>q\<close>.\<close>

definition all_config :: "rl_request \<Rightarrow> limiter \<Rightarrow> bool" where
  "all_config q l \<longleftrightarrow> (\<forall>k b. lm_buckets l k = Some b \<longrightarrow> same_config b q)"

lemma changed_config_admits:
  assumes "0 < q_limit q" and "\<And>b. lm_buckets l (q_key q) = Some b \<Longrightarrow> \<not> same_config b q"
  shows "al_allowed (snd (mem_allow l q))"
proof -
  have "bucket_for (maybe_gc l (q_now q)) q = fresh_bucket q"
    using assms(2) by (auto simp: bucket_for_def split: option.split dest: maybe_gc_sub)
  then have "bk_count (live_bucket l q) = 0"
    by (simp add: live_bucket_def roll_window_def fresh_bucket_def)
  with hard_limit_pos [OF assms(1)] show ?thesis by (simp add: mem_allow_iff assms(1))
qed

lemma own_bucket_config:
  assumes "0 < q_limit q" and "lm_buckets (fst (mem_allow l q)) (q_key q) = Some b"
  shows "same_config b q"
proof -
  have "b = live_bucket l q \<or> b = (live_bucket l q)\<lparr>bk_count := bk_count (live_bucket l q) + 1\<rparr>"
    using mem_allow_own [OF assms(1), of l] assms(2) by (metis option.inject)
  with live_bucket_config [of l q] show ?thesis unfolding same_config_def by (metis bucket.select_convs(3-5) bucket.surjective bucket.update_convs(2))
qed

lemma other_bucket_kept:
  assumes "0 < q_limit q" and "k \<noteq> q_key q" and "lm_buckets (fst (mem_allow l q)) k = Some b"
  shows "lm_buckets l k = Some b"
  using assms mem_allow_other [of k q l] maybe_gc_sub by metis

lemma shared_pair_step:
  assumes q: "0 < q_limit q" "0 < q_limit r" "q_key q = q_key r" "distinct_config q r"
    and l: "all_config r l"
  shows "al_allowed (snd (mem_allow l q)) \<and> al_allowed (snd (mem_allow (fst (mem_allow l q)) r)) \<and>
    all_config r (fst (mem_allow (fst (mem_allow l q)) r))"
proof (intro conjI)
  let ?l = "fst (mem_allow l q)"
  have apart: "\<not> (same_config b q \<and> same_config b r)" for b
    using q(4) by (auto simp: same_config_def distinct_config_def)
  show "al_allowed (snd (mem_allow l q))"
    using changed_config_admits [OF q(1)] l apart by (metis all_config_def)
  show "al_allowed (snd (mem_allow ?l r))"
    using changed_config_admits [OF q(2), of ?l] own_bucket_config [OF q(1)] q(3) apart by metis
  show "all_config r (fst (mem_allow ?l r))"
    unfolding all_config_def
  proof (intro allI impI)
    fix k b
    assume b: "lm_buckets (fst (mem_allow ?l r)) k = Some b"
    show "same_config b r"
    proof (cases "k = q_key r")
      case True
      with b own_bucket_config [OF q(2)] show ?thesis by blast
    next
      case False
      then have "lm_buckets l k = Some b"
        using other_bucket_kept [OF q(2) False b] other_bucket_kept [OF q(1)] q(3) by metis
      with l show ?thesis by (simp add: all_config_def)
    qed
  qed
qed

lemma limit_request_config:
  "all_config (limit_request e l rv now) x \<Longrightarrow> all_config (limit_request e l rv' now') x"
  by (simp add: all_config_def same_config_def limit_request_def)

text \<open>Two limits of one scope on a route count in the same bucket, and a request that
arrives with another configuration resets it. When their limits, windows or bursts differ, each of
the two resets the other on every request: however fast requests come, none is ever rejected,
although each limit alone would reject.\<close>

theorem limits_of_one_scope_cancel_out:
  assumes "rl_scope l1 = rl_scope l2" and "0 < rl_limit l1" and "0 < rl_limit l2"
    and "\<And>rv now. distinct_config (limit_request e l1 rv now) (limit_request e l2 rv now)"
  shows "limit_run e [l1, l2] rs (new_limiter c) = Returns (replicate (length rs) True)"
proof -
  have run: "limit_run e [l1, l2] rs l = Returns (replicate (length rs) True)"
    if "all_config (limit_request e l2 empty_view 0) l" for l
    using that
  proof (induction rs arbitrary: l)
    case (Cons r rs)
    obtain rv now where r: "r = (rv, now)" by (cases r)
    let ?q = "limit_request e l1 rv now" and ?r = "limit_request e l2 rv now"
    have q: "0 < q_limit ?q" "0 < q_limit ?r" "q_key ?q = q_key ?r" "distinct_config ?q ?r"
      using assms by (auto simp: limit_request_def limit_key_def split: rl_scope.split)
    have "all_config ?r l" using Cons.prems limit_request_config by blast
    note step = shared_pair_step [OF q this]
    then have "limit_run e [l1, l2] rs (fst (mem_allow (fst (mem_allow l ?q)) ?r)) = Returns (replicate (length rs) True)"
      using Cons.IH limit_request_config by blast
    with step show ?case by (simp add: r mem_backend_def case_prod_beta)
  qed simp
  show ?thesis by (rule run) (simp add: all_config_def new_limiter_def)
qed

definition per_minute :: rate_limit where
  "per_minute = \<lparr>rl_scope = RScopeIP, rl_tenant = None, rl_domain = None, rl_service = None,
     rl_name = ''per minute'', rl_limit = 1, rl_window = 60, rl_burst = 1, rl_code = 429, rl_enabled = True\<rparr>"

definition per_second :: rate_limit where
  "per_second = per_minute\<lparr>rl_name := ''per second'', rl_window := 1\<rparr>"

lemma limits_of_one_scope_cancel_out_witness:
  "limit_run sample_entry [per_minute, per_second] (replicate 1000 (empty_view, 5)) (new_limiter 0) =
     Returns (replicate (length (replicate 1000 (empty_view, 5::int))) True)"
  by (rule limits_of_one_scope_cancel_out)
    (simp_all add: per_minute_def per_second_def distinct_config_def limit_request_def)

section \<open>A policy that cannot be read back\<close>

lemma get_policy_bad:
  assumes "find (\<lambda>r. po_id r = pid) rows = Some row" and "mt_percent (po_match row) < 0 \<or> 100 < mt_percent (po_match row)"
  shows "get_policy pid rows = Inl (PolicyBadMatch (po_id row))"
  using assms by (auto simp: get_policy_def from_ent_def new_match_def)

lemma update_keeps_bad_row:
  assumes "row \<in> set rows" and "\<And>r. r \<in> set rows \<Longrightarrow> po_id r = po_id row \<Longrightarrow> r = row"
    and "mt_percent (po_match row) < 0 \<or> 100 < mt_percent (po_match row)"
  shows "row \<in> set (snd (update_policy pid u rows)) \<and>
    (\<forall>r \<in> set (snd (update_policy pid u rows)). po_id r = po_id row \<longrightarrow> r = row)"
proof (cases "pid = po_id row")
  case True
  have "\<exists>r. find (\<lambda>r. po_id r = pid) rows = Some r"
    using assms(1) True by (cases "find (\<lambda>r. po_id r = pid) rows") (auto simp: find_None_iff)
  then have "find (\<lambda>r. po_id r = pid) rows = Some row"
    using assms(2) True find_Some_mem [of "\<lambda>r. po_id r = pid" rows] by metis
  with get_policy_bad [OF _ assms(3)] assms(1,2) show ?thesis
    by (auto simp: update_policy_def)
next
  case False
  show ?thesis
  proof (cases "get_policy pid rows")
    case (Inl x)
    with assms show ?thesis by (auto simp: update_policy_def)
  next
    case (Inr r)
    then obtain f where "find (\<lambda>r. po_id r = pid) rows = Some f" and "r = f"
      by (auto simp: get_policy_def from_ent_Inr split: option.splits)
    then have "po_id r = pid" using find_Some_mem [of "\<lambda>r. po_id r = pid" rows f] by simp
    then have "po_id (change_policy u r) = pid" by (simp add: change_policy_def)
    with Inr False assms show ?thesis by (auto simp: update_policy_def Let_def)
  qed
qed

text \<open>The percentage of a policy is checked only when its row is read. Creating a policy
with a percentage outside 0 to 100 answers an error but leaves the row in the table; from then on no
sequence of updates or status changes, of this policy or any other, makes a rebuild of the route
table succeed, whatever the other tables hold: the gateway keeps routing by the table it had.\<close>

theorem unreadable_policy_freezes_the_routes:
  assumes "\<not> (0 \<le> mt_percent m \<and> mt_percent m \<le> 100)"
    and "po_service p \<noteq> uuid_nil" "po_name p \<noteq> []" "length (po_name p) \<le> 64" "known (po_service p)"
    and "\<forall>r \<in> set rows. (po_service r, po_name r) \<noteq> (po_service p, po_name p)"
    and "pid \<notin> po_id ` set rows"
    and "rd_policies rd = Some (foldl (\<lambda>rs (i, u). snd (update_policy i u rs))
           (snd (create_policy known pid p (Some m) rows)) us)"
  shows "fst (create_policy known pid p (Some m) rows) = Inl (PolicyBadMatch pid) \<and>
    rebuild to_ascii rd c = Returns (c, False)"
proof -
  let ?row = "p\<lparr>po_id := pid, po_priority := (if po_priority p = 0 then 100 else po_priority p),
      po_match := m, po_balance := (if valid_balance (po_balance p) then po_balance p else balance_rr),
      po_status := ''enabled''\<rparr>"
  have create: "create_policy known pid p (Some m) rows = (from_ent ?row, rows @ [?row])"
    using assms(2-6) by (force simp: create_policy_def Let_def)
  have bad: "mt_percent (po_match ?row) < 0 \<or> 100 < mt_percent (po_match ?row)"
    using assms(1) unfolding de_Morgan_conj not_le by simp
  have "?row \<in> set (foldl (\<lambda>rs (i, u). snd (update_policy i u rs)) rs us)"
    if "?row \<in> set rs" "\<And>r. r \<in> set rs \<Longrightarrow> po_id r = po_id ?row \<Longrightarrow> r = ?row" for rs
    using that
  proof (induction us arbitrary: rs)
    case Nil
    then show ?case by (simp only: foldl.simps)
  next
    case (Cons a us)
    obtain i u where a: "a = (i, u)" by (cases a)
    note kept = update_keeps_bad_row [OF Cons.prems bad, of i u]
    have "?row \<in> set (foldl (\<lambda>rs (i, u). snd (update_policy i u rs)) (snd (update_policy i u rs)) us)"
      by (rule Cons.IH) (use kept in blast)+
    then show ?case by (simp only: a foldl.simps prod.case)
  qed
  moreover have "?row \<in> set (snd (create_policy known pid p (Some m) rows))"
    and "\<And>r. r \<in> set (snd (create_policy known pid p (Some m) rows)) \<Longrightarrow> po_id r = po_id ?row \<Longrightarrow> r = ?row"
    using assms(7) by (auto simp: create)
  ultimately obtain rows' where "rd_policies rd = Some rows'" "?row \<in> set rows'"
    using assms(8) by blast
  then have "load_versioning rd = None"
    using all_grouped_bad_row [OF _ bad] by (fastforce simp: load_versioning_def split: option.splits)
  then have "rebuild to_ascii rd c = Returns (c, False)"
    by (auto simp: rebuild_def gather_def split: option.splits)
  moreover have "fst (create_policy known pid p (Some m) rows) = Inl (PolicyBadMatch pid)"
    using bad by (simp add: create from_ent_def new_match_def)
  ultimately show ?thesis by blast
qed

lemma unreadable_policy_freezes_the_routes_witness:
  "rebuild Some \<lparr>rd_tenants = Some [], rd_services = Some [], rd_domains = Some [],
     rd_insts = Some (\<lambda>_. []), rd_groups = Some (\<lambda>_. []),
     rd_policies = Some (snd (create_policy (\<lambda>_. True) ''p2'' sample_policy
        (Some (empty_match\<lparr>mt_percent := 150\<rparr>)) [])),
     rd_nodes = Some [], rd_limits = Some []\<rparr> new_cache = Returns (new_cache, False)"
  using unreadable_policy_freezes_the_routes [of "empty_match\<lparr>mt_percent := 150\<rparr>" sample_policy "\<lambda>_. True" "[]" "''p2''"
      "\<lparr>rd_tenants = Some [], rd_services = Some [], rd_domains = Some [],
     rd_insts = Some (\<lambda>_. []), rd_groups = Some (\<lambda>_. []),
     rd_policies = Some (snd (create_policy (\<lambda>_. True) ''p2'' sample_policy
        (Some (empty_match\<lparr>mt_percent := 150\<rparr>)) [])),
     rd_nodes = Some [], rd_limits = Some []\<rparr>" "[]" Some new_cache]
  by (simp add: sample_policy_def uuid_nil_def)

end
