(* ===== verification/Ports.thy ===== *)
theory Ports
  imports Gateway_Prelude
begin

text \<open>
  The port allocator of the container manager (\<open>containermanager/ports/store.go\<close>): host ports
  from a range, one per resource, kept in memory and in the table \<open>cm_port_allocations\<close>, whose
  column \<open>port\<close> is unique. The table is the list of its rows; without a database it is None.
\<close>

section \<open>The store\<close>

record port_store =
  pt_table :: "(int \<times> string) list option"
  pt_low :: int
  pt_high :: int
  pt_used :: "int set"
  pt_by :: "string \<Rightarrow> int list"

definition default_low :: int where "default_low = 20000"
definition default_high :: int where "default_high = 30000"

definition new_port_store :: "(int \<times> string) list option \<Rightarrow> int \<Rightarrow> int \<Rightarrow> port_store" where
  "new_port_store db low high =
     (if low \<le> 0 \<or> high < low
      then \<lparr>pt_table = db, pt_low = default_low, pt_high = default_high, pt_used = {}, pt_by = (\<lambda>_. [])\<rparr>
      else \<lparr>pt_table = db, pt_low = low, pt_high = high, pt_used = {}, pt_by = (\<lambda>_. [])\<rparr>)"

definition load_row :: "int \<times> string \<Rightarrow> port_store \<Rightarrow> port_store" where
  "load_row row s = (case row of (p, r) \<Rightarrow>
     s\<lparr>pt_used := insert p (pt_used s), pt_by := (pt_by s)(r := pt_by s r @ [p])\<rparr>)"

definition load_ports :: "port_store \<Rightarrow> port_store" where
  "load_ports s = (case pt_table s of None \<Rightarrow> s | Some rows \<Rightarrow> fold load_row rows s)"

datatype port_error = NoResource | PortsExhausted | PortTable

text \<open>\<open>reserve\<close>: the insert fails when the port is in the table, and when the database refuses
  (\<open>db_ok\<close> is False).\<close>

definition reserve :: "bool \<Rightarrow> int \<Rightarrow> string \<Rightarrow> port_store \<Rightarrow> port_store option" where
  "reserve db_ok p r s = (case pt_table s of
     None \<Rightarrow> Some s
   | Some rows \<Rightarrow> if \<not> db_ok \<or> p \<in> fst ` set rows then None else Some (s\<lparr>pt_table := Some (rows @ [(p, r)])\<rparr>))"

definition allocate_port :: "bool \<Rightarrow> string \<Rightarrow> port_store \<Rightarrow> (port_error + int) \<times> port_store" where
  "allocate_port db_ok r s =
     (if r = [] then (Inl NoResource, s)
      else case pt_by s r of
        p # _ \<Rightarrow> (Inr p, s)
      | [] \<Rightarrow>
          (case find (\<lambda>p. p \<notin> pt_used s) [pt_low s..pt_high s] of
             None \<Rightarrow> (Inl PortsExhausted, s)
           | Some p \<Rightarrow>
               (case reserve db_ok p r s of
                  None \<Rightarrow> (Inl PortTable, s)
                | Some s1 \<Rightarrow> (Inr p, s1\<lparr>pt_used := insert p (pt_used s1),
                                       pt_by := (pt_by s1)(r := pt_by s1 r @ [p])\<rparr>))))"

definition release_port :: "bool \<Rightarrow> string \<Rightarrow> port_store \<Rightarrow> port_error option \<times> port_store" where
  "release_port db_ok r s =
     (if r = [] then (None, s)
      else if pt_table s \<noteq> None \<and> \<not> db_ok then (Some PortTable, s)
      else (None, s\<lparr>pt_table := map_option (filter (\<lambda>row. snd row \<noteq> r)) (pt_table s),
                    pt_used := pt_used s - set (pt_by s r),
                    pt_by := (pt_by s)(r := [])\<rparr>))"

definition allocated_ports :: "port_store \<Rightarrow> int list" where
  "allocated_ports s = sorted_list_of_set (pt_used s)"

section \<open>Runs of the container manager\<close>

text \<open>The calls of the interface, and a restart: a new store with the same configuration, loaded
  from the table.\<close>

datatype port_event = PAllocate bool string | PRelease bool string | PRestart

fun port_step :: "port_store \<Rightarrow> port_event \<Rightarrow> port_store" where
  "port_step s (PAllocate ok r) = snd (allocate_port ok r s)"
| "port_step s (PRelease ok r) = snd (release_port ok r s)"
| "port_step s PRestart = load_ports (new_port_store (pt_table s) (pt_low s) (pt_high s))"

text \<open>Memory and table agree, and no port has two holders.\<close>

definition port_inv :: "port_store \<Rightarrow> bool" where
  "port_inv s \<longleftrightarrow>
     pt_used s = {p. \<exists>r. p \<in> set (pt_by s r)} \<and>
     (\<forall>p r q. p \<in> set (pt_by s r) \<and> p \<in> set (pt_by s q) \<longrightarrow> r = q) \<and>
     (\<forall>rows. pt_table s = Some rows \<longrightarrow>
        distinct (map fst rows) \<and> (\<forall>r. set (pt_by s r) = {p. (p, r) \<in> set rows}))"

lemma port_inv_memory: "port_inv s \<Longrightarrow> p \<in> set (pt_by s r) \<Longrightarrow> p \<in> set (pt_by s q) \<Longrightarrow> r = q"
  by (auto simp: port_inv_def)

lemma fold_load_row:
  "fold load_row rows s = s\<lparr>pt_used := pt_used s \<union> fst ` set rows,
     pt_by := (\<lambda>r. pt_by s r @ map fst (filter (\<lambda>row. snd row = r) rows))\<rparr>"
proof (induction rows arbitrary: s)
  case (Cons row rows)
  obtain p r where row: "row = (p, r)" by (cases row)
  have step: "load_row (p, r) s = s\<lparr>pt_used := insert p (pt_used s), pt_by := (pt_by s)(r := pt_by s r @ [p])\<rparr>"
    by (simp add: load_row_def)
  show ?case by (simp add: row Cons.IH step fun_eq_iff)
qed simp

lemma port_invI:
  assumes "\<And>p. p \<in> pt_used s \<longleftrightarrow> (\<exists>r. p \<in> set (pt_by s r))"
    and "\<And>p r q. p \<in> set (pt_by s r) \<Longrightarrow> p \<in> set (pt_by s q) \<Longrightarrow> r = q"
    and "\<And>rows. pt_table s = Some rows \<Longrightarrow> distinct (map fst rows)"
    and "\<And>rows p r. pt_table s = Some rows \<Longrightarrow> p \<in> set (pt_by s r) \<longleftrightarrow> (p, r) \<in> set rows"
  shows "port_inv s"
  using assms by (auto simp: port_inv_def)

lemma loaded_ports:
  "pt_table (load_ports (new_port_store (Some rows) low high)) = Some rows"
  "pt_used (load_ports (new_port_store (Some rows) low high)) = fst ` set rows"
  "p \<in> set (pt_by (load_ports (new_port_store (Some rows) low high)) r) \<longleftrightarrow> (p, r) \<in> set rows"
  by (auto simp: load_ports_def new_port_store_def fold_load_row image_iff)

lemma new_port_inv:
  assumes "\<forall>rows. db = Some rows \<longrightarrow> distinct (map fst rows)"
  shows "port_inv (load_ports (new_port_store db low high))"
proof (cases db)
  case (Some rows)
  let ?s = "load_ports (new_port_store (Some rows) low high)"
  from Some assms have d: "distinct (map fst rows)" by simp
  have "r = q" if "(p, r) \<in> set rows" "(p, q) \<in> set rows" for p r q
    using that d by (metis eq_key_imp_eq_value)
  moreover have "p \<in> fst ` set rows \<longleftrightarrow> (\<exists>r. (p, r) \<in> set rows)" for p by force
  ultimately have "port_inv ?s"
    by (intro port_invI) (auto simp: loaded_ports d)
  with Some show ?thesis by simp
qed (auto simp: load_ports_def new_port_store_def port_inv_def)

lemma port_inv_used: "port_inv s \<Longrightarrow> p \<in> pt_used s \<longleftrightarrow> (\<exists>r. p \<in> set (pt_by s r))"
  by (simp add: port_inv_def)

lemma port_inv_table:
  "port_inv s \<Longrightarrow> pt_table s = Some rows \<Longrightarrow>
   distinct (map fst rows) \<and> (\<forall>p r. p \<in> set (pt_by s r) \<longleftrightarrow> (p, r) \<in> set rows)"
  by (simp add: port_inv_def)

definition hold :: "int \<Rightarrow> string \<Rightarrow> port_store \<Rightarrow> port_store" where
  "hold p r s = s\<lparr>pt_used := insert p (pt_used s), pt_by := (pt_by s)(r := pt_by s r @ [p])\<rparr>"

lemma hold_simps [simp]:
  "pt_used (hold p r s) = insert p (pt_used s)"
  "pt_table (hold p r s) = pt_table s"
  "q \<in> set (pt_by (hold p r s) a) \<longleftrightarrow> a = r \<and> q = p \<or> q \<in> set (pt_by s a)"
  by (auto simp: hold_def)

lemma reserve_frame:
  assumes "reserve ok p r s = Some s1"
  shows "pt_used s1 = pt_used s" and "pt_by s1 = pt_by s"
    and "pt_table s1 = map_option (\<lambda>rows. rows @ [(p, r)]) (pt_table s)"
    and "pt_table s = Some rows \<Longrightarrow> p \<notin> fst ` set rows"
  using assms by (auto simp: reserve_def split: option.splits if_splits)

text \<open>The two ways \<open>Allocate\<close> ends.\<close>

lemma allocate_port_cases:
  obtains "snd (allocate_port ok r s) = s"
      and "\<And>p. fst (allocate_port ok r s) = Inr p \<Longrightarrow> p \<in> set (pt_by s r)"
  | p s1 where "p \<notin> pt_used s" and "reserve ok p r s = Some s1" and "allocate_port ok r s = (Inr p, hold p r s1)"
proof (cases "r = [] \<or> pt_by s r \<noteq> []")
  case True
  then show ?thesis
    by (intro that(1)) (auto simp: allocate_port_def split: list.splits if_splits)
next
  case False
  then have eq: "allocate_port ok r s =
      (case find (\<lambda>p. p \<notin> pt_used s) [pt_low s..pt_high s] of
         None \<Rightarrow> (Inl PortsExhausted, s)
       | Some p \<Rightarrow> (case reserve ok p r s of None \<Rightarrow> (Inl PortTable, s) | Some s1 \<Rightarrow> (Inr p, hold p r s1)))"
    by (simp add: allocate_port_def hold_def cong: option.case_cong)
  show ?thesis
  proof (cases "find (\<lambda>p. p \<notin> pt_used s) [pt_low s..pt_high s]")
    case None
    then show ?thesis by (intro that(1)) (simp_all add: eq)
  next
    case (Some p)
    then have "p \<notin> pt_used s" using find_Some_mem by fastforce
    then show ?thesis
      using Some that eq by (cases "reserve ok p r s") auto
  qed
qed

lemma hold_port_inv:
  assumes inv: "port_inv s" and "p \<notin> pt_used s" and res: "reserve ok p r s = Some s1"
  shows "port_inv (hold p r s1)"
proof (rule port_invI)
  note same = reserve_frame(1-3) [OF res]
  show "q \<in> pt_used (hold p r s1) \<longleftrightarrow> (\<exists>a. q \<in> set (pt_by (hold p r s1) a))" for q
    using port_inv_used [OF inv, of q] by (auto simp: same)
  show "a = b" if "q \<in> set (pt_by (hold p r s1) a)" "q \<in> set (pt_by (hold p r s1) b)" for q a b
    using that assms(2) port_inv_used [OF inv, of p] port_inv_memory [OF inv, of q a b] by (auto simp: same)
  fix rows assume "pt_table (hold p r s1) = Some rows"
  then obtain old where old: "pt_table s = Some old" and rows: "rows = old @ [(p, r)]"
    by (auto simp: same)
  show "distinct (map fst rows)"
    using port_inv_table [OF inv old] reserve_frame(4) [OF res old] by (simp add: rows)
  show "q \<in> set (pt_by (hold p r s1) a) \<longleftrightarrow> (q, a) \<in> set rows" for q a
    using port_inv_table [OF inv old] by (auto simp: rows same)
qed

lemma allocate_port_inv: "port_inv s \<Longrightarrow> port_inv (snd (allocate_port ok r s))"
  by (rule allocate_port_cases [of ok r s]) (auto intro: hold_port_inv)

lemma release_port_inv: "port_inv s \<Longrightarrow> port_inv (snd (release_port ok r s))"
  by (auto simp: release_port_def port_inv_def distinct_map_filter)

lemma port_step_inv: "port_inv s \<Longrightarrow> port_inv (port_step s e)"
proof (cases e)
  case PRestart
  assume "port_inv s"
  then have "\<forall>rows. pt_table s = Some rows \<longrightarrow> distinct (map fst rows)" by (simp add: port_inv_def)
  with PRestart show ?thesis by (simp add: new_port_inv)
qed (simp_all add: allocate_port_inv release_port_inv)

interpretation ports: machine port_step port_inv
  by unfold_locales (rule port_step_inv)

section \<open>Holding a port\<close>

text \<open>An event that may take the port of \<open>r\<close> away: its release, and a restart without a table.\<close>

definition keeps :: "string \<Rightarrow> bool \<Rightarrow> port_event \<Rightarrow> bool" where
  "keeps r has_db e \<longleftrightarrow> (case e of PAllocate _ _ \<Rightarrow> True | PRelease _ q \<Rightarrow> q \<noteq> r | PRestart \<Rightarrow> has_db)"

lemma allocate_port_frame:
  "(pt_table (snd (allocate_port ok r s)) = None) = (pt_table s = None)"
  "p \<in> set (pt_by s q) \<Longrightarrow> p \<in> set (pt_by (snd (allocate_port ok r s)) q)"
  by (rule allocate_port_cases [of ok r s]; simp add: reserve_frame)+

lemma step_table: "(pt_table (port_step s e) = None) = (pt_table s = None)"
proof (cases e)
  case PRestart
  then show ?thesis
    by (cases "pt_table s") (simp_all add: load_ports_def new_port_store_def fold_load_row)
qed (simp_all add: allocate_port_frame release_port_def)

lemma step_keeps_port:
  assumes "port_inv s" and "keeps r (pt_table s \<noteq> None) e" and "p \<in> set (pt_by s r)"
  shows "p \<in> set (pt_by (port_step s e) r)"
proof (cases e)
  case (PAllocate ok q)
  with assms show ?thesis by (simp add: allocate_port_frame)
next
  case (PRelease ok q)
  with assms show ?thesis by (auto simp: release_port_def keeps_def)
next
  case PRestart
  with assms obtain rows where rows: "pt_table s = Some rows" by (auto simp: keeps_def)
  with assms(3) have "(p, r) \<in> set rows" using port_inv_table [OF assms(1) rows] by blast
  with PRestart rows show ?thesis by (simp add: loaded_ports)
qed

lemma run_keeps_port:
  "port_inv s \<Longrightarrow> p \<in> set (pt_by s r) \<Longrightarrow> list_all (keeps r (pt_table s \<noteq> None)) es \<Longrightarrow>
   p \<in> set (pt_by (foldl port_step s es) r)"
proof (induction es arbitrary: s)
  case (Cons e es)
  have "list_all (keeps r (pt_table (port_step s e) \<noteq> None)) es"
    using Cons.prems(3) unfolding step_table by simp
  moreover have "p \<in> set (pt_by (port_step s e) r)"
    using Cons.prems by (intro step_keeps_port) simp_all
  ultimately show ?case using Cons.IH [of "port_step s e"] Cons.prems(1) by (simp add: port_step_inv)
qed simp

lemma allocate_port_Inr:
  assumes "allocate_port ok r s = (Inr p, s')"
  shows "p \<in> set (pt_by s' r)"
  using assms by (cases rule: allocate_port_cases [of ok r s]) auto

text \<open>No two resources share a port: after a resource was given a port, and whatever is
allocated and released afterwards, restarts of the container manager included when it has a
database, no other resource is given that port until the first one releases it; and while it holds
it, it is answered the same port again if it had asked for the first time.\<close>

theorem ports_are_never_shared:
  assumes "port_inv s" and "allocate_port ok r s = (Inr p, s1)"
    and "list_all (keeps r (pt_table s \<noteq> None)) es"
    and "allocate_port ok' q (foldl port_step s1 es) = (Inr p', s2)" and "q \<noteq> r"
  shows "p' \<noteq> p"
proof -
  have inv1: "port_inv s1" using allocate_port_inv [OF assms(1), of ok r] assms(2) by simp
  have inv: "port_inv (foldl port_step s1 es)" by (rule ports.mrun_inv [OF inv1])
  have p: "p \<in> set (pt_by (foldl port_step s1 es) r)"
    using allocate_port_Inr [OF assms(2)] assms(2,3) allocate_port_frame(1) [of ok r s]
    by (intro run_keeps_port inv1) simp_all
  have "port_inv s2" using allocate_port_inv [OF inv, of ok' q] assms(4) by simp
  moreover have "p \<in> set (pt_by s2 r)"
    using step_keeps_port [OF inv, of r "PAllocate ok' q" p] p assms(4) by (simp add: keeps_def)
  moreover have "p' \<in> set (pt_by s2 q)" using allocate_port_Inr [OF assms(4)] .
  ultimately show ?thesis using port_inv_memory assms(5) by blast
qed

lemma ports_are_never_shared_witness:
  "fst (allocate_port True ''c'' (foldl port_step (snd (allocate_port True ''a'' (new_port_store (Some []) 1 3)))
       [PAllocate True ''b'', PRestart, PRelease True ''b''])) = Inr 2 \<and> (2 :: int) \<noteq> 1"
proof -
  let ?s = "new_port_store (Some []) 1 3"
  let ?s1 = "snd (allocate_port True ''a'' ?s)"
  let ?es = "[PAllocate True ''b'', PRestart, PRelease True ''b'']"
  have inv: "port_inv ?s" by (simp add: new_port_store_def port_inv_def)
  have run: "allocate_port True ''a'' ?s = (Inr 1, ?s1)" "pt_table ?s = Some []"
    "allocate_port True ''c'' (foldl port_step ?s1 ?es) =
       (Inr 2, snd (allocate_port True ''c'' (foldl port_step ?s1 ?es)))"
    by (simp_all add: new_port_store_def allocate_port_def reserve_def release_port_def load_ports_def
        load_row_def upto.simps)
  have "(2 :: int) \<noteq> 1"
    by (rule ports_are_never_shared [OF inv run(1) _ run(3)]) (simp_all add: keeps_def run(2))
  then show ?thesis by (subst run(3)) simp
qed

text \<open>The unique column also stops a port another process took, and the store then hands out nothing
more: the lowest port free in memory stays the next candidate, and every new resource is refused on
it although higher ports are free.\<close>

lemma foreign_port_blocks_allocation:
  assumes "find (\<lambda>p. p \<notin> pt_used s) [pt_low s..pt_high s] = Some p"
    and "pt_table s = Some rows" and "p \<in> fst ` set rows"
  shows "r \<noteq> [] \<Longrightarrow> pt_by s r = [] \<Longrightarrow> allocate_port ok r s = (Inl PortTable, s)"
  using assms by (simp add: allocate_port_def reserve_def)

end
