(* ===== verification/Nodes.thy ===== *)
theory Nodes
  imports Gateway_Prelude
begin

text \<open>
  The container manager's view of its nodes: the store of run-time records with the credentials of
  the agents and the on-line state machine (\<open>containermanager/nodes/store.go\<close>), and the registry of
  configured nodes (\<open>containermanager/agentregistry/registry.go\<close>). The table \<open>cm_node_runtime\<close> is an
  association list from node ids to rows, None without a database; the hash of credentials is a
  parameter, and so is the random token.
\<close>

section \<open>Records\<close>

datatype node_state = NodeOnline | NodeUnstable | NodeOffline

definition default_unstable_after :: int where "default_unstable_after = 30 * second"
definition default_offline_after :: int where "default_offline_after = 90 * second"
definition last_seen_write_interval :: int where "last_seen_write_interval = 15 * second"

record runtime =
  rt_id :: uuid
  rt_name :: string
  rt_hash :: string
  rt_os :: string
  rt_arch :: string
  rt_agent :: string
  rt_revoked :: bool
  rt_registered :: go_time
  rt_last_seen :: go_time
  rt_state :: node_state
  rt_connected :: bool
  rt_last_write :: go_time

record node_row =
  nr_name :: string
  nr_hash :: string
  nr_os :: string
  nr_arch :: string
  nr_agent :: string
  nr_revoked :: bool
  nr_registered :: go_time
  nr_last_seen :: go_time

record node_store =
  ns_table :: "(uuid \<times> node_row) list option"
  ns_unstable_after :: int
  ns_offline_after :: int
  ns_items :: "(uuid \<times> runtime) list"

definition new_node_store :: "(uuid \<times> node_row) list option \<Rightarrow> int \<Rightarrow> int \<Rightarrow> node_store" where
  "new_node_store db unstable offline =
     \<lparr>ns_table = db,
      ns_unstable_after = (if unstable \<le> 0 then default_unstable_after else unstable),
      ns_offline_after = (if offline \<le> 0 then default_offline_after else offline),
      ns_items = []\<rparr>"

section \<open>Operations\<close>

definition runtime_of_row :: "uuid \<Rightarrow> node_row \<Rightarrow> runtime" where
  "runtime_of_row i row =
     \<lparr>rt_id = i, rt_name = nr_name row, rt_hash = nr_hash row, rt_os = nr_os row, rt_arch = nr_arch row,
      rt_agent = nr_agent row, rt_revoked = nr_revoked row, rt_registered = nr_registered row,
      rt_last_seen = nr_last_seen row, rt_state = NodeOffline, rt_connected = False, rt_last_write = 0\<rparr>"

definition load_nodes :: "node_store \<Rightarrow> node_store" where
  "load_nodes s = (case ns_table s of
     None \<Rightarrow> s
   | Some rows \<Rightarrow> s\<lparr>ns_items := fold (\<lambda>(i, row). AList.update i (runtime_of_row i row)) rows (ns_items s)\<rparr>)"

text \<open>\<open>persist\<close>: an upsert that keeps the first registration time; None when the database refuses.\<close>

definition persisted_row :: "go_time \<Rightarrow> node_row option \<Rightarrow> runtime \<Rightarrow> node_row" where
  "persisted_row now old r =
     \<lparr>nr_name = rt_name r, nr_hash = rt_hash r, nr_os = rt_os r, nr_arch = rt_arch r,
      nr_agent = rt_agent r, nr_revoked = False,
      nr_registered = (case old of None \<Rightarrow> now | Some row \<Rightarrow> nr_registered row),
      nr_last_seen = now\<rparr>"

definition persist_node :: "bool \<Rightarrow> go_time \<Rightarrow> runtime \<Rightarrow> node_store \<Rightarrow> node_store option" where
  "persist_node db_ok now r s = (case ns_table s of
     None \<Rightarrow> Some s
   | Some rows \<Rightarrow>
       if \<not> db_ok then None
       else Some (s\<lparr>ns_table := Some (AList.update (rt_id r) (persisted_row now (map_of rows (rt_id r)) r) rows)\<rparr>))"

datatype node_error = NoRandom | NodeTable | UnknownNode

record hello =
  he_name :: string
  he_os :: string
  he_arch :: string
  he_agent :: string

definition ensured :: "(string \<Rightarrow> string) \<Rightarrow> go_time \<Rightarrow> uuid \<Rightarrow> hello \<Rightarrow> string \<Rightarrow> runtime option \<Rightarrow> runtime" where
  "ensured hash now i h cred old = (
     let r = (case old of
           Some r \<Rightarrow> r
         | None \<Rightarrow> \<lparr>rt_id = i, rt_name = [], rt_hash = [], rt_os = [], rt_arch = [], rt_agent = [],
                   rt_revoked = False, rt_registered = now, rt_last_seen = 0, rt_state = NodeOffline,
                   rt_connected = False, rt_last_write = 0\<rparr>)
     in r\<lparr>rt_name := (if he_name h \<noteq> [] then he_name h else rt_name r), rt_hash := hash cred,
          rt_os := he_os h, rt_arch := he_arch h, rt_agent := he_agent h, rt_revoked := False,
          rt_last_seen := now, rt_state := NodeOnline, rt_connected := True, rt_last_write := now\<rparr>)"

definition ensure_node ::
  "(string \<Rightarrow> string) \<Rightarrow> bool \<Rightarrow> go_time \<Rightarrow> string option \<Rightarrow> uuid \<Rightarrow> hello \<Rightarrow> node_store \<Rightarrow>
   (node_error + string) \<times> node_store" where
  "ensure_node hash db_ok now token i h s = (case token of
     None \<Rightarrow> (Inl NoRandom, s)
   | Some cred \<Rightarrow>
       let r = ensured hash now i h cred (map_of (ns_items s) i);
           s1 = s\<lparr>ns_items := AList.update i r (ns_items s)\<rparr>
       in (case persist_node db_ok now r s1 of
             None \<Rightarrow> (Inl NodeTable, s1)
           | Some s2 \<Rightarrow> (Inr cred, s2)))"

definition verify_credential :: "(string \<Rightarrow> string) \<Rightarrow> uuid \<Rightarrow> string \<Rightarrow> node_store \<Rightarrow> node_error option" where
  "verify_credential hash i cred s = (case map_of (ns_items s) i of
     None \<Rightarrow> Some UnknownNode
   | Some r \<Rightarrow>
       if rt_revoked r then Some UnknownNode
       else if rt_hash r = [] \<or> rt_hash r \<noteq> hash cred then Some UnknownNode
       else None)"

definition update_row :: "bool \<Rightarrow> uuid \<Rightarrow> (node_row \<Rightarrow> node_row) \<Rightarrow> node_store \<Rightarrow> node_store" where
  "update_row db_ok i f s =
     (if db_ok then s\<lparr>ns_table := map_option (AList.map_entry i f) (ns_table s)\<rparr> else s)"

definition update_item :: "uuid \<Rightarrow> (runtime \<Rightarrow> runtime) \<Rightarrow> node_store \<Rightarrow> node_store" where
  "update_item i f s = s\<lparr>ns_items := AList.map_entry i f (ns_items s)\<rparr>"

definition revoke_node :: "bool \<Rightarrow> uuid \<Rightarrow> node_store \<Rightarrow> bool \<times> node_store" where
  "revoke_node db_ok i s = (case map_of (ns_items s) i of
     None \<Rightarrow> (False, s)
   | Some _ \<Rightarrow> (True, update_row db_ok i (\<lambda>row. row\<lparr>nr_revoked := True, nr_hash := []\<rparr>)
                       (update_item i (\<lambda>r. r\<lparr>rt_revoked := True, rt_hash := []\<rparr>) s)))"

definition update_hello :: "bool \<Rightarrow> uuid \<Rightarrow> string \<Rightarrow> string \<Rightarrow> string \<Rightarrow> node_store \<Rightarrow> node_store" where
  "update_hello db_ok i os arch agent s = (case map_of (ns_items s) i of
     None \<Rightarrow> s
   | Some _ \<Rightarrow> update_row db_ok i (\<lambda>row. row\<lparr>nr_os := os, nr_arch := arch, nr_agent := agent\<rparr>)
       (update_item i (\<lambda>r. r\<lparr>rt_os := (if os \<noteq> [] then os else rt_os r),
          rt_arch := (if arch \<noteq> [] then arch else rt_arch r),
          rt_agent := (if agent \<noteq> [] then agent else rt_agent r)\<rparr>) s))"

definition touch_node :: "bool \<Rightarrow> go_time \<Rightarrow> uuid \<Rightarrow> node_store \<Rightarrow> node_store" where
  "touch_node db_ok now i s = (case map_of (ns_items s) i of
     None \<Rightarrow> s
   | Some r \<Rightarrow>
       let write = last_seen_write_interval \<le> now - rt_last_write r;
           s1 = update_item i (\<lambda>r. r\<lparr>rt_last_seen := now, rt_state := NodeOnline, rt_connected := True,
                  rt_last_write := (if write then now else rt_last_write r)\<rparr>) s
       in if write then update_row db_ok i (\<lambda>row. row\<lparr>nr_last_seen := now\<rparr>) s1 else s1)"

definition disconnect_node :: "uuid \<Rightarrow> node_store \<Rightarrow> node_store" where
  "disconnect_node i s = update_item i (\<lambda>r. r\<lparr>rt_connected := False\<rparr>) s"

definition node_state_of :: "uuid \<Rightarrow> node_store \<Rightarrow> node_state" where
  "node_state_of i s = (case map_of (ns_items s) i of Some r \<Rightarrow> rt_state r | None \<Rightarrow> NodeOffline)"

definition node_online :: "uuid \<Rightarrow> node_store \<Rightarrow> bool" where
  "node_online i s \<longleftrightarrow> node_state_of i s = NodeOnline"

definition wanted_state :: "node_store \<Rightarrow> go_time \<Rightarrow> runtime \<Rightarrow> node_state" where
  "wanted_state s now r =
     (if ns_offline_after s \<le> now - rt_last_seen r then NodeOffline
      else if ns_unstable_after s \<le> now - rt_last_seen r then NodeUnstable
      else NodeOnline)"

definition evaluate_nodes :: "go_time \<Rightarrow> node_store \<Rightarrow> (uuid \<times> node_state) list \<times> node_store" where
  "evaluate_nodes now s =
     ([(i, wanted_state s now r). (i, r) \<leftarrow> ns_items s, wanted_state s now r \<noteq> rt_state r],
      s\<lparr>ns_items := map (\<lambda>(i, r). (i, r\<lparr>rt_state := wanted_state s now r\<rparr>)) (ns_items s)\<rparr>)"

section \<open>The registry of configured nodes\<close>

record node_config =
  nc_name :: string
  nc_host :: string
  nc_region :: string
  nc_labels :: "(string \<times> string) list"

record node =
  nd_name :: string
  nd_host :: string
  nd_region :: string
  nd_labels :: "(string \<times> string) list"
  nd_id :: uuid

record registry =
  reg_nodes :: "(string \<times> node) list"
  reg_order :: "string list"

definition node_of_config :: "node_config \<Rightarrow> node" where
  "node_of_config n = \<lparr>nd_name = nc_name n, nd_host = nc_host n, nd_region = nc_region n, nd_labels = nc_labels n, nd_id = []\<rparr>"

definition new_registry :: "node_config list \<Rightarrow> registry" where
  "new_registry cfg = (let named = filter (\<lambda>n. nc_name n \<noteq> []) cfg in
     \<lparr>reg_nodes = fold (\<lambda>n. AList.update (nc_name n) (node_of_config n)) named [],
      reg_order = map nc_name named\<rparr>)"

definition all_nodes :: "registry \<Rightarrow> node list" where
  "all_nodes reg = List.map_filter (map_of (reg_nodes reg)) (reg_order reg)"

definition registry_get :: "registry \<Rightarrow> string \<Rightarrow> node option" where
  "registry_get reg name = map_of (reg_nodes reg) name"

definition registry_by_id :: "registry \<Rightarrow> uuid \<Rightarrow> node option" where
  "registry_by_id reg i = find (\<lambda>n. nd_id n = i) (map snd (reg_nodes reg))"

definition registry_bind :: "string \<Rightarrow> uuid \<Rightarrow> registry \<Rightarrow> registry" where
  "registry_bind name i reg = reg\<lparr>reg_nodes := AList.map_entry name (\<lambda>n. n\<lparr>nd_id := i\<rparr>) (reg_nodes reg)\<rparr>"

definition online :: "node_store \<Rightarrow> node \<Rightarrow> bool" where
  "online s n \<longleftrightarrow> nd_id n \<noteq> [] \<and> node_online (nd_id n) s"

section \<open>Runs\<close>

text \<open>Every event carries whether the database accepted its statement. A restart is a new store with
the same configuration, loaded from the table.\<close>

datatype node_event =
    NEnsure bool go_time "string option" uuid hello
  | NRevoke bool uuid
  | NHello bool uuid string string string
  | NTouch bool go_time uuid
  | NDisconnect uuid
  | NEvaluate go_time
  | NRestart

fun node_step :: "(string \<Rightarrow> string) \<Rightarrow> node_store \<Rightarrow> node_event \<Rightarrow> node_store" where
  "node_step hash s (NEnsure ok now tok i h) = snd (ensure_node hash ok now tok i h s)"
| "node_step hash s (NRevoke ok i) = snd (revoke_node ok i s)"
| "node_step hash s (NHello ok i os arch ag) = update_hello ok i os arch ag s"
| "node_step hash s (NTouch ok now i) = touch_node ok now i s"
| "node_step hash s (NDisconnect i) = disconnect_node i s"
| "node_step hash s (NEvaluate now) = snd (evaluate_nodes now s)"
| "node_step hash s NRestart =
     load_nodes (new_node_store (ns_table s) (ns_unstable_after s) (ns_offline_after s))"

fun accepted :: "node_event \<Rightarrow> bool" where
  "accepted (NEnsure ok _ _ _ _) = ok"
| "accepted (NRevoke ok _) = ok"
| "accepted (NHello ok _ _ _ _) = ok"
| "accepted (NTouch ok _ _) = ok"
| "accepted _ = True"

section \<open>Credentials\<close>

text \<open>The contract of the store: each node has at most one valid credential, the last one issued, and
none after a revocation.\<close>

fun grant :: "bool \<Rightarrow> (uuid \<Rightarrow> string option) \<Rightarrow> node_event \<Rightarrow> uuid \<Rightarrow> string option" where
  "grant has_db a (NEnsure _ _ tok i _) = (case tok of None \<Rightarrow> a | Some c \<Rightarrow> a(i := Some c))"
| "grant has_db a (NRevoke _ i) = a(i := None)"
| "grant has_db a NRestart = (if has_db then a else (\<lambda>_. None))"
| "grant has_db a _ = a"

definition secret :: "runtime \<Rightarrow> bool \<times> string" where
  "secret r = (rt_revoked r, rt_hash r)"

definition row_secret :: "node_row \<Rightarrow> bool \<times> string" where
  "row_secret row = (nr_revoked row, nr_hash row)"

definition item_secret :: "node_store \<Rightarrow> uuid \<Rightarrow> (bool \<times> string) option" where
  "item_secret s i = map_option secret (map_of (ns_items s) i)"

definition table_secret :: "node_store \<Rightarrow> (uuid \<Rightarrow> (bool \<times> string) option) option" where
  "table_secret s = map_option (\<lambda>rows i. map_option row_secret (map_of rows i)) (ns_table s)"

definition admits :: "(string \<Rightarrow> string) \<Rightarrow> (bool \<times> string) option \<Rightarrow> string option \<Rightarrow> bool" where
  "admits hash x c \<longleftrightarrow> (case x of
     None \<Rightarrow> c = None
   | Some (revoked, h) \<Rightarrow> if revoked then c = None else (\<exists>k. c = Some k \<and> h = hash k))"

definition grants :: "(string \<Rightarrow> string) \<Rightarrow> (uuid \<Rightarrow> (bool \<times> string) option) \<Rightarrow> (uuid \<Rightarrow> string option) \<Rightarrow> bool" where
  "grants hash f a \<longleftrightarrow> (\<forall>i. admits hash (f i) (a i))"

definition node_sim :: "(string \<Rightarrow> string) \<Rightarrow> node_store \<Rightarrow> (uuid \<Rightarrow> string option) \<Rightarrow> bool" where
  "node_sim hash s a \<longleftrightarrow>
     grants hash (item_secret s) a \<and>
     (case ns_table s of None \<Rightarrow> True | Some rows \<Rightarrow> distinct (map fst rows) \<and> table_secret s = Some (item_secret s))"

lemma grants_upd:
  "grants hash f a \<Longrightarrow> grants hash (f(i := Some (False, hash c))) (a(i := Some c))"
  "grants hash f a \<Longrightarrow> grants hash (f(i := Some (True, h))) (a(i := None))"
  "grants hash f a \<Longrightarrow> f i = None \<Longrightarrow> grants hash f (a(i := None))"
  by (auto simp: grants_def admits_def)

text \<open>What the two kinds of update do to the secrets.\<close>

lemma update_item_secret:
  "item_secret (update_item i f s) =
     (item_secret s)(i := map_option (secret \<circ> f) (map_of (ns_items s) i))"
  "ns_table (update_item i f s) = ns_table s"
  by (auto simp: item_secret_def update_item_def map_of_map_entry_option fun_eq_iff option.map_comp)

lemma update_row_secret:
  "item_secret (update_row ok i f s) = item_secret s"
  "ns_items (update_row ok i f s) = ns_items s"
  "table_secret (update_row True i f s) =
     map_option (\<lambda>rows. (\<lambda>j. map_option row_secret (map_of rows j))(i := map_option (row_secret \<circ> f) (map_of rows i)))
       (ns_table s)"
  "ns_table (update_row True i f s) = map_option (AList.map_entry i f) (ns_table s)"
  by (auto simp: item_secret_def table_secret_def update_row_def map_of_map_entry_option fun_eq_iff
      option.map_comp map_option.compositionality intro!: option.map_cong0)

lemma keeps_secret:
  assumes "\<And>r. secret (f r) = secret r"
  shows "item_secret (update_item i f s) = item_secret s"
  using assms by (auto simp: update_item_secret item_secret_def fun_eq_iff comp_def)

lemma keeps_row_secret:
  assumes "\<And>row. row_secret (f row) = row_secret row"
  shows "table_secret (update_row ok i f s) = table_secret s"
  using assms
  by (auto simp: update_row_def table_secret_def map_of_map_entry_option fun_eq_iff option.map_comp
      comp_def intro!: option.map_cong0)

lemma restart_secret:
  assumes "node_sim hash s a"
  shows "node_sim hash (node_step hash s NRestart) (grant (ns_table s \<noteq> None) a NRestart)"
proof (cases "ns_table s")
  case (Some rows)
  with assms have d: "distinct (map fst rows)" and t: "item_secret s = (\<lambda>i. map_option row_secret (map_of rows i))"
    by (auto simp: node_sim_def table_secret_def)
  have "item_secret (node_step hash s NRestart) = (\<lambda>i. map_option row_secret (map_of rows i))"
    using d by (auto simp: Some load_nodes_def new_node_store_def item_secret_def fold_update_rows fun_eq_iff
        secret_def row_secret_def runtime_of_row_def split: option.splits)
  with assms Some d t show ?thesis
    by (simp add: node_sim_def table_secret_def load_nodes_def new_node_store_def)
next
  case None
  then show ?thesis
    by (simp add: node_sim_def load_nodes_def new_node_store_def item_secret_def grants_def admits_def)
qed

lemma ensured_facts [simp]:
  "secret (ensured hash now i h cred old) = (False, hash cred)"
  "rt_id (ensured hash now i h cred old) = (case old of None \<Rightarrow> i | Some r \<Rightarrow> rt_id r)"
  by (auto simp: ensured_def secret_def Let_def split: option.splits)

text \<open>The records keep their keys.\<close>

definition keyed :: "node_store \<Rightarrow> bool" where
  "keyed s \<longleftrightarrow> (\<forall>i r. map_of (ns_items s) i = Some r \<longrightarrow> rt_id r = i)"

lemma keyed_update_item:
  "keyed s \<Longrightarrow> (\<And>r. rt_id (f r) = rt_id r) \<Longrightarrow> keyed (update_item i f s)"
  "keyed (update_row ok i g s) = keyed s"
  by (auto simp: keyed_def update_item_def update_row_def map_of_map_entry_option split: if_splits)

lemma keyed_step: "keyed s \<Longrightarrow> keyed (node_step hash s e)"
proof (cases e)
  case (NEnsure ok now tok i h)
  assume "keyed s"
  show ?thesis
  proof (cases tok)
    case (Some c)
    have "ns_items (snd (ensure_node hash ok now tok i h s)) =
        AList.update i (ensured hash now i h c (map_of (ns_items s) i)) (ns_items s)"
      by (simp add: Some ensure_node_def Let_def persist_node_def split: option.split)
    with \<open>keyed s\<close> show ?thesis by (auto simp: NEnsure keyed_def split: option.splits)
  qed (simp add: NEnsure ensure_node_def \<open>keyed s\<close>)
next
  case NRestart
  then show ?thesis
  proof (cases "ns_table s")
    case (Some rows)
    have "rt_id r = i" if "map_of (fold (\<lambda>(i, row). AList.update i (runtime_of_row i row)) rows xs) i = Some r"
      and "\<And>i r. map_of xs i = Some r \<Longrightarrow> rt_id r = i" for xs i r
      using that
    proof (induction rows arbitrary: xs)
      case (Cons x rows)
      show ?case
        by (rule Cons.IH [OF Cons.prems(1) [simplified]])
          (use Cons.prems(2) in \<open>auto simp: runtime_of_row_def split: prod.splits if_splits\<close>)
    qed simp
    from this [of "[]"] show ?thesis
      by (simp add: NRestart Some keyed_def load_nodes_def new_node_store_def)
  qed (simp add: keyed_def load_nodes_def new_node_store_def)
next
  case (NEvaluate now)
  assume "keyed s"
  then show ?thesis
    by (auto simp: NEvaluate keyed_def evaluate_nodes_def map_of_map)
qed (auto simp: revoke_node_def update_hello_def touch_node_def disconnect_node_def Let_def
    keyed_update_item split: option.splits)

text \<open>Events that touch no credential leave both sides of the simulation as they are.\<close>

lemma frame_sim:
  "node_sim hash s a \<Longrightarrow> item_secret s' = item_secret s \<Longrightarrow> table_secret s' = table_secret s \<Longrightarrow>
   (\<And>rows. ns_table s' = Some rows \<Longrightarrow> distinct (map fst rows)) \<Longrightarrow> node_sim hash s' a"
  by (auto simp: node_sim_def table_secret_def split: option.splits)

lemma update_row_distinct:
  "ns_table (update_row ok i f s) = Some rows \<Longrightarrow>
   (\<And>rows. ns_table s = Some rows \<Longrightarrow> distinct (map fst rows)) \<Longrightarrow> distinct (map fst rows)"
  by (auto simp: update_row_def split: if_splits)

lemma sim_distinct: "node_sim hash s a \<Longrightarrow> ns_table s = Some rows \<Longrightarrow> distinct (map fst rows)"
  by (simp add: node_sim_def)

lemma ensure_sim:
  assumes "keyed s" and "node_sim hash s a"
  shows "node_sim hash (snd (ensure_node hash True now tok i h s)) (grant has_db a (NEnsure True now tok i h))"
proof (cases tok)
  case (Some c)
  let ?r = "ensured hash now i h c (map_of (ns_items s) i)"
  have id: "rt_id ?r = i" using assms(1) by (auto simp: keyed_def split: option.splits)
  have item: "item_secret (s\<lparr>ns_items := AList.update i ?r (ns_items s), ns_table := t\<rparr>) =
      (item_secret s)(i := Some (False, hash c))"
    "item_secret (s\<lparr>ns_items := AList.update i ?r (ns_items s)\<rparr>) =
      (item_secret s)(i := Some (False, hash c))" for t
    by (auto simp: item_secret_def fun_eq_iff)
  have g: "grants hash ((item_secret s)(i := Some (False, hash c))) (a(i := Some c))"
    using assms(2) by (simp add: node_sim_def grants_upd)
  show ?thesis
  proof (cases "ns_table s")
    case None
    then show ?thesis
      using g item by (simp add: Some ensure_node_def Let_def persist_node_def node_sim_def)
  next
    case rows: (Some rows)
    have eq: "item_secret s = (\<lambda>j. map_option row_secret (map_of rows j))"
      using assms(2) rows by (simp add: node_sim_def table_secret_def)
    let ?row = "persisted_row now (map_of rows i) ?r"
    have run: "snd (ensure_node hash True now tok i h s) =
        s\<lparr>ns_items := AList.update i ?r (ns_items s), ns_table := Some (AList.update i ?row rows)\<rparr>"
      by (simp add: Some rows ensure_node_def Let_def persist_node_def id del: ensured_facts)
    have "row_secret ?row = (False, hash c)"
      using ensured_facts(1) [of hash now i h c "map_of (ns_items s) i"]
      by (simp add: row_secret_def persisted_row_def secret_def)
    then have "table_secret (snd (ensure_node hash True now tok i h s)) =
        Some (item_secret (snd (ensure_node hash True now tok i h s)))"
      unfolding run by (auto simp: item table_secret_def eq fun_eq_iff)
    then show ?thesis
      using g sim_distinct [OF assms(2) rows]
      unfolding node_sim_def run by (simp add: item Some distinct_update)
  qed
qed (simp add: ensure_node_def assms)

lemma revoke_sim:
  assumes "node_sim hash s a"
  shows "node_sim hash (snd (revoke_node True i s)) (a(i := None))"
proof (cases "map_of (ns_items s) i")
  case None
  then have "item_secret s i = None" by (simp add: item_secret_def)
  with assms None show ?thesis by (auto simp: revoke_node_def node_sim_def grants_upd split: option.splits)
next
  case (Some r)
  have sec: "(secret \<circ> (\<lambda>r. r\<lparr>rt_revoked := True, rt_hash := []\<rparr>)) = (\<lambda>_. (True, []))"
    "(row_secret \<circ> (\<lambda>row. row\<lparr>nr_revoked := True, nr_hash := []\<rparr>)) = (\<lambda>_. (True, []))"
    by (auto simp: secret_def row_secret_def)
  have g: "grants hash ((item_secret s)(i := Some (True, []))) (a(i := None))"
    using assms by (simp add: node_sim_def grants_upd)
  show ?thesis
  proof (cases "ns_table s")
    case None
    then show ?thesis
      using g by (simp add: revoke_node_def Some node_sim_def update_row_secret update_item_secret sec)
  next
    case rows: (Some rows)
    have eq: "item_secret s = (\<lambda>j. map_option row_secret (map_of rows j))"
      using assms rows by (simp add: node_sim_def table_secret_def)
    then have "\<exists>row. map_of rows i = Some row"
      using Some by (cases "map_of rows i") (auto simp: item_secret_def fun_eq_iff dest!: spec [of _ i])
    then show ?thesis
      using g sim_distinct [OF assms rows]
      by (auto simp: revoke_node_def Some rows node_sim_def update_row_secret update_item_secret sec eq [symmetric]
          distinct_map_entry)
  qed
qed

lemma update_item_sim:
  "node_sim hash s a \<Longrightarrow> (\<And>r. secret (f r) = secret r) \<Longrightarrow> node_sim hash (update_item i f s) a"
  by (rule frame_sim) (auto simp: keeps_secret update_item_secret(2) table_secret_def sim_distinct)

lemma update_row_sim:
  "node_sim hash s a \<Longrightarrow> (\<And>row. row_secret (g row) = row_secret row) \<Longrightarrow> node_sim hash (update_row ok i g s) a"
  by (rule frame_sim) (auto simp: keeps_row_secret update_row_secret(1) intro: update_row_distinct sim_distinct)

lemma evaluate_sim: "node_sim hash s a \<Longrightarrow> node_sim hash (snd (evaluate_nodes now s)) a"
  by (rule frame_sim)
    (auto simp: item_secret_def evaluate_nodes_def map_of_map fun_eq_iff option.map_comp secret_def
      table_secret_def sim_distinct intro!: option.map_cong0)

lemma step_sim:
  assumes "accepted e" and "keyed s" and "node_sim hash s a"
  shows "node_sim hash (node_step hash s e) (grant (ns_table s \<noteq> None) a e)"
proof (cases e)
  case (NEnsure ok now tok i h)
  with assms ensure_sim show ?thesis by simp
next
  case (NRevoke ok i)
  with assms revoke_sim show ?thesis by simp
next
  case NRestart
  with restart_secret [OF assms(3)] show ?thesis by simp
next
  case (NEvaluate now)
  with evaluate_sim assms(3) show ?thesis by simp
qed (auto simp: assms(3) update_hello_def touch_node_def disconnect_node_def Let_def secret_def row_secret_def
    intro!: update_row_sim update_item_sim split: option.split)

lemma step_has_db: "(ns_table (node_step hash s e) = None) = (ns_table s = None)"
proof (cases e)
  case (NEnsure ok now tok i h)
  then show ?thesis
    by (cases tok) (auto simp: ensure_node_def Let_def persist_node_def split: option.split)
next
  case NRestart
  then show ?thesis by (cases "ns_table s") (simp_all add: load_nodes_def new_node_store_def)
qed (auto simp: revoke_node_def update_hello_def touch_node_def disconnect_node_def evaluate_nodes_def Let_def
    update_row_def update_item_def split: option.split)

text \<open>Both invariants as one machine.\<close>

interpretation node_machine: machine "node_step hash" keyed
  by unfold_locales (rule keyed_step)

lemma run_sim:
  "keyed s \<Longrightarrow> node_sim hash s a \<Longrightarrow> list_all accepted es \<Longrightarrow>
   node_sim hash (foldl (node_step hash) s es) (foldl (grant (ns_table s \<noteq> None)) a es)"
proof (induction es arbitrary: s a)
  case (Cons e es)
  have "node_sim hash (node_step hash s e) (grant (ns_table s \<noteq> None) a e)"
    using Cons.prems by (intro step_sim) simp_all
  with Cons.IH [OF keyed_step [OF Cons.prems(1)] this] Cons.prems(3) show ?case
    by (simp add: step_has_db)
qed simp

text \<open>Property C33. Only the credential issued last opens a session. In a run of the container manager
that begins with an empty table, or without a database, and whose statements the database accepts,
agents may enrol, be revoked, say hello, be heard, disconnect and time out, and the container manager
may restart; at its end a credential is accepted for a node exactly when it is the last one issued
to that node and the node was not revoked since (nor, without a database, forgotten in a restart).
The hash is assumed to tell the credentials apart and never to be empty.\<close>

theorem only_the_last_credential_works:
  assumes "db = None \<or> db = Some []" and "list_all accepted es"
    and "inj hash" and "\<And>c. hash c \<noteq> []"
  shows "verify_credential hash i cred (foldl (node_step hash) (new_node_store db u f) es) = None \<longleftrightarrow>
         foldl (grant (db \<noteq> None)) (\<lambda>_. None) es i = Some cred"
proof -
  let ?s = "foldl (node_step hash) (new_node_store db u f) es"
  let ?a = "foldl (grant (db \<noteq> None)) (\<lambda>_. None) es"
  have "ns_table (new_node_store db u f) = db" by (simp add: new_node_store_def)
  moreover have "keyed (new_node_store db u f)" by (simp add: keyed_def new_node_store_def)
  moreover have "node_sim hash (new_node_store db u f) (\<lambda>_. None)"
    using assms(1)
    by (auto simp: node_sim_def grants_def admits_def item_secret_def table_secret_def new_node_store_def
        fun_eq_iff)
  ultimately have "node_sim hash ?s ?a"
    using run_sim [of "new_node_store db u f" hash "\<lambda>_. None" es] assms(2) by simp
  then have "admits hash (item_secret ?s i) (?a i)" by (simp add: node_sim_def grants_def)
  then show ?thesis
    using assms(3) assms(4) [of cred] assms(4) [of cred, THEN not_sym]
    by (auto simp: admits_def item_secret_def secret_def verify_credential_def inj_eq
        split: option.splits if_splits)
qed

lemma only_the_last_credential_works_witness:
  "let hash = (\<lambda>c. ''h'' @ c);
       h = \<lparr>he_name = ''n1'', he_os = [], he_arch = [], he_agent = []\<rparr>;
       es = [NEnsure True 5 (Some ''a'') ''id'' h, NTouch True 9 ''id'', NEnsure True 12 (Some ''b'') ''id'' h, NRestart];
       s = foldl (node_step hash) (new_node_store (Some []) 0 0) es
   in verify_credential hash ''id'' ''b'' s = None \<and> verify_credential hash ''id'' ''a'' s \<noteq> None"
proof -
  let ?h = "\<lambda>c. ''h'' @ c"
  let ?es = "[NEnsure True 5 (Some ''a'') ''id'' \<lparr>he_name = ''n1'', he_os = [], he_arch = [], he_agent = []\<rparr>,
    NTouch True 9 ''id'', NEnsure True 12 (Some ''b'') ''id'' \<lparr>he_name = ''n1'', he_os = [], he_arch = [], he_agent = []\<rparr>,
    NRestart]"
  have db: "(Some [] :: (uuid \<times> node_row) list option) = None \<or> Some [] = Some ([] :: (uuid \<times> node_row) list)"
    by simp
  have acc: "list_all accepted ?es" by simp
  have inj: "inj ?h" by (simp add: inj_def)
  have ne: "?h c \<noteq> []" for c by simp
  have last: "foldl (grant (Some [] \<noteq> (None :: (uuid \<times> node_row) list option))) (\<lambda>_. None) ?es ''id'' = Some ''b''" by simp
  have "verify_credential ?h ''id'' c (foldl (node_step ?h) (new_node_store (Some []) 0 0) ?es) = None \<longleftrightarrow>
      Some ''b'' = Some c" for c
    unfolding only_the_last_credential_works [OF db acc inj ne] last ..
  then show ?thesis unfolding Let_def by (simp only: option.inject list.inject char.inject) simp
qed

section \<open>Where the code departs from its documentation\<close>

text \<open>\<open>Revoke\<close> drops the error of its UPDATE. When the database refuses it, the node is shut out until
the container manager restarts, and its revoked credential is valid again from then on.\<close>

lemma refused_revocation_is_undone_by_a_restart:
  assumes "ns_table s = Some rows" and "distinct (map fst rows)" and "map_of rows i = Some row"
    and "\<not> nr_revoked row" and "nr_hash row = hash c" and "hash c \<noteq> []"
  shows "verify_credential hash i c (foldl (node_step hash) s [NRevoke False i, NRestart]) = None"
proof -
  have "ns_table (node_step hash s (NRevoke False i)) = Some rows"
    using assms(1) by (auto simp: revoke_node_def update_row_def update_item_def split: option.split)
  then show ?thesis
    using assms
    by (simp add: verify_credential_def load_nodes_def new_node_store_def fold_update_rows runtime_of_row_def
        map_of_eq_Some_iff)
qed

text \<open>\<open>UpdateHello\<close> keeps the fields a greeting leaves empty, but writes the empty strings to the table,
so that a restart forgets them.\<close>

lemma empty_greeting_erases_the_row:
  assumes "map_of (ns_items s) i = Some r" and "ns_table s = Some rows" and "map_of rows i = Some row"
  shows "map_option rt_os (map_of (ns_items (update_hello True i [] [] [] s)) i) = Some (rt_os r) \<and>
         map_option (\<lambda>t. map_option nr_os (map_of t i)) (ns_table (update_hello True i [] [] [] s)) = Some (Some [])"
  using assms by (simp add: update_hello_def update_row_def update_item_def map_of_map_entry_option)

text \<open>A node counts as on line until it has been silent for the unstable period, whether or not its
session is gone.\<close>

lemma disconnected_node_stays_online: "node_online i (disconnect_node i s) = node_online i s"
  by (simp add: node_online_def node_state_of_def disconnect_node_def update_item_def map_of_map_entry_option
      split: option.split)

text \<open>The registry answers its nodes in the order of the configuration, under their names.\<close>

definition registry_ok :: "registry \<Rightarrow> bool" where
  "registry_ok reg \<longleftrightarrow> (\<forall>n nd. map_of (reg_nodes reg) n = Some nd \<longrightarrow> nd_name nd = n)"

lemma fold_config_names:
  "map_of (fold (\<lambda>n. AList.update (nc_name n) (node_of_config n)) cs xs) n = Some nd \<Longrightarrow>
   (\<And>n nd. map_of xs n = Some nd \<Longrightarrow> nd_name nd = n) \<Longrightarrow> nd_name nd = n"
proof (induction cs arbitrary: xs)
  case (Cons c cs)
  show ?case
    by (rule Cons.IH [OF Cons.prems(1) [simplified]])
      (use Cons.prems(2) in \<open>auto simp: node_of_config_def split: if_splits\<close>)
qed simp

lemma registry_ok_new: "registry_ok (new_registry cfg)"
  using fold_config_names [of _ "[]"]
  by (simp add: registry_ok_def new_registry_def Let_def)

lemma registry_ok_bind: "registry_ok reg \<Longrightarrow> registry_ok (registry_bind name i reg)"
  by (auto simp: registry_ok_def registry_bind_def map_of_map_entry_option split: if_splits)

lemma all_nodes_names: "registry_ok reg \<Longrightarrow> n \<in> set (all_nodes reg) \<Longrightarrow> registry_get reg (nd_name n) = Some n"
  by (auto simp: all_nodes_def registry_ok_def registry_get_def List.map_filter_def)

end
