(* ===== verification/Desired.thy ===== *)
theory Desired
  imports Gateway_Prelude
begin

text \<open>
  The desired states the gateway hands to the container manager
  (\<open>containermanager/desired/store.go\<close>): one per deployment, with the progress of its orchestration and
  the instances an operator has stopped by hand. The table \<open>cm_deployments\<close> is an association list of
  rows keyed by deployment, None without a database. What a JSONB column makes of the resources text
  is a parameter; maps and mounts come back from their columns as they were written.
\<close>

record mount =
  mt_path :: string
  mt_target :: string
  mt_read_only :: bool

record dstate =
  ds_deployment :: uuid
  ds_service :: uuid
  ds_version_id :: uuid
  ds_project :: "uuid option"
  ds_version :: string
  ds_status :: string
  ds_image :: string
  ds_replicas :: int
  ds_port :: int
  ds_env :: "(string \<times> string) list"
  ds_resources :: string
  ds_health_path :: string
  ds_selector :: "(string \<times> string) list"
  ds_strategy :: string
  ds_mounts :: "mount list"

record dphase =
  ph_status :: string
  ph_message :: string

record dep_row =
  dr_state :: dstate
  dr_phase :: dphase
  dr_stopped :: bool

record desired_store =
  de_table :: "(uuid \<times> dep_row) list option"
  de_states :: "(uuid \<times> dstate) list"
  de_phases :: "(uuid \<times> dphase) list"
  de_paused :: "(string \<times> uuid) list"

definition new_desired :: "(uuid \<times> dep_row) list option \<Rightarrow> desired_store" where
  "new_desired db = \<lparr>de_table = db, de_states = [], de_phases = [], de_paused = []\<rparr>"

definition load_dep_row :: "uuid \<times> dep_row \<Rightarrow> desired_store \<Rightarrow> desired_store" where
  "load_dep_row x s = (case x of (d, row) \<Rightarrow>
     s\<lparr>de_states := (if dr_stopped row then de_states s else AList.update d (dr_state row) (de_states s)),
       de_phases := AList.update d (dr_phase row) (de_phases s)\<rparr>)"

definition load_desired :: "desired_store \<Rightarrow> desired_store" where
  "load_desired s = (case de_table s of None \<Rightarrow> s | Some rows \<Rightarrow> fold load_dep_row rows s)"

definition persisted :: "(string \<Rightarrow> string) \<Rightarrow> dstate \<Rightarrow> dep_row" where
  "persisted jsonb st =
     \<lparr>dr_state = st\<lparr>ds_resources := jsonb (if ds_resources st = [] then ''null'' else ds_resources st)\<rparr>,
      dr_phase = \<lparr>ph_status = ''pending'', ph_message = []\<rparr>, dr_stopped = False\<rparr>"

definition persist_desired :: "(string \<Rightarrow> string) \<Rightarrow> bool \<Rightarrow> dstate \<Rightarrow> desired_store \<Rightarrow> desired_store" where
  "persist_desired jsonb ok st s =
     (if ok then s\<lparr>de_table := map_option (AList.update (ds_deployment st) (persisted jsonb st)) (de_table s)\<rparr> else s)"

definition put_desired :: "(string \<Rightarrow> string) \<Rightarrow> bool \<Rightarrow> dstate \<Rightarrow> desired_store \<Rightarrow> desired_store" where
  "put_desired jsonb ok st s = persist_desired jsonb ok st
     (s\<lparr>de_states := AList.update (ds_deployment st) st (de_states s),
        de_phases := AList.update (ds_deployment st) \<lparr>ph_status = ''pending'', ph_message = []\<rparr> (de_phases s)\<rparr>)"

definition get_desired :: "uuid \<Rightarrow> desired_store \<Rightarrow> dstate option" where
  "get_desired d s = map_of (de_states s) d"

definition update_dep_row :: "bool \<Rightarrow> uuid \<Rightarrow> (dep_row \<Rightarrow> dep_row) \<Rightarrow> desired_store \<Rightarrow> desired_store" where
  "update_dep_row ok d f s =
     (if ok then s\<lparr>de_table := map_option (AList.map_entry d f) (de_table s)\<rparr> else s)"

definition stop_desired :: "bool \<Rightarrow> uuid \<Rightarrow> desired_store \<Rightarrow> desired_store" where
  "stop_desired ok d s = update_dep_row ok d
     (\<lambda>row. row\<lparr>dr_phase := (dr_phase row)\<lparr>ph_status := ''stopped''\<rparr>, dr_stopped := True\<rparr>)
     (s\<lparr>de_states := AList.delete d (de_states s),
        de_phases := AList.update d \<lparr>ph_status = ''stopped'', ph_message = []\<rparr> (de_phases s)\<rparr>)"

definition phase_of :: "uuid \<Rightarrow> desired_store \<Rightarrow> dphase" where
  "phase_of d s = (case map_of (de_phases s) d of
     Some p \<Rightarrow> p | None \<Rightarrow> \<lparr>ph_status = ''unknown'', ph_message = []\<rparr>)"

definition set_phase :: "bool \<Rightarrow> uuid \<Rightarrow> dphase \<Rightarrow> desired_store \<Rightarrow> desired_store" where
  "set_phase ok d p s = update_dep_row ok d (\<lambda>row. row\<lparr>dr_phase := p\<rparr>)
     (s\<lparr>de_phases := AList.update d p (de_phases s)\<rparr>)"

definition all_desired :: "desired_store \<Rightarrow> dstate list" where
  "all_desired s = map snd (de_states s)"

definition pause_instance :: "string \<Rightarrow> uuid \<Rightarrow> desired_store \<Rightarrow> desired_store" where
  "pause_instance i v s = s\<lparr>de_paused := AList.update i v (de_paused s)\<rparr>"

definition resume_instance :: "string \<Rightarrow> desired_store \<Rightarrow> desired_store" where
  "resume_instance i s = s\<lparr>de_paused := AList.delete i (de_paused s)\<rparr>"

section \<open>Runs, and what a restart keeps\<close>

datatype desired_event =
    DPut bool dstate
  | DStop bool uuid
  | DPhase bool uuid dphase
  | DPause string uuid
  | DResume string

fun desired_step :: "(string \<Rightarrow> string) \<Rightarrow> desired_store \<Rightarrow> desired_event \<Rightarrow> desired_store" where
  "desired_step jsonb s (DPut ok st) = put_desired jsonb ok st s"
| "desired_step jsonb s (DStop ok d) = stop_desired ok d s"
| "desired_step jsonb s (DPhase ok d p) = set_phase ok d p s"
| "desired_step jsonb s (DPause i v) = pause_instance i v s"
| "desired_step jsonb s (DResume i) = resume_instance i s"

fun stored :: "desired_event \<Rightarrow> bool" where
  "stored (DPut ok _) = ok"
| "stored (DStop ok _) = ok"
| "stored (DPhase ok _ _) = ok"
| "stored _ = True"

definition restart_desired :: "desired_store \<Rightarrow> desired_store" where
  "restart_desired s = load_desired (new_desired (de_table s))"

text \<open>What the table remembers of a state, and what it says is running.\<close>

definition normal :: "(string \<Rightarrow> string) \<Rightarrow> dstate \<Rightarrow> dstate" where
  "normal jsonb st = st\<lparr>ds_resources := jsonb (if ds_resources st = [] then ''null'' else ds_resources st)\<rparr>"

definition row_live :: "dep_row \<Rightarrow> dstate option" where
  "row_live row = (if dr_stopped row then None else Some (dr_state row))"

text \<open>The states are keyed by their deployment, the rows have distinct keys, and the rows that are not
stopped are the states, up to the column's rendering of the resources.\<close>

definition desired_inv :: "(string \<Rightarrow> string) \<Rightarrow> desired_store \<Rightarrow> bool" where
  "desired_inv jsonb s \<longleftrightarrow>
     distinct (map fst (de_states s)) \<and>
     (\<forall>d st. map_of (de_states s) d = Some st \<longrightarrow> ds_deployment st = d) \<and>
     (\<forall>rows. de_table s = Some rows \<longrightarrow>
        distinct (map fst rows) \<and>
        (\<forall>d. Option.bind (map_of rows d) row_live = map_option (normal jsonb) (map_of (de_states s) d)))"

lemma row_live_persisted [simp]: "row_live (persisted jsonb st) = Some (normal jsonb st)"
  by (simp add: row_live_def persisted_def normal_def)

lemma desired_invI:
  assumes "distinct (map fst (de_states s))"
    and "\<And>d st. map_of (de_states s) d = Some st \<Longrightarrow> ds_deployment st = d"
    and "\<And>rows. de_table s = Some rows \<Longrightarrow> distinct (map fst rows)"
    and "\<And>rows d. de_table s = Some rows \<Longrightarrow>
           Option.bind (map_of rows d) row_live = map_option (normal jsonb) (map_of (de_states s) d)"
  shows "desired_inv jsonb s"
  using assms by (simp add: desired_inv_def)

lemma put_desired_inv: "desired_inv jsonb s \<Longrightarrow> desired_inv jsonb (put_desired jsonb True st s)"
  by (rule desired_invI)
    (auto simp: put_desired_def persist_desired_def desired_inv_def distinct_update split: if_splits)

lemma row_live_update [simp]:
  "row_live (row\<lparr>dr_phase := q, dr_stopped := True\<rparr>) = None"
  "row_live (row\<lparr>dr_phase := q\<rparr>) = row_live row"
  by (simp_all add: row_live_def)

lemma stop_desired_inv:
  assumes "desired_inv jsonb s"
  shows "desired_inv jsonb (stop_desired True d s)"
proof (rule desired_invI)
  show "Option.bind (map_of rows k) row_live = map_option (normal jsonb) (map_of (de_states (stop_desired True d s)) k)"
    if "de_table (stop_desired True d s) = Some rows" for rows k
  proof -
    from that obtain z where z: "de_table s = Some z"
      and rows: "rows = AList.map_entry d (\<lambda>row. row\<lparr>dr_phase := (dr_phase row)\<lparr>ph_status := ''stopped''\<rparr>, dr_stopped := True\<rparr>) z"
      by (auto simp: stop_desired_def update_dep_row_def)
    have "Option.bind (map_of z k) row_live = map_option (normal jsonb) (map_of (de_states s) k)"
      using assms z by (simp add: desired_inv_def)
    then show ?thesis
      by (cases "map_of z d") (auto simp: rows map_of_map_entry_option stop_desired_def update_dep_row_def)
  qed
qed (use assms in \<open>auto simp: stop_desired_def update_dep_row_def desired_inv_def distinct_delete split: if_splits\<close>)

lemma set_phase_inv:
  assumes "desired_inv jsonb s"
  shows "desired_inv jsonb (set_phase True d p s)"
proof (rule desired_invI)
  show "Option.bind (map_of rows k) row_live = map_option (normal jsonb) (map_of (de_states (set_phase True d p s)) k)"
    if "de_table (set_phase True d p s) = Some rows" for rows k
    using that assms
    by (cases "k = d") (auto simp: set_phase_def update_dep_row_def desired_inv_def map_of_map_entry_option
        bind_map_option comp_def)
qed (use assms in \<open>auto simp: set_phase_def update_dep_row_def desired_inv_def\<close>)

lemma pause_inv:
  "desired_inv jsonb (s\<lparr>de_paused := p\<rparr>) = desired_inv jsonb s"
  by (simp add: desired_inv_def)

lemma desired_step_inv: "stored e \<Longrightarrow> desired_inv jsonb s \<Longrightarrow> desired_inv jsonb (desired_step jsonb s e)"
  by (cases e) (auto simp: put_desired_inv stop_desired_inv set_phase_inv pause_instance_def resume_instance_def
      pause_inv simp del: map_of_eq_Some_iff)

text \<open>The phase of every row is the phase in memory; only the message of a stopped deployment differs.\<close>

definition phases_inv :: "desired_store \<Rightarrow> bool" where
  "phases_inv s \<longleftrightarrow> (\<forall>rows. de_table s = Some rows \<longrightarrow>
     (\<forall>d row. map_of rows d = Some row \<longrightarrow>
        (\<exists>p. map_of (de_phases s) d = Some p \<and> ph_status p = ph_status (dr_phase row))))"

lemma phases_step: "stored e \<Longrightarrow> phases_inv s \<Longrightarrow> phases_inv (desired_step jsonb s e)"
  by (cases e) (auto simp: phases_inv_def put_desired_def persist_desired_def persisted_def stop_desired_def
      set_phase_def update_dep_row_def pause_instance_def resume_instance_def map_of_map_entry_option
      simp del: map_of_eq_Some_iff)

lemma step_has_table: "(de_table (desired_step jsonb s e) = None) = (de_table s = None)"
  by (cases e) (auto simp: put_desired_def persist_desired_def stop_desired_def set_phase_def
      update_dep_row_def pause_instance_def resume_instance_def)

interpretation desired_run: machine "\<lambda>s e. if stored e then desired_step jsonb s e else s"
  "\<lambda>s. desired_inv jsonb s \<and> phases_inv s \<and> de_table s \<noteq> None"
proof (unfold_locales)
  fix s e assume "desired_inv jsonb s \<and> phases_inv s \<and> de_table s \<noteq> None"
  then show "desired_inv jsonb (if stored e then desired_step jsonb s e else s) \<and>
      phases_inv (if stored e then desired_step jsonb s e else s) \<and>
      de_table (if stored e then desired_step jsonb s e else s) \<noteq> None"
    using step_has_table [of jsonb s e]
    by (cases "stored e") (simp_all add: desired_step_inv phases_step del: not_None_eq)
qed

lemma run_invs:
  assumes "list_all stored es" and "desired_inv jsonb s \<and> phases_inv s \<and> de_table s \<noteq> None"
  shows "desired_inv jsonb (foldl (desired_step jsonb) s es) \<and> phases_inv (foldl (desired_step jsonb) s es) \<and>
         de_table (foldl (desired_step jsonb) s es) \<noteq> None"
proof -
  have "foldl (\<lambda>s e. if stored e then desired_step jsonb s e else s) s es = foldl (desired_step jsonb) s es"
    using assms(1) by (induction es arbitrary: s) simp_all
  with desired_run.mrun_inv [OF assms(2), of es] show ?thesis by simp
qed

lemma fold_load_states:
  "distinct (map fst rows) \<Longrightarrow>
   map_of (de_states (fold load_dep_row rows s)) d =
     (case Option.bind (map_of rows d) row_live of None \<Rightarrow> map_of (de_states s) d | Some st \<Rightarrow> Some st)"
proof (induction rows arbitrary: s)
  case (Cons x rows)
  obtain k row where x: "x = (k, row)" by (cases x)
  with Cons.prems have "map_of rows k = None" by (simp add: map_of_eq_None_iff)
  with Cons x show ?case by (auto simp: load_dep_row_def row_live_def split: option.splits)
qed simp

lemma fold_load_phases:
  "distinct (map fst rows) \<Longrightarrow>
   map_of (de_phases (fold load_dep_row rows s)) d =
     (case map_of rows d of None \<Rightarrow> map_of (de_phases s) d | Some row \<Rightarrow> Some (dr_phase row))"
proof (induction rows arbitrary: s)
  case (Cons x rows)
  obtain k row where x: "x = (k, row)" by (cases x)
  with Cons.prems have "map_of rows k = None" by (simp add: map_of_eq_None_iff)
  with Cons x show ?case by (auto simp: load_dep_row_def split: option.splits)
qed simp

lemma fold_load_paused: "de_paused (fold load_dep_row rows s) = de_paused s"
  by (induction rows arbitrary: s) (simp_all add: load_dep_row_def split: prod.split)

text \<open>Property C34. The desired states survive a restart of the container manager: after any run that
began with an empty table and whose statements the database accepted, the restarted store holds the
same state for every deployment (its resources as the JSONB column renders them, an empty text as
null), for the same deployments, and reports the same phase for each of them. Only the marks of
instances stopped by hand are gone.\<close>

theorem desired_states_survive_a_restart:
  assumes "list_all stored es" and "s = foldl (desired_step jsonb) (new_desired (Some [])) es"
  shows "get_desired d (restart_desired s) = map_option (normal jsonb) (get_desired d s) \<and>
         (get_desired d s \<noteq> None \<longrightarrow>
            ph_status (phase_of d (restart_desired s)) = ph_status (phase_of d s)) \<and>
         de_paused (restart_desired s) = []"
proof -
  have "desired_inv jsonb s \<and> phases_inv s \<and> de_table s \<noteq> None"
    unfolding assms(2)
    by (rule run_invs [OF assms(1)]) (simp add: desired_inv_def phases_inv_def new_desired_def)
  then obtain rows where rows: "de_table s = Some rows" and inv: "desired_inv jsonb s" and ph: "phases_inv s"
    by auto
  from inv rows have dist: "distinct (map fst rows)"
    and live: "Option.bind (map_of rows d) row_live = map_option (normal jsonb) (map_of (de_states s) d)"
    by (simp_all add: desired_inv_def)
  have re: "restart_desired s = fold load_dep_row rows (new_desired (Some rows))"
    by (simp add: restart_desired_def load_desired_def new_desired_def rows)
  have eq: "get_desired d (restart_desired s) = map_option (normal jsonb) (get_desired d s)"
    unfolding re get_desired_def fold_load_states [OF dist] live
    by (simp add: new_desired_def split: option.split)
  have "ph_status (phase_of d (restart_desired s)) = ph_status (phase_of d s)" if "get_desired d s = Some st" for st
  proof -
    from that live obtain row where row: "map_of rows d = Some row"
      by (cases "map_of rows d") (auto simp: get_desired_def)
    with ph rows obtain p where "map_of (de_phases s) d = Some p" "ph_status p = ph_status (dr_phase row)"
      unfolding phases_inv_def by blast
    with row show ?thesis
      unfolding re phase_of_def fold_load_phases [OF dist] by simp
  qed
  with eq show ?thesis
    by (auto simp: re fold_load_paused new_desired_def)
qed

lemma desired_states_survive_a_restart_witness:
  "let st = \<lparr>ds_deployment = ''d'', ds_service = ''s'', ds_version_id = ''v'', ds_project = None,
         ds_version = ''1'', ds_status = [], ds_image = ''img'', ds_replicas = 2, ds_port = 80, ds_env = [],
         ds_resources = [], ds_health_path = [], ds_selector = [], ds_strategy = [], ds_mounts = []\<rparr>;
       s = foldl (desired_step (\<lambda>x. x)) (new_desired (Some [])) [DPut True st, DPause ''i'' ''v'', DStop True ''e'']
   in get_desired ''d'' (restart_desired s) = Some (st\<lparr>ds_resources := ''null''\<rparr>) \<and>
      de_paused s \<noteq> [] \<and> de_paused (restart_desired s) = []"
proof -
  let ?st = "\<lparr>ds_deployment = ''d'', ds_service = ''s'', ds_version_id = ''v'', ds_project = None,
         ds_version = ''1'', ds_status = [], ds_image = ''img'', ds_replicas = 2, ds_port = 80, ds_env = [],
         ds_resources = [], ds_health_path = [], ds_selector = [], ds_strategy = [], ds_mounts = []\<rparr>"
  let ?es = "[DPut True ?st, DPause ''i'' ''v'', DStop True ''e'']"
  let ?s = "foldl (desired_step (\<lambda>x. x)) (new_desired (Some [])) ?es"
  have "list_all stored ?es" by simp
  from desired_states_survive_a_restart [OF this refl, of "''d''" "\<lambda>x. x"]
  have re: "get_desired ''d'' (restart_desired ?s) = map_option (normal (\<lambda>x. x)) (get_desired ''d'' ?s)"
    and paused: "de_paused (restart_desired ?s) = []" by blast+
  have st: "get_desired ''d'' ?s = Some ?st" "de_paused ?s \<noteq> []"
    by (simp_all add: get_desired_def put_desired_def persist_desired_def pause_instance_def stop_desired_def
        update_dep_row_def new_desired_def)
  have "get_desired ''d'' (restart_desired ?s) = Some (?st\<lparr>ds_resources := ''null''\<rparr>)"
    unfolding re st(1) by (simp add: normal_def)
  with paused st(2) show ?thesis unfolding Let_def by blast
qed

end
