(* ===== verification/Rollout.thy ===== *)
theory Rollout
  imports Nodes Desired "HOL-Library.List_Lexorder" "HOL-Library.Char_ord"
begin

text \<open>
  Where replicas go and in which order they change: the scheduler
  (\<open>containermanager/scheduler/scheduler.go\<close>) and the plan of a round
  (\<open>containermanager/rollout/rollout.go\<close>). The scheduler's in-place insertion sort is the loop of the
  code on a list of indices, and is shown to be the stable sort.
\<close>

section \<open>The scheduler\<close>

definition label_of :: "(string \<times> string) list \<Rightarrow> string \<Rightarrow> string" where
  "label_of labels k = (case map_of labels k of Some v \<Rightarrow> v | None \<Rightarrow> [])"

definition matches_selector :: "(string \<times> string) list \<Rightarrow> (string \<times> string) list \<Rightarrow> bool" where
  "matches_selector labels selector \<longleftrightarrow> list_all (\<lambda>(k, v). label_of labels k = v) selector"

text \<open>The inner loop moves the element at index \<open>j\<close> down while the one before it has a larger key.\<close>

fun sift_down :: "(nat \<Rightarrow> int) \<Rightarrow> nat list \<Rightarrow> nat \<Rightarrow> nat list" where
  "sift_down k order 0 = order"
| "sift_down k order (Suc j) =
     (let a = order ! j; b = order ! Suc j
      in if k a \<le> k b then order else sift_down k (order[j := b, Suc j := a]) j)"

definition stable_sort_by_placement :: "(nat \<Rightarrow> int) \<Rightarrow> nat list \<Rightarrow> nat list" where
  "stable_sort_by_placement k order = fold (\<lambda>i order. sift_down k order i) [1..<length order] order"

definition schedule :: "node list \<Rightarrow> (node \<Rightarrow> bool) \<Rightarrow> (string \<times> string) list \<Rightarrow> (string \<Rightarrow> int) \<Rightarrow> int \<Rightarrow> node list" where
  "schedule nodes up selector placement n =
     (if n \<le> 0 then []
      else let candidates = filter (\<lambda>nd. up nd \<and> matches_selector (nd_labels nd) selector) nodes
           in if candidates = [] then []
              else let order = stable_sort_by_placement (\<lambda>i. placement (nd_name (candidates ! i))) [0..<length candidates]
                   in map (\<lambda>i. candidates ! (order ! (i mod length order))) [0..<nat n])"

definition select_nodes :: "registry \<Rightarrow> node_store \<Rightarrow> (string \<times> string) list \<Rightarrow> (string \<Rightarrow> int) \<Rightarrow> int \<Rightarrow> node list" where
  "select_nodes reg s selector placement n = schedule (all_nodes reg) (online s) selector placement n"

section \<open>The plan\<close>

datatype op_kind = Surge | Drain

record rollout_op =
  op_kind :: op_kind
  op_state :: dstate
  op_count :: int

text \<open>\<open>actual\<close> is a Go map, which reads 0 where it has no entry.\<close>

definition target_of :: "dstate \<Rightarrow> int" where
  "target_of st = (if ds_replicas st < 0 then 0 else ds_replicas st)"

definition plan_state :: "(uuid \<Rightarrow> int) \<Rightarrow> dstate \<Rightarrow> rollout_op list \<times> rollout_op list \<Rightarrow> rollout_op list \<times> rollout_op list" where
  "plan_state actual st acc = (case acc of (surges, drains) \<Rightarrow>
     let target = target_of st; cur = actual (ds_version_id st)
     in if cur < target then (surges @ [\<lparr>op_kind = Surge, op_state = st, op_count = target - cur\<rparr>], drains)
        else if target < cur then (surges, drains @ [\<lparr>op_kind = Drain, op_state = st, op_count = cur - target\<rparr>])
        else (surges, drains))"

definition deploy_order :: "dstate list \<Rightarrow> uuid list" where
  "deploy_order states = sort (remdups (map ds_deployment states))"

definition deploy_group :: "dstate list \<Rightarrow> uuid \<Rightarrow> dstate list" where
  "deploy_group states d = sort_key ds_version (filter (\<lambda>st. ds_deployment st = d) states)"

definition plan :: "dstate list \<Rightarrow> (uuid \<Rightarrow> int) \<Rightarrow> rollout_op list" where
  "plan states actual =
     (case fold (\<lambda>d acc. fold (plan_state actual) (deploy_group states d) acc) (deploy_order states) ([], []) of
        (surges, drains) \<Rightarrow> surges @ drains)"

definition is_retiring :: "string \<Rightarrow> bool" where
  "is_retiring status \<longleftrightarrow> status \<in> {''inactive'', ''draining'', ''standby''}"

section \<open>The sort is stable\<close>

lemma sift_down_split:
  "sorted (map k ys) \<Longrightarrow>
   sift_down k (ys @ b # zs) (length ys) =
     filter (\<lambda>y. k y \<le> k b) ys @ b # filter (\<lambda>y. k b < k y) ys @ zs"
proof (induction ys arbitrary: zs rule: rev_induct)
  case (snoc u us)
  show ?case
  proof (cases "k u \<le> k b")
    case True
    with snoc.prems have "filter (\<lambda>y. k y \<le> k b) (us @ [u]) = us @ [u]" "filter (\<lambda>y. k b < k y) (us @ [u]) = []"
      by (fastforce simp: sorted_append filter_id_conv filter_empty_conv)+
    with True show ?thesis by (simp add: nth_append)
  next
    case False
    have "(us @ u # b # zs)[length us := b, Suc (length us) := u] = us @ b # u # zs"
      by (simp add: list_update_append)
    moreover have "sorted (map k us)" using snoc.prems by (simp add: sorted_append)
    ultimately show ?thesis
      using False snoc.IH [of "u # zs"] by (simp add: nth_append Let_def)
  qed
qed simp

lemma sift_down_stable:
  assumes "sorted (map k ys)"
  shows "\<exists>ys'. sift_down k (ys @ b # zs) (length ys) = ys' @ zs \<and> length ys' = Suc (length ys) \<and> sorted (map k ys') \<and>
     mset ys' = mset (ys @ [b]) \<and> (\<forall>c. filter (\<lambda>x. c = k x) ys' = filter (\<lambda>x. c = k x) (ys @ [b]))"
proof (intro exI conjI allI)
  let ?ys' = "filter (\<lambda>y. k y \<le> k b) ys @ b # filter (\<lambda>y. k b < k y) ys"
  show "sift_down k (ys @ b # zs) (length ys) = ?ys' @ zs"
    using sift_down_split [OF assms] by simp
  show "sorted (map k ?ys')"
    using assms by (fastforce simp: sorted_append sorted_filter less_imp_le)
  show "mset ?ys' = mset (ys @ [b])"
    by (induction ys) auto
  then show "length ?ys' = Suc (length ys)"
    by (metis length_append_singleton size_mset)
  show "filter (\<lambda>x. c = k x) ?ys' = filter (\<lambda>x. c = k x) (ys @ [b])" for c
  proof -
    have "filter (\<lambda>x. c = k x) (filter (\<lambda>y. k y \<le> k b) ys) = (if c \<le> k b then filter (\<lambda>x. c = k x) ys else [])"
      and "filter (\<lambda>x. c = k x) (filter (\<lambda>y. k b < k y) ys) = (if k b < c then filter (\<lambda>x. c = k x) ys else [])"
      by (auto simp: filter_empty_conv intro!: filter_cong)
    then show ?thesis by (auto simp: not_less)
  qed
qed

lemma stable_sort_step:
  assumes "n < length order" and "length ys = n" and "sorted (map k ys)" and "mset ys = mset (take n order)"
    and "\<And>c. filter (\<lambda>x. c = k x) ys = filter (\<lambda>x. c = k x) (take n order)"
  shows "\<exists>ys'. sift_down k (ys @ drop n order) n = ys' @ drop (Suc n) order \<and> length ys' = Suc n \<and>
     sorted (map k ys') \<and> mset ys' = mset (take (Suc n) order) \<and>
     (\<forall>c. filter (\<lambda>x. c = k x) ys' = filter (\<lambda>x. c = k x) (take (Suc n) order))"
proof -
  have drop: "drop n order = order ! n # drop (Suc n) order"
    using assms(1) by (simp add: Cons_nth_drop_Suc)
  have take: "take (Suc n) order = take n order @ [order ! n]"
    using assms(1) by (rule take_Suc_conv_app_nth)
  show ?thesis
    using sift_down_stable [OF assms(3), of "order ! n" "drop (Suc n) order"] assms(2,4,5)
    unfolding take drop by simp
qed

lemma stable_sort_prefix:
  assumes "0 < n" and "n \<le> length order"
  shows "\<exists>ys. fold (\<lambda>i order. sift_down k order i) [1..<n] order = ys @ drop n order \<and> length ys = n \<and>
     sorted (map k ys) \<and> mset ys = mset (take n order) \<and>
     (\<forall>c. filter (\<lambda>x. c = k x) ys = filter (\<lambda>x. c = k x) (take n order))"
  using assms
proof (induction n rule: nat_induct_non_zero)
  case 1
  then have "order = take 1 order @ drop 1 order" "length (take 1 order) = 1" by simp_all
  then show ?case by (intro exI [of _ "take 1 order"]) (cases order, auto)
next
  case (Suc n)
  then obtain ys where ys: "fold (\<lambda>i order. sift_down k order i) [1..<n] order = ys @ drop n order"
    "length ys = n" "sorted (map k ys)" "mset ys = mset (take n order)"
    "\<And>c. filter (\<lambda>x. c = k x) ys = filter (\<lambda>x. c = k x) (take n order)"
    by auto
  have "[1..<Suc n] = [1..<n] @ [n]" using Suc.hyps by simp
  then show ?case
    using stable_sort_step [of n order ys k, OF _ ys(2-5)] Suc.prems ys(1) by simp
qed

theorem stable_sort_eq: "stable_sort_by_placement k order = sort_key k order"
proof (cases order)
  case (Cons x xs)
  then obtain ys where ys: "stable_sort_by_placement k order = ys" "sorted (map k ys)" "mset ys = mset order"
    "\<And>c. filter (\<lambda>x. c = k x) ys = filter (\<lambda>x. c = k x) order"
    using stable_sort_prefix [of "length order" order k] by (auto simp: stable_sort_by_placement_def)
  then have "sort_key k order = ys"
    by (intro properties_for_sort_key) auto
  with ys(1) show ?thesis by simp
qed (simp add: stable_sort_by_placement_def)

section \<open>What the scheduler chooses\<close>

lemma filter_sort_key: "filter (\<lambda>x. c = f x) (sort_key f xs) = filter (\<lambda>x. c = f x) xs"
  using sort_key_stable [of f c xs] by (simp add: eq_commute)

lemma sort_key_Nil: "sort_key f xs = [] \<longleftrightarrow> xs = []"
proof -
  have "sort_key f xs = [] \<longleftrightarrow> length (sort_key f xs) = 0" by (rule length_0_conv [symmetric])
  then show ?thesis unfolding length_sort by simp
qed

lemma sort_key_indices:
  "map ((!) xs) (sort_key (\<lambda>i. f (xs ! i)) [0..<length xs]) = sort_key f xs"
proof (rule properties_for_sort_key [symmetric])
  have "mset (map ((!) xs) (sort_key (\<lambda>i. f (xs ! i)) [0..<length xs])) = mset (map ((!) xs) [0..<length xs])"
    by (simp only: mset_map mset_sort)
  then show "mset (map ((!) xs) (sort_key (\<lambda>i. f (xs ! i)) [0..<length xs])) = mset xs"
    by (simp only: map_nth)
  have "filter (\<lambda>x. f k = f x) (map ((!) xs) (sort_key (\<lambda>i. f (xs ! i)) [0..<length xs])) =
      map ((!) xs) (filter (\<lambda>i. f k = f (xs ! i)) [0..<length xs])" for k
    using filter_sort_key [of "f k" "\<lambda>i. f (xs ! i)"] by (simp add: filter_map comp_def)
  then show "filter (\<lambda>x. f k = f x) (map ((!) xs) (sort_key (\<lambda>i. f (xs ! i)) [0..<length xs])) =
      filter (\<lambda>x. f k = f x) xs" for k
    using filter_map [of "\<lambda>x. f k = f x" "(!) xs" "[0..<length xs]"] by (simp add: comp_def map_nth)
  show "sorted (map f (map ((!) xs) (sort_key (\<lambda>i. f (xs ! i)) [0..<length xs])))"
    using sorted_sort_key [of "\<lambda>i. f (xs ! i)"] by (simp add: comp_def)
qed

lemma schedule_eq:
  "schedule nodes up selector placement n =
     (let ranked = sort_key (\<lambda>nd. placement (nd_name nd))
            (filter (\<lambda>nd. up nd \<and> matches_selector (nd_labels nd) selector) nodes)
      in if ranked = [] then [] else map (\<lambda>i. ranked ! (i mod length ranked)) [0..<nat n])"
proof -
  define cs where "cs = filter (\<lambda>nd. up nd \<and> matches_selector (nd_labels nd) selector) nodes"
  define f where "f nd = placement (nd_name nd)" for nd :: node
  have ranked: "sort_key f cs ! j = cs ! (sort_key (\<lambda>i. f (cs ! i)) [0..<length cs] ! j)" if "j < length cs" for j
    using that unfolding sort_key_indices [of cs f, symmetric] by simp
  have empty: "sort_key f cs = [] \<longleftrightarrow> cs = []"
    by (rule sort_key_Nil)
  have "cs \<noteq> [] \<Longrightarrow> cs ! (sort_key (\<lambda>i. f (cs ! i)) [0..<length cs] ! (i mod length cs)) =
      sort_key f cs ! (i mod length cs)" for i
    by (rule ranked [symmetric]) simp
  then show ?thesis
    unfolding schedule_def Let_def cs_def [symmetric] f_def [symmetric] stable_sort_eq empty
    by (simp split: if_split)
qed

lemma schedule_members:
  "nd \<in> set (schedule nodes up selector placement n) \<Longrightarrow>
   nd \<in> set nodes \<and> up nd \<and> matches_selector (nd_labels nd) selector"
proof -
  assume nd: "nd \<in> set (schedule nodes up selector placement n)"
  let ?cs = "filter (\<lambda>nd. up nd \<and> matches_selector (nd_labels nd) selector) nodes"
  let ?r = "sort_key (\<lambda>nd. placement (nd_name nd)) ?cs"
  from nd obtain i where ne: "?r \<noteq> []" and i: "nd = ?r ! (i mod length ?r)"
    unfolding schedule_eq Let_def by (auto split: if_splits)
  from ne have "i mod length ?r < length ?r" by (intro mod_less_divisor) (simp add: length_greater_0_conv del: length_sort)
  with i have "nd \<in> set ?r" by (simp only: nth_mem)
  then show ?thesis by simp
qed

lemma schedule_length:
  "length (schedule nodes up selector placement n) =
     (if \<exists>nd \<in> set nodes. up nd \<and> matches_selector (nd_labels nd) selector then nat n else 0)"
proof -
  let ?cs = "filter (\<lambda>nd. up nd \<and> matches_selector (nd_labels nd) selector) nodes"
  have "?cs = [] \<longleftrightarrow> \<not> (\<exists>nd \<in> set nodes. up nd \<and> matches_selector (nd_labels nd) selector)"
    by (simp add: filter_empty_conv)
  moreover have "length (schedule nodes up selector placement n) = (if ?cs = [] then 0 else nat n)"
    by (simp add: schedule_def Let_def)
  ultimately show ?thesis by presburger
qed

text \<open>The scheduler's index loops implement this choice: of the on-line nodes that meet the
selector, in the order of how many containers they hold (nodes with equally many in the order of the
configuration), it hands out one after the other and begins again at the front when the replicas
outnumber the nodes.\<close>

theorem schedule_hands_out_the_least_loaded:
  "schedule nodes up selector placement n =
     (let ranked = sort_key (\<lambda>nd. placement (nd_name nd))
            (filter (\<lambda>nd. up nd \<and> matches_selector (nd_labels nd) selector) nodes)
      in if ranked = [] then [] else map (\<lambda>i. ranked ! (i mod length ranked)) [0..<nat n])"
  by (rule schedule_eq)

section \<open>What the plan does\<close>

definition op_of :: "(uuid \<Rightarrow> int) \<Rightarrow> dstate \<Rightarrow> rollout_op list" where
  "op_of actual st =
     (if actual (ds_version_id st) < target_of st
      then [\<lparr>op_kind = Surge, op_state = st, op_count = target_of st - actual (ds_version_id st)\<rparr>]
      else if target_of st < actual (ds_version_id st)
      then [\<lparr>op_kind = Drain, op_state = st, op_count = actual (ds_version_id st) - target_of st\<rparr>]
      else [])"

definition grouped :: "dstate list \<Rightarrow> dstate list" where
  "grouped states = concat (map (deploy_group states) (deploy_order states))"

abbreviation is_surge :: "rollout_op \<Rightarrow> bool" where
  "is_surge p \<equiv> op_kind p = Surge"

lemma fold_plan_state:
  "fold (plan_state actual) sts (s, r) =
     (s @ filter is_surge (concat (map (op_of actual) sts)),
      r @ filter (\<lambda>p. \<not> is_surge p) (concat (map (op_of actual) sts)))"
  by (induction sts arbitrary: s r) (simp_all add: plan_state_def op_of_def Let_def)

lemma fold_plan_groups:
  "fold (\<lambda>d acc. fold (plan_state actual) (g d) acc) ds (s, r) =
     (s @ filter is_surge (concat (map (op_of actual) (concat (map g ds)))),
      r @ filter (\<lambda>p. \<not> is_surge p) (concat (map (op_of actual) (concat (map g ds)))))"
  by (induction ds arbitrary: s r) (simp_all add: fold_plan_state)

lemma plan_eq:
  "plan states actual =
     filter is_surge (concat (map (op_of actual) (grouped states))) @
     filter (\<lambda>p. \<not> is_surge p) (concat (map (op_of actual) (grouped states)))"
  by (simp add: plan_def fold_plan_groups grouped_def)

lemma mset_groups:
  "distinct ds \<Longrightarrow> set (map ds_deployment states) \<subseteq> set ds \<Longrightarrow>
   mset (concat (map (deploy_group states) ds)) = mset states"
proof (induction ds arbitrary: states)
  case (Cons d ds)
  let ?rest = "filter (\<lambda>st. ds_deployment st \<noteq> d) states"
  have "deploy_group states e = deploy_group ?rest e" if "e \<in> set ds" for e
    using that Cons.prems(1) by (auto simp: deploy_group_def intro: filter_cong arg_cong [where f = "sort_key ds_version"])
  then have eq: "map (deploy_group states) ds = map (deploy_group ?rest) ds" by (rule map_cong [OF refl])
  have "mset (concat (map (deploy_group ?rest) ds)) = mset ?rest"
    using Cons.prems by (intro Cons.IH) auto
  moreover have "mset (deploy_group states d) + mset ?rest = mset states"
    unfolding deploy_group_def mset_sort mset_filter by (rule multiset_partition [symmetric])
  ultimately show ?case
    unfolding list.map concat.simps mset_append eq by simp
qed simp

lemma mset_grouped: "mset (grouped states) = mset states"
  unfolding grouped_def by (rule mset_groups) (auto simp: deploy_order_def)

definition op_delta :: "rollout_op \<Rightarrow> int" where
  "op_delta p = (case op_kind p of Surge \<Rightarrow> op_count p | Drain \<Rightarrow> - op_count p)"

lemma plan_members:
  "p \<in> set (plan states actual) \<longleftrightarrow> (\<exists>st \<in> set states. p \<in> set (op_of actual st))"
proof -
  have "set (grouped states) = set states"
    by (metis mset_grouped set_mset_mset)
  then show ?thesis by (auto simp: plan_eq)
qed

lemma mset_concat_map_cong: "mset xs = mset ys \<Longrightarrow> mset (concat (map f xs)) = mset (concat (map f ys))"
proof -
  assume "mset xs = mset ys"
  then have "image_mset (mset \<circ> f) (mset xs) = image_mset (mset \<circ> f) (mset ys)" by simp
  then have "mset (map (mset \<circ> f) xs) = mset (map (mset \<circ> f) ys)" by simp
  then show ?thesis by (metis mset_concat map_map sum_mset_sum_list)
qed

lemma plan_mset: "mset (plan states actual) = mset (concat (map (op_of actual) states))"
proof -
  have "mset (filter P xs @ filter (\<lambda>x. \<not> P x) xs) = mset xs" for P and xs :: "rollout_op list"
    by (simp add: multiset_partition [symmetric])
  then have "mset (plan states actual) = mset (concat (map (op_of actual) (grouped states)))"
    by (simp add: plan_eq)
  also have "\<dots> = mset (concat (map (op_of actual) states))"
    by (rule mset_concat_map_cong [OF mset_grouped])
  finally show ?thesis .
qed

lemma op_of_delta:
  "sum_list (map op_delta (filter (\<lambda>p. ds_version_id (op_state p) = v) (op_of actual st))) =
     (if ds_version_id st = v then target_of st - actual v else 0)"
  by (auto simp: op_of_def op_delta_def)

lemma sum_list_mset_eq:
  fixes f :: "'a \<Rightarrow> int"
  shows "mset xs = mset ys \<Longrightarrow> sum_list (map f (filter P xs)) = sum_list (map f (filter P ys))"
  by (metis mset_filter mset_map sum_mset_sum_list)

lemma sum_only_one:
  fixes g :: "dstate \<Rightarrow> int"
  shows "distinct (map ds_version_id states) \<Longrightarrow> st \<in> set states \<Longrightarrow> ds_version_id st = v \<Longrightarrow>
   sum_list (map (\<lambda>st. if ds_version_id st = v then g st else 0) states) = g st"
proof (induction states)
  case (Cons s states)
  then show ?case
  proof (cases "ds_version_id s = v")
    case True
    with Cons.prems have "\<forall>t \<in> set states. ds_version_id t \<noteq> v" and "st = s"
      by (force simp: image_iff)+
    then have "sum_list (map (\<lambda>st. if ds_version_id st = v then g st else 0) states) = 0"
      by (simp add: map_idI sum_list_0 cong: map_cong)
    with True \<open>st = s\<close> show ?thesis by simp
  qed auto
qed simp

text \<open>A plan brings every version to its target and never drains before it surges: the
operations for a version add up to exactly the difference between its target (a negative number of
replicas counts as none) and what it has, all their counts are positive, no operation concerns a
version nobody asked for, and in the list every surge stands before every drain.\<close>

theorem plan_closes_every_gap:
  assumes "distinct (map ds_version_id states)" and "st \<in> set states" and "ds_version_id st = v"
  shows "sum_list (map op_delta (filter (\<lambda>p. ds_version_id (op_state p) = v) (plan states actual))) =
           max 0 (ds_replicas st) - actual v \<and>
         list_all (\<lambda>p. 0 < op_count p \<and> op_state p \<in> set states) (plan states actual) \<and>
         (\<exists>surges drains. plan states actual = surges @ drains \<and>
            list_all (\<lambda>p. op_kind p = Surge) surges \<and> list_all (\<lambda>p. op_kind p = Drain) drains)"
proof (intro conjI)
  have "sum_list (map op_delta (filter (\<lambda>p. ds_version_id (op_state p) = v) (plan states actual))) =
      sum_list (map op_delta (filter (\<lambda>p. ds_version_id (op_state p) = v) (concat (map (op_of actual) states))))"
    by (rule sum_list_mset_eq [OF plan_mset])
  also have "\<dots> = sum_list (map (\<lambda>st. if ds_version_id st = v then target_of st - actual v else 0) states)"
    by (induction states) (simp_all add: op_of_delta)
  also have "\<dots> = target_of st - actual v"
    by (rule sum_only_one [OF assms])
  finally show "sum_list (map op_delta (filter (\<lambda>p. ds_version_id (op_state p) = v) (plan states actual))) =
      max 0 (ds_replicas st) - actual v"
    by (simp add: target_of_def)
  show "list_all (\<lambda>p. 0 < op_count p \<and> op_state p \<in> set states) (plan states actual)"
    by (auto simp: list_all_iff plan_members op_of_def split: if_splits)
  have drain: "op_kind p = Drain \<longleftrightarrow> \<not> is_surge p" for p by (cases "op_kind p") simp_all
  have "list_all is_surge (filter is_surge xs)" "list_all (\<lambda>p. op_kind p = Drain) (filter (\<lambda>p. \<not> is_surge p) xs)" for xs
    by (simp_all add: list_all_iff drain)
  then show "\<exists>surges drains. plan states actual = surges @ drains \<and>
      list_all (\<lambda>p. op_kind p = Surge) surges \<and> list_all (\<lambda>p. op_kind p = Drain) drains"
    using plan_eq by blast
qed

text \<open>The plan does not depend on the order in which the map of desired states is iterated.\<close>

lemma plan_order_irrelevant:
  assumes "mset states = mset states'" and "distinct (map ds_deployment states)"
  shows "plan states actual = plan states' actual"
proof -
  have d': "distinct (map ds_deployment states')"
    using assms by (metis mset_map mset_eq_imp_distinct_iff)
  have single: "filter (\<lambda>st. ds_deployment st = d) xs = filter (\<lambda>st. ds_deployment st = d) ys"
    if "mset xs = mset ys" "distinct (map ds_deployment xs)" for d xs ys
  proof -
    have len: "length (filter (\<lambda>st. ds_deployment st = d) xs) \<le> 1"
      using that(2)
    proof (induction xs)
      case (Cons x xs)
      have "filter (\<lambda>st. ds_deployment st = d) xs = []" if "ds_deployment x = d"
        using that Cons.prems by (auto simp: filter_empty_conv image_iff)
      with Cons show ?case by auto
    qed simp
    have m: "mset (filter (\<lambda>st. ds_deployment st = d) xs) = mset (filter (\<lambda>st. ds_deployment st = d) ys)"
      using that(1) by simp
    show ?thesis
    proof (cases "filter (\<lambda>st. ds_deployment st = d) xs")
      case (Cons x zs)
      with len have "zs = []" by simp
      with Cons m show ?thesis by (metis mset_single_iff_right)
    qed (use m in simp)
  qed
  have "deploy_group states = deploy_group states'"
    using single [OF assms] by (simp add: deploy_group_def fun_eq_iff)
  moreover have "deploy_order states = deploy_order states'"
    using assms d' unfolding deploy_order_def
    by (simp add: distinct_remdups_id) (metis mset_map properties_for_sort sorted_sort mset_sort)
  ultimately show ?thesis by (simp add: plan_def)
qed

lemma plan_closes_every_gap_witness:
  "let st = \<lparr>ds_deployment = ''d'', ds_service = ''s'', ds_version_id = ''v1'', ds_project = None,
         ds_version = ''1'', ds_status = [], ds_image = ''img'', ds_replicas = 2, ds_port = 80, ds_env = [],
         ds_resources = [], ds_health_path = [], ds_selector = [], ds_strategy = [], ds_mounts = []\<rparr>;
       st2 = st\<lparr>ds_version_id := ''v2'', ds_replicas := - 4\<rparr>;
       actual = (\<lambda>v. if v = ''v2'' then 3 else 0)
   in plan [st, st2] actual =
        [\<lparr>op_kind = Surge, op_state = st, op_count = 2\<rparr>, \<lparr>op_kind = Drain, op_state = st2, op_count = 3\<rparr>] \<and>
      sum_list (map op_delta (filter (\<lambda>p. ds_version_id (op_state p) = ''v2'') (plan [st, st2] actual))) = - 3"
proof -
  let ?st = "\<lparr>ds_deployment = ''d'', ds_service = ''s'', ds_version_id = ''v1'', ds_project = None,
         ds_version = ''1'', ds_status = [], ds_image = ''img'', ds_replicas = 2, ds_port = 80, ds_env = [],
         ds_resources = [], ds_health_path = [], ds_selector = [], ds_strategy = [], ds_mounts = []\<rparr>"
  let ?st2 = "?st\<lparr>ds_version_id := ''v2'', ds_replicas := - 4\<rparr>"
  let ?a = "\<lambda>v :: uuid. if v = ''v2'' then 3 else (0 :: int)"
  have "plan [?st, ?st2] ?a =
      [\<lparr>op_kind = Surge, op_state = ?st, op_count = 2\<rparr>, \<lparr>op_kind = Drain, op_state = ?st2, op_count = 3\<rparr>]"
    by (simp add: plan_def deploy_order_def deploy_group_def plan_state_def target_of_def)
  moreover have "sum_list (map op_delta (filter (\<lambda>p. ds_version_id (op_state p) = ''v2'') (plan [?st, ?st2] ?a))) =
      max 0 (ds_replicas ?st2) - ?a ''v2''"
    by (rule conjunct1 [OF plan_closes_every_gap]) simp_all
  ultimately show ?thesis unfolding Let_def by simp
qed

end
