(* ===== verification/Reconciler.thy ===== *)
theory Reconciler
  imports Rollout Go_Text
begin

text \<open>
  The reconciler of the container manager (\<open>containermanager/reconciler/reconciler.go\<close>): one round
  compares the desired states with the observed containers, settles the replicas under way, creates
  what is missing, removes what is too much, and reports the phase of every deployment.

  The calls to agents and to the gateway are the round's output, a list in the order they are made.
  What they answer, what time it is, which UUID is drawn and which nodes are on line may depend on
  the calls made so far, and are functions of that list, gathered in the record \<open>world\<close>.
\<close>

section \<open>Data\<close>

record observed =
  oc_node :: string
  oc_instance :: string
  oc_id :: string
  oc_labels :: "(string \<times> string) list"
  oc_state :: string

record pending =
  pe_version :: uuid
  pe_deployment :: uuid
  pe_created :: go_time
  pe_index :: int

record create_spec =
  cs_instance :: string
  cs_service :: uuid
  cs_deployment :: uuid
  cs_version :: uuid
  cs_project :: string
  cs_name :: string
  cs_index :: int
  cs_image :: string
  cs_port :: int
  cs_env :: "(string \<times> string) list"
  cs_health_path :: string
  cs_mounts :: "mount list"

datatype agent_call =
    CallDrain string
  | CallCreate string create_spec
  | CallStop string string
  | CallRemove string string bool

record world =
  w_answer :: "agent_call list \<Rightarrow> bool"
  w_clock :: "agent_call list \<Rightarrow> go_time"
  w_uuid :: "agent_call list \<Rightarrow> uuid"
  w_store :: "agent_call list \<Rightarrow> node_store"
  w_registry :: registry
  w_gateway :: bool

record recon =
  rc_instance_of :: "string \<rightharpoonup> uuid"
  rc_pending :: "(string \<times> pending) list"
  rc_failures :: "uuid \<Rightarrow> int"
  rc_failed :: "uuid \<Rightarrow> bool"
  rc_log :: "agent_call list"

record round_in =
  ri_states :: "dstate list"
  ri_actual :: "(string \<times> observed) list"
  ri_paused :: "(string \<times> uuid) list"

definition pending_ttl :: int where "pending_ttl = 60 * second"
definition max_failures :: int where "max_failures = 5"

definition new_reconciler :: recon where
  "new_reconciler =
     \<lparr>rc_instance_of = Map.empty, rc_pending = [], rc_failures = (\<lambda>_. 0), rc_failed = (\<lambda>_. False), rc_log = []\<rparr>"

definition call :: "agent_call \<Rightarrow> recon \<Rightarrow> recon" where
  "call c r = r\<lparr>rc_log := rc_log r @ [c]\<rparr>"

definition answered :: "world \<Rightarrow> recon \<Rightarrow> bool" where
  "answered w r = w_answer w (rc_log r)"

section \<open>Names and indices\<close>

definition short_id :: "string \<Rightarrow> string" where
  "short_id i = take 12 (filter (\<lambda>c. c \<noteq> CHR ''-'') i)"

text \<open>Lower case and the replacement of what Docker does not allow, rune by rune over UTF-8 text:
continuation bytes belong to the rune before them; two non-ASCII letters, the Kelvin sign and the
dotted capital I, have an ASCII lower case.\<close>

definition name_char :: "char \<Rightarrow> bool" where
  "name_char c \<longleftrightarrow> is_lower c \<or> is_digit c \<or> c = CHR ''_'' \<or> c = CHR ''.'' \<or> c = CHR ''-''"

fun name_runes :: "string \<Rightarrow> string" where
  "name_runes [] = []"
| "name_runes (c # s) =
     (if c = CHR 0xE2 \<and> take 2 s = [CHR 0x84, CHR 0xAA] then CHR ''k'' # name_runes s
      else if c = CHR 0xC4 \<and> take 1 s = [CHR 0xB0] then CHR ''i'' # name_runes s
      else if 128 \<le> code c \<and> code c < 192 then name_runes s
      else (if name_char (lower_char c) then lower_char c else CHR ''-'') # name_runes s)"

definition trim_dashes :: "string \<Rightarrow> string" where
  "trim_dashes s = rev (dropWhile (\<lambda>c. c = CHR ''-'') (rev (dropWhile (\<lambda>c. c = CHR ''-'') s)))"

definition sanitize_name :: "string \<Rightarrow> string" where
  "sanitize_name s = take 32 (trim_dashes (name_runes (trim_space s)))"

definition container_name :: "dstate \<Rightarrow> int \<Rightarrow> string" where
  "container_name st idx = (case ds_project st of
     None \<Rightarrow> []
   | Some p \<Rightarrow>
       if p = uuid_nil then []
       else let version = sanitize_name (ds_version st)
            in ''maple-'' @ short_id p @ ''-'' @ (if version = [] then ''v'' else version) @ ''-'' @ itoa idx)"

definition project_id_string :: "uuid option \<Rightarrow> string" where
  "project_id_string p = (case p of None \<Rightarrow> [] | Some i \<Rightarrow> i)"

text \<open>\<open>strconv.Atoi\<close> on a label, and the labels that count as an index.\<close>

definition atoi :: "string \<Rightarrow> int option" where
  "atoi s = (
     let neg = (s \<noteq> [] \<and> hd s = CHR ''-'');
         digits = (if s \<noteq> [] \<and> (hd s = CHR ''-'' \<or> hd s = CHR ''+'') then tl s else s);
         v = (if neg then - int (dec_value digits) else int (dec_value digits))
     in if digits = [] \<or> \<not> list_all is_digit digits \<or> v < - (2 ^ 63) \<or> 2 ^ 63 \<le> v then None else Some v)"

definition parse_replica_index :: "string \<Rightarrow> int" where
  "parse_replica_index s =
     (if s = [] then 0 else case atoi s of None \<Rightarrow> 0 | Some n \<Rightarrow> if n < 0 then 0 else n)"

function next_free :: "int list \<Rightarrow> int \<Rightarrow> int" where
  "next_free used i = (if i \<in> set used then next_free used (i + 1) else i)"
  by auto

termination
proof (relation "measure (\<lambda>(used, i). card {x \<in> set used. i \<le> x})")
  fix used :: "int list" and i :: int
  assume "i \<in> set used"
  then have "i \<in> {x \<in> set used. i \<le> x} - {x \<in> set used. i + 1 \<le> x}" by simp
  moreover have "{x \<in> set used. i + 1 \<le> x} \<subseteq> {x \<in> set used. i \<le> x}" by auto
  ultimately have "{x \<in> set used. i + 1 \<le> x} \<subset> {x \<in> set used. i \<le> x}" by blast
  then have "card {x \<in> set used. i + 1 \<le> x} < card {x \<in> set used. i \<le> x}"
    by (intro psubset_card_mono) simp_all
  then show "((used, i + 1), used, i) \<in> measure (\<lambda>(used, i). card {x \<in> set used. i \<le> x})" by simp
qed simp

declare next_free.simps [simp del]

definition next_index :: "int list \<Rightarrow> int" where
  "next_index used = next_free used 1"

section \<open>Failures and removals\<close>

definition note_failure :: "uuid \<Rightarrow> recon \<Rightarrow> recon" where
  "note_failure dep r = (let n = rc_failures r dep + 1 in
     r\<lparr>rc_failures := (rc_failures r)(dep := n),
       rc_failed := (if max_failures \<le> n then (rc_failed r)(dep := True) else rc_failed r)\<rparr>)"

definition is_terminal :: "string \<Rightarrow> bool" where
  "is_terminal state \<longleftrightarrow> state \<in> {''exited'', ''dead'', ''removing''}"

definition remove_dead :: "world \<Rightarrow> observed \<Rightarrow> recon \<Rightarrow> recon" where
  "remove_dead w c r = (case registry_get (w_registry w) (oc_node c) of
     None \<Rightarrow> r
   | Some nd \<Rightarrow> call (CallRemove (nd_name nd) (oc_instance c) True) r)"

definition remove_replica :: "world \<Rightarrow> observed \<Rightarrow> recon \<Rightarrow> recon" where
  "remove_replica w c r = (
     let i = oc_instance c;
         r1 = (if w_gateway w then call (CallDrain i) r else r)
     in case registry_get (w_registry w) (oc_node c) of
          None \<Rightarrow> r1
        | Some nd \<Rightarrow>
            let r2 = call (CallStop (nd_name nd) i) r1;
                r3 = call (CallRemove (nd_name nd) i False) r2;
                r4 = (if answered w r3 then r3 else call (CallRemove (nd_name nd) i True) r3)
            in r4\<lparr>rc_instance_of := (rc_instance_of r4)(i := None), rc_pending := AList.delete i (rc_pending r4)\<rparr>)"

section \<open>Creating a replica\<close>

definition replica_spec :: "dstate \<Rightarrow> uuid \<Rightarrow> int \<Rightarrow> create_spec" where
  "replica_spec st i idx =
     \<lparr>cs_instance = i, cs_service = ds_service st, cs_deployment = ds_deployment st, cs_version = ds_version_id st,
      cs_project = project_id_string (ds_project st), cs_name = container_name st idx, cs_index = idx,
      cs_image = ds_image st, cs_port = ds_port st, cs_env = ds_env st, cs_health_path = ds_health_path st,
      cs_mounts = ds_mounts st\<rparr>"

definition create_replica :: "world \<Rightarrow> dstate \<Rightarrow> node \<Rightarrow> int \<Rightarrow> recon \<Rightarrow> recon" where
  "create_replica w st nd idx r = (
     let i = w_uuid w (rc_log r);
         r1 = call (CallCreate (nd_name nd) (replica_spec st i idx)) r
     in if \<not> answered w r1 then note_failure (ds_deployment st) r1
        else r1\<lparr>rc_instance_of := (rc_instance_of r1)(i \<mapsto> ds_version_id st),
               rc_pending := AList.update i
                 \<lparr>pe_version = ds_version_id st, pe_deployment = ds_deployment st,
                  pe_created = w_clock w (rc_log r1), pe_index = idx\<rparr> (rc_pending r1)\<rparr>)"

type_synonym work = "recon \<times> (string \<Rightarrow> int) \<times> (uuid \<Rightarrow> int list)"

definition surge_one :: "world \<Rightarrow> dstate \<Rightarrow> node list \<Rightarrow> nat \<Rightarrow> work \<Rightarrow> work" where
  "surge_one w st nodes i x = (case x of (r, placement, used) \<Rightarrow>
     let nd = nodes ! (i mod length nodes);
         v = ds_version_id st;
         idx = next_index (used v)
     in (create_replica w st nd idx r,
         placement(nd_name nd := placement (nd_name nd) + 1),
         used(v := idx # used v)))"

definition surge :: "world \<Rightarrow> rollout_op \<Rightarrow> work \<Rightarrow> work" where
  "surge w p x = (case x of (r, placement, used) \<Rightarrow>
     let st = op_state p;
         nodes = select_nodes (w_registry w) (w_store w (rc_log r)) (ds_selector st) placement (op_count p)
     in if nodes = [] then x
        else fold (surge_one w st nodes) [0..<nat (op_count p)] x)"

definition drain :: "world \<Rightarrow> observed list \<Rightarrow> int \<Rightarrow> (string \<times> uuid) list \<Rightarrow> recon \<Rightarrow> recon" where
  "drain w containers n paused r =
     fold (remove_replica w)
       (take (nat n) (sort_key oc_instance
          (filter (\<lambda>c. oc_instance c \<notin> fst ` set paused \<and> oc_state c = ''running'') containers))) r"

section \<open>A round\<close>

definition version_label :: "observed \<Rightarrow> uuid" where
  "version_label c = label_of (oc_labels c) ''maple.version_id''"

definition index_label :: "observed \<Rightarrow> int" where
  "index_label c = parse_replica_index (label_of (oc_labels c) ''maple.replica_index'')"

definition by_version :: "(string \<times> observed) list \<Rightarrow> uuid \<Rightarrow> observed list" where
  "by_version actual v = (if v = [] then [] else filter (\<lambda>c. version_label c = v) (map snd actual))"

definition running_of :: "round_in \<Rightarrow> uuid \<Rightarrow> int" where
  "running_of ri v = int (length (filter
     (\<lambda>c. oc_instance c \<notin> fst ` set (ri_paused ri) \<and> oc_state c = ''running'') (by_version (ri_actual ri) v)))"

definition used_indexes :: "(string \<times> observed) list \<Rightarrow> uuid \<Rightarrow> int list" where
  "used_indexes actual v = filter (\<lambda>i. 0 < i) (map index_label (by_version actual v))"

record scan =
  sc_recon :: recon
  sc_effective :: "uuid \<Rightarrow> int"
  sc_used :: "uuid \<Rightarrow> int list"
  sc_dead :: "observed list"
  sc_fails :: "uuid list"

definition drop_pending :: "string \<Rightarrow> bool \<Rightarrow> recon \<Rightarrow> recon" where
  "drop_pending i forget r =
     r\<lparr>rc_pending := AList.delete i (rc_pending r),
       rc_instance_of := (if forget then (rc_instance_of r)(i := None) else rc_instance_of r)\<rparr>"

definition scan_pending :: "world \<Rightarrow> (string \<times> observed) list \<Rightarrow> string \<times> pending \<Rightarrow> scan \<Rightarrow> scan" where
  "scan_pending w actual x sc = (case x of (i, p) \<Rightarrow>
     let v = pe_version p;
         sc1 = sc\<lparr>sc_used := (if 0 < pe_index p then (sc_used sc)(v := pe_index p # sc_used sc v) else sc_used sc)\<rparr>;
         counted = sc1\<lparr>sc_effective := (sc_effective sc1)(v := sc_effective sc1 v + 1)\<rparr>;
         failed = sc1\<lparr>sc_recon := drop_pending i True (sc_recon sc1), sc_fails := sc_fails sc1 @ [pe_deployment p]\<rparr>
     in case map_of actual i of
          None \<Rightarrow>
            if pending_ttl < w_clock w (rc_log (sc_recon sc)) - pe_created p then failed else counted
        | Some c \<Rightarrow>
            if oc_state c = ''running'' then sc1\<lparr>sc_recon := drop_pending i False (sc_recon sc1)\<rparr>
            else if is_terminal (oc_state c) then failed\<lparr>sc_dead := sc_dead sc1 @ [c]\<rparr>
            else counted)"

definition scan_all :: "world \<Rightarrow> round_in \<Rightarrow> recon \<Rightarrow> scan" where
  "scan_all w ri r = fold (scan_pending w (ri_actual ri)) (rc_pending r)
     \<lparr>sc_recon = r, sc_effective = running_of ri, sc_used = used_indexes (ri_actual ri), sc_dead = [], sc_fails = []\<rparr>"

definition settle_failures :: "world \<Rightarrow> scan \<Rightarrow> recon" where
  "settle_failures w sc = fold (remove_dead w) (sc_dead sc) (fold note_failure (sc_fails sc) (sc_recon sc))"

definition effective_of :: "round_in \<Rightarrow> scan \<Rightarrow> uuid \<Rightarrow> int" where
  "effective_of ri sc = fold (\<lambda>(i, v) e. e(v := e v + 1)) (ri_paused ri) (sc_effective sc)"

definition placement_by_node :: "(string \<times> observed) list \<Rightarrow> string \<Rightarrow> int" where
  "placement_by_node actual n = int (length (filter (\<lambda>c. oc_node c = n) (map snd actual)))"

definition run_op :: "world \<Rightarrow> round_in \<Rightarrow> rollout_op \<Rightarrow> work \<Rightarrow> work" where
  "run_op w ri p x = (case x of (r, placement, used) \<Rightarrow>
     case op_kind p of
       Surge \<Rightarrow> if rc_failed r (ds_deployment (op_state p)) then x else surge w p x
     | Drain \<Rightarrow> (drain w (by_version (ri_actual ri) (ds_version_id (op_state p))) (op_count p) (ri_paused ri) r, placement, used))"

definition run_plan :: "world \<Rightarrow> round_in \<Rightarrow> scan \<Rightarrow> recon" where
  "run_plan w ri sc = fst (fold (run_op w ri) (plan (ri_states ri) (effective_of ri sc))
     (settle_failures w sc, placement_by_node (ri_actual ri), sc_used sc))"

text \<open>The message of a failed deployment, in the source a Chinese sentence: the replicas failed one
after the other.\<close>

definition failed_message :: string where
  "failed_message =
    [CHR 0xE5, CHR 0x89, CHR 0xAF, CHR 0xE6, CHR 0x9C, CHR 0xAC, CHR 0xE5, CHR 0x88, CHR 0x9B, CHR
     0xE5, CHR 0xBB, CHR 0xBA, CHR 0xE8, CHR 0xBF, CHR 0x9E, CHR 0xE7, CHR 0xBB, CHR 0xAD, CHR 0xE5,
     CHR 0xA4, CHR 0xB1, CHR 0xE8, CHR 0xB4, CHR 0xA5]"

definition settle_phase :: "dstate list \<Rightarrow> (uuid \<Rightarrow> int) \<Rightarrow> (uuid \<Rightarrow> int) \<Rightarrow> uuid \<Rightarrow> recon \<times> (uuid \<times> dphase) list \<Rightarrow> recon \<times> (uuid \<times> dphase) list" where
  "settle_phase states effective running d x = (case x of (r, phases) \<Rightarrow>
     let sts = filter (\<lambda>st. ds_deployment st = d) states;
         target = sum_list (map target_of sts);
         actual = sum_list (map (effective \<circ> ds_version_id) sts);
         healthy = sum_list (map (running \<circ> ds_version_id) sts);
         r1 = (if target \<le> healthy
               then r\<lparr>rc_failures := (rc_failures r)(d := 0), rc_failed := (rc_failed r)(d := False)\<rparr> else r);
         phase = (if rc_failed r1 d then \<lparr>ph_status = ''failed'', ph_message = failed_message\<rparr>
                  else if target = actual then \<lparr>ph_status = ''ready'', ph_message = []\<rparr>
                  else \<lparr>ph_status = ''reconciling'', ph_message = []\<rparr>)
     in (r1, phases @ [(d, phase)]))"

definition settle_phases :: "dstate list \<Rightarrow> (uuid \<Rightarrow> int) \<Rightarrow> (uuid \<Rightarrow> int) \<Rightarrow> recon \<Rightarrow> recon \<times> (uuid \<times> dphase) list" where
  "settle_phases states effective running r =
     fold (settle_phase states effective running) (remdups (map ds_deployment states)) (r, [])"

definition reconcile :: "world \<Rightarrow> round_in \<Rightarrow> recon \<Rightarrow> recon \<times> (uuid \<times> dphase) list" where
  "reconcile w ri r = (let sc = scan_all w ri r in
     settle_phases (ri_states ri) (effective_of ri sc) (running_of ri) (run_plan w ri sc))"

section \<open>What the operations add to the log\<close>

text \<open>The calls an operation makes, as the suffix it adds to the log.\<close>

definition emits :: "(agent_call \<Rightarrow> bool) \<Rightarrow> recon \<Rightarrow> recon \<Rightarrow> bool" where
  "emits P r r' \<longleftrightarrow> (\<exists>cs. rc_log r' = rc_log r @ cs \<and> list_all P cs)"

lemma emits_refl [intro, simp]: "rc_log r' = rc_log r \<Longrightarrow> emits P r r'"
  by (auto simp: emits_def)

lemma emits_trans [trans]: "emits P r r' \<Longrightarrow> emits P r' r'' \<Longrightarrow> emits P r r''"
  by (auto simp: emits_def)

lemma emits_call [simp]: "emits P r (call c r) \<longleftrightarrow> P c"
  by (auto simp: emits_def call_def)

lemma emits_fold:
  "(\<And>x r. x \<in> set xs \<Longrightarrow> emits P r (f x r)) \<Longrightarrow> emits P r (fold f xs r)"
proof (induction xs arbitrary: r)
  case (Cons x xs)
  then have "emits P r (f x r)" and "emits P (f x r) (fold f xs (f x r))" by simp_all
  then show ?case by (simp add: emits_trans)
qed simp

lemma emits_mono: "emits P r r' \<Longrightarrow> (\<And>c. P c \<Longrightarrow> Q c) \<Longrightarrow> emits Q r r'"
  by (auto simp: emits_def list_all_iff)

lemma note_failure_log [simp]: "rc_log (note_failure d r) = rc_log r"
  by (simp add: note_failure_def Let_def)

lemma fold_note_failure_log [simp]: "rc_log (fold note_failure ds r) = rc_log r"
  by (induction ds arbitrary: r) simp_all

lemma drop_pending_log [simp]: "rc_log (drop_pending i b r) = rc_log r"
  by (simp add: drop_pending_def)

lemma settle_phases_log: "rc_log (fst (settle_phases states e g r)) = rc_log r"
proof -
  have "rc_log (fst (fold (settle_phase states e g) ds x)) = rc_log (fst x)" for ds x
    by (induction ds arbitrary: x) (simp_all add: settle_phase_def Let_def split: prod.split)
  then show ?thesis by (simp add: settle_phases_def)
qed

lemma remove_dead_emits:
  "(\<And>n. P (CallRemove n (oc_instance c) True)) \<Longrightarrow> emits P r (remove_dead w c r)"
  by (simp add: remove_dead_def split: option.split)

lemma remove_replica_emits:
  assumes "P (CallDrain (oc_instance c))" and "\<And>n. P (CallStop n (oc_instance c))"
    and "\<And>n b. P (CallRemove n (oc_instance c) b)"
  shows "emits P r (remove_replica w c r)"
proof -
  have g: "emits P r (if w_gateway w then call (CallDrain (oc_instance c)) r else r)" (is "emits P r ?r1")
    using assms(1) by simp
  show ?thesis
  proof (cases "registry_get (w_registry w) (oc_node c)")
    case (Some nd)
    let ?r2 = "call (CallStop (nd_name nd) (oc_instance c)) ?r1"
    let ?r3 = "call (CallRemove (nd_name nd) (oc_instance c) False) ?r2"
    have "emits P r ?r3" using g assms by (meson emits_call emits_trans)
    moreover have "emits P ?r3 (if answered w ?r3 then ?r3 else call (CallRemove (nd_name nd) (oc_instance c) True) ?r3)"
      using assms(3) by simp
    ultimately have "emits P r (if answered w ?r3 then ?r3 else call (CallRemove (nd_name nd) (oc_instance c) True) ?r3)"
      by (rule emits_trans)
    then show ?thesis by (simp add: remove_replica_def Some Let_def emits_def)
  qed (use g in \<open>simp add: remove_replica_def Let_def\<close>)
qed

lemma drain_emits:
  assumes "\<And>c. c \<in> set containers \<Longrightarrow> oc_instance c \<notin> fst ` set paused \<Longrightarrow> oc_state c = ''running'' \<Longrightarrow>
    P (CallDrain (oc_instance c)) \<and> (\<forall>n. P (CallStop n (oc_instance c))) \<and> (\<forall>n b. P (CallRemove n (oc_instance c) b))"
  shows "emits P r (drain w containers n paused r)"
proof -
  let ?cs = "sort_key oc_instance (filter (\<lambda>c. oc_instance c \<notin> fst ` set paused \<and> oc_state c = ''running'') containers)"
  have "P (CallDrain (oc_instance c)) \<and> (\<forall>n. P (CallStop n (oc_instance c))) \<and> (\<forall>n b. P (CallRemove n (oc_instance c) b))"
    if "c \<in> set (take (nat n) ?cs)" for c
    using in_set_takeD [OF that] by (intro assms) simp_all
  then have "emits P r (remove_replica w c r)" if "c \<in> set (take (nat n) ?cs)" for c r
    using that by (intro remove_replica_emits) simp_all
  then show ?thesis unfolding drain_def by (rule emits_fold)
qed

lemma create_replica_log:
  "rc_log (create_replica w st nd idx r) =
     rc_log r @ [CallCreate (nd_name nd) (replica_spec st (w_uuid w (rc_log r)) idx)]"
  by (simp add: create_replica_def Let_def call_def)

section \<open>The pending scan\<close>

definition under_way :: "go_time \<Rightarrow> (string \<times> observed) list \<Rightarrow> string \<times> pending \<Rightarrow> bool" where
  "under_way now actual x \<longleftrightarrow> (case map_of actual (fst x) of
     None \<Rightarrow> now - pe_created (snd x) \<le> pending_ttl
   | Some c \<Rightarrow> oc_state c \<noteq> ''running'' \<and> \<not> is_terminal (oc_state c))"

lemma scan_pending_log [simp]: "rc_log (sc_recon (scan_pending w actual x sc)) = rc_log (sc_recon sc)"
  by (cases x) (simp add: scan_pending_def Let_def split: option.split)

lemma scan_fold_log [simp]: "rc_log (sc_recon (fold (scan_pending w actual) ps sc)) = rc_log (sc_recon sc)"
  by (induction ps arbitrary: sc) simp_all

lemma scan_effective:
  "sc_effective (fold (scan_pending w actual) ps sc) v =
     sc_effective sc v + int (length (filter (\<lambda>x. pe_version (snd x) = v \<and>
       under_way (w_clock w (rc_log (sc_recon sc))) actual x) ps))"
proof (induction ps arbitrary: sc)
  case (Cons x ps)
  have "sc_effective (scan_pending w actual x sc) v = sc_effective sc v +
      (if pe_version (snd x) = v \<and> under_way (w_clock w (rc_log (sc_recon sc))) actual x then 1 else 0)"
    by (cases x) (auto simp: scan_pending_def Let_def under_way_def split: option.split)
  with Cons show ?case by simp
qed simp

lemma scan_used:
  "set (sc_used (fold (scan_pending w actual) ps sc) v) =
     set (sc_used sc v) \<union> {pe_index p |i p. (i, p) \<in> set ps \<and> pe_version p = v \<and> 0 < pe_index p}"
proof (induction ps arbitrary: sc)
  case (Cons x ps)
  obtain i p where x: "x = (i, p)" by (cases x)
  have "set (sc_used (scan_pending w actual x sc) v) =
      set (sc_used sc v) \<union> (if pe_version p = v \<and> 0 < pe_index p then {pe_index p} else {})"
    by (auto simp: x scan_pending_def Let_def split: option.split)
  with Cons.IH show ?case by (auto simp: x)
qed simp

lemma scan_dead:
  "c \<in> set (sc_dead (fold (scan_pending w actual) ps sc)) \<Longrightarrow>
   c \<in> set (sc_dead sc) \<or> (\<exists>x \<in> set ps. map_of actual (fst x) = Some c \<and> is_terminal (oc_state c))"
proof (induction ps arbitrary: sc)
  case (Cons x ps)
  have "c \<in> set (sc_dead (scan_pending w actual x sc)) \<Longrightarrow>
      c \<in> set (sc_dead sc) \<or> map_of actual (fst x) = Some c \<and> is_terminal (oc_state c)"
    by (cases x) (auto simp: scan_pending_def Let_def split: option.splits if_splits)
  with Cons.IH [of "scan_pending w actual x sc"] Cons.prems show ?case by auto
qed simp

lemma effective_of_count:
  "effective_of ri sc v = sc_effective sc v + int (length (filter (\<lambda>x. snd x = v) (ri_paused ri)))"
proof -
  have "fold (\<lambda>(i, v) e. e(v := e v + 1)) ps f v = f v + int (length (filter (\<lambda>x. snd x = v) ps))"
    for ps :: "(string \<times> uuid) list" and f :: "uuid \<Rightarrow> int"
    by (induction ps arbitrary: f) (auto split: prod.split)
  then show ?thesis by (simp add: effective_of_def)
qed

section \<open>A concrete round\<close>

text \<open>One node, on line; one version of which four replicas are wanted; one of its containers runs, another was
stopped by hand.\<close>

definition sample_desired :: dstate where
  "sample_desired = \<lparr>ds_deployment = ''d'', ds_service = ''s'', ds_version_id = ''v'', ds_project = None,
     ds_version = ''1'', ds_status = [], ds_image = ''img'', ds_replicas = 4, ds_port = 80, ds_env = [],
     ds_resources = [], ds_health_path = [], ds_selector = [], ds_strategy = [], ds_mounts = []\<rparr>"

definition sample_nodes :: node_store where
  "sample_nodes = \<lparr>ns_table = None, ns_unstable_after = 30, ns_offline_after = 90,
     ns_items = [(''id'', \<lparr>rt_id = ''id'', rt_name = ''n1'', rt_hash = [], rt_os = [], rt_arch = [], rt_agent = [],
       rt_revoked = False, rt_registered = 0, rt_last_seen = 0, rt_state = NodeOnline, rt_connected = True,
       rt_last_write = 0\<rparr>)]\<rparr>"

definition sample_world :: world where
  "sample_world = \<lparr>w_answer = (\<lambda>_. True), w_clock = (\<lambda>_. 0), w_uuid = (\<lambda>log. dec_string (length log)),
     w_store = (\<lambda>_. sample_nodes),
     w_registry = \<lparr>reg_nodes = [(''n1'', \<lparr>nd_name = ''n1'', nd_host = [], nd_region = [], nd_labels = [], nd_id = ''id''\<rparr>)],
                   reg_order = [''n1'']\<rparr>,
     w_gateway = True\<rparr>"

definition sample_container :: "string \<Rightarrow> string \<Rightarrow> string \<Rightarrow> observed" where
  "sample_container i idx state = \<lparr>oc_node = ''n1'', oc_instance = i, oc_id = i,
     oc_labels = [(''maple.version_id'', ''v''), (''maple.replica_index'', idx)], oc_state = state\<rparr>"

definition sample_round :: round_in where
  "sample_round = \<lparr>ri_states = [sample_desired],
     ri_actual = [(''a'', sample_container ''a'' ''2'' ''running''), (''b'', sample_container ''b'' ''1'' ''exited'')],
     ri_paused = [(''b'', ''v'')]\<rparr>"

section \<open>Instances stopped by hand\<close>

text \<open>The calls that stop or remove an instance.\<close>

definition harms :: "string \<Rightarrow> agent_call \<Rightarrow> bool" where
  "harms i c \<longleftrightarrow> (case c of CallDrain j \<Rightarrow> j = i | CallStop _ j \<Rightarrow> j = i | CallRemove _ j _ \<Rightarrow> j = i | CallCreate _ _ \<Rightarrow> False)"

lemma surge_one_log:
  "\<exists>nd s. rc_log (fst (surge_one w st nodes i x)) = rc_log (fst x) @ [CallCreate nd s]"
  by (cases x) (auto simp: surge_one_def Let_def create_replica_log)

lemma surge_emits:
  assumes "\<And>nd s. P (CallCreate nd s)"
  shows "emits P (fst x) (fst (surge w p x))"
proof -
  have "emits P (fst x) (fst (fold (surge_one w st nodes) is x))" for st nodes "is"
  proof (induction "is" arbitrary: x)
    case (Cons i "is")
    have "emits P (fst x) (fst (surge_one w st nodes i x))"
      using surge_one_log [of w st nodes i x] assms by (auto simp: emits_def)
    with Cons.IH [of "surge_one w st nodes i x"] show ?case by (simp add: emits_trans)
  qed simp
  then show ?thesis by (cases x) (simp add: surge_def Let_def)
qed

lemma run_op_emits:
  assumes "\<And>nd s. P (CallCreate nd s)"
    and "\<And>c. c \<in> snd ` set (ri_actual ri) \<Longrightarrow> oc_instance c \<notin> fst ` set (ri_paused ri) \<Longrightarrow> oc_state c = ''running'' \<Longrightarrow>
      P (CallDrain (oc_instance c)) \<and> (\<forall>n. P (CallStop n (oc_instance c))) \<and> (\<forall>n b. P (CallRemove n (oc_instance c) b))"
  shows "emits P (fst x) (fst (run_op w ri p x))"
proof (cases "op_kind p")
  case Surge
  then show ?thesis
    using surge_emits [of P x w p, OF assms(1)] by (cases x) (simp add: run_op_def)
next
  case Drain
  have "emits P r (drain w (by_version (ri_actual ri) v) n (ri_paused ri) r)" for r v n
    by (rule drain_emits, rule assms(2)) (auto simp: by_version_def split: if_splits)
  with Drain show ?thesis by (cases x) (simp add: run_op_def)
qed

lemma run_ops_emits:
  assumes "\<And>p x. emits P (fst x) (fst (run_op w ri p x))"
  shows "emits P (fst x) (fst (fold (run_op w ri) ps x))"
proof (induction ps arbitrary: x)
  case (Cons p ps)
  from emits_trans [OF assms Cons.IH] show ?case by simp
qed simp

lemma settle_failures_emits:
  assumes "\<And>c n. c \<in> set (sc_dead sc) \<Longrightarrow> P (CallRemove n (oc_instance c) True)"
  shows "emits P (sc_recon sc) (settle_failures w sc)"
proof -
  have "emits P r (fold (remove_dead w) (sc_dead sc) r)" for r
    by (rule emits_fold, rule remove_dead_emits) (rule assms)
  from this [of "fold note_failure (sc_fails sc) (sc_recon sc)"] show ?thesis
    by (simp add: settle_failures_def emits_def)
qed

lemma run_plan_emits:
  assumes "\<And>nd s. P (CallCreate nd s)"
    and "\<And>c. c \<in> snd ` set (ri_actual ri) \<Longrightarrow> oc_instance c \<notin> fst ` set (ri_paused ri) \<Longrightarrow> oc_state c = ''running'' \<Longrightarrow>
      P (CallDrain (oc_instance c)) \<and> (\<forall>n. P (CallStop n (oc_instance c))) \<and> (\<forall>n b. P (CallRemove n (oc_instance c) b))"
  shows "emits P (settle_failures w sc) (run_plan w ri sc)"
proof -
  have "emits P (fst x) (fst (run_op w ri p x))" for p x
    by (rule run_op_emits, rule assms(1)) (rule assms(2))
  then have "emits P (fst x) (fst (fold (run_op w ri) ps x))" for ps x by (rule run_ops_emits)
  from this [of "(settle_failures w sc, placement_by_node (ri_actual ri), sc_used sc)"]
  show ?thesis unfolding run_plan_def fst_conv .
qed

lemma reconcile_emits:
  assumes "\<And>nd s. P (CallCreate nd s)"
    and "\<And>c. c \<in> snd ` set (ri_actual ri) \<Longrightarrow> oc_instance c \<notin> fst ` set (ri_paused ri) \<Longrightarrow> oc_state c = ''running'' \<Longrightarrow>
      P (CallDrain (oc_instance c)) \<and> (\<forall>n. P (CallStop n (oc_instance c))) \<and> (\<forall>n b. P (CallRemove n (oc_instance c) b))"
    and "\<And>c n. c \<in> set (sc_dead (scan_all w ri r)) \<Longrightarrow> P (CallRemove n (oc_instance c) True)"
  shows "emits P r (fst (reconcile w ri r))"
proof -
  let ?sc = "scan_all w ri r"
  have "emits P r (sc_recon ?sc)" by (simp add: scan_all_def)
  also have "emits P (sc_recon ?sc) (settle_failures w ?sc)"
    by (rule settle_failures_emits) (rule assms(3))
  also have "emits P (settle_failures w ?sc) (run_plan w ri ?sc)"
    by (rule run_plan_emits, rule assms(1)) (rule assms(2))
  finally show ?thesis
    by (simp add: reconcile_def Let_def emits_def settle_phases_log)
qed

text \<open>The reconciler leaves an instance alone that an operator stopped by hand, unless the
instance was still on its way up: whatever the desired states and the snapshot say, a round makes no
call that drains, stops or removes it. (The snapshot is keyed by instance.)\<close>

lemma paused_instances_are_left_alone:
  assumes "i \<in> fst ` set (ri_paused ri)" and "i \<notin> fst ` set (rc_pending r)"
    and "\<And>k c. (k, c) \<in> set (ri_actual ri) \<Longrightarrow> oc_instance c = k"
  shows "\<exists>calls. rc_log (fst (reconcile w ri r)) = rc_log r @ calls \<and> list_all (\<lambda>c. \<not> harms i c) calls"
proof -
  have "oc_instance c \<noteq> i" if "c \<in> set (sc_dead (scan_all w ri r))" for c
  proof -
    from that obtain x where x: "x \<in> set (rc_pending r)" "map_of (ri_actual ri) (fst x) = Some c"
      unfolding scan_all_def by (auto dest!: scan_dead)
    then have "oc_instance c = fst x" using assms(3) [OF map_of_SomeD] by blast
    with x(1) assms(2) show ?thesis by auto
  qed
  with assms(1) have "emits (\<lambda>c. \<not> harms i c) r (fst (reconcile w ri r))"
    by (intro reconcile_emits) (auto simp: harms_def)
  then show ?thesis by (simp add: emits_def)
qed

text \<open>The exception is real, against the comment of \<open>removeDead\<close>: a replica that an operator stops
before the reconciler has seen it running counts as crashed, and its container is removed. Its mark
stays, so it goes on counting as a replica.\<close>

lemma paused_replica_under_way_is_removed:
  assumes "rc_pending r = [(i, p)]" and "map_of (ri_actual ri) i = Some c" and "oc_state c = ''exited''"
    and "oc_instance c = i" and "registry_get (w_registry w) (oc_node c) = Some nd"
  shows "\<exists>calls. rc_log (fst (reconcile w ri r)) = rc_log r @ CallRemove (nd_name nd) i True # calls"
proof -
  let ?sc = "scan_all w ri r"
  have dead: "sc_dead ?sc = [c]" and log: "rc_log (sc_recon ?sc) = rc_log r"
    by (simp_all add: scan_all_def assms(1,2,3) scan_pending_def Let_def is_terminal_def drop_pending_def)
  then have "rc_log (settle_failures w ?sc) = rc_log r @ [CallRemove (nd_name nd) i True]"
    using assms(4,5) by (simp add: settle_failures_def remove_dead_def call_def)
  moreover have "emits (\<lambda>_. True) (settle_failures w ?sc) (run_plan w ri ?sc)"
    by (rule run_plan_emits) simp_all
  ultimately show ?thesis
    by (auto simp: reconcile_def Let_def emits_def settle_phases_log)
qed

end
