(* ===== verification/Reconcile_Round.thy ===== *)
theory Reconcile_Round
  imports Reconciler
begin

text \<open>
  What a round of the reconciler achieves: how many replicas of a version it creates and under which
  indices, and what becomes of a deployment that was given up.
\<close>

section \<open>Free indices\<close>

lemma next_free_spec:
  "i \<le> next_free used i \<and> next_free used i \<notin> set used \<and> (\<forall>j. i \<le> j \<and> j < next_free used i \<longrightarrow> j \<in> set used)"
proof (induction used i rule: next_free.induct)
  case (1 used i)
  show ?case
  proof (cases "i \<in> set used")
    case True
    have "j \<in> set used" if "i \<le> j" "j < next_free used (i + 1)" for j
      using that 1 [OF True] True by (cases "j = i") auto
    with 1 [OF True] True show ?thesis by (simp add: next_free.simps [of used i])
  next
    case False
    then have "next_free used i = i" by (simp add: next_free.simps [of used i])
    with False show ?thesis by force
  qed
qed

lemma next_index_fresh: "1 \<le> next_index used" "next_index used \<notin> set used"
  using next_free_spec [of 1 used] by (simp_all add: next_index_def)

section \<open>The replicas a round creates\<close>

definition indices :: "uuid \<Rightarrow> agent_call list \<Rightarrow> int list" where
  "indices v cs = List.map_filter (\<lambda>c. case c of
     CallCreate _ s \<Rightarrow> if cs_version s = v then Some (cs_index s) else None | _ \<Rightarrow> None) cs"

lemma indices_append [simp]: "indices v (xs @ ys) = indices v xs @ indices v ys"
  by (simp add: indices_def map_filter_def)

lemma indices_create [simp]:
  "indices v [CallCreate n s] = (if cs_version s = v then [cs_index s] else [])"
  by (simp add: indices_def map_filter_simps)

lemma indices_Nil [simp]: "indices v [] = []"
  by (simp add: indices_def map_filter_simps)

definition not_create :: "agent_call \<Rightarrow> bool" where
  "not_create c \<longleftrightarrow> (case c of CallCreate _ _ \<Rightarrow> False | _ \<Rightarrow> True)"

lemma indices_not_create: "list_all not_create cs \<Longrightarrow> indices v cs = []"
  by (induction cs) (auto simp: indices_def map_filter_simps not_create_def split: agent_call.splits)

text \<open>From one state of the work to another, \<open>n\<close> replicas of version \<open>v\<close> are asked for, under indices
that are new, positive and different.\<close>

definition grows :: "uuid \<Rightarrow> nat \<Rightarrow> work \<Rightarrow> work \<Rightarrow> bool" where
  "grows v n x x' \<longleftrightarrow> (case x of (r, pl, used) \<Rightarrow> case x' of (r', pl', used') \<Rightarrow>
     \<exists>cs. rc_log r' = rc_log r @ cs \<and> used' v = rev (indices v cs) @ used v \<and>
        distinct (indices v cs) \<and> set (indices v cs) \<inter> set (used v) = {} \<and>
        list_all (\<lambda>i. 1 \<le> i) (indices v cs) \<and> length (indices v cs) = n)"

lemma grows_refl [simp]: "grows v 0 x x"
  by (cases x) (simp add: grows_def)

lemma grows_trans: "grows v m x y \<Longrightarrow> grows v n y z \<Longrightarrow> grows v (m + n) x z"
  by (cases x; cases y; cases z) (fastforce simp: grows_def)

lemma grows_emits: "emits not_create r r' \<Longrightarrow> grows v 0 (r, pl, used) (r', pl, used)"
  by (auto simp: emits_def grows_def indices_not_create)

lemma surge_one_grows:
  "grows v (if ds_version_id st = v then 1 else 0) x (surge_one w st nodes i x)"
  using next_index_fresh
  by (cases x) (auto simp: grows_def surge_one_def Let_def create_replica_log replica_spec_def)

lemma surge_fold_grows:
  "grows v (if ds_version_id st = v then length is else 0) x (fold (surge_one w st nodes) is x)"
proof (induction "is" arbitrary: x)
  case (Cons i "is")
  from grows_trans [OF surge_one_grows [of v st x w nodes i] Cons.IH] show ?case
    by (auto split: if_splits)
qed simp

text \<open>Whether a surge finds a node.\<close>

definition placeable :: "world \<Rightarrow> dstate \<Rightarrow> bool" where
  "placeable w st \<longleftrightarrow> (\<forall>log. \<exists>nd \<in> set (all_nodes (w_registry w)).
     online (w_store w log) nd \<and> matches_selector (nd_labels nd) (ds_selector st))"

definition wants :: "uuid \<Rightarrow> rollout_op \<Rightarrow> nat" where
  "wants v p = (if op_kind p = Surge \<and> ds_version_id (op_state p) = v then nat (op_count p) else 0)"

lemma surge_grows:
  assumes "op_kind p = Surge"
  shows "\<exists>n \<le> wants v p. grows v n x (surge w p x) \<and>
    (0 < op_count p \<longrightarrow> placeable w (op_state p) \<longrightarrow> n = wants v p)"
proof -
  obtain r pl used where x: "x = (r, pl, used)" by (cases x) auto
  let ?st = "op_state p"
  let ?nodes = "select_nodes (w_registry w) (w_store w (rc_log r)) (ds_selector ?st) pl (op_count p)"
  show ?thesis
  proof (cases "?nodes = []")
    case True
    have "\<not> placeable w ?st" if "0 < op_count p"
    proof
      assume "placeable w ?st"
      then have "length ?nodes = nat (op_count p)"
        unfolding placeable_def select_nodes_def schedule_length by (auto split: if_splits)
      with True that show False by simp
    qed
    with True show ?thesis by (intro exI [of _ 0]) (simp add: x surge_def Let_def)
  next
    case False
    then have "surge w p x = fold (surge_one w ?st ?nodes) [0..<nat (op_count p)] x"
      by (simp add: x surge_def Let_def)
    moreover have "(if ds_version_id ?st = v then length [0..<nat (op_count p)] else 0) = wants v p"
      using assms by (simp add: wants_def)
    ultimately have "grows v (wants v p) x (surge w p x)"
      using surge_fold_grows [of v ?st "[0..<nat (op_count p)]" x w ?nodes] by simp
    then show ?thesis by blast
  qed
qed

lemma drain_not_create: "emits not_create r (drain w cs n paused r)"
  by (rule drain_emits) (simp add: not_create_def)

lemma run_op_grows:
  "\<exists>n \<le> wants v p. grows v n x (run_op w ri p x) \<and>
    (op_kind p = Surge \<and> 0 < op_count p \<and> \<not> rc_failed (fst x) (ds_deployment (op_state p)) \<and>
       placeable w (op_state p) \<longrightarrow> n = wants v p)"
proof (cases "op_kind p")
  case Surge
  with surge_grows [OF Surge, of v x w] show ?thesis
    by (cases x) (force simp: run_op_def)
next
  case Drain
  then show ?thesis
    by (cases x) (auto simp: run_op_def intro!: exI [of _ 0] grows_emits drain_not_create)
qed

text \<open>While every call succeeds no deployment becomes failed.\<close>

lemma drain_failed: "rc_failed (drain w cs n paused r) = rc_failed r"
proof -
  have one: "rc_failed (remove_replica w c r) = rc_failed r" for c r
    by (simp add: remove_replica_def Let_def call_def split: option.split)
  have "rc_failed (fold (remove_replica w) cs r) = rc_failed r" for cs r
    by (induction cs arbitrary: r) (simp_all add: one)
  then show ?thesis by (simp add: drain_def)
qed

lemma surge_one_failed:
  "(\<And>l. w_answer w l) \<Longrightarrow> rc_failed (fst (surge_one w st nodes i x)) = rc_failed (fst x)"
  by (cases x) (simp add: surge_one_def Let_def create_replica_def answered_def call_def)

lemma run_op_failed:
  assumes "\<And>l. w_answer w l"
  shows "rc_failed (fst (run_op w ri p x)) = rc_failed (fst x)"
proof -
  have "rc_failed (fst (fold (surge_one w st nodes) is x)) = rc_failed (fst x)" for st nodes "is"
    by (induction "is" arbitrary: x) (simp_all add: surge_one_failed [OF assms])
  then show ?thesis
    by (cases x; cases "op_kind p") (simp_all add: run_op_def surge_def Let_def drain_failed)
qed

lemma run_ops_grow:
  "\<exists>n \<le> sum_list (map (wants v) ps). grows v n x (fold (run_op w ri) ps x) \<and>
    ((\<forall>l. w_answer w l) \<and> \<not> rc_failed (fst x) (ds_deployment st) \<and> placeable w st \<and>
     (\<forall>p \<in> set ps. ds_version_id (op_state p) = v \<longrightarrow> op_state p = st \<and> 0 < op_count p) \<longrightarrow>
     n = sum_list (map (wants v) ps))"
proof (induction ps arbitrary: x)
  case (Cons p ps)
  obtain m where m: "m \<le> wants v p" "grows v m x (run_op w ri p x)"
    "op_kind p = Surge \<Longrightarrow> 0 < op_count p \<Longrightarrow> \<not> rc_failed (fst x) (ds_deployment (op_state p)) \<Longrightarrow>
       placeable w (op_state p) \<Longrightarrow> m = wants v p"
    using run_op_grows [of v p x w ri] by blast
  obtain n where n: "n \<le> sum_list (map (wants v) ps)" "grows v n (run_op w ri p x) (fold (run_op w ri) ps (run_op w ri p x))"
    "(\<forall>l. w_answer w l) \<and> \<not> rc_failed (fst (run_op w ri p x)) (ds_deployment st) \<and> placeable w st \<and>
     (\<forall>p \<in> set ps. ds_version_id (op_state p) = v \<longrightarrow> op_state p = st \<and> 0 < op_count p) \<Longrightarrow>
     n = sum_list (map (wants v) ps)"
    using Cons.IH [of "run_op w ri p x"] by blast
  show ?case
  proof (intro exI conjI impI)
    show "m + n \<le> sum_list (map (wants v) (p # ps))" using m(1) n(1) by simp
    show "grows v (m + n) x (fold (run_op w ri) (p # ps) x)" using grows_trans [OF m(2) n(2)] by simp
    assume all: "(\<forall>l. w_answer w l) \<and> \<not> rc_failed (fst x) (ds_deployment st) \<and> placeable w st \<and>
      (\<forall>p \<in> set (p # ps). ds_version_id (op_state p) = v \<longrightarrow> op_state p = st \<and> 0 < op_count p)"
    then have "n = sum_list (map (wants v) ps)"
      using n(3) run_op_failed [of w ri p x] by simp
    moreover have "m = wants v p"
    proof (cases "op_kind p = Surge \<and> ds_version_id (op_state p) = v")
      case True
      with all m(3) show ?thesis by simp
    next
      case False
      then have "wants v p = 0" by (auto simp: wants_def)
      with m(1) show ?thesis by simp
    qed
    ultimately show "m + n = sum_list (map (wants v) (p # ps))" by simp
  qed
qed simp

lemma wants_plan:
  assumes "distinct (map ds_version_id states)" and "st \<in> set states" and "ds_version_id st = v"
  shows "sum_list (map (wants v) (plan states actual)) = nat (target_of st - actual v)"
proof -
  have one: "sum_list (map (wants v) (op_of actual s)) =
      (if ds_version_id s = v then nat (target_of s - actual v) else 0)" for s
    by (auto simp: op_of_def wants_def)
  have "sum_list (map (wants v) (plan states actual)) = sum_list (map (wants v) (concat (map (op_of actual) states)))"
    by (metis plan_mset mset_map sum_mset_sum_list)
  also have "\<dots> = sum_list (map (\<lambda>s. if ds_version_id s = v then nat (target_of s - actual v) else 0) states)"
    by (induction states) (simp_all add: one)
  also have "int \<dots> = sum_list (map (\<lambda>s. if ds_version_id s = v then int (nat (target_of s - actual v)) else 0) states)"
    by (induction states) auto
  also have "\<dots> = int (nat (target_of st - actual v))"
    by (rule sum_only_one [OF assms])
  finally show ?thesis by (simp only: of_nat_eq_iff)
qed

section \<open>One round\<close>

text \<open>What a version has: the running containers nobody stopped, the replicas under way (created at
most a minute ago and not seen yet, or seen and neither running nor dead), and the instances an
operator stopped by hand.\<close>

definition replicas_of :: "world \<Rightarrow> round_in \<Rightarrow> recon \<Rightarrow> uuid \<Rightarrow> int" where
  "replicas_of w ri r v =
     running_of ri v +
     int (length (filter (\<lambda>x. pe_version (snd x) = v \<and> under_way (w_clock w (rc_log r)) (ri_actual ri) x) (rc_pending r))) +
     int (length (filter (\<lambda>x. snd x = v) (ri_paused ri)))"

definition taken_indices :: "round_in \<Rightarrow> recon \<Rightarrow> uuid \<Rightarrow> int set" where
  "taken_indices ri r v =
     {i. 0 < i \<and> (\<exists>c \<in> set (by_version (ri_actual ri) v). index_label c = i)} \<union>
     {i. 0 < i \<and> (\<exists>x \<in> set (rc_pending r). pe_version (snd x) = v \<and> pe_index (snd x) = i)}"

lemma effective_eq: "effective_of ri (scan_all w ri r) v = replicas_of w ri r v"
  by (simp add: effective_of_count scan_all_def scan_effective replicas_of_def)

lemma used_eq: "set (sc_used (scan_all w ri r) v) = taken_indices ri r v"
  by (force simp: scan_all_def scan_used used_indexes_def taken_indices_def)

lemma settle_failures_not_create: "emits not_create (sc_recon sc) (settle_failures w sc)"
  by (rule settle_failures_emits) (simp add: not_create_def)

text \<open>Property C25. A round never creates more replicas of a version than are missing, counting those
that run, those under way and those stopped by hand, and gives each of them a positive index that no
container of the version, in whatever state, and no replica under way has, so that their names do not
collide. If every call succeeds, the deployment was not given up before the calls of the round, and
some on-line node always meets the selector, it creates exactly as many as are missing.\<close>

theorem a_round_creates_what_is_missing:
  assumes "distinct (map ds_version_id (ri_states ri))" and "st \<in> set (ri_states ri)" and "ds_version_id st = v"
  shows "\<exists>calls. rc_log (fst (reconcile w ri r)) = rc_log r @ calls \<and>
     int (length (indices v calls)) \<le> max 0 (max 0 (ds_replicas st) - replicas_of w ri r v) \<and>
     distinct (indices v calls) \<and>
     list_all (\<lambda>i. 1 \<le> i \<and> i \<notin> taken_indices ri r v) (indices v calls) \<and>
     ((\<forall>l. w_answer w l) \<and> placeable w st \<and>
      \<not> rc_failed (settle_failures w (scan_all w ri r)) (ds_deployment st) \<longrightarrow>
      int (length (indices v calls)) = max 0 (max 0 (ds_replicas st) - replicas_of w ri r v))"
proof -
  let ?sc = "scan_all w ri r"
  let ?ops = "plan (ri_states ri) (effective_of ri ?sc)"
  let ?x = "(settle_failures w ?sc, placement_by_node (ri_actual ri), sc_used ?sc)"
  let ?n = "nat (target_of st - replicas_of w ri r v)"
  have total: "sum_list (map (wants v) ?ops) = ?n"
    unfolding wants_plan [OF assms] effective_eq ..
  have ops: "op_state p = st \<and> 0 < op_count p" if "p \<in> set ?ops" "ds_version_id (op_state p) = v" for p
    using that assms unfolding plan_members
    by (auto simp: op_of_def distinct_map inj_on_def split: if_splits)
  obtain n where n: "n \<le> ?n" "grows v n ?x (fold (run_op w ri) ?ops ?x)"
    "(\<forall>l. w_answer w l) \<and> \<not> rc_failed (settle_failures w ?sc) (ds_deployment st) \<and> placeable w st \<Longrightarrow> n = ?n"
    using run_ops_grow [of v ?ops ?x w ri st] ops unfolding total fst_conv by blast
  obtain cs0 where cs0: "rc_log (settle_failures w ?sc) = rc_log r @ cs0" "indices v cs0 = []"
    using settle_failures_not_create [of ?sc w] by (auto simp: emits_def scan_all_def indices_not_create)
  obtain cs where cs: "rc_log (run_plan w ri ?sc) = rc_log (settle_failures w ?sc) @ cs"
    "distinct (indices v cs)" "set (indices v cs) \<inter> set (sc_used ?sc v) = {}"
    "list_all (\<lambda>i. 1 \<le> i) (indices v cs)" "length (indices v cs) = n"
    using n(2) unfolding grows_def run_plan_def by (auto split: prod.splits)
  have n_eq: "int ?n = max 0 (max 0 (ds_replicas st) - replicas_of w ri r v)"
    by (simp add: target_of_def max_def)
  have len: "length (indices v (cs0 @ cs)) = n" by (simp add: cs0(2) cs(5))
  show ?thesis
  proof (intro exI conjI impI)
    show "rc_log (fst (reconcile w ri r)) = rc_log r @ cs0 @ cs"
      by (simp add: reconcile_def Let_def settle_phases_log cs(1) cs0(1))
    show "int (length (indices v (cs0 @ cs))) \<le> max 0 (max 0 (ds_replicas st) - replicas_of w ri r v)"
      using n(1) unfolding n_eq [symmetric] len of_nat_le_iff .
    show "distinct (indices v (cs0 @ cs))" by (simp add: cs0(2) cs(2))
    show "list_all (\<lambda>i. 1 \<le> i \<and> i \<notin> taken_indices ri r v) (indices v (cs0 @ cs))"
      using cs(3,4) unfolding used_eq by (auto simp: cs0(2) list_all_iff)
    assume "(\<forall>l. w_answer w l) \<and> placeable w st \<and>
      \<not> rc_failed (settle_failures w (scan_all w ri r)) (ds_deployment st)"
    then have "n = ?n" by (intro n(3)) simp
    then show "int (length (indices v (cs0 @ cs))) = max 0 (max 0 (ds_replicas st) - replicas_of w ri r v)"
      unfolding n_eq [symmetric] len by (rule arg_cong)
  qed
qed

section \<open>Deployments that are given up\<close>

definition creates_for :: "uuid \<Rightarrow> agent_call \<Rightarrow> bool" where
  "creates_for d c \<longleftrightarrow> (case c of CallCreate _ s \<Rightarrow> cs_deployment s = d | _ \<Rightarrow> False)"

lemma note_failure_keeps: "rc_failed r d \<Longrightarrow> rc_failed (note_failure e r) d"
  by (simp add: note_failure_def Let_def)

lemma surge_one_keeps: "rc_failed (fst x) d \<Longrightarrow> rc_failed (fst (surge_one w st nodes i x)) d"
  by (cases x) (simp add: surge_one_def Let_def create_replica_def call_def note_failure_keeps)

lemma surge_one_foreign:
  "ds_deployment st \<noteq> d \<Longrightarrow> emits (\<lambda>c. \<not> creates_for d c) (fst x) (fst (surge_one w st nodes i x))"
  by (cases x) (simp add: surge_one_def Let_def create_replica_log emits_def creates_for_def replica_spec_def)

lemma run_op_given_up:
  assumes "rc_failed (fst x) d"
  shows "rc_failed (fst (run_op w ri p x)) d \<and> emits (\<lambda>c. \<not> creates_for d c) (fst x) (fst (run_op w ri p x))"
proof (cases "op_kind p")
  case Drain
  have "emits (\<lambda>c. \<not> creates_for d c) r (drain w cs n paused r)" for r cs n paused
    by (rule emits_mono [OF drain_not_create]) (simp add: not_create_def creates_for_def split: agent_call.splits)
  with Drain assms show ?thesis by (cases x) (simp add: run_op_def drain_failed)
next
  case Surge
  have fold: "rc_failed (fst (fold (surge_one w st nodes) is x)) d \<and>
      emits (\<lambda>c. \<not> creates_for d c) (fst x) (fst (fold (surge_one w st nodes) is x))"
    if "ds_deployment st \<noteq> d" "rc_failed (fst x) d" for st nodes "is" x
    using that(2)
  proof (induction "is" arbitrary: x)
    case (Cons i "is")
    from Cons.IH [OF surge_one_keeps [OF Cons.prems]] surge_one_foreign [OF that(1), of x w nodes i] show ?case
      by (auto intro: emits_trans)
  qed simp
  show ?thesis
  proof (cases "rc_failed (fst x) (ds_deployment (op_state p))")
    case True
    with Surge assms show ?thesis by (cases x) (simp add: run_op_def)
  next
    case False
    with assms have "ds_deployment (op_state p) \<noteq> d" by auto
    from fold [OF this assms] Surge False assms show ?thesis
      by (cases x) (simp add: run_op_def surge_def Let_def)
  qed
qed

lemma run_ops_given_up:
  "rc_failed (fst x) d \<Longrightarrow>
   rc_failed (fst (fold (run_op w ri) ps x)) d \<and> emits (\<lambda>c. \<not> creates_for d c) (fst x) (fst (fold (run_op w ri) ps x))"
proof (induction ps arbitrary: x)
  case (Cons p ps)
  from run_op_given_up [OF Cons.prems, of w ri p] Cons.IH [of "run_op w ri p x"] show ?case
    by (auto intro: emits_trans)
qed simp

lemma settle_phases_keeps:
  assumes "rc_failed r d"
    and "sum_list (map (running \<circ> ds_version_id) (filter (\<lambda>st. ds_deployment st = d) states)) <
         sum_list (map target_of (filter (\<lambda>st. ds_deployment st = d) states))"
  shows "rc_failed (fst (settle_phases states e running r)) d"
proof -
  have "rc_failed (fst (settle_phase states e running k x)) d" if "rc_failed (fst x) d" for k x
    using that assms(2) by (cases x) (auto simp: settle_phase_def Let_def)
  then have "rc_failed (fst (fold (settle_phase states e running) ks x)) d" if "rc_failed (fst x) d" for ks x
    using that by (induction ks arbitrary: x) simp_all
  with assms(1) show ?thesis by (simp add: settle_phases_def)
qed

text \<open>A deployment with a target that has no healthy replica.\<close>

definition starved :: "uuid \<Rightarrow> round_in \<Rightarrow> bool" where
  "starved d ri \<longleftrightarrow>
     sum_list (map (running_of ri \<circ> ds_version_id) (filter (\<lambda>st. ds_deployment st = d) (ri_states ri))) <
     sum_list (map target_of (filter (\<lambda>st. ds_deployment st = d) (ri_states ri)))"

lemma round_given_up:
  assumes "rc_failed r d"
  shows "emits (\<lambda>c. \<not> creates_for d c) r (fst (reconcile w ri r))"
    and "starved d ri \<Longrightarrow> rc_failed (fst (reconcile w ri r)) d"
proof -
  let ?sc = "scan_all w ri r"
  have dp: "rc_failed (drop_pending i b q) = rc_failed q" for i b q by (simp add: drop_pending_def)
  have "rc_failed (sc_recon (fold (scan_pending w a) ps sc)) = rc_failed (sc_recon sc)" for a ps sc
    by (induction ps arbitrary: sc) (auto simp: scan_pending_def Let_def dp split: prod.split option.split)
  then have f0: "rc_failed (sc_recon ?sc) d" using assms by (simp add: scan_all_def)
  have "rc_failed q d \<Longrightarrow> rc_failed (fold note_failure ds q) d" for q ds
    by (induction ds arbitrary: q) (simp_all add: note_failure_keeps)
  moreover have "rc_failed (fold (remove_dead w) cs q) = rc_failed q" for cs q
    by (induction cs arbitrary: q) (simp_all add: remove_dead_def call_def split: option.split)
  ultimately have f1: "rc_failed (settle_failures w ?sc) d" using f0 by (simp add: settle_failures_def)
  have run: "rc_failed (run_plan w ri ?sc) d \<and> emits (\<lambda>c. \<not> creates_for d c) (settle_failures w ?sc) (run_plan w ri ?sc)"
    using run_ops_given_up [of "(settle_failures w ?sc, placement_by_node (ri_actual ri), sc_used ?sc)" d w ri] f1
    unfolding run_plan_def fst_conv by blast
  have "emits (\<lambda>c. \<not> creates_for d c) (sc_recon ?sc) (settle_failures w ?sc)"
    by (rule emits_mono [OF settle_failures_not_create])
      (simp add: not_create_def creates_for_def split: agent_call.splits)
  with run have "emits (\<lambda>c. \<not> creates_for d c) (sc_recon ?sc) (run_plan w ri ?sc)"
    using emits_trans by blast
  then show "emits (\<lambda>c. \<not> creates_for d c) r (fst (reconcile w ri r))"
    by (simp add: reconcile_def Let_def emits_def settle_phases_log scan_all_def)
  show "rc_failed (fst (reconcile w ri r)) d" if "starved d ri"
    using run that unfolding starved_def by (simp add: reconcile_def Let_def settle_phases_keeps)
qed

definition rounds :: "(world \<times> round_in) list \<Rightarrow> recon \<Rightarrow> recon" where
  "rounds rs r = foldl (\<lambda>r (w, ri). fst (reconcile w ri r)) r rs"

text \<open>A deployment that was given up is never tried again. Whatever is deployed in its
place, in any number of later rounds a given-up deployment that is short of healthy replicas gets no
replica; and since nothing but healthy replicas clears the mark, it stays given up, also when its
desired state is replaced by one with a corrected image.\<close>

theorem a_given_up_deployment_stays_given_up:
  assumes "rc_failed r d" and "list_all (\<lambda>(w, ri). starved d ri) rs"
  shows "rc_failed (rounds rs r) d \<and>
    (\<exists>calls. rc_log (rounds rs r) = rc_log r @ calls \<and> list_all (\<lambda>c. \<not> creates_for d c) calls)"
proof -
  have "rc_failed (rounds rs r) d \<and> emits (\<lambda>c. \<not> creates_for d c) r (rounds rs r)"
    using assms
  proof (induction rs arbitrary: r)
    case (Cons x rs)
    obtain w ri where x: "x = (w, ri)" by (cases x)
    with Cons.prems have "rc_failed (fst (reconcile w ri r)) d"
      and "emits (\<lambda>c. \<not> creates_for d c) r (fst (reconcile w ri r))"
      using round_given_up [of r d] by simp_all
    with Cons.IH [of "fst (reconcile w ri r)"] Cons.prems(2) x show ?case
      by (auto simp: rounds_def intro: emits_trans)
  qed (simp add: rounds_def)
  then show ?thesis by (simp add: emits_def)
qed

section \<open>A concrete round\<close>

lemma sample_placeable: "placeable sample_world sample_desired"
  by (simp add: placeable_def sample_world_def sample_desired_def all_nodes_def map_filter_simps online_def
      node_online_def node_state_of_def sample_nodes_def matches_selector_def)

lemma sample_replicas: "replicas_of sample_world sample_round new_reconciler ''v'' = 2"
  by (simp add: replicas_of_def running_of_def by_version_def version_label_def label_of_def sample_round_def
      sample_container_def new_reconciler_def)

lemma a_round_creates_what_is_missing_witness:
  "\<exists>calls. rc_log (fst (reconcile sample_world sample_round new_reconciler)) = calls \<and>
     length (indices ''v'' calls) = 2 \<and> distinct (indices ''v'' calls)"
proof -
  have st: "sample_desired \<in> set (ri_states sample_round)" "ds_version_id sample_desired = ''v''"
    "distinct (map ds_version_id (ri_states sample_round))" "ds_replicas sample_desired = 4"
    by (simp_all add: sample_round_def sample_desired_def)
  have "rc_failed (settle_failures sample_world (scan_all sample_world sample_round new_reconciler)) ''d'' = False"
    by (simp add: settle_failures_def scan_all_def new_reconciler_def)
  moreover have "ds_deployment sample_desired = ''d''" by (simp add: sample_desired_def)
  moreover have "\<forall>l. w_answer sample_world l" by (simp add: sample_world_def)
  moreover have "rc_log new_reconciler = []" by (simp add: new_reconciler_def)
  ultimately show ?thesis
    using a_round_creates_what_is_missing [OF st(3,1,2), of sample_world new_reconciler] sample_placeable
    unfolding sample_replicas st(4) by auto
qed

lemma a_given_up_deployment_stays_given_up_witness:
  "rc_failed (rounds [(sample_world, sample_round\<lparr>ri_actual := []\<rparr>), (sample_world, sample_round\<lparr>ri_actual := []\<rparr>)]
     (new_reconciler\<lparr>rc_failed := (\<lambda>d. d = ''d'')\<rparr>)) ''d''"
proof -
  have "starved ''d'' (sample_round\<lparr>ri_actual := []\<rparr>)"
    by (simp add: starved_def sample_round_def sample_desired_def running_of_def by_version_def target_of_def)
  then have "list_all (\<lambda>(w, ri). starved ''d'' ri)
      [(sample_world, sample_round\<lparr>ri_actual := []\<rparr>), (sample_world, sample_round\<lparr>ri_actual := []\<rparr>)]" by simp
  from conjunct1 [OF a_given_up_deployment_stays_given_up [OF _ this]] show ?thesis by simp
qed

end
