(* ===== verification/Control.thy ===== *)
theory Control
  imports Reconcile_Round
begin

text \<open>
  What operators and the gateway do to running instances: the manual operations of
  \<open>containermanager/control/control.go\<close> and the handlers of \<open>containermanager/api/deployments.go\<close>, on
  the desired store, with the commands sent to agents as a log. The observer's snapshot (by instance)
  and its list of all managed containers (by container) are arguments; what an agent answers may
  depend on the commands so far.
\<close>

section \<open>Manual operations\<close>

datatype command =
    CmdRestart string string
  | CmdStop string string
  | CmdStart string string
  | CmdRemove string string bool

datatype control_error = NotObserved | NodeUnavailable | CommandFailed

record control =
  ct_store :: desired_store
  ct_log :: "command list"

record view =
  vw_snapshot :: "(string \<times> observed) list"
  vw_containers :: "(string \<times> observed) list"
  vw_registry :: registry
  vw_answer :: "command list \<Rightarrow> bool"

definition locate :: "view \<Rightarrow> string \<Rightarrow> control_error + (node \<times> observed)" where
  "locate vw i = (
     case (case map_of (vw_snapshot vw) i of Some oc \<Rightarrow> Some oc | None \<Rightarrow> map_of (vw_containers vw) i) of
       None \<Rightarrow> Inl NotObserved
     | Some oc \<Rightarrow> (case registry_get (vw_registry vw) (oc_node oc) of
           None \<Rightarrow> Inl NodeUnavailable
         | Some nd \<Rightarrow> Inr (nd, oc)))"

definition send :: "view \<Rightarrow> command \<Rightarrow> control \<Rightarrow> bool \<times> control" where
  "send vw c s = (let log = ct_log s @ [c] in (vw_answer vw log, s\<lparr>ct_log := log\<rparr>))"

text \<open>The shape the four operations share: find the container, command the agent, then mark.\<close>

definition operate :: "view \<Rightarrow> string \<Rightarrow> (string \<Rightarrow> string \<Rightarrow> command) \<Rightarrow> (observed \<Rightarrow> desired_store \<Rightarrow> desired_store) \<Rightarrow>
  control \<Rightarrow> control_error option \<times> control" where
  "operate vw i mk mark s = (case locate vw i of
     Inl e \<Rightarrow> (Some e, s)
   | Inr (nd, oc) \<Rightarrow> (case send vw (mk (nd_name nd) (oc_id oc)) s of
         (False, s1) \<Rightarrow> (Some CommandFailed, s1)
       | (True, s1) \<Rightarrow> (None, s1\<lparr>ct_store := mark oc (ct_store s1)\<rparr>)))"

definition control_restart :: "view \<Rightarrow> string \<Rightarrow> control \<Rightarrow> control_error option \<times> control" where
  "control_restart vw i = operate vw i CmdRestart (\<lambda>_. resume_instance i)"

definition control_stop :: "view \<Rightarrow> string \<Rightarrow> control \<Rightarrow> control_error option \<times> control" where
  "control_stop vw i = operate vw i CmdStop (\<lambda>oc. pause_instance i (version_label oc))"

definition control_start :: "view \<Rightarrow> string \<Rightarrow> control \<Rightarrow> control_error option \<times> control" where
  "control_start vw i = operate vw i CmdStart (\<lambda>_. resume_instance i)"

definition control_remove :: "view \<Rightarrow> string \<Rightarrow> bool \<Rightarrow> control \<Rightarrow> control_error option \<times> control" where
  "control_remove vw i force = operate vw i (\<lambda>n c. CmdRemove n c force) (\<lambda>_. resume_instance i)"

section \<open>Removing the containers of a deployment or of a version\<close>

definition deployment_label :: "observed \<Rightarrow> uuid" where
  "deployment_label oc = label_of (oc_labels oc) ''maple.deployment_id''"

definition remove_one :: "view \<Rightarrow> observed \<Rightarrow> nat \<times> control \<Rightarrow> nat \<times> control" where
  "remove_one vw oc x = (case x of (n, s) \<Rightarrow>
     case registry_get (vw_registry vw) (oc_node oc) of
       None \<Rightarrow> (n, s)
     | Some nd \<Rightarrow> (case send vw (CmdRemove (nd_name nd) (oc_instance oc) True) s of
           (False, s1) \<Rightarrow> (n, s1)
         | (True, s1) \<Rightarrow> (n + 1, s1)))"

definition remove_deployment :: "view \<Rightarrow> uuid \<Rightarrow> control \<Rightarrow> nat \<times> control" where
  "remove_deployment vw d s =
     (if d = [] then (0, s)
      else fold (remove_one vw)
        (filter (\<lambda>oc. oc_instance oc \<noteq> [] \<and> deployment_label oc = d) (map snd (vw_containers vw))) (0, s))"

definition remove_version :: "view \<Rightarrow> uuid \<Rightarrow> uuid \<Rightarrow> control \<Rightarrow> nat \<times> control" where
  "remove_version vw d v s =
     (if v = [] then (0, s)
      else fold (remove_one vw)
        (filter (\<lambda>oc. oc_instance oc \<noteq> [] \<and> version_label oc = v \<and> (d = [] \<or> deployment_label oc = d))
          (map snd (vw_containers vw))) (0, s))"

section \<open>The handlers of deployments\<close>

datatype 'a reply = Ok 'a | BadRequest

definition post_deployment :: "(string \<Rightarrow> string) \<Rightarrow> bool \<Rightarrow> dstate \<Rightarrow> control \<Rightarrow> dstate reply \<times> control" where
  "post_deployment jsonb ok st s =
     (if ds_deployment st = uuid_nil \<or> ds_image st = [] then (BadRequest, s)
      else (Ok st, s\<lparr>ct_store := put_desired jsonb ok st (ct_store s)\<rparr>))"

text \<open>An id that does not parse is None.\<close>

definition stop_deployment :: "view \<Rightarrow> bool \<Rightarrow> uuid option \<Rightarrow> control \<Rightarrow> nat reply \<times> control" where
  "stop_deployment vw ok i s = (case i of
     None \<Rightarrow> (BadRequest, s)
   | Some d \<Rightarrow>
       let x = remove_deployment vw d (s\<lparr>ct_store := stop_desired ok d (ct_store s)\<rparr>) in (Ok (fst x), snd x))"

definition forget_deployment :: "bool \<Rightarrow> uuid option \<Rightarrow> control \<Rightarrow> unit reply \<times> control" where
  "forget_deployment ok i s = (case i of
     None \<Rightarrow> (BadRequest, s)
   | Some d \<Rightarrow> (Ok (), s\<lparr>ct_store := stop_desired ok d (ct_store s)\<rparr>))"

definition delete_version :: "view \<Rightarrow> uuid option \<Rightarrow> uuid option \<Rightarrow> control \<Rightarrow> nat reply \<times> control" where
  "delete_version vw i j s = (case (i, j) of
     (Some d, Some v) \<Rightarrow> (let x = remove_version vw d v s in (Ok (fst x), snd x))
   | _ \<Rightarrow> (BadRequest, s))"

definition deployment_status :: "uuid option \<Rightarrow> control \<Rightarrow> dphase reply" where
  "deployment_status i s = (case i of None \<Rightarrow> BadRequest | Some d \<Rightarrow> Ok (phase_of d (ct_store s)))"

section \<open>The bearer token\<close>

definition gateway_auth :: "string \<Rightarrow> string \<Rightarrow> bool" where
  "gateway_auth token header \<longleftrightarrow>
     token \<noteq> [] \<and> has_prefix header ''Bearer '' \<and> trim_prefix header ''Bearer '' = token"

lemma gateway_auth_iff: "gateway_auth token header \<longleftrightarrow> token \<noteq> [] \<and> header = ''Bearer '' @ token"
  by (auto simp: gateway_auth_def has_prefix_append trim_prefix_def)

section \<open>Properties\<close>

lemma operate_frame:
  "ct_store (snd (operate vw i mk mark s)) = ct_store s \<or>
   (\<exists>nd oc. locate vw i = Inr (nd, oc) \<and> ct_store (snd (operate vw i mk mark s)) = mark oc (ct_store s))"
  by (auto simp: operate_def send_def Let_def split: sum.split bool.split)

lemma operate_None:
  "fst (operate vw i mk mark s) = None \<Longrightarrow>
   \<exists>nd oc. locate vw i = Inr (nd, oc) \<and> ct_store (snd (operate vw i mk mark s)) = mark oc (ct_store s)"
  by (auto simp: operate_def send_def Let_def split: sum.splits bool.splits)

lemma remove_one_store: "ct_store (snd (remove_one vw oc x)) = ct_store (snd x)"
  by (cases x) (simp add: remove_one_def send_def Let_def split: option.split bool.split)

lemma fold_remove_store: "ct_store (snd (fold (remove_one vw) ocs x)) = ct_store (snd x)"
  by (induction ocs arbitrary: x) (simp_all add: remove_one_store)

lemma remove_deployment_store: "ct_store (snd (remove_deployment vw d s)) = ct_store s"
  by (simp add: remove_deployment_def fold_remove_store)

lemma remove_version_store: "ct_store (snd (remove_version vw d v s)) = ct_store s"
  by (simp add: remove_version_def fold_remove_store)

lemma desired_paused [simp]:
  "de_paused (put_desired jsonb ok st s) = de_paused s"
  "de_paused (stop_desired ok d s) = de_paused s"
  by (simp_all add: put_desired_def persist_desired_def stop_desired_def update_dep_row_def)

lemma deployment_handlers_paused:
  "de_paused (ct_store (snd (post_deployment jsonb ok st s))) = de_paused (ct_store s)"
  "de_paused (ct_store (snd (stop_deployment vw ok i s))) = de_paused (ct_store s)"
  "de_paused (ct_store (snd (forget_deployment ok i s))) = de_paused (ct_store s)"
  "de_paused (ct_store (snd (delete_version vw i j s))) = de_paused (ct_store s)"
  by (auto simp: post_deployment_def stop_deployment_def forget_deployment_def delete_version_def Let_def
      remove_deployment_store remove_version_store split: option.split)

text \<open>Everything that happens to the desired store from outside the reconciler.\<close>

datatype ctl_event =
    EStop view string
  | EStart view string
  | ERestart view string
  | ERemove view string bool
  | EPost bool dstate
  | EStopDeployment view bool "uuid option"
  | EForget bool "uuid option"
  | EDeleteVersion view "uuid option" "uuid option"

fun ctl_step :: "(string \<Rightarrow> string) \<Rightarrow> control \<Rightarrow> ctl_event \<Rightarrow> control" where
  "ctl_step jsonb s (EStop vw i) = snd (control_stop vw i s)"
| "ctl_step jsonb s (EStart vw i) = snd (control_start vw i s)"
| "ctl_step jsonb s (ERestart vw i) = snd (control_restart vw i s)"
| "ctl_step jsonb s (ERemove vw i force) = snd (control_remove vw i force s)"
| "ctl_step jsonb s (EPost ok st) = snd (post_deployment jsonb ok st s)"
| "ctl_step jsonb s (EStopDeployment vw ok i) = snd (stop_deployment vw ok i s)"
| "ctl_step jsonb s (EForget ok i) = snd (forget_deployment ok i s)"
| "ctl_step jsonb s (EDeleteVersion vw i j) = snd (delete_version vw i j s)"

text \<open>The events that give an instance back to the reconciler.\<close>

fun releases :: "string \<Rightarrow> ctl_event \<Rightarrow> bool" where
  "releases i (EStart _ j) = (j = i)"
| "releases i (ERestart _ j) = (j = i)"
| "releases i (ERemove _ j _) = (j = i)"
| "releases i _ = False"

lemma mark_paused:
  "i \<in> fst ` set (de_paused (pause_instance j v s)) \<longleftrightarrow> i = j \<or> i \<in> fst ` set (de_paused s)"
  "i \<in> fst ` set (de_paused (resume_instance j s)) \<longleftrightarrow> i \<noteq> j \<and> i \<in> fst ` set (de_paused s)"
  by (auto simp: pause_instance_def resume_instance_def dom_update AList.delete_eq)

lemma operate_paused:
  assumes "i \<in> fst ` set (de_paused (ct_store s))"
    and "\<And>oc s. i \<in> fst ` set (de_paused s) \<Longrightarrow> i \<in> fst ` set (de_paused (mark oc s))"
  shows "i \<in> fst ` set (de_paused (ct_store (snd (operate vw j mk mark s))))"
  using operate_frame [of vw j mk mark s]
proof (elim disjE exE conjE)
  fix nd oc
  assume "ct_store (snd (operate vw j mk mark s)) = mark oc (ct_store s)"
  with assms(2) [OF assms(1)] show ?thesis by simp
qed (use assms(1) in simp)

lemma ctl_step_paused:
  "i \<in> fst ` set (de_paused (ct_store s)) \<Longrightarrow> \<not> releases i e \<Longrightarrow>
   i \<in> fst ` set (de_paused (ct_store (ctl_step jsonb s e)))"
  by (cases e) (simp_all only: ctl_step.simps control_stop_def control_start_def control_restart_def
      control_remove_def deployment_handlers_paused releases.simps, (rule operate_paused; simp add: mark_paused)+)

lemma ctl_run_paused:
  "i \<in> fst ` set (de_paused (ct_store s)) \<Longrightarrow> list_all (\<lambda>e. \<not> releases i e) es \<Longrightarrow>
   i \<in> fst ` set (de_paused (ct_store (foldl (ctl_step jsonb) s es)))"
  by (induction es arbitrary: s) (simp_all add: ctl_step_paused)

lemma control_stop_pauses:
  "fst (control_stop vw i s) = None \<Longrightarrow> i \<in> fst ` set (de_paused (ct_store (snd (control_stop vw i s))))"
  unfolding control_stop_def by (drule operate_None) (auto simp: mark_paused)

text \<open>Property C32. A manual stop lasts until the operator takes it back. After a successful stop of an
instance, and whatever operators and the gateway then do to other instances, to desired states and to
deployments, no round of the reconciler makes a call that drains, stops or removes the instance, as
long as nobody starts, restarts or removes it (and it was not still on its way up).\<close>

theorem a_manual_stop_lasts:
  assumes "fst (control_stop vw i s) = None"
    and "list_all (\<lambda>e. \<not> releases i e) es"
    and "ri_paused ri = de_paused (ct_store (foldl (ctl_step jsonb) (snd (control_stop vw i s)) es))"
    and "i \<notin> fst ` set (rc_pending r)"
    and "\<And>k c. (k, c) \<in> set (ri_actual ri) \<Longrightarrow> oc_instance c = k"
  shows "\<exists>calls. rc_log (fst (reconcile w ri r)) = rc_log r @ calls \<and> list_all (\<lambda>c. \<not> harms i c) calls"
proof (rule paused_instances_are_left_alone [OF _ assms(4,5)])
  show "i \<in> fst ` set (ri_paused ri)"
    unfolding assms(3) by (rule ctl_run_paused [OF control_stop_pauses [OF assms(1)] assms(2)])
qed

definition sample_view :: view where
  "sample_view = \<lparr>vw_snapshot = ri_actual sample_round, vw_containers = [], vw_registry = w_registry sample_world,
     vw_answer = (\<lambda>_. True)\<rparr>"

lemma a_manual_stop_lasts_witness:
  "let s = \<lparr>ct_store = new_desired None, ct_log = []\<rparr>;
       s1 = foldl (ctl_step (\<lambda>x. x)) (snd (control_stop sample_view ''b'' s)) [EStop sample_view ''a'', EForget True (Some ''d'')];
       ri = sample_round\<lparr>ri_paused := de_paused (ct_store s1)\<rparr>
   in \<exists>calls. rc_log (fst (reconcile sample_world ri new_reconciler)) = rc_log new_reconciler @ calls \<and>
        list_all (\<lambda>c. \<not> harms ''b'' c) calls"
proof -
  let ?s = "\<lparr>ct_store = new_desired None, ct_log = []\<rparr>"
  let ?es = "[EStop sample_view ''a'', EForget True (Some ''d'')]"
  let ?s1 = "foldl (ctl_step (\<lambda>x. x)) (snd (control_stop sample_view ''b'' ?s)) ?es"
  let ?ri = "sample_round\<lparr>ri_paused := de_paused (ct_store ?s1)\<rparr>"
  have "fst (control_stop sample_view ''b'' ?s) = None"
    by (simp add: control_stop_def operate_def locate_def send_def sample_view_def sample_round_def
        sample_container_def sample_world_def registry_get_def)
  moreover have "list_all (\<lambda>e. \<not> releases ''b'' e) ?es" by simp
  moreover have "ri_paused ?ri = de_paused (ct_store ?s1)" by simp
  moreover have "''b'' \<notin> fst ` set (rc_pending new_reconciler)" by (simp add: new_reconciler_def)
  moreover have "\<And>k c. (k, c) \<in> set (ri_actual ?ri) \<Longrightarrow> oc_instance c = k"
    by (auto simp: sample_round_def sample_container_def)
  ultimately show ?thesis
    unfolding Let_def by (rule a_manual_stop_lasts)
qed

section \<open>Marks that outlive their instance\<close>

text \<open>Stopping a deployment removes its containers but not the marks of the instances stopped by hand,
and nothing can remove the mark of a container that is gone: the manual operations do not find it. When
the same version is deployed again, each such mark counts as a replica, so that the version has one
replica fewer than asked for and is reported ready.\<close>

lemma stopped_deployment_keeps_its_marks:
  assumes "fst (control_stop vw i s) = None"
    and "list_all (\<lambda>e. \<not> releases i e) es"
    and "paused = de_paused (ct_store (snd (stop_deployment vw' ok (Some d) (foldl (ctl_step jsonb) (snd (control_stop vw i s)) es))))"
    and "map_of (vw_snapshot gone) i = None" and "map_of (vw_containers gone) i = None"
  shows "i \<in> fst ` set paused"
    and "control_start gone i t = (Some NotObserved, t)"
    and "control_restart gone i t = (Some NotObserved, t)"
    and "control_remove gone i force t = (Some NotObserved, t)"
proof -
  show "i \<in> fst ` set paused"
    unfolding assms(3) deployment_handlers_paused
    by (rule ctl_run_paused [OF control_stop_pauses [OF assms(1)] assms(2)])
qed (simp_all add: control_start_def control_restart_def control_remove_def operate_def locate_def assms(4,5))

lemma a_mark_counts_as_a_replica:
  assumes "(i, v) \<in> set (ri_paused ri)"
  shows "1 \<le> replicas_of w ri r v"
proof -
  have "(i, v) \<in> set (filter (\<lambda>x. snd x = v) (ri_paused ri))" using assms by simp
  then have "0 < length (filter (\<lambda>x. snd x = v) (ri_paused ri))" by (rule length_pos_if_in_set)
  then show ?thesis unfolding replicas_of_def running_of_def by linarith
qed

end
