(* ===== verification/Net_Address.thy ===== *)
theory Net_Address
  imports Router_Host
begin

unbundle bit_operations_syntax

text \<open>
  The part of Go's package \<open>net\<close> the gateway's address checks rest on (\<open>ParseIP\<close>, \<open>ParseCIDR\<close>,
  \<open>IPNet.Contains\<close>, \<open>SplitHostPort\<close> and the address classes), and \<open>security/upstream.go\<close>, which
  keeps public addresses out of the upstream pools. An address is its 16 bytes as a 128-bit word,
  an IPv4 address in the mapped form \<open>::ffff:a.b.c.d\<close> as \<open>ParseIP\<close> returns it.
\<close>

type_synonym ip_addr = "128 word"

section \<open>Addresses\<close>

definition v4_in_6 :: "32 word \<Rightarrow> ip_addr" where
  "v4_in_6 a = push_bit 32 0xFFFF OR ucast a"

definition ip_of_groups :: "nat list \<Rightarrow> ip_addr" where
  "ip_of_groups gs = foldl (\<lambda>a g. push_bit 16 a OR of_nat g) 0 gs"

text \<open>\<open>ip.To4()\<close>: the IPv4 address of a mapped one.\<close>

definition to4 :: "ip_addr \<Rightarrow> (32 word) option" where
  "to4 ip = (if drop_bit 32 ip = 0xFFFF then Some (ucast ip) else None)"

text \<open>\<open>netip.ParseAddr\<close>: the first dot, colon or percent sign decides the family. The flag says
whether the text is an IPv4 one (32 bits). An address with a zone is refused by \<open>net\<close>.\<close>

definition parse_addr :: "string \<Rightarrow> (bool \<times> ip_addr) option" where
  "parse_addr s =
    (case find (\<lambda>c. c = CHR ''.'' \<or> c = CHR '':'' \<or> c = CHR ''%'') s of
       None \<Rightarrow> None
     | Some c \<Rightarrow>
         if c = CHR ''.'' then map_option (\<lambda>a. (True, v4_in_6 a)) (parse_ipv4 s)
         else if c = CHR '':'' then map_option (\<lambda>gs. (False, ip_of_groups gs)) (parse_ipv6 s)
         else None)"

definition parse_ip :: "string \<Rightarrow> ip_addr option" where
  "parse_ip s = map_option snd (parse_addr s)"

section \<open>Networks\<close>

text \<open>\<open>net.IPNet\<close>: the masked address with its prefix length, in 4 or in 16 bytes.\<close>

datatype ip_net = Net4 "32 word" nat | Net6 ip_addr nat

definition masked4 :: "nat \<Rightarrow> 32 word \<Rightarrow> 32 word" where
  "masked4 n a = push_bit (32 - n) (drop_bit (32 - n) a)"

definition masked6 :: "nat \<Rightarrow> ip_addr \<Rightarrow> ip_addr" where
  "masked6 n a = push_bit (128 - n) (drop_bit (128 - n) a)"

definition parse_ip_net :: "string \<Rightarrow> ip_net option" where
  "parse_ip_net s =
    (case cut_byte CHR ''/'' s of
       None \<Rightarrow> None
     | Some (a, m) \<Rightarrow>
         (case parse_addr a of
            None \<Rightarrow> None
          | Some (v4, ip) \<Rightarrow>
              if m = [] \<or> \<not> list_all is_digit m \<or> (if v4 then 32 else 128) < dec_value m then None
              else if v4 then Some (Net4 (masked4 (dec_value m) (ucast ip)) (dec_value m))
              else Some (Net6 (masked6 (dec_value m) ip) (dec_value m))))"

definition contains4 :: "32 word \<Rightarrow> nat \<Rightarrow> ip_addr \<Rightarrow> bool" where
  "contains4 a n ip = (case to4 ip of
       None \<Rightarrow> False
     | Some v \<Rightarrow> drop_bit (32 - n) v = drop_bit (32 - n) a)"

fun net_contains :: "ip_net \<Rightarrow> ip_addr \<Rightarrow> bool" where
  "net_contains (Net4 a n) ip = contains4 a n ip"
| "net_contains (Net6 a n) ip = (case to4 a of
       Some v \<Rightarrow> contains4 v (n - 96) ip
     | None \<Rightarrow> to4 ip = None \<and> drop_bit (128 - n) ip = drop_bit (128 - n) a)"

section \<open>Address classes\<close>

definition is_loopback :: "ip_addr \<Rightarrow> bool" where
  "is_loopback ip = (case to4 ip of
       Some v \<Rightarrow> drop_bit 24 v = 127
     | None \<Rightarrow> ip = 1)"

definition is_private :: "ip_addr \<Rightarrow> bool" where
  "is_private ip = (case to4 ip of
       Some v \<Rightarrow> drop_bit 24 v = 10 \<or> drop_bit 20 v = 0xAC1 \<or> drop_bit 16 v = 0xC0A8
     | None \<Rightarrow> drop_bit 121 ip = 0x7E)"

definition is_link_local_unicast :: "ip_addr \<Rightarrow> bool" where
  "is_link_local_unicast ip = (case to4 ip of
       Some v \<Rightarrow> drop_bit 16 v = 0xA9FE
     | None \<Rightarrow> drop_bit 118 ip = 0x3FA)"

section \<open>Host and port\<close>

definition split_host_port :: "string \<Rightarrow> (string \<times> string) option" where
  "split_host_port hp =
    (case last_index_byte CHR '':'' hp of
       None \<Rightarrow> None
     | Some i \<Rightarrow>
         if hd hp = CHR ''['' then
           (case index_byte CHR '']'' hp of
              None \<Rightarrow> None
            | Some e \<Rightarrow>
                if e + 1 \<noteq> i then None
                else if CHR ''['' \<in> set (drop 1 hp) \<or> CHR '']'' \<in> set (drop (e + 1) hp) then None
                else Some (drop 1 (take e hp), drop (i + 1) hp))
         else if CHR '':'' \<in> set (take i hp) then None
         else if CHR ''['' \<in> set hp \<or> CHR '']'' \<in> set hp then None
         else Some (take i hp, drop (i + 1) hp))"

section \<open>security/upstream.go\<close>

definition is_internal_ip :: "ip_addr \<Rightarrow> bool" where
  "is_internal_ip ip \<longleftrightarrow> is_loopback ip \<or> is_private ip \<or> is_link_local_unicast ip"

datatype upstream_error = Upstream_not_an_ip string | Upstream_not_internal string

definition upstream_host :: "string \<Rightarrow> string" where
  "upstream_host address =
    (case split_host_port address of Some (h, _) \<Rightarrow> h | None \<Rightarrow> address)"

definition validate_upstream_address :: "string \<Rightarrow> upstream_error option" where
  "validate_upstream_address address =
    (case parse_ip (upstream_host address) of
       None \<Rightarrow> Some (Upstream_not_an_ip address)
     | Some ip \<Rightarrow> if is_internal_ip ip then None else Some (Upstream_not_internal address))"

section \<open>Lemmas\<close>

lemma parse_ip_chars:
  assumes "parse_ip s = Some ip" and "c \<in> set s"
  shows "is_hex c \<or> c = CHR '':'' \<or> c = CHR ''.''"
proof -
  consider (v4) a where "parse_ipv4 s = Some a" | (v6) g where "parse_ipv6 s = Some g"
    using assms(1) by (auto simp: parse_ip_def parse_addr_def split: option.splits if_splits)
  then show ?thesis
  proof cases
    case v4
    then show ?thesis using parse_ipv4_chars [OF v4 assms(2)] by (auto simp: is_hex_def)
  next
    case v6
    then show ?thesis using parse_ipv6_text [OF v6] assms(2) by blast
  qed
qed

lemma parse_ip_nonempty: "parse_ip s = Some ip \<Longrightarrow> s \<noteq> []"
  by (auto simp: parse_ip_def parse_addr_def)

text \<open>What an address's text may hold: no space, comma, bracket or slash, so it survives the lists
and the trimming of the headers it is copied into.\<close>

lemma parse_ip_plain:
  assumes "parse_ip s = Some ip" and "c \<in> set s"
  shows "\<not> is_space c \<and> c \<noteq> CHR '','' \<and> c \<noteq> CHR ''['' \<and> c \<noteq> CHR '']'' \<and> c \<noteq> CHR ''/''"
  using parse_ip_chars [OF assms]
  by (auto simp: is_hex_def is_space_def is_digit_def code_def)

lemma parse_ip_trim: "parse_ip s = Some ip \<Longrightarrow> trim_space s = s"
  by (rule trim_space_id) (auto dest: parse_ip_plain)

lemma low_half_empty: "n < 32 \<Longrightarrow> \<not> bit (push_bit 32 (k :: ip_addr)) n"
  by (simp add: bit_push_bit_iff)

lemma to4_v4_in_6 [simp]: "to4 (v4_in_6 a) = Some a"
proof -
  have hi: "drop_bit 32 (push_bit 32 (0xFFFF :: ip_addr)) = 0xFFFF" by simp
  have lo: "drop_bit 32 (ucast a :: ip_addr) = 0"
    by (rule bit_eqI) (auto simp: bit_simps dest: bit_imp_le_length)
  have "drop_bit 32 (v4_in_6 a) = 0xFFFF"
    unfolding v4_in_6_def drop_bit_or hi lo by simp
  moreover have "(ucast (v4_in_6 a) :: 32 word) = a"
  proof (rule bit_word_eqI)
    fix n assume n: "n < LENGTH(32)"
    then have lt: "n < 32" by simp
    have "bit (v4_in_6 a) n \<longleftrightarrow> bit (ucast a :: ip_addr) n"
      unfolding v4_in_6_def bit_or_iff using low_half_empty [OF lt, of "0xFFFF"] by blast
    then show "bit (ucast (v4_in_6 a) :: 32 word) n \<longleftrightarrow> bit a n"
      using n by (auto simp: bit_ucast_iff dest: bit_imp_le_length)
  qed
  ultimately show ?thesis by (simp add: to4_def)
qed

end
