(* ===== verification/Client_Address.thy ===== *)
theory Client_Address
  imports Net_Address
begin

text \<open>
  \<open>proxy/headers.go\<close> and the client fields and the \<open>Rewrite\<close> hook of \<open>proxy/proxy.go\<close>: which
  proxies are trusted, which address a request is logged under and which forwarding headers are
  sent upstream. A header is a map from canonical names to the values of their lines, as
  \<open>http.Header\<close> is; \<open>outbound_header\<close> is what \<open>httputil.ReverseProxy\<close> has made of it when it calls
  \<open>Rewrite\<close>. The lemmas follow a request through a chain of gateways.
\<close>

type_synonym header = "string \<Rightarrow> string list"

definition xff :: string where "xff = ''X-Forwarded-For''"
definition xfp :: string where "xfp = ''X-Forwarded-Proto''"
definition x_real_ip :: string where "x_real_ip = ''X-Real-Ip''"

text \<open>\<open>http.Header.Get\<close>: the first value, or the empty string.\<close>

definition header_value :: "header \<Rightarrow> string \<Rightarrow> string" where
  "header_value h k = (case h k of [] \<Rightarrow> [] | v # _ \<Rightarrow> v)"

fun join_with :: "string \<Rightarrow> string list \<Rightarrow> string" where
  "join_with sep [] = []"
| "join_with sep [v] = v"
| "join_with sep (v # vs) = v @ sep @ join_with sep vs"

section \<open>ProxyTrust\<close>

record proxy_trust =
  pt_nets :: "ip_net list"
  pt_ips :: "ip_addr list"

datatype trust_error = Bad_cidr string | Bad_ip string

fun load_trust :: "proxy_trust \<Rightarrow> string list \<Rightarrow> trust_error + proxy_trust" where
  "load_trust t [] = Inr t"
| "load_trust t (raw # specs) =
    (let s = trim_space raw in
     if s = [] then load_trust t specs
     else if CHR ''/'' \<in> set s then
       (case parse_ip_net s of
          None \<Rightarrow> Inl (Bad_cidr s)
        | Some n \<Rightarrow> load_trust (t\<lparr>pt_nets := pt_nets t @ [n]\<rparr>) specs)
     else
       (case parse_ip s of
          None \<Rightarrow> Inl (Bad_ip s)
        | Some ip \<Rightarrow> load_trust (t\<lparr>pt_ips := pt_ips t @ [ip]\<rparr>) specs))"

definition new_proxy_trust :: "string list \<Rightarrow> trust_error + proxy_trust" where
  "new_proxy_trust specs = load_trust \<lparr>pt_nets = [], pt_ips = []\<rparr> specs"

text \<open>A nil receiver trusts nobody.\<close>

definition trusted :: "proxy_trust option \<Rightarrow> string \<Rightarrow> bool" where
  "trusted pt host =
    (case pt of
       None \<Rightarrow> False
     | Some t \<Rightarrow>
         (case parse_ip host of
            None \<Rightarrow> False
          | Some ip \<Rightarrow> list_ex (\<lambda>n. net_contains n ip) (pt_nets t)
              \<or> list_ex (\<lambda>known. known = ip) (pt_ips t)))"

definition client_ip :: "string \<Rightarrow> string" where
  "client_ip remote = (case split_host_port remote of None \<Rightarrow> remote | Some (h, _) \<Rightarrow> h)"

definition trusted_peer :: "proxy_trust option \<Rightarrow> string \<Rightarrow> bool" where
  "trusted_peer pt remote = trusted pt (client_ip remote)"

section \<open>The fields of the logs\<close>

definition truncate_field :: "string \<Rightarrow> string" where
  "truncate_field v = (if length v \<le> 256 then v else take 256 v @ ''...'')"

definition raw_xff :: "header \<Rightarrow> string" where
  "raw_xff h = join_with '', '' (h xff)"

definition hops :: "string \<Rightarrow> string list" where
  "hops v = filter (\<lambda>p. p \<noteq> []) (map trim_space (split_byte CHR '','' v))"

definition xff_chain :: "header \<Rightarrow> string list" where
  "xff_chain h = concat (map hops (h xff))"

text \<open>The scan from the right: an answer, or nothing when every hop is trusted.\<close>

fun scan_hops :: "proxy_trust option \<Rightarrow> string list \<Rightarrow> string option" where
  "scan_hops pt [] = None"
| "scan_hops pt (hop # rest) =
    (if parse_ip hop = None then Some []
     else if trusted pt hop then scan_hops pt rest
     else Some hop)"

definition real_client_ip :: "proxy_trust option \<Rightarrow> header \<Rightarrow> string \<Rightarrow> string" where
  "real_client_ip pt h remote =
    (if \<not> trusted_peer pt remote then []
     else case scan_hops pt (rev (xff_chain h)) of
       Some ip \<Rightarrow> ip
     | None \<Rightarrow>
         (let v = trim_space (header_value h x_real_ip) in
          if v \<noteq> [] \<and> parse_ip v \<noteq> None \<and> \<not> trusted pt v then v else []))"

definition client_fields :: "proxy_trust option \<Rightarrow> header \<Rightarrow> string \<Rightarrow> string \<times> string \<times> string" where
  "client_fields pt h remote =
    (if pt = None \<or> \<not> trusted_peer pt remote then ([], [], [])
     else (real_client_ip pt h remote, truncate_field (raw_xff h),
           truncate_field (header_value h x_real_ip)))"

section \<open>The headers sent upstream\<close>

definition apply_forwarded_headers :: "proxy_trust option \<Rightarrow> header \<Rightarrow> string \<Rightarrow> bool \<Rightarrow> header" where
  "apply_forwarded_headers pt h remote tls =
    (let peer = client_ip remote;
         prior = if trusted_peer pt remote then h xff else [];
         h1 = h(xff := []);
         h2 = h1(xff := [if prior = [] then peer else join_with '', '' (prior @ [peer])])
     in if header_value h2 xfp = [] then h2(xfp := [if tls then ''https'' else ''http'']) else h2)"

text \<open>\<open>httputil.ReverseProxy\<close> with a \<open>Rewrite\<close> hook: from a copy of the header it removes the
names the \<open>Connection\<close> header lists, the hop-by-hop headers, and then the forwarding headers
\<open>Forwarded\<close>, \<open>X-Forwarded-For\<close>, \<open>X-Forwarded-Host\<close> and \<open>X-Forwarded-Proto\<close>, before it calls the
hook. (The \<open>Te\<close> and \<open>Upgrade\<close> headers it puts back do not matter here.)\<close>

definition listed_hop_headers :: "header \<Rightarrow> string list" where
  "listed_hop_headers h = map canonical_key (concat (map hops (h ''Connection'')))"

definition hop_by_hop_headers :: "string list" where
  "hop_by_hop_headers =
    [''Connection'', ''Proxy-Connection'', ''Keep-Alive'', ''Proxy-Authenticate'',
     ''Proxy-Authorization'', ''Te'', ''Trailer'', ''Transfer-Encoding'', ''Upgrade'']"

definition outbound_header :: "header \<Rightarrow> header" where
  "outbound_header h =
    (\<lambda>k. if k \<in> set (listed_hop_headers h) \<or> k \<in> set hop_by_hop_headers
         \<or> k \<in> set [''Forwarded'', xff, ''X-Forwarded-Host'', xfp] then [] else h k)"

text \<open>\<open>Proxy.rewrite\<close>, as far as the forwarding headers go: the header that leaves for the upstream
(without a target in the context it is left as the proxy made it).\<close>

definition rewrite_headers :: "proxy_trust option \<Rightarrow> header \<Rightarrow> string \<Rightarrow> bool \<Rightarrow> header" where
  "rewrite_headers pt h remote tls = apply_forwarded_headers pt (outbound_header h) remote tls"

section \<open>Chains of gateways\<close>

text \<open>A request that passes several gateways with the same list of trusted proxies, each calling \<open>rewrite\<close>: the peers in the order of
the hops, the client first.\<close>

fun proxy_chain :: "proxy_trust option \<Rightarrow> (string \<times> bool) list \<Rightarrow> header \<Rightarrow> header" where
  "proxy_chain pt [] h = h"
| "proxy_chain pt ((remote, tls) # rest) h =
     proxy_chain pt rest (rewrite_headers pt h remote tls)"

lemma hops_address:
  assumes "parse_ip p = Some ip"
  shows "hops p = [p]"
proof -
  have "CHR '','' \<notin> set p" using parse_ip_plain [OF assms] by blast
  then have "split_byte CHR '','' p = [p]" by (rule split_byte_single)
  then show ?thesis using parse_ip_nonempty [OF assms] parse_ip_trim [OF assms] by (simp add: hops_def)
qed

lemma trusted_parses: "trusted pt p \<Longrightarrow> parse_ip p \<noteq> None"
  by (auto simp: trusted_def split: option.splits)

lemma scan_hops_trusted:
  "\<forall>p \<in> set ps. trusted pt p \<Longrightarrow> scan_hops pt (ps @ qs) = scan_hops pt qs"
  by (induction ps) (auto dest: trusted_parses)

lemma xff_not_xfp [simp]: "xff \<noteq> xfp" "xfp \<noteq> xff" "x_real_ip \<noteq> xff" "x_real_ip \<noteq> xfp"
  by (simp_all add: xff_def xfp_def x_real_ip_def)

lemma apply_forwarded_xff:
  "apply_forwarded_headers pt h r tls xff =
    [if trusted_peer pt r \<and> h xff \<noteq> [] then join_with '', '' (h xff @ [client_ip r]) else client_ip r]"
  by (simp add: apply_forwarded_headers_def Let_def)

lemma apply_forwarded_real_ip [simp]:
  "apply_forwarded_headers pt h r tls x_real_ip = h x_real_ip"
  by (simp add: apply_forwarded_headers_def Let_def)



definition sample_trust :: "proxy_trust option" where
  "sample_trust = Some \<lparr>pt_nets = [Net4 0x0A000000 8], pt_ips = []\<rparr>"

lemma sample_trust_config: "new_proxy_trust [''10.0.0.0/8''] = Inr (the sample_trust)"
  by code_simp

lemma sample_peers:
  "trusted_peer sample_trust ''10.0.0.1:5000''" "trusted_peer sample_trust ''10.0.0.2:5000''"
  "\<not> trusted sample_trust ''203.0.113.9''" "parse_ip ''203.0.113.9'' \<noteq> None"
  "\<not> trusted sample_trust ''198.51.100.7''" "parse_ip ''198.51.100.7'' \<noteq> None"
  "client_ip ''203.0.113.9:4000'' = ''203.0.113.9''" "client_ip ''10.0.0.2:5000'' = ''10.0.0.2''"
  by code_simp+

definition forged_header :: header where
  "forged_header = (\<lambda>_. [])(xff := [''1.2.3.4''], x_real_ip := [''198.51.100.7''])"

lemma rewrite_forgets:
  "rewrite_headers pt h r tls xff = [client_ip r]
   \<and> rewrite_headers pt h r tls xfp = [if tls then ''https'' else ''http'']"
  by (simp add: rewrite_headers_def apply_forwarded_xff outbound_header_def)
     (simp add: apply_forwarded_headers_def Let_def outbound_header_def header_value_def)



lemma rewrite_real_ip:
  assumes "h ''Connection'' = []"
  shows "rewrite_headers pt h r tls x_real_ip = h x_real_ip
    \<and> rewrite_headers pt h r tls ''Connection'' = []"
  using assms
  by (simp add: rewrite_headers_def apply_forwarded_headers_def Let_def outbound_header_def
      listed_hop_headers_def hop_by_hop_headers_def xff_def xfp_def x_real_ip_def)

lemma proxy_chain_real_ip:
  "h ''Connection'' = [] \<Longrightarrow> proxy_chain pt ps h x_real_ip = h x_real_ip"
  by (induction ps arbitrary: h) (auto simp: rewrite_real_ip)

lemma proxy_chain_snoc:
  "proxy_chain pt (ps @ [(r, tls)]) h = rewrite_headers pt (proxy_chain pt ps h) r tls"
  by (induction ps arbitrary: h) auto

text \<open>Wired as it is, the gateway keeps no chain and can be told any client address.
\<open>rewrite\<close> is handed the header from which the reverse proxy has already removed the forwarding
headers, so what goes upstream names only the direct peer and the gateway's own protocol, even for a
trusted peer whose chain was to be kept. When a request has passed two gateways or more, the next one
therefore finds only trusted hops and derives whatever the client has put into \<open>X-Real-IP\<close>.\<close>

theorem the_client_chooses_its_address:
  assumes "\<forall>p \<in> set (q # g # map fst gateways). trusted_peer pt p"
    and "h ''Connection'' = []" and "h x_real_ip = [v]" and "parse_ip v \<noteq> None" and "\<not> trusted pt v"
  shows "real_client_ip pt (proxy_chain pt ((c, tls) # gateways @ [(g, tls')]) h) q = v
    \<and> proxy_chain pt ((c, tls) # gateways @ [(g, tls')]) h xff = [client_ip g]"
proof -
  let ?h = "proxy_chain pt ((c, tls) # gateways @ [(g, tls')]) h"
  have tg: "trusted pt (client_ip g)" using assms(1) by (simp add: trusted_peer_def)
  then obtain ip where ip: "parse_ip (client_ip g) = Some ip" using trusted_parses by blast
  have x: "?h xff = [client_ip g]"
    using proxy_chain_snoc [of pt "(c, tls) # gateways" g tls' h] rewrite_forgets by simp
  have "scan_hops pt (rev (xff_chain ?h)) = None"
    using x tg ip hops_address [OF ip] by (simp add: xff_chain_def)
  moreover have "header_value ?h x_real_ip = v"
    unfolding header_value_def proxy_chain_real_ip [of h pt, OF assms(2)] assms(3) by simp
  moreover have "v \<noteq> []" "trim_space v = v"
    using assms(4) parse_ip_nonempty parse_ip_trim by blast+
  ultimately show ?thesis using assms x by (simp add: real_client_ip_def)
qed

theorem the_client_chooses_its_address_witness:
  "real_client_ip sample_trust
     (proxy_chain sample_trust [(''203.0.113.9:4000'', True), (''10.0.0.1:5000'', False)] forged_header)
     ''10.0.0.2:5000'' = ''198.51.100.7''"
proof -
  have "forged_header ''Connection'' = []" "forged_header x_real_ip = [''198.51.100.7'']"
    by (simp_all add: forged_header_def xff_def x_real_ip_def)
  then show ?thesis
    using the_client_chooses_its_address [of "''10.0.0.2:5000''" "''10.0.0.1:5000''" "[]" sample_trust
        forged_header "''198.51.100.7''" "''203.0.113.9:4000''" True False] sample_peers
    by simp
qed

end
