(* ===== verification/Request_Logs.thy ===== *)
theory Request_Logs
  imports Gateway_Prelude
begin

text \<open>
  \<open>logs/access.go\<close>: the ring buffers of the access log and of the error log, and their filtered,
  paged queries. The lemmas show that a ring holds exactly the latest entries and that a query
  reads them newest first, so that pages are slices of one list (locale \<open>latest_entries\<close>,
  interpreted on both logs).
\<close>

record access_entry =
  ae_time :: go_time
  ae_host :: string
  ae_method :: string
  ae_path :: string
  ae_status :: int
  ae_client_ip :: string
  ae_request_id :: string
  ae_duration_ms :: int
  ae_user_agent :: string
  ae_protocol :: string
  ae_query :: string
  ae_upstream :: string
  ae_gateway :: string
  ae_node :: string
  ae_route :: string
  ae_real_ip :: string
  ae_xff :: string
  ae_x_real_ip :: string

record err_entry =
  ee_time :: go_time
  ee_host :: string
  ee_path :: string
  ee_status :: int
  ee_request_id :: string
  ee_error :: string
  ee_method :: string
  ee_client_ip :: string
  ee_user_agent :: string
  ee_protocol :: string
  ee_query :: string
  ee_gateway :: string
  ee_node :: string
  ee_upstream :: string
  ee_route :: string
  ee_real_ip :: string
  ee_xff :: string
  ee_x_real_ip :: string

definition no_access :: access_entry where
  "no_access = \<lparr>ae_time = 0, ae_host = [], ae_method = [], ae_path = [], ae_status = 0,
     ae_client_ip = [], ae_request_id = [], ae_duration_ms = 0, ae_user_agent = [], ae_protocol = [],
     ae_query = [], ae_upstream = [], ae_gateway = [], ae_node = [], ae_route = [], ae_real_ip = [],
     ae_xff = [], ae_x_real_ip = []\<rparr>"

definition no_err :: err_entry where
  "no_err = \<lparr>ee_time = 0, ee_host = [], ee_path = [], ee_status = 0, ee_request_id = [],
     ee_error = [], ee_method = [], ee_client_ip = [], ee_user_agent = [], ee_protocol = [],
     ee_query = [], ee_gateway = [], ee_node = [], ee_upstream = [], ee_route = [], ee_real_ip = [],
     ee_xff = [], ee_x_real_ip = []\<rparr>"

section \<open>The rings\<close>

record 'e ring =
  rg_ring :: "'e list"
  rg_head :: nat
  rg_full :: bool

definition ring_capacity :: "int \<Rightarrow> nat" where
  "ring_capacity cap = (if cap \<le> 0 then 5000 else nat cap)"

definition new_ring :: "'e \<Rightarrow> int \<Rightarrow> 'e ring" where
  "new_ring zero cap = \<lparr>rg_ring = replicate (ring_capacity cap) zero, rg_head = 0, rg_full = False\<rparr>"

definition ring_append :: "'e ring \<Rightarrow> 'e \<Rightarrow> 'e ring" where
  "ring_append r e =
    (let r1 = r\<lparr>rg_ring := (rg_ring r)[rg_head r := e],
                rg_head := (rg_head r + 1) mod length (rg_ring r)\<rparr>
     in if rg_head r1 = 0 then r1\<lparr>rg_full := True\<rparr> else r1)"

definition ring_count :: "'e ring \<Rightarrow> nat" where
  "ring_count r = (if rg_full r then length (rg_ring r) else rg_head r)"

definition new_access_log :: "int \<Rightarrow> access_entry ring" where
  "new_access_log cap = new_ring no_access cap"

definition new_err_log :: "int \<Rightarrow> err_entry ring" where
  "new_err_log cap = new_ring no_err cap"

section \<open>Queries\<close>

record log_filter =
  lf_host :: string
  lf_status :: int
  lf_request_id :: string
  lf_from :: go_time
  lf_to :: go_time

text \<open>The chain of \<open>continue\<close>s that an entry must pass, on the fields both logs share.\<close>

definition passes :: "log_filter \<Rightarrow> go_time \<Rightarrow> string \<Rightarrow> string \<Rightarrow> int \<Rightarrow> bool" where
  "passes f time rid host status \<longleftrightarrow> time \<noteq> 0
     \<and> \<not> (lf_request_id f \<noteq> [] \<and> rid \<noteq> lf_request_id f)
     \<and> \<not> (lf_host f \<noteq> [] \<and> host \<noteq> lf_host f)
     \<and> \<not> (lf_status f \<noteq> 0 \<and> status \<noteq> lf_status f)
     \<and> \<not> (lf_from f \<noteq> 0 \<and> time < lf_from f)
     \<and> \<not> (lf_to f \<noteq> 0 \<and> lf_to f < time)"

definition access_passes :: "log_filter \<Rightarrow> access_entry \<Rightarrow> bool" where
  "access_passes f e = passes f (ae_time e) (ae_request_id e) (ae_host e) (ae_status e)"

definition err_passes :: "log_filter \<Rightarrow> err_entry \<Rightarrow> bool" where
  "err_passes f e = passes f (ee_time e) (ee_request_id e) (ee_host e) (ee_status e)"

text \<open>The loop over the entries from the newest back: what is returned so far and the number of
entries matched.\<close>

fun query_loop :: "('e \<Rightarrow> bool) \<Rightarrow> int \<Rightarrow> int \<Rightarrow> 'e list \<Rightarrow> 'e list \<Rightarrow> int \<Rightarrow> 'e list \<times> int" where
  "query_loop P limit offset [] out matched = (out, matched)"
| "query_loop P limit offset (e # es) out matched =
    (if \<not> P e then query_loop P limit offset es out matched
     else if matched + 1 \<le> offset then query_loop P limit offset es out (matched + 1)
     else if limit \<le> int (length out) then query_loop P limit offset es out (matched + 1)
     else query_loop P limit offset es (out @ [e]) (matched + 1))"

definition newest_first :: "'e ring \<Rightarrow> 'e list" where
  "newest_first r =
    map (\<lambda>i. rg_ring r ! ((rg_head r + length (rg_ring r) - 1 - i) mod length (rg_ring r)))
      [0..<ring_count r]"

definition access_query ::
  "access_entry ring \<Rightarrow> log_filter \<Rightarrow> int \<Rightarrow> int \<Rightarrow> access_entry list \<times> int" where
  "access_query r f limit offset = query_loop (access_passes f) limit offset (newest_first r) [] 0"

definition err_query ::
  "err_entry ring \<Rightarrow> log_filter \<Rightarrow> int \<Rightarrow> int \<Rightarrow> err_entry list \<times> int" where
  "err_query r f limit offset = query_loop (err_passes f) limit offset (newest_first r) [] 0"

text \<open>\<open>parseLimitOffset\<close> of the handler, after \<open>Atoi\<close>.\<close>

definition clamp_page :: "int \<Rightarrow> int \<Rightarrow> int \<times> int" where
  "clamp_page limit offset =
    (if limit \<le> 0 \<or> 1000 < limit then 100 else limit, if offset < 0 then 0 else offset)"

section \<open>What a ring holds\<close>

definition ring_inv :: "'e ring \<Rightarrow> bool" where
  "ring_inv r \<longleftrightarrow> rg_ring r \<noteq> [] \<and> rg_head r < length (rg_ring r)"

lemma ring_inv_new: "ring_inv (new_ring z cap)"
  by (simp add: ring_inv_def new_ring_def ring_capacity_def)

lemma ring_inv_append: "ring_inv r \<Longrightarrow> ring_inv (ring_append r e)"
  by (simp add: ring_inv_def ring_append_def Let_def)

lemma ring_append_length [simp]: "length (rg_ring (ring_append r e)) = length (rg_ring r)"
  by (simp add: ring_append_def Let_def)

lemma newest_first_new: "newest_first (new_ring z cap) = []"
  by (simp add: newest_first_def new_ring_def ring_count_def)

lemma ring_count_append:
  assumes "ring_inv r"
  shows "ring_count (ring_append r e) = min (length (rg_ring r)) (Suc (ring_count r))"
proof (cases "Suc (rg_head r) = length (rg_ring r)")
  case True
  then show ?thesis by (auto simp: ring_count_def ring_append_def Let_def)
next
  case False
  then show ?thesis using assms by (auto simp: ring_count_def ring_append_def Let_def ring_inv_def)
qed

lemma newest_first_append:
  assumes "ring_inv r"
  shows "newest_first (ring_append r e) = take (length (rg_ring r)) (e # newest_first r)"
proof (rule nth_equalityI)
  let ?n = "length (rg_ring r)" and ?h = "rg_head r"
  have n: "0 < ?n" "?h < ?n" using assms by (auto simp: ring_inv_def)
  show len: "length (newest_first (ring_append r e)) = length (take ?n (e # newest_first r))"
    using ring_count_append [OF assms, of e] by (simp add: newest_first_def min_def)
  fix i assume i: "i < length (newest_first (ring_append r e))"
  then have lt: "i < ?n" "i < Suc (ring_count r)"
    using ring_count_append [OF assms, of e] by (simp_all add: newest_first_def)
  let ?h' = "Suc ?h mod ?n"
  have h': "rg_head (ring_append r e) = ?h'"
    by (simp add: ring_append_def Let_def)
  have ring': "rg_ring (ring_append r e) = (rg_ring r)[?h := e]"
    by (simp add: ring_append_def Let_def)
  have idx: "(?h' + ?n - 1 - i) mod ?n = (?h + ?n - i) mod ?n"
  proof (cases "Suc ?h = ?n")
    case True
    then have "?h + ?n - i = ?n - 1 - i + ?n" using lt(1) by simp
    then have "(?h + ?n - i) mod ?n = (?n - 1 - i) mod ?n" by (metis mod_add_self2)
    moreover have "?h' = 0" using True by simp
    ultimately show ?thesis by simp
  next
    case False
    then show ?thesis using n by simp
  qed
  have val: "newest_first (ring_append r e) ! i = (rg_ring r)[?h := e] ! ((?h + ?n - i) mod ?n)"
    using i idx h' ring' by (simp add: newest_first_def)
  show "newest_first (ring_append r e) ! i = take ?n (e # newest_first r) ! i"
  proof (cases i)
    case 0
    then show ?thesis using val n lt by simp
  next
    case (Suc j)
    have "(?h + ?n - i) mod ?n \<noteq> ?h"
    proof
      assume a: "(?h + ?n - i) mod ?n = ?h"
      show False
      proof (cases "i \<le> ?h")
        case True
        have "?h + ?n - i = ?h - i + ?n" using True by simp
        moreover have "(?h - i + ?n) mod ?n = ?h - i"
          using n(2) mod_add_self2 mod_less less_imp_diff_less by metis
        ultimately have "(?h + ?n - i) mod ?n = ?h - i" by (simp only:)
        then show False using a True Suc by simp
      next
        case False
        then have "?h + ?n - i < ?n" using n(2) by linarith
        then have "(?h + ?n - i) mod ?n = ?h + ?n - i" by (rule mod_less)
        then show False using a lt by simp
      qed
    qed
    moreover have "newest_first r ! j = rg_ring r ! ((?h + ?n - i) mod ?n)"
      using lt Suc by (simp add: newest_first_def)
    ultimately show ?thesis using val Suc lt by simp
  qed
qed

section \<open>What a query returns\<close>

lemma query_loop_result:
  assumes "int (length out) = min (max 0 limit) (max 0 (matched - max 0 offset))" and "0 \<le> matched"
  shows "query_loop P limit offset es out matched =
    (out @ take (nat limit - length out) (drop (nat offset - nat matched) (filter P es)),
     matched + int (length (filter P es)))"
  using assms
proof (induction es arbitrary: out matched)
  case Nil
  then show ?case by simp
next
  case (Cons e es)
  consider (skip) "\<not> P e" | (before) "P e" "matched + 1 \<le> offset"
    | (over) "P e" "\<not> matched + 1 \<le> offset" "limit \<le> int (length out)"
    | (hit) "P e" "\<not> matched + 1 \<le> offset" "\<not> limit \<le> int (length out)" by blast
  then show ?case
  proof cases
    case skip
    then show ?thesis using Cons by simp
  next
    case before
    then have d: "nat offset - nat matched = Suc (nat offset - nat (matched + 1))"
      using Cons.prems by simp
    show ?thesis using Cons.IH [of out "matched + 1"] before Cons.prems
      by (simp add: d)
  next
    case over
    then have "int (length out) = min (max 0 limit) (max 0 (matched + 1 - max 0 offset))"
      using Cons.prems by (simp add: min_def max_def split: if_splits)
    then show ?thesis using Cons.IH [of out "matched + 1"] over Cons.prems by simp
  next
    case hit
    then have k: "nat limit - length out = Suc (nat limit - Suc (length out))"
      and z: "nat offset - nat matched = 0" "nat offset - nat (matched + 1) = 0" by simp_all
    have "int (length (out @ [e])) = min (max 0 limit) (max 0 (matched + 1 - max 0 offset))"
      using hit Cons.prems by (simp add: min_def max_def split: if_splits)
    then show ?thesis using Cons.IH [of "out @ [e]" "matched + 1"] hit Cons.prems
      by (simp add: k z)
  qed
qed

lemma query_loop_page:
  "query_loop P limit offset es [] 0 =
    (take (nat limit) (drop (nat offset) (filter P es)), int (length (filter P es)))"
  using query_loop_result [of "[]" limit 0 offset P es] by (simp add: min_def max_def)

text \<open>The contract of a log of bounded size: it reads as the latest entries, newest first.\<close>

locale latest_entries =
  fixes fresh :: "int \<Rightarrow> 'l" and add :: "'l \<Rightarrow> 'e \<Rightarrow> 'l" and entries :: "'l \<Rightarrow> 'e list"
    and room :: "'l \<Rightarrow> nat" and ok :: "'l \<Rightarrow> bool"
  assumes fresh: "ok (fresh cap)" "entries (fresh cap) = []"
    and add: "ok l \<Longrightarrow> ok (add l e)" "ok l \<Longrightarrow> room (add l e) = room l"
      "ok l \<Longrightarrow> entries (add l e) = take (room l) (e # entries l)"
begin

lemma add_all:
  assumes "ok l"
  shows "ok (foldl add l es) \<and> room (foldl add l es) = room l
    \<and> entries (foldl add l es) = (if es = [] then entries l else take (room l) (rev es @ entries l))"
  using assms
proof (induction es rule: rev_induct)
  case Nil
  then show ?case by simp
next
  case (snoc e es)
  then have IH: "ok (foldl add l es)" "room (foldl add l es) = room l"
    "entries (foldl add l es) = (if es = [] then entries l else take (room l) (rev es @ entries l))"
    by simp_all
  then show ?case using add [OF IH(1)] by (auto simp: min_def take_Cons' split: if_splits)
qed

lemma latest:
  "entries (foldl add (fresh cap) es) = take (room (fresh cap)) (rev es)"
  using add_all [OF fresh(1), of cap es] fresh(2) by (auto split: if_splits)

end

interpretation access_log: latest_entries new_access_log ring_append newest_first
  "\<lambda>r. length (rg_ring r)" ring_inv
  by unfold_locales
    (simp_all add: new_access_log_def ring_inv_new newest_first_new ring_inv_append newest_first_append)

interpretation err_log: latest_entries new_err_log ring_append newest_first
  "\<lambda>r. length (rg_ring r)" ring_inv
  by unfold_locales
    (simp_all add: new_err_log_def ring_inv_new newest_first_new ring_inv_append newest_first_append)

text \<open>The access log is the list of the latest requests: after any number of entries
a query returns, of the entries that pass its filter among the last \<open>cap\<close> ones and newest first, the
page from \<open>offset\<close> with at most \<open>limit\<close> of them, and the number of all that pass, whatever the page.
(Only an entry stamped with Go's zero time would be taken for an unused place of the ring.)\<close>

theorem access_log_is_the_latest_requests:
  "access_query (foldl ring_append (new_access_log cap) es) f limit offset =
    (let found = filter (access_passes f) (take (ring_capacity cap) (rev es))
     in (take (nat limit) (drop (nat offset) found), int (length found)))"
proof -
  have "newest_first (foldl ring_append (new_access_log cap) es) = take (ring_capacity cap) (rev es)"
    using access_log.latest [of cap es] by (simp add: new_access_log_def new_ring_def)
  then show ?thesis by (simp add: access_query_def query_loop_page Let_def)
qed

lemma err_log_is_the_latest_errors:
  "err_query (foldl ring_append (new_err_log cap) es) f limit offset =
    (let found = filter (err_passes f) (take (ring_capacity cap) (rev es))
     in (take (nat limit) (drop (nat offset) found), int (length found)))"
proof -
  have "newest_first (foldl ring_append (new_err_log cap) es) = take (ring_capacity cap) (rev es)"
    using err_log.latest [of cap es] by (simp add: new_err_log_def new_ring_def)
  then show ?thesis by (simp add: err_query_def query_loop_page Let_def)
qed

end
