(* ===== verification/Proxy.thy ===== *)
theory Proxy
  imports Client_Address Request_Logs Route_Behaviour
begin

text \<open>
  \<open>proxy/proxy.go\<close>, \<open>proxy/requestid.go\<close> and \<open>proxy/context.go\<close>: the life of a request in the
  data plane. \<open>ServeHTTP\<close> is split where it calls the reverse proxy: \<open>serve_begin\<close> is what it does
  before (request ID, host, SNI, routing, the counters) and \<open>serve_finish\<close> what it does after, with
  its deferred calls, so that requests in flight interleave. The state is what the calls change: the
  resolver, the calls on the metrics registry and the two logs. What the upstream does is an
  argument (\<open>upstream\<close>); spans and zap lines are not modelled.
\<close>

section \<open>Requests and configuration\<close>

record request =
  rq_host :: string
  rq_method :: string
  rq_path :: string
  rq_query :: string
  rq_remote :: string
  rq_header :: header
  rq_tls :: "string option" \<comment> \<open>the server name of the handshake\<close>

record proxy_config =
  px_metrics :: bool
  px_access :: bool
  px_errlog :: bool
  px_enforce_sni :: bool
  px_context :: bool \<comment> \<open>the resolver is a \<open>ContextResolver\<close>\<close>
  px_reporter :: bool \<comment> \<open>the resolver is a \<open>ConnReporter\<close>\<close>
  px_gateway :: string
  px_node :: string
  px_trust :: "proxy_trust option"

datatype metric_call =
    Metric_add string int "(string \<times> string) list"
  | Metric_observe string int "(string \<times> string) list"

record 'r gateway =
  gw_resolver :: 'r
  gw_metrics :: "metric_call list"
  gw_access :: "access_entry ring"
  gw_errs :: "err_entry ring"

datatype upstream =
    Answered int \<comment> \<open>a response with this status, copied to its end\<close>
  | Body_too_large \<comment> \<open>the limit on the request body was hit while it was forwarded\<close>
  | Unreachable string \<comment> \<open>an error of the transport\<close>
  | Aborted bool \<comment> \<open>a panic: before (False: a target whose URL does not parse) or while the response is copied\<close>

record reply =
  rp_status :: int
  rp_retry_after :: string
  rp_cookie :: "(string \<times> string \<times> int) option"

definition plain_reply :: "int \<Rightarrow> reply" where
  "plain_reply status = \<lparr>rp_status = status, rp_retry_after = [], rp_cookie = None\<rparr>"

section \<open>requestid.go and the small helpers\<close>

definition request_id_header :: string where "request_id_header = ''X-Request-Id''"

text \<open>\<open>ensureRequestID\<close>; \<open>fresh\<close> is what \<open>newRequestID\<close> returns.\<close>

definition ensure_request_id :: "string \<Rightarrow> request \<Rightarrow> request \<times> string" where
  "ensure_request_id fresh r =
    (let rid = header_value (rq_header r) request_id_header in
     if rid \<noteq> [] then (r, rid)
     else (r\<lparr>rq_header := (rq_header r)(request_id_header := [fresh])\<rparr>, fresh))"

definition request_scheme :: "request \<Rightarrow> string" where
  "request_scheme r = (if rq_tls r \<noteq> None then ''https'' else ''http'')"

definition normalize_host_label :: "(string \<Rightarrow> string option) \<Rightarrow> string \<Rightarrow> string outcome" where
  "normalize_host_label to_ascii host =
    (case normalize_host to_ascii host of
       Panics \<Rightarrow> Panics
     | Returns (Inl _) \<Rightarrow> Returns host
     | Returns (Inr n) \<Rightarrow> Returns n)"

text \<open>\<open>headerMap\<close>: the first value of each header under its lower-case name. The names of a
received header are canonical, so a lower-case name stands for the canonical one.\<close>

definition header_map :: "header \<Rightarrow> string \<Rightarrow> string option" where
  "header_map h k =
    (if to_lower k = k then (case h (canonical_key k) of [] \<Rightarrow> None | v # _ \<Rightarrow> Some v) else None)"

definition no_match_view :: match_view where
  "no_match_view = \<lparr>mv_header = Map.empty, mv_path = [], mv_client_ip = []\<rparr>"

definition match_view_of :: "proxy_config \<Rightarrow> request \<Rightarrow> match_view" where
  "match_view_of cfg r =
    (if px_context cfg
     then \<lparr>mv_header = header_map (rq_header r), mv_path = rq_path r, mv_client_ip = client_ip (rq_remote r)\<rparr>
     else no_match_view)"

definition user_agent :: "request \<Rightarrow> string" where
  "user_agent r = truncate_field (header_value (rq_header r) ''User-Agent'')"

section \<open>Metrics and logs\<close>

definition metric :: "proxy_config \<Rightarrow> metric_call \<Rightarrow> 'r gateway \<Rightarrow> 'r gateway" where
  "metric cfg m s = (if px_metrics cfg then s\<lparr>gw_metrics := gw_metrics s @ [m]\<rparr> else s)"

definition requests_total :: string where "requests_total = ''maple_requests_total''"
definition active_connections :: string where "active_connections = ''maple_active_connections''"
definition request_duration :: string where "request_duration = ''maple_request_duration_seconds''"
definition upstream_total :: string where "upstream_total = ''maple_upstream_requests_total''"

text \<open>\<open>countRequest\<close>; \<open>label\<close> is \<open>normalizeHostLabel(r.Host)\<close>.\<close>

definition count_request :: "proxy_config \<Rightarrow> string \<Rightarrow> int \<Rightarrow> 'r gateway \<Rightarrow> 'r gateway" where
  "count_request cfg label status s =
    metric cfg (Metric_add requests_total 1
      [(''host'', if label = [] then ''-'' else label), (''status'', itoa status)]) s"

definition append_err :: "proxy_config \<Rightarrow> string \<Rightarrow> request \<Rightarrow> target option \<Rightarrow> string \<Rightarrow> int \<Rightarrow>
    string \<Rightarrow> go_time \<Rightarrow> 'r gateway \<Rightarrow> 'r gateway" where
  "append_err cfg label r tg rid status msg now s =
    (if \<not> px_errlog cfg then s
     else case client_fields (px_trust cfg) (rq_header r) (rq_remote r) of (real, xf, xr) \<Rightarrow>
       s\<lparr>gw_errs := ring_append (gw_errs s)
          \<lparr>ee_time = now, ee_host = label, ee_path = rq_path r, ee_status = status, ee_request_id = rid,
           ee_error = msg, ee_method = rq_method r, ee_client_ip = client_ip (rq_remote r),
           ee_user_agent = user_agent r, ee_protocol = request_scheme r, ee_query = rq_query r,
           ee_gateway = px_gateway cfg, ee_node = px_node cfg,
           ee_upstream = (case tg of None \<Rightarrow> [] | Some t \<Rightarrow> tg_host t),
           ee_route = (case tg of None \<Rightarrow> [] | Some t \<Rightarrow> tg_route t),
           ee_real_ip = real, ee_xff = xf, ee_x_real_ip = xr\<rparr>\<rparr>)"

definition append_access :: "proxy_config \<Rightarrow> string \<Rightarrow> request \<Rightarrow> target \<Rightarrow> string \<Rightarrow> int \<Rightarrow>
    go_time \<Rightarrow> go_time \<Rightarrow> 'r gateway \<Rightarrow> 'r gateway" where
  "append_access cfg host r tg rid status elapsed now s =
    (if \<not> px_access cfg then s
     else case client_fields (px_trust cfg) (rq_header r) (rq_remote r) of (real, xf, xr) \<Rightarrow>
       s\<lparr>gw_access := ring_append (gw_access s)
          \<lparr>ae_time = now, ae_host = host, ae_method = rq_method r, ae_path = rq_path r,
           ae_status = status, ae_client_ip = client_ip (rq_remote r), ae_request_id = rid,
           ae_duration_ms = elapsed div 1000000, ae_user_agent = user_agent r,
           ae_protocol = request_scheme r, ae_query = rq_query r, ae_upstream = tg_host tg,
           ae_gateway = px_gateway cfg, ae_node = px_node cfg, ae_route = tg_route tg,
           ae_real_ip = real, ae_xff = xf, ae_x_real_ip = xr\<rparr>\<rparr>)"

section \<open>Refusals\<close>

fun resolve_status :: "route_error \<Rightarrow> int" where
  "resolve_status ErrNotFound = 404"
| "resolve_status ErrDomainDisabled = 403"
| "resolve_status ErrTenantSuspended = 503"
| "resolve_status ErrNoHealthy = 503"
| "resolve_status ErrRateLimited = 429"
| "resolve_status ErrInvalidHost = 500"

fun error_text :: "route_error \<Rightarrow> string" where
  "error_text ErrNotFound = ''route: host not found''"
| "error_text ErrDomainDisabled = ''route: domain disabled''"
| "error_text ErrTenantSuspended = ''route: tenant suspended or disabled''"
| "error_text ErrNoHealthy = ''route: no healthy instance''"
| "error_text ErrInvalidHost = ''route: invalid host''"
| "error_text ErrRateLimited = ''route: rate limited''"

definition handle_resolve_error :: "proxy_config \<Rightarrow> string \<Rightarrow> request \<Rightarrow> string \<Rightarrow> route_error \<Rightarrow>
    go_time \<Rightarrow> 'r gateway \<Rightarrow> 'r gateway \<times> reply" where
  "handle_resolve_error cfg label r rid e now s =
    (append_err cfg label r None rid (resolve_status e) (error_text e) now
       (count_request cfg label (resolve_status e) s),
     \<lparr>rp_status = resolve_status e, rp_retry_after = (if e = ErrRateLimited then ''1'' else []),
      rp_cookie = None\<rparr>)"

section \<open>ServeHTTP up to the reverse proxy\<close>

record pending =
  pd_request :: request
  pd_id :: string
  pd_host :: string
  pd_target :: target
  pd_elapsed :: go_time

datatype begun = Refused reply | Crashed | Forwarding pending

definition sni_mismatch :: "proxy_config \<Rightarrow> (string \<Rightarrow> string option) \<Rightarrow> request \<Rightarrow> string \<Rightarrow> bool outcome" where
  "sni_mismatch cfg to_ascii r host =
    (case rq_tls r of
       None \<Rightarrow> Returns False
     | Some name \<Rightarrow>
         if \<not> px_enforce_sni cfg \<or> name = [] then Returns False
         else (case normalize_host to_ascii name of
             Panics \<Rightarrow> Panics
           | Returns (Inl _) \<Rightarrow> Returns False
           | Returns (Inr sni) \<Rightarrow> Returns (sni \<noteq> host)))"

definition active :: "proxy_config \<Rightarrow> int \<Rightarrow> 'r gateway \<Rightarrow> 'r gateway" where
  "active cfg d s = metric cfg (Metric_add active_connections d []) s"

text \<open>\<open>counts cfg t\<close>: the connection is reported to the resolver.\<close>

definition counts :: "proxy_config \<Rightarrow> target \<Rightarrow> bool" where
  "counts cfg t \<longleftrightarrow> px_reporter cfg \<and> tg_instance t \<noteq> []"

definition serve_begin ::
  "('r \<Rightarrow> string \<Rightarrow> match_view \<Rightarrow> ('r \<times> (route_error + target)) outcome) \<Rightarrow> (string \<Rightarrow> 'r \<Rightarrow> 'r) \<Rightarrow>
    proxy_config \<Rightarrow> (string \<Rightarrow> string option) \<Rightarrow> string \<Rightarrow> go_time \<Rightarrow> go_time \<Rightarrow> request \<Rightarrow>
    'r gateway \<Rightarrow> 'r gateway \<times> begun" where
  "serve_begin resolve inc cfg to_ascii fresh start resolved r0 s0 =
    (let (r, rid) = ensure_request_id fresh r0 in
     case normalize_host to_ascii (rq_host r) of
       Panics \<Rightarrow> (s0, Crashed)
     | Returns (Inl _) \<Rightarrow> (s0, Refused (plain_reply 400))
     | Returns (Inr host) \<Rightarrow>
         (case sni_mismatch cfg to_ascii r host of
            Panics \<Rightarrow> (s0, Crashed)
          | Returns True \<Rightarrow> (s0, Refused (plain_reply 421))
          | Returns False \<Rightarrow>
              (let s = active cfg 1 s0 in
               case resolve (gw_resolver s) host (match_view_of cfg r) of
                 Panics \<Rightarrow> (active cfg (- 1) s, Crashed)
               | Returns (rs, Inl e) \<Rightarrow>
                   (case handle_resolve_error cfg host r rid e resolved (s\<lparr>gw_resolver := rs\<rparr>) of
                      (s1, rep) \<Rightarrow> (active cfg (- 1) s1, Refused rep))
               | Returns (rs, Inr t) \<Rightarrow>
                   (s\<lparr>gw_resolver := (if counts cfg t then inc (tg_instance t) rs else rs)\<rparr>,
                    Forwarding \<lparr>pd_request = r, pd_id = rid, pd_host = host, pd_target = t,
                                pd_elapsed = resolved - start\<rparr>))))"

section \<open>The rest of ServeHTTP\<close>

text \<open>\<open>ModifyResponse\<close>: the upstream counter, and the session cookie of a first visit.\<close>

definition modify_response :: "proxy_config \<Rightarrow> string \<Rightarrow> 'r gateway \<Rightarrow> 'r gateway" where
  "modify_response cfg label s = metric cfg (Metric_add upstream_total 1 [(''host'', label)]) s"

definition response_cookie :: "target \<Rightarrow> (string \<times> string \<times> int) option" where
  "response_cookie t = map_option (\<lambda>c. (ck_name c, ck_value c,
      if ck_ttl c \<le> 0 then 86400 * 30 else ck_ttl c)) (tg_sticky t)"

text \<open>\<open>handleUpstreamError\<close>: the message and the status.\<close>

definition body_limit_text :: string where "body_limit_text = ''request body exceeds limit''"

text \<open>The reverse proxy's call: the status it leaves in the recorder, None when it panics.\<close>

fun forward :: "proxy_config \<Rightarrow> pending \<Rightarrow> upstream \<Rightarrow> go_time \<Rightarrow> 'r gateway \<Rightarrow> 'r gateway \<times> reply option" where
  "forward cfg p (Answered n) now s =
     (modify_response cfg (pd_host p) s,
      Some \<lparr>rp_status = n, rp_retry_after = [], rp_cookie = response_cookie (pd_target p)\<rparr>)"
| "forward cfg p Body_too_large now s =
     (append_err cfg (pd_host p) (pd_request p) (Some (pd_target p)) (pd_id p) 413 body_limit_text now s,
      Some (plain_reply 413))"
| "forward cfg p (Unreachable msg) now s =
     (append_err cfg (pd_host p) (pd_request p) (Some (pd_target p)) (pd_id p) 502 msg now s,
      Some (plain_reply 502))"
| "forward cfg p (Aborted answered) now s =
     (if answered then modify_response cfg (pd_host p) s else s, None)"

definition record_request :: "proxy_config \<Rightarrow> pending \<Rightarrow> int \<Rightarrow> go_time \<Rightarrow> 'r gateway \<Rightarrow> 'r gateway" where
  "record_request cfg p status now s =
    (let labels = [(''host'', pd_host p), (''version'', tg_version (pd_target p))];
         s1 = metric cfg (Metric_add requests_total 1
                [(''host'', pd_host p), (''status'', itoa status), (''version'', tg_version (pd_target p))]) s;
         s2 = metric cfg (Metric_observe request_duration (pd_elapsed p) labels) s1
     in append_access cfg (pd_host p) (pd_request p) (pd_target p) (pd_id p) status (pd_elapsed p) now s2)"

text \<open>The deferred calls run last in, first out: the connection, then the gauge.\<close>

definition serve_finish ::
  "(string \<Rightarrow> 'r \<Rightarrow> 'r) \<Rightarrow> proxy_config \<Rightarrow> pending \<Rightarrow> upstream \<Rightarrow> go_time \<Rightarrow> 'r gateway \<Rightarrow>
    'r gateway \<times> reply option" where
  "serve_finish dec cfg p up now s0 =
    (case forward cfg p up now s0 of (s1, rep) \<Rightarrow>
      let s2 = (case rep of None \<Rightarrow> s1 | Some x \<Rightarrow> record_request cfg p (rp_status x) now s1);
          s3 = (if counts cfg (pd_target p)
                then s2\<lparr>gw_resolver := dec (tg_instance (pd_target p)) (gw_resolver s2)\<rparr> else s2)
      in (active cfg (- 1) s3, rep))"

section \<open>The contract between the proxy and a resolver that counts connections\<close>

text \<open>\<open>router.Resolver\<close> with \<open>router.ConnReporter\<close>: resolving leaves the connection counts alone,
reporting moves the count of one instance by one.\<close>

locale reporting_resolver =
  fixes resolve :: "go_time \<Rightarrow> 'r \<Rightarrow> string \<Rightarrow> match_view \<Rightarrow> ('r \<times> (route_error + target)) outcome"
    and inc :: "string \<Rightarrow> 'r \<Rightarrow> 'r" and dec :: "string \<Rightarrow> 'r \<Rightarrow> 'r" and load :: "'r \<Rightarrow> string \<Rightarrow> int"
  assumes load_resolve: "resolve now s h mv = Returns (s', x) \<Longrightarrow> load s' = load s"
    and load_inc: "load (inc i s) = (load s)(i := load s i + 1)"
    and load_dec: "0 < load s i \<Longrightarrow> load (dec i s) = (load s)(i := load s i - 1)"

text \<open>The proxy as a machine: requests arrive, and requests in flight end, in any order.\<close>

datatype proxy_event =
    Arrive string go_time go_time request
  | Leave nat upstream go_time

fun proxy_step ::
  "(go_time \<Rightarrow> 'r \<Rightarrow> string \<Rightarrow> match_view \<Rightarrow> ('r \<times> (route_error + target)) outcome) \<Rightarrow>
    (string \<Rightarrow> 'r \<Rightarrow> 'r) \<Rightarrow> (string \<Rightarrow> 'r \<Rightarrow> 'r) \<Rightarrow> proxy_config \<Rightarrow> (string \<Rightarrow> string option) \<Rightarrow>
    'r gateway \<times> pending list \<Rightarrow> proxy_event \<Rightarrow> 'r gateway \<times> pending list" where
  "proxy_step resolve inc dec cfg to_ascii (s, ps) (Arrive fresh start resolved r) =
     (case serve_begin (resolve start) inc cfg to_ascii fresh start resolved r s of
        (s1, Forwarding p) \<Rightarrow> (s1, ps @ [p])
      | (s1, _) \<Rightarrow> (s1, ps))"
| "proxy_step resolve inc dec cfg to_ascii (s, ps) (Leave i up now) =
     (if i < length ps
      then (fst (serve_finish dec cfg (ps ! i) up now s), take i ps @ drop (Suc i) ps)
      else (s, ps))"

definition metric_level :: "string \<Rightarrow> metric_call list \<Rightarrow> int" where
  "metric_level name ms =
    sum_list (map (\<lambda>m. case m of Metric_add n d _ \<Rightarrow> if n = name then d else 0 | _ \<Rightarrow> 0) ms)"

definition in_flight :: "proxy_config \<Rightarrow> string \<Rightarrow> pending list \<Rightarrow> int" where
  "in_flight cfg i ps = int (length (filter (\<lambda>p. counts cfg (pd_target p) \<and> tg_instance (pd_target p) = i) ps))"

section \<open>What the calls leave alone\<close>

lemma metric_names [simp]:
  "requests_total \<noteq> active_connections" "active_connections \<noteq> requests_total"
  "upstream_total \<noteq> active_connections" "active_connections \<noteq> upstream_total"
  "upstream_total \<noteq> requests_total" "requests_total \<noteq> upstream_total"
  by (simp_all add: requests_total_def active_connections_def upstream_total_def)

lemma metric_level_snoc [simp]:
  "metric_level name [] = 0"
  "metric_level name (ms @ [Metric_add n d l]) = metric_level name ms + (if n = name then d else 0)"
  "metric_level name (ms @ [Metric_observe n t l]) = metric_level name ms"
  by (simp_all add: metric_level_def)

lemma level_metric [simp]:
  "metric_level name (gw_metrics (metric cfg (Metric_add n d l) s)) =
    metric_level name (gw_metrics s) + (if px_metrics cfg \<and> n = name then d else 0)"
  "metric_level name (gw_metrics (metric cfg (Metric_observe n t l) s)) = metric_level name (gw_metrics s)"
  by (simp_all add: metric_def)

lemma metric_frame [frame_simps]:
  "gw_resolver (metric cfg m s) = gw_resolver s" "gw_access (metric cfg m s) = gw_access s"
  "gw_errs (metric cfg m s) = gw_errs s"
  by (simp_all add: metric_def)

lemma append_err_frame [frame_simps]:
  "gw_resolver (append_err cfg l r t rid st msg now s) = gw_resolver s"
  "gw_metrics (append_err cfg l r t rid st msg now s) = gw_metrics s"
  "gw_access (append_err cfg l r t rid st msg now s) = gw_access s"
  by (simp_all add: append_err_def split: prod.split)

lemma append_access_frame [frame_simps]:
  "gw_resolver (append_access cfg l r t rid st el now s) = gw_resolver s"
  "gw_metrics (append_access cfg l r t rid st el now s) = gw_metrics s"
  "gw_errs (append_access cfg l r t rid st el now s) = gw_errs s"
  by (simp_all add: append_access_def split: prod.split)

lemma forward_frame [frame_simps]:
  "gw_resolver (fst (forward cfg p up now s)) = gw_resolver s"
  "gw_access (fst (forward cfg p up now s)) = gw_access s"
  "metric_level active_connections (gw_metrics (fst (forward cfg p up now s))) =
    metric_level active_connections (gw_metrics s)"
  "metric_level requests_total (gw_metrics (fst (forward cfg p up now s))) =
    metric_level requests_total (gw_metrics s)"
  by (cases up; simp add: modify_response_def frame_simps)+

lemma record_request_frame [frame_simps]:
  "gw_resolver (record_request cfg p st now s) = gw_resolver s"
  "gw_errs (record_request cfg p st now s) = gw_errs s"
  "metric_level active_connections (gw_metrics (record_request cfg p st now s)) =
    metric_level active_connections (gw_metrics s)"
  by (simp_all add: record_request_def Let_def frame_simps)

lemma finish_effect:
  "metric_level active_connections (gw_metrics (fst (serve_finish dec cfg p up now s))) =
     metric_level active_connections (gw_metrics s) - (if px_metrics cfg then 1 else 0)"
  "gw_resolver (fst (serve_finish dec cfg p up now s)) =
     (if counts cfg (pd_target p) then dec (tg_instance (pd_target p)) (gw_resolver s) else gw_resolver s)"
proof -
  obtain s1 rep where f: "forward cfg p up now s = (s1, rep)" by fastforce
  then have s1: "gw_resolver s1 = gw_resolver s"
    "metric_level active_connections (gw_metrics s1) = metric_level active_connections (gw_metrics s)"
    using forward_frame [of cfg p up now s] by simp_all
  show "metric_level active_connections (gw_metrics (fst (serve_finish dec cfg p up now s))) =
     metric_level active_connections (gw_metrics s) - (if px_metrics cfg then 1 else 0)"
    using s1 by (cases rep) (simp_all add: serve_finish_def f active_def Let_def frame_simps)
  show "gw_resolver (fst (serve_finish dec cfg p up now s)) =
     (if counts cfg (pd_target p) then dec (tg_instance (pd_target p)) (gw_resolver s) else gw_resolver s)"
    using s1 by (cases rep) (simp_all add: serve_finish_def f active_def Let_def frame_simps)
qed

lemma refusal_frame:
  assumes "handle_resolve_error cfg l r rid e now s = (s1, rep)"
  shows "gw_resolver s1 = gw_resolver s"
    "metric_level active_connections (gw_metrics s1) = metric_level active_connections (gw_metrics s)"
  using assms by (auto simp: handle_resolve_error_def count_request_def frame_simps)

lemma begin_active:
  "metric_level active_connections (gw_metrics (fst (serve_begin resolve inc cfg to_ascii fresh t0 t1 r s))) =
     metric_level active_connections (gw_metrics s) +
       (case snd (serve_begin resolve inc cfg to_ascii fresh t0 t1 r s) of
          Forwarding _ \<Rightarrow> (if px_metrics cfg then 1 else 0) | _ \<Rightarrow> 0)"
  by (simp add: serve_begin_def Let_def active_def refusal_frame split: prod.split outcome.split sum.split bool.split)

lemma begin_resolver:
  assumes "serve_begin resolve inc cfg to_ascii fresh t0 t1 r s = (s', out)"
  shows "(gw_resolver s' = gw_resolver s \<and> (\<forall>p. out \<noteq> Forwarding p))
    \<or> (\<exists>h mv rs x. resolve (gw_resolver s) h mv = Returns (rs, x) \<and>
        (case out of
           Forwarding p \<Rightarrow> x = Inr (pd_target p) \<and> gw_resolver s' =
             (if counts cfg (pd_target p) then inc (tg_instance (pd_target p)) rs else rs)
         | _ \<Rightarrow> gw_resolver s' = rs))"
  using assms
  by (auto simp: serve_begin_def Let_def active_def frame_simps
      split: prod.splits outcome.splits sum.splits bool.splits dest!: refusal_frame(1); blast)

context reporting_resolver begin

lemma begin_load:
  assumes "serve_begin (resolve t) inc cfg to_ascii fresh t0 t1 r s = (s', out)"
  shows "load (gw_resolver s') i = load (gw_resolver s) i +
    (case out of Forwarding p \<Rightarrow> in_flight cfg i [p] | _ \<Rightarrow> 0)"
  using begin_resolver [OF assms]
  by (auto simp: load_inc in_flight_def dest!: load_resolve split: begun.splits if_splits)

definition settled :: "proxy_config \<Rightarrow> 'r gateway \<times> pending list \<Rightarrow> bool" where
  "settled cfg x \<longleftrightarrow> (\<forall>i. load (gw_resolver (fst x)) i = in_flight cfg i (snd x))
    \<and> (px_metrics cfg \<longrightarrow>
         metric_level active_connections (gw_metrics (fst x)) = int (length (snd x)))"

lemma settled_step:
  assumes "settled cfg x"
  shows "settled cfg (proxy_step resolve inc dec cfg to_ascii x e)"
proof -
  obtain s ps where x: "x = (s, ps)" by fastforce
  show ?thesis
  proof (cases e)
    case (Arrive fresh t0 t1 r)
    obtain s' out where b: "serve_begin (resolve t0) inc cfg to_ascii fresh t0 t1 r s = (s', out)"
      by fastforce
    then show ?thesis
      using assms begin_load [OF b] begin_active [of "resolve t0" inc cfg to_ascii fresh t0 t1 r s]
      by (cases out) (auto simp: x Arrive settled_def in_flight_def)
  next
    case (Leave i up now)
    show ?thesis
    proof (cases "i < length ps")
      case True
      let ?p = "ps ! i" and ?rest = "take i ps @ drop (Suc i) ps"
      have ps: "ps = take i ps @ ?p # drop (Suc i) ps" using True by (simp add: id_take_nth_drop)
      have fl: "in_flight cfg j ps = in_flight cfg j ?rest +
          (if counts cfg (pd_target ?p) \<and> tg_instance (pd_target ?p) = j then 1 else 0)" for j
        by (subst ps) (simp add: in_flight_def)
      let ?k = "tg_instance (pd_target ?p)"
      have "load (gw_resolver (fst (serve_finish dec cfg ?p up now s))) j = in_flight cfg j ?rest" for j
      proof (cases "counts cfg (pd_target ?p)")
        case c: True
        have "load (gw_resolver s) ?k = in_flight cfg ?k ?rest + 1"
          using assms fl [of ?k] c by (simp add: settled_def x)
        moreover have "0 \<le> in_flight cfg ?k ?rest" by (simp add: in_flight_def)
        ultimately have "0 < load (gw_resolver s) ?k" by linarith
        from load_dec [OF this] show ?thesis
          using assms fl [of j] fl [of ?k] c by (auto simp: finish_effect settled_def x)
      next
        case False
        then show ?thesis using assms fl [of j] by (simp add: finish_effect settled_def x)
      qed
      then show ?thesis using assms True
        by (simp add: x Leave settled_def finish_effect)
    qed (use assms in \<open>simp add: x Leave\<close>)
  qed
qed

lemma settled_run: "settled cfg x \<Longrightarrow> settled cfg (foldl (proxy_step resolve inc dec cfg to_ascii) x es)"
  by (induction es arbitrary: x) (simp_all add: settled_step)

end

section \<open>The cached resolver keeps the contract\<close>

text \<open>\<open>CacheResolver\<close> behind the interfaces of the router package. \<open>order\<close> lists the header names
in the order the map is iterated; \<open>fuel\<close> bounds the fallbacks between versions, of which there are
at most three (lemma \<open>every_request_is_answered\<close>), so running out stands for nothing that happens.\<close>

definition cache_resolve ::
  "(string \<Rightarrow> string option) \<Rightarrow> string list \<Rightarrow> ('s \<Rightarrow> rl_request \<Rightarrow> ('s \<times> allowance) outcome) \<Rightarrow>
    go_time \<Rightarrow> 's resolver \<Rightarrow> string \<Rightarrow> match_view \<Rightarrow> ('s resolver \<times> (route_error + target)) outcome" where
  "cache_resolve to_ascii order allow now z host mv =
    (case resolve_with 3 to_ascii allow now host (view_from order mv) z of
       Some out \<Rightarrow> out | None \<Rightarrow> Panics)"

definition resolver_inc :: "string \<Rightarrow> 's resolver \<Rightarrow> 's resolver" where
  "resolver_inc i z = z\<lparr>rz_bal := (rz_bal z)\<lparr>b_conn := inc_conn i (b_conn (rz_bal z))\<rparr>\<rparr>"

definition resolver_dec :: "string \<Rightarrow> 's resolver \<Rightarrow> 's resolver" where
  "resolver_dec i z = z\<lparr>rz_bal := (rz_bal z)\<lparr>b_conn := dec_conn i (b_conn (rz_bal z))\<rparr>\<rparr>"

definition resolver_load :: "'s resolver \<Rightarrow> string \<Rightarrow> int" where
  "resolver_load z = b_conn (rz_bal z)"

text \<open>No choice of an instance touches the connection counts.\<close>

definition keeps_conn :: "balancer \<Rightarrow> pick \<Rightarrow> bool" where
  "keeps_conn b p \<longleftrightarrow> (\<forall>b' x. p = Some (Returns (b', x)) \<longrightarrow> b_conn b' = b_conn b)"

lemma select_conn: "select b k pool = Returns (b', x) \<Longrightarrow> b_conn b' = b_conn b"
  by (auto simp: select_def Let_def split: if_splits outcome.splits)

lemma pick_weighted_conn: "pick_weighted b k ws = Returns (b', x) \<Longrightarrow> b_conn b' = b_conn b"
  by (auto simp: pick_weighted_def Let_def split: if_splits outcome.splits)

lemma version_index_conn: "pick_version_index k vs P b = Returns (b', x) \<Longrightarrow> b_conn b' = b_conn b"
  by (auto simp: pick_version_index_def Let_def split: if_splits outcome.splits dest: pick_weighted_conn)

lemma choose_member_conn: "choose_member e v bal rv pool b = Returns (b', x) \<Longrightarrow> b_conn b' = b_conn b"
  by (auto simp: choose_member_def Let_def split: if_splits option.splits dest: select_conn)

lemma finish_conn:
  assumes "\<And>b' x. r = Returns (b', x) \<Longrightarrow> b_conn b' = b_conn b"
  shows "keeps_conn b (finish r f)"
proof (cases r)
  case (Returns y)
  obtain b' i where y: "y = (b', i)" by fastforce
  then have "b_conn b' = b_conn b" using assms Returns by blast
  then show ?thesis by (cases i) (simp_all add: finish_def keeps_conn_def Returns y)
qed (simp add: finish_def keeps_conn_def)

lemma balanced_conn:
  "keeps_conn b (pick_balanced n e v bal rv b)" "keeps_conn b (pick_fallback n e v b)"
proof (induction n e v bal rv b and n e v b rule: pick_balanced_pick_fallback.induct)
  case (2 n e v bal rv b)
  then show ?case by (auto simp: Let_def intro: finish_conn choose_member_conn)
next
  case (4 n e v b)
  show ?case
  proof (cases "pick_version_index (re_domain e @ ''#versions-fb'') (re_versions e)
      (\<lambda>w. vp_id w \<noteq> v \<and> vp_pool w \<noteq> []) b")
    case (Returns r)
    then obtain b1 i where r: "r = (b1, i)" "b_conn b1 = b_conn b"
      using version_index_conn by (cases r) blast
    show ?thesis
    proof (cases i)
      case (Some j)
      then show ?thesis using 4 [of r b1 i] Returns r by (simp add: keeps_conn_def)
    qed (use Returns r in \<open>simp add: keeps_conn_def\<close>)
  qed (simp add: keeps_conn_def)
qed (simp_all add: keeps_conn_def)

lemma weighted_version_conn: "keeps_conn b (pick_weighted_version n e b)"
proof (cases "pick_version_index (re_domain e @ ''#versions'') (re_versions e) (\<lambda>_. True) b")
  case (Returns r)
  then obtain b1 i where r: "r = (b1, i)" "b_conn b1 = b_conn b"
    using version_index_conn by (cases r) blast
  show ?thesis
    using Returns r balanced_conn(1) [of b1 n e _ balance_rr empty_view]
    by (cases i) (simp_all add: pick_weighted_version_def pick_from_version_def keeps_conn_def)
qed (simp add: pick_weighted_version_def keeps_conn_def)

lemma with_sticky_conn: "keeps_conn b (pick_from_version_with_sticky n e sk v name b)"
  using balanced_conn(2) [of b n e v]
  by (auto simp: pick_from_version_with_sticky_def Let_def intro: finish_conn select_conn)

lemma sticky_conn: "keeps_conn b (pick_sticky n e p v rv b)"
  using balanced_conn [of b n e v] with_sticky_conn [of b n e _ v]
  by (auto simp: pick_sticky_def pick_from_version_def Let_def split: option.split)
     (simp_all add: keeps_conn_def)

lemma route_request_conn: "keeps_conn b (route_request n e rv b)"
proof -
  have "keeps_conn b (select_versioned n e rv b)"
    using balanced_conn(1) [of b n e] weighted_version_conn [of b n e] sticky_conn [of b n e]
    by (auto simp: select_versioned_def pick_percent_def Let_def split: option.split)
      (simp_all add: keeps_conn_def)
  then show ?thesis by (auto simp: route_request_def intro: finish_conn select_conn)
qed

lemma cache_resolve_conn:
  assumes "cache_resolve to_ascii order allow now z host mv = Returns (z', x)"
  shows "resolver_load z' = resolver_load z"
proof -
  have "resolve_with 3 to_ascii allow now host (view_from order mv) z = Some (Returns (z', x))"
    using assms by (auto simp: cache_resolve_def split: option.splits)
  moreover have "b_conn b' = b_conn b" if "route_request 3 e rv b = Some (Returns (b', y))" for e rv b b' y
    using route_request_conn [of b 3 e rv] that by (simp add: keeps_conn_def)
  ultimately show ?thesis
    by (auto simp: resolve_with_def resolver_load_def Let_def
        split: option.splits outcome.splits prod.splits if_splits bool.splits)
qed

interpretation cached: reporting_resolver "cache_resolve to_ascii order allow" resolver_inc resolver_dec
  resolver_load for to_ascii order allow
  by unfold_locales
    (rule cache_resolve_conn, assumption, simp_all add: resolver_load_def resolver_inc_def
      resolver_dec_def inc_conn_def dec_conn_def)

section \<open>Properties\<close>

definition idle_gateway :: "'s resolver \<Rightarrow> access_entry ring \<Rightarrow> err_entry ring \<Rightarrow> 's resolver gateway" where
  "idle_gateway z al el =
    \<lparr>gw_resolver = z\<lparr>rz_bal := new_balancer\<rparr>, gw_metrics = [], gw_access = al, gw_errs = el\<rparr>"

text \<open>Property C20. The counters the load balancer and the operators go by are the requests in
flight. Whatever requests arrive and however they end - refused, answered, failed, aborted by a
panic - and in whatever order, the connection count that least connections compares is, for every
instance, the number of requests forwarded to it that have not ended, and the gauge of active
connections is the number of all of them; so both are zero again when the last one has ended.\<close>

theorem connections_are_the_requests_in_flight:
  "let (s, ps) = foldl (proxy_step (cache_resolve to_ascii order allow) resolver_inc resolver_dec cfg to_ascii)
      (idle_gateway z al el, []) es
   in (\<forall>i. b_conn (rz_bal (gw_resolver s)) i = in_flight cfg i ps)
      \<and> metric_level active_connections (gw_metrics s) = (if px_metrics cfg then int (length ps) else 0)"
proof -
  let ?step = "proxy_step (cache_resolve to_ascii order allow) resolver_inc resolver_dec cfg to_ascii"
  let ?x = "foldl ?step (idle_gateway z al el, []) es"
  have init: "cached.settled cfg (idle_gateway z al el, [])"
    by (simp add: cached.settled_def idle_gateway_def resolver_load_def new_balancer_def in_flight_def)
  have off: "metric_level active_connections (gw_metrics (fst (foldl ?step x es))) = 0"
    if "\<not> px_metrics cfg" "metric_level active_connections (gw_metrics (fst x)) = 0" for x es
    using that(2)
  proof (induction es arbitrary: x)
    case (Cons e es)
    have "metric_level active_connections (gw_metrics (fst (?step x e))) = 0"
    proof (cases e)
      case (Arrive fresh t0 t1 r)
      then show ?thesis
        using Cons.prems that(1) begin_active [of "cache_resolve to_ascii order allow t0" resolver_inc cfg
            to_ascii fresh t0 t1 r "fst x"]
        by (cases x) (auto split: prod.split begun.splits)
    next
      case (Leave i up now)
      then show ?thesis using Cons.prems that(1) by (cases x) (simp add: finish_effect)
    qed
    then show ?case using Cons.IH by simp
  qed simp
  have "metric_level active_connections (gw_metrics (fst (idle_gateway z al el, [] :: pending list))) = 0"
    by (simp add: idle_gateway_def)
  note off0 = off [OF _ this]
  have "cached.settled cfg ?x" by (rule cached.settled_run [OF init])
  with off0 [of es] show ?thesis
    by (cases ?x) (auto simp: cached.settled_def resolver_load_def Let_def)
qed

lemma begin_forwarding:
  assumes "serve_begin resolve inc cfg to_ascii fresh t0 t1 r s = (s1, Forwarding p)"
  shows "pd_elapsed p = t1 - t0 \<and> normalize_host to_ascii (rq_host r) = Returns (Inr (pd_host p))
    \<and> rq_host (pd_request p) = rq_host r"
proof -
  obtain r' rid where e: "ensure_request_id fresh r = (r', rid)" by fastforce
  then have h: "rq_host r' = rq_host r"
    by (auto simp: ensure_request_id_def Let_def split: if_splits)
  show ?thesis using assms
    by (auto simp: serve_begin_def e h Let_def split: outcome.splits sum.splits bool.splits prod.splits)
qed

lemma label_is_host:
  "normalize_host to_ascii h = Returns (Inr host) \<Longrightarrow> normalize_host_label to_ascii h = Returns host"
  by (simp add: normalize_host_label_def)

definition is_observation :: "metric_call \<Rightarrow> bool" where
  "is_observation m = (case m of Metric_observe _ _ _ \<Rightarrow> True | _ \<Rightarrow> False)"

lemma metric_on:
  "px_metrics cfg \<Longrightarrow> gw_metrics (metric cfg m s) = gw_metrics s @ [m]"
  by (simp add: metric_def)

lemma forward_calls:
  assumes "px_metrics cfg"
  shows "\<exists>calls. gw_metrics (fst (forward cfg p up now s)) = gw_metrics s @ calls
    \<and> filter is_observation calls = [] \<and> metric_level requests_total calls = 0"
  by (cases up)
    (simp_all add: modify_response_def metric_on assms frame_simps is_observation_def metric_level_def)

lemma append_access_entry:
  assumes "px_access cfg"
  shows "\<exists>e. gw_access (append_access cfg h r t rid st el now s) = ring_append (gw_access s) e
    \<and> ae_status e = st \<and> ae_time e = now \<and> ae_duration_ms e = el div 1000000"
proof -
  obtain a b c where abc: "client_fields (px_trust cfg) (rq_header r) (rq_remote r) = (a, b, c)"
    by (metis prod_cases3)
  let ?e = "\<lparr>ae_time = now, ae_host = h, ae_method = rq_method r, ae_path = rq_path r, ae_status = st,
       ae_client_ip = client_ip (rq_remote r), ae_request_id = rid, ae_duration_ms = el div 1000000,
       ae_user_agent = user_agent r, ae_protocol = request_scheme r, ae_query = rq_query r,
       ae_upstream = tg_host t, ae_gateway = px_gateway cfg, ae_node = px_node cfg,
       ae_route = tg_route t, ae_real_ip = a, ae_xff = b, ae_x_real_ip = c\<rparr>"
  have "gw_access (append_access cfg h r t rid st el now s) = ring_append (gw_access s) ?e"
    using assms abc by (simp add: append_access_def)
  then show ?thesis by (intro exI [of _ ?e]) simp
qed

lemma metric_level_append: "metric_level n (a @ b) = metric_level n a + metric_level n b"
  by (simp add: metric_level_def)

text \<open>A forwarded request whose reply is written is recorded exactly once - one request
counted, one duration observed, one entry in the access log with the status that was sent - but the
duration is not that of the request: it was taken before the request was forwarded. Whatever the
upstream does and however late \<open>t2\<close> it ends, the histogram that automatic canaries are judged by
and the access log get the time the routing took, \<open>t1 - t0\<close>.\<close>

theorem durations_leave_out_the_upstream:
  assumes b: "serve_begin resolve inc cfg to_ascii fresh t0 t1 r s = (s1, Forwarding p)"
    and f: "serve_finish dec cfg p up t2 s2 = (s3, Some rep)"
    and on: "px_metrics cfg" "px_access cfg" "ring_inv (gw_access s2)"
  shows "(\<exists>calls. gw_metrics s3 = gw_metrics s2 @ calls
      \<and> filter is_observation calls =
          [Metric_observe request_duration (t1 - t0) [(''host'', pd_host p), (''version'', tg_version (pd_target p))]]
      \<and> metric_level requests_total calls = 1)
    \<and> (\<exists>e. newest_first (gw_access s3) =
            take (length (rg_ring (gw_access s2))) (e # newest_first (gw_access s2))
        \<and> ae_status e = rp_status rep \<and> ae_time e = t2 \<and> ae_duration_ms e = (t1 - t0) div 1000000)"
proof -
  have el: "pd_elapsed p = t1 - t0" using begin_forwarding [OF b] by simp
  obtain s' where fw: "forward cfg p up t2 s2 = (s', Some rep)"
    and s3: "s3 = active cfg (- 1) (let s4 = record_request cfg p (rp_status rep) t2 s' in
      if counts cfg (pd_target p)
      then s4\<lparr>gw_resolver := dec (tg_instance (pd_target p)) (gw_resolver s4)\<rparr> else s4)"
    using f by (auto simp: serve_finish_def Let_def split: prod.splits option.splits)
  obtain calls where c: "gw_metrics s' = gw_metrics s2 @ calls" "filter is_observation calls = []"
    "metric_level requests_total calls = 0"
    using forward_calls [OF on(1), of p up t2 s2] fw by auto
  have a: "gw_access s' = gw_access s2" using forward_frame(2) [of cfg p up t2 s2] fw by simp
  let ?tail = "[Metric_add requests_total 1 [(''host'', pd_host p), (''status'', itoa (rp_status rep)),
         (''version'', tg_version (pd_target p))],
       Metric_observe request_duration (t1 - t0) [(''host'', pd_host p), (''version'', tg_version (pd_target p))],
       Metric_add active_connections (- 1) []]"
  have "gw_metrics s3 = gw_metrics s2 @ (calls @ ?tail)"
    using c(1) on(1) el by (simp add: s3 active_def record_request_def Let_def metric_on frame_simps)
  moreover have "filter is_observation (calls @ ?tail) =
     [Metric_observe request_duration (t1 - t0) [(''host'', pd_host p), (''version'', tg_version (pd_target p))]]"
    using c(2) by (simp add: is_observation_def)
  moreover have "metric_level requests_total (calls @ ?tail) = 1"
    using c(3) by (simp add: metric_level_append) (simp add: metric_level_def)
  moreover have "\<exists>e. gw_access s3 = ring_append (gw_access s2) e
      \<and> ae_status e = rp_status rep \<and> ae_time e = t2 \<and> ae_duration_ms e = (t1 - t0) div 1000000"
  proof -
    define s5 where "s5 = metric cfg (Metric_observe request_duration (t1 - t0)
        [(''host'', pd_host p), (''version'', tg_version (pd_target p))])
      (metric cfg (Metric_add requests_total 1 [(''host'', pd_host p), (''status'', itoa (rp_status rep)),
         (''version'', tg_version (pd_target p))]) s')"
    have "gw_access s3 = gw_access (append_access cfg (pd_host p) (pd_request p) (pd_target p) (pd_id p)
        (rp_status rep) (t1 - t0) t2 s5)"
      using el by (simp add: s3 s5_def active_def record_request_def Let_def frame_simps)
    moreover have "gw_access s5 = gw_access s2" using a by (simp add: s5_def frame_simps)
    ultimately show ?thesis using append_access_entry [OF on(2)] by metis
  qed
  ultimately show ?thesis
    using newest_first_append [OF on(3)] by (intro conjI exI [of _ "calls @ ?tail"]) auto
qed

definition busy_config :: proxy_config where
  "busy_config = \<lparr>px_metrics = True, px_access = True, px_errlog = True, px_enforce_sni = True,
     px_context = True, px_reporter = False, px_gateway = ''gw-1'', px_node = ''n1'', px_trust = None\<rparr>"

definition plain_request :: request where
  "plain_request = \<lparr>rq_host = ''shop.example'', rq_method = ''GET'', rq_path = ''/'', rq_query = [],
     rq_remote = ''203.0.113.9:4000'', rq_header = (\<lambda>_. []), rq_tls = None\<rparr>"

definition one_target :: target where
  "one_target = \<lparr>tg_scheme = ''http'', tg_host = ''10.0.0.9:80'', tg_instance = ''i1'',
     tg_version = uuid_nil, tg_sticky = None, tg_route = ''shop''\<rparr>"

definition fixed_resolver :: "unit \<Rightarrow> string \<Rightarrow> match_view \<Rightarrow> (unit \<times> (route_error + target)) outcome" where
  "fixed_resolver z h mv = Returns (z, Inr one_target)"

definition quiet_gateway :: "unit gateway" where
  "quiet_gateway = \<lparr>gw_resolver = (), gw_metrics = [], gw_access = new_access_log 2, gw_errs = new_err_log 2\<rparr>"

text \<open>The upstream takes a minute, the log says one millisecond.\<close>

theorem durations_leave_out_the_upstream_witness:
  "\<exists>s1 p s3 rep. serve_begin fixed_resolver (\<lambda>_ z. z) busy_config Some ''id'' 0 1000000 plain_request quiet_gateway
      = (s1, Forwarding p)
    \<and> serve_finish (\<lambda>_ z. z) busy_config p (Answered 200) (60 * second) s1 = (s3, Some rep)
    \<and> (\<exists>e. newest_first (gw_access s3) = take 2 (e # newest_first (gw_access s1)) \<and> ae_duration_ms e = 1)"
proof -
  have host: "normalize_host Some ''shop.example'' = Returns (Inr ''shop.example'')" by code_simp
  have "\<exists>p. serve_begin fixed_resolver (\<lambda>_ z. z) busy_config Some ''id'' 0 1000000 plain_request quiet_gateway
      = (active busy_config 1 quiet_gateway, Forwarding p)"
    using host by (simp add: serve_begin_def ensure_request_id_def header_value_def plain_request_def
        sni_mismatch_def fixed_resolver_def counts_def busy_config_def Let_def)
  then obtain p where b: "serve_begin fixed_resolver (\<lambda>_ z. z) busy_config Some ''id'' 0 1000000 plain_request quiet_gateway
      = (active busy_config 1 quiet_gateway, Forwarding p)" by blast
  let ?s = "active busy_config 1 quiet_gateway"
  obtain s3 rep where f: "serve_finish (\<lambda>_ z. z) busy_config p (Answered 200) (60 * second) ?s = (s3, Some rep)"
    by (simp add: serve_finish_def Let_def)
  have ring: "gw_access ?s = new_access_log 2"
    by (simp add: active_def frame_simps quiet_gateway_def)
  have inv: "ring_inv (gw_access ?s)" unfolding ring by (simp add: new_access_log_def ring_inv_new)
  have "length (rg_ring (gw_access ?s)) = 2"
    unfolding ring by (simp add: new_access_log_def new_ring_def ring_capacity_def)
  moreover have "px_metrics busy_config" "px_access busy_config" by (simp_all add: busy_config_def)
  ultimately obtain e where "newest_first (gw_access s3) = take 2 (e # newest_first (gw_access ?s))"
    "ae_duration_ms e = (1000000 - 0) div 1000000"
    using durations_leave_out_the_upstream [OF b f _ _ inv] by auto
  then show ?thesis using b f by auto
qed

end
