(* ===== verification/Health.thy ===== *)
theory Health
  imports Route_Table
begin

text \<open>
  \<open>health/checker.go\<close>: the active health checker. Its three maps (consecutive failures, consecutive
  successes, first sight) are maps from instance IDs; a round is given the listed instances with
  the time and the answer of each probe. The calls of \<open>SetHealth\<close> and the gauge it sets are recorded
  in the state. The specification keeps the history of an instance instead of counters: the judged
  outcomes since it was last listed anew.
\<close>

record health_config =
  hc_interval :: int
  hc_timeout :: int
  hc_failures :: int
  hc_successes :: int
  hc_grace :: int
  hc_path :: string

definition default_config :: health_config where
  "default_config = \<lparr>hc_interval = 10 * second, hc_timeout = 3 * second, hc_failures = 3,
     hc_successes = 2, hc_grace = 10 * second, hc_path = ''/health''\<rparr>"

definition normalize_config :: "health_config \<Rightarrow> health_config" where
  "normalize_config cfg =
    (let c = (if hc_interval cfg \<le> 0 then cfg\<lparr>hc_interval := 10 * second\<rparr> else cfg)
     in if hc_path c = [] then c\<lparr>hc_path := ''/health''\<rparr> else c)"

record checker =
  ch_cfg :: health_config
  ch_client :: int \<comment> \<open>the timeout of the HTTP client\<close>
  ch_wake :: bool \<comment> \<open>a notification waits in the channel\<close>
  ch_fail :: "uuid \<rightharpoonup> int"
  ch_ok :: "uuid \<rightharpoonup> int"
  ch_started :: "uuid \<rightharpoonup> go_time"
  ch_reports :: "(uuid \<times> string) list" \<comment> \<open>the calls of \<open>SetHealth\<close>\<close>
  ch_gauges :: "(uuid \<times> string) set" \<comment> \<open>the label sets of \<open>maple_instance_health\<close>, each of value 1\<close>

definition new_checker :: "health_config \<Rightarrow> checker" where
  "new_checker cfg0 = (let cfg = normalize_config cfg0 in
     \<lparr>ch_cfg = cfg, ch_client = hc_timeout cfg, ch_wake = False, ch_fail = Map.empty,
      ch_ok = Map.empty, ch_started = Map.empty, ch_reports = [], ch_gauges = {}\<rparr>)"

definition set_config :: "health_config \<Rightarrow> checker \<Rightarrow> checker" where
  "set_config cfg0 c = (let cfg = normalize_config cfg0; old = ch_cfg c; c1 = c\<lparr>ch_cfg := cfg\<rparr>;
     c2 = (if hc_timeout old \<noteq> hc_timeout cfg then c1\<lparr>ch_client := hc_timeout cfg\<rparr> else c1)
     in c2\<lparr>ch_wake := True\<rparr>)"

section \<open>Probes\<close>

text \<open>\<open>probe\<close>; \<open>get\<close> is the HTTP client: the status of the answer, if there is one.\<close>

definition probe_url :: "health_config \<Rightarrow> instance_row \<Rightarrow> string" where
  "probe_url cfg i = (if in_protocol i = [] then ''http'' else in_protocol i) @ ''://'' @ endpoint i
     @ hc_path cfg"

definition probe :: "health_config \<Rightarrow> (string \<Rightarrow> int option) \<Rightarrow> instance_row \<Rightarrow> bool" where
  "probe cfg get i = (case get (probe_url cfg i) of None \<Rightarrow> False | Some st \<Rightarrow> 200 \<le> st \<and> st < 400)"

definition healthy :: string where "healthy = ''healthy''"
definition unhealthy :: string where "unhealthy = ''unhealthy''"

definition lookup0 :: "(uuid \<rightharpoonup> int) \<Rightarrow> uuid \<Rightarrow> int" where
  "lookup0 m k = (case m k of None \<Rightarrow> 0 | Some n \<Rightarrow> n)"

definition report :: "uuid \<Rightarrow> string \<Rightarrow> checker \<Rightarrow> checker" where
  "report k h c = c\<lparr>ch_reports := ch_reports c @ [(k, h)], ch_gauges := insert (k, h) (ch_gauges c)\<rparr>"

definition probe_one :: "instance_row \<Rightarrow> go_time \<Rightarrow> (string \<Rightarrow> int option) \<Rightarrow> checker \<Rightarrow> checker" where
  "probe_one i now get c0 =
    (let key = in_id i;
         start = (case ch_started c0 key of Some t \<Rightarrow> t | None \<Rightarrow> now);
         c = c0\<lparr>ch_started := (ch_started c0)(key \<mapsto> start)\<rparr>
     in if now - start < hc_grace (ch_cfg c) then c
        else if probe (ch_cfg c) get i then
          (let oks = lookup0 (ch_ok c) key + 1;
               c1 = c\<lparr>ch_fail := (ch_fail c)(key \<mapsto> 0), ch_ok := (ch_ok c)(key \<mapsto> oks)\<rparr>
           in if hc_successes (ch_cfg c) \<le> oks \<and> in_health i \<noteq> healthy then report key healthy c1 else c1)
        else
          (let fails = lookup0 (ch_fail c) key + 1;
               c1 = c\<lparr>ch_ok := (ch_ok c)(key \<mapsto> 0), ch_fail := (ch_fail c)(key \<mapsto> fails)\<rparr>
           in if hc_failures (ch_cfg c) \<le> fails \<and> in_health i \<noteq> unhealthy then report key unhealthy c1
              else c1))"

definition prune :: "uuid set \<Rightarrow> checker \<Rightarrow> checker" where
  "prune alive c = c\<lparr>ch_fail := ch_fail c |` alive, ch_ok := ch_ok c |` alive,
     ch_started := ch_started c |` alive\<rparr>"

text \<open>One round: None when the instances cannot be listed, otherwise each with the time of its
probe and what the client sees then.\<close>

type_synonym listing = "(instance_row \<times> go_time \<times> (string \<Rightarrow> int option)) list"

definition check_once :: "listing option \<Rightarrow> checker \<Rightarrow> checker" where
  "check_once insts c =
    (case insts of
       None \<Rightarrow> c
     | Some xs \<Rightarrow> prune (set (map (\<lambda>x. in_id (fst x)) xs))
                    (fold (\<lambda>(i, now, get). probe_one i now get) xs c))"

section \<open>Run\<close>

text \<open>The loop reacts to a notification by resetting the ticker when the interval changed; a tick
starts a round. The first component is the interval the ticker runs at.\<close>

datatype health_event = Set_config health_config | Woken | Tick "listing option"

fun run_step :: "int \<times> checker \<Rightarrow> health_event \<Rightarrow> int \<times> checker" where
  "run_step (iv, c) (Set_config cfg) = (iv, set_config cfg c)"
| "run_step (iv, c) Woken =
     (if ch_wake c then (let c1 = c\<lparr>ch_wake := False\<rparr>; ni = hc_interval (ch_cfg c) in
        (if ni \<noteq> iv then ni else iv, c1)) else (iv, c))"
| "run_step (iv, c) (Tick l) = (iv, check_once l c)"

definition run_start :: "health_config \<Rightarrow> listing option \<Rightarrow> int \<times> checker" where
  "run_start cfg l = (hc_interval (normalize_config cfg), check_once l (new_checker cfg))"

section \<open>The specification: histories\<close>

text \<open>What is remembered of an instance: when it was first seen and the outcomes judged since.\<close>

record past =
  pa_since :: "go_time option"
  pa_outcomes :: "bool list"

definition no_past :: past where
  "no_past = \<lparr>pa_since = None, pa_outcomes = []\<rparr>"

definition run_length :: "bool \<Rightarrow> bool list \<Rightarrow> int" where
  "run_length b xs = int (length (takeWhile (\<lambda>x. x = b) (rev xs)))"

text \<open>One probe: the outcome is judged unless the grace period has not passed.\<close>

definition seen :: "health_config \<Rightarrow> go_time \<Rightarrow> bool \<Rightarrow> past \<Rightarrow> past" where
  "seen cfg now up p =
    (let start = (case pa_since p of Some t \<Rightarrow> t | None \<Rightarrow> now) in
     if now - start < hc_grace cfg then p\<lparr>pa_since := Some start\<rparr>
     else \<lparr>pa_since = Some start, pa_outcomes = pa_outcomes p @ [up]\<rparr>)"

text \<open>What a probe must report: unhealthy exactly when it is judged, fails and ends a run of
\<open>FailureThreshold\<close> failures or more of an instance not listed as unhealthy; healthy likewise.\<close>

definition verdict :: "health_config \<Rightarrow> go_time \<Rightarrow> bool \<Rightarrow> string \<Rightarrow> past \<Rightarrow> string option" where
  "verdict cfg now up listed p =
    (let q = seen cfg now up p in
     if length (pa_outcomes q) = length (pa_outcomes p) then None
     else if up then
       (if hc_successes cfg \<le> run_length True (pa_outcomes q) \<and> listed \<noteq> healthy then Some healthy else None)
     else
       (if hc_failures cfg \<le> run_length False (pa_outcomes q) \<and> listed \<noteq> unhealthy then Some unhealthy
        else None))"

fun past_step :: "uuid \<Rightarrow> health_config \<times> past \<Rightarrow> health_event \<Rightarrow> health_config \<times> past" where
  "past_step k (cfg, p) (Set_config cfg') = (normalize_config cfg', p)"
| "past_step k (cfg, p) Woken = (cfg, p)"
| "past_step k (cfg, p) (Tick None) = (cfg, p)"
| "past_step k (cfg, p) (Tick (Some xs)) =
     (cfg, case find (\<lambda>x. in_id (fst x) = k) xs of
        None \<Rightarrow> no_past
      | Some (i, now, get) \<Rightarrow> seen cfg now (probe cfg get i) p)"

definition past_of :: "uuid \<Rightarrow> health_config \<Rightarrow> health_event list \<Rightarrow> health_config \<times> past" where
  "past_of k cfg es = foldl (past_step k) (normalize_config cfg, no_past) es"

section \<open>The counters are the history\<close>

definition tracks :: "uuid \<Rightarrow> checker \<Rightarrow> health_config \<times> past \<Rightarrow> bool" where
  "tracks k c x \<longleftrightarrow> ch_cfg c = fst x \<and> ch_started c k = pa_since (snd x)
    \<and> lookup0 (ch_ok c) k = run_length True (pa_outcomes (snd x))
    \<and> lookup0 (ch_fail c) k = run_length False (pa_outcomes (snd x))"

definition as_report :: "uuid \<Rightarrow> string option \<Rightarrow> (uuid \<times> string) list" where
  "as_report k v = (case v of None \<Rightarrow> [] | Some h \<Rightarrow> [(k, h)])"

lemma run_length_snoc [simp]:
  "run_length b (xs @ [x]) = (if x = b then run_length b xs + 1 else 0)"
  by (simp add: run_length_def)

lemma run_length_Nil [simp]: "run_length b [] = 0"
  by (simp add: run_length_def)

lemma lookup0_simps [simp]:
  "lookup0 (m(k \<mapsto> n)) k' = (if k' = k then n else lookup0 m k')"
  "lookup0 Map.empty k = 0"
  "lookup0 (m |` A) k = (if k \<in> A then lookup0 m k else 0)"
  by (simp_all add: lookup0_def restrict_map_def)

lemma report_simps [simp]:
  "ch_cfg (report k h c) = ch_cfg c" "ch_ok (report k h c) = ch_ok c" "ch_fail (report k h c) = ch_fail c"
  "ch_started (report k h c) = ch_started c" "ch_reports (report k h c) = ch_reports c @ [(k, h)]"
  by (simp_all add: report_def)

lemma probe_one_other:
  "k \<noteq> in_id i \<Longrightarrow> tracks k (probe_one i now get c) x \<longleftrightarrow> tracks k c x"
  by (simp add: tracks_def probe_one_def Let_def)

lemma probe_one_tracks:
  assumes "tracks (in_id i) c (cfg, p)"
  shows "tracks (in_id i) (probe_one i now get c) (cfg, seen cfg now (probe cfg get i) p)
    \<and> ch_reports (probe_one i now get c) =
        ch_reports c @ as_report (in_id i) (verdict cfg now (probe cfg get i) (in_health i) p)"
  using assms
  by (auto simp: tracks_def probe_one_def seen_def verdict_def as_report_def Let_def split: option.splits)

abbreviation probe_all :: "listing \<Rightarrow> checker \<Rightarrow> checker" where
  "probe_all xs c \<equiv> fold (\<lambda>(i, now, get). probe_one i now get) xs c"

definition round_reports :: "health_config \<Rightarrow> (uuid \<Rightarrow> past) \<Rightarrow> listing \<Rightarrow> (uuid \<times> string) list" where
  "round_reports cfg P xs = concat (map (\<lambda>(i, now, get). as_report (in_id i)
     (verdict cfg now (probe cfg get i) (in_health i) (P (in_id i)))) xs)"

definition round_past :: "health_config \<Rightarrow> (uuid \<Rightarrow> past) \<Rightarrow> listing \<Rightarrow> uuid \<Rightarrow> past" where
  "round_past cfg P xs k = (case find (\<lambda>x. in_id (fst x) = k) xs of
     None \<Rightarrow> P k | Some (i, now, get) \<Rightarrow> seen cfg now (probe cfg get i) (P k))"

lemma round_reports_other:
  assumes "\<forall>y \<in> set xs. in_id (fst y) \<noteq> k"
  shows "round_reports cfg (P(k := p)) xs = round_reports cfg P xs"
proof -
  have "map (\<lambda>(i, now, get). as_report (in_id i)
       (verdict cfg now (probe cfg get i) (in_health i) ((P(k := p)) (in_id i)))) xs
    = map (\<lambda>(i, now, get). as_report (in_id i)
       (verdict cfg now (probe cfg get i) (in_health i) (P (in_id i)))) xs"
    using assms by (intro map_cong refl) (auto split: prod.split)
  then show ?thesis unfolding round_reports_def by (rule arg_cong)
qed

lemma round_past_other:
  assumes "\<forall>y \<in> set xs. in_id (fst y) \<noteq> k"
  shows "round_past cfg P xs k = P k"
proof -
  have "find (\<lambda>x. in_id (fst x) = k) xs = None" using assms by (auto simp: find_None_iff)
  then show ?thesis by (simp add: round_past_def)
qed

lemma round_past_update:
  "k \<noteq> k' \<Longrightarrow> round_past cfg (P(k' := p)) xs k = round_past cfg P xs k"
  by (simp add: round_past_def split: option.split)

lemma probe_round:
  assumes "distinct (map (\<lambda>x. in_id (fst x)) xs)" and "\<forall>k. tracks k c (cfg, P k)"
  shows "ch_reports (probe_all xs c) = ch_reports c @ round_reports cfg P xs
    \<and> (\<forall>k. tracks k (probe_all xs c) (cfg, round_past cfg P xs k))"
  using assms
proof (induction xs arbitrary: c P)
  case Nil
  then show ?case by (simp add: round_reports_def round_past_def)
next
  case (Cons x xs)
  obtain i now get where x: "x = (i, now, get)" by (metis prod_cases3)
  let ?c = "probe_one i now get c" and ?p = "seen cfg now (probe cfg get i) (P (in_id i))"
  have d: "distinct (map (\<lambda>x. in_id (fst x)) xs)" and n: "\<forall>y \<in> set xs. in_id (fst y) \<noteq> in_id i"
    using Cons.prems(1) by (auto simp: x image_iff)
  have own: "tracks (in_id i) c (cfg, P (in_id i))" using Cons.prems(2) by blast
  note one = probe_one_tracks [OF own, of now get]
  have step: "\<forall>k. tracks k ?c (cfg, (P(in_id i := ?p)) k)"
    using Cons.prems(2) one probe_one_other [of _ i now get c] by auto
  note IH = Cons.IH [OF d step]
  have rep: "round_reports cfg P (x # xs) =
      as_report (in_id i) (verdict cfg now (probe cfg get i) (in_health i) (P (in_id i))) @ round_reports cfg P xs"
    by (simp add: round_reports_def x)
  have past: "round_past cfg P (x # xs) k = round_past cfg (P(in_id i := ?p)) xs k" for k
  proof (cases "k = in_id i")
    case True
    then show ?thesis using round_past_other [OF n] by (simp add: round_past_def x)
  next
    case False
    then show ?thesis using round_past_update [OF False] by (simp add: round_past_def x)
  qed
  show ?case using IH one unfolding round_reports_other [OF n] rep past
    by (simp add: x fun_upd_def)
qed

lemma prune_tracks:
  "tracks k c (cfg, p) \<Longrightarrow> tracks k (prune A c) (cfg, if k \<in> A then p else no_past)"
  by (auto simp: tracks_def prune_def no_past_def)

lemma tracks_config: "tracks k c (cfg, p) \<Longrightarrow> tracks k (set_config cfg' c) (normalize_config cfg', p)"
  by (simp add: tracks_def set_config_def Let_def)

definition listed_once :: "health_event \<Rightarrow> bool" where
  "listed_once e = (case e of Tick (Some xs) \<Rightarrow> distinct (map (\<lambda>x. in_id (fst x)) xs) | _ \<Rightarrow> True)"

lemma run_step_tracks:
  assumes "\<forall>k. tracks k (snd c) (cfg, P k)" and "listed_once e"
  shows "tracks k (snd (run_step c e)) (past_step k (cfg, P k) e)"
proof -
  obtain iv ch where c: "c = (iv, ch)" by fastforce
  show ?thesis
  proof (cases e)
    case (Set_config cfg')
    then show ?thesis using assms(1) by (auto simp: c intro: tracks_config)
  next
    case Woken
    then show ?thesis using assms(1) by (simp add: c tracks_def Let_def)
  next
    case (Tick l)
    show ?thesis
    proof (cases l)
      case None
      then show ?thesis using assms(1) Tick by (simp add: c check_once_def)
    next
      case (Some xs)
      have d: "distinct (map (\<lambda>x. in_id (fst x)) xs)"
        using assms(2) by (simp add: Tick Some listed_once_def)
      let ?A = "set (map (\<lambda>x. in_id (fst x)) xs)"
      have t: "\<forall>k. tracks k ch (cfg, P k)" using assms(1) by (simp add: c)
      have "tracks k (probe_all xs ch) (cfg, round_past cfg P xs k)"
        using probe_round [OF d t] by blast
      from prune_tracks [OF this, of ?A]
      have "tracks k (snd (run_step c e)) (cfg, if k \<in> ?A then round_past cfg P xs k else no_past)"
        by (simp add: Tick Some c check_once_def)
      moreover have "past_step k (cfg, P k) e =
          (cfg, if k \<in> ?A then round_past cfg P xs k else no_past)"
      proof (cases "find (\<lambda>x. in_id (fst x) = k) xs")
        case None
        then have "\<forall>x \<in> set xs. in_id (fst x) \<noteq> k" by (simp only: find_cong_None)
        then have "k \<notin> ?A" by (auto simp: image_iff)
        then show ?thesis using None by (simp add: Tick Some)
      next
        case (Some y)
        then have "k \<in> ?A" by (auto simp: image_iff dest!: find_Some_mem)
        then show ?thesis using Some by (simp add: Tick \<open>l = option.Some xs\<close> round_past_def)
      qed
      ultimately show ?thesis by simp
    qed
  qed
qed

lemma past_step_config: "fst (past_step k (cfg, p) e) = fst (past_step k' (cfg, p') e)"
proof (cases e)
  case (Tick l)
  then show ?thesis by (cases l) simp_all
qed simp_all

lemma past_of_snoc: "past_of k cfg (es @ [e]) = past_step k (past_of k cfg es) e"
  by (simp add: past_of_def)

lemma past_of_config: "fst (past_of k cfg es) = fst (past_of k' cfg es)"
proof (induction es rule: rev_induct)
  case Nil
  then show ?case by (simp add: past_of_def)
next
  case (snoc e es)
  obtain a p b q where ab: "past_of k cfg es = (a, p)" "past_of k' cfg es = (b, q)" by fastforce
  then show ?case using snoc past_step_config [of k a p e k' q] by (simp add: past_of_snoc)
qed

lemma run_tracks:
  assumes "list_all listed_once es"
  shows "\<forall>k. tracks k (snd (foldl run_step (iv, new_checker cfg) es)) (past_of k cfg es)"
  using assms
proof (induction es rule: rev_induct)
  case Nil
  then show ?case by (simp add: tracks_def past_of_def new_checker_def no_past_def Let_def)
next
  case (snoc e es)
  define c where "c = fst (past_of undefined cfg es)"
  have p: "past_of k cfg es = (c, snd (past_of k cfg es))" for k
    using past_of_config [of k cfg es undefined] by (simp add: c_def prod_eq_iff)
  have "\<forall>k. tracks k (snd (foldl run_step (iv, new_checker cfg) es)) (c, snd (past_of k cfg es))"
    using snoc p by simp
  moreover have "listed_once e" using snoc.prems by simp
  ultimately have "tracks k (snd (run_step (foldl run_step (iv, new_checker cfg) es) e))
      (past_step k (c, snd (past_of k cfg es)) e)" for k
    by (rule run_step_tracks)
  then show ?case using p by (simp add: past_of_snoc)
qed

lemma run_step_config: "fst (past_of k cfg es) = ch_cfg (snd (foldl run_step (iv, new_checker cfg) es))"
  if "list_all listed_once es"
  using run_tracks [OF that, of iv cfg] by (simp add: tracks_def)

text \<open>Property C24. The checker implements its specification: after any run of configuration changes,
notifications and rounds (in which every instance is listed once), the calls of \<open>SetHealth\<close> in the
next round are exactly what the history of each listed instance demands. An instance is reported
unhealthy when its probe fails outside the grace period and ends a run of at least
\<open>FailureThreshold\<close> failures judged since it was last listed anew, and it is not listed as unhealthy;
healthy likewise; and nothing else is reported. The thresholds are those in force in that round.\<close>

theorem health_reports_follow_the_history:
  assumes "list_all listed_once es" and "distinct (map (\<lambda>x. in_id (fst x)) xs)"
  shows "let c = foldl run_step (iv, new_checker cfg) es;
             now_cfg = fst (past_of uuid_nil cfg es)
         in ch_reports (snd (run_step c (Tick (Some xs)))) = ch_reports (snd c) @
             concat (map (\<lambda>(i, now, get). as_report (in_id i)
               (verdict now_cfg now (probe now_cfg get i) (in_health i) (snd (past_of (in_id i) cfg es)))) xs)"
proof -
  let ?c = "foldl run_step (iv, new_checker cfg) es"
  define now_cfg where "now_cfg = fst (past_of uuid_nil cfg es)"
  have "past_of k cfg es = (now_cfg, snd (past_of k cfg es))" for k
    using past_of_config [of k cfg es uuid_nil] by (simp add: now_cfg_def prod_eq_iff)
  then have "\<forall>k. tracks k (snd ?c) (now_cfg, snd (past_of k cfg es))"
    using run_tracks [OF assms(1), of iv cfg] by metis
  from probe_round [OF assms(2) this]
  have "ch_reports (snd (run_step ?c (Tick (Some xs)))) =
      ch_reports (snd ?c) @ round_reports now_cfg (\<lambda>k. snd (past_of k cfg es)) xs"
    by (cases ?c) (simp add: check_once_def prune_def)
  then show ?thesis by (simp add: Let_def round_reports_def now_cfg_def)
qed

definition sick_row :: instance_row where
  "sick_row = \<lparr>in_id = ''i1'', in_service = ''s'', in_version = None, in_node = None,
     in_address = ''10.0.0.9'', in_port = 80, in_protocol = [], in_weight = 1,
     in_status = ''enabled'', in_health = ''healthy''\<rparr>"

definition sick_at :: "int \<Rightarrow> listing" where
  "sick_at t = [(sick_row, t * second, \<lambda>_. None)]"

theorem health_reports_follow_the_history_witness:
  "ch_reports (snd (run_step
      (foldl run_step (0, new_checker default_config) [Tick (Some (sick_at 0)), Tick (Some (sick_at 10)), Tick (Some (sick_at 20))])
      (Tick (Some (sick_at 30))))) = [(''i1'', unhealthy)]"
proof -
  let ?es = "[Tick (Some (sick_at 0)), Tick (Some (sick_at 10)), Tick (Some (sick_at 20))]"
  have once: "list_all listed_once ?es" "distinct (map (\<lambda>x. in_id (fst x)) (sick_at 30))"
    by (simp_all add: listed_once_def sick_at_def)
  have past: "past_of ''i1'' default_config ?es =
      (default_config, \<lparr>pa_since = Some 0, pa_outcomes = [False, False]\<rparr>)"
    by (simp add: past_of_def sick_at_def sick_row_def normalize_config_def default_config_def
        second_def seen_def no_past_def probe_def Let_def)
  have cfg: "fst (past_of uuid_nil default_config ?es) = default_config"
    using past past_of_config [of uuid_nil default_config ?es "''i1''"] by simp
  have none: "ch_reports (snd (foldl run_step (0, new_checker default_config) ?es)) = []"
    by (simp add: sick_at_def sick_row_def check_once_def probe_one_def new_checker_def normalize_config_def
        default_config_def second_def prune_def probe_def Let_def restrict_map_def lookup0_def)
  have v: "verdict default_config (30 * second) False ''healthy''
      \<lparr>pa_since = Some 0, pa_outcomes = [False, False]\<rparr> = Some unhealthy"
    by (simp add: verdict_def seen_def default_config_def second_def run_length_def unhealthy_def Let_def)
  have row: "in_id sick_row = ''i1''" "in_health sick_row = ''healthy''"
    "probe default_config (\<lambda>_. None) sick_row = False"
    by (simp_all add: sick_row_def probe_def)
  have "concat (map (\<lambda>(i, now, get). as_report (in_id i) (verdict default_config now
        (probe default_config get i) (in_health i) (snd (past_of (in_id i) default_config ?es)))) (sick_at 30))
      = [(''i1'', unhealthy)]"
    unfolding sick_at_def [of 30] by (simp only: list.map prod.case row past snd_conv v concat.simps)
      (simp add: as_report_def)
  then show ?thesis
    using health_reports_follow_the_history [OF once, of 0 default_config]
    unfolding Let_def cfg none by simp
qed

text \<open>A gauge is set and never cleared: an instance that has been both healthy and unhealthy is shown
as both, and one that was deleted is shown for ever.\<close>

lemma gauges_are_never_cleared: "g \<in> ch_gauges c \<Longrightarrow> g \<in> ch_gauges (snd (run_step (iv, c) e))"
proof (cases e)
  case (Tick l)
  assume g: "g \<in> ch_gauges c"
  have one: "g \<in> ch_gauges (probe_one i now get c)" if "g \<in> ch_gauges c" for i now get c
    using that by (simp add: probe_one_def report_def Let_def)
  have "g \<in> ch_gauges (probe_all xs c)" for xs
    using g by (induction xs arbitrary: c) (auto simp: one)
  then show ?thesis using g by (simp add: Tick check_once_def prune_def split: option.split)
qed (simp_all add: set_config_def Let_def)

end
