(* ===== verification/Accounts.thy ===== *)
theory Accounts
  imports Go_Text
begin

text \<open>
  The accounts of the Management API: the access rules (\<open>rbac/rbac.go\<close>, \<open>rbac/middleware.go\<close>), login
  and tokens (\<open>auth/service.go\<close>, \<open>auth/middleware.go\<close>) and the handlers of \<open>api/users.go\<close>, composed
  as \<open>api/app.go\<close> chains them. The table of users is the list of its rows, in a database that
  answers. Signing (golang-jwt) and password hashing (bcrypt) are parameters: \<open>sign\<close> and \<open>verify\<close> of
  tokens, \<open>hash\<close> and \<open>check\<close> of passwords. The lemmas ask whether an administrator always remains.
\<close>

section \<open>rbac.go\<close>

definition super_admin :: string where "super_admin = ''super_admin''"
definition operator :: string where "operator = ''operator''"
definition viewer :: string where "viewer = ''viewer''"

definition operator_writable :: "string list" where
  "operator_writable =
    [''/api/admin/tenants'', ''/api/admin/domains'', ''/api/admin/certificates'', ''/api/admin/services'',
     ''/api/admin/instances'', ''/api/admin/nodes'', ''/api/admin/deployments'', ''/api/admin/versions'',
     ''/api/admin/releases'', ''/api/admin/rate-limits'', ''/api/admin/traffic'', ''/api/admin/cm'']"

definition self_write_paths :: "string list" where
  "self_write_paths = [''/api/admin/auth/change-password'', ''/api/admin/auth/logout'']"

datatype rbac_action = Action_read | Action_write

definition module_of :: "string \<Rightarrow> string" where
  "module_of path =
    (let p = trim_prefix path ''/api/admin/'';
         q = (case index_byte CHR ''/'' p of Some i \<Rightarrow> take i p | None \<Rightarrow> p)
     in if q = [] then ''root'' else q)"

definition authorize :: "string \<Rightarrow> string \<Rightarrow> string \<Rightarrow> bool \<times> rbac_action \<times> string" where
  "authorize role meth path =
    (let action = (if meth = ''GET'' \<or> meth = ''HEAD'' then Action_read else Action_write);
         module = module_of path
     in if action = Action_write \<and> list_ex (has_prefix path) self_write_paths
        then (True, action, module)
        else if role = super_admin then (True, action, module)
        else if role = viewer then (action = Action_read, action, module)
        else if role = operator then
          (if action = Action_read then (True, action, module)
           else (list_ex (has_prefix path) operator_writable, action, module))
        else (action = Action_read, action, module))"

section \<open>Users, claims and tokens\<close>

record user =
  us_id :: uuid
  us_email :: string
  us_hash :: string
  us_name :: "string option"
  us_role :: string
  us_status :: string

record claims =
  cl_admin :: string
  cl_email :: string
  cl_role :: string
  cl_issued :: go_time
  cl_expires :: go_time

record admin_info =
  ai_id :: uuid
  ai_email :: string
  ai_name :: string
  ai_role :: string

datatype auth_error =
    Bad_credentials | Account_disabled | No_such_admin | Wrong_password | Token_invalid | Token_missing
  | Access_denied | Bad_id | Bad_role | Bad_input | No_such_user | Email_taken | Keep_one_super_admin
  | Not_yourself

definition valid_role :: "string \<Rightarrow> bool" where
  "valid_role r \<longleftrightarrow> r = super_admin \<or> r = operator \<or> r = viewer"

definition user_active :: "user \<Rightarrow> bool" where
  "user_active u \<longleftrightarrow> us_status u = ''active''"

definition user_by_id :: "user list \<Rightarrow> uuid \<Rightarrow> user option" where
  "user_by_id us i = find (\<lambda>u. us_id u = i) us"

definition user_by_email :: "user list \<Rightarrow> string \<Rightarrow> user option" where
  "user_by_email us e = find (\<lambda>u. us_email u = e) us"

text \<open>A row without a role counts as a super administrator.\<close>

definition info_of :: "user \<Rightarrow> admin_info" where
  "info_of u = \<lparr>ai_id = us_id u, ai_email = us_email u,
     ai_name = (case us_name u of None \<Rightarrow> [] | Some n \<Rightarrow> n),
     ai_role = (if us_role u = [] then super_admin else us_role u)\<rparr>"

definition claims_for :: "int \<Rightarrow> go_time \<Rightarrow> uuid \<Rightarrow> string \<Rightarrow> string \<Rightarrow> claims" where
  "claims_for ttl now i email role =
    \<lparr>cl_admin = i, cl_email = email, cl_role = role, cl_issued = now, cl_expires = now + ttl\<rparr>"

definition login :: "(string \<Rightarrow> string \<Rightarrow> bool) \<Rightarrow> (claims \<Rightarrow> string) \<Rightarrow> int \<Rightarrow> go_time \<Rightarrow> user list \<Rightarrow>
    string \<Rightarrow> string \<Rightarrow> auth_error + string \<times> admin_info" where
  "login check sign ttl now us email password =
    (case user_by_email us email of
       None \<Rightarrow> Inl Bad_credentials
     | Some u \<Rightarrow>
         if \<not> user_active u then Inl Account_disabled
         else if \<not> check (us_hash u) password then Inl Bad_credentials
         else Inr (sign (claims_for ttl now (us_id u) (us_email u) (ai_role (info_of u))), info_of u))"

text \<open>\<open>Parse\<close>; \<open>verify\<close> is the library's check of signature and expiry.\<close>

definition parse_token :: "(go_time \<Rightarrow> string \<Rightarrow> claims option) \<Rightarrow> go_time \<Rightarrow> string \<Rightarrow> auth_error + claims" where
  "parse_token verify now tok = (case verify now tok of None \<Rightarrow> Inl Token_invalid | Some c \<Rightarrow> Inr c)"

definition admin_by_id :: "user list \<Rightarrow> string \<Rightarrow> auth_error + admin_info" where
  "admin_by_id us i =
    (case user_by_id us i of
       None \<Rightarrow> Inl No_such_admin
     | Some u \<Rightarrow> if \<not> user_active u then Inl Account_disabled else Inr (info_of u))"

definition refresh :: "(go_time \<Rightarrow> string \<Rightarrow> claims option) \<Rightarrow> (claims \<Rightarrow> string) \<Rightarrow> int \<Rightarrow> go_time \<Rightarrow>
    user list \<Rightarrow> string \<Rightarrow> auth_error + string \<times> admin_info" where
  "refresh verify sign ttl now us tok =
    (case parse_token verify now tok of
       Inl e \<Rightarrow> Inl e
     | Inr c \<Rightarrow>
         (case admin_by_id us (cl_admin c) of
            Inl e \<Rightarrow> Inl e
          | Inr info \<Rightarrow> Inr (sign (claims_for ttl now (cl_admin c) (ai_email info) (ai_role info)), info)))"

definition update_user_row :: "uuid \<Rightarrow> (user \<Rightarrow> user) \<Rightarrow> user list \<Rightarrow> user list" where
  "update_user_row i f us = map (\<lambda>u. if us_id u = i then f u else u) us"

definition change_password :: "(string \<Rightarrow> string \<Rightarrow> bool) \<Rightarrow> (string \<Rightarrow> string) \<Rightarrow> user list \<Rightarrow> string \<Rightarrow>
    string \<Rightarrow> string \<Rightarrow> auth_error + user list" where
  "change_password check hash us i old new =
    (case user_by_id us i of
       None \<Rightarrow> Inl No_such_admin
     | Some u \<Rightarrow>
         if \<not> check (us_hash u) old then Inl Wrong_password
         else Inr (update_user_row i (\<lambda>u. u\<lparr>us_hash := hash new\<rparr>) us))"

section \<open>The middleware\<close>

text \<open>\<open>auth.Middleware\<close>: the claims of the bearer token. \<open>Role\<close> takes a token without a role for one
of a super administrator.\<close>

definition bearer :: "(go_time \<Rightarrow> string \<Rightarrow> claims option) \<Rightarrow> go_time \<Rightarrow> string \<Rightarrow> auth_error + claims" where
  "bearer verify now h =
    (if \<not> has_prefix h ''Bearer '' then Inl Token_missing
     else parse_token verify now (trim_prefix h ''Bearer ''))"

definition role_of :: "claims \<Rightarrow> string" where
  "role_of c = (if cl_role c \<noteq> [] then cl_role c else super_admin)"

section \<open>users.go\<close>

definition active_super_admins :: "user list \<Rightarrow> nat" where
  "active_super_admins us = length (filter (\<lambda>u. us_role u = super_admin \<and> user_active u) us)"

text \<open>The operations with the identifier of the path, None when it does not parse.\<close>

datatype user_op =
    Create_user string string string string \<comment> \<open>email, password, name, role\<close>
  | Update_user "uuid option" string string \<comment> \<open>name, role\<close>
  | Delete_user "uuid option"
  | Set_role "uuid option" string
  | Toggle_status "uuid option" string

definition set_name :: "string \<Rightarrow> user \<Rightarrow> user" where
  "set_name n u = (if n = [] then u else u\<lparr>us_name := Some n\<rparr>)"

text \<open>\<open>valid\<close> is the validator's verdict on the e-mail address and the password.\<close>

definition create_user :: "(string \<Rightarrow> string \<Rightarrow> bool) \<Rightarrow> (string \<Rightarrow> string) \<Rightarrow> uuid \<Rightarrow> user list \<Rightarrow> string \<Rightarrow> string \<Rightarrow> string \<Rightarrow> string \<Rightarrow>
    auth_error + user list" where
  "create_user valid hash fresh us email password name role0 =
    (let role = (if role0 = [] then operator else role0) in
     if \<not> valid email password then Inl Bad_input
     else if \<not> valid_role role then Inl Bad_role
     else if user_by_email us email \<noteq> None then Inl Email_taken
     else Inr (us @ [\<lparr>us_id = fresh, us_email = email, us_hash = hash password,
                     us_name = (if name = [] then None else Some name), us_role = role,
                     us_status = ''active''\<rparr>]))"

definition demotes_last :: "user list \<Rightarrow> user \<Rightarrow> string \<Rightarrow> bool" where
  "demotes_last us u role \<longleftrightarrow> us_role u = super_admin \<and> role \<noteq> super_admin \<and> active_super_admins us \<le> 1"

definition update_user :: "user list \<Rightarrow> uuid option \<Rightarrow> string \<Rightarrow> string \<Rightarrow> auth_error + user list" where
  "update_user us i name role =
    (case i of
       None \<Rightarrow> Inl Bad_id
     | Some k \<Rightarrow>
         (case user_by_id us k of
            None \<Rightarrow> Inl No_such_user
          | Some u \<Rightarrow>
              if role \<noteq> [] \<and> \<not> valid_role role then Inl Bad_role
              else if role \<noteq> [] \<and> demotes_last us u role then Inl Keep_one_super_admin
              else Inr (update_user_row k (\<lambda>u. if role \<noteq> [] then (set_name name u)\<lparr>us_role := role\<rparr>
                                               else set_name name u) us)))"

definition delete_user :: "user list \<Rightarrow> string \<Rightarrow> uuid option \<Rightarrow> auth_error + user list" where
  "delete_user us actor i =
    (case i of
       None \<Rightarrow> Inl Bad_id
     | Some k \<Rightarrow>
         if k = actor then Inl Not_yourself
         else (case user_by_id us k of
            None \<Rightarrow> Inl No_such_user
          | Some u \<Rightarrow>
              if us_role u = super_admin \<and> user_active u \<and> active_super_admins us \<le> 1
              then Inl Keep_one_super_admin
              else Inr (filter (\<lambda>u. us_id u \<noteq> k) us)))"

definition set_role :: "user list \<Rightarrow> uuid option \<Rightarrow> string \<Rightarrow> auth_error + user list" where
  "set_role us i role =
    (case i of
       None \<Rightarrow> Inl Bad_id
     | Some k \<Rightarrow>
         if \<not> valid_role role then Inl Bad_role
         else (case user_by_id us k of
            None \<Rightarrow> Inl No_such_user
          | Some u \<Rightarrow>
              if demotes_last us u role then Inl Keep_one_super_admin
              else Inr (update_user_row k (\<lambda>u. u\<lparr>us_role := role\<rparr>) us)))"

text \<open>The handler stores whatever status it is sent: its \<open>validate\<close> tag is never checked.\<close>

definition toggle_status :: "user list \<Rightarrow> string \<Rightarrow> uuid option \<Rightarrow> string \<Rightarrow> auth_error + user list" where
  "toggle_status us actor i status =
    (case i of
       None \<Rightarrow> Inl Bad_id
     | Some k \<Rightarrow>
         if k = actor then Inl Not_yourself
         else if user_by_id us k = None then Inl No_such_user
         else Inr (update_user_row k (\<lambda>u. u\<lparr>us_status := status\<rparr>) us))"

fun user_handler :: "(string \<Rightarrow> string \<Rightarrow> bool) \<Rightarrow> (string \<Rightarrow> string) \<Rightarrow> uuid \<Rightarrow> user list \<Rightarrow> string \<Rightarrow> user_op \<Rightarrow> auth_error + user list" where
  "user_handler valid hash fresh us actor (Create_user e p n r) = create_user valid hash fresh us e p n r"
| "user_handler valid hash fresh us actor (Update_user i n r) = update_user us i n r"
| "user_handler valid hash fresh us actor (Delete_user i) = delete_user us actor i"
| "user_handler valid hash fresh us actor (Set_role i r) = set_role us i r"
| "user_handler valid hash fresh us actor (Toggle_status i st) = toggle_status us actor i st"

text \<open>The route of an operation; \<open>seg\<close> is the identifier as it stands in the path.\<close>

fun user_route :: "string \<Rightarrow> user_op \<Rightarrow> string \<times> string" where
  "user_route seg (Create_user e p n r) = (''POST'', ''/api/admin/users'')"
| "user_route seg (Update_user i n r) = (''PATCH'', ''/api/admin/users/'' @ seg)"
| "user_route seg (Delete_user i) = (''DELETE'', ''/api/admin/users/'' @ seg)"
| "user_route seg (Set_role i r) = (''PATCH'', ''/api/admin/users/'' @ seg @ ''/role'')"
| "user_route seg (Toggle_status i st) = (''PATCH'', ''/api/admin/users/'' @ seg @ ''/status'')"

text \<open>A call with the claims of a token that verified: the access check, then the handler.\<close>

definition user_call :: "(string \<Rightarrow> string \<Rightarrow> bool) \<Rightarrow> (string \<Rightarrow> string) \<Rightarrow> uuid \<Rightarrow> string \<Rightarrow> claims \<Rightarrow> user_op \<Rightarrow> user list \<Rightarrow>
    user list \<times> auth_error option" where
  "user_call valid hash fresh seg c x us =
    (case user_route seg x of (m, p) \<Rightarrow>
      if \<not> fst (authorize (role_of c) m p) then (us, Some Access_denied)
      else case user_handler valid hash fresh us (cl_admin c) x of
        Inl e \<Rightarrow> (us, Some e)
      | Inr us' \<Rightarrow> (us', None))"

section \<open>Who may write\<close>

lemma users_need_super_admin:
  assumes "fst (authorize role (fst (user_route seg x)) (snd (user_route seg x)))"
  shows "role = super_admin"
proof (rule ccontr)
  assume r: "role \<noteq> super_admin"
  have m: "fst (user_route seg x) \<noteq> ''GET''" "fst (user_route seg x) \<noteq> ''HEAD''"
    by (cases x; simp)+
  have "\<not> list_ex (has_prefix (snd (user_route seg x))) self_write_paths"
    "\<not> list_ex (has_prefix (snd (user_route seg x))) operator_writable"
    by (cases x; simp add: self_write_paths_def operator_writable_def has_prefix_append)+
  with r m assms show False
    by (simp add: authorize_def Let_def split: if_splits)
qed

text \<open>What a role may write: the paths of one's own account, and for an operator those below the
listed modules - a listed name counts as a prefix, so \<open>/api/admin/cmx\<close> is one of them.\<close>

lemma authorize_write:
  assumes "meth \<noteq> ''GET''" and "meth \<noteq> ''HEAD''"
  shows "fst (authorize role meth path) \<longleftrightarrow> role = super_admin
    \<or> (\<exists>p \<in> set self_write_paths. has_prefix path p)
    \<or> role = operator \<and> (\<exists>p \<in> set operator_writable. has_prefix path p)"
  using assms by (auto simp: authorize_def Let_def list_ex_iff super_admin_def operator_def viewer_def)

section \<open>An administrator remains\<close>

definition is_admin :: "user \<Rightarrow> bool" where
  "is_admin u \<longleftrightarrow> us_role u = super_admin \<and> user_active u"

lemma admins_filter: "active_super_admins us = length (filter is_admin us)"
proof -
  have "is_admin = (\<lambda>u. us_role u = super_admin \<and> user_active u)"
    by (simp add: fun_eq_iff is_admin_def)
  then show ?thesis by (simp add: active_super_admins_def)
qed

lemma admins_exist: "0 < active_super_admins us \<longleftrightarrow> (\<exists>u \<in> set us. is_admin u)"
  by (auto simp: admins_filter filter_empty_conv)

lemma another_admin:
  assumes "distinct (map us_id us)" and "1 < active_super_admins us"
  shows "\<exists>u \<in> set us. is_admin u \<and> us_id u \<noteq> k"
proof (rule ccontr)
  assume "\<not> ?thesis"
  then have "set (map us_id (filter is_admin us)) \<subseteq> {k}" by auto
  moreover have "distinct (map us_id (filter is_admin us))"
    using assms(1) by (simp add: distinct_map_filter)
  ultimately have "length (map us_id (filter is_admin us)) \<le> 1"
    by (metis card_mono card.empty card_insert_disjoint distinct_card empty_iff finite.emptyI
        finite.insertI One_nat_def)
  with assms(2) show False by (simp add: admins_filter)
qed

lemma update_row_set:
  "set (update_user_row k f us) = (\<lambda>u. if us_id u = k then f u else u) ` set us"
  by (simp add: update_user_row_def)

lemma update_keeps_others:
  "u \<in> set us \<Longrightarrow> us_id u \<noteq> k \<Longrightarrow> u \<in> set (update_user_row k f us)"
  by (force simp: update_row_set)

lemma found_user: "user_by_id us k = Some u \<Longrightarrow> u \<in> set us \<and> us_id u = k"
  by (auto simp: user_by_id_def dest: find_Some_mem)

lemma unique_user:
  "distinct (map us_id us) \<Longrightarrow> u \<in> set us \<Longrightarrow> v \<in> set us \<Longrightarrow> us_id u = us_id v \<Longrightarrow> u = v"
  by (metis distinct_map inj_onD)

text \<open>A change of a row that keeps administrators administrators, unless another one remains.\<close>

lemma update_keeps_admin:
  assumes "distinct (map us_id us)" and "0 < active_super_admins us"
    and "1 < active_super_admins us \<or> (\<forall>u \<in> set us. us_id u = k \<longrightarrow> is_admin u \<longrightarrow> is_admin (f u))"
  shows "0 < active_super_admins (update_user_row k f us)"
  using assms(3)
proof
  assume "1 < active_super_admins us"
  from another_admin [OF assms(1) this] show ?thesis
    using update_keeps_others unfolding admins_exist by blast
next
  assume keep: "\<forall>u \<in> set us. us_id u = k \<longrightarrow> is_admin u \<longrightarrow> is_admin (f u)"
  obtain u where "u \<in> set us" "is_admin u" using assms(2) unfolding admins_exist by blast
  with keep have "is_admin (if us_id u = k then f u else u)" by simp
  with \<open>u \<in> set us\<close> show ?thesis unfolding admins_exist update_row_set by blast
qed

lemma not_demoting:
  assumes "user_by_id us k = Some u" and "distinct (map us_id us)" and "\<not> demotes_last us u role"
  shows "1 < active_super_admins us \<or> (\<forall>v \<in> set us. us_id v = k \<longrightarrow> is_admin v \<longrightarrow> role = super_admin)"
proof -
  have "v = u" if "v \<in> set us" "us_id v = k" for v
    using unique_user [OF assms(2), of v u] found_user [OF assms(1)] that by simp
  then show ?thesis using assms(3) by (auto simp: demotes_last_def is_admin_def)
qed

lemma handler_keeps_admin:
  assumes "distinct (map us_id us)" and "0 < active_super_admins us"
    and "user_handler valid hash fresh us actor x = Inr us'"
    and actor: "\<exists>u \<in> set us. us_id u = actor \<and> is_admin u"
  shows "0 < active_super_admins us'"
proof (cases x)
  case (Create_user e p n r)
  then show ?thesis using assms(2,3)
    by (auto simp: create_user_def admins_filter Let_def split: if_splits)
next
  case (Update_user i n r)
  then obtain k u where k: "i = Some k" "user_by_id us k = Some u" "r \<noteq> [] \<longrightarrow> \<not> demotes_last us u r"
    and us': "us' = update_user_row k (\<lambda>u. if r \<noteq> [] then (set_name n u)\<lparr>us_role := r\<rparr> else set_name n u) us"
    using assms(3) by (auto simp: update_user_def split: option.splits if_splits)
  show ?thesis unfolding us' using not_demoting [OF k(2) assms(1), of r] k(3)
    by (intro update_keeps_admin assms(1,2)) (auto simp: is_admin_def user_active_def set_name_def)
next
  case (Delete_user i)
  then obtain k u where k: "i = Some k" "k \<noteq> actor" and us': "us' = filter (\<lambda>u. us_id u \<noteq> k) us"
    using assms(3) by (auto simp: delete_user_def split: option.splits if_splits)
  show ?thesis using actor k(2) unfolding admins_exist us' by auto
next
  case (Set_role i r)
  then obtain k u where k: "i = Some k" "user_by_id us k = Some u" "\<not> demotes_last us u r"
    and us': "us' = update_user_row k (\<lambda>u. u\<lparr>us_role := r\<rparr>) us"
    using assms(3) by (auto simp: set_role_def split: option.splits if_splits)
  show ?thesis unfolding us' using not_demoting [OF k(2) assms(1), of r] k(3)
    by (intro update_keeps_admin assms(1,2)) (auto simp: is_admin_def user_active_def)
next
  case (Toggle_status i st)
  then obtain k where "k \<noteq> actor" and us': "us' = update_user_row k (\<lambda>u. u\<lparr>us_status := st\<rparr>) us"
    using assms(3) by (auto simp: toggle_status_def split: option.splits if_splits)
  moreover obtain u where "u \<in> set us" "us_id u = actor" "is_admin u" using actor by blast
  ultimately have "u \<in> set us'" using update_keeps_others by metis
  then show ?thesis using \<open>is_admin u\<close> unfolding admins_exist by blast
qed

lemma handler_distinct:
  assumes "distinct (map us_id us)" and "fresh \<notin> us_id ` set us"
    and "user_handler valid hash fresh us actor x = Inr us'"
  shows "distinct (map us_id us')"
proof -
  have upd: "map us_id (update_user_row k f us) = map us_id us" if "\<And>u. us_id (f u) = us_id u" for k f
    using that by (simp add: update_user_row_def)
  show ?thesis
  proof (cases x)
    case (Create_user e p n r)
    then show ?thesis using assms by (auto simp: create_user_def Let_def split: if_splits)
  next
    case (Update_user i n r)
    then show ?thesis using assms(1,3)
      by (auto simp: update_user_def upd set_name_def split: option.splits if_splits)
  next
    case (Delete_user i)
    then show ?thesis using assms(1,3)
      by (auto simp: delete_user_def distinct_map_filter split: option.splits if_splits)
  next
    case (Set_role i r)
    then show ?thesis using assms(1,3) by (auto simp: set_role_def upd split: option.splits if_splits)
  next
    case (Toggle_status i st)
    then show ?thesis using assms(1,3) by (auto simp: toggle_status_def upd split: option.splits if_splits)
  qed
qed

type_synonym account_call = "uuid \<times> string \<times> claims \<times> user_op"

definition call_step :: "(string \<Rightarrow> string \<Rightarrow> bool) \<Rightarrow> (string \<Rightarrow> string) \<Rightarrow> user list \<Rightarrow> account_call \<Rightarrow> user list" where
  "call_step valid hash us e = (case e of (fresh, seg, c, x) \<Rightarrow> fst (user_call valid hash fresh seg c x us))"

text \<open>Calls by tokens that are true when they are used: one that claims the role of a super
administrator belongs to an account that has it and is active. (New identifiers are new.)\<close>

fun current_calls :: "(string \<Rightarrow> string \<Rightarrow> bool) \<Rightarrow> (string \<Rightarrow> string) \<Rightarrow> user list \<Rightarrow> account_call list \<Rightarrow> bool" where
  "current_calls valid hash us [] = True"
| "current_calls valid hash us ((fresh, seg, c, x) # es) =
     (fresh \<notin> us_id ` set us
      \<and> (role_of c = super_admin \<longrightarrow> list_ex (\<lambda>u. us_id u = cl_admin c \<and> is_admin u) us)
      \<and> current_calls valid hash (call_step valid hash us (fresh, seg, c, x)) es)"

lemma user_call_eq:
  "user_call valid hash fresh seg c x us =
    (if \<not> fst (authorize (role_of c) (fst (user_route seg x)) (snd (user_route seg x)))
     then (us, Some Access_denied)
     else case user_handler valid hash fresh us (cl_admin c) x of Inl e \<Rightarrow> (us, Some e) | Inr us' \<Rightarrow> (us', None))"
  by (cases "user_route seg x") (simp add: user_call_def)

lemma call_keeps_admin:
  assumes "distinct (map us_id us)" and "0 < active_super_admins us" and "fresh \<notin> us_id ` set us"
    and "role_of c = super_admin \<longrightarrow> list_ex (\<lambda>u. us_id u = cl_admin c \<and> is_admin u) us"
  shows "distinct (map us_id (call_step valid hash us (fresh, seg, c, x)))
    \<and> 0 < active_super_admins (call_step valid hash us (fresh, seg, c, x))"
proof (cases "fst (authorize (role_of c) (fst (user_route seg x)) (snd (user_route seg x)))")
  case False
  then show ?thesis using assms by (simp add: call_step_def user_call_eq)
next
  case True
  then have "role_of c = super_admin" by (rule users_need_super_admin)
  then have actor: "\<exists>u \<in> set us. us_id u = cl_admin c \<and> is_admin u"
    using assms(4) by (auto simp: list_ex_iff)
  show ?thesis
  proof (cases "user_handler valid hash fresh us (cl_admin c) x")
    case (Inl e)
    then show ?thesis using assms by (simp add: call_step_def user_call_eq)
  next
    case (Inr us')
    have "call_step valid hash us (fresh, seg, c, x) = us'"
      using True Inr by (simp add: call_step_def user_call_eq)
    then show ?thesis
      using handler_keeps_admin [OF assms(1,2) Inr actor] handler_distinct [OF assms(1,3) Inr] by simp
  qed
qed

text \<open>Property C21. The user handlers never leave the platform without an active super administrator,
provided that nobody acts with an outdated token: whatever accounts are created, renamed, promoted,
demoted, disabled and deleted, by whatever callers and in whatever order, as long as every token that
claims the role of a super administrator is that of an account which still has it.\<close>

theorem a_super_admin_always_remains:
  assumes "distinct (map us_id us)" and "0 < active_super_admins us"
    and "current_calls valid hash us es"
  shows "0 < active_super_admins (foldl (call_step valid hash) us es)"
  using assms
proof (induction es arbitrary: us)
  case Nil
  then show ?case by simp
next
  case (Cons e es)
  obtain fresh seg c x where e: "e = (fresh, seg, c, x)" by (metis prod_cases4)
  have "distinct (map us_id (call_step valid hash us e)) \<and> 0 < active_super_admins (call_step valid hash us e)"
    unfolding e using Cons.prems by (intro call_keeps_admin) (simp_all add: e)
  then show ?case using Cons by (simp add: e)
qed

definition root_user :: user where
  "root_user = \<lparr>us_id = ''u1'', us_email = ''root@example.com'', us_hash = ''h'', us_name = None,
     us_role = super_admin, us_status = ''active''\<rparr>"

definition root_claims :: claims where
  "root_claims = claims_for 86400 0 ''u1'' ''root@example.com'' super_admin"

theorem a_super_admin_always_remains_witness:
  "0 < active_super_admins (foldl (call_step (\<lambda>_ _. True) (\<lambda>p. p)) [root_user]
      [(''u2'', [], root_claims, Create_user ''b@example.com'' ''password'' [] super_admin),
       (''u3'', ''u1'', root_claims, Set_role (Some ''u1'') viewer)])"
proof (rule a_super_admin_always_remains)
  show "distinct (map us_id [root_user])" by simp
  show "0 < active_super_admins [root_user]"
    by (simp add: active_super_admins_def user_active_def root_user_def)
  show "current_calls (\<lambda>_ _. True) (\<lambda>p. p) [root_user]
      [(''u2'', [], root_claims, Create_user ''b@example.com'' ''password'' [] super_admin),
       (''u3'', ''u1'', root_claims, Set_role (Some ''u1'') viewer)]"
    by (simp add: call_step_def user_call_def authorize_def root_user_def root_claims_def claims_for_def
        role_of_def is_admin_def user_active_def create_user_def valid_role_def user_by_email_def
        super_admin_def operator_def viewer_def Let_def self_write_paths_def has_prefix_def)
qed

text \<open>A token speaks for a day whatever has become of its account: the middleware reads
the role from the token and never looks at the table. So when two super administrators are left, one
disables the other, and the other, disabled but with its token at hand, disables the first. Both
calls succeed, no active super administrator remains and nobody can log in as one.\<close>

theorem disabled_admins_lock_everyone_out:
  assumes "distinct (map us_id us)" and "filter is_admin us = [a, b]"
    and "cl_admin ca = us_id a" and "cl_role ca = super_admin"
    and "cl_admin cb = us_id b" and "cl_role cb = super_admin"
    and "\<forall>u \<in> set us. us_role u \<noteq> []"
  shows "let (us1, e1) = user_call valid hash f1 (us_id a) cb (Toggle_status (Some (us_id a)) ''disabled'') us;
             (us2, e2) = user_call valid hash f2 (us_id b) ca (Toggle_status (Some (us_id b)) ''disabled'') us1
    in e1 = None \<and> e2 = None \<and> active_super_admins us2 = 0
      \<and> (\<forall>email pw tok info. login check sign ttl now us2 email pw = Inr (tok, info) \<longrightarrow>
            ai_role info \<noteq> super_admin)"
proof -
  let ?f = "\<lambda>u. u\<lparr>us_status := ''disabled''\<rparr>"
  let ?us1 = "update_user_row (us_id a) ?f us"
  let ?us2 = "update_user_row (us_id b) ?f ?us1"
  have ab: "a \<in> set us" "b \<in> set us" "is_admin a" "is_admin b"
  proof -
    have "set (filter is_admin us) = {a, b}" using assms(2) by simp
    then show "a \<in> set us" "b \<in> set us" "is_admin a" "is_admin b" by auto
  qed
  have "distinct (map us_id (filter is_admin us))" using assms(1) by (simp add: distinct_map_filter)
  then have ne: "us_id a \<noteq> us_id b" using assms(2) by simp
  have super: "fst (authorize super_admin m p)" for m p by (simp add: authorize_def Let_def)
  have roles: "role_of ca = super_admin" "role_of cb = super_admin"
    using assms(4,6) by (simp_all add: role_of_def super_admin_def)
  have in1: "user_by_id us (us_id a) \<noteq> None" using ab(1) by (auto simp: user_by_id_def find_None_iff)
  have in2: "user_by_id ?us1 (us_id b) \<noteq> None"
    using update_keeps_others [OF ab(2) ne [symmetric]] by (auto simp: user_by_id_def find_None_iff)
  have c1: "user_call valid hash f1 (us_id a) cb (Toggle_status (Some (us_id a)) ''disabled'') us = (?us1, None)"
    using in1 ne assms(5) by (simp add: user_call_def roles super toggle_status_def)
  have c2: "user_call valid hash f2 (us_id b) ca (Toggle_status (Some (us_id b)) ''disabled'') ?us1 = (?us2, None)"
    using in2 ne assms(3) by (simp add: user_call_def roles super toggle_status_def)
  have none: "\<not> is_admin u" if "u \<in> set ?us2" for u
  proof
    assume u: "is_admin u"
    then have "us_status u = ''active''" by (simp add: is_admin_def user_active_def)
    with that have "u \<in> set us" "us_id u \<noteq> us_id a" "us_id u \<noteq> us_id b"
      by (auto simp: update_user_row_def split: if_splits)
    moreover have "set (filter is_admin us) = {a, b}" using assms(2) by simp
    ultimately show False using u by auto
  qed
  have role2: "us_role u \<noteq> []" if "u \<in> set ?us2" for u
    using that assms(7) by (auto simp: update_user_row_def split: if_splits)
  have "ai_role info \<noteq> super_admin" if l: "login check sign ttl now ?us2 email pw = Inr (tok, info)"
    for email pw tok info
  proof -
    obtain u where u: "u \<in> set ?us2" "user_active u" "info = info_of u"
      using l by (auto simp: login_def user_by_email_def split: option.splits if_splits dest!: find_Some_mem)
    then show ?thesis using none [OF u(1)] role2 [OF u(1)] by (auto simp: info_of_def is_admin_def)
  qed
  moreover have "active_super_admins ?us2 = 0" using none admins_exist [of ?us2] by blast
  ultimately show ?thesis by (simp only: Let_def c1 prod.case c2) blast
qed

definition second_user :: user where
  "second_user = root_user\<lparr>us_id := ''u2'', us_email := ''b@example.com''\<rparr>"

theorem disabled_admins_lock_everyone_out_witness:
  "let (us1, e1) = user_call (\<lambda>_ _. True) (\<lambda>p. p) [] (us_id root_user)
         (claims_for 86400 0 (us_id second_user) [] super_admin)
         (Toggle_status (Some (us_id root_user)) ''disabled'') [root_user, second_user];
       (us2, e2) = user_call (\<lambda>_ _. True) (\<lambda>p. p) [] (us_id second_user)
         (claims_for 86400 0 (us_id root_user) [] super_admin)
         (Toggle_status (Some (us_id second_user)) ''disabled'') us1
   in e1 = None \<and> e2 = None \<and> active_super_admins us2 = 0
     \<and> (\<forall>email pw tok info. login (\<lambda>h p. h = p) cl_admin 86400 0 us2 email pw = Inr (tok, info) \<longrightarrow>
            ai_role info \<noteq> super_admin)"
  by (rule disabled_admins_lock_everyone_out)
    (simp_all add: second_user_def root_user_def claims_for_def is_admin_def user_active_def super_admin_def)

end
