(* ===== verification/Gateway_Nodes.thy ===== *)
theory Gateway_Nodes
  imports Route_Table Net_Address
begin

text \<open>
  The nodes of the gateway: \<open>node/model.go\<close>, \<open>node/repository.go\<close>, \<open>node/datadir.go\<close> and
  \<open>node/watchdog.go\<close>, on the part of the database that nodes and instances share. A table is the list
  of its rows in the order they were created; the database answers, and refuses what its keys and
  foreign keys forbid. \<open>filepath.ToSlash\<close> is the identity, as on every system but Windows.
\<close>

section \<open>The database\<close>

record gnode =
  gn_id :: uuid
  gn_name :: string
  gn_host :: string
  gn_region :: string
  gn_data_dir :: string
  gn_labels :: "(string \<times> string) list"
  gn_status :: string
  gn_weight :: int
  gn_seen :: "go_time option"
  gn_created :: go_time
  gn_updated :: go_time

record ginstance =
  gi_id :: uuid
  gi_service :: uuid
  gi_deployment :: "uuid option"
  gi_version :: "uuid option"
  gi_project :: "uuid option"
  gi_node :: "uuid option"
  gi_label :: string
  gi_address :: string
  gi_port :: int
  gi_protocol :: string
  gi_weight :: int
  gi_status :: string
  gi_health :: string
  gi_seen :: "go_time option"
  gi_created :: go_time
  gi_updated :: go_time

text \<open>Of the other tables only the keys matter here, and the deployment of a version.\<close>

record gateway_db =
  gd_nodes :: "gnode list"
  gd_instances :: "ginstance list"
  gd_services :: "uuid list"
  gd_deployments :: "uuid list"
  gd_projects :: "uuid list"
  gd_versions :: "(uuid \<times> uuid) list"

datatype store_error =
    Not_found | Conflict | Invalid | Db_error | Bad_upstream upstream_error

definition online :: string where "online = ''online''"
definition offline :: string where "offline = ''offline''"
definition maintenance :: string where "maintenance = ''maintenance''"
definition disabled :: string where "disabled = ''disabled''"

section \<open>datadir.go\<close>

definition strip_slashes :: "string \<Rightarrow> string" where
  "strip_slashes s = rev (let r = rev s; t = dropWhile (\<lambda>c. c = CHR ''/'') r in
     if t = [] then (if r = [] then [] else ''/'') else t)"

definition normalize_data_dir :: "string \<Rightarrow> string" where
  "normalize_data_dir s0 = (let s = trim_space s0 in if s = [] then [] else strip_slashes s)"

definition is_windows_abs :: "string \<Rightarrow> bool" where
  "is_windows_abs s \<longleftrightarrow> 3 \<le> length s \<and> (is_lower (s ! 0) \<or> is_upper (s ! 0))
     \<and> s ! 1 = CHR '':'' \<and> s ! 2 = CHR ''/''"

definition validate_data_dir :: "string \<Rightarrow> store_error option" where
  "validate_data_dir s0 =
    (let s = normalize_data_dir s0 in
     if s = [] then None
     else if \<not> has_prefix s ''/'' \<and> \<not> is_windows_abs s then Some Invalid
     else if ''..'' \<in> set (split_byte CHR ''/'' s) then Some Invalid
     else None)"

section \<open>repository.go\<close>

record new_node =
  nn_name :: string
  nn_host :: string
  nn_region :: string
  nn_labels :: "(string \<times> string) list"
  nn_weight :: int
  nn_data_dir :: string

record node_update =
  nu_host :: "string option"
  nu_region :: "string option"
  nu_data_dir :: "string option"
  nu_clear_dir :: bool
  nu_labels :: "(string \<times> string) list option"
  nu_weight :: "int option"
  nu_status :: "string option"

definition no_update :: node_update where
  "no_update = \<lparr>nu_host = None, nu_region = None, nu_data_dir = None, nu_clear_dir = False,
     nu_labels = None, nu_weight = None, nu_status = None\<rparr>"

definition node_by_id :: "gateway_db \<Rightarrow> uuid \<Rightarrow> gnode option" where
  "node_by_id db i = find (\<lambda>n. gn_id n = i) (gd_nodes db)"

definition node_by_name :: "gateway_db \<Rightarrow> string \<Rightarrow> gnode option" where
  "node_by_name db s = find (\<lambda>n. gn_name n = s) (gd_nodes db)"

definition create_node :: "uuid \<Rightarrow> go_time \<Rightarrow> new_node \<Rightarrow> gateway_db \<Rightarrow> store_error + gnode \<times> gateway_db" where
  "create_node fresh now inp db =
    (let n = \<lparr>gn_id = fresh, gn_name = nn_name inp, gn_host = nn_host inp, gn_region = nn_region inp,
              gn_data_dir = normalize_data_dir (nn_data_dir inp), gn_labels = nn_labels inp,
              gn_status = online, gn_weight = (if nn_weight inp = 0 then 1 else nn_weight inp),
              gn_seen = None, gn_created = now, gn_updated = now\<rparr>
     in if node_by_name db (nn_name inp) \<noteq> None \<or> node_by_id db fresh \<noteq> None then Inl Conflict
        else if nn_name inp = [] \<or> nn_host inp = [] then Inl Db_error
        else Inr (n, db\<lparr>gd_nodes := gd_nodes db @ [n]\<rparr>))"

definition set_node :: "uuid \<Rightarrow> (gnode \<Rightarrow> gnode) \<Rightarrow> gateway_db \<Rightarrow> gateway_db" where
  "set_node i f db = db\<lparr>gd_nodes := map (\<lambda>n. if gn_id n = i then f n else n) (gd_nodes db)\<rparr>"

definition upd :: "'a option \<Rightarrow> 'a \<Rightarrow> 'a" where
  "upd x old = (case x of None \<Rightarrow> old | Some v \<Rightarrow> v)"

definition apply_node_update :: "go_time \<Rightarrow> node_update \<Rightarrow> gnode \<Rightarrow> gnode" where
  "apply_node_update now inp n =
    n\<lparr>gn_host := upd (nu_host inp) (gn_host n), gn_region := upd (nu_region inp) (gn_region n),
      gn_data_dir := (case nu_data_dir inp of
         Some d \<Rightarrow> normalize_data_dir d | None \<Rightarrow> if nu_clear_dir inp then [] else gn_data_dir n),
      gn_labels := upd (nu_labels inp) (gn_labels n), gn_weight := upd (nu_weight inp) (gn_weight n),
      gn_status := upd (nu_status inp) (gn_status n), gn_updated := now\<rparr>"

definition update_node :: "go_time \<Rightarrow> uuid \<Rightarrow> node_update \<Rightarrow> gateway_db \<Rightarrow> store_error + gnode \<times> gateway_db" where
  "update_node now i inp db =
    (case node_by_id db i of
       None \<Rightarrow> Inl Not_found
     | Some n \<Rightarrow>
         if nu_host inp = Some [] then Inl Db_error
         else Inr (apply_node_update now inp n, set_node i (apply_node_update now inp) db))"

definition set_node_status :: "go_time \<Rightarrow> uuid \<Rightarrow> string \<Rightarrow> gateway_db \<Rightarrow> store_error + gnode \<times> gateway_db" where
  "set_node_status now i st db = update_node now i (no_update\<lparr>nu_status := Some st\<rparr>) db"

definition beat :: "go_time \<Rightarrow> gnode \<Rightarrow> gnode" where
  "beat now n = n\<lparr>gn_status := (if gn_status n = disabled then disabled else online),
     gn_seen := Some now, gn_updated := now\<rparr>"

definition heartbeat_node :: "go_time \<Rightarrow> uuid \<Rightarrow> gateway_db \<Rightarrow> store_error + gnode \<times> gateway_db" where
  "heartbeat_node now i db =
    (case node_by_id db i of
       None \<Rightarrow> Inl Not_found
     | Some n \<Rightarrow> Inr (beat now n, set_node i (beat now) db))"

text \<open>The rows of \<open>MarkOffline\<close>'s condition, and the statement with the number of rows it changed.\<close>

definition silent :: "go_time \<Rightarrow> gnode \<Rightarrow> bool" where
  "silent cutoff n \<longleftrightarrow> gn_status n \<noteq> disabled \<and> gn_status n \<noteq> offline
     \<and> (case gn_seen n of None \<Rightarrow> True | Some t \<Rightarrow> t < cutoff)"

definition mark_offline :: "go_time \<Rightarrow> go_time \<Rightarrow> gateway_db \<Rightarrow> gateway_db \<times> nat" where
  "mark_offline now cutoff db =
    (db\<lparr>gd_nodes := map (\<lambda>n. if silent cutoff n then n\<lparr>gn_status := offline, gn_updated := now\<rparr> else n)
          (gd_nodes db)\<rparr>,
     length (filter (silent cutoff) (gd_nodes db)))"

definition delete_node :: "uuid \<Rightarrow> gateway_db \<Rightarrow> store_error + gateway_db" where
  "delete_node i db =
    (if node_by_id db i = None then Inl Not_found
     else Inr (db\<lparr>gd_instances := map (\<lambda>x. if gi_node x = Some i then x\<lparr>gi_node := None\<rparr> else x) (gd_instances db),
                  gd_nodes := filter (\<lambda>n. gn_id n \<noteq> i) (gd_nodes db)\<rparr>))"

definition routable_map :: "gateway_db \<Rightarrow> uuid \<Rightarrow> bool option" where
  "routable_map db i = map_option (\<lambda>n. gn_status n = online) (node_by_id db i)"

section \<open>watchdog.go\<close>

text \<open>One tick; a timeout that is not positive is 30 s.\<close>

definition watchdog_tick :: "int \<Rightarrow> go_time \<Rightarrow> gateway_db \<Rightarrow> gateway_db" where
  "watchdog_tick timeout now db =
    fst (mark_offline now (now - (if timeout \<le> 0 then 30 * second else timeout)) db)"

end
