(* ===== verification/Instances.thy ===== *)
theory Instances
  imports Gateway_Nodes
begin

text \<open>
  The instances of the gateway: \<open>instance/model.go\<close>, \<open>instance/repository.go\<close> and the parts of
  \<open>instance/handler.go\<close> that change state. The generated setters are modelled as generated:
  \<open>SetNillableX\<close> of a nil pointer leaves the column as it is.
\<close>

definition enabled :: string where "enabled = ''enabled''"
definition draining :: string where "draining = ''draining''"

record new_instance =
  ni_id :: "uuid option"
  ni_service :: uuid
  ni_deployment :: "uuid option"
  ni_version :: "uuid option"
  ni_project :: "uuid option"
  ni_node :: "uuid option"
  ni_label :: string
  ni_address :: string
  ni_port :: int
  ni_protocol :: string
  ni_weight :: int

record instance_update =
  iu_address :: "string option"
  iu_port :: "int option"
  iu_protocol :: "string option"
  iu_weight :: "int option"
  iu_status :: "string option"
  iu_health :: "string option"

definition no_change :: instance_update where
  "no_change = \<lparr>iu_address = None, iu_port = None, iu_protocol = None, iu_weight = None,
     iu_status = None, iu_health = None\<rparr>"

text \<open>A component of a mount: None leaves it, \<open>Some uuid_nil\<close> is meant to unmount.\<close>

record mount =
  mo_deployment :: "uuid option"
  mo_version :: "uuid option"
  mo_project :: "uuid option"
  mo_node :: "uuid option"

definition instance_by_id :: "gateway_db \<Rightarrow> uuid \<Rightarrow> ginstance option" where
  "instance_by_id db i = find (\<lambda>x. gi_id x = i) (gd_instances db)"

definition set_instance :: "uuid \<Rightarrow> (ginstance \<Rightarrow> ginstance) \<Rightarrow> gateway_db \<Rightarrow> gateway_db" where
  "set_instance i f db =
    db\<lparr>gd_instances := map (\<lambda>x. if gi_id x = i then f x else x) (gd_instances db)\<rparr>"

text \<open>The row of the route table that stands for an instance.\<close>

definition row_of :: "ginstance \<Rightarrow> instance_row" where
  "row_of x = \<lparr>in_id = gi_id x, in_service = gi_service x, in_version = gi_version x,
     in_node = gi_node x, in_address = gi_address x, in_port = gi_port x, in_protocol = gi_protocol x,
     in_weight = gi_weight x, in_status = gi_status x, in_health = gi_health x\<rparr>"

section \<open>Registration and updates\<close>

definition validate_mount :: "gateway_db \<Rightarrow> uuid option \<Rightarrow> uuid option \<Rightarrow> store_error option" where
  "validate_mount db dep ver =
    (case ver of
       None \<Rightarrow> None
     | Some v \<Rightarrow>
         (case dep of
            None \<Rightarrow> Some Invalid
          | Some d \<Rightarrow>
              (case map_of (gd_versions db) v of
                 None \<Rightarrow> Some Invalid
               | Some d' \<Rightarrow> if d' \<noteq> d then Some Invalid else None)))"

text \<open>The foreign keys of the table (the node has none).\<close>

definition keys_ok :: "gateway_db \<Rightarrow> uuid \<Rightarrow> uuid option \<Rightarrow> uuid option \<Rightarrow> uuid option \<Rightarrow> bool" where
  "keys_ok db s dep ver proj \<longleftrightarrow> s \<in> set (gd_services db)
     \<and> (case dep of None \<Rightarrow> True | Some d \<Rightarrow> d \<in> set (gd_deployments db))
     \<and> (case ver of None \<Rightarrow> True | Some v \<Rightarrow> v \<in> fst ` set (gd_versions db))
     \<and> (case proj of None \<Rightarrow> True | Some p \<Rightarrow> p \<in> set (gd_projects db))"

definition create_instance :: "uuid \<Rightarrow> go_time \<Rightarrow> new_instance \<Rightarrow> gateway_db \<Rightarrow>
    store_error + ginstance \<times> gateway_db" where
  "create_instance fresh now inp db =
    (case validate_upstream_address (ni_address inp) of
       Some e \<Rightarrow> Inl (Bad_upstream e)
     | None \<Rightarrow>
         (case validate_mount db (ni_deployment inp) (ni_version inp) of
            Some e \<Rightarrow> Inl e
          | None \<Rightarrow>
              (let i = (case ni_id inp of Some k \<Rightarrow> k | None \<Rightarrow> fresh);
                   x = \<lparr>gi_id = i, gi_service = ni_service inp, gi_deployment = ni_deployment inp,
                        gi_version = ni_version inp, gi_project = ni_project inp, gi_node = ni_node inp,
                        gi_label = ni_label inp, gi_address = ni_address inp, gi_port = ni_port inp,
                        gi_protocol = (if ni_protocol inp = [] then ''http'' else ni_protocol inp),
                        gi_weight = (if ni_weight inp = 0 then 1 else ni_weight inp),
                        gi_status = enabled, gi_health = ''unknown'', gi_seen = Some now,
                        gi_created = now, gi_updated = now\<rparr>
               in if instance_by_id db i \<noteq> None then Inl Conflict
                  else if \<not> keys_ok db (ni_service inp) (ni_deployment inp) (ni_version inp) (ni_project inp)
                  then Inl Db_error
                  else Inr (x, db\<lparr>gd_instances := gd_instances db @ [x]\<rparr>))))"

definition apply_change :: "go_time \<Rightarrow> instance_update \<Rightarrow> ginstance \<Rightarrow> ginstance" where
  "apply_change now u x =
    x\<lparr>gi_address := upd (iu_address u) (gi_address x), gi_port := upd (iu_port u) (gi_port x),
      gi_protocol := upd (iu_protocol u) (gi_protocol x), gi_weight := upd (iu_weight u) (gi_weight x),
      gi_status := upd (iu_status u) (gi_status x), gi_health := upd (iu_health u) (gi_health x),
      gi_updated := now\<rparr>"

definition update_instance :: "go_time \<Rightarrow> uuid \<Rightarrow> instance_update \<Rightarrow> gateway_db \<Rightarrow>
    store_error + ginstance \<times> gateway_db" where
  "update_instance now i u db =
    (case instance_by_id db i of
       None \<Rightarrow> Inl Not_found
     | Some x \<Rightarrow>
         (case iu_address u of
            None \<Rightarrow> Inr (apply_change now u x, set_instance i (apply_change now u) db)
          | Some a \<Rightarrow>
              (case validate_upstream_address a of
                 Some e \<Rightarrow> Inl (Bad_upstream e)
               | None \<Rightarrow> Inr (apply_change now u x, set_instance i (apply_change now u) db))))"

definition set_health :: "go_time \<Rightarrow> uuid \<Rightarrow> string \<Rightarrow> gateway_db \<Rightarrow> store_error + ginstance \<times> gateway_db" where
  "set_health now i h db =
    (let f = (\<lambda>x. x\<lparr>gi_health := h, gi_updated := now\<rparr>) in
     case instance_by_id db i of None \<Rightarrow> Inl Not_found | Some x \<Rightarrow> Inr (f x, set_instance i f db))"

definition drain_instance :: "go_time \<Rightarrow> uuid \<Rightarrow> gateway_db \<Rightarrow> store_error + ginstance \<times> gateway_db" where
  "drain_instance now i db =
    (let f = (\<lambda>x. x\<lparr>gi_status := draining, gi_updated := now\<rparr>) in
     case instance_by_id db i of None \<Rightarrow> Inl Not_found | Some x \<Rightarrow> Inr (f x, set_instance i f db))"

text \<open>\<open>HeartbeatWithNode\<close>: what is missing is filled in, and the port follows the container.\<close>

definition heartbeat_change :: "go_time \<Rightarrow> uuid option \<Rightarrow> uuid option \<Rightarrow> int option \<Rightarrow> ginstance \<Rightarrow> ginstance" where
  "heartbeat_change now node project port x =
    x\<lparr>gi_seen := Some now, gi_updated := now,
      gi_node := (if gi_node x = None then node else gi_node x),
      gi_project := (if gi_project x = None then project else gi_project x),
      gi_port := (case port of Some p \<Rightarrow> if 0 < p then p else gi_port x | None \<Rightarrow> gi_port x)\<rparr>"

definition heartbeat_with_node :: "go_time \<Rightarrow> uuid \<Rightarrow> uuid option \<Rightarrow> uuid option \<Rightarrow> int option \<Rightarrow>
    gateway_db \<Rightarrow> store_error + ginstance \<times> gateway_db" where
  "heartbeat_with_node now i node project port db =
    (case instance_by_id db i of
       None \<Rightarrow> Inl Not_found
     | Some x \<Rightarrow>
         (let f = heartbeat_change now node project port in
          if gi_project x = None \<and> project \<noteq> None \<and> the project \<notin> set (gd_projects db) then Inl Db_error
          else Inr (f x, set_instance i f db)))"

definition heartbeat_instance :: "go_time \<Rightarrow> uuid \<Rightarrow> gateway_db \<Rightarrow> store_error + ginstance \<times> gateway_db" where
  "heartbeat_instance now i db = heartbeat_with_node now i None None None db"

definition delete_instance :: "uuid \<Rightarrow> gateway_db \<Rightarrow> store_error + gateway_db" where
  "delete_instance i db =
    (if instance_by_id db i = None then Inl Not_found
     else Inr (db\<lparr>gd_instances := filter (\<lambda>x. gi_id x \<noteq> i) (gd_instances db)\<rparr>))"

section \<open>Mounts\<close>

text \<open>The values \<open>Mount\<close> computes.\<close>

definition remount :: "uuid option \<Rightarrow> uuid option \<Rightarrow> uuid option" where
  "remount req cur = (case req of None \<Rightarrow> cur | Some u \<Rightarrow> if u = uuid_nil then None else Some u)"

definition new_deployment :: "mount \<Rightarrow> ginstance \<Rightarrow> uuid option" where
  "new_deployment m x = remount (mo_deployment m) (gi_deployment x)"

definition new_version :: "mount \<Rightarrow> ginstance \<Rightarrow> uuid option" where
  "new_version m x =
    (let base = (case mo_deployment m of
         None \<Rightarrow> gi_version x
       | Some d \<Rightarrow> if d = uuid_nil then None else if mo_version m = None then None else gi_version x)
     in remount (mo_version m) base)"

text \<open>\<open>SetNillableX\<close>.\<close>

definition set_nillable :: "'a option \<Rightarrow> 'a option \<Rightarrow> 'a option" where
  "set_nillable new old = (case new of None \<Rightarrow> old | Some v \<Rightarrow> Some v)"

definition mount_change :: "go_time \<Rightarrow> mount \<Rightarrow> ginstance \<Rightarrow> ginstance" where
  "mount_change now m x =
    x\<lparr>gi_deployment := set_nillable (new_deployment m x) (gi_deployment x),
      gi_version := set_nillable (new_version m x) (gi_version x),
      gi_project := set_nillable (remount (mo_project m) (gi_project x)) (gi_project x),
      gi_node := set_nillable (remount (mo_node m) (gi_node x)) (gi_node x),
      gi_updated := now\<rparr>"

definition mount_instance :: "go_time \<Rightarrow> uuid \<Rightarrow> mount \<Rightarrow> gateway_db \<Rightarrow> store_error + ginstance \<times> gateway_db" where
  "mount_instance now i m db =
    (case instance_by_id db i of
       None \<Rightarrow> Inl Not_found
     | Some x \<Rightarrow>
         (case validate_mount db (new_deployment m x) (new_version m x) of
            Some e \<Rightarrow> Inl e
          | None \<Rightarrow>
              (let y = mount_change now m x in
               if \<not> keys_ok db (gi_service y) (gi_deployment y) (gi_version y) (gi_project y) then Inl Db_error
               else Inr (y, set_instance i (mount_change now m) db))))"

section \<open>Queries of the data plane\<close>

definition list_by_service :: "gateway_db \<Rightarrow> uuid \<Rightarrow> ginstance list" where
  "list_by_service db s = filter (\<lambda>x. gi_service x = s) (gd_instances db)"

definition routable_pool :: "gateway_db \<Rightarrow> uuid \<Rightarrow> ginstance list" where
  "routable_pool db s =
    filter (\<lambda>x. gi_service x = s \<and> gi_status x = enabled \<and> gi_health x = ''healthy'') (gd_instances db)"

section \<open>The registry as a machine\<close>

text \<open>The calls of the two repositories that change the database; one that fails leaves it as it is.\<close>

datatype registry_op =
    Node_create uuid go_time new_node
  | Node_update go_time uuid node_update
  | Node_beat go_time uuid
  | Node_delete uuid
  | Node_scan int go_time
  | Inst_create uuid go_time new_instance
  | Inst_update go_time uuid instance_update
  | Inst_health go_time uuid string
  | Inst_drain go_time uuid
  | Inst_beat go_time uuid "uuid option" "uuid option" "int option"
  | Inst_mount go_time uuid mount
  | Inst_delete uuid

definition kept :: "gateway_db \<Rightarrow> store_error + 'a \<times> gateway_db \<Rightarrow> gateway_db" where
  "kept db r = (case r of Inl _ \<Rightarrow> db | Inr (_, db') \<Rightarrow> db')"

definition kept0 :: "gateway_db \<Rightarrow> store_error + gateway_db \<Rightarrow> gateway_db" where
  "kept0 db r = (case r of Inl _ \<Rightarrow> db | Inr db' \<Rightarrow> db')"

fun registry_step :: "gateway_db \<Rightarrow> registry_op \<Rightarrow> gateway_db" where
  "registry_step db (Node_create f t n) = kept db (create_node f t n db)"
| "registry_step db (Node_update t i u) = kept db (update_node t i u db)"
| "registry_step db (Node_beat t i) = kept db (heartbeat_node t i db)"
| "registry_step db (Node_delete i) = kept0 db (delete_node i db)"
| "registry_step db (Node_scan timeout t) = watchdog_tick timeout t db"
| "registry_step db (Inst_create f t n) = kept db (create_instance f t n db)"
| "registry_step db (Inst_update t i u) = kept db (update_instance t i u db)"
| "registry_step db (Inst_health t i h) = kept db (set_health t i h db)"
| "registry_step db (Inst_drain t i) = kept db (drain_instance t i db)"
| "registry_step db (Inst_beat t i n p q) = kept db (heartbeat_with_node t i n p q db)"
| "registry_step db (Inst_mount t i m) = kept db (mount_instance t i m db)"
| "registry_step db (Inst_delete i) = kept0 db (delete_instance i db)"

definition internal_address :: "ginstance \<Rightarrow> bool" where
  "internal_address x \<longleftrightarrow> validate_upstream_address (gi_address x) = None"

definition all_internal :: "gateway_db \<Rightarrow> bool" where
  "all_internal db \<longleftrightarrow> list_all internal_address (gd_instances db)"

lemma kept_simps [simp]: "kept db (Inl e) = db" "kept db (Inr (x, db')) = db'"
  "kept0 db (Inl e) = db" "kept0 db (Inr db') = db'"
  by (simp_all add: kept_def kept0_def)

lemma all_internal_set:
  assumes "all_internal db" and "\<And>x. internal_address x \<Longrightarrow> internal_address (f x)"
  shows "all_internal (set_instance i f db)"
  using assms by (auto simp: all_internal_def set_instance_def list_all_iff)

lemma all_internal_nodes [simp]: "all_internal (db\<lparr>gd_nodes := ns\<rparr>) = all_internal db"
  by (simp add: all_internal_def)

lemma registry_keeps_internal: "all_internal db \<Longrightarrow> all_internal (registry_step db e)"
proof (cases e)
  case (Node_create f t n)
  assume "all_internal db"
  then show ?thesis by (simp add: Node_create create_node_def Let_def)
next
  case (Node_update t i u)
  assume "all_internal db"
  then show ?thesis by (simp add: Node_update update_node_def set_node_def split: option.split)
next
  case (Node_beat t i)
  assume "all_internal db"
  then show ?thesis by (simp add: Node_beat heartbeat_node_def set_node_def split: option.split)
next
  case (Node_delete i)
  assume "all_internal db"
  then show ?thesis
    by (auto simp: Node_delete delete_node_def all_internal_def list_all_iff internal_address_def)
next
  case (Node_scan timeout t)
  assume "all_internal db"
  then show ?thesis by (simp add: Node_scan watchdog_tick_def mark_offline_def)
next
  case (Inst_create f t n)
  assume "all_internal db"
  then show ?thesis
    by (simp add: Inst_create create_instance_def Let_def all_internal_def internal_address_def split: option.split)
next
  case (Inst_update t i u)
  assume a: "all_internal db"
  have "all_internal (set_instance i (apply_change t u) db)"
    if "case iu_address u of None \<Rightarrow> True | Some x \<Rightarrow> validate_upstream_address x = None"
    using a that
    by (intro all_internal_set) (auto simp: apply_change_def internal_address_def upd_def split: option.splits)
  then show ?thesis using a by (auto simp: Inst_update update_instance_def split: option.splits)
next
  case (Inst_health t i h)
  assume "all_internal db"
  then have "all_internal (set_instance i (\<lambda>x. x\<lparr>gi_health := h, gi_updated := t\<rparr>) db)"
    by (rule all_internal_set) (simp add: internal_address_def)
  with \<open>all_internal db\<close> show ?thesis by (simp add: Inst_health set_health_def Let_def split: option.split)
next
  case (Inst_drain t i)
  assume "all_internal db"
  then have "all_internal (set_instance i (\<lambda>x. x\<lparr>gi_status := draining, gi_updated := t\<rparr>) db)"
    by (rule all_internal_set) (simp add: internal_address_def)
  with \<open>all_internal db\<close> show ?thesis by (simp add: Inst_drain drain_instance_def Let_def split: option.split)
next
  case (Inst_beat t i n p q)
  assume "all_internal db"
  then have "all_internal (set_instance i (heartbeat_change t n p q) db)"
    by (rule all_internal_set) (simp add: internal_address_def heartbeat_change_def)
  with \<open>all_internal db\<close> show ?thesis by (simp add: Inst_beat heartbeat_with_node_def Let_def split: option.split)
next
  case (Inst_mount t i m)
  assume "all_internal db"
  then have "all_internal (set_instance i (mount_change t m) db)"
    by (rule all_internal_set) (simp add: internal_address_def mount_change_def)
  with \<open>all_internal db\<close> show ?thesis by (simp add: Inst_mount mount_instance_def Let_def split: option.split)
next
  case (Inst_delete i)
  assume "all_internal db"
  then show ?thesis by (auto simp: Inst_delete delete_instance_def all_internal_def list_all_iff)
qed

interpretation registry: machine registry_step all_internal
  by unfold_locales (rule registry_keeps_internal)

section \<open>Mounts that do nothing\<close>

text \<open>Unmounting never works, although it is asked for with the nil UUID: the new value
is computed, validated and then handed to a setter that ignores it. The call succeeds and leaves the
deployment, version, project or node as it was. Moved to another deployment without a version, an
instance keeps the version of the old one, and from then on every further mount of it that names no
version is refused - also the one by which a report of its own node would move it.\<close>

theorem unmounting_does_nothing:
  assumes "instance_by_id db i = Some x" and "mount_instance now i m db = Inr (y, db')"
  shows "(mo_deployment m = Some uuid_nil \<longrightarrow> gi_deployment y = gi_deployment x)
    \<and> (mo_version m = Some uuid_nil \<longrightarrow> gi_version y = gi_version x)
    \<and> (mo_project m = Some uuid_nil \<longrightarrow> gi_project y = gi_project x)
    \<and> (mo_node m = Some uuid_nil \<longrightarrow> gi_node y = gi_node x)
    \<and> (\<forall>d. mo_deployment m = Some d \<and> d \<noteq> uuid_nil \<and> mo_version m = None \<longrightarrow>
         gi_deployment y = Some d \<and> gi_version y = gi_version x
         \<and> (\<forall>v d' t n p. gi_version x = Some v \<and> map_of (gd_versions db) v = Some d' \<and> d' \<noteq> d \<longrightarrow>
              mount_instance t i \<lparr>mo_deployment = None, mo_version = None, mo_project = p, mo_node = n\<rparr> db'
                = Inl Invalid))"
proof -
  have y: "y = mount_change now m x" and db': "db' = set_instance i (mount_change now m) db"
    using assms by (auto simp: mount_instance_def Let_def split: option.splits if_splits)
  have x: "x \<in> set (gd_instances db)" "gi_id x = i"
    using assms(1) by (auto simp: instance_by_id_def dest: find_Some_mem)
  have id: "gi_id (mount_change now m z) = gi_id z" for z by (simp add: mount_change_def)
  have found: "instance_by_id db' i = Some y"
  proof -
    have "find (\<lambda>z. gi_id z = i) (map (\<lambda>z. if gi_id z = i then mount_change now m z else z) zs)
        = map_option (mount_change now m) (find (\<lambda>z. gi_id z = i) zs)" for zs
      by (induction zs) (simp_all add: id)
    then show ?thesis using assms(1) by (simp add: db' y instance_by_id_def set_instance_def)
  qed
  have versions: "gd_versions db' = gd_versions db" by (simp add: db' set_instance_def)
  have a: "gi_deployment y = Some d \<and> gi_version y = gi_version x"
    if "mo_deployment m = Some d" "d \<noteq> uuid_nil" "mo_version m = None" for d
    using that by (simp add: y mount_change_def new_deployment_def new_version_def remount_def set_nillable_def)
  have b: "mount_instance t i \<lparr>mo_deployment = None, mo_version = None, mo_project = p, mo_node = n\<rparr> db' = Inl Invalid"
    if "gi_deployment y = Some d" "gi_version y = Some v" "map_of (gd_versions db) v = Some d'" "d' \<noteq> d"
    for t n p v d d'
    using that found versions
    by (simp add: mount_instance_def new_deployment_def new_version_def remount_def validate_mount_def)
  show ?thesis
    using a b
    by (auto simp: y mount_change_def new_deployment_def new_version_def remount_def set_nillable_def
        split: option.split)
qed

definition mounted_row :: ginstance where
  "mounted_row = \<lparr>gi_id = ''i1'', gi_service = ''s1'', gi_deployment = Some ''d1'', gi_version = Some ''v1'',
     gi_project = None, gi_node = Some ''n1'', gi_label = [], gi_address = ''10.0.0.9'', gi_port = 80,
     gi_protocol = ''http'', gi_weight = 1, gi_status = enabled, gi_health = ''healthy'', gi_seen = None,
     gi_created = 0, gi_updated = 0\<rparr>"

definition mounted_db :: gateway_db where
  "mounted_db = \<lparr>gd_nodes = [], gd_instances = [mounted_row], gd_services = [''s1''],
     gd_deployments = [''d1'', ''d2''], gd_projects = [], gd_versions = [(''v1'', ''d1'')]\<rparr>"

definition move_mount :: mount where
  "move_mount = \<lparr>mo_deployment = Some ''d2'', mo_version = None, mo_project = None, mo_node = Some uuid_nil\<rparr>"

text \<open>Moved to another deployment and unmounted from its node, the instance keeps node and version.\<close>

theorem unmounting_does_nothing_witness:
  "\<exists>y db'. mount_instance 1 ''i1'' move_mount mounted_db = Inr (y, db')
    \<and> gi_node y = Some ''n1'' \<and> gi_deployment y = Some ''d2'' \<and> gi_version y = Some ''v1''
    \<and> mount_instance 2 ''i1'' \<lparr>mo_deployment = None, mo_version = None, mo_project = None,
          mo_node = Some ''n2''\<rparr> db' = Inl Invalid"
proof -
  have f: "instance_by_id mounted_db ''i1'' = Some mounted_row"
    by (simp add: instance_by_id_def mounted_db_def mounted_row_def)
  obtain y db' where m: "mount_instance 1 ''i1'' move_mount mounted_db = Inr (y, db')"
    using f by (simp add: mount_instance_def new_version_def validate_mount_def move_mount_def remount_def
        uuid_nil_def mount_change_def new_deployment_def set_nillable_def keys_ok_def mounted_db_def
        mounted_row_def)
  have "mo_deployment move_mount = Some ''d2''" "mo_version move_mount = None"
    "mo_node move_mount = Some uuid_nil" "''d2'' \<noteq> uuid_nil"
    "gi_version mounted_row = Some ''v1''" "gi_node mounted_row = Some ''n1''"
    "map_of (gd_versions mounted_db) ''v1'' = Some ''d1''"
    by (simp_all add: move_mount_def mounted_row_def mounted_db_def uuid_nil_def)
  then show ?thesis using m unmounting_does_nothing [OF f m] by auto
qed

end
