(* ===== verification/Discovery.thy ===== *)
theory Discovery
  imports Instances
begin

text \<open>
  \<open>discovery/handler.go\<close>, \<open>discovery/sync.go\<close> and \<open>discovery/discovery.go\<close>: what container managers
  report to the gateway. A handler answers with a status and a body; \<open>pkg.Err\<close> writes both and returns
  nil, so a caller that only looks at the returned error goes on. Identifiers of new rows come from
  the supply \<open>gen\<close>; the validator of request structs is the parameter \<open>valid\<close>.
\<close>

section \<open>The token\<close>

text \<open>\<open>strings.EqualFold\<close> on ASCII texts.\<close>

definition equal_fold :: "string \<Rightarrow> string \<Rightarrow> bool" where
  "equal_fold a b \<longleftrightarrow> to_lower a = to_lower b"

definition internal_auth :: "string \<Rightarrow> string \<Rightarrow> bool" where
  "internal_auth token h \<longleftrightarrow> token \<noteq> [] \<and> has_prefix h ''Bearer ''
     \<and> equal_fold (trim_prefix h ''Bearer '') token"

section \<open>Handlers of single reports\<close>

text \<open>\<open>RegisterNode\<close>: a known name is only given a heartbeat.\<close>

definition register_node :: "uuid \<Rightarrow> go_time \<Rightarrow> new_node \<Rightarrow> gateway_db \<Rightarrow> store_error + gnode \<times> gateway_db" where
  "register_node fresh now inp db =
    (case node_by_name db (nn_name inp) of
       Some n \<Rightarrow> heartbeat_node now (gn_id n) db
     | None \<Rightarrow>
         (case create_node fresh now inp db of
            Inl e \<Rightarrow> Inl e
          | Inr (n, db1) \<Rightarrow> heartbeat_node now (gn_id n) db1))"

text \<open>\<open>UpdateInstance\<close>: three calls of the repository, each kept when a later one fails.\<close>

definition report_instance :: "go_time \<Rightarrow> uuid \<Rightarrow> instance_update \<Rightarrow> mount \<Rightarrow> gateway_db \<Rightarrow>
    (store_error + ginstance) \<times> gateway_db" where
  "report_instance now i u m db =
    (case update_instance now i u db of
       Inl e \<Rightarrow> (Inl e, db)
     | Inr (_, db1) \<Rightarrow>
         (let mounts = (mo_deployment m \<noteq> None \<or> mo_version m \<noteq> None \<or> mo_project m \<noteq> None \<or> mo_node m \<noteq> None) in
          case (if mounts then map_sum id snd (mount_instance now i m db1) else Inr db1) of
            Inl e \<Rightarrow> (Inl e, db1)
          | Inr db2 \<Rightarrow>
              (case heartbeat_instance now i db2 of
                 Inl e \<Rightarrow> (Inl e, db2)
               | Inr (x, db3) \<Rightarrow> (Inr x, db3))))"

section \<open>Full synchronisation\<close>

record sync_instance =
  si_service :: uuid
  si_deployment :: "uuid option"
  si_version :: "uuid option"
  si_label :: string
  si_address :: string
  si_port :: int
  si_protocol :: string
  si_weight :: int

record sync_node =
  sn_name :: string
  sn_host :: string
  sn_region :: string
  sn_labels :: "(string \<times> string) list option"
  sn_weight :: int
  sn_instances :: "sync_instance list"

record sync_result =
  sr_nodes :: nat
  sr_instances :: nat
  sr_created :: nat
  sr_updated :: nat

record sync_state =
  sy_db :: gateway_db
  sy_next :: nat
  sy_result :: sync_result
  sy_status :: int

definition address_key :: "string \<Rightarrow> int \<Rightarrow> string" where
  "address_key a p = a @ '':'' @ itoa p"

text \<open>The rows of a service under their address and port; of several the last is kept.\<close>

definition known_instances :: "gateway_db \<Rightarrow> uuid \<Rightarrow> string \<Rightarrow> ginstance option" where
  "known_instances db s k =
    find (\<lambda>x. address_key (gi_address x) (gi_port x) = k) (rev (list_by_service db s))"

definition new_of :: "uuid \<Rightarrow> sync_instance \<Rightarrow> new_instance" where
  "new_of node it = \<lparr>ni_id = None, ni_service = si_service it, ni_deployment = si_deployment it,
     ni_version = si_version it, ni_project = None, ni_node = Some node, ni_label = si_label it,
     ni_address = si_address it, ni_port = si_port it, ni_protocol = si_protocol it,
     ni_weight = si_weight it\<rparr>"

definition node_mount :: "uuid \<Rightarrow> mount" where
  "node_mount node = \<lparr>mo_deployment = None, mo_version = None, mo_project = None, mo_node = Some node\<rparr>"

text \<open>\<open>seen\<close> holds what was read at the start and what the loop has created since.\<close>

fun sync_items :: "(nat \<Rightarrow> uuid) \<Rightarrow> go_time \<Rightarrow> uuid \<Rightarrow> (uuid \<Rightarrow> string \<Rightarrow> ginstance option) \<Rightarrow>
    sync_instance list \<Rightarrow> sync_state \<Rightarrow> sync_state \<times> store_error option" where
  "sync_items gen now node seen [] st = (st, None)"
| "sync_items gen now node seen (it # items) st =
    (let key = address_key (si_address it) (si_port it);
         counted = (\<lambda>st. st\<lparr>sy_result := (sy_result st)\<lparr>sr_instances := sr_instances (sy_result st) + 1\<rparr>\<rparr>)
     in case seen (si_service it) key of
       Some e \<Rightarrow>
         (case heartbeat_instance now (gi_id e) (sy_db st) of
            Inl err \<Rightarrow> (st, Some err)
          | Inr (_, db1) \<Rightarrow>
              if gi_node e = Some node
              then sync_items gen now node seen items (counted (st\<lparr>sy_db := db1\<rparr>))
              else (case mount_instance now (gi_id e) (node_mount node) db1 of
                  Inl err \<Rightarrow> (st\<lparr>sy_db := db1\<rparr>, Some err)
                | Inr (_, db2) \<Rightarrow> sync_items gen now node seen items (counted (st\<lparr>sy_db := db2\<rparr>))))
     | None \<Rightarrow>
         (case create_instance (gen (sy_next st)) now (new_of node it) (sy_db st) of
            Inl err \<Rightarrow> (st, Some err)
          | Inr (x, db1) \<Rightarrow>
              sync_items gen now node (seen(si_service it := (seen (si_service it))(key \<mapsto> x))) items
                (counted (st\<lparr>sy_db := db1, sy_next := sy_next st + 1\<rparr>))))"

text \<open>\<open>syncInstances\<close>: an error is written to the response - the status stays - and nil returned.\<close>

fun error_status :: "store_error \<Rightarrow> int" where
  "error_status Not_found = 404"
| "error_status Conflict = 409"
| "error_status Invalid = 400"
| "error_status Db_error = 500"
| "error_status (Bad_upstream _) = 400"

definition sync_instances :: "(nat \<Rightarrow> uuid) \<Rightarrow> go_time \<Rightarrow> uuid \<Rightarrow> sync_instance list \<Rightarrow> sync_state \<Rightarrow> sync_state" where
  "sync_instances gen now node items st =
    (case sync_items gen now node (known_instances (sy_db st)) items st of
       (st1, None) \<Rightarrow> st1
     | (st1, Some e) \<Rightarrow> st1\<lparr>sy_status := error_status e\<rparr>)"

text \<open>One reported node: created or updated, then given a heartbeat; the identifier of its row.\<close>

definition sync_update :: "sync_node \<Rightarrow> node_update" where
  "sync_update sn = no_update\<lparr>nu_host := Some (sn_host sn), nu_labels := sn_labels sn,
     nu_region := (if sn_region sn \<noteq> [] then Some (sn_region sn) else None),
     nu_weight := (if 0 < sn_weight sn then Some (sn_weight sn) else None)\<rparr>"

definition sync_new :: "sync_node \<Rightarrow> new_node" where
  "sync_new sn = \<lparr>nn_name = sn_name sn, nn_host = sn_host sn, nn_region = sn_region sn,
     nn_labels = (case sn_labels sn of None \<Rightarrow> [] | Some l \<Rightarrow> l), nn_weight = sn_weight sn,
     nn_data_dir = []\<rparr>"

definition sync_one :: "(nat \<Rightarrow> uuid) \<Rightarrow> go_time \<Rightarrow> sync_node \<Rightarrow> sync_state \<Rightarrow>
    store_error \<times> sync_state + uuid \<times> sync_state" where
  "sync_one gen now sn st =
    (let found = (case node_by_name (sy_db st) (sn_name sn) of
         None \<Rightarrow>
           (case create_node (gen (sy_next st)) now (sync_new sn) (sy_db st) of
              Inl e \<Rightarrow> Inl e
            | Inr (n, db) \<Rightarrow> Inr (gn_id n, st\<lparr>sy_db := db, sy_next := sy_next st + 1,
                sy_result := (sy_result st)\<lparr>sr_created := sr_created (sy_result st) + 1\<rparr>\<rparr>))
       | Some n \<Rightarrow>
           (case update_node now (gn_id n) (sync_update sn) (sy_db st) of
              Inl e \<Rightarrow> Inl e
            | Inr (_, db) \<Rightarrow> Inr (gn_id n, st\<lparr>sy_db := db,
                sy_result := (sy_result st)\<lparr>sr_updated := sr_updated (sy_result st) + 1\<rparr>\<rparr>)))
     in case found of
       Inl e \<Rightarrow> Inl (e, st)
     | Inr (i, st1) \<Rightarrow>
         (case heartbeat_node now i (sy_db st1) of
            Inl e \<Rightarrow> Inl (e, st1)
          | Inr (_, db) \<Rightarrow> Inr (i, st1\<lparr>sy_db := db,
              sy_result := (sy_result st1)\<lparr>sr_nodes := sr_nodes (sy_result st1) + 1\<rparr>\<rparr>)))"

text \<open>The loop over the nodes: the error that ends it, if any.\<close>

fun sync_nodes :: "(nat \<Rightarrow> uuid) \<Rightarrow> go_time \<Rightarrow> sync_node list \<Rightarrow> sync_state \<Rightarrow> sync_state \<times> store_error option" where
  "sync_nodes gen now [] st = (st, None)"
| "sync_nodes gen now (sn # sns) st =
    (case sync_one gen now sn st of
       Inl (e, st1) \<Rightarrow> (st1, Some e)
     | Inr (i, st1) \<Rightarrow>
         sync_nodes gen now sns
           (if sn_instances sn = [] then st1 else sync_instances gen now i (sn_instances sn) st1))"

datatype sync_body = Body_ok sync_result | Body_error store_error

definition sync_start :: "gateway_db \<Rightarrow> sync_state" where
  "sync_start db = \<lparr>sy_db = db, sy_next = 0,
     sy_result = \<lparr>sr_nodes = 0, sr_instances = 0, sr_created = 0, sr_updated = 0\<rparr>, sy_status = 200\<rparr>"

definition sync :: "(sync_node list \<Rightarrow> bool) \<Rightarrow> (nat \<Rightarrow> uuid) \<Rightarrow> go_time \<Rightarrow> sync_node list \<Rightarrow> gateway_db \<Rightarrow>
    gateway_db \<times> int \<times> sync_body" where
  "sync valid gen now sns db =
    (if \<not> valid sns then (db, 400, Body_error Invalid)
     else case sync_nodes gen now sns (sync_start db) of
       (st, None) \<Rightarrow> (sy_db st, sy_status st, Body_ok (sy_result st))
     | (st, Some e) \<Rightarrow> (sy_db st, error_status e, Body_error e))"

section \<open>Every report is a sequence of repository calls\<close>

text \<open>What registering, refreshing and mounting an instance keep, a report of instances keeps.\<close>

locale instance_invariant =
  fixes good :: "gateway_db \<Rightarrow> bool"
  assumes created_instance: "create_instance f t n db = Inr (x, db') \<Longrightarrow> good db \<Longrightarrow> good db'"
    and beaten_instance: "heartbeat_instance t i db = Inr (x, db') \<Longrightarrow> good db \<Longrightarrow> good db'"
    and mounted_instance: "mount_instance t i m db = Inr (x, db') \<Longrightarrow> good db \<Longrightarrow> good db'"
begin

lemma items: "good (sy_db st) \<Longrightarrow> good (sy_db (fst (sync_items gen t node seen its st)))"
proof (induction its arbitrary: seen st)
  case (Cons it its)
  show ?case
  proof (cases "seen (si_service it) (address_key (si_address it) (si_port it))")
    case None
    show ?thesis
    proof (cases "create_instance (gen (sy_next st)) t (new_of node it) (sy_db st)")
      case (Inl e)
      then show ?thesis using None Cons.prems by (simp add: Let_def)
    next
      case (Inr r)
      obtain x db1 where r: "r = (x, db1)" by fastforce
      then have "good db1" using created_instance Inr Cons.prems by blast
      then show ?thesis using None Inr r Cons.IH by (simp add: Let_def)
    qed
  next
    case (Some e)
    show ?thesis
    proof (cases "heartbeat_instance t (gi_id e) (sy_db st)")
      case (Inl err)
      then show ?thesis using Some Cons.prems by (simp add: Let_def)
    next
      case beaten: (Inr r)
      obtain x db1 where r: "r = (x, db1)" by fastforce
      then have db1: "good db1" using beaten_instance beaten Cons.prems by blast
      show ?thesis
      proof (cases "gi_node e = Some node")
        case True
        then show ?thesis using Some beaten r db1 Cons.IH by (simp add: Let_def)
      next
        case False
        show ?thesis
        proof (cases "mount_instance t (gi_id e) (node_mount node) db1")
          case (Inl err)
          then show ?thesis using Some beaten r db1 False by (simp add: Let_def)
        next
          case mounted: (Inr q)
          obtain y db2 where q: "q = (y, db2)" by fastforce
          then have "good db2" using mounted_instance mounted db1 by blast
          then show ?thesis using Some beaten r False mounted q Cons.IH by (simp add: Let_def)
        qed
      qed
    qed
  qed
qed simp

lemma instances: "good (sy_db st) \<Longrightarrow> good (sy_db (sync_instances gen t n its st))"
  using items [of st gen t n "known_instances (sy_db st)" its]
  by (cases "sync_items gen t n (known_instances (sy_db st)) its st" rule: prod.exhaust)
    (auto simp: sync_instances_def split: option.split)

end

text \<open>What every call of a repository keeps, every report keeps.\<close>

locale registry_invariant =
  fixes good :: "gateway_db \<Rightarrow> bool"
  assumes step: "good db \<Longrightarrow> good (registry_step db e)"
begin

lemma created_node: "create_node f t n db = Inr (x, db') \<Longrightarrow> good db \<Longrightarrow> good db'"
  using step [of db "Node_create f t n"] by simp

lemma updated_node: "update_node t i u db = Inr (x, db') \<Longrightarrow> good db \<Longrightarrow> good db'"
  using step [of db "Node_update t i u"] by simp

lemma beaten_node: "heartbeat_node t i db = Inr (x, db') \<Longrightarrow> good db \<Longrightarrow> good db'"
  using step [of db "Node_beat t i"] by simp

lemma updated_instance: "update_instance t i u db = Inr (x, db') \<Longrightarrow> good db \<Longrightarrow> good db'"
  using step [of db "Inst_update t i u"] by simp

end

sublocale registry_invariant \<subseteq> instance_invariant good
proof
  show "good db'" if "create_instance f t n db = Inr (x, db')" "good db" for f t n db x db'
    using step [of db "Inst_create f t n"] that by simp
  show "good db'" if "heartbeat_instance t i db = Inr (x, db')" "good db" for t i db x db'
    using step [of db "Inst_beat t i None None None"] that by (simp add: heartbeat_instance_def)
  show "good db'" if "mount_instance t i m db = Inr (x, db')" "good db" for t i m db x db'
    using step [of db "Inst_mount t i m"] that by simp
qed

context registry_invariant begin

lemma registered: "good db \<Longrightarrow> good (kept db (register_node f t n db))"
  by (auto simp: register_node_def kept_def split: option.split sum.split
      dest: created_node beaten_node)

lemma reported: "good db \<Longrightarrow> good (snd (report_instance t i u m db))"
proof -
  assume g: "good db"
  show ?thesis
  proof (cases "update_instance t i u db")
    case (Inl e)
    then show ?thesis using g by (simp add: report_instance_def)
  next
    case (Inr r)
    obtain x db1 where r: "r = (x, db1)" by fastforce
    then have db1: "good db1" using updated_instance Inr g by blast
    let ?next = "if mo_deployment m \<noteq> None \<or> mo_version m \<noteq> None \<or> mo_project m \<noteq> None \<or> mo_node m \<noteq> None
      then map_sum id snd (mount_instance t i m db1) else Inr db1"
    show ?thesis
    proof (cases ?next)
      case (Inl e)
      then show ?thesis using \<open>update_instance _ _ _ _ = _\<close> r db1 by (simp add: report_instance_def)
    next
      case remounted: (Inr db2)
      have "good db2"
      proof (cases "mount_instance t i m db1")
        case (Inl e)
        then show ?thesis using remounted db1 by (auto split: if_splits)
      next
        case mounted: (Inr q)
        then show ?thesis using remounted db1 mounted_instance [of t i m db1 "fst q" "snd q"]
          by (auto split: if_splits)
      qed
      then have "good (snd (case heartbeat_instance t i db2 of
          Inl e \<Rightarrow> (Inl e :: store_error + ginstance, db2) | Inr (x, db3) \<Rightarrow> (Inr x, db3)))"
        using beaten_instance by (auto split: sum.split)
      then show ?thesis
        unfolding report_instance_def \<open>update_instance _ _ _ _ = _\<close> r sum.case prod.case Let_def remounted .
    qed
  qed
qed

lemma one:
  assumes "good (sy_db st)"
  shows "case sync_one gen t sn st of Inl (e, st1) \<Rightarrow> good (sy_db st1) | Inr (i, st1) \<Rightarrow> good (sy_db st1)"
  using assms
  by (auto simp: sync_one_def Let_def split: option.split sum.split
      dest: created_node updated_node beaten_node)

lemma nodes: "good (sy_db st) \<Longrightarrow> good (sy_db (fst (sync_nodes gen t sns st)))"
proof (induction sns arbitrary: st)
  case (Cons sn sns)
  show ?case
    using one [OF Cons.prems, of gen t sn] Cons.IH instances
    by (auto split: sum.split)
qed simp

lemma synced: "good db \<Longrightarrow> good (fst (sync valid gen t sns db))"
  using nodes [of "sync_start db" gen t sns]
  by (auto simp: sync_def sync_start_def split: prod.splits option.splits)

end

interpretation internal_registry: registry_invariant all_internal
  by unfold_locales (rule registry_keeps_internal)

datatype gateway_event =
    Repository registry_op
  | Register uuid go_time new_node
  | Report go_time uuid instance_update mount
  | Synchronise "sync_node list \<Rightarrow> bool" "nat \<Rightarrow> uuid" go_time "sync_node list"

fun gateway_step :: "gateway_db \<Rightarrow> gateway_event \<Rightarrow> gateway_db" where
  "gateway_step db (Repository e) = registry_step db e"
| "gateway_step db (Register f t n) = kept db (register_node f t n db)"
| "gateway_step db (Report t i u m) = snd (report_instance t i u m db)"
| "gateway_step db (Synchronise valid gen t sns) = fst (sync valid gen t sns db)"

interpretation registry_reports: machine gateway_step all_internal
proof
  fix db e assume "all_internal db"
  then show "all_internal (gateway_step db e)"
    using internal_registry.registered internal_registry.reported internal_registry.synced
      registry_keeps_internal
    by (cases e) simp_all
qed

section \<open>Properties\<close>

text \<open>Property C17. The gateway cannot be made a proxy to the outside: whatever the Management API and the
container managers create, update, mount, report and synchronise, in whatever order and with whatever
failures, the address of every instance in the database is the text of an IP address, alone or with a
port, that is a loopback, private or link-local one.\<close>

theorem upstreams_stay_internal:
  "list_all (\<lambda>x. case parse_ip (upstream_host (gi_address x)) of
       None \<Rightarrow> False
     | Some ip \<Rightarrow> is_loopback ip \<or> is_private ip \<or> is_link_local_unicast ip)
   (gd_instances (foldl gateway_step (db\<lparr>gd_instances := []\<rparr>) es))"
proof -
  have "all_internal (foldl gateway_step (db\<lparr>gd_instances := []\<rparr>) es)"
    by (rule registry_reports.mrun_inv) (simp add: all_internal_def)
  then show ?thesis
    by (auto simp: all_internal_def internal_address_def validate_upstream_address_def is_internal_ip_def
        list_all_iff split: option.splits if_splits)
qed

section \<open>Nodes that report\<close>

definition reported :: "go_time \<Rightarrow> gnode \<Rightarrow> bool" where
  "reported t n \<longleftrightarrow> gn_seen n = Some t \<and> (gn_status n = online \<or> gn_status n = disabled)"

definition fresh_name :: "go_time \<Rightarrow> string \<Rightarrow> gateway_db \<Rightarrow> bool" where
  "fresh_name t k db \<longleftrightarrow> (case node_by_name db k of None \<Rightarrow> False | Some n \<Rightarrow> reported t n)"

lemma node_by_name_set:
  assumes "\<And>n. gn_name (f n) = gn_name n"
  shows "node_by_name (set_node i f db) k =
    map_option (\<lambda>n. if gn_id n = i then f n else n) (node_by_name db k)"
proof -
  have "find (\<lambda>n. gn_name n = k) (map (\<lambda>n. if gn_id n = i then f n else n) ns) =
      map_option (\<lambda>n. if gn_id n = i then f n else n) (find (\<lambda>n. gn_name n = k) ns)" for ns
    by (induction ns) (simp_all add: assms)
  then show ?thesis by (simp add: node_by_name_def set_node_def)
qed

lemma node_by_name_append:
  "node_by_name (db\<lparr>gd_nodes := gd_nodes db @ [n]\<rparr>) k =
    (case node_by_name db k of Some m \<Rightarrow> Some m | None \<Rightarrow> if gn_name n = k then Some n else None)"
proof -
  have "find P (xs @ [x]) = (case find P xs of Some m \<Rightarrow> Some m | None \<Rightarrow> if P x then Some x else None)"
    for P :: "gnode \<Rightarrow> bool" and xs x
    by (induction xs) simp_all
  then show ?thesis by (simp add: node_by_name_def)
qed

lemma beat_simps [simp]: "gn_name (beat t n) = gn_name n" "reported t (beat t n)"
  by (simp_all add: beat_def reported_def)

lemma beat_node_fresh:
  assumes "heartbeat_node t i db = Inr (x, db')"
  shows "fresh_name t k db \<Longrightarrow> fresh_name t k db'"
    and "node_by_name db k = Some n \<Longrightarrow> gn_id n = i \<Longrightarrow> fresh_name t k db'"
proof -
  have db': "db' = set_node i (beat t) db"
    using assms by (auto simp: heartbeat_node_def split: option.splits)
  show "fresh_name t k db \<Longrightarrow> fresh_name t k db'"
    by (auto simp: fresh_name_def db' node_by_name_set split: option.splits)
  show "node_by_name db k = Some n \<Longrightarrow> gn_id n = i \<Longrightarrow> fresh_name t k db'"
    by (simp add: fresh_name_def db' node_by_name_set)
qed

lemma update_sync_fresh:
  assumes "update_node t i (sync_update sn) db = Inr (x, db')"
  shows "fresh_name t k db \<Longrightarrow> fresh_name t k db'"
    and "node_by_name db k = Some n \<Longrightarrow> \<exists>m. node_by_name db' k = Some m \<and> gn_id m = gn_id n"
proof -
  have db': "db' = set_node i (apply_node_update t (sync_update sn)) db"
    using assms by (auto simp: update_node_def split: option.splits if_splits)
  have f: "gn_name (apply_node_update t (sync_update sn) n) = gn_name n"
    "gn_id (apply_node_update t (sync_update sn) n) = gn_id n"
    "reported t (apply_node_update t (sync_update sn) n) = reported t n" for n
    by (simp_all add: apply_node_update_def sync_update_def no_update_def upd_def reported_def)
  show "fresh_name t k db \<Longrightarrow> fresh_name t k db'"
    by (auto simp: fresh_name_def db' node_by_name_set f split: option.splits)
  show "node_by_name db k = Some n \<Longrightarrow> \<exists>m. node_by_name db' k = Some m \<and> gn_id m = gn_id n"
    by (simp add: db' node_by_name_set f)
qed

lemma create_node_fresh:
  assumes "create_node f t inp db = Inr (n, db')"
  shows "fresh_name t k db \<Longrightarrow> fresh_name t k db'"
    and "node_by_name db' (nn_name inp) = Some n"
  using assms
  by (auto simp: create_node_def Let_def fresh_name_def node_by_name_append split: if_splits option.splits)

lemma sync_one_fresh:
  assumes "sync_one gen t sn st = Inr (i, st')"
  shows "fresh_name t (sn_name sn) (sy_db st')"
    and "fresh_name t k (sy_db st) \<Longrightarrow> fresh_name t k (sy_db st')"
proof -
  consider (new) n db x db' where "node_by_name (sy_db st) (sn_name sn) = None"
      "create_node (gen (sy_next st)) t (sync_new sn) (sy_db st) = Inr (n, db)"
      "heartbeat_node t (gn_id n) db = Inr (x, db')" "sy_db st' = db'"
    | (old) n y db x db' where "node_by_name (sy_db st) (sn_name sn) = Some n"
      "update_node t (gn_id n) (sync_update sn) (sy_db st) = Inr (y, db)"
      "heartbeat_node t (gn_id n) db = Inr (x, db')" "sy_db st' = db'"
    using assms by (auto simp: sync_one_def Let_def split: option.splits sum.splits prod.splits)
  then have "fresh_name t (sn_name sn) (sy_db st') \<and>
      (fresh_name t k (sy_db st) \<longrightarrow> fresh_name t k (sy_db st'))"
  proof cases
    case new
    have "node_by_name db (sn_name sn) = Some n"
      using create_node_fresh(2) [OF new(2)] by (simp add: sync_new_def)
    then show ?thesis
      using beat_node_fresh [OF new(3)] create_node_fresh(1) [OF new(2)] new(4) by blast
  next
    case old
    then show ?thesis
      using beat_node_fresh [OF old(3)] update_sync_fresh [OF old(2)] by metis
  qed
  then show "fresh_name t (sn_name sn) (sy_db st')"
    and "fresh_name t k (sy_db st) \<Longrightarrow> fresh_name t k (sy_db st')" by blast+
qed

text \<open>The instances of a report leave the nodes alone.\<close>

lemma set_instance_nodes [simp]: "gd_nodes (set_instance i f db) = gd_nodes db"
  by (simp add: set_instance_def)

interpretation node_rows: instance_invariant "\<lambda>db. gd_nodes db = ns" for ns
  by unfold_locales
    (auto simp: create_instance_def heartbeat_instance_def heartbeat_with_node_def mount_instance_def Let_def
      split: option.splits if_splits)

lemma sync_instances_fresh:
  "fresh_name t k (sy_db (sync_instances gen now n its st)) = fresh_name t k (sy_db st)"
  using node_rows.instances [of st "gd_nodes (sy_db st)" gen now n its]
  by (simp add: fresh_name_def node_by_name_def)

lemma sync_nodes_fresh:
  assumes "sync_nodes gen t sns st = (st', None)"
  shows "(fresh_name t k (sy_db st) \<longrightarrow> fresh_name t k (sy_db st'))
    \<and> (k \<in> sn_name ` set sns \<longrightarrow> fresh_name t k (sy_db st'))"
  using assms
proof (induction sns arbitrary: st)
  case (Cons sn sns)
  obtain i st1 where one: "sync_one gen t sn st = Inr (i, st1)"
    using Cons.prems by (auto split: sum.splits prod.splits)
  let ?st2 = "if sn_instances sn = [] then st1 else sync_instances gen t i (sn_instances sn) st1"
  have "fresh_name t j (sy_db ?st2) = fresh_name t j (sy_db st1)" for j
    by (simp add: sync_instances_fresh)
  moreover have "sync_nodes gen t sns ?st2 = (st', None)" using Cons.prems one by simp
  ultimately show ?case
    using Cons.IH [of ?st2] sync_one_fresh [OF one] by auto
qed simp

text \<open>Property C22. A node keeps its traffic exactly as long as it reports. When a synchronisation is
answered without an error of a node, every reported node is in the table with the time of the report;
and unless it is disabled, a scan of the watchdog at any later time leaves it routable if and only if
no more than the timeout has passed since.\<close>

theorem nodes_lose_their_traffic_when_they_fall_silent:
  assumes "sync valid gen t sns db = (db', status, Body_ok r)" and "sn \<in> set sns" and "0 < timeout"
  shows "\<exists>n. node_by_name db' (sn_name sn) = Some n \<and> gn_seen n = Some t \<and>
    (gn_status n = disabled \<or>
      (\<forall>u. \<exists>m. node_by_name (watchdog_tick timeout u db') (sn_name sn) = Some m
         \<and> (gn_status m = online \<longleftrightarrow> u \<le> t + timeout)))"
proof -
  obtain st where st: "sync_nodes gen t sns (sync_start db) = (st, None)" "db' = sy_db st"
    using assms(1) by (auto simp: sync_def split: if_splits prod.splits option.splits)
  have "fresh_name t (sn_name sn) db'"
    using sync_nodes_fresh [OF st(1), of "sn_name sn"] assms(2) st(2) by auto
  then obtain n where n: "node_by_name db' (sn_name sn) = Some n" "gn_seen n = Some t"
    "gn_status n = online \<or> gn_status n = disabled"
    by (auto simp: fresh_name_def reported_def split: option.splits)
  have tick: "\<exists>m. node_by_name (watchdog_tick timeout u db') (sn_name sn) = Some m
      \<and> (gn_status m = online \<longleftrightarrow> u \<le> t + timeout)" if "gn_status n = online" for u
  proof -
    let ?f = "\<lambda>n. if silent (u - timeout) n then n\<lparr>gn_status := offline, gn_updated := u\<rparr> else n"
    have "find (\<lambda>n. gn_name n = k) (map ?f ns) = map_option ?f (find (\<lambda>n. gn_name n = k) ns)" for k ns
      by (induction ns) simp_all
    then have "node_by_name (watchdog_tick timeout u db') (sn_name sn) = Some (?f n)"
      using n(1) assms(3) by (simp add: node_by_name_def watchdog_tick_def mark_offline_def)
    moreover have "gn_status (?f n) = online \<longleftrightarrow> u \<le> t + timeout"
      using that n(2) by (auto simp: silent_def online_def offline_def disabled_def)
    ultimately show ?thesis by blast
  qed
  show ?thesis using n tick by blast
qed

definition empty_db :: gateway_db where
  "empty_db = \<lparr>gd_nodes = [], gd_instances = [], gd_services = [], gd_deployments = [],
     gd_projects = [], gd_versions = []\<rparr>"

definition one_node :: sync_node where
  "one_node = \<lparr>sn_name = ''n1'', sn_host = ''10.0.0.1'', sn_region = [], sn_labels = None,
     sn_weight = 1, sn_instances = []\<rparr>"

definition after_sync :: gateway_db where
  "after_sync = fst (sync (\<lambda>_. True) (\<lambda>_. ''id1'') 0 [one_node] empty_db)"

theorem nodes_lose_their_traffic_when_they_fall_silent_witness:
  "\<exists>n. node_by_name after_sync ''n1'' = Some n \<and> gn_seen n = Some 0 \<and>
    (gn_status n = disabled \<or>
      (\<forall>u. \<exists>m. node_by_name (watchdog_tick (30 * second) u after_sync) ''n1'' = Some m
         \<and> (gn_status m = online \<longleftrightarrow> u \<le> 0 + 30 * second)))"
proof -
  have "\<exists>st r. sync (\<lambda>_. True) (\<lambda>_. ''id1'') 0 [one_node] empty_db = (after_sync, st, Body_ok r)"
    by (simp add: after_sync_def sync_def sync_start_def sync_one_def one_node_def empty_db_def node_by_name_def
        node_by_id_def create_node_def sync_new_def heartbeat_node_def Let_def)
  then obtain st r where "sync (\<lambda>_. True) (\<lambda>_. ''id1'') 0 [one_node] empty_db = (after_sync, st, Body_ok r)"
    by blast
  then have "\<exists>n. node_by_name after_sync (sn_name one_node) = Some n \<and> gn_seen n = Some 0 \<and>
    (gn_status n = disabled \<or>
      (\<forall>u. \<exists>m. node_by_name (watchdog_tick (30 * second) u after_sync) (sn_name one_node) = Some m
         \<and> (gn_status m = online \<longleftrightarrow> u \<le> 0 + 30 * second)))"
    by (rule nodes_lose_their_traffic_when_they_fall_silent) (simp_all add: second_def)
  then show ?thesis by (simp add: one_node_def)
qed

text \<open>An error in the instances of a node does not end the synchronisation, although the comment on
\<open>Sync\<close> says so: the answer has the status of the error, a body that says OK, and nothing of the rest
of that node's instances.\<close>

lemma failed_instances_are_answered_ok:
  assumes "node_by_name db (sn_name sn) = Some n" and "sn_host sn \<noteq> []"
    and "sn_instances sn = it # rest" and "validate_upstream_address (si_address it) \<noteq> None"
    and "\<forall>x \<in> set (gd_instances db). address_key (gi_address x) (gi_port x) \<noteq> address_key (si_address it) (si_port it)"
  shows "\<exists>db'. sync (\<lambda>_. True) gen t [sn] db =
      (db', 400, Body_ok \<lparr>sr_nodes = 1, sr_instances = 0, sr_created = 0, sr_updated = 1\<rparr>)
    \<and> gd_instances db' = gd_instances db"
proof -
  have n: "n \<in> set (gd_nodes db)" "gn_name n = sn_name sn"
    using assms(1) by (auto simp: node_by_name_def dest: find_Some_mem)
  let ?db1 = "set_node (gn_id n) (apply_node_update t (sync_update sn)) db"
  let ?db2 = "set_node (gn_id n) (beat t) ?db1"
  have byid: "node_by_id db (gn_id n) \<noteq> None" "node_by_id ?db1 (gn_id n) \<noteq> None"
    using n(1) by (auto simp: node_by_id_def find_None_iff set_node_def apply_node_update_def split: if_splits)
  obtain m where m: "node_by_id db (gn_id n) = Some m" using byid(1) by blast
  have upd: "update_node t (gn_id n) (sync_update sn) db = Inr (apply_node_update t (sync_update sn) m, ?db1)"
    using m assms(2) by (simp add: update_node_def sync_update_def no_update_def)
  obtain m' where beat: "heartbeat_node t (gn_id n) ?db1 = Inr (m', ?db2)"
    using byid(2) by (auto simp: heartbeat_node_def)
  obtain e where e: "validate_upstream_address (si_address it) = Some e" using assms(4) by blast
  have same: "gd_instances ?db2 = gd_instances db" by (simp add: set_node_def)
  have none: "known_instances ?db2 s (address_key (si_address it) (si_port it)) = None" for s
    using assms(5) by (auto simp: known_instances_def list_by_service_def find_None_iff same)
  have "sync_one gen t sn (sync_start db) = Inr (gn_id n, (sync_start db)\<lparr>sy_db := ?db2,
      sy_result := \<lparr>sr_nodes = 1, sr_instances = 0, sr_created = 0, sr_updated = 1\<rparr>\<rparr>)"
    using assms(1) upd beat by (simp add: sync_one_def sync_start_def)
  then show ?thesis
    using none e same assms(3)
    by (simp add: sync_def sync_start_def sync_instances_def create_instance_def new_of_def Let_def)
qed

text \<open>\<open>RegisterNode\<close> of a known name ignores what is reported, where its comment promises an update.\<close>

lemma registration_updates_nothing:
  "node_by_name db (nn_name inp) = Some n \<Longrightarrow>
    register_node f t inp db = heartbeat_node t (gn_id n) db"
  by (simp add: register_node_def)

text \<open>A heartbeat ends a maintenance an operator has just begun.\<close>

lemma heartbeat_ends_maintenance: "gn_status n = maintenance \<Longrightarrow> gn_status (beat t n) = online"
  by (simp add: beat_def maintenance_def disabled_def)

text \<open>The token is compared without regard to case.\<close>

lemma tokens_ignore_case: "internal_auth ''Secret'' ''Bearer sECRET''"
  by code_simp

end
