(* ===== verification/Enrollment.thy ===== *)
theory Enrollment
  imports Nodes Go_Text
begin

text \<open>
  \<open>containermanager/enrollment\<close> and \<open>api/enrollment.go\<close>: one-time tokens and the admission of nodes. The
  tokens are an association list from keys (the value of a token, its id once it is used) and the
  table \<open>cm_enrollment_tokens\<close> a list of rows, None without a database. SHA-256, the random bytes and
  the answer of the gateway are arguments. An enrolment is split where other requests can come in
  between: \<open>auth_begin\<close> ends with the new credential of the node, \<open>enroll_finish\<close> spends the token.
\<close>

section \<open>Tokens\<close>

datatype token_status = TokActive | TokUsed | TokExpired | TokRevoked

record token =
  tk_id :: string
  tk_value :: string
  tk_note :: string
  tk_status :: token_status
  tk_created_by :: string
  tk_created_ms :: int
  tk_expires_ms :: int
  tk_used_ms :: int
  tk_used_by :: string

record token_row =
  tr_id :: string
  tr_value :: string
  tr_note :: string
  tr_status :: token_status
  tr_created_ms :: int
  tr_expires_ms :: int
  tr_used_ms :: "int option"
  tr_used_by :: string

record token_store =
  ts_rows :: "token_row list option"
  ts_tokens :: "(string \<times> token) list"

datatype enroll_error =
    NoEntropy | TokenTable | TokenInvalid | TokenAlreadyUsed | TokenOutdated
  | TokenMissing | NoRegistrar | NameMissing | GatewayRefused | NodeRefused node_error

definition unix_milli :: "go_time \<Rightarrow> int" where
  "unix_milli t = t div 1000000 - 62135596800000"

definition token_expired :: "go_time \<Rightarrow> token \<Rightarrow> bool" where
  "token_expired now t \<longleftrightarrow> 0 < tk_expires_ms t \<and> tk_expires_ms t \<le> unix_milli now"

definition display_status :: "go_time \<Rightarrow> token \<Rightarrow> token_status" where
  "display_status now t =
    (if tk_status t = TokUsed \<or> tk_status t = TokRevoked then tk_status t
     else if token_expired now t then TokExpired else TokActive)"

text \<open>\<open>toView\<close> of the handlers: the value that is shown.\<close>

definition shown_value :: "go_time \<Rightarrow> token \<Rightarrow> string" where
  "shown_value now t = (if display_status now t = TokActive then tk_value t else [])"

definition new_token_store :: "token_row list option \<Rightarrow> token_store" where
  "new_token_store db = \<lparr>ts_rows = db, ts_tokens = []\<rparr>"

text \<open>Loading: the issuer is not read back, and a use that never happened is the Unix epoch.\<close>

definition token_of_row :: "token_row \<Rightarrow> token" where
  "token_of_row r =
    \<lparr>tk_id = tr_id r, tk_value = tr_value r, tk_note = tr_note r, tk_status = tr_status r,
     tk_created_by = [], tk_created_ms = tr_created_ms r, tk_expires_ms = tr_expires_ms r,
     tk_used_ms = (case tr_used_ms r of None \<Rightarrow> 0 | Some m \<Rightarrow> m), tk_used_by = tr_used_by r\<rparr>"

definition load_key :: "token_row \<Rightarrow> string" where
  "load_key r = (if tr_value r = [] then tr_id r else tr_value r)"

definition load_tokens :: "token_store \<Rightarrow> token_store" where
  "load_tokens s =
    (case ts_rows s of
       None \<Rightarrow> s
     | Some rows \<Rightarrow> s\<lparr>ts_tokens :=
         fold (\<lambda>r. AList.update (load_key r) (token_of_row r)) rows (ts_tokens s)\<rparr>)"

definition row_of_token :: "token \<Rightarrow> token_row" where
  "row_of_token t =
    \<lparr>tr_id = tk_id t, tr_value = tk_value t, tr_note = tk_note t, tr_status = TokActive,
     tr_created_ms = tk_created_ms t, tr_expires_ms = tk_expires_ms t, tr_used_ms = None, tr_used_by = []\<rparr>"

text \<open>\<open>persist\<close>: ids are unique, values among the active rows; None when the database refuses.\<close>

definition persist_token :: "bool \<Rightarrow> token \<Rightarrow> token_store \<Rightarrow> token_store option" where
  "persist_token db_ok t s =
    (case ts_rows s of
       None \<Rightarrow> Some s
     | Some rows \<Rightarrow>
         if \<not> db_ok \<or> list_ex (\<lambda>r. tr_id r = tk_id t \<or> tr_status r = TokActive \<and> tr_value r = tk_value t) rows
         then None
         else Some (s\<lparr>ts_rows := Some (rows @ [row_of_token t])\<rparr>))"

definition token_value :: "string \<Rightarrow> string" where "token_value hex = ''mg_enroll_'' @ hex"
definition token_id :: "string \<Rightarrow> string" where "token_id hex = ''tok_'' @ hex"

definition issue_by :: "bool \<Rightarrow> go_time \<Rightarrow> string option \<Rightarrow> string option \<Rightarrow> string \<Rightarrow> int \<Rightarrow> string \<Rightarrow>
    token_store \<Rightarrow> (enroll_error + token) \<times> token_store" where
  "issue_by db_ok now rnd_value rnd_id note ttl0 by s =
    (let ttl = (if ttl0 \<le> 0 then 24 * 3600 * second else ttl0) in
     case (rnd_value, rnd_id) of
       (Some rv, Some ri) \<Rightarrow>
         (let t = \<lparr>tk_id = token_id ri, tk_value = token_value rv, tk_note = note, tk_status = TokActive,
                   tk_created_by = by, tk_created_ms = unix_milli now, tk_expires_ms = unix_milli (now + ttl),
                   tk_used_ms = 0, tk_used_by = []\<rparr>;
              s1 = s\<lparr>ts_tokens := AList.update (token_value rv) t (ts_tokens s)\<rparr>
          in (case persist_token db_ok t s1 of
                None \<Rightarrow> (Inl TokenTable, s1)
              | Some s2 \<Rightarrow> (Inr t, s2)))
     | _ \<Rightarrow> (Inl NoEntropy, s))"

text \<open>The handler multiplies seconds as a \<open>Duration\<close>, which wraps.\<close>

definition issue_handler :: "bool \<Rightarrow> go_time \<Rightarrow> string option \<Rightarrow> string option \<Rightarrow> string \<Rightarrow> int \<Rightarrow> string \<Rightarrow>
    token_store \<Rightarrow> (enroll_error + token) \<times> token_store" where
  "issue_handler db_ok now rv ri note ttl_seconds by s =
    issue_by db_ok now rv ri note (wrap64 (ttl_seconds * second)) by s"

definition peek :: "go_time \<Rightarrow> string \<Rightarrow> token_store \<Rightarrow> enroll_error option" where
  "peek now v s =
    (case map_of (ts_tokens s) v of
       None \<Rightarrow> Some TokenInvalid
     | Some t \<Rightarrow>
         if tk_status t = TokRevoked then Some TokenInvalid
         else if tk_status t = TokUsed then Some TokenAlreadyUsed
         else if token_expired now t then Some TokenOutdated
         else None)"

definition hash_placeholder :: "(string \<Rightarrow> string) \<Rightarrow> string \<Rightarrow> string" where
  "hash_placeholder sha v = ''used:'' @ take 32 (sha v)"

definition spend :: "(string \<Rightarrow> string) \<Rightarrow> go_time \<Rightarrow> string \<Rightarrow> string \<Rightarrow> token_row \<Rightarrow> token_row" where
  "spend sha now v node r =
    r\<lparr>tr_status := TokUsed, tr_used_by := node, tr_used_ms := Some (unix_milli now),
      tr_value := hash_placeholder sha v\<rparr>"

definition spendable :: "go_time \<Rightarrow> string \<Rightarrow> token_row \<Rightarrow> bool" where
  "spendable now v r \<longleftrightarrow> tr_value r = v \<and> tr_status r = TokActive \<and> unix_milli now < tr_expires_ms r"

definition consume_db :: "(string \<Rightarrow> string) \<Rightarrow> bool \<Rightarrow> go_time \<Rightarrow> string \<Rightarrow> string \<Rightarrow> token_row list \<Rightarrow>
    token_store \<Rightarrow> enroll_error option \<times> token_store" where
  "consume_db sha db_ok now v node rows s =
    (if \<not> db_ok then (Some TokenTable, s)
     else if \<not> list_ex (spendable now v) rows then (Some TokenInvalid, s)
     else
       (let s1 = s\<lparr>ts_rows := Some (map (\<lambda>r. if spendable now v r then spend sha now v node r else r) rows)\<rparr>
        in (None,
            case map_of (ts_tokens s) v of
              None \<Rightarrow> s1
            | Some t \<Rightarrow> s1\<lparr>ts_tokens := AList.update (tk_id t)
                (t\<lparr>tk_status := TokUsed, tk_used_ms := unix_milli now, tk_used_by := node,
                   tk_value := hash_placeholder sha v\<rparr>)
                (AList.delete v (ts_tokens s))\<rparr>)))"

definition consume :: "(string \<Rightarrow> string) \<Rightarrow> bool \<Rightarrow> go_time \<Rightarrow> string \<Rightarrow> string \<Rightarrow>
    token_store \<Rightarrow> enroll_error option \<times> token_store" where
  "consume sha db_ok now v node s =
    (case ts_rows s of
       Some rows \<Rightarrow> consume_db sha db_ok now v node rows s
     | None \<Rightarrow>
         (case peek now v s of
            Some e \<Rightarrow> (Some e, s)
          | None \<Rightarrow>
              (case map_of (ts_tokens s) v of
                 None \<Rightarrow> (Some TokenInvalid, s)
               | Some t \<Rightarrow>
                   if tk_status t \<noteq> TokActive \<or> token_expired now t then (Some TokenInvalid, s)
                   else (None, s\<lparr>ts_tokens := AList.map_entry v
                       (\<lambda>t. t\<lparr>tk_status := TokUsed, tk_used_ms := unix_milli now, tk_used_by := node\<rparr>)
                       (ts_tokens s)\<rparr>))))"

text \<open>\<open>Revoke\<close>: the entry found by id is revoked in memory whatever the database answers. (Ids are
drawn at random; if two entries had the same id, Go would take either of them.)\<close>

definition revoke_token :: "bool \<Rightarrow> string \<Rightarrow> token_store \<Rightarrow> bool \<times> token_store" where
  "revoke_token db_ok i s =
    (case find (\<lambda>(k, t). tk_id t = i) (ts_tokens s) of
       None \<Rightarrow> (False, s)
     | Some (k, t) \<Rightarrow>
         if tk_status t \<noteq> TokActive then (False, s)
         else (True,
           s\<lparr>ts_tokens := AList.update k (t\<lparr>tk_status := TokRevoked\<rparr>) (ts_tokens s),
             ts_rows := (if db_ok then map_option (map (\<lambda>r.
               if tr_id r = i \<and> tr_status r = TokActive then r\<lparr>tr_status := TokRevoked\<rparr> else r)) (ts_rows s)
               else ts_rows s)\<rparr>))"

section \<open>Admission\<close>

record agent_hello =
  ah_node :: uuid
  ah_token :: string
  ah_credential :: string
  ah_agent :: string
  ah_hostname :: string
  ah_os :: string
  ah_arch :: string
  ah_remote :: string

record auth_result =
  ar_node :: uuid
  ar_credential :: string
  ar_need :: bool

record manager =
  mg_tokens :: token_store
  mg_nodes :: node_store
  mg_require :: bool

text \<open>An enrolment between \<open>nodes.Ensure\<close> and \<open>tokens.Consume\<close>.\<close>

record admission =
  ad_token :: string
  ad_node :: uuid
  ad_credential :: string

datatype auth_step = Rejected enroll_error | Admitted auth_result | Enrolling admission

definition admit :: "admission \<Rightarrow> auth_result" where
  "admit a = \<lparr>ar_node = ad_node a, ar_credential = ad_credential a, ar_need = True\<rparr>"

text \<open>\<open>enroll\<close>. \<open>resolve\<close> is the registrar: None without one, otherwise the node the gateway answers
with for a name and a remote host, if it answers. \<open>rnd\<close> is the random credential.\<close>

definition enroll_begin :: "(string \<Rightarrow> string) \<Rightarrow> (string \<Rightarrow> string \<Rightarrow> uuid option) option \<Rightarrow> bool \<Rightarrow> go_time \<Rightarrow>
    string option \<Rightarrow> agent_hello \<Rightarrow> manager \<Rightarrow> manager \<times> auth_step" where
  "enroll_begin sha resolve db_ok now rnd h m =
    (if mg_require m \<and> ah_token h = [] then (m, Rejected TokenMissing)
     else case (if mg_require m then peek now (ah_token h) (mg_tokens m) else None) of
       Some e \<Rightarrow> (m, Rejected e)
     | None \<Rightarrow>
         (case resolve of
            None \<Rightarrow> (m, Rejected NoRegistrar)
          | Some rs \<Rightarrow>
              (let name = (if ah_hostname h = [] then ah_node h else ah_hostname h) in
               if name = [] then (m, Rejected NameMissing)
               else case rs name (ah_remote h) of
                 None \<Rightarrow> (m, Rejected GatewayRefused)
               | Some i \<Rightarrow>
                   (case ensure_node sha db_ok now rnd i
                       \<lparr>he_name = name, he_os = ah_os h, he_arch = ah_arch h, he_agent = ah_agent h\<rparr>
                       (mg_nodes m) of
                      (Inl e, ns) \<Rightarrow> (m\<lparr>mg_nodes := ns\<rparr>, Rejected (NodeRefused e))
                    | (Inr cred, ns) \<Rightarrow>
                        (let a = \<lparr>ad_token = ah_token h, ad_node = i, ad_credential = cred\<rparr> in
                         (m\<lparr>mg_nodes := ns\<rparr>,
                          if mg_require m then Enrolling a else Admitted (admit a)))))))"

definition enroll_finish :: "(string \<Rightarrow> string) \<Rightarrow> bool \<Rightarrow> go_time \<Rightarrow> admission \<Rightarrow> manager \<Rightarrow>
    manager \<times> (enroll_error + auth_result)" where
  "enroll_finish sha db_ok now a m =
    (case consume sha db_ok now (ad_token a) (ad_node a) (mg_tokens m) of
       (Some e, ts) \<Rightarrow> (m\<lparr>mg_tokens := ts\<rparr>, Inl e)
     | (None, ts) \<Rightarrow> (m\<lparr>mg_tokens := ts\<rparr>, Inr (admit a)))"

text \<open>\<open>Authenticate\<close> up to the point where the token is spent. (The heartbeat it sends to the gateway
for a node that comes back is not part of the state.)\<close>

definition auth_begin :: "(string \<Rightarrow> string) \<Rightarrow> (string \<Rightarrow> string \<Rightarrow> uuid option) option \<Rightarrow> bool \<Rightarrow> go_time \<Rightarrow>
    string option \<Rightarrow> agent_hello \<Rightarrow> manager \<Rightarrow> manager \<times> auth_step" where
  "auth_begin sha resolve db_ok now rnd h m =
    (let i = ah_node h;
         known = (case map_of (ns_items (mg_nodes m)) i of None \<Rightarrow> False | Some r \<Rightarrow> \<not> rt_revoked r) in
     if i = [] then enroll_begin sha resolve db_ok now rnd h m
     else if known then
       (case (if mg_require m then verify_credential sha i (ah_credential h) (mg_nodes m) else None) of
          Some e \<Rightarrow> (m, Rejected (NodeRefused e))
        | None \<Rightarrow>
            (m\<lparr>mg_nodes := update_hello db_ok i (ah_os h) (ah_arch h) (ah_agent h) (mg_nodes m)\<rparr>,
             Admitted \<lparr>ar_node = i, ar_credential = [], ar_need = False\<rparr>))
     else if mg_require m then (m, Rejected (NodeRefused UnknownNode))
     else enroll_begin sha resolve db_ok now rnd h m)"

definition verify :: "(string \<Rightarrow> string) \<Rightarrow> uuid \<Rightarrow> string \<Rightarrow> manager \<Rightarrow> node_error option" where
  "verify sha i cred m = (if \<not> mg_require m then None else verify_credential sha i cred (mg_nodes m))"

section \<open>Runs\<close>

text \<open>Requests of operators and agents in any order; enrolments under way can be overtaken. The last
component records the enrolments that succeeded.\<close>

datatype enroll_event =
    Issue bool go_time "string option" "string option" string int string
  | Revoke_token bool string
  | Hello "(string \<Rightarrow> string \<Rightarrow> uuid option) option" bool go_time "string option" agent_hello
  | Finish nat bool go_time
  | Restart

type_synonym enroll_run = "manager \<times> admission list \<times> admission list"

fun enroll_step :: "(string \<Rightarrow> string) \<Rightarrow> enroll_run \<Rightarrow> enroll_event \<Rightarrow> enroll_run" where
  "enroll_step sha (m, ps, dn) (Issue ok now rv ri note ttl by) =
     (m\<lparr>mg_tokens := snd (issue_handler ok now rv ri note ttl by (mg_tokens m))\<rparr>, ps, dn)"
| "enroll_step sha (m, ps, dn) (Revoke_token ok i) =
     (m\<lparr>mg_tokens := snd (revoke_token ok i (mg_tokens m))\<rparr>, ps, dn)"
| "enroll_step sha (m, ps, dn) (Hello resolve ok now rnd h) =
     (case auth_begin sha resolve ok now rnd h m of
        (m1, Enrolling a) \<Rightarrow> (m1, ps @ [a], dn)
      | (m1, _) \<Rightarrow> (m1, ps, dn))"
| "enroll_step sha (m, ps, dn) (Finish k ok now) =
     (if k < length ps then
        (case enroll_finish sha ok now (ps ! k) m of
           (m1, Inr _) \<Rightarrow> (m1, take k ps @ drop (Suc k) ps, dn @ [ps ! k])
         | (m1, Inl _) \<Rightarrow> (m1, take k ps @ drop (Suc k) ps, dn))
      else (m, ps, dn))"
| "enroll_step sha (m, ps, dn) Restart =
     (m\<lparr>mg_tokens := load_tokens (new_token_store (ts_rows (mg_tokens m))),
        mg_nodes := load_nodes (new_node_store (ns_table (mg_nodes m)) (ns_unstable_after (mg_nodes m))
          (ns_offline_after (mg_nodes m)))\<rparr>, [], dn)"

text \<open>The random bytes drawn for token values.\<close>

fun drawn :: "enroll_event \<Rightarrow> string list" where
  "drawn (Issue _ _ (Some rv) (Some _) _ _ _) = [rv]"
| "drawn _ = []"

section \<open>What the manager asks of one-time tokens\<close>

text \<open>\<open>valid s\<close> are the values that could still be redeemed. Redeeming one takes it away for good;
nothing but an issue adds one.\<close>

locale one_time_tokens =
  fixes good :: "'s \<Rightarrow> bool" and valid :: "'s \<Rightarrow> string set"
    and issue :: "'i \<Rightarrow> 's \<Rightarrow> 's" and value_of :: "'i \<Rightarrow> string set"
    and redeem :: "'r \<Rightarrow> string \<Rightarrow> 's \<Rightarrow> bool \<times> 's"
    and cancel :: "'c \<Rightarrow> 's \<Rightarrow> 's"
  assumes issue_law: "good s \<Longrightarrow> good (issue i s) \<and> valid (issue i s) \<subseteq> valid s \<union> value_of i"
    and redeem_law: "good s \<Longrightarrow> redeem r v s = (True, s') \<Longrightarrow> good s' \<and> v \<in> valid s \<and> valid s' \<subseteq> valid s - {v}"
    and refuse_law: "good s \<Longrightarrow> redeem r v s = (False, s') \<Longrightarrow> good s' \<and> valid s' \<subseteq> valid s"
    and cancel_law: "good s \<Longrightarrow> good (cancel c s) \<and> valid (cancel c s) \<subseteq> valid s"
begin

definition spent_once :: "string set \<Rightarrow> string list \<Rightarrow> 's \<Rightarrow> bool" where
  "spent_once issued spent s \<longleftrightarrow>
    good s \<and> distinct spent \<and> set spent \<subseteq> issued \<and> valid s \<subseteq> issued \<and> set spent \<inter> valid s = {}"

lemma after_issue:
  "spent_once issued spent s \<Longrightarrow> value_of i \<inter> issued = {} \<Longrightarrow>
    spent_once (issued \<union> value_of i) spent (issue i s)"
  using issue_law [of s i] unfolding spent_once_def by blast

lemma after_redeem:
  "spent_once issued spent s \<Longrightarrow> redeem r v s = (True, s') \<Longrightarrow> spent_once issued (spent @ [v]) s'"
  using redeem_law [of s r v s'] unfolding spent_once_def by auto

lemma after_refusal:
  "spent_once issued spent s \<Longrightarrow> redeem r v s = (False, s') \<Longrightarrow> spent_once issued spent s'"
  using refuse_law [of s r v s'] unfolding spent_once_def by blast

lemma after_cancel:
  "spent_once issued spent s \<Longrightarrow> spent_once issued spent (cancel c s)"
  using cancel_law [of s c] unfolding spent_once_def by blast

end

definition valid_values :: "token_store \<Rightarrow> string set" where
  "valid_values s =
    (case ts_rows s of
       None \<Rightarrow> {v. \<exists>t. map_of (ts_tokens s) v = Some t \<and> tk_status t = TokActive}
     | Some rows \<Rightarrow> {tr_value r | r. r \<in> set rows \<and> tr_status r = TokActive})"

definition values_unique :: "token_store \<Rightarrow> bool" where
  "values_unique s =
    (case ts_rows s of None \<Rightarrow> True
     | Some rows \<Rightarrow> distinct (map tr_value (filter (\<lambda>r. tr_status r = TokActive) rows)))"

type_synonym issue_call = "bool \<times> go_time \<times> string option \<times> string option \<times> string \<times> int \<times> string"

definition issue_values :: "issue_call \<Rightarrow> string set" where
  "issue_values = (\<lambda>(ok, now, rv, ri, note, ttl, by).
    case (rv, ri) of (Some v, Some i) \<Rightarrow> {token_value v} | _ \<Rightarrow> {})"

definition issue_call :: "issue_call \<Rightarrow> token_store \<Rightarrow> token_store" where
  "issue_call = (\<lambda>(ok, now, rv, ri, note, ttl, by) s. snd (issue_handler ok now rv ri note ttl by s))"

definition redeem_call :: "(string \<Rightarrow> string) \<Rightarrow> bool \<times> go_time \<times> uuid \<Rightarrow> string \<Rightarrow> token_store \<Rightarrow> bool \<times> token_store" where
  "redeem_call sha = (\<lambda>(ok, now, node) v s.
    case consume sha ok now v node s of (e, s') \<Rightarrow> (e = None, s'))"

definition cancel_call :: "(bool \<times> string) option \<Rightarrow> token_store \<Rightarrow> token_store" where
  "cancel_call c s =
    (case c of None \<Rightarrow> load_tokens (new_token_store (ts_rows s)) | Some (ok, i) \<Rightarrow> snd (revoke_token ok i s))"

lemma persist_valid:
  assumes "persist_token ok t s = Some s'" and "values_unique s"
  shows "values_unique s' \<and> valid_values s' \<subseteq> valid_values s \<union> {tk_value t}"
proof (cases "ts_rows s")
  case (Some rows)
  then have s': "s' = s\<lparr>ts_rows := Some (rows @ [row_of_token t])\<rparr>"
    and new: "\<forall>r \<in> set rows. tr_status r = TokActive \<longrightarrow> tr_value r \<noteq> tk_value t"
    using assms(1) by (auto simp: persist_token_def list_ex_iff split: if_splits)
  have "tk_value t \<notin> tr_value ` {r \<in> set rows. tr_status r = TokActive}" using new by fastforce
  then show ?thesis
    using assms(2) by (auto simp: s' Some values_unique_def valid_values_def row_of_token_def)
qed (use assms in \<open>auto simp: persist_token_def\<close>)

lemma issue_valid:
  assumes "values_unique s"
  shows "values_unique (issue_call x s) \<and> valid_values (issue_call x s) \<subseteq> valid_values s \<union> issue_values x"
proof -
  obtain ok now rv ri nt ttl who where x: "x = (ok, now, rv, ri, nt, ttl, who)" by (cases x) blast
  show ?thesis
  proof (cases "rv = None \<or> ri = None")
    case True
    then show ?thesis
      using assms by (auto simp: x issue_call_def issue_handler_def issue_by_def Let_def split: option.split)
  next
    case False
    then obtain v i where vi: "rv = Some v" "ri = Some i" by auto
    have mem: "values_unique (s\<lparr>ts_tokens := AList.update (token_value v) t (ts_tokens s)\<rparr>)
      \<and> valid_values (s\<lparr>ts_tokens := AList.update (token_value v) t (ts_tokens s)\<rparr>)
        \<subseteq> valid_values s \<union> {token_value v}" for t
      using assms by (auto simp: values_unique_def valid_values_def split: option.splits if_splits)
    show ?thesis
    proof (cases "fst (issue_handler ok now rv ri nt ttl who s)")
      case (Inl e)
      then show ?thesis
        using mem by (auto simp: x vi issue_call_def issue_values_def issue_handler_def issue_by_def Let_def
            split: option.splits)
    next
      case (Inr t)
      then obtain s1 where s1: "s1 = s\<lparr>ts_tokens := AList.update (token_value v) t (ts_tokens s)\<rparr>"
        "persist_token ok t s1 = Some (issue_call x s)" "tk_value t = token_value v"
        by (auto simp: x vi issue_call_def issue_handler_def issue_by_def Let_def split: option.splits)
      then show ?thesis
        using persist_valid [OF s1(2)] mem [of t] by (auto simp: x vi issue_values_def)
    qed
  qed
qed

lemma spend_rows:
  fixes sha now v node rows
  assumes "distinct (map tr_value (filter (\<lambda>r. tr_status r = TokActive) rows))"
    and "list_ex (spendable now v) rows"
  defines "rows' \<equiv> map (\<lambda>r. if spendable now v r then spend sha now v node r else r) rows"
  shows "distinct (map tr_value (filter (\<lambda>r. tr_status r = TokActive) rows'))"
    "{tr_value r | r. r \<in> set rows' \<and> tr_status r = TokActive}
      \<subseteq> {tr_value r | r. r \<in> set rows \<and> tr_status r = TokActive} - {v}"
proof -
  have f: "filter (\<lambda>r. tr_status r = TokActive) rows'
      = filter (\<lambda>r. \<not> spendable now v r) (filter (\<lambda>r. tr_status r = TokActive) rows)"
    unfolding rows'_def by (induction rows) (auto simp: spend_def)
  show "distinct (map tr_value (filter (\<lambda>r. tr_status r = TokActive) rows'))"
    unfolding f by (rule distinct_map_filter [OF assms(1)])
  obtain r0 where r0: "r0 \<in> set rows" "spendable now v r0" using assms(2) by (auto simp: list_ex_iff)
  have "tr_value r \<noteq> v" if "r \<in> set rows" "tr_status r = TokActive" "\<not> spendable now v r" for r
  proof
    assume "tr_value r = v"
    then have "r = r0"
      using assms(1) that r0 by (auto simp: distinct_map spendable_def dest!: inj_onD)
    then show False using that r0 by simp
  qed
  moreover have "{tr_value r | r. r \<in> set rows' \<and> tr_status r = TokActive}
      = tr_value ` set (filter (\<lambda>r. tr_status r = TokActive) rows')"
    by auto
  ultimately show "{tr_value r | r. r \<in> set rows' \<and> tr_status r = TokActive}
      \<subseteq> {tr_value r | r. r \<in> set rows \<and> tr_status r = TokActive} - {v}"
    unfolding f by auto
qed

lemma redeem_valid:
  assumes "values_unique s" and "redeem_call sha x v s = (b, s')"
  shows "values_unique s' \<and> (if b then v \<in> valid_values s \<and> valid_values s' \<subseteq> valid_values s - {v}
    else valid_values s' \<subseteq> valid_values s)"
proof -
  obtain ok now node where x: "x = (ok, now, node)" by (cases x) blast
  show ?thesis
  proof (cases "ts_rows s")
    case None
    then show ?thesis
      using assms
      by (auto simp: x redeem_call_def consume_def values_unique_def valid_values_def
          map_of_map_entry_option split: option.splits if_splits)
  next
    case (Some rows)
    show ?thesis
    proof (cases "ok \<and> list_ex (spendable now v) rows")
      case True
      let ?rows = "map (\<lambda>r. if spendable now v r then spend sha now v node r else r) rows"
      have "b" "ts_rows s' = Some ?rows"
        using assms(2) True by (auto simp: x redeem_call_def consume_def consume_db_def Some Let_def split: option.splits)
      moreover have "v \<in> valid_values s"
        using True by (auto simp: Some valid_values_def list_ex_iff spendable_def)
      ultimately show ?thesis
        using spend_rows [of rows now v sha node] True assms(1)
        by (simp add: values_unique_def valid_values_def Some)
    next
      case False
      then have "\<not> b" "s' = s"
        using assms(2) by (auto simp: x redeem_call_def consume_def consume_db_def Some split: if_splits)
      then show ?thesis using assms(1) by simp
    qed
  qed
qed

lemma cancel_valid:
  assumes "values_unique s"
  shows "values_unique (cancel_call c s) \<and> valid_values (cancel_call c s) \<subseteq> valid_values s"
proof (cases c)
  case None
  then show ?thesis
    using assms by (auto simp: cancel_call_def load_tokens_def new_token_store_def values_unique_def
        valid_values_def split: option.splits)
next
  case (Some y)
  have f: "filter (\<lambda>r. tr_status r = TokActive)
        (map (\<lambda>r. if tr_id r = i \<and> tr_status r = TokActive then r\<lparr>tr_status := TokRevoked\<rparr> else r) rows)
      = filter (\<lambda>r. tr_id r \<noteq> i) (filter (\<lambda>r. tr_status r = TokActive) rows)" for i rows
    by (induction rows) auto
  show ?thesis
    using assms distinct_map_filter [of tr_value "filter (\<lambda>r. tr_status r = TokActive) rows" for rows]
    by (cases y) (auto simp: Some cancel_call_def revoke_token_def values_unique_def valid_values_def f
        simp del: filter_filter split: option.splits if_splits)
qed

interpretation tokens: one_time_tokens values_unique valid_values issue_call issue_values
  "redeem_call sha" cancel_call for sha
  by unfold_locales
    (use issue_valid cancel_valid in blast, use redeem_valid in fastforce, use redeem_valid in fastforce,
     use cancel_valid in blast)

section \<open>Runs spend every token once\<close>

lemma auth_begin_frame:
  "mg_tokens (fst (auth_begin sha resolve ok now rnd h m)) = mg_tokens m"
  "mg_require (fst (auth_begin sha resolve ok now rnd h m)) = mg_require m"
  by (simp_all add: auth_begin_def enroll_begin_def Let_def split: option.split sum.split prod.split)

lemma enroll_finish_eq:
  "enroll_finish sha ok now a m =
    (case redeem_call sha (ok, now, ad_node a) (ad_token a) (mg_tokens m) of
       (b, ts) \<Rightarrow> (m\<lparr>mg_tokens := ts\<rparr>, if b then Inr (admit a)
         else Inl (the (fst (consume sha ok now (ad_token a) (ad_node a) (mg_tokens m))))))"
  by (auto simp: enroll_finish_def redeem_call_def split: prod.split option.split)

lemma enroll_finish_keeps:
  "mg_nodes (fst (enroll_finish sha ok now a m)) = mg_nodes m"
  "mg_require (fst (enroll_finish sha ok now a m)) = mg_require m"
  by (simp_all add: enroll_finish_eq split: prod.split)

lemma token_value_inj [simp]: "token_value x = token_value y \<longleftrightarrow> x = y"
  by (simp add: token_value_def)

lemma enroll_step_spent:
  assumes "tokens.spent_once I (map ad_token dn) (mg_tokens m)"
    and "enroll_step sha (m, ps, dn) e = (m', ps', dn')"
    and "token_value ` set (drawn e) \<inter> I = {}"
  shows "tokens.spent_once (I \<union> token_value ` set (drawn e)) (map ad_token dn') (mg_tokens m')"
proof (cases e)
  case (Issue ok now rv ri nt ttl who)
  let ?x = "(ok, now, rv, ri, nt, ttl, who)"
  have v: "token_value ` set (drawn e) = issue_values ?x"
    by (cases rv; cases ri) (simp_all add: Issue issue_values_def)
  have "mg_tokens m' = issue_call ?x (mg_tokens m)" "dn' = dn"
    using assms(2) by (auto simp: Issue issue_call_def)
  then show ?thesis using tokens.after_issue [OF assms(1), of ?x] assms(3) by (simp add: v)
next
  case (Revoke_token ok i)
  then have "mg_tokens m' = cancel_call (Some (ok, i)) (mg_tokens m)" "dn' = dn"
    using assms(2) by (auto simp: cancel_call_def)
  then show ?thesis using tokens.after_cancel [OF assms(1)] by (simp add: Revoke_token)
next
  case (Hello resolve ok now rnd h)
  then have "mg_tokens m' = mg_tokens m" "dn' = dn"
    using assms(2) auth_begin_frame(1) [of sha resolve ok now rnd h m]
    by (auto split: prod.splits auth_step.splits)
  then show ?thesis using assms(1) by (simp add: Hello)
next
  case (Finish k ok now)
  show ?thesis
  proof (cases "k < length ps")
    case True
    obtain b ts where r: "redeem_call sha (ok, now, ad_node (ps ! k)) (ad_token (ps ! k)) (mg_tokens m) = (b, ts)"
      by fastforce
    have "mg_tokens m' = ts" "dn' = (if b then dn @ [ps ! k] else dn)"
      using assms(2) True by (auto simp: Finish enroll_finish_eq r split: if_splits)
    then show ?thesis
      using tokens.after_redeem [OF assms(1)] tokens.after_refusal [OF assms(1)] r
      by (cases b) (auto simp: Finish)
  qed (use assms in \<open>simp add: Finish\<close>)
next
  case Restart
  then have "mg_tokens m' = cancel_call None (mg_tokens m)" "dn' = dn"
    using assms(2) by (auto simp: cancel_call_def)
  then show ?thesis using tokens.after_cancel [OF assms(1)] by (simp add: Restart)
qed

lemma enroll_run_spent:
  assumes "tokens.spent_once I (map ad_token dn) (mg_tokens m)"
    and "foldl (enroll_step sha) (m, ps, dn) es = (m', ps', dn')"
    and "distinct (concat (map drawn es))" and "token_value ` set (concat (map drawn es)) \<inter> I = {}"
  shows "tokens.spent_once (I \<union> token_value ` set (concat (map drawn es))) (map ad_token dn') (mg_tokens m')"
  using assms
proof (induction es arbitrary: I m ps dn)
  case (Cons e es)
  obtain m1 ps1 dn1 where e: "enroll_step sha (m, ps, dn) e = (m1, ps1, dn1)"
    by (metis prod_cases3)
  have "token_value ` set (drawn e) \<inter> I = {}" using Cons.prems(4) by auto
  from enroll_step_spent [OF Cons.prems(1) e this]
  have s1: "tokens.spent_once (I \<union> token_value ` set (drawn e)) (map ad_token dn1) (mg_tokens m1)" .
  have "token_value ` set (concat (map drawn es)) \<inter> (I \<union> token_value ` set (drawn e)) = {}"
    using Cons.prems(3,4) by auto
  with Cons.IH [OF s1] Cons.prems(2,3) e show ?case by (simp add: Un_assoc image_Un)
qed simp

lemma admitted_by_credential:
  assumes "mg_require m" and "auth_begin sha resolve ok now rnd h m = (m1, Admitted r)"
  shows "verify_credential sha (ar_node r) (ah_credential h) (mg_nodes m) = None"
  using assms
  by (auto simp: auth_begin_def enroll_begin_def Let_def split: if_splits option.splits sum.splits prod.splits)

lemma enroll_step_require:
  "mg_require (fst (enroll_step sha x e)) = mg_require (fst x)"
proof (cases x)
  case (fields m ps dn)
  show ?thesis
  proof (cases e)
    case (Hello resolve ok now rnd h)
    obtain m1 st where "auth_begin sha resolve ok now rnd h m = (m1, st)" by fastforce
    then show ?thesis
      using auth_begin_frame(2) [of sha resolve ok now rnd h m] by (cases st) (simp_all add: fields Hello)
  next
    case (Finish k ok now)
    obtain m1 st where "enroll_finish sha ok now (ps ! k) m = (m1, st)" by fastforce
    then show ?thesis
      using enroll_finish_keeps(2) [of sha ok now "ps ! k" m] by (cases st) (simp_all add: fields Finish)
  qed (simp_all add: fields)
qed

lemma enroll_run_require:
  "mg_require (fst (foldl (enroll_step sha) x es)) = mg_require (fst x)"
  by (induction es arbitrary: x) (simp_all add: enroll_step_require)

lemma open_step_idle:
  assumes "\<not> mg_require m" and "enroll_step sha (m, [], []) e = (m', ps, dn)"
  shows "ps = [] \<and> dn = []"
proof (cases e)
  case (Hello resolve ok now rnd h)
  have "snd (auth_begin sha resolve ok now rnd h m) \<noteq> Enrolling a" for a
    using assms(1) by (auto simp: auth_begin_def enroll_begin_def Let_def split: option.split sum.split prod.split)
  then show ?thesis using assms(2) by (auto simp: Hello split: prod.splits auth_step.splits)
qed (use assms(2) in auto)

lemma open_run_idle:
  assumes "\<not> mg_require m" and "foldl (enroll_step sha) (m, [], []) es = (m', ps, dn)"
  shows "ps = [] \<and> dn = []"
  using assms
proof (induction es arbitrary: m)
  case (Cons e es)
  obtain m1 ps1 dn1 where e: "enroll_step sha (m, [], []) e = (m1, ps1, dn1)" by (metis prod_cases3)
  have "\<not> mg_require m1" using enroll_step_require [of sha "(m, [], [])" e] Cons.prems(1) e by simp
  then show ?case using Cons.IH Cons.prems(2) open_step_idle [OF Cons.prems(1) e] e by simp
qed simp

section \<open>Properties\<close>

text \<open>Property C11. A token admits one node. Operators issue and revoke tokens, agents say hello with
any node id, credential and token, enrolments under way overtake each other, statements of the
database fail and the container manager restarts, in any order: no token value is ever spent by two
successful enrolments, and only values that were issued are. Where enrolment is required, whoever is admitted without spending
a token has shown the credential of its node. Where it is not, which is the default, no token is spent at all, and nobody is asked for one
or for a credential. (The random values drawn differ.)\<close>

theorem one_token_admits_one_node:
  assumes "mg_tokens m = new_token_store db" and "db = None \<or> db = Some []"
    and "distinct (concat (map drawn es))"
    and "foldl (enroll_step sha) (m, [], []) es = (m', ps, dn)"
  shows "distinct (map ad_token dn) \<and> set (map ad_token dn) \<subseteq> token_value ` set (concat (map drawn es))
    \<and> (if mg_require m then
          (\<forall>resolve ok now rnd h m1 r. auth_begin sha resolve ok now rnd h m' = (m1, Admitted r) \<longrightarrow>
             verify_credential sha (ar_node r) (ah_credential h) (mg_nodes m') = None)
        else dn = [] \<and> (\<forall>i cred. verify sha i cred m' = None))"
proof -
  have "tokens.spent_once {} (map ad_token []) (mg_tokens m)"
    using assms(1,2) by (auto simp: tokens.spent_once_def new_token_store_def values_unique_def valid_values_def)
  from enroll_run_spent [OF this assms(4,3)]
  have "tokens.spent_once (token_value ` set (concat (map drawn es))) (map ad_token dn) (mg_tokens m')"
    by simp
  then have spent: "distinct (map ad_token dn)" "set (map ad_token dn) \<subseteq> token_value ` set (concat (map drawn es))"
    by (simp_all add: tokens.spent_once_def)
  have req: "mg_require m' = mg_require m"
    using enroll_run_require [of sha "(m, [], [])" es] assms(4) by simp
  show ?thesis
  proof (cases "mg_require m")
    case True
    then have "mg_require m'" using req by simp
    from admitted_by_credential [OF this] True spent show ?thesis by simp
  next
    case False
    then have "\<not> mg_require m'" using req by simp
    then show ?thesis using open_run_idle [OF False assms(4)] False by (simp add: verify_def)
  qed
qed

definition strict_manager :: manager where
  "strict_manager = \<lparr>mg_tokens = new_token_store (Some []), mg_nodes = new_node_store None 0 0, mg_require = True\<rparr>"

definition first_hello :: "string \<Rightarrow> agent_hello" where
  "first_hello tok = \<lparr>ah_node = [], ah_token = tok, ah_credential = [], ah_agent = [], ah_hostname = ''edge'',
     ah_os = [], ah_arch = [], ah_remote = ''10.0.0.7''\<rparr>"

definition gateway_answer :: "(string \<Rightarrow> string \<Rightarrow> uuid option) option" where
  "gateway_answer = Some (\<lambda>n r. Some ''node-1'')"

definition noon :: go_time where "noon = 63900000000 * second"

definition token_run :: "enroll_event list" where
  "token_run = [Issue True noon (Some ''ab'') (Some ''01'') [] 3600 [],
     Hello gateway_answer True noon (Some ''c1'') (first_hello (token_value ''ab'')),
     Hello gateway_answer True noon (Some ''c2'') (first_hello (token_value ''ab'')),
     Finish 1 True noon, Restart,
     Hello gateway_answer True noon (Some ''c3'') (first_hello (token_value ''ab''))]"

lemmas enroll_eval = strict_manager_def first_hello_def gateway_answer_def token_run_def noon_def
  new_token_store_def issue_handler_def issue_by_def persist_token_def row_of_token_def
  auth_begin_def enroll_begin_def enroll_finish_def peek_def consume_def consume_db_def spendable_def
  spend_def hash_placeholder_def token_expired_def unix_milli_def token_value_def token_id_def
  ensure_node_def ensured_def persist_node_def new_node_store_def load_tokens_def load_key_def
  token_of_row_def load_nodes_def admit_def wrap64_def second_def Let_def

theorem one_token_admits_one_node_witness:
  "case foldl (enroll_step (\<lambda>x. x)) (strict_manager, [], []) token_run of
     (m', ps, dn) \<Rightarrow> map ad_token dn = [token_value ''ab''] \<and> distinct (map ad_token dn)"
proof -
  obtain m' ps dn where r: "foldl (enroll_step (\<lambda>x. x)) (strict_manager, [], []) token_run = (m', ps, dn)"
    by (metis prod_cases3)
  have "map ad_token dn = [token_value ''ab'']" using r by (auto simp: enroll_eval)
  moreover have "distinct (map ad_token dn)"
    using one_token_admits_one_node [of strict_manager "Some []" token_run "\<lambda>x. x" m' ps dn] r
    by (simp add: strict_manager_def token_run_def)
  ultimately show ?thesis by (simp add: r)
qed

lemma consume_valid:
  assumes "values_unique s" and "consume sha ok now v node s = (None, s')"
  shows "v \<in> valid_values s \<and> v \<notin> valid_values s' \<and> values_unique s'"
  using redeem_valid [OF assms(1), of sha "(ok, now, node)" v True s'] assms(2)
  by (auto simp: redeem_call_def)

lemma enrolling_node:
  assumes "auth_begin sha resolve ok now (Some c) h m = (m1, Enrolling a)"
  shows "ad_credential a = c \<and> ad_token a = ah_token h
    \<and> (\<exists>r. map_of (ns_items (mg_nodes m1)) (ad_node a) = Some r \<and> rt_hash r = sha c \<and> \<not> rt_revoked r)"
proof -
  have p: "\<exists>r. map_of (ns_items ns) i = Some r \<and> rt_hash r = sha c \<and> \<not> rt_revoked r"
    if "ensure_node sha ok now (Some c) i hl ns0 = (Inr cred, ns)" for i hl ns0 cred ns
    using that by (auto simp: ensure_node_def ensured_def persist_node_def Let_def split: option.splits if_splits)
  have q: "cred = c" if "ensure_node sha ok now (Some c) i hl ns0 = (Inr cred, ns)" for i hl ns0 cred ns
    using that by (auto simp: ensure_node_def Let_def split: option.splits)
  show ?thesis
    using assms
    by (auto simp: auth_begin_def enroll_begin_def Let_def split: if_splits option.splits sum.splits prod.splits
        dest: p q)
qed

text \<open>Property C40. A lost race locks the winner out. Where enrolment is required, two enrolments of one node with one token - an
agent that repeats its greeting while the first is still being answered - are both given a
credential before the token is spent, and the one given last is the one the manager keeps. If the first enrolment spends the token, the second is
refused, and the first agent, which was told that it is enrolled, holds a credential that is refused then and in every state in which the record of
the node has not been written again. If the second spends it, its credential is accepted and the first is refused. Either way the token is
gone: no further enrolment spends it. (The two credentials have different hashes, and a hash is not empty.)\<close>

theorem a_lost_race_locks_the_winner_out:
  assumes "mg_require m" and "values_unique (mg_tokens m)"
    and "auth_begin sha rs ok now1 (Some c1) h1 m = (m1, Enrolling a1)"
    and "auth_begin sha rs ok now2 (Some c2) h2 m1 = (m2, Enrolling a2)"
    and "ad_node a2 = ad_node a1" and "ad_token a2 = ad_token a1" and "sha c1 \<noteq> sha c2" and "sha c2 \<noteq> []"
    and "(winner, loser) \<in> {(a1, a2), (a2, a1)}"
    and "enroll_finish sha ok3 now3 winner m2 = (m3, Inr r)"
    and "enroll_finish sha ok4 now4 loser m3 = (m4, x)"
  shows "(\<exists>e. x = Inl e)
    \<and> (\<forall>m'. mg_require m' \<and> map_of (ns_items (mg_nodes m')) (ad_node a1) = map_of (ns_items (mg_nodes m4)) (ad_node a1) \<longrightarrow>
         verify sha (ar_node r) (ar_credential r) m' = (if winner = a1 then Some UnknownNode else None))
    \<and> (\<forall>ok5 now5 a m5 r5. ad_token a = ad_token a1 \<longrightarrow> enroll_finish sha ok5 now5 a m4 \<noteq> (m5, Inr r5))"
proof -
  have toks: "mg_tokens m2 = mg_tokens m"
    using auth_begin_frame(1) [of sha rs ok now1 "Some c1" h1 m] auth_begin_frame(1) [of sha rs ok now2 "Some c2" h2 m1]
      assms(3,4) by simp
  have same: "ad_token winner = ad_token a1" "ad_node winner = ad_node a1" "ad_token loser = ad_token a1"
    using assms(5,6,9) by auto
  obtain ts where c3: "consume sha ok3 now3 (ad_token a1) (ad_node a1) (mg_tokens m2) = (None, ts)"
    and m3: "m3 = m2\<lparr>mg_tokens := ts\<rparr>" and r: "r = admit winner"
    using assms(10) same by (auto simp: enroll_finish_def split: prod.splits option.splits)
  have gone: "ad_token a1 \<notin> valid_values ts" "values_unique ts"
    using consume_valid [OF _ c3] assms(2) toks by auto
  obtain b ts4 where c4: "redeem_call sha (ok4, now4, ad_node loser) (ad_token loser) ts = (b, ts4)" by fastforce
  from redeem_valid [OF gone(2) c4] gone(1) same
  have b: "\<not> b" "ad_token a1 \<notin> valid_values ts4" "values_unique ts4" by (auto split: if_splits)
  have x: "\<exists>e. x = Inl e" and m4: "m4 = m3\<lparr>mg_tokens := ts4\<rparr>"
    using assms(11) c4 b(1) by (auto simp: enroll_finish_eq m3)
  obtain row where row: "map_of (ns_items (mg_nodes m2)) (ad_node a1) = Some row" "rt_hash row = sha c2" "\<not> rt_revoked row"
    using enrolling_node [OF assms(4)] assms(5) by auto
  have cred: "ad_credential a1 = c1" "ad_credential a2 = c2"
    using enrolling_node [OF assms(3)] enrolling_node [OF assms(4)] by simp_all
  then have "ad_credential winner = (if winner = a1 then c1 else c2)" using assms(9) by auto
  then have w: "ar_credential r = (if winner = a1 then c1 else c2)" by (simp add: r admit_def)
  have row4: "map_of (ns_items (mg_nodes m4)) (ad_node a1) = Some row" by (simp add: m3 m4 row(1))
  have v: "verify sha (ar_node r) (ar_credential r) m' = (if winner = a1 then Some UnknownNode else None)"
    if "mg_require m'" "map_of (ns_items (mg_nodes m')) (ad_node a1) = map_of (ns_items (mg_nodes m4)) (ad_node a1)" for m'
  proof -
    have "map_of (ns_items (mg_nodes m')) (ar_node r) = Some row" using that(2) row4 same(2) by (simp add: r admit_def)
    then show ?thesis
      using that(1) row(2,3) assms(7,8) unfolding w by (cases "winner = a1") (simp_all add: verify_def verify_credential_def)
  qed
  have "enroll_finish sha ok5 now5 a m4 \<noteq> (m5, Inr r5)" if "ad_token a = ad_token a1" for ok5 now5 a m5 r5
    using redeem_valid [OF b(3), of sha "(ok5, now5, ad_node a)" "ad_token a" True] b(2) that
    by (auto simp: enroll_finish_eq m3 m4 split: prod.splits if_splits)
  with x v show ?thesis by blast
qed

definition open_manager :: manager where
  "open_manager = strict_manager\<lparr>mg_tokens :=
     issue_call (True, noon, Some ''ab'', Some ''01'', [], 3600, []) (mg_tokens strict_manager)\<rparr>"

definition ab_hello :: agent_hello where "ab_hello = first_hello (token_value ''ab'')"

theorem a_lost_race_locks_the_winner_out_witness:
  "\<exists>m1 a1 m2 a2 m3 r1 m4 x2.
     auth_begin (\<lambda>x. x) gateway_answer True noon (Some ''c1'') ab_hello open_manager = (m1, Enrolling a1)
     \<and> auth_begin (\<lambda>x. x) gateway_answer True noon (Some ''c2'') ab_hello m1 = (m2, Enrolling a2)
     \<and> enroll_finish (\<lambda>x. x) True noon a1 m2 = (m3, Inr r1)
     \<and> enroll_finish (\<lambda>x. x) True noon a2 m3 = (m4, x2)
     \<and> verify (\<lambda>x. x) (ar_node r1) (ar_credential r1) m4 = Some UnknownNode"
proof -
  let ?h = "\<lambda>x::string. x"
  note ev = enroll_eval issue_call_def open_manager_def ab_hello_def noon_def
  obtain m1 a1 where 1: "auth_begin ?h gateway_answer True noon (Some ''c1'') ab_hello open_manager = (m1, Enrolling a1)"
    and a1: "ad_node a1 = ''node-1''" "ad_token a1 = token_value ''ab''"
    by (simp add: ev)
  obtain m2 a2 where 2: "auth_begin ?h gateway_answer True noon (Some ''c2'') ab_hello m1 = (m2, Enrolling a2)"
    and a2: "ad_node a2 = ''node-1''" "ad_token a2 = token_value ''ab''"
    using 1 by (auto simp: ev)
  obtain m3 r1 where 3: "enroll_finish ?h True noon a1 m2 = (m3, Inr r1)" using 1 2 by (auto simp: ev)
  obtain m4 x2 where 4: "enroll_finish ?h True noon a2 m3 = (m4, x2)" by fastforce
  have "values_unique (mg_tokens open_manager)" "mg_require open_manager"
    by (simp_all add: ev values_unique_def)
  note lost = a_lost_race_locks_the_winner_out [OF this(2,1) 1 2 _ _ _ _ _ 3 4]
  have "mg_require m1" using auth_begin_frame(2) [of ?h gateway_answer True noon "Some ''c1''" ab_hello open_manager]
      \<open>mg_require open_manager\<close> by (simp add: 1)
  then have "mg_require m2" using auth_begin_frame(2) [of ?h gateway_answer True noon "Some ''c2''" ab_hello m1] by (simp add: 2)
  then have "mg_require m3" using enroll_finish_keeps(2) [of ?h True noon a1 m2] by (simp add: 3)
  then have "mg_require m4" using enroll_finish_keeps(2) [of ?h True noon a2 m3] by (simp add: 4)
  then have "verify ?h (ar_node r1) (ar_credential r1) m4 = Some UnknownNode"
    using lost a1 a2 by simp
  with 1 2 3 4 show ?thesis by blast
qed

text \<open>A revocation that the database refuses ends with the next restart.\<close>

lemma refused_token_revocation_ends_with_a_restart:
  assumes "ts_rows s = Some [r]" and "load_tokens (new_token_store (ts_rows s)) = s"
    and "tr_status r = TokActive" and "unix_milli now < tr_expires_ms r"
  shows "revoke_token False (tr_id r) s = (True, snd (revoke_token False (tr_id r) s))
    \<and> peek now (load_key r) (snd (revoke_token False (tr_id r) s)) = Some TokenInvalid
    \<and> peek now (load_key r) (cancel_call None (snd (revoke_token False (tr_id r) s))) = None"
proof -
  have "ts_tokens s = [(load_key r, token_of_row r)]"
    using assms(1,2) by (metis (no_types, lifting) AList.update.simps(1) fold.simps(1,2) comp_apply id_apply
        load_tokens_def new_token_store_def option.case(2) token_store.select_convs(1,2) token_store.update_convs(2))
  then show ?thesis
    using assms by (simp add: revoke_token_def token_of_row_def peek_def cancel_call_def load_tokens_def
        new_token_store_def token_expired_def)
qed

end
