(* ===== verification/Agent_Sessions.thy ===== *)
theory Agent_Sessions
  imports Gateway_Prelude "HOL-Library.Sublist"
begin

text \<open>
  \<open>containermanager/agentconn\<close>: the sessions of agents. A session is named by its position in the
  order of connection; the hub maps a node to its session. The goroutines of a session are events:
  \<open>handleWS\<close> adds the session to the hub, closes the one it replaced, sends the ready message and starts the write pump, and after the
  read loop takes the session out of the hub and closes it, each in a step of its own since no lock is held between them; the write pump takes one
  message from the queue; a sender that looked a session up earlier may use it at any time. Admission is \<open>Enrollment\<close>, messages
  that come up are \<open>Tasksys\<close>; the ping of the pump and the timeouts are not modelled.
\<close>

section \<open>Sessions\<close>

definition send_buf_size :: nat where "send_buf_size = 64"

text \<open>How far the handler of a session has come.\<close>

datatype phase = Added | Greeting | Running | Leaving | Ended

record 'e session =
  se_node :: uuid
  se_phase :: phase
  se_old :: "nat option" \<comment> \<open>the session that was in the hub before\<close>
  se_queue :: "'e list"
  se_done :: bool
  se_kicked :: bool
  se_accepted :: "'e list" \<comment> \<open>what \<open>Send\<close> answered true for\<close>
  se_written :: "'e list" \<comment> \<open>what was written to the connection\<close>

definition new_session :: "uuid \<Rightarrow> 'e session" where
  "new_session n = \<lparr>se_node = n, se_phase = Added, se_old = None, se_queue = [], se_done = False, se_kicked = False,
     se_accepted = [], se_written = []\<rparr>"

definition send :: "'e \<Rightarrow> 'e session \<Rightarrow> bool \<times> 'e session" where
  "send e s =
    (if se_done s then (False, s)
     else if length (se_queue s) < send_buf_size
     then (True, s\<lparr>se_queue := se_queue s @ [e], se_accepted := se_accepted s @ [e]\<rparr>)
     else (False, s))"

definition close :: "bool \<Rightarrow> 'e session \<Rightarrow> 'e session" where
  "close k s = (if se_done s then s else s\<lparr>se_done := True, se_kicked := k\<rparr>)"

definition kicked :: "'e session \<Rightarrow> bool" where
  "kicked s \<longleftrightarrow> se_done s \<and> se_kicked s"

text \<open>One turn of \<open>writePump\<close>: \<open>ok\<close> is whether the write succeeds; on a closed connection it cannot.\<close>

definition pump :: "bool \<Rightarrow> 'e session \<Rightarrow> 'e session" where
  "pump ok s =
    (case se_queue s of
       [] \<Rightarrow> s
     | e # q \<Rightarrow>
         if se_done s then s
         else if ok then s\<lparr>se_queue := q, se_written := se_written s @ [e]\<rparr>
         else close False (s\<lparr>se_queue := q\<rparr>))"

section \<open>The hub\<close>

record 'e server =
  sv_sessions :: "'e session list"
  sv_hub :: "uuid \<rightharpoonup> nat"

definition no_sessions :: "'e server" where
  "no_sessions = \<lparr>sv_sessions = [], sv_hub = Map.empty\<rparr>"

definition node_of :: "'e server \<Rightarrow> nat \<Rightarrow> uuid" where
  "node_of sv k = se_node (sv_sessions sv ! k)"

definition hub_add :: "nat \<Rightarrow> 'e server \<Rightarrow> nat option \<times> 'e server" where
  "hub_add k sv = (sv_hub sv (node_of sv k), sv\<lparr>sv_hub := (sv_hub sv)(node_of sv k \<mapsto> k)\<rparr>)"

definition hub_remove :: "nat \<Rightarrow> 'e server \<Rightarrow> 'e server" where
  "hub_remove k sv =
    (if sv_hub sv (node_of sv k) = Some k then sv\<lparr>sv_hub := (sv_hub sv)(node_of sv k := None)\<rparr> else sv)"

definition is_online :: "uuid \<Rightarrow> 'e server \<Rightarrow> bool" where
  "is_online n sv \<longleftrightarrow> sv_hub sv n \<noteq> None"

definition sender_for :: "uuid \<Rightarrow> 'e server \<Rightarrow> nat option" where
  "sender_for n sv = sv_hub sv n"

definition on_session :: "nat \<Rightarrow> ('e session \<Rightarrow> 'e session) \<Rightarrow> 'e server \<Rightarrow> 'e server" where
  "on_session k f sv = sv\<lparr>sv_sessions := (sv_sessions sv)[k := f (sv_sessions sv ! k)]\<rparr>"

section \<open>handleWS\<close>

text \<open>An admitted agent: a new session enters the hub, which gives back the one it replaces.\<close>

definition connect :: "uuid \<Rightarrow> 'e server \<Rightarrow> 'e server" where
  "connect n sv0 =
    (let k = length (sv_sessions sv0);
         sv1 = sv0\<lparr>sv_sessions := sv_sessions sv0 @ [new_session n]\<rparr>;
         (old, sv2) = hub_add k sv1
     in on_session k (\<lambda>s. s\<lparr>se_old := old\<rparr>) sv2)"

text \<open>The session that was replaced is closed as kicked.\<close>

definition kick_old :: "nat \<Rightarrow> 'e server \<Rightarrow> 'e server" where
  "kick_old k sv =
    (if se_phase (sv_sessions sv ! k) \<noteq> Added then sv
     else on_session k (\<lambda>s. s\<lparr>se_phase := Greeting\<rparr>)
       (case se_old (sv_sessions sv ! k) of None \<Rightarrow> sv | Some j \<Rightarrow> on_session j (close True) sv))"

text \<open>The ready message is sent and the write pump started.\<close>

definition greet :: "nat \<Rightarrow> 'e \<Rightarrow> 'e server \<Rightarrow> 'e server" where
  "greet k ready sv =
    (if se_phase (sv_sessions sv ! k) \<noteq> Greeting then sv
     else on_session k (\<lambda>s. (snd (send ready s))\<lparr>se_phase := Running\<rparr>) sv)"

text \<open>After the read loop the session leaves the hub, if it is still the one in it, and is then closed.\<close>

definition leave :: "nat \<Rightarrow> 'e server \<Rightarrow> 'e server" where
  "leave k sv =
    (if se_phase (sv_sessions sv ! k) \<noteq> Running then sv
     else hub_remove k (on_session k (\<lambda>s. s\<lparr>se_phase := Leaving\<rparr>) sv))"

definition end_session :: "nat \<Rightarrow> 'e server \<Rightarrow> 'e server" where
  "end_session k sv =
    (if se_phase (sv_sessions sv ! k) \<noteq> Leaving then sv
     else on_session k (\<lambda>s. (close False s)\<lparr>se_phase := Ended\<rparr>) sv)"

definition pump_turn :: "bool \<Rightarrow> 'e session \<Rightarrow> 'e session" where
  "pump_turn ok s = (if se_phase s \<in> {Added, Greeting} then s else pump ok s)"

datatype 'e session_event =
    Connect uuid
  | Kick_old nat
  | Greet nat 'e
  | Send nat 'e
  | Pump nat bool
  | Leave nat
  | End nat

fun session_step :: "'e server \<Rightarrow> 'e session_event \<Rightarrow> 'e server" where
  "session_step sv (Connect n) = connect n sv"
| "session_step sv (Kick_old k) = (if k < length (sv_sessions sv) then kick_old k sv else sv)"
| "session_step sv (Greet k e) = (if k < length (sv_sessions sv) then greet k e sv else sv)"
| "session_step sv (Send k e) = (if k < length (sv_sessions sv) then on_session k (\<lambda>s. snd (send e s)) sv else sv)"
| "session_step sv (Pump k ok) = (if k < length (sv_sessions sv) then on_session k (pump_turn ok) sv else sv)"
| "session_step sv (Leave k) = (if k < length (sv_sessions sv) then leave k sv else sv)"
| "session_step sv (End k) = (if k < length (sv_sessions sv) then end_session k sv else sv)"

section \<open>One session per node\<close>

text \<open>A session can be closed without being kicked (a failed write). The invariant: a session that is open is the one in the hub, or
its handler is leaving, or the handler of the session that replaced it has not come to closing it; the hub names the last session of
its node and that one was not kicked; and what is written and waits is what was accepted.\<close>

definition flows :: "'e session \<Rightarrow> bool" where
  "flows s \<longleftrightarrow> (if se_done s then prefix (se_written s) (se_accepted s)
    else se_accepted s = se_written s @ se_queue s) \<and> length (se_queue s) \<le> send_buf_size"









lemma flows_phase [simp]: "flows (s\<lparr>se_phase := p\<rparr>) = flows s" "flows (s\<lparr>se_old := x\<rparr>) = flows s"
  by (simp_all add: flows_def)

lemma session_fields [simp]:
  "se_node (snd (send e s)) = se_node s" "se_node (close b s) = se_node s" "se_node (pump ok s) = se_node s"
  "se_old (snd (send e s)) = se_old s" "se_old (close b s) = se_old s" "se_old (pump ok s) = se_old s"
  "se_phase (snd (send e s)) = se_phase s" "se_phase (close b s) = se_phase s" "se_phase (pump ok s) = se_phase s"
  "se_done (snd (send e s)) = se_done s" "se_done (close b s)"
  "se_done s \<Longrightarrow> se_done (pump ok s)"
  "kicked (snd (send e s)) = kicked s" "kicked (close False s) = kicked s" "kicked (pump ok s) = kicked s"
  "kicked (s\<lparr>se_phase := p\<rparr>) = kicked s"
  by (auto simp: send_def close_def pump_def kicked_def split: list.split)

lemma on_session_fields [simp]:
  "sv_hub (on_session k f sv) = sv_hub sv" "length (sv_sessions (on_session k f sv)) = length (sv_sessions sv)"
  "i < length (sv_sessions sv) \<Longrightarrow>
    sv_sessions (on_session k f sv) ! i = (if i = k then f (sv_sessions sv ! k) else sv_sessions sv ! i)"
  by (auto simp: on_session_def nth_list_update)






lemma node_of_hub [simp]: "node_of (sv\<lparr>sv_hub := h\<rparr>) = node_of sv"
  by (simp add: node_of_def fun_eq_iff)






section \<open>Property\<close>


definition replaced_run :: "nat session_event list" where
  "replaced_run = [Connect ''a'', Kick_old 0, Greet 0 0, Send 0 1, Connect ''a'', Send 0 2, Kick_old 1, Send 0 3, Greet 1 10,
     Pump 1 True, Send 1 11, Leave 0, End 0]"

lemmas session_eval = replaced_run_def no_sessions_def connect_def kick_old_def greet_def leave_def end_session_def pump_turn_def
  hub_add_def hub_remove_def node_of_def on_session_def new_session_def send_def close_def pump_def send_buf_size_def sender_for_def Let_def


text \<open>Between \<open>hub.Add\<close> and the end of the session it replaced, a sender that looked that one up earlier still has a message accepted and
written to the old connection; and a command for the new session can come before its ready message.\<close>

lemma a_replaced_session_takes_messages_until_it_is_closed:
  "let sv = foldl session_step no_sessions [Connect ''a'', Kick_old 0, Greet 0 (0::nat), Pump 0 True, Connect ''a'', Send 0 1, Pump 0 True]
   in sender_for ''a'' sv = Some 1 \<and> map se_written (sv_sessions sv) = [[0, 1], []]"
  by (simp add: session_eval)

lemma a_command_can_precede_the_ready_message:
  "let sv = foldl session_step no_sessions [Connect ''a'', Send 0 (7::nat), Kick_old 0, Greet 0 0, Pump 0 True]
   in map se_written (sv_sessions sv) = [[7]] \<and> map se_accepted (sv_sessions sv) = [[7, 0]]"
  by (simp add: session_eval)

end
