(* ===== verification/Domains.thy ===== *)
theory Domains
  imports Route_Safety
begin

text \<open>
  \<open>internal/domain\<close>: the rows that bind host names to tenants and services, with the handlers that
  write them. Identifiers in the path are parsed before (None when they cannot be); \<open>fresh\<close> is the
  id the row is given. Reading and paging are not modelled.
\<close>

record domain =
  dom_id :: uuid
  dom_tenant :: uuid
  dom_host :: string
  dom_service :: "uuid option"
  dom_status :: string
  dom_verified :: "go_time option"
  dom_tls :: string
  dom_cert :: "string option"
  dom_created :: go_time
  dom_updated :: go_time

record new_domain =
  nd_tenant :: uuid
  nd_host :: string
  nd_service :: "uuid option"
  nd_tls :: string

record domain_update =
  du_host :: "string option"
  du_service :: "uuid option"
  du_clear_service :: bool
  du_status :: "string option"
  du_tls :: "string option"
  du_cert :: "string option"

definition no_domain_update :: domain_update where
  "no_domain_update = \<lparr>du_host = None, du_service = None, du_clear_service = False, du_status = None,
     du_tls = None, du_cert = None\<rparr>"

datatype domain_error = Bad_hostname | Bad_domain_input | Bad_domain_id | Domain_taken | No_such_domain | Domain_table

section \<open>The repository\<close>

text \<open>Ids and host names are unique; the tenant must exist.\<close>

definition create_domain_row :: "uuid list \<Rightarrow> uuid \<Rightarrow> go_time \<Rightarrow> new_domain \<Rightarrow> domain list \<Rightarrow>
    domain_error + domain list" where
  "create_domain_row tenants fresh now inp ds =
    (if list_ex (\<lambda>d. dom_host d = nd_host inp \<or> dom_id d = fresh) ds then Inl Domain_taken
     else if nd_tenant inp \<notin> set tenants \<or> nd_host inp = [] then Inl Domain_table
     else Inr (ds @ [\<lparr>dom_id = fresh, dom_tenant = nd_tenant inp, dom_host = nd_host inp,
       dom_service = nd_service inp, dom_status = ''active'', dom_verified = None,
       dom_tls = (if nd_tls inp \<noteq> [] then nd_tls inp else ''disabled''), dom_cert = None,
       dom_created = now, dom_updated = now\<rparr>]))"

definition domain_by_id :: "domain list \<Rightarrow> uuid \<Rightarrow> domain option" where
  "domain_by_id ds i = find (\<lambda>d. dom_id d = i) ds"

definition domain_by_host :: "domain list \<Rightarrow> string \<Rightarrow> domain option" where
  "domain_by_host ds h = find (\<lambda>d. dom_host d = h) ds"

definition or_old :: "'a option \<Rightarrow> 'a \<Rightarrow> 'a" where
  "or_old x old = (case x of None \<Rightarrow> old | Some v \<Rightarrow> v)"

text \<open>\<open>serviceIDMutation\<close>: set, clear, or leave.\<close>

definition service_id_mutation :: "domain_update \<Rightarrow> uuid option \<times> bool" where
  "service_id_mutation u =
    (case du_service u of Some s \<Rightarrow> (Some s, False) | None \<Rightarrow> (None, du_clear_service u))"

definition apply_domain_update :: "go_time \<Rightarrow> domain_update \<Rightarrow> domain \<Rightarrow> domain" where
  "apply_domain_update now u d =
    d\<lparr>dom_updated := now, dom_host := or_old (du_host u) (dom_host d),
      dom_service := (case service_id_mutation u of
         (Some s, _) \<Rightarrow> Some s | (None, True) \<Rightarrow> None | (None, False) \<Rightarrow> dom_service d),
      dom_status := or_old (du_status u) (dom_status d), dom_tls := or_old (du_tls u) (dom_tls d),
      dom_cert := (case du_cert u of None \<Rightarrow> dom_cert d | Some c \<Rightarrow> Some c)\<rparr>"

definition update_domain_row :: "go_time \<Rightarrow> uuid \<Rightarrow> domain_update \<Rightarrow> domain list \<Rightarrow> domain_error + domain list" where
  "update_domain_row now i u ds =
    (if domain_by_id ds i = None then Inl No_such_domain
     else if (case du_host u of None \<Rightarrow> False | Some h \<Rightarrow> list_ex (\<lambda>d. dom_id d \<noteq> i \<and> dom_host d = h) ds)
     then Inl Domain_taken
     else if du_host u = Some [] then Inl Domain_table
     else Inr (map (\<lambda>d. if dom_id d = i then apply_domain_update now u d else d) ds))"

definition delete_domain_row :: "uuid \<Rightarrow> domain list \<Rightarrow> domain_error + domain list" where
  "delete_domain_row i ds =
    (if domain_by_id ds i = None then Inl No_such_domain else Inr (filter (\<lambda>d. dom_id d \<noteq> i) ds))"

section \<open>The handlers\<close>

definition create_domain :: "(string \<Rightarrow> string option) \<Rightarrow> uuid list \<Rightarrow> uuid \<Rightarrow> go_time \<Rightarrow> new_domain \<Rightarrow>
    domain list \<Rightarrow> (domain_error + domain list) outcome" where
  "create_domain to_ascii tenants fresh now inp ds =
    (case normalize_host to_ascii (nd_host inp) of
       Panics \<Rightarrow> Panics
     | Returns (Inl _) \<Rightarrow> Returns (Inl Bad_hostname)
     | Returns (Inr n) \<Rightarrow> Returns
         (if nd_tenant inp = uuid_nil then Inl Bad_domain_input
          else create_domain_row tenants fresh now (inp\<lparr>nd_host := n\<rparr>) ds))"

definition update_domain :: "(string \<Rightarrow> string option) \<Rightarrow> go_time \<Rightarrow> uuid option \<Rightarrow> domain_update \<Rightarrow>
    domain list \<Rightarrow> (domain_error + domain list) outcome" where
  "update_domain to_ascii now i u ds =
    (case i of
       None \<Rightarrow> Returns (Inl Bad_domain_id)
     | Some k \<Rightarrow>
         (case du_host u of
            None \<Rightarrow> Returns (update_domain_row now k u ds)
          | Some h \<Rightarrow>
              (case normalize_host to_ascii h of
                 Panics \<Rightarrow> Panics
               | Returns (Inl _) \<Rightarrow> Returns (Inl Bad_hostname)
               | Returns (Inr n) \<Rightarrow> Returns (update_domain_row now k (u\<lparr>du_host := Some n\<rparr>) ds))))"

definition delete_domain :: "uuid option \<Rightarrow> domain list \<Rightarrow> domain_error + domain list" where
  "delete_domain i ds = (case i of None \<Rightarrow> Inl Bad_domain_id | Some k \<Rightarrow> delete_domain_row k ds)"

definition set_domain_status :: "go_time \<Rightarrow> uuid option \<Rightarrow> string \<Rightarrow> domain list \<Rightarrow> domain_error + domain list" where
  "set_domain_status now i st ds =
    (case i of None \<Rightarrow> Inl Bad_domain_id
     | Some k \<Rightarrow> update_domain_row now k (no_domain_update\<lparr>du_status := Some st\<rparr>) ds)"

datatype domain_op =
    Create_domain uuid go_time new_domain
  | Update_domain go_time "uuid option" domain_update
  | Delete_domain "uuid option"
  | Set_status go_time "uuid option" string

definition or_same :: "domain list \<Rightarrow> domain_error + domain list \<Rightarrow> domain list" where
  "or_same ds r = (case r of Inl _ \<Rightarrow> ds | Inr ds' \<Rightarrow> ds')"

definition or_same_call :: "domain list \<Rightarrow> (domain_error + domain list) outcome \<Rightarrow> domain list" where
  "or_same_call ds r = (case r of Panics \<Rightarrow> ds | Returns x \<Rightarrow> or_same ds x)"

lemma or_same_simps [simp]:
  "or_same ds (Inl e) = ds" "or_same ds (Inr ds') = ds'"
  "or_same_call ds Panics = ds" "or_same_call ds (Returns x) = or_same ds x"
  by (simp_all add: or_same_def or_same_call_def)

fun domain_step :: "(string \<Rightarrow> string option) \<Rightarrow> uuid list \<Rightarrow> domain list \<Rightarrow> domain_op \<Rightarrow> domain list" where
  "domain_step to_ascii tenants ds (Create_domain fresh now inp) =
     or_same_call ds (create_domain to_ascii tenants fresh now inp ds)"
| "domain_step to_ascii tenants ds (Update_domain now i u) = or_same_call ds (update_domain to_ascii now i u ds)"
| "domain_step to_ascii tenants ds (Delete_domain i) = or_same ds (delete_domain i ds)"
| "domain_step to_ascii tenants ds (Set_status now i st) = or_same ds (set_domain_status now i st ds)"

section \<open>Host names stay canonical and unique\<close>

definition domains_ok :: "(string \<Rightarrow> string option) \<Rightarrow> domain list \<Rightarrow> bool" where
  "domains_ok to_ascii ds \<longleftrightarrow> distinct (map dom_id ds) \<and> distinct (map dom_host ds)
    \<and> (\<forall>d \<in> set ds. normalize_host to_ascii (dom_host d) = Returns (Inr (dom_host d)))"

definition idempotent :: "(string \<Rightarrow> string option) \<Rightarrow> bool" where
  "idempotent to_ascii \<longleftrightarrow> (\<forall>x y. to_ascii x = Some y \<longrightarrow> to_ascii y = Some y)"

lemma create_row_ok:
  assumes "domains_ok to_ascii ds" and "create_domain_row tenants fresh now inp ds = Inr ds'"
    and "normalize_host to_ascii (nd_host inp) = Returns (Inr (nd_host inp))"
  shows "domains_ok to_ascii ds'"
proof -
  have new: "nd_host inp \<notin> dom_host ` set ds" "fresh \<notin> dom_id ` set ds"
    using assms(2) by (auto simp: create_domain_row_def list_ex_iff split: if_splits)
  then show ?thesis
    using assms by (auto simp: create_domain_row_def domains_ok_def split: if_splits)
qed

lemma update_row_ok:
  assumes "domains_ok to_ascii ds" and "update_domain_row now i u ds = Inr ds'"
    and "\<And>h. du_host u = Some h \<Longrightarrow> normalize_host to_ascii h = Returns (Inr h)"
  shows "domains_ok to_ascii ds'"
proof -
  let ?f = "\<lambda>d. if dom_id d = i then apply_domain_update now u d else d"
  have ds': "ds' = map ?f ds"
    and free: "\<And>h d. du_host u = Some h \<Longrightarrow> d \<in> set ds \<Longrightarrow> dom_id d \<noteq> i \<Longrightarrow> dom_host d \<noteq> h"
    using assms(2) by (auto simp: update_domain_row_def list_ex_iff split: if_splits option.splits)
  have host: "dom_host (?f d) = (if dom_id d = i then or_old (du_host u) (dom_host d) else dom_host d)" for d
    by (simp add: apply_domain_update_def)
  have "inj_on (dom_host \<circ> ?f) (set ds)"
  proof (rule inj_onI)
    fix x y assume xy: "x \<in> set ds" "y \<in> set ds" "(dom_host \<circ> ?f) x = (dom_host \<circ> ?f) y"
    have same: "dom_id x = dom_id y \<Longrightarrow> x = y" "dom_host x = dom_host y \<Longrightarrow> x = y"
      using xy(1,2) assms(1) by (auto simp: domains_ok_def distinct_map dest: inj_onD)
    show "x = y"
      using xy free same by (cases "du_host u") (auto simp: host or_old_def split: if_splits)
  qed
  moreover have "distinct ds" using assms(1) by (simp add: domains_ok_def distinct_map)
  ultimately have "distinct (map dom_host ds')" by (simp add: ds' distinct_map)
  moreover have "\<forall>d \<in> set ds'. normalize_host to_ascii (dom_host d) = Returns (Inr (dom_host d))"
    using assms(1,3) by (auto simp: ds' host or_old_def domains_ok_def apply_domain_update_def split: option.splits)
  moreover have "map dom_id ds' = map dom_id ds"
    by (simp add: ds' apply_domain_update_def)
  ultimately show ?thesis using assms(1) by (simp add: domains_ok_def)
qed

text \<open>Every operation keeps the rows so; \<open>to_ascii\<close> leaves names alone that it has converted.\<close>

definition domains_inv :: "(string \<Rightarrow> string option) \<Rightarrow> domain list \<Rightarrow> bool" where
  "domains_inv to_ascii ds \<longleftrightarrow> (idempotent to_ascii \<longrightarrow> domains_ok to_ascii ds)"

lemma domain_step_ok:
  assumes "idempotent to_ascii" and "domains_ok to_ascii ds"
  shows "domains_ok to_ascii (domain_step to_ascii tenants ds e)"
proof -
  have again: "normalize_host to_ascii n = Returns (Inr n)" if "normalize_host to_ascii h = Returns (Inr n)" for h n
    using normalize_host_again [of to_ascii h n] that assms(1) by (simp add: idempotent_def)
  show ?thesis
  proof (cases e)
    case (Create_domain fresh now inp)
    show ?thesis
    proof (cases "normalize_host to_ascii (nd_host inp)")
      case (Returns x)
      with assms(2) again show ?thesis
        by (cases x) (auto simp: Create_domain create_domain_def or_same_call_def or_same_def
            split: sum.splits if_splits intro: create_row_ok)
    qed (use assms in \<open>simp add: Create_domain create_domain_def or_same_call_def\<close>)
  next
    case (Update_domain now i u)
    show ?thesis
    proof (cases i)
      case (Some k)
      have plain: "domains_ok to_ascii (or_same ds (update_domain_row now k v ds))"
        if "\<And>h. du_host v = Some h \<Longrightarrow> normalize_host to_ascii h = Returns (Inr h)" for v
        using update_row_ok [OF assms(2) _ that] assms(2) by (auto simp: or_same_def split: sum.split)
      show ?thesis
      proof (cases "du_host u")
        case None
        then show ?thesis using plain [of u] by (simp add: Update_domain Some update_domain_def or_same_call_def)
      next
        case (Some h)
        then show ?thesis
          using plain [of "u\<lparr>du_host := Some n\<rparr>" for n] again [of h] assms(2) \<open>i = Some k\<close>
          by (cases "normalize_host to_ascii h")
             (auto simp: Update_domain update_domain_def split: sum.split)
      qed
    qed (use assms in \<open>simp add: Update_domain update_domain_def or_same_call_def or_same_def\<close>)
  next
    case (Delete_domain i)
    then show ?thesis
      using assms(2)
      by (auto simp: delete_domain_def delete_domain_row_def or_same_def domains_ok_def distinct_map_filter
          split: option.split if_split)
  next
    case (Set_status now i st)
    have "domains_ok to_ascii (or_same ds (update_domain_row now k (no_domain_update\<lparr>du_status := Some st\<rparr>) ds))" for k
      using update_row_ok [OF assms(2), of now k "no_domain_update\<lparr>du_status := Some st\<rparr>"] assms(2)
      by (auto simp: or_same_def no_domain_update_def split: sum.split)
    then show ?thesis
      using assms(2) by (cases i) (simp_all add: Set_status set_domain_status_def or_same_def)
  qed
qed

interpretation domains: machine "domain_step to_ascii tenants" "domains_inv to_ascii" for to_ascii tenants
  by unfold_locales (simp add: domains_inv_def domain_step_ok)

section \<open>Domains and routes\<close>

definition route_row :: "domain \<Rightarrow> domain_row" where
  "route_row d = \<lparr>dm_id = dom_id d, dm_hostname = dom_host d, dm_service = dom_service d, dm_status = dom_status d\<rparr>"

lemma build_domains_map:
  assumes "\<forall>d \<in> set rows. host_key to_ascii (dm_hostname d) = Returns (dm_hostname d)"
    and "distinct (map dm_hostname rows)"
  shows "\<exists>t'. build_domains to_ascii src rows t = Returns t' \<and>
    (\<forall>d \<in> set rows. build_entry src d \<noteq> None \<longrightarrow> t' (dm_hostname d) = build_entry src d) \<and>
    (\<forall>k. (\<forall>d \<in> set rows. dm_hostname d = k \<longrightarrow> build_entry src d = None) \<longrightarrow> t' k = t k)"
  using assms
proof (induction rows arbitrary: t)
  case (Cons d rows)
  have tl: "\<forall>d \<in> set rows. host_key to_ascii (dm_hostname d) = Returns (dm_hostname d)"
    "distinct (map dm_hostname rows)" "dm_hostname d \<notin> dm_hostname ` set rows"
    using Cons.prems by auto
  show ?case
  proof (cases "build_entry src d")
    case None
    then show ?thesis using Cons.IH [OF tl(1,2), of t] by auto
  next
    case (Some e)
    obtain t' where t': "build_domains to_ascii src rows (t(dm_hostname d \<mapsto> e)) = Returns t'"
      "\<forall>d \<in> set rows. build_entry src d \<noteq> None \<longrightarrow> t' (dm_hostname d) = build_entry src d"
      "\<forall>k. (\<forall>d \<in> set rows. dm_hostname d = k \<longrightarrow> build_entry src d = None) \<longrightarrow> t' k = (t(dm_hostname d \<mapsto> e)) k"
      using Cons.IH [OF tl(1,2), of "t(dm_hostname d \<mapsto> e)"] by blast
    have "t' (dm_hostname d) = Some e" using t'(3) tl(3) by (metis fun_upd_same image_eqI)
    then show ?thesis using t' Some Cons.prems(1) by (auto simp del: fun_upd_apply simp: fun_upd_other)
  qed
qed simp

text \<open>The map that is built from the rows of a sound table holds, under each name, the entry of the domain with that name.\<close>

lemma build_domains_of_rows:
  assumes "domains_ok to_ascii ds" and "mset (rs_domains src) = mset (map route_row ds)"
  shows "\<exists>t. build_domains to_ascii src (rs_domains src) Map.empty = Returns t \<and>
    (\<forall>n. t n = (case domain_by_host ds n of None \<Rightarrow> None | Some d \<Rightarrow> build_entry src (route_row d)))"
proof -
  have rows: "set (rs_domains src) = route_row ` set ds" using mset_eq_setD [OF assms(2)] by simp
  have "mset (map dm_hostname (rs_domains src)) = mset (map dm_hostname (map route_row ds))"
    using assms(2) by (metis mset_map)
  moreover have "map dm_hostname (map route_row ds) = map dom_host ds" by (simp add: route_row_def)
  ultimately have dist: "distinct (map dm_hostname (rs_domains src))"
    using assms(1) by (metis domains_ok_def mset_eq_imp_distinct_iff)
  have key: "\<forall>d \<in> set (rs_domains src). host_key to_ascii (dm_hostname d) = Returns (dm_hostname d)"
    using assms(1) by (auto simp: rows route_row_def host_key_def domains_ok_def)
  obtain t where t: "build_domains to_ascii src (rs_domains src) Map.empty = Returns t"
    and hit: "\<forall>d \<in> set (rs_domains src). build_entry src d \<noteq> None \<longrightarrow> t (dm_hostname d) = build_entry src d"
    and miss: "\<forall>k. (\<forall>d \<in> set (rs_domains src). dm_hostname d = k \<longrightarrow> build_entry src d = None) \<longrightarrow> t k = None"
    using build_domains_map [OF key dist, of src Map.empty] by auto
  have look: "t n = (case domain_by_host ds n of None \<Rightarrow> None | Some d \<Rightarrow> build_entry src (route_row d))" for n
  proof (cases "domain_by_host ds n")
    case None
    then have "\<forall>d \<in> set ds. dom_host d \<noteq> n" by (auto simp: domain_by_host_def find_cong_None)
    then have "t n = None" using miss by (auto simp: rows route_row_def)
    then show ?thesis by (simp add: None)
  next
    case (Some d)
    then have d: "d \<in> set ds" "dom_host d = n" by (auto simp: domain_by_host_def dest: find_Some_mem)
    have only: "\<forall>d' \<in> set ds. dom_host d' = n \<longrightarrow> d' = d"
      using assms(1) d by (auto simp: domains_ok_def distinct_map dest: inj_onD)
    show ?thesis
    proof (cases "build_entry src (route_row d)")
      case None
      then have "t n = None" using miss only by (auto simp: rows route_row_def)
      then show ?thesis by (simp add: Some None)
    next
      case (Some e)
      then show ?thesis using hit d \<open>domain_by_host ds n = Some d\<close> by (auto simp: rows route_row_def)
    qed
  qed
  show ?thesis using t look by blast
qed

text \<open>Property C14. A registered domain is reached under its own name, and under no other. After any
sequence of requests to create, change, enable or delete domains, the route table built from the
rows exists (no stored name makes it fail), and looking up any spelling of a host gives exactly the
entry of the domain registered under the normalised name: never the entry of another domain, and
nothing when no domain has the name. (\<open>to_ascii\<close> leaves names alone that it has converted.)\<close>

theorem registered_domains_have_their_own_route:
  assumes "idempotent to_ascii" and "foldl (domain_step to_ascii tenants) [] es = ds"
    and "mset (rs_domains src) = mset (map route_row ds)"
  shows "\<exists>t. build_table to_ascii src = Returns t \<and>
    (\<forall>h n. normalize_host to_ascii h = Returns (Inr n) \<longrightarrow>
      table_lookup to_ascii t h =
        Returns (case domain_by_host ds n of None \<Rightarrow> None | Some d \<Rightarrow> build_entry src (route_row d)))"
proof -
  have "domains_inv to_ascii []" by (simp add: domains_inv_def domains_ok_def)
  then have "domains_inv to_ascii ds" using domains.mrun_inv assms(2) by blast
  then have ok: "domains_ok to_ascii ds" using assms(1) by (simp add: domains_inv_def)
  obtain t where t: "build_domains to_ascii src (rs_domains src) Map.empty = Returns t"
    and look: "t n = (case domain_by_host ds n of None \<Rightarrow> None | Some d \<Rightarrow> build_entry src (route_row d))" for n
    using build_domains_of_rows [OF ok assms(3)] by blast
  have rows: "set (rs_domains src) = route_row ` set ds" using mset_eq_setD [OF assms(3)] by simp
  show ?thesis
  proof (cases "\<forall>d \<in> set (rs_domains src). build_entry src d = None")
    case True
    then have "t n = None" for n
      using look rows by (auto simp: domain_by_host_def dest: find_Some_mem split: option.split)
    then show ?thesis using t look True by (auto simp: build_table_def table_lookup_def)
  next
    case False
    then have "build_table to_ascii src = Returns (Some t)" by (simp only: build_table_def t outcome.case if_False)
    then show ?thesis using look by (auto simp: table_lookup_def host_key_def)
  qed
qed

theorem registered_domains_have_their_own_route_witness:
  "\<exists>t. build_table Some sample_source = Returns t \<and>
    table_lookup Some t ''Shop.Example:443'' = Returns (Some sample_entry)"
proof -
  let ?e = "Create_domain ''d1'' 0 \<lparr>nd_tenant = ''t1'', nd_host = ''Shop.Example:443'', nd_service = Some ''s1'', nd_tls = []\<rparr>"
  let ?d = "\<lparr>dom_id = ''d1'', dom_tenant = ''t1'', dom_host = ''shop.example'', dom_service = Some ''s1'',
     dom_status = ''active'', dom_verified = None, dom_tls = ''disabled'', dom_cert = None,
     dom_created = 0, dom_updated = 0\<rparr>"
  have n: "normalize_host Some ''Shop.Example:443'' = Returns (Inr ''shop.example'')"
    using sample_host(2) by (auto simp: host_key_def split: outcome.splits sum.splits)
  have "foldl (domain_step Some [''t1'']) [] [?e] = [?d]"
    by (simp add: create_domain_def n create_domain_row_def uuid_nil_def)
  moreover have "rs_domains sample_source = map route_row [?d]"
    by (simp add: sample_source_def route_row_def)
  moreover have "idempotent Some" by (simp add: idempotent_def)
  ultimately obtain t where "build_table Some sample_source = Returns t"
    "table_lookup Some t ''Shop.Example:443'' = Returns (build_entry sample_source (route_row ?d))"
    using registered_domains_have_their_own_route [of Some "[''t1'']" "[?e]" "[?d]" sample_source] n
    by (auto simp: domain_by_host_def)
  moreover have "build_entry sample_source (route_row ?d) = Some sample_entry"
    using sample_build by (simp add: sample_source_def route_row_def)
  ultimately show ?thesis by simp
qed

end
