(* ===== verification/Certificates.thy ===== *)
theory Certificates
  imports Domains
begin

text \<open>
  \<open>internal/certificate\<close>: validation, the rows of certificates, the cache that handshakes read
  (\<open>cache.go\<close>, \<open>sni.go\<close>), and the operations of the service on them (\<open>service.go\<close>, \<open>repository.go\<close>).
  X.509 and the encryption of keys are arguments: \<open>pair\<close> is \<open>tls.X509KeyPair\<close> followed by
  \<open>parseLeaf\<close>, \<open>keys_equal\<close> the comparison of public keys, \<open>enc\<close> and \<open>dec\<close> the encrypter. A statement
  the database refuses ends an operation with an error; the model runs on one that accepts.
\<close>

section \<open>Model\<close>

datatype cert_source = Manual | Cloudflare | Acme | Origin
datatype cert_status = Cert_pending | Cert_active | Cert_error | Cert_expiring | Cert_expired

record leaf =
  lf_dns :: "string list"
  lf_cn :: string
  lf_not_before :: go_time
  lf_not_after :: go_time
  lf_issuer :: string
  lf_serial :: string

record cert =
  ct_id :: uuid
  ct_domain :: "uuid option"
  ct_host :: string
  ct_source :: cert_source
  ct_status :: cert_status
  ct_pem :: string
  ct_key :: string \<comment> \<open>encrypted\<close>
  ct_issuer :: string
  ct_serial :: string
  ct_issued :: "go_time option"
  ct_expires :: "go_time option"
  ct_last_renewed :: "go_time option"
  ct_error :: string
  ct_meta :: "(string \<times> string) list option"
  ct_attempts :: int
  ct_next_renew :: "go_time option"
  ct_renew_error :: string
  ct_created :: go_time
  ct_updated :: go_time

text \<open>What a handshake uses: the pair, with the leaf it was parsed from.\<close>

record loaded =
  ld_host :: string
  ld_pem :: string
  ld_key :: string
  ld_leaf :: leaf
  ld_expiry :: go_time

section \<open>validation.go\<close>

datatype material_error =
    Empty_certificate | Empty_key | Bad_pair | Key_mismatch | Not_yet_valid | Past_validity | Not_covered

text \<open>\<open>leafMatchesHostname\<close>: a wildcard covers every depth below its base.\<close>

definition bare_name :: "string \<Rightarrow> string" where
  "bare_name n = to_lower (trim_suffix n ''.'')"

definition dns_covers :: "string \<Rightarrow> string \<Rightarrow> bool" where
  "dns_covers host dns \<longleftrightarrow> dns \<noteq> [] \<and>
    (bare_name dns = host
     \<or> has_prefix (bare_name dns) ''*.'' \<and> has_suffix host (''.'' @ drop 2 (bare_name dns)))"

definition leaf_matches :: "leaf \<Rightarrow> string \<Rightarrow> bool" where
  "leaf_matches l host0 =
    (let host = bare_name host0 in
     list_ex (dns_covers host) (lf_dns l)
     \<or> lf_cn l \<noteq> [] \<and> bare_name (lf_cn l) = to_lower host)"

definition validate_and_load :: "(string \<Rightarrow> string \<Rightarrow> leaf option) \<Rightarrow> (string \<Rightarrow> string \<Rightarrow> bool) \<Rightarrow> go_time \<Rightarrow>
    string \<Rightarrow> string \<Rightarrow> string \<Rightarrow> material_error + leaf" where
  "validate_and_load pair keys_equal now pem key host =
    (if trim_space pem = [] then Inl Empty_certificate
     else if trim_space key = [] then Inl Empty_key
     else case pair pem key of
       None \<Rightarrow> Inl Bad_pair
     | Some l \<Rightarrow>
         if \<not> keys_equal pem key then Inl Key_mismatch
         else if now < lf_not_before l then Inl Not_yet_valid
         else if lf_not_after l < now then Inl Past_validity
         else if host \<noteq> [] \<and> \<not> leaf_matches l host then Inl Not_covered
         else Inr l)"

section \<open>cache.go and sni.go\<close>

type_synonym cert_cache = "string \<rightharpoonup> loaded"

definition normalize_sn :: "(string \<Rightarrow> string option) \<Rightarrow> string \<Rightarrow> string outcome" where
  "normalize_sn to_ascii name =
    (case normalize_host to_ascii name of
       Panics \<Rightarrow> Panics
     | Returns (Inl _) \<Rightarrow> Returns []
     | Returns (Inr n) \<Rightarrow> Returns n)"

definition cache_get :: "(string \<Rightarrow> string option) \<Rightarrow> cert_cache \<Rightarrow> string \<Rightarrow> loaded option outcome" where
  "cache_get to_ascii c name =
    (case normalize_sn to_ascii name of
       Panics \<Rightarrow> Panics
     | Returns k \<Rightarrow> Returns (if k = [] then None else c k))"

definition cache_set :: "(string \<Rightarrow> string option) \<Rightarrow> string \<Rightarrow> loaded \<Rightarrow> cert_cache \<Rightarrow> cert_cache outcome" where
  "cache_set to_ascii name l c =
    (case normalize_sn to_ascii name of
       Panics \<Rightarrow> Panics
     | Returns k \<Rightarrow> Returns (if k = [] then c else c(k \<mapsto> l)))"

definition cache_delete :: "(string \<Rightarrow> string option) \<Rightarrow> string \<Rightarrow> cert_cache \<Rightarrow> cert_cache outcome" where
  "cache_delete to_ascii name c =
    (case normalize_sn to_ascii name of
       Panics \<Rightarrow> Panics
     | Returns k \<Rightarrow> Returns (if k = [] then c else c(k := None)))"

record sni_getter =
  gt_fallback :: bool
  gt_hits :: "64 word"
  gt_misses :: "64 word"

datatype sni_answer = Use_certificate loaded | Use_default | No_sni | Unknown_sni

definition get_certificate :: "(string \<Rightarrow> string option) \<Rightarrow> cert_cache \<Rightarrow> string \<Rightarrow> sni_getter \<Rightarrow>
    (sni_getter \<times> sni_answer) outcome" where
  "get_certificate to_ascii c name g =
    (case normalize_sn to_ascii name of
       Panics \<Rightarrow> Panics
     | Returns sn \<Rightarrow>
         (case (if sn = [] then Returns None else cache_get to_ascii c sn) of
            Panics \<Rightarrow> Panics
          | Returns (Some l) \<Rightarrow> Returns (g\<lparr>gt_hits := gt_hits g + 1\<rparr>, Use_certificate l)
          | Returns None \<Rightarrow> Returns (g\<lparr>gt_misses := gt_misses g + 1\<rparr>,
              if gt_fallback g then Use_default else if sn = [] then No_sni else Unknown_sni)))"

section \<open>repository.go\<close>

definition cert_by_id :: "cert list \<Rightarrow> uuid \<Rightarrow> cert option" where
  "cert_by_id rows i = find (\<lambda>r. ct_id r = i) rows"

text \<open>\<open>GetByHostname\<close>: the rows of the name in ascending order of their last update, the first of
them (the one that was updated longest ago, although the comment says the latest).\<close>

definition oldest :: "('a \<Rightarrow> go_time) \<Rightarrow> 'a list \<Rightarrow> 'a option" where
  "oldest t xs = (case xs of [] \<Rightarrow> None | x # ys \<Rightarrow> Some (foldl (\<lambda>a b. if t b < t a then b else a) x ys))"

definition cert_by_host :: "cert list \<Rightarrow> string \<Rightarrow> cert option" where
  "cert_by_host rows h = oldest ct_updated (filter (\<lambda>r. ct_host r = h) rows)"

definition kept :: "'a option \<Rightarrow> 'a option \<Rightarrow> 'a option" where
  "kept new old = (if new = None then old else new)"

definition kept_text :: "string \<Rightarrow> string \<Rightarrow> string" where
  "kept_text new old = (if new = [] then old else new)"

definition create_cert :: "uuid \<Rightarrow> go_time \<Rightarrow> cert \<Rightarrow> cert" where
  "create_cert fresh now c =
    c\<lparr>ct_id := fresh, ct_last_renewed := None, ct_meta := None, ct_attempts := 0, ct_next_renew := None,
      ct_renew_error := [], ct_created := now, ct_updated := now\<rparr>"

definition update_content :: "go_time \<Rightarrow> cert \<Rightarrow> cert \<Rightarrow> cert" where
  "update_content now c r =
    r\<lparr>ct_pem := ct_pem c, ct_key := ct_key c, ct_host := ct_host c, ct_source := ct_source c,
      ct_status := ct_status c, ct_updated := now, ct_domain := ct_domain c,
      ct_issuer := kept_text (ct_issuer c) (ct_issuer r), ct_serial := kept_text (ct_serial c) (ct_serial r),
      ct_issued := kept (ct_issued c) (ct_issued r), ct_expires := kept (ct_expires c) (ct_expires r),
      ct_error := ct_error c\<rparr>"

definition update_domain_id :: "go_time \<Rightarrow> uuid option \<Rightarrow> cert \<Rightarrow> cert" where
  "update_domain_id now d r = r\<lparr>ct_domain := d, ct_updated := now\<rparr>"

definition update_status :: "go_time \<Rightarrow> cert_status \<Rightarrow> string \<Rightarrow> cert \<Rightarrow> cert" where
  "update_status now st msg r = r\<lparr>ct_status := st, ct_error := msg, ct_updated := now\<rparr>"

definition edit_cert :: "uuid \<Rightarrow> (cert \<Rightarrow> cert) \<Rightarrow> cert list \<Rightarrow> cert list" where
  "edit_cert i f rows = map (\<lambda>r. if ct_id r = i then f r else r) rows"

definition delete_cert_row :: "uuid \<Rightarrow> cert list \<Rightarrow> cert list" where
  "delete_cert_row i rows = filter (\<lambda>r. ct_id r \<noteq> i) rows"

definition active_by_expiry_before :: "go_time \<Rightarrow> cert list \<Rightarrow> cert list" where
  "active_by_expiry_before deadline rows =
    sort_key (\<lambda>r. case ct_expires r of None \<Rightarrow> 0 | Some t \<Rightarrow> t)
      (filter (\<lambda>r. (case ct_expires r of None \<Rightarrow> False | Some t \<Rightarrow> t < deadline)
         \<and> (ct_status r = Cert_active \<or> ct_status r = Cert_pending)) rows)"

section \<open>service.go\<close>

record cert_service =
  sc_rows :: "cert list"
  sc_cache :: cert_cache
  sc_domains :: "domain list option" \<comment> \<open>None without a domain repository\<close>

datatype cert_failure =
    Bad_host_name | Bad_material material_error | Domain_error domain_error | Host_differs
  | Encrypt_failed | Row_conflict | No_certificate | Incomplete_pair | Source_off | Not_supported | Provider_failed string

text \<open>How the texts of states reach the rows of domains.\<close>

fun status_text :: "cert_status \<Rightarrow> string" where
  "status_text Cert_pending = ''pending''"
| "status_text Cert_active = ''active''"
| "status_text Cert_error = ''error''"
| "status_text Cert_expiring = ''expiring''"
| "status_text Cert_expired = ''expired''"

record upload_input =
  ul_domain :: "uuid option"
  ul_host :: string
  ul_pem :: string
  ul_key :: string

record cert_edit =
  ce_pem :: "string option"
  ce_key :: "string option"
  ce_domain :: "uuid option"
  ce_clear :: bool

definition resolve_domain_id :: "cert_service \<Rightarrow> string \<Rightarrow> uuid option \<Rightarrow> cert_failure + uuid option" where
  "resolve_domain_id st host d =
    (case sc_domains st of
       None \<Rightarrow> Inr d
     | Some ds \<Rightarrow>
         (case d of
            Some i \<Rightarrow>
              (case domain_by_id ds i of
                 None \<Rightarrow> Inl (Domain_error No_such_domain)
               | Some x \<Rightarrow> if dom_host x \<noteq> host then Inl Host_differs else Inr (Some i))
          | None \<Rightarrow> Inr (map_option dom_id (domain_by_host ds host))))"

definition sync_domain_tls :: "go_time \<Rightarrow> uuid option \<Rightarrow> string \<Rightarrow> string \<Rightarrow> cert_service \<Rightarrow> cert_service" where
  "sync_domain_tls now d mode status st =
    (case (sc_domains st, d) of
       (Some ds, Some i) \<Rightarrow>
         (case update_domain_row now i (no_domain_update\<lparr>du_tls := Some mode, du_cert := Some status\<rparr>) ds of
            Inl _ \<Rightarrow> st
          | Inr ds' \<Rightarrow> st\<lparr>sc_domains := Some ds'\<rparr>)
     | _ \<Rightarrow> st)"

definition decrypt_and_load :: "(string \<Rightarrow> string \<Rightarrow> leaf option) \<Rightarrow> (string \<Rightarrow> string option) \<Rightarrow> cert \<Rightarrow> loaded option" where
  "decrypt_and_load pair dec r =
    (case dec (ct_key r) of
       None \<Rightarrow> None
     | Some key \<Rightarrow>
         (case pair (ct_pem r) key of
            None \<Rightarrow> None
          | Some l \<Rightarrow> Some \<lparr>ld_host = ct_host r, ld_pem = ct_pem r, ld_key = key, ld_leaf = l,
                            ld_expiry = lf_not_after l\<rparr>))"

definition reload_into_cache :: "(string \<Rightarrow> string option) \<Rightarrow> (string \<Rightarrow> string \<Rightarrow> leaf option) \<Rightarrow> (string \<Rightarrow> string option) \<Rightarrow>
    cert \<Rightarrow> cert_service \<Rightarrow> (bool \<times> cert_service) outcome" where
  "reload_into_cache to_ascii pair dec r st =
    (case decrypt_and_load pair dec r of
       None \<Rightarrow> Returns (False, st)
     | Some l \<Rightarrow>
         (case cache_set to_ascii (ct_host r) l (sc_cache st) of
            Panics \<Rightarrow> Panics
          | Returns c \<Rightarrow> Returns (True, st\<lparr>sc_cache := c\<rparr>)))"

definition blank_cert :: cert where
  "blank_cert = \<lparr>ct_id = [], ct_domain = None, ct_host = [], ct_source = Manual, ct_status = Cert_active,
     ct_pem = [], ct_key = [], ct_issuer = [], ct_serial = [], ct_issued = None, ct_expires = None,
     ct_last_renewed = None, ct_error = [], ct_meta = None, ct_attempts = 0, ct_next_renew = None,
     ct_renew_error = [], ct_created = 0, ct_updated = 0\<rparr>"

text \<open>The end that \<open>Upload\<close> and \<open>persistIssued\<close> share: the row of the host name is replaced or a new
one created (None when the key is taken), then the cache and the domain follow.\<close>

definition store_cert :: "uuid \<Rightarrow> go_time \<Rightarrow> cert \<Rightarrow> cert list \<Rightarrow> (cert \<times> cert list) option" where
  "store_cert fresh now c rows =
    (case cert_by_host rows (ct_host c) of
       Some old \<Rightarrow> Some (update_content now c old, edit_cert (ct_id old) (update_content now c) rows)
     | None \<Rightarrow>
         if list_ex (\<lambda>r. ct_id r = fresh) rows then None
         else Some (create_cert fresh now c, rows @ [create_cert fresh now c]))"

definition publish :: "(string \<Rightarrow> string option) \<Rightarrow> (string \<Rightarrow> string \<Rightarrow> leaf option) \<Rightarrow> (string \<Rightarrow> string option) \<Rightarrow>
    uuid \<Rightarrow> go_time \<Rightarrow> string \<Rightarrow> cert \<Rightarrow> cert_service \<Rightarrow> (cert_service \<times> (cert_failure + cert)) outcome" where
  "publish to_ascii pair dec fresh now mode c st =
    (case store_cert fresh now c (sc_rows st) of
       None \<Rightarrow> Returns (st, Inl Row_conflict)
     | Some (saved, rows) \<Rightarrow>
         (case reload_into_cache to_ascii pair dec saved (st\<lparr>sc_rows := rows\<rparr>) of
            Panics \<Rightarrow> Panics
          | Returns (_, st1) \<Rightarrow>
              Returns (sync_domain_tls now (ct_domain c) mode (status_text (ct_status saved)) st1, Inr saved)))"

definition upload :: "(string \<Rightarrow> string option) \<Rightarrow> (string \<Rightarrow> string \<Rightarrow> leaf option) \<Rightarrow> (string \<Rightarrow> string \<Rightarrow> bool) \<Rightarrow>
    (string \<Rightarrow> string option) \<Rightarrow> (string \<Rightarrow> string option) \<Rightarrow> uuid \<Rightarrow> go_time \<Rightarrow> upload_input \<Rightarrow>
    cert_service \<Rightarrow> (cert_service \<times> (cert_failure + cert)) outcome" where
  "upload to_ascii pair keq enc dec fresh now inp st =
    (case normalize_host to_ascii (ul_host inp) of
       Panics \<Rightarrow> Panics
     | Returns (Inl _) \<Rightarrow> Returns (st, Inl Bad_host_name)
     | Returns (Inr host) \<Rightarrow>
         (case validate_and_load pair keq now (ul_pem inp) (ul_key inp) host of
            Inl e \<Rightarrow> Returns (st, Inl (Bad_material e))
          | Inr l \<Rightarrow>
              (case resolve_domain_id st host (ul_domain inp) of
                 Inl e \<Rightarrow> Returns (st, Inl e)
               | Inr d \<Rightarrow>
                   (case enc (ul_key inp) of
                      None \<Rightarrow> Returns (st, Inl Encrypt_failed)
                    | Some ek \<Rightarrow> publish to_ascii pair dec fresh now ''manual''
                        (blank_cert\<lparr>ct_domain := d, ct_host := host, ct_pem := ul_pem inp, ct_key := ek,
                           ct_issuer := lf_issuer l, ct_serial := lf_serial l,
                           ct_issued := Some (lf_not_before l), ct_expires := Some (lf_not_after l)\<rparr>) st))))"

text \<open>The three ways to bind in an edit: to a domain, to none, as before (or by name, if there was none).\<close>

definition edit_binding :: "cert_service \<Rightarrow> cert \<Rightarrow> cert_edit \<Rightarrow> cert_failure + uuid option" where
  "edit_binding st old inp =
    (if ce_domain inp \<noteq> None then resolve_domain_id st (ct_host old) (ce_domain inp)
     else if ce_clear inp then Inr None
     else if ct_domain old \<noteq> None then Inr (ct_domain old)
     else (case resolve_domain_id st (ct_host old) None of Inl _ \<Rightarrow> Inr None | Inr d \<Rightarrow> Inr d))"

definition deref :: "string option \<Rightarrow> string" where
  "deref x = (case x of None \<Rightarrow> [] | Some v \<Rightarrow> v)"

definition rebind :: "go_time \<Rightarrow> cert \<Rightarrow> uuid option \<Rightarrow> cert \<Rightarrow> cert_service \<Rightarrow> cert_service" where
  "rebind now old d saved st =
    (let st1 = sync_domain_tls now d ''manual'' (status_text (ct_status saved)) st in
     if ct_domain old \<noteq> None \<and> d \<noteq> ct_domain old
     then sync_domain_tls now (ct_domain old) ''disabled'' [] st1 else st1)"

definition update_cert :: "(string \<Rightarrow> string option) \<Rightarrow> (string \<Rightarrow> string \<Rightarrow> leaf option) \<Rightarrow> (string \<Rightarrow> string \<Rightarrow> bool) \<Rightarrow>
    (string \<Rightarrow> string option) \<Rightarrow> (string \<Rightarrow> string option) \<Rightarrow> go_time \<Rightarrow> uuid \<Rightarrow> cert_edit \<Rightarrow>
    cert_service \<Rightarrow> (cert_service \<times> (cert_failure + cert)) outcome" where
  "update_cert to_ascii pair keq enc dec now i inp st =
    (case cert_by_id (sc_rows st) i of
       None \<Rightarrow> Returns (st, Inl No_certificate)
     | Some old \<Rightarrow>
         (case edit_binding st old inp of
            Inl e \<Rightarrow> Returns (st, Inl e)
          | Inr d \<Rightarrow>
              (let pem = deref (ce_pem inp); key = deref (ce_key inp) in
               if (trim_space pem \<noteq> []) \<noteq> (trim_space key \<noteq> []) then Returns (st, Inl Incomplete_pair)
               else if trim_space pem = [] then
                 (let saved = update_domain_id now d old in
                  Returns (rebind now old d saved
                    (st\<lparr>sc_rows := edit_cert i (update_domain_id now d) (sc_rows st)\<rparr>), Inr saved))
               else
                 (case validate_and_load pair keq now pem key (ct_host old) of
                    Inl e \<Rightarrow> Returns (st, Inl (Bad_material e))
                  | Inr l \<Rightarrow>
                      (case enc key of
                         None \<Rightarrow> Returns (st, Inl Encrypt_failed)
                       | Some ek \<Rightarrow>
                           (let c = blank_cert\<lparr>ct_domain := d, ct_host := ct_host old, ct_pem := pem, ct_key := ek,
                                  ct_issuer := lf_issuer l, ct_serial := lf_serial l,
                                  ct_issued := Some (lf_not_before l), ct_expires := Some (lf_not_after l)\<rparr>;
                                saved = update_content now c old
                            in (case reload_into_cache to_ascii pair dec saved
                                  (st\<lparr>sc_rows := edit_cert i (update_content now c) (sc_rows st)\<rparr>) of
                                  Panics \<Rightarrow> Panics
                                | Returns (_, st1) \<Rightarrow> Returns (rebind now old d saved st1, Inr saved))))))))"

text \<open>\<open>Delete\<close>; \<open>ca\<close> is the error of the revocation at the authority, which does not stop it.\<close>

definition delete_cert :: "(string \<Rightarrow> string option) \<Rightarrow> go_time \<Rightarrow> uuid \<Rightarrow> string option \<Rightarrow> cert_service \<Rightarrow>
    (cert_service \<times> (cert_failure + string option)) outcome" where
  "delete_cert to_ascii now i ca st =
    (case cert_by_id (sc_rows st) i of
       None \<Rightarrow> Returns (st, Inl No_certificate)
     | Some r \<Rightarrow>
         (case cache_delete to_ascii (ct_host r) (sc_cache st) of
            Panics \<Rightarrow> Panics
          | Returns c \<Rightarrow>
              (let rows = delete_cert_row i (sc_rows st); st1 = st\<lparr>sc_rows := rows, sc_cache := c\<rparr> in
               Returns
                 (case sc_domains st of
                    None \<Rightarrow> st1
                  | Some ds \<Rightarrow>
                      if cert_by_host rows (ct_host r) \<noteq> None then st1
                      else (case domain_by_host ds (ct_host r) of
                          None \<Rightarrow> st1
                        | Some x \<Rightarrow> sync_domain_tls now (Some (dom_id x)) ''disabled'' [] st1),
                  Inr ca))))"

definition reload_cert :: "(string \<Rightarrow> string option) \<Rightarrow> (string \<Rightarrow> string \<Rightarrow> leaf option) \<Rightarrow> (string \<Rightarrow> string option) \<Rightarrow>
    uuid \<Rightarrow> cert_service \<Rightarrow> (cert_service \<times> bool) outcome" where
  "reload_cert to_ascii pair dec i st =
    (case cert_by_id (sc_rows st) i of
       None \<Rightarrow> Returns (st, False)
     | Some r \<Rightarrow>
         (case reload_into_cache to_ascii pair dec r st of
            Panics \<Rightarrow> Panics
          | Returns (ok, st1) \<Rightarrow> Returns (st1, ok)))"

definition reload_all :: "(string \<Rightarrow> string \<Rightarrow> leaf option) \<Rightarrow> (string \<Rightarrow> string option) \<Rightarrow> cert_service \<Rightarrow> cert_service" where
  "reload_all pair dec st = st\<lparr>sc_cache :=
     fold (\<lambda>r m. case decrypt_and_load pair dec r of None \<Rightarrow> m | Some l \<Rightarrow> m(ct_host r \<mapsto> l)) (sc_rows st) Map.empty\<rparr>"

definition scan_one :: "go_time \<Rightarrow> cert \<Rightarrow> cert" where
  "scan_one now r =
    (case ct_expires r of
       None \<Rightarrow> r
     | Some t \<Rightarrow>
         if t < now then update_status now Cert_expired ''expired'' r
         else update_status now Cert_expiring ''expiring'' r)"

definition scan_expiring :: "go_time \<Rightarrow> int \<Rightarrow> cert_service \<Rightarrow> cert_service \<times> nat" where
  "scan_expiring now warn st =
    (let due = active_by_expiry_before (now + warn) (sc_rows st) in
     (st\<lparr>sc_rows := fold (\<lambda>r. edit_cert (ct_id r) (scan_one now)) due (sc_rows st)\<rparr>, length due))"

text \<open>Migration 0014: \<open>certificates.domain_id REFERENCES domains(id) ON DELETE CASCADE\<close>. When the domains change, the database
deletes the certificates of those that are gone; the cache learns nothing of it.\<close>

definition bound_to :: "domain list \<Rightarrow> cert \<Rightarrow> bool" where
  "bound_to ds r \<longleftrightarrow> (case ct_domain r of None \<Rightarrow> True | Some d \<Rightarrow> d \<in> dom_id ` set ds)"

definition domains_changed :: "domain list \<Rightarrow> cert_service \<Rightarrow> cert_service" where
  "domains_changed ds st = st\<lparr>sc_domains := map_option (\<lambda>_. ds) (sc_domains st), sc_rows := filter (bound_to ds) (sc_rows st)\<rparr>"

definition lost_names :: "domain list \<Rightarrow> cert_service \<Rightarrow> string set" where
  "lost_names ds st = ct_host ` set (filter (\<lambda>r. \<not> bound_to ds r) (sc_rows st))"

section \<open>The cache holds what the rows hold\<close>

text \<open>The encrypter gives back what it was given.\<close>

definition seals :: "(string \<Rightarrow> string option) \<Rightarrow> (string \<Rightarrow> string option) \<Rightarrow> bool" where
  "seals enc dec \<longleftrightarrow> (\<forall>k e. enc k = Some e \<longrightarrow> dec e = Some k)"

text \<open>The material of a row loads, and its leaf covers the host name of the row.\<close>

definition covered :: "(string \<Rightarrow> string \<Rightarrow> leaf option) \<Rightarrow> (string \<Rightarrow> string option) \<Rightarrow> cert \<Rightarrow> bool" where
  "covered pair dec r \<longleftrightarrow>
    (case decrypt_and_load pair dec r of None \<Rightarrow> False | Some l \<Rightarrow> leaf_matches (ld_leaf l) (ld_host l))"

definition row_ok :: "(string \<Rightarrow> string option) \<Rightarrow> (string \<Rightarrow> string \<Rightarrow> leaf option) \<Rightarrow> (string \<Rightarrow> string option) \<Rightarrow> cert \<Rightarrow> bool" where
  "row_ok to_ascii pair dec r \<longleftrightarrow>
    normalize_host to_ascii (ct_host r) = Returns (Inr (ct_host r)) \<and> ct_host r \<noteq> []
    \<and> covered pair dec r"

definition rows_ok :: "(string \<Rightarrow> string option) \<Rightarrow> (string \<Rightarrow> string \<Rightarrow> leaf option) \<Rightarrow> (string \<Rightarrow> string option) \<Rightarrow> cert list \<Rightarrow> bool" where
  "rows_ok to_ascii pair dec rows \<longleftrightarrow> distinct (map ct_id rows) \<and> distinct (map ct_host rows)
    \<and> (\<forall>r \<in> set rows. row_ok to_ascii pair dec r)"

text \<open>\<open>S\<close> holds the names whose row the database deleted by itself, with their domain, and that the cache may still have.\<close>

definition mirrors :: "(string \<Rightarrow> string \<Rightarrow> leaf option) \<Rightarrow> (string \<Rightarrow> string option) \<Rightarrow> string set \<Rightarrow> cert list \<Rightarrow> cert_cache \<Rightarrow> bool" where
  "mirrors pair dec S rows c \<longleftrightarrow>
    (\<forall>r \<in> set rows. \<forall>l. decrypt_and_load pair dec r = Some l \<longrightarrow> c (ct_host r) = Some l)
    \<and> (\<forall>h l. c h = Some l \<and> h \<notin> S \<longrightarrow> (\<exists>r \<in> set rows. ct_host r = h \<and> decrypt_and_load pair dec r = Some l))"

definition certs_ok :: "(string \<Rightarrow> string option) \<Rightarrow> (string \<Rightarrow> string \<Rightarrow> leaf option) \<Rightarrow> (string \<Rightarrow> string option) \<Rightarrow>
    string set \<Rightarrow> cert_service \<Rightarrow> bool" where
  "certs_ok to_ascii pair dec S st \<longleftrightarrow>
    rows_ok to_ascii pair dec (sc_rows st) \<and> mirrors pair dec S (sc_rows st) (sc_cache st)"

lemma mirrors_row: "mirrors pair dec S rows c \<Longrightarrow> r \<in> set rows \<Longrightarrow> decrypt_and_load pair dec r = Some l \<Longrightarrow> c (ct_host r) = Some l"
  by (simp add: mirrors_def)

lemma mirrors_cached:
  assumes "mirrors pair dec S rows c" "c h = Some l" "h \<notin> S"
  obtains r where "r \<in> set rows" "ct_host r = h" "decrypt_and_load pair dec r = Some l"
  using assms unfolding mirrors_def by blast

lemma load_cong:
  "ct_host a = ct_host b \<Longrightarrow> ct_pem a = ct_pem b \<Longrightarrow> ct_key a = ct_key b \<Longrightarrow>
    decrypt_and_load pair dec a = decrypt_and_load pair dec b"
  by (simp add: decrypt_and_load_def split: option.split)

lemma covered_cong:
  "ct_host a = ct_host b \<Longrightarrow> ct_pem a = ct_pem b \<Longrightarrow> ct_key a = ct_key b \<Longrightarrow>
    covered pair dec a = covered pair dec b"
  using load_cong [of a b pair dec] by (simp add: covered_def)

lemma covered_load: "covered pair dec r \<Longrightarrow> \<exists>l. decrypt_and_load pair dec r = Some l"
  by (simp add: covered_def split: option.splits)

lemma sync_domain_tls_frame [frame_simps]:
  "sc_rows (sync_domain_tls now d mode s st) = sc_rows st"
  "sc_cache (sync_domain_tls now d mode s st) = sc_cache st"
  by (simp_all add: sync_domain_tls_def split: option.split sum.split)

lemma rebind_frame [frame_simps]:
  "sc_rows (rebind now old d saved st) = sc_rows st"
  "sc_cache (rebind now old d saved st) = sc_cache st"
  by (simp_all add: rebind_def Let_def frame_simps)

lemma certs_ok_sync [simp]:
  "certs_ok to_ascii pair dec S (sync_domain_tls now d mode s st) \<longleftrightarrow> certs_ok to_ascii pair dec S st"
  "certs_ok to_ascii pair dec S (rebind now old d saved st) \<longleftrightarrow> certs_ok to_ascii pair dec S st"
  by (simp_all add: certs_ok_def frame_simps)

lemma certs_ok_frame:
  "sc_rows a = sc_rows b \<Longrightarrow> sc_cache a = sc_cache b \<Longrightarrow> certs_ok to_ascii pair dec S b \<Longrightarrow> certs_ok to_ascii pair dec S a"
  by (simp add: certs_ok_def)

lemma oldest_mem: "oldest t xs = Some x \<Longrightarrow> x \<in> set xs"
proof -
  have "foldl (\<lambda>a b. if t b < t a then b else a) y ys \<in> insert y (set ys)" for y ys
    by (induction ys arbitrary: y) auto
  then show "oldest t xs = Some x \<Longrightarrow> x \<in> set xs" by (cases xs) (auto simp: oldest_def)
qed

lemma oldest_None [simp]: "oldest t xs = None \<longleftrightarrow> xs = []"
  by (cases xs) (simp_all add: oldest_def)

lemma cert_by_host_Some: "cert_by_host rows h = Some r \<Longrightarrow> r \<in> set rows \<and> ct_host r = h"
  by (auto simp: cert_by_host_def dest: oldest_mem)

lemma cert_by_host_None: "cert_by_host rows h = None \<longleftrightarrow> h \<notin> ct_host ` set rows"
  by (auto simp: cert_by_host_def filter_empty_conv)

lemma cert_by_id_Some: "cert_by_id rows i = Some r \<Longrightarrow> r \<in> set rows \<and> ct_id r = i"
  by (auto simp: cert_by_id_def dest: find_Some_mem)

lemma same_id: "distinct (map ct_id rows) \<Longrightarrow> a \<in> set rows \<Longrightarrow> b \<in> set rows \<Longrightarrow> ct_id a = ct_id b \<Longrightarrow> a = b"
  by (simp add: distinct_map inj_on_def)

lemma same_host: "distinct (map ct_host rows) \<Longrightarrow> a \<in> set rows \<Longrightarrow> b \<in> set rows \<Longrightarrow> ct_host a = ct_host b \<Longrightarrow> a = b"
  by (simp add: distinct_map inj_on_def)

text \<open>Replacing the row of an identifier, keeping identifier and host name.\<close>

lemma edit_cert_map:
  assumes "distinct (map ct_id rows)" "old \<in> set rows" "ct_id (f old) = ct_id old" "ct_host (f old) = ct_host old"
  shows "map ct_id (edit_cert (ct_id old) f rows) = map ct_id rows"
    and "map ct_host (edit_cert (ct_id old) f rows) = map ct_host rows"
    and "set (edit_cert (ct_id old) f rows) = insert (f old) (set rows - {old})"
proof -
  have same: "(ct_id x = ct_id old) = (x = old)" if "x \<in> set rows" for x
    using same_id [OF assms(1) that assms(2)] by auto
  have upd: "edit_cert (ct_id old) f rows = map (\<lambda>r. if r = old then f old else r) rows"
    using same by (auto simp: edit_cert_def)
  show "map ct_id (edit_cert (ct_id old) f rows) = map ct_id rows"
    "map ct_host (edit_cert (ct_id old) f rows) = map ct_host rows"
    using assms(3,4) by (auto simp: upd)
  show "set (edit_cert (ct_id old) f rows) = insert (f old) (set rows - {old})"
    unfolding upd using assms(2) by (auto split: if_splits)
qed

lemma edit_rows_ok:
  assumes "rows_ok to_ascii pair dec rows" "old \<in> set rows" "ct_id (f old) = ct_id old" "ct_host (f old) = ct_host old"
    and "covered pair dec (f old)"
  shows "rows_ok to_ascii pair dec (edit_cert (ct_id old) f rows)"
  using assms edit_cert_map [of rows old f] by (auto simp: rows_ok_def row_ok_def)

lemma edit_mirrors:
  assumes "rows_ok to_ascii pair dec rows" "old \<in> set rows" "ct_id (f old) = ct_id old" "ct_host (f old) = ct_host old"
    and "mirrors pair dec S rows c" and "decrypt_and_load pair dec (f old) = Some l"
  shows "mirrors pair dec S (edit_cert (ct_id old) f rows) (c(ct_host old \<mapsto> l))"
proof -
  have rest: "ct_host r \<noteq> ct_host old" if "r \<in> set rows - {old}" for r
    using same_host [of rows r old] assms(1,2) that by (auto simp: rows_ok_def)
  have s: "set (edit_cert (ct_id old) f rows) = insert (f old) (set rows - {old})"
    using assms(1-4) edit_cert_map(3) by (simp add: rows_ok_def)
  show ?thesis
    using assms(4-6) rest unfolding mirrors_def s
    by (auto split: if_splits) (metis DiffI empty_iff insert_iff)
qed

lemma edit_mirrors_same:
  assumes "rows_ok to_ascii pair dec rows" "old \<in> set rows" "ct_id (f old) = ct_id old" "ct_host (f old) = ct_host old"
    and "mirrors pair dec S rows c" and "decrypt_and_load pair dec (f old) = decrypt_and_load pair dec old"
  shows "mirrors pair dec S (edit_cert (ct_id old) f rows) c"
proof -
  have s: "set (edit_cert (ct_id old) f rows) = insert (f old) (set rows - {old})"
    using assms(1-4) edit_cert_map(3) by (simp add: rows_ok_def)
  show ?thesis
    using assms(2,4,5,6) unfolding mirrors_def s by simp (metis DiffI empty_iff insert_iff)
qed

lemma normal_sn:
  "normalize_host to_ascii h = Returns (Inr h) \<Longrightarrow> normalize_sn to_ascii h = Returns h"
  by (simp add: normalize_sn_def)

lemma cache_set_normal:
  "normalize_host to_ascii h = Returns (Inr h) \<Longrightarrow> h \<noteq> [] \<Longrightarrow> cache_set to_ascii h l c = Returns (c(h \<mapsto> l))"
  by (simp add: cache_set_def normal_sn)

lemma reload_row:
  assumes "row_ok to_ascii pair dec r"
  obtains l where "decrypt_and_load pair dec r = Some l"
    "reload_into_cache to_ascii pair dec r st = Returns (True, st\<lparr>sc_cache := (sc_cache st)(ct_host r \<mapsto> l)\<rparr>)"
  using assms cache_set_normal [of to_ascii "ct_host r"] covered_load [of pair dec r]
  by (auto simp: row_ok_def reload_into_cache_def)

lemma replace_row:
  assumes "certs_ok to_ascii pair dec S st" and "old \<in> set (sc_rows st)"
    and "ct_id (f old) = ct_id old" and "ct_host (f old) = ct_host old" and "covered pair dec (f old)"
  shows "\<exists>st1. reload_into_cache to_ascii pair dec (f old) (st\<lparr>sc_rows := edit_cert (ct_id old) f (sc_rows st)\<rparr>)
      = Returns (True, st1) \<and> certs_ok to_ascii pair dec S st1"
proof -
  have ok: "rows_ok to_ascii pair dec (sc_rows st)" "mirrors pair dec S (sc_rows st) (sc_cache st)"
    using assms(1) by (simp_all add: certs_ok_def)
  have new: "row_ok to_ascii pair dec (f old)" using ok(1) assms(2,4,5) by (simp add: rows_ok_def row_ok_def)
  obtain l where l: "decrypt_and_load pair dec (f old) = Some l"
    "\<And>st. reload_into_cache to_ascii pair dec (f old) st = Returns (True, st\<lparr>sc_cache := (sc_cache st)(ct_host (f old) \<mapsto> l)\<rparr>)"
    using reload_row [OF new] by (metis option.inject)
  show ?thesis
    using edit_rows_ok [where f = f, OF ok(1) assms(2-5)] edit_mirrors [where f = f, OF ok(1) assms(2-4) ok(2) l(1)] assms(4)
    by (simp add: l(2) certs_ok_def)
qed

lemma keep_row:
  assumes "certs_ok to_ascii pair dec S st" and "old \<in> set (sc_rows st)"
    and "ct_id (f old) = ct_id old" and "ct_host (f old) = ct_host old"
    and "decrypt_and_load pair dec (f old) = decrypt_and_load pair dec old"
  shows "certs_ok to_ascii pair dec S (st\<lparr>sc_rows := edit_cert (ct_id old) f (sc_rows st)\<rparr>)"
proof -
  have ok: "rows_ok to_ascii pair dec (sc_rows st)" "mirrors pair dec S (sc_rows st) (sc_cache st)"
    using assms(1) by (simp_all add: certs_ok_def)
  have "covered pair dec (f old)" using ok(1) assms(2,4,5) by (simp add: rows_ok_def row_ok_def covered_def)
  then show ?thesis
    using edit_rows_ok [where f = f, OF ok(1) assms(2-4)] edit_mirrors_same [where f = f, OF ok(1) assms(2-4) ok(2) assms(5)]
    by (simp add: certs_ok_def)
qed

lemma update_content_frame [simp]:
  "ct_id (update_content now c r) = ct_id r" "ct_host (update_content now c r) = ct_host c"
  by (simp_all add: update_content_def)

lemma publish_ok:
  assumes "certs_ok to_ascii pair dec S st" and "row_ok to_ascii pair dec c"
  shows "\<exists>st' r. publish to_ascii pair dec fresh now mode c st = Returns (st', r) \<and> certs_ok to_ascii pair dec S st'"
proof (cases "cert_by_host (sc_rows st) (ct_host c)")
  case (Some old)
  note old = cert_by_host_Some [OF Some]
  have "covered pair dec (update_content now c old) = covered pair dec c"
    by (rule covered_cong) (simp_all add: update_content_def)
  then have "covered pair dec (update_content now c old)" using assms(2) by (simp add: row_ok_def)
  then obtain st1 where "reload_into_cache to_ascii pair dec (update_content now c old)
      (st\<lparr>sc_rows := edit_cert (ct_id old) (update_content now c) (sc_rows st)\<rparr>) = Returns (True, st1)"
    "certs_ok to_ascii pair dec S st1"
    using replace_row [OF assms(1), of old "update_content now c"] old by auto
  then show ?thesis
    by (auto simp: publish_def store_cert_def Some frame_simps intro: certs_ok_frame)
next
  case None
  show ?thesis
  proof (cases "list_ex (\<lambda>r. ct_id r = fresh) (sc_rows st)")
    case True
    then show ?thesis using assms(1) None by (simp add: publish_def store_cert_def)
  next
    case False
    let ?c = "create_cert fresh now c"
    have load: "covered pair dec ?c = covered pair dec c"
      by (rule covered_cong) (simp_all add: create_cert_def)
    have host: "ct_host ?c = ct_host c" "ct_id ?c = fresh" by (simp_all add: create_cert_def)
    have new: "row_ok to_ascii pair dec ?c" using assms(2) by (simp add: row_ok_def load host)
    obtain l where l: "decrypt_and_load pair dec ?c = Some l"
      "\<And>st. reload_into_cache to_ascii pair dec ?c st = Returns (True, st\<lparr>sc_cache := (sc_cache st)(ct_host ?c \<mapsto> l)\<rparr>)"
      using reload_row [OF new] by (metis option.inject)
    have fresh: "ct_host c \<notin> ct_host ` set (sc_rows st)" "fresh \<notin> ct_id ` set (sc_rows st)"
      using None False by (auto simp: cert_by_host_None list_ex_iff)
    have rows: "rows_ok to_ascii pair dec (sc_rows st @ [?c])"
      using assms(1) new fresh by (auto simp: certs_ok_def rows_ok_def host)
    have "mirrors pair dec S (sc_rows st @ [?c]) ((sc_cache st)(ct_host ?c \<mapsto> l))"
      using assms(1) l(1) fresh(1) by (auto simp: certs_ok_def mirrors_def host image_iff)
    with rows show ?thesis
      using False by (auto simp: publish_def store_cert_def None l(2) frame_simps certs_ok_def)
  qed
qed

lemma validated_pair:
  "validate_and_load pair keq now pem key host = Inr l \<Longrightarrow>
    pair pem key = Some l \<and> (host \<noteq> [] \<longrightarrow> leaf_matches l host)"
  by (auto simp: validate_and_load_def split: if_splits option.splits)

lemma validated_covered:
  assumes "validate_and_load pair keq now pem key (ct_host r) = Inr l" "enc key = Some (ct_key r)" "seals enc dec"
    and "ct_pem r = pem" "ct_host r \<noteq> []"
  shows "covered pair dec r"
  using validated_pair [OF assms(1)] assms(2-5) by (simp add: covered_def decrypt_and_load_def seals_def)

text \<open>The parts every operation is proved from: what is left when the call has returned.\<close>

definition keeps :: "(cert_service \<Rightarrow> bool) \<Rightarrow> (cert_service \<times> 'a) outcome \<Rightarrow> bool" where
  "keeps P out \<longleftrightarrow> (case out of Panics \<Rightarrow> True | Returns (st, _) \<Rightarrow> P st)"

lemma keeps_simps [simp]:
  "keeps P Panics" "keeps P (Returns (st, r)) \<longleftrightarrow> P st"
  by (simp_all add: keeps_def)

lemma upload_ok:
  assumes "idempotent to_ascii" "seals enc dec" "certs_ok to_ascii pair dec S st"
  shows "keeps (certs_ok to_ascii pair dec S) (upload to_ascii pair keq enc dec fresh now inp st)"
proof (cases "normalize_host to_ascii (ul_host inp)")
  case (Returns x)
  show ?thesis
  proof (cases x)
    case (Inr host)
    have n: "normalize_host to_ascii host = Returns (Inr host)" "host \<noteq> []"
      using normalize_host_again [of to_ascii "ul_host inp" host] assms(1) Returns Inr by (auto simp: idempotent_def)
    have pub: "keeps (certs_ok to_ascii pair dec S) (publish to_ascii pair dec fresh now mode c st)"
      if "row_ok to_ascii pair dec c" for mode c
      using publish_ok [OF assms(3) that, of fresh now mode] by auto
    have row: "row_ok to_ascii pair dec (c\<lparr>ct_host := host, ct_pem := ul_pem inp, ct_key := ek,
         ct_issuer := a, ct_serial := b, ct_issued := t, ct_expires := u\<rparr>)"
      if "validate_and_load pair keq now (ul_pem inp) (ul_key inp) host = Inr l" "enc (ul_key inp) = Some ek"
      for c a b t u l ek
      unfolding row_ok_def using n that assms(2) by (auto intro!: validated_covered [where enc = enc])
    show ?thesis
      using assms(3) by (auto simp: upload_def Returns Inr split: sum.split option.split intro!: pub row)
  qed (use assms in \<open>simp add: upload_def Returns\<close>)
qed (simp add: upload_def)

lemma update_cert_ok:
  assumes "seals enc dec" "certs_ok to_ascii pair dec S st"
  shows "keeps (certs_ok to_ascii pair dec S) (update_cert to_ascii pair keq enc dec now i inp st)"
proof (cases "cert_by_id (sc_rows st) i")
  case (Some old)
  have old: "old \<in> set (sc_rows st)" "ct_id old = i" using cert_by_id_Some [OF Some] by simp_all
  have bind: "certs_ok to_ascii pair dec S (rebind now old d saved
      (st\<lparr>sc_rows := edit_cert i (update_domain_id now d) (sc_rows st)\<rparr>))" for d saved
  proof -
    have "decrypt_and_load pair dec (update_domain_id now d old) = decrypt_and_load pair dec old"
      by (rule load_cong) (simp_all add: update_domain_id_def)
    then have "certs_ok to_ascii pair dec S (st\<lparr>sc_rows := edit_cert i (update_domain_id now d) (sc_rows st)\<rparr>)"
      using keep_row [OF assms(2) old(1), of "update_domain_id now d"] old(2) by (simp add: update_domain_id_def)
    then show ?thesis by simp
  qed
  have swap: "\<exists>st1. reload_into_cache to_ascii pair dec (update_content now c old)
        (st\<lparr>sc_rows := edit_cert i (update_content now c) (sc_rows st)\<rparr>) = Returns (True, st1)
      \<and> certs_ok to_ascii pair dec S (rebind now old d (update_content now c old) st1)"
    if "ct_host c = ct_host old" "covered pair dec c" for c d
  proof -
    note c = that
    have "covered pair dec (update_content now c old) = covered pair dec c"
      by (rule covered_cong) (simp_all add: update_content_def)
    then obtain st1 where "reload_into_cache to_ascii pair dec (update_content now c old)
        (st\<lparr>sc_rows := edit_cert (ct_id old) (update_content now c) (sc_rows st)\<rparr>) = Returns (True, st1)"
      "certs_ok to_ascii pair dec S st1"
      using replace_row [OF assms(2) old(1), of "update_content now c"] c by auto
    then show ?thesis using old(2) by simp
  qed
  have host: "ct_host old \<noteq> []" using assms(2) old(1) by (simp add: certs_ok_def rows_ok_def row_ok_def)
  show ?thesis
  proof (cases "edit_binding st old inp")
    case (Inr d)
    show ?thesis
    proof (cases "validate_and_load pair keq now (deref (ce_pem inp)) (deref (ce_key inp)) (ct_host old)")
      case (Inl e)
      then show ?thesis using assms(2) bind by (simp add: update_cert_def Some Inr Let_def)
    next
      case valid: (Inr l)
      show ?thesis
      proof (cases "enc (deref (ce_key inp))")
        case None
        then show ?thesis using assms(2) bind by (simp add: update_cert_def Some Inr valid Let_def)
      next
        case key: (Some ek)
        let ?c = "blank_cert\<lparr>ct_domain := d, ct_host := ct_host old, ct_pem := deref (ce_pem inp), ct_key := ek,
           ct_issuer := lf_issuer l, ct_serial := lf_serial l,
           ct_issued := Some (lf_not_before l), ct_expires := Some (lf_not_after l)\<rparr>"
        obtain st1 where "reload_into_cache to_ascii pair dec (update_content now ?c old)
            (st\<lparr>sc_rows := edit_cert i (update_content now ?c) (sc_rows st)\<rparr>) = Returns (True, st1)"
          "certs_ok to_ascii pair dec S (rebind now old d (update_content now ?c old) st1)"
          using swap [of ?c d] validated_covered [of pair keq now _ _ ?c l enc dec] valid key host assms(1) by auto
        then show ?thesis using assms(2) bind by (simp add: update_cert_def Some Inr valid key Let_def)
      qed
    qed
  qed (use assms in \<open>simp add: update_cert_def Some\<close>)
qed (use assms in \<open>simp add: update_cert_def\<close>)

lemma delete_cert_ok:
  assumes "certs_ok to_ascii pair dec S st"
  shows "keeps (certs_ok to_ascii pair dec S) (delete_cert to_ascii now i ca st)"
proof (cases "cert_by_id (sc_rows st) i")
  case (Some r)
  have r: "r \<in> set (sc_rows st)" "ct_id r = i" using cert_by_id_Some [OF Some] by simp_all
  have ok: "rows_ok to_ascii pair dec (sc_rows st)" "mirrors pair dec S (sc_rows st) (sc_cache st)"
    using assms by (simp_all add: certs_ok_def)
  have "row_ok to_ascii pair dec r" using ok(1) r(1) by (simp add: rows_ok_def)
  then have del: "cache_delete to_ascii (ct_host r) (sc_cache st) = Returns ((sc_cache st)(ct_host r := None))"
    by (simp add: cache_delete_def row_ok_def normal_sn)
  have left: "x \<in> set (sc_rows st) \<and> ct_id x \<noteq> i \<longleftrightarrow> x \<in> set (sc_rows st) \<and> ct_host x \<noteq> ct_host r" for x
    using ok(1) r same_id [of "sc_rows st" x r] same_host [of "sc_rows st" x r] by (auto simp: rows_ok_def)
  have "rows_ok to_ascii pair dec (delete_cert_row i (sc_rows st))"
    using ok(1) by (auto simp: rows_ok_def delete_cert_row_def distinct_map_filter)
  moreover have "mirrors pair dec S (delete_cert_row i (sc_rows st)) ((sc_cache st)(ct_host r := None))"
    unfolding mirrors_def delete_cert_row_def
  proof (intro conjI ballI allI impI)
    fix x l assume "x \<in> set (filter (\<lambda>r. ct_id r \<noteq> i) (sc_rows st))" "decrypt_and_load pair dec x = Some l"
    then show "((sc_cache st)(ct_host r := None)) (ct_host x) = Some l"
      using ok(2) left [of x] by (auto simp: mirrors_def)
  next
    fix h l assume h: "((sc_cache st)(ct_host r := None)) h = Some l \<and> h \<notin> S"
    then obtain x where "x \<in> set (sc_rows st)" "ct_host x = h" "decrypt_and_load pair dec x = Some l"
      using mirrors_cached [OF ok(2), of h l] by (auto split: if_splits)
    then show "\<exists>x \<in> set (filter (\<lambda>r. ct_id r \<noteq> i) (sc_rows st)). ct_host x = h \<and> decrypt_and_load pair dec x = Some l"
      using h left [of x] by (auto split: if_splits)
  qed
  ultimately have "certs_ok to_ascii pair dec S
      (st\<lparr>sc_rows := delete_cert_row i (sc_rows st), sc_cache := (sc_cache st)(ct_host r := None)\<rparr>)"
    by (simp add: certs_ok_def)
  then show ?thesis
    by (simp add: delete_cert_def Some del Let_def split: option.split)
qed (use assms in \<open>simp add: delete_cert_def\<close>)

lemma mirror_again:
  assumes "rows_ok to_ascii pair dec rows" "r \<in> set rows" "mirrors pair dec S rows c" "decrypt_and_load pair dec r = Some l"
  shows "c(ct_host r \<mapsto> l) = c"
proof -
  have "c (ct_host r) = Some l" using assms(2-4) by (auto simp: mirrors_def)
  then show ?thesis by (rule map_upd_triv)
qed

lemma reload_cert_ok:
  assumes "certs_ok to_ascii pair dec S st"
  shows "keeps (certs_ok to_ascii pair dec S) (reload_cert to_ascii pair dec i st)"
proof (cases "cert_by_id (sc_rows st) i")
  case (Some r)
  have r: "r \<in> set (sc_rows st)" using cert_by_id_Some [OF Some] by simp
  have "row_ok to_ascii pair dec r" using assms r by (simp add: certs_ok_def rows_ok_def)
  then obtain l where "decrypt_and_load pair dec r = Some l"
    "reload_into_cache to_ascii pair dec r st = Returns (True, st\<lparr>sc_cache := (sc_cache st)(ct_host r \<mapsto> l)\<rparr>)"
    using reload_row by metis
  then show ?thesis
    using mirror_again [of to_ascii pair dec "sc_rows st" r S "sc_cache st" l] assms r
    by (simp add: reload_cert_def Some certs_ok_def)
qed (use assms in \<open>simp add: reload_cert_def\<close>)

lemma reload_fold:
  assumes "distinct (map ct_host rows)"
  shows "fold (\<lambda>r m. case decrypt_and_load pair dec r of None \<Rightarrow> m | Some l \<Rightarrow> m(ct_host r \<mapsto> l)) rows m h = Some l \<longleftrightarrow>
    (\<exists>r \<in> set rows. ct_host r = h \<and> decrypt_and_load pair dec r = Some l)
    \<or> m h = Some l \<and> (\<forall>r \<in> set rows. ct_host r = h \<longrightarrow> decrypt_and_load pair dec r = None)"
  using assms
proof (induction rows arbitrary: m)
  case (Cons r rows)
  then have "distinct (map ct_host rows)" "ct_host r \<notin> ct_host ` set rows" by simp_all
  with Cons.IH show ?case by (cases "decrypt_and_load pair dec r") (auto simp: image_iff)
qed simp

text \<open>A full reload builds the cache from the rows, whatever it held before.\<close>

lemma reload_all_mirrors:
  assumes "distinct (map ct_host (sc_rows st))"
  shows "mirrors pair dec S (sc_rows st) (sc_cache (reload_all pair dec st))"
  using assms by (auto simp: mirrors_def reload_all_def reload_fold)

lemma reload_all_ok:
  assumes "rows_ok to_ascii pair dec (sc_rows st)"
  shows "certs_ok to_ascii pair dec S (reload_all pair dec st)"
  using assms reload_all_mirrors [of st pair dec S] by (simp add: certs_ok_def rows_ok_def reload_all_def)

lemma scan_one_load [simp]: "decrypt_and_load pair dec (scan_one now r) = decrypt_and_load pair dec r"
  by (rule load_cong) (simp_all add: scan_one_def update_status_def split: option.split)

lemma scan_one_frame [simp]: "ct_id (scan_one now r) = ct_id r" "ct_host (scan_one now r) = ct_host r"
  by (simp_all add: scan_one_def update_status_def split: option.split)

text \<open>Editing what does not matter to the cache: identifier, host name and material stay.\<close>

lemma edit_other:
  assumes "certs_ok to_ascii pair dec S st"
    and f: "\<And>r. ct_id (f r) = ct_id r" "\<And>r. ct_host (f r) = ct_host r"
      "\<And>r. decrypt_and_load pair dec (f r) = decrypt_and_load pair dec r"
  shows "certs_ok to_ascii pair dec S (st\<lparr>sc_rows := edit_cert i f (sc_rows st)\<rparr>)"
proof -
  define g where "g = (\<lambda>r. if ct_id r = i then f r else r)"
  have g: "ct_id (g r) = ct_id r" "ct_host (g r) = ct_host r"
    "decrypt_and_load pair dec (g r) = decrypt_and_load pair dec r" for r
    by (simp_all add: g_def f)
  have e: "edit_cert i f (sc_rows st) = map g (sc_rows st)" by (simp add: edit_cert_def g_def)
  have m: "map ct_id (map g xs) = map ct_id xs" "map ct_host (map g xs) = map ct_host xs" for xs
    using g by (induction xs) auto
  show ?thesis
    using assms(1) m by (auto simp: certs_ok_def rows_ok_def row_ok_def covered_def mirrors_def e g simp del: map_map)
qed

lemma scan_fold:
  "certs_ok to_ascii pair dec S st \<Longrightarrow>
    certs_ok to_ascii pair dec S (st\<lparr>sc_rows := fold (\<lambda>r. edit_cert (ct_id r) (scan_one now)) due (sc_rows st)\<rparr>)"
proof (induction due arbitrary: st)
  case (Cons d due)
  have "certs_ok to_ascii pair dec S (st\<lparr>sc_rows := edit_cert (ct_id d) (scan_one now) (sc_rows st)\<rparr>)"
    using edit_other [OF Cons.prems, of "scan_one now" "ct_id d"] by simp
  from Cons.IH [OF this] show ?case by simp
qed simp

lemma scan_expiring_ok:
  "certs_ok to_ascii pair dec S st \<Longrightarrow> certs_ok to_ascii pair dec S (fst (scan_expiring now warn st))"
  by (simp add: scan_expiring_def Let_def scan_fold)

lemma domains_changed_ok:
  assumes "certs_ok to_ascii pair dec S st"
  shows "certs_ok to_ascii pair dec (S \<union> lost_names ds st) (domains_changed ds st)"
proof -
  have m: "mirrors pair dec S (sc_rows st) (sc_cache st)" and ok: "rows_ok to_ascii pair dec (sc_rows st)"
    using assms by (simp_all add: certs_ok_def)
  have "rows_ok to_ascii pair dec (filter (bound_to ds) (sc_rows st))"
    using ok by (auto simp: rows_ok_def distinct_map_filter)
  moreover have "mirrors pair dec (S \<union> lost_names ds st) (filter (bound_to ds) (sc_rows st)) (sc_cache st)"
    unfolding mirrors_def
  proof (intro conjI ballI allI impI)
    fix x l assume "x \<in> set (filter (bound_to ds) (sc_rows st))" "decrypt_and_load pair dec x = Some l"
    then show "sc_cache st (ct_host x) = Some l" using mirrors_row [OF m] by simp
  next
    fix h l assume h: "sc_cache st h = Some l \<and> h \<notin> S \<union> lost_names ds st"
    then obtain x where "x \<in> set (sc_rows st)" "ct_host x = h" "decrypt_and_load pair dec x = Some l"
      using mirrors_cached [OF m, of h l] by auto
    then show "\<exists>x \<in> set (filter (bound_to ds) (sc_rows st)). ct_host x = h \<and> decrypt_and_load pair dec x = Some l"
      using h by (intro bexI [of _ x]) (auto simp: lost_names_def image_iff)
  qed
  ultimately show ?thesis by (simp add: certs_ok_def domains_changed_def)
qed

text \<open>A handshake under the invariant: the certificate of the row, or what the getter does without one.\<close>

lemma served:
  assumes "idempotent to_ascii" "certs_ok to_ascii pair dec S st" "normalize_host to_ascii sni = Returns (Inr n)"
  shows "case cert_by_host (sc_rows st) n of
      Some r \<Rightarrow> \<exists>l. decrypt_and_load pair dec r = Some l \<and> leaf_matches (ld_leaf l) n
        \<and> get_certificate to_ascii (sc_cache st) sni g = Returns (g\<lparr>gt_hits := gt_hits g + 1\<rparr>, Use_certificate l)
    | None \<Rightarrow> n \<notin> S \<longrightarrow> get_certificate to_ascii (sc_cache st) sni g =
        Returns (g\<lparr>gt_misses := gt_misses g + 1\<rparr>, if gt_fallback g then Use_default else Unknown_sni)"
proof -
  have n: "normalize_host to_ascii n = Returns (Inr n)" "n \<noteq> []"
    using normalize_host_again [of to_ascii sni n] assms(1,3) by (auto simp: idempotent_def)
  have sn: "normalize_sn to_ascii sni = Returns n" "cache_get to_ascii (sc_cache st) n = Returns (sc_cache st n)"
    using assms(3) n by (simp_all add: normalize_sn_def cache_get_def)
  show ?thesis
  proof (cases "cert_by_host (sc_rows st) n")
    case None
    then have "n \<notin> S \<Longrightarrow> sc_cache st n = None"
      using assms(2) by (auto simp: certs_ok_def mirrors_def cert_by_host_None image_iff) (metis option.exhaust)
    then show ?thesis using n(2) by (simp add: get_certificate_def sn None)
  next
    case (Some r)
    have r: "r \<in> set (sc_rows st)" "ct_host r = n" using cert_by_host_Some [OF Some] by simp_all
    have "covered pair dec r" using assms(2) r(1) by (simp add: certs_ok_def rows_ok_def row_ok_def)
    then obtain l where l: "decrypt_and_load pair dec r = Some l" "leaf_matches (ld_leaf l) (ld_host l)"
      by (auto simp: covered_def split: option.splits)
    have "ld_host l = n" using l(1) r(2) by (auto simp: decrypt_and_load_def split: option.splits)
    moreover have "sc_cache st n = Some l" using assms(2) r l(1) by (auto simp: certs_ok_def mirrors_def)
    ultimately show ?thesis using n(2) l by (simp add: get_certificate_def sn Some)
  qed
qed

text \<open>A row that was marked as expiring is not looked at again, so it never becomes expired.\<close>

lemma scan_one_expiring:
  assumes "ct_status r = Cert_expiring"
  shows "r \<in> set rows \<Longrightarrow> distinct (map ct_id rows) \<Longrightarrow>
    r \<in> set (fold (\<lambda>d. edit_cert (ct_id d) (scan_one now)) (active_by_expiry_before t rows) rows)"
proof -
  assume r: "r \<in> set rows" "distinct (map ct_id rows)"
  have keep: "r \<in> set xs \<Longrightarrow> ct_id r \<notin> ct_id ` set due \<Longrightarrow>
      r \<in> set (fold (\<lambda>d. edit_cert (ct_id d) (scan_one now)) due xs)" for due xs
    by (induction due arbitrary: xs) (auto simp: edit_cert_def image_iff)
  have "ct_id r \<notin> ct_id ` set (active_by_expiry_before t rows)"
    using r assms same_id [OF r(2)] by (force simp: active_by_expiry_before_def)
  with keep r(1) show "r \<in> set (fold (\<lambda>d. edit_cert (ct_id d) (scan_one now)) (active_by_expiry_before t rows) rows)"
    by blast
qed

lemma an_expiring_certificate_never_expires:
  assumes "r \<in> set (sc_rows st)" and "ct_status r = Cert_expiring" and "distinct (map ct_id (sc_rows st))"
  shows "r \<in> set (sc_rows (fst (scan_expiring now warn st)))"
  using scan_one_expiring [OF assms(2,1,3)] by (simp add: scan_expiring_def Let_def)

end
