(* ===== verification/Cert_Issuance.thy ===== *)
theory Cert_Issuance
  imports Certificates "HOL-Library.Sublist"
begin

text \<open>
  Issuing and renewing certificates: \<open>certificate/renew.go\<close>, \<open>issue.go\<close>, \<open>issue_async.go\<close>,
  \<open>operation_repository.go\<close>, \<open>operations.go\<close> and the renewal queries of \<open>repository.go\<close>. What a
  provider answers (the ACME exchange) is an argument of the steps; the texts for people are in English.
\<close>

section \<open>operation_repository.go\<close>

datatype op_status =
    Op_queued | Op_account_ready | Op_order_created | Op_challenge_presented
  | Op_challenge_validated | Op_finalizing | Op_active | Op_failed

definition terminal :: "op_status \<Rightarrow> bool" where
  "terminal s \<longleftrightarrow> s = Op_active \<or> s = Op_failed"

record cert_op =
  co_id :: uuid
  co_host :: string
  co_domain :: "uuid option"
  co_action :: string
  co_status :: op_status
  co_message :: string
  co_error :: string
  co_started :: go_time
  co_updated :: go_time
  co_finished :: "go_time option"

text \<open>The partial unique index of migration 0017: one operation in progress for a host name. A
statement that would break it is refused.\<close>

definition one_in_progress :: "cert_op list \<Rightarrow> bool" where
  "one_in_progress ops \<longleftrightarrow> distinct (map co_host (filter (\<lambda>o'. \<not> terminal (co_status o')) ops))"

definition create_op :: "uuid \<Rightarrow> go_time \<Rightarrow> string \<Rightarrow> uuid option \<Rightarrow> cert_op list \<Rightarrow> (cert_op \<times> cert_op list) option" where
  "create_op fresh now host d ops =
    (let new = \<lparr>co_id = fresh, co_host = host, co_domain = d, co_action = ''issue'', co_status = Op_queued,
                co_message = ''accepted'', co_error = [], co_started = now, co_updated = now, co_finished = None\<rparr>
     in if fresh \<in> co_id ` set ops \<or> \<not> one_in_progress (ops @ [new]) then None else Some (new, ops @ [new]))"

definition op_by_id :: "cert_op list \<Rightarrow> uuid \<Rightarrow> cert_op option" where
  "op_by_id ops i = find (\<lambda>r. co_id r = i) ops"

definition edit_op :: "uuid \<Rightarrow> (cert_op \<Rightarrow> cert_op) \<Rightarrow> cert_op list \<Rightarrow> cert_op list" where
  "edit_op i f ops = map (\<lambda>r. if co_id r = i then f r else r) ops"

definition update_step :: "go_time \<Rightarrow> uuid \<Rightarrow> op_status \<Rightarrow> string \<Rightarrow> cert_op list \<Rightarrow> cert_op list option" where
  "update_step now i s msg ops =
    (let ops' = edit_op i (\<lambda>r. r\<lparr>co_status := s, co_message := msg, co_updated := now\<rparr>) ops
     in if op_by_id ops i = None \<or> \<not> one_in_progress ops' then None else Some ops')"

definition finish_op :: "go_time \<Rightarrow> uuid \<Rightarrow> op_status \<Rightarrow> string \<Rightarrow> string \<Rightarrow> cert_op list \<Rightarrow> cert_op list option" where
  "finish_op now i s msg err ops =
    (let ops' = edit_op i (\<lambda>r. r\<lparr>co_status := s, co_message := msg, co_updated := now, co_finished := Some now,
                  co_error := (if err \<noteq> [] then err else co_error r)\<rparr>) ops
     in if op_by_id ops i = None \<or> \<not> one_in_progress ops' then None else Some ops')"

definition active_by_host :: "cert_op list \<Rightarrow> string \<Rightarrow> cert_op option" where
  "active_by_host ops h = oldest co_updated (filter (\<lambda>r. co_host r = h \<and> \<not> terminal (co_status r)) ops)"

text \<open>\<open>LatestByHostname\<close>: the order is ascending, so the first row is the oldest operation.\<close>

definition latest_by_host :: "cert_op list \<Rightarrow> string \<Rightarrow> cert_op option" where
  "latest_by_host ops h = oldest co_updated (filter (\<lambda>r. co_host r = h) ops)"

definition expire_stale :: "go_time \<Rightarrow> int \<Rightarrow> cert_op list \<Rightarrow> cert_op list \<times> nat" where
  "expire_stale now older ops =
    (let stale = (\<lambda>r. \<not> terminal (co_status r) \<and> co_updated r < now - older) in
     (map (\<lambda>r. if stale r then r\<lparr>co_status := Op_failed, co_error := ''timed out'', co_updated := now,
                                 co_finished := Some now\<rparr> else r) ops,
      length (filter stale ops)))"

definition latest_operation :: "cert_op list \<Rightarrow> string \<Rightarrow> cert_op option" where
  "latest_operation ops h = (case active_by_host ops h of Some r \<Rightarrow> Some r | None \<Rightarrow> latest_by_host ops h)"

definition operation_by_domain :: "domain list option \<Rightarrow> cert_op list \<Rightarrow> uuid \<Rightarrow> cert_op option" where
  "operation_by_domain ds ops i =
    (case ds of
       None \<Rightarrow> None
     | Some xs \<Rightarrow> (case domain_by_id xs i of None \<Rightarrow> None | Some d \<Rightarrow> latest_operation ops (dom_host d)))"

section \<open>Renewal rows of repository.go\<close>

definition due_for_renewal :: "go_time \<Rightarrow> cert list \<Rightarrow> cert list" where
  "due_for_renewal deadline rows =
    sort_key (\<lambda>r. case ct_expires r of None \<Rightarrow> 0 | Some t \<Rightarrow> t)
      (filter (\<lambda>r. ct_source r = Acme
         \<and> (case ct_expires r of None \<Rightarrow> False | Some t \<Rightarrow> t < deadline)
         \<and> (ct_status r = Cert_active \<or> ct_status r = Cert_pending \<or> ct_status r = Cert_expiring)) rows)"

definition renew_success :: "go_time \<Rightarrow> cert \<Rightarrow> cert \<Rightarrow> cert" where
  "renew_success now c r =
    r\<lparr>ct_pem := ct_pem c, ct_key := ct_key c, ct_source := ct_source c, ct_status := Cert_active,
      ct_last_renewed := Some now, ct_attempts := 0, ct_renew_error := [], ct_updated := now,
      ct_issuer := kept_text (ct_issuer c) (ct_issuer r), ct_serial := kept_text (ct_serial c) (ct_serial r),
      ct_issued := kept (ct_issued c) (ct_issued r), ct_expires := kept (ct_expires c) (ct_expires r),
      ct_meta := kept (ct_meta c) (ct_meta r), ct_next_renew := kept (ct_next_renew c) (ct_next_renew r)\<rparr>"

definition renew_failure :: "go_time \<Rightarrow> int \<Rightarrow> go_time \<Rightarrow> string \<Rightarrow> cert \<Rightarrow> cert" where
  "renew_failure now attempts at msg r =
    r\<lparr>ct_attempts := attempts, ct_renew_error := msg, ct_error := msg, ct_updated := now,
      ct_next_renew := Some at\<rparr>"

section \<open>renew.go\<close>

record renew_config =
  rn_before :: int
  rn_max :: int
  rn_rate :: int
  rn_base :: int

definition hours :: "int \<Rightarrow> int" where
  "hours n = n * 3600 * second"

definition default_renew_config :: renew_config where
  "default_renew_config = \<lparr>rn_before = hours 720, rn_max = 5, rn_rate = hours 6, rn_base = hours 1\<rparr>"

text \<open>The loop doubles at most as often as attempts failed before, and stops at a day.\<close>

fun doubled :: "nat \<Rightarrow> int \<Rightarrow> int" where
  "doubled 0 d = d"
| "doubled (Suc n) d = (if d \<ge> hours 24 then d else doubled n (d * 2))"

definition backoff_duration :: "renew_config \<Rightarrow> int \<Rightarrow> bool \<Rightarrow> int" where
  "backoff_duration cfg attempts rate_limited =
    (let base = (if rn_base cfg \<le> 0 then hours 1 else rn_base cfg);
         d = doubled (nat (attempts - 1)) base;
         d1 = (if d > hours 24 then hours 24 else d)
     in if rate_limited \<and> rn_rate cfg > d1 then rn_rate cfg else d1)"

record issued =
  is_pem :: string
  is_key :: string
  is_not_after :: go_time
  is_issuer :: string
  is_serial :: string
  is_meta :: "(string \<times> string) list option"

datatype acme_class = Rate_limited | Account_invalid | Challenge_failed | Transient | Unclassified

datatype answer = Got issued | Unsupported | Refused acme_class string

text \<open>\<open>ProviderRegistry.For\<close> followed by \<open>Issue\<close> or \<open>Renew\<close>: the manual source refuses both, ACME (None
when it is not registered, else whether it is enabled) answers \<open>ans\<close>.\<close>

definition provider_answer :: "bool option \<Rightarrow> cert_source \<Rightarrow> answer \<Rightarrow> answer option" where
  "provider_answer acme src ans =
    (case src of
       Manual \<Rightarrow> Some Unsupported
     | Acme \<Rightarrow> (case acme of
                  None \<Rightarrow> None
                | Some on \<Rightarrow> Some (if on then ans else Refused Unclassified ''ACME is not enabled''))
     | _ \<Rightarrow> None)"

datatype renew_error = Renew_no_source | Renew_unsupported | Renew_refused acme_class string
  | Renew_material material_error | Renew_encrypt | Renew_gone

fun renew_error_text :: "renew_error \<Rightarrow> string" where
  "renew_error_text (Renew_refused c msg) = msg"
| "renew_error_text (Renew_material e) = ''material''"
| "renew_error_text e = ''encrypt''"

definition rate_limited :: "renew_error \<Rightarrow> bool" where
  "rate_limited e = (case e of Renew_refused c _ \<Rightarrow> c = Rate_limited | _ \<Rightarrow> False)"

definition on_renew_failure :: "go_time \<Rightarrow> renew_config \<Rightarrow> cert \<Rightarrow> renew_error \<Rightarrow> cert_service \<Rightarrow> cert_service" where
  "on_renew_failure now cfg rec e st =
    (let attempts = ct_attempts rec + 1;
         at = now + backoff_duration cfg attempts (rate_limited e);
         msg = renew_error_text e @ (if 0 < rn_max cfg \<and> rn_max cfg \<le> attempts then '' (limit reached)'' else [])
     in st\<lparr>sc_rows := edit_cert (ct_id rec) (renew_failure now attempts at msg) (sc_rows st)\<rparr>)"

definition renew_one :: "(string \<Rightarrow> string option) \<Rightarrow> (string \<Rightarrow> string \<Rightarrow> leaf option) \<Rightarrow> (string \<Rightarrow> string \<Rightarrow> bool) \<Rightarrow>
    (string \<Rightarrow> string option) \<Rightarrow> (string \<Rightarrow> string option) \<Rightarrow> bool option \<Rightarrow> go_time \<Rightarrow> renew_config \<Rightarrow>
    cert \<Rightarrow> answer \<Rightarrow> cert_service \<Rightarrow> (cert_service \<times> renew_error option) outcome" where
  "renew_one to_ascii pair keq enc dec acme now cfg rec ans st =
    (case provider_answer acme (ct_source rec) ans of
       None \<Rightarrow> Returns (st, Some Renew_no_source)
     | Some Unsupported \<Rightarrow> Returns (st, Some Renew_unsupported)
     | Some (Refused c msg) \<Rightarrow> Returns (on_renew_failure now cfg rec (Renew_refused c msg) st, Some (Renew_refused c msg))
     | Some (Got new) \<Rightarrow>
         (case validate_and_load pair keq now (is_pem new) (is_key new) (ct_host rec) of
            Inl e \<Rightarrow> Returns (on_renew_failure now cfg rec (Renew_material e) st, Some (Renew_material e))
          | Inr l \<Rightarrow>
              (case enc (is_key new) of
                 None \<Rightarrow> Returns (on_renew_failure now cfg rec Renew_encrypt st, Some Renew_encrypt)
               | Some ek \<Rightarrow>
                   (case cert_by_id (sc_rows st) (ct_id rec) of
                      None \<Rightarrow> Returns (st, Some Renew_gone)
                    | Some row \<Rightarrow>
                        (let c = blank_cert\<lparr>ct_source := ct_source rec, ct_pem := is_pem new, ct_key := ek,
                               ct_issuer := is_issuer new, ct_serial := is_serial new,
                               ct_issued := Some (lf_not_before l), ct_expires := Some (is_not_after new),
                               ct_meta := is_meta new, ct_next_renew := Some (is_not_after new - rn_before cfg)\<rparr>;
                             saved = renew_success now c row
                         in (case reload_into_cache to_ascii pair dec saved
                               (st\<lparr>sc_rows := edit_cert (ct_id rec) (renew_success now c) (sc_rows st)\<rparr>) of
                               Panics \<Rightarrow> Panics
                             | Returns (_, st1) \<Rightarrow>
                                 Returns (sync_domain_tls now (ct_domain rec) ''managed'' (status_text Cert_active) st1,
                                   None)))))))"

fun renew_each :: "(cert \<Rightarrow> cert_service \<Rightarrow> (cert_service \<times> renew_error option) outcome) \<Rightarrow>
    cert list \<Rightarrow> cert_service \<Rightarrow> (cert_service \<times> nat) outcome" where
  "renew_each renew [] st = Returns (st, 0)"
| "renew_each renew (r # rs) st =
    (case renew r st of
       Panics \<Rightarrow> Panics
     | Returns (st1, e) \<Rightarrow>
         (case renew_each renew rs st1 of
            Panics \<Rightarrow> Panics
          | Returns (st2, n) \<Rightarrow> Returns (st2, if e = None then Suc n else n)))"

definition renew_once :: "(string \<Rightarrow> string option) \<Rightarrow> (string \<Rightarrow> string \<Rightarrow> leaf option) \<Rightarrow> (string \<Rightarrow> string \<Rightarrow> bool) \<Rightarrow>
    (string \<Rightarrow> string option) \<Rightarrow> (string \<Rightarrow> string option) \<Rightarrow> bool option \<Rightarrow> go_time \<Rightarrow> renew_config \<Rightarrow> bool \<Rightarrow>
    (cert \<Rightarrow> answer) \<Rightarrow> cert_service \<Rightarrow> (cert_service \<times> nat) outcome" where
  "renew_once to_ascii pair keq enc dec acme now cfg can_run ans st =
    (if \<not> can_run then Returns (st, 0)
     else renew_each (\<lambda>r. renew_one to_ascii pair keq enc dec acme now cfg r (ans r))
       (due_for_renewal (now + rn_before cfg) (sc_rows st)) st)"

text \<open>A tick of \<open>RenewLoop\<close>: nothing is scanned while ACME is off.\<close>

definition renew_tick :: "(string \<Rightarrow> string option) \<Rightarrow> (string \<Rightarrow> string \<Rightarrow> leaf option) \<Rightarrow> (string \<Rightarrow> string \<Rightarrow> bool) \<Rightarrow>
    (string \<Rightarrow> string option) \<Rightarrow> (string \<Rightarrow> string option) \<Rightarrow> bool option \<Rightarrow> go_time \<Rightarrow> renew_config \<Rightarrow> bool \<Rightarrow>
    (cert \<Rightarrow> answer) \<Rightarrow> cert_service \<Rightarrow> (cert_service \<times> nat) outcome" where
  "renew_tick to_ascii pair keq enc dec acme now cfg can_run ans st =
    (if acme \<noteq> Some True then Returns (st, 0)
     else renew_once to_ascii pair keq enc dec acme now cfg can_run ans st)"

definition renew_now :: "(string \<Rightarrow> string option) \<Rightarrow> (string \<Rightarrow> string \<Rightarrow> leaf option) \<Rightarrow> (string \<Rightarrow> string \<Rightarrow> bool) \<Rightarrow>
    (string \<Rightarrow> string option) \<Rightarrow> (string \<Rightarrow> string option) \<Rightarrow> bool option \<Rightarrow> go_time \<Rightarrow> renew_config \<Rightarrow> uuid \<Rightarrow>
    answer \<Rightarrow> cert_service \<Rightarrow> (cert_service \<times> renew_error option) outcome" where
  "renew_now to_ascii pair keq enc dec acme now cfg i ans st =
    (case cert_by_id (sc_rows st) i of
       None \<Rightarrow> Returns (st, Some Renew_gone)
     | Some rec \<Rightarrow> renew_one to_ascii pair keq enc dec acme now cfg rec ans st)"

section \<open>issue.go\<close>

datatype issue_error = Issue_host | Issue_source_off | Issue_unsupported
  | Issue_refused acme_class string | Issue_failed cert_failure

definition persist_issued :: "(string \<Rightarrow> string option) \<Rightarrow> (string \<Rightarrow> string \<Rightarrow> leaf option) \<Rightarrow> (string \<Rightarrow> string \<Rightarrow> bool) \<Rightarrow>
    (string \<Rightarrow> string option) \<Rightarrow> (string \<Rightarrow> string option) \<Rightarrow> uuid \<Rightarrow> go_time \<Rightarrow> string \<Rightarrow> uuid option \<Rightarrow>
    cert_source \<Rightarrow> issued \<Rightarrow> cert_service \<Rightarrow> (cert_service \<times> (cert_failure + cert)) outcome" where
  "persist_issued to_ascii pair keq enc dec fresh now host domain src new st =
    (case validate_and_load pair keq now (is_pem new) (is_key new) host of
       Inl e \<Rightarrow> Returns (st, Inl (Bad_material e))
     | Inr l \<Rightarrow>
         (case resolve_domain_id st host domain of
            Inl e \<Rightarrow> Returns (st, Inl e)
          | Inr d \<Rightarrow>
              (case enc (is_key new) of
                 None \<Rightarrow> Returns (st, Inl Encrypt_failed)
               | Some ek \<Rightarrow>
                   publish to_ascii pair dec fresh now (if src = Manual then ''manual'' else ''managed'')
                     (blank_cert\<lparr>ct_domain := d, ct_host := host, ct_source := src, ct_pem := is_pem new,
                        ct_key := ek, ct_issuer := is_issuer new, ct_serial := is_serial new,
                        ct_issued := Some (lf_not_before l), ct_expires := Some (is_not_after new),
                        ct_meta := is_meta new\<rparr>) st)))"

definition issue_core :: "(string \<Rightarrow> string option) \<Rightarrow> (string \<Rightarrow> string \<Rightarrow> leaf option) \<Rightarrow> (string \<Rightarrow> string \<Rightarrow> bool) \<Rightarrow>
    (string \<Rightarrow> string option) \<Rightarrow> (string \<Rightarrow> string option) \<Rightarrow> bool option \<Rightarrow> uuid \<Rightarrow> go_time \<Rightarrow> string \<Rightarrow>
    uuid option \<Rightarrow> cert_source \<Rightarrow> answer \<Rightarrow> cert_service \<Rightarrow> (cert_service \<times> (issue_error + cert)) outcome" where
  "issue_core to_ascii pair keq enc dec acme fresh now hostname domain src ans st =
    (case normalize_host to_ascii hostname of
       Panics \<Rightarrow> Panics
     | Returns (Inl _) \<Rightarrow> Returns (st, Inl Issue_host)
     | Returns (Inr h) \<Rightarrow>
         (case provider_answer acme src ans of
            None \<Rightarrow> Returns (st, Inl Issue_source_off)
          | Some Unsupported \<Rightarrow> Returns (st, Inl Issue_unsupported)
          | Some (Refused c msg) \<Rightarrow> Returns (st, Inl (Issue_refused c msg))
          | Some (Got new) \<Rightarrow>
              (case persist_issued to_ascii pair keq enc dec fresh now h domain src new st of
                 Panics \<Rightarrow> Panics
               | Returns (st1, Inl e) \<Rightarrow> Returns (st1, Inl (Issue_failed e))
               | Returns (st1, Inr saved) \<Rightarrow> Returns (st1, Inr saved))))"

section \<open>issue_async.go\<close>

record issuer =
  ir_svc :: cert_service
  ir_ops :: "cert_op list"

fun progress_error_text :: "issue_error \<Rightarrow> string" where
  "progress_error_text (Issue_refused Rate_limited _) = ''rate limited by the CA''"
| "progress_error_text (Issue_refused Account_invalid _) = ''the CA account is invalid''"
| "progress_error_text (Issue_refused Challenge_failed _) = ''domain validation failed''"
| "progress_error_text (Issue_refused Transient _) = ''network or CA unavailable''"
| "progress_error_text (Issue_refused Unclassified msg) = msg"
| "progress_error_text Issue_host = ''invalid host name''"
| "progress_error_text Issue_source_off = ''source not enabled''"
| "progress_error_text Issue_unsupported = ''operation not supported''"
| "progress_error_text (Issue_failed e) = ''not stored''"

datatype accepted = Existing cert_op | Started cert_op | Refused_issue issue_error | Op_conflict

text \<open>\<open>IssueAsync\<close> with operations and a background context: what is done before the job starts.\<close>

definition issue_async :: "(string \<Rightarrow> string option) \<Rightarrow> bool option \<Rightarrow> uuid \<Rightarrow> go_time \<Rightarrow> string \<Rightarrow> uuid option \<Rightarrow>
    cert_source \<Rightarrow> issuer \<Rightarrow> (issuer \<times> accepted) outcome" where
  "issue_async to_ascii acme fresh now hostname domain src st =
    (case normalize_host to_ascii hostname of
       Panics \<Rightarrow> Panics
     | Returns (Inl _) \<Rightarrow> Returns (st, Refused_issue Issue_host)
     | Returns (Inr h) \<Rightarrow> Returns
         (if provider_answer acme src Unsupported = None then (st, Refused_issue Issue_source_off)
          else (case active_by_host (ir_ops st) h of
                  Some o' \<Rightarrow> (st, Existing o')
                | None \<Rightarrow>
                    (case create_op fresh now h domain (ir_ops st) of
                       None \<Rightarrow> (st, Op_conflict)
                     | Some (new, ops) \<Rightarrow>
                         (st\<lparr>ir_svc := sync_domain_tls now domain ''managed'' (status_text Cert_pending) (ir_svc st),
                             ir_ops := ops\<rparr>, Started new)))))"

text \<open>The callback of the job: a failed write does not stop the exchange.\<close>

definition job_progress :: "go_time \<Rightarrow> uuid \<Rightarrow> op_status \<Rightarrow> string \<Rightarrow> issuer \<Rightarrow> issuer" where
  "job_progress now i s msg st =
    (case update_step now i s msg (ir_ops st) of None \<Rightarrow> st | Some ops \<Rightarrow> st\<lparr>ir_ops := ops\<rparr>)"

definition sync_after_failure :: "go_time \<Rightarrow> uuid option \<Rightarrow> string \<Rightarrow> cert_service \<Rightarrow> cert_service" where
  "sync_after_failure now domain host st =
    (if sc_domains st = None \<or> domain = None then st
     else if cert_by_host (sc_rows st) host \<noteq> None then st
     else sync_domain_tls now domain ''managed'' (status_text Cert_error) st)"

definition job_end :: "(string \<Rightarrow> string option) \<Rightarrow> (string \<Rightarrow> string \<Rightarrow> leaf option) \<Rightarrow> (string \<Rightarrow> string \<Rightarrow> bool) \<Rightarrow>
    (string \<Rightarrow> string option) \<Rightarrow> (string \<Rightarrow> string option) \<Rightarrow> bool option \<Rightarrow> uuid \<Rightarrow> go_time \<Rightarrow> uuid \<Rightarrow> string \<Rightarrow>
    uuid option \<Rightarrow> cert_source \<Rightarrow> answer \<Rightarrow> string \<Rightarrow> issuer \<Rightarrow> issuer outcome" where
  "job_end to_ascii pair keq enc dec acme fresh now i hostname domain src ans last_msg st =
    (case issue_core to_ascii pair keq enc dec acme fresh now hostname domain src ans (ir_svc st) of
       Panics \<Rightarrow> Panics
     | Returns (svc, r) \<Rightarrow> Returns
         (let finish = (\<lambda>s msg err. case finish_op now i s msg err (ir_ops st) of None \<Rightarrow> ir_ops st | Some ops \<Rightarrow> ops) in
          case r of
            Inl e \<Rightarrow> st\<lparr>
              ir_svc := sync_after_failure now domain hostname svc,
              ir_ops := finish Op_failed (if last_msg \<noteq> [] then ''failed at '' @ last_msg else ''failed'')
                (progress_error_text e)\<rparr>
          | Inr _ \<Rightarrow> st\<lparr>ir_svc := svc, ir_ops := finish Op_active ''issued'' []\<rparr>))"

section \<open>Every operation keeps the cache true to the rows\<close>

lemma on_renew_failure_ok:
  assumes "certs_ok to_ascii pair dec S st"
  shows "certs_ok to_ascii pair dec S (on_renew_failure now cfg rec e st)"
proof -
  have "decrypt_and_load pair dec (renew_failure now a t m r) = decrypt_and_load pair dec r" for a t m r
    by (rule load_cong) (simp_all add: renew_failure_def)
  then show ?thesis
    using edit_other [OF assms, of "renew_failure now a t m" for a t m]
    by (simp add: on_renew_failure_def Let_def renew_failure_def)
qed

text \<open>A renewal works on a row that was read before: its identifier still stands for the same host
name, or for no row any more (identifiers are random and the name of a row never changes).\<close>

definition same_row :: "cert_service \<Rightarrow> cert \<Rightarrow> bool" where
  "same_row st rec \<longleftrightarrow> (\<forall>r \<in> set (sc_rows st). ct_id r = ct_id rec \<longrightarrow> ct_host r = ct_host rec)"

lemma renew_success_frame [simp]:
  "ct_id (renew_success now c r) = ct_id r" "ct_host (renew_success now c r) = ct_host r"
  "ct_pem (renew_success now c r) = ct_pem c" "ct_key (renew_success now c r) = ct_key c"
  by (simp_all add: renew_success_def)

lemma renew_one_ok:
  assumes "seals enc dec" "certs_ok to_ascii pair dec S st" "same_row st rec"
  shows "keeps (certs_ok to_ascii pair dec S) (renew_one to_ascii pair keq enc dec acme now cfg rec ans st)"
proof -
  have swap: "\<exists>st1. reload_into_cache to_ascii pair dec (renew_success now c row)
        (st\<lparr>sc_rows := edit_cert (ct_id rec) (renew_success now c) (sc_rows st)\<rparr>) = Returns (True, st1)
      \<and> certs_ok to_ascii pair dec S st1"
    if row: "cert_by_id (sc_rows st) (ct_id rec) = Some row"
      and c: "validate_and_load pair keq now (ct_pem c) key (ct_host rec) = Inr l" "enc key = Some (ct_key c)"
    for c row key l
  proof -
    note mem = cert_by_id_Some [OF row]
    have host: "ct_host row = ct_host rec" "ct_host row \<noteq> []"
      using assms(2,3) mem by (auto simp: same_row_def certs_ok_def rows_ok_def row_ok_def)
    have "covered pair dec (renew_success now c row)"
      by (rule validated_covered [of pair keq now "ct_pem c" key _ l enc]) (use c host assms(1) in simp_all)
    then show ?thesis
      using replace_row [OF assms(2), of row "renew_success now c"] mem by simp
  qed
  have last_case: "keeps (certs_ok to_ascii pair dec S)
      (case reload_into_cache to_ascii pair dec (renew_success now c row)
         (st\<lparr>sc_rows := edit_cert (ct_id rec) (renew_success now c) (sc_rows st)\<rparr>) of
         Panics \<Rightarrow> Panics
       | Returns (_, st1) \<Rightarrow> Returns (sync_domain_tls now (ct_domain rec) ''managed'' s st1, None))"
    if "cert_by_id (sc_rows st) (ct_id rec) = Some row"
      "validate_and_load pair keq now (ct_pem c) key (ct_host rec) = Inr l" "enc key = Some (ct_key c)"
    for c row key l s
    using swap [OF that] by auto
  show ?thesis
    using assms(2) on_renew_failure_ok [OF assms(2)]
    by (auto simp: renew_one_def Let_def split: option.split answer.split sum.split
        intro!: last_case simp del: split_paired_All)
qed

text \<open>No renewal changes which host name an identifier stands for.\<close>

definition named :: "cert_service \<Rightarrow> (uuid \<times> string) list" where
  "named st = map (\<lambda>r. (ct_id r, ct_host r)) (sc_rows st)"

lemma same_row_named: "named a = named b \<Longrightarrow> same_row a x = same_row b x"
proof -
  have "same_row st x \<longleftrightarrow> (\<forall>(i, h) \<in> set (named st). i = ct_id x \<longrightarrow> h = ct_host x)" for st
    by (auto simp: same_row_def named_def)
  then show "named a = named b \<Longrightarrow> same_row a x = same_row b x" by simp
qed

lemma named_edit:
  assumes "\<And>r. ct_id (f r) = ct_id r" "\<And>r. ct_host (f r) = ct_host r"
  shows "named (st\<lparr>sc_rows := edit_cert i f (sc_rows st)\<rparr>) = named st"
  using assms by (simp add: named_def edit_cert_def)

lemma named_sync [simp]: "named (sync_domain_tls now d mode s st) = named st"
  by (simp add: named_def frame_simps)

lemma named_failure [simp]: "named (on_renew_failure now cfg rec e st) = named st"
  by (simp add: on_renew_failure_def Let_def named_edit renew_failure_def)

lemma named_reload:
  "reload_into_cache to_ascii pair dec r st = Returns (b, st1) \<Longrightarrow> named st1 = named st"
  by (auto simp: reload_into_cache_def named_def split: option.splits outcome.splits)

lemma renew_one_named:
  "keeps (\<lambda>st1. named st1 = named st) (renew_one to_ascii pair keq enc dec acme now cfg rec ans st)"
proof -
  have last_case: "keeps (\<lambda>st1. named st1 = named st)
      (case reload_into_cache to_ascii pair dec r
         (st\<lparr>sc_rows := edit_cert (ct_id rec) (renew_success now c) (sc_rows st)\<rparr>) of
         Panics \<Rightarrow> Panics
       | Returns (_, st1) \<Rightarrow> Returns (sync_domain_tls now (ct_domain rec) ''managed'' s st1, None))" for c r s
    using named_reload [of to_ascii pair dec r "st\<lparr>sc_rows := edit_cert (ct_id rec) (renew_success now c) (sc_rows st)\<rparr>"]
    by (auto simp: named_edit split: outcome.split)
  show ?thesis
    by (auto simp: renew_one_def Let_def split: option.split answer.split sum.split
        intro!: last_case simp del: split_paired_All)
qed

lemma renew_each_ok:
  assumes "seals enc dec"
  shows "certs_ok to_ascii pair dec S st \<Longrightarrow> \<forall>r \<in> set rs. same_row st r \<Longrightarrow>
    keeps (certs_ok to_ascii pair dec S) (renew_each (\<lambda>r. renew_one to_ascii pair keq enc dec acme now cfg r (ans r)) rs st)"
proof (induction rs arbitrary: st)
  case (Cons r rs)
  let ?one = "renew_one to_ascii pair keq enc dec acme now cfg r (ans r) st"
  have ok: "keeps (certs_ok to_ascii pair dec S) ?one" using renew_one_ok [OF assms Cons.prems(1)] Cons.prems(2) by simp
  show ?case
  proof (cases ?one)
    case (Returns x)
    obtain st1 e where x: "x = (st1, e)" by (cases x)
    have st1: "certs_ok to_ascii pair dec S st1" "\<forall>y \<in> set rs. same_row st1 y"
      using ok Cons.prems(2) renew_one_named [of st to_ascii pair keq enc dec acme now cfg r "ans r"]
        same_row_named [of st1 st] by (auto simp: Returns x)
    show ?thesis using Cons.IH [OF st1] by (auto simp: Returns x keeps_def split: outcome.split)
  qed simp
qed simp

lemma row_same: "distinct (map ct_id (sc_rows st)) \<Longrightarrow> r \<in> set (sc_rows st) \<Longrightarrow> same_row st r"
  using same_id by (fastforce simp: same_row_def)

lemma renew_tick_ok:
  assumes "seals enc dec" "certs_ok to_ascii pair dec S st"
  shows "keeps (certs_ok to_ascii pair dec S) (renew_tick to_ascii pair keq enc dec acme now cfg can ans st)"
proof -
  have "\<forall>r \<in> set (due_for_renewal t (sc_rows st)). same_row st r" for t
    using assms(2) row_same by (auto simp: due_for_renewal_def certs_ok_def rows_ok_def)
  then show ?thesis
    using assms renew_each_ok [OF assms] by (simp add: renew_tick_def renew_once_def)
qed

lemma persist_issued_ok:
  assumes "seals enc dec" "certs_ok to_ascii pair dec S st"
    and "normalize_host to_ascii host = Returns (Inr host)" "host \<noteq> []"
  shows "keeps (certs_ok to_ascii pair dec S) (persist_issued to_ascii pair keq enc dec fresh now host domain src new st)"
proof -
  have pub: "keeps (certs_ok to_ascii pair dec S) (publish to_ascii pair dec fresh now mode c st)"
    if "ct_host c = host" "validate_and_load pair keq now (ct_pem c) key host = Inr l" "enc key = Some (ct_key c)"
    for mode c key l
  proof -
    have "row_ok to_ascii pair dec c"
      unfolding row_ok_def using that assms(1,3,4) by (auto intro!: validated_covered [where enc = enc])
    then show ?thesis using publish_ok [OF assms(2), of c fresh now mode] by auto
  qed
  show ?thesis
    using assms(2) by (auto simp: persist_issued_def split: sum.split option.split intro!: pub)
qed

lemma issue_core_ok:
  assumes "idempotent to_ascii" "seals enc dec" "certs_ok to_ascii pair dec S st"
  shows "keeps (certs_ok to_ascii pair dec S)
    (issue_core to_ascii pair keq enc dec acme fresh now hostname domain src ans st)"
proof -
  have p: "keeps (certs_ok to_ascii pair dec S)
      (case persist_issued to_ascii pair keq enc dec fresh now h domain src new st of
         Panics \<Rightarrow> Panics
       | Returns (st1, Inl e) \<Rightarrow> Returns (st1, Inl (Issue_failed e))
       | Returns (st1, Inr saved) \<Rightarrow> Returns (st1, Inr saved))"
    if "normalize_host to_ascii hostname = Returns (Inr h)" for h new
  proof -
    have "normalize_host to_ascii h = Returns (Inr h) \<and> h \<noteq> []"
      using normalize_host_again [of to_ascii hostname h] that assms(1) by (simp add: idempotent_def)
    then show ?thesis
      using persist_issued_ok [OF assms(2,3), of h keq fresh now domain src new]
      by (auto split: outcome.split sum.split)
  qed
  show ?thesis
    using assms(3) p by (auto simp: issue_core_def split: outcome.split sum.split option.split answer.split)
qed

section \<open>The service as a machine\<close>

text \<open>The events: the administrator's requests, the loops of \<open>main.go\<close> (reload, scan, renewal, clean-up of
operations), the steps of a background job, and requests to the domains, which share the database: when domains are deleted their
certificates go with them.
\<open>Renewed\<close> ends a renewal begun on a row read earlier.\<close>

datatype cert_event =
    Upload uuid go_time upload_input
  | Edit go_time uuid cert_edit
  | Remove go_time uuid "string option"
  | Reload_one uuid
  | Reload_every
  | Scan go_time int
  | Renewal_tick "bool option" go_time renew_config bool "cert \<Rightarrow> answer"
  | Renewed "bool option" go_time renew_config cert answer
  | Issue "bool option" uuid go_time string "uuid option" cert_source
  | Job_progress go_time uuid op_status string
  | Job_end "bool option" uuid go_time uuid string "uuid option" cert_source answer string
  | Expire go_time int
  | Domains "domain list"

definition after :: "issuer \<Rightarrow> (cert_service \<times> 'a) outcome \<Rightarrow> issuer" where
  "after st out = (case out of Panics \<Rightarrow> st | Returns (svc, _) \<Rightarrow> st\<lparr>ir_svc := svc\<rparr>)"

fun cert_step :: "(string \<Rightarrow> string option) \<Rightarrow> (string \<Rightarrow> string \<Rightarrow> leaf option) \<Rightarrow> (string \<Rightarrow> string \<Rightarrow> bool) \<Rightarrow>
    (string \<Rightarrow> string option) \<Rightarrow> (string \<Rightarrow> string option) \<Rightarrow> issuer \<Rightarrow> cert_event \<Rightarrow> issuer" where
  "cert_step ta pair keq enc dec st (Upload fresh now inp) =
     after st (upload ta pair keq enc dec fresh now inp (ir_svc st))"
| "cert_step ta pair keq enc dec st (Edit now i inp) = after st (update_cert ta pair keq enc dec now i inp (ir_svc st))"
| "cert_step ta pair keq enc dec st (Remove now i ca) = after st (delete_cert ta now i ca (ir_svc st))"
| "cert_step ta pair keq enc dec st (Reload_one i) = after st (reload_cert ta pair dec i (ir_svc st))"
| "cert_step ta pair keq enc dec st Reload_every = st\<lparr>ir_svc := reload_all pair dec (ir_svc st)\<rparr>"
| "cert_step ta pair keq enc dec st (Scan now warn) = st\<lparr>ir_svc := fst (scan_expiring now warn (ir_svc st))\<rparr>"
| "cert_step ta pair keq enc dec st (Renewal_tick acme now cfg can ans) =
     after st (renew_tick ta pair keq enc dec acme now cfg can ans (ir_svc st))"
| "cert_step ta pair keq enc dec st (Renewed acme now cfg rec ans) =
     (if same_row (ir_svc st) rec then after st (renew_one ta pair keq enc dec acme now cfg rec ans (ir_svc st)) else st)"
| "cert_step ta pair keq enc dec st (Issue acme fresh now hostname domain src) =
     (case issue_async ta acme fresh now hostname domain src st of Panics \<Rightarrow> st | Returns (st1, _) \<Rightarrow> st1)"
| "cert_step ta pair keq enc dec st (Job_progress now i s msg) = job_progress now i s msg st"
| "cert_step ta pair keq enc dec st (Job_end acme fresh now i hostname domain src ans msg) =
     (case job_end ta pair keq enc dec acme fresh now i hostname domain src ans msg st of Panics \<Rightarrow> st | Returns st1 \<Rightarrow> st1)"
| "cert_step ta pair keq enc dec st (Expire now older) = st\<lparr>ir_ops := fst (expire_stale now older (ir_ops st))\<rparr>"
| "cert_step ta pair keq enc dec st (Domains ds) = st\<lparr>ir_svc := domains_changed ds (ir_svc st)\<rparr>"

text \<open>Beside a run: the names whose certificate was deleted with its domain since the last reload of everything.\<close>

fun orphan_step :: "cert_service \<Rightarrow> cert_event \<Rightarrow> string set \<Rightarrow> string set" where
  "orphan_step svc Reload_every S = {}"
| "orphan_step svc (Domains ds) S = S \<union> lost_names ds svc"
| "orphan_step svc e S = S"

definition watched_step :: "(string \<Rightarrow> string option) \<Rightarrow> (string \<Rightarrow> string \<Rightarrow> leaf option) \<Rightarrow> (string \<Rightarrow> string \<Rightarrow> bool) \<Rightarrow>
    (string \<Rightarrow> string option) \<Rightarrow> (string \<Rightarrow> string option) \<Rightarrow> issuer \<times> string set \<Rightarrow> cert_event \<Rightarrow> issuer \<times> string set" where
  "watched_step ta pair keq enc dec x e = (cert_step ta pair keq enc dec (fst x) e, orphan_step (ir_svc (fst x)) e (snd x))"

definition issuer_inv :: "(string \<Rightarrow> string option) \<Rightarrow> (string \<Rightarrow> string \<Rightarrow> leaf option) \<Rightarrow>
    (string \<Rightarrow> string option) \<Rightarrow> (string \<Rightarrow> string option) \<Rightarrow> issuer \<times> string set \<Rightarrow> bool" where
  "issuer_inv ta pair enc dec x \<longleftrightarrow> one_in_progress (ir_ops (fst x))
    \<and> (idempotent ta \<and> seals enc dec \<longrightarrow> certs_ok ta pair dec (snd x) (ir_svc (fst x)))"

lemma after_ok: "P (ir_svc st) \<Longrightarrow> keeps P out \<Longrightarrow> P (ir_svc (after st out))"
  by (auto simp: after_def split: outcome.splits)

lemma after_ops [simp]: "ir_ops (after st out) = ir_ops st"
  by (simp add: after_def split: outcome.split prod.split)

lemma expire_one_in_progress:
  assumes "one_in_progress ops"
  shows "one_in_progress (fst (expire_stale now older ops))"
proof -
  define f where "f r = (if \<not> terminal (co_status r) \<and> co_updated r < now - older
     then r\<lparr>co_status := Op_failed, co_error := ''timed out'', co_updated := now, co_finished := Some now\<rparr> else r)" for r :: cert_op
  have f: "co_host (f r) = co_host r" "\<not> terminal (co_status (f r)) \<Longrightarrow> \<not> terminal (co_status r)" for r
    by (auto simp: f_def terminal_def split: if_splits)
  have sub: "subseq (map co_host (filter (\<lambda>r. \<not> terminal (co_status r)) (map f ops)))
      (map co_host (filter (\<lambda>r. \<not> terminal (co_status r)) ops))"
    using f by (induction ops) auto
  have e: "fst (expire_stale now older ops) = map f ops" by (simp add: expire_stale_def f_def)
  from sub assms show ?thesis
    unfolding one_in_progress_def e by (auto simp: subseq_conv_nths intro: distinct_nthsI)
qed

lemma ops_step [simp]:
  "ir_svc (job_progress now i s msg st) = ir_svc st"
  "one_in_progress (ir_ops st) \<Longrightarrow> one_in_progress (ir_ops (job_progress now i s msg st))"
  by (auto simp: job_progress_def update_step_def Let_def split: option.splits if_splits)

lemma issue_async_ok:
  assumes "issue_async ta acme fresh now hostname domain src st = Returns (st1, r)"
  shows "one_in_progress (ir_ops st) \<Longrightarrow> one_in_progress (ir_ops st1)"
    and "certs_ok ta pair dec S (ir_svc st) \<Longrightarrow> certs_ok ta pair dec S (ir_svc st1)"
  using assms
  by (auto simp: issue_async_def create_op_def Let_def split: outcome.splits sum.splits option.splits if_splits)

lemma sync_after_failure_ok [simp]:
  "certs_ok ta pair dec S (sync_after_failure now domain host svc) \<longleftrightarrow> certs_ok ta pair dec S svc"
  by (simp add: sync_after_failure_def)

lemma finish_one_in_progress:
  "one_in_progress ops \<Longrightarrow> one_in_progress (case finish_op now i s msg err ops of None \<Rightarrow> ops | Some ops' \<Rightarrow> ops')"
  by (auto simp: finish_op_def Let_def)

lemma job_end_ok:
  assumes "job_end ta pair keq enc dec acme fresh now i hostname domain src ans msg st = Returns st1"
  shows "one_in_progress (ir_ops st) \<Longrightarrow> one_in_progress (ir_ops st1)"
    and "idempotent ta \<Longrightarrow> seals enc dec \<Longrightarrow> certs_ok ta pair dec S (ir_svc st) \<Longrightarrow> certs_ok ta pair dec S (ir_svc st1)"
proof -
  obtain svc r where core: "issue_core ta pair keq enc dec acme fresh now hostname domain src ans (ir_svc st) = Returns (svc, r)"
    using assms by (auto simp: job_end_def split: outcome.splits)
  show "one_in_progress (ir_ops st) \<Longrightarrow> one_in_progress (ir_ops st1)"
    using assms finish_one_in_progress by (auto simp: job_end_def core Let_def split: sum.splits)
  assume ok: "idempotent ta" "seals enc dec" "certs_ok ta pair dec S (ir_svc st)"
  have "certs_ok ta pair dec S svc"
    using issue_core_ok [OF ok, of keq acme fresh now hostname domain src ans] by (simp add: core)
  then show "certs_ok ta pair dec S (ir_svc st1)"
    using assms by (auto simp: job_end_def core Let_def split: sum.splits)
qed

lemma cert_step_ops:
  assumes "one_in_progress (ir_ops st)"
  shows "one_in_progress (ir_ops (cert_step ta pair keq enc dec st e))"
proof (cases e)
  case (Issue acme fresh now hostname domain src)
  then show ?thesis
    using assms issue_async_ok(1) by (auto split: outcome.split)
next
  case (Job_end acme fresh now i hostname domain src ans msg)
  then show ?thesis
    using assms job_end_ok(1) by (auto split: outcome.split)
qed (use assms in \<open>simp_all add: expire_one_in_progress\<close>)

lemma cert_step_certs:
  assumes "idempotent ta" "seals enc dec" "certs_ok ta pair dec S (ir_svc st)"
  shows "certs_ok ta pair dec (orphan_step (ir_svc st) e S) (ir_svc (cert_step ta pair keq enc dec st e))"
proof (cases e)
  case (Upload fresh now inp)
  then show ?thesis using after_ok [OF assms(3) upload_ok [OF assms]] by simp
next
  case (Edit now i inp)
  then show ?thesis using after_ok [OF assms(3) update_cert_ok [OF assms(2,3)]] by simp
next
  case (Remove now i ca)
  then show ?thesis using after_ok [OF assms(3) delete_cert_ok [OF assms(3)]] by simp
next
  case (Reload_one i)
  then show ?thesis using after_ok [OF assms(3) reload_cert_ok [OF assms(3)]] by simp
next
  case Reload_every
  have "rows_ok ta pair dec (sc_rows (ir_svc st))" using assms(3) by (simp add: certs_ok_def)
  from reload_all_ok [OF this] show ?thesis by (simp add: Reload_every)
next
  case (Scan now warn)
  then show ?thesis using scan_expiring_ok [OF assms(3)] by simp
next
  case (Renewal_tick acme now cfg can ans)
  then show ?thesis using after_ok [OF assms(3) renew_tick_ok [OF assms(2,3)]] by simp
next
  case (Renewed acme now cfg rec ans)
  then show ?thesis using assms(3) after_ok [OF assms(3) renew_one_ok [OF assms(2,3)]] by simp
next
  case (Issue acme fresh now hostname domain src)
  then show ?thesis using assms issue_async_ok(2) by (auto split: outcome.split)
next
  case (Job_end acme fresh now i hostname domain src ans msg)
  then show ?thesis using assms job_end_ok(2) by (auto split: outcome.split)
next
  case (Domains ds)
  then show ?thesis using domains_changed_ok [OF assms(3)] by simp
qed (use assms in simp_all)

interpretation issuers: machine "watched_step ta pair keq enc dec" "issuer_inv ta pair enc dec" for ta pair keq enc dec
  by unfold_locales (simp add: issuer_inv_def watched_step_def cert_step_ops cert_step_certs)

definition no_certs :: "domain list option \<Rightarrow> issuer" where
  "no_certs ds = \<lparr>ir_svc = \<lparr>sc_rows = [], sc_cache = Map.empty, sc_domains = ds\<rparr>, ir_ops = []\<rparr>"

lemma no_certs_inv: "issuer_inv ta pair enc dec (no_certs ds, {})"
  by (simp add: issuer_inv_def no_certs_def one_in_progress_def certs_ok_def rows_ok_def mirrors_def)

lemma watched_run:
  "fst (foldl (watched_step ta pair keq enc dec) x es) = foldl (cert_step ta pair keq enc dec) (fst x) es"
  by (induction es arbitrary: x) (simp_all add: watched_step_def)

section \<open>What handshakes are served\<close>

text \<open>Property C10. A handshake is served the certificate that is stored for the name it asks for, and that
covers the name. After any sequence of uploads, edits, deletions, reloads, scans, renewals (also ones
that end on a row read long before), issue jobs and changes of the domains, from an empty database: if a row is stored under the
normalised name, the handshake gets exactly its material, decrypted, and the leaf covers the name; if
none is, it gets the default certificate or an error, never the certificate of another name. The one exception is a name whose row the database
deleted together with its domain: until everything is loaded again the cache may still serve what it had for that name. (The
encrypter gives back what it was given, and \<open>to_ascii\<close> leaves alone what it has converted.)\<close>

theorem handshakes_serve_the_stored_certificate:
  assumes "idempotent ta" and "seals enc dec"
    and "foldl (watched_step ta pair keq enc dec) (no_certs ds, {}) es = (st, orphans)"
    and "normalize_host ta sni = Returns (Inr n)"
  shows "case cert_by_host (sc_rows (ir_svc st)) n of
      Some r \<Rightarrow> \<exists>l. decrypt_and_load pair dec r = Some l \<and> leaf_matches (ld_leaf l) n
        \<and> get_certificate ta (sc_cache (ir_svc st)) sni g = Returns (g\<lparr>gt_hits := gt_hits g + 1\<rparr>, Use_certificate l)
    | None \<Rightarrow> n \<notin> orphans \<longrightarrow> get_certificate ta (sc_cache (ir_svc st)) sni g =
        Returns (g\<lparr>gt_misses := gt_misses g + 1\<rparr>, if gt_fallback g then Use_default else Unknown_sni)"
proof -
  have "issuer_inv ta pair enc dec (st, orphans)"
    using issuers.mrun_inv [OF no_certs_inv, of ta pair enc dec keq ds es] assms(3) by simp
  then have "certs_ok ta pair dec orphans (ir_svc st)" using assms(1,2) by (simp add: issuer_inv_def)
  from served [OF assms(1) this assms(4)] show ?thesis .
qed

definition shop_leaf :: leaf where
  "shop_leaf = \<lparr>lf_dns = [''shop.example''], lf_cn = [], lf_not_before = 0, lf_not_after = 100,
     lf_issuer = ''ca'', lf_serial = ''1''\<rparr>"

theorem handshakes_serve_the_stored_certificate_witness:
  "\<exists>st l. foldl (cert_step Some (\<lambda>p k. Some shop_leaf) (\<lambda>p k. True) Some Some) (no_certs None)
      [Upload ''c1'' 50 \<lparr>ul_domain = None, ul_host = ''Shop.Example:443'', ul_pem = ''P'', ul_key = ''K''\<rparr>] = st
    \<and> ld_key l = ''K'' \<and> get_certificate Some (sc_cache (ir_svc st)) ''Shop.Example:443''
        \<lparr>gt_fallback = False, gt_hits = 0, gt_misses = 0\<rparr>
      = Returns (\<lparr>gt_fallback = False, gt_hits = 1, gt_misses = 0\<rparr>, Use_certificate l)"
proof -
  let ?pair = "\<lambda>(p :: string) (k :: string). Some shop_leaf"
  let ?keq = "\<lambda>(p :: string) (k :: string). True" and ?g = "\<lparr>gt_fallback = False, gt_hits = 0, gt_misses = 0\<rparr>"
  let ?inp = "\<lparr>ul_domain = None, ul_host = ''Shop.Example:443'', ul_pem = ''P'', ul_key = ''K''\<rparr>"
  let ?r = "create_cert ''c1'' 50 (blank_cert\<lparr>ct_host := ''shop.example'', ct_pem := ''P'', ct_key := ''K'',
     ct_issuer := ''ca'', ct_serial := ''1'', ct_issued := Some 0, ct_expires := Some 100\<rparr>)"
  obtain st where st: "foldl (cert_step Some ?pair ?keq Some Some) (no_certs None) [Upload ''c1'' 50 ?inp] = st" by blast
  have n: "normalize_host Some ''Shop.Example:443'' = Returns (Inr ''shop.example'')"
    using sample_host(2) by (auto simp: host_key_def split: outcome.splits sum.splits)
  have n2: "normalize_host Some ''shop.example'' = Returns (Inr ''shop.example'')"
    using normalize_host_again [of Some, OF _ n] by simp
  have v: "validate_and_load ?pair ?keq 50 ''P'' ''K'' ''shop.example'' = Inr shop_leaf" by code_simp
  have fields: "lf_issuer shop_leaf = ''ca''" "lf_serial shop_leaf = ''1''" "lf_not_before shop_leaf = 0"
    "lf_not_after shop_leaf = 100" by (simp_all add: shop_leaf_def)
  have "sc_rows (ir_svc st) = [?r]"
    unfolding st [symmetric]
    by (auto simp: after_def no_certs_def upload_def n v resolve_domain_id_def publish_def store_cert_def
        cert_by_host_def frame_simps create_cert_def reload_into_cache_def decrypt_and_load_def
        cache_set_normal [OF n2] fields oldest_def blank_cert_def)
  then have row: "cert_by_host (sc_rows (ir_svc st)) ''shop.example'' = Some ?r"
    by (simp add: cert_by_host_def create_cert_def oldest_def)
  have "idempotent Some" "seals Some Some" by (simp_all add: idempotent_def seals_def)
  moreover have "foldl (watched_step Some ?pair ?keq Some Some) (no_certs None, {}) [Upload ''c1'' 50 ?inp] = (st, {})"
    using st by (simp add: watched_step_def)
  ultimately have "case cert_by_host (sc_rows (ir_svc st)) ''shop.example'' of
      Some r \<Rightarrow> \<exists>l. decrypt_and_load ?pair Some r = Some l \<and> leaf_matches (ld_leaf l) ''shop.example''
        \<and> get_certificate Some (sc_cache (ir_svc st)) ''Shop.Example:443'' ?g
          = Returns (?g\<lparr>gt_hits := gt_hits ?g + 1\<rparr>, Use_certificate l)
    | None \<Rightarrow> ''shop.example'' \<notin> {} \<longrightarrow> get_certificate Some (sc_cache (ir_svc st)) ''Shop.Example:443'' ?g =
        Returns (?g\<lparr>gt_misses := gt_misses ?g + 1\<rparr>, if gt_fallback ?g then Use_default else Unknown_sni)"
    by (rule handshakes_serve_the_stored_certificate [OF _ _ _ n])
  then show ?thesis
    using st by (auto simp: row decrypt_and_load_def create_cert_def)
qed

text \<open>The exception is real: a deleted domain takes the row along, and the cache answers for its name as before.\<close>

lemma a_deleted_domain_keeps_its_certificate:
  assumes "ct_domain r = Some d" "d \<notin> dom_id ` set ds" "sc_rows svc = [r]" "sc_cache svc (ct_host r) = Some l"
  shows "sc_rows (domains_changed ds svc) = [] \<and> sc_cache (domains_changed ds svc) (ct_host r) = Some l
    \<and> ct_host r \<in> lost_names ds svc \<and> sc_cache (reload_all pair dec (domains_changed ds svc)) = Map.empty"
  using assms by (simp add: domains_changed_def lost_names_def bound_to_def reload_all_def)

section \<open>Issue jobs end\<close>

lemma edit_terminal_ok:
  assumes "one_in_progress ops" and "\<And>r. co_host (f r) = co_host r" "\<And>r. terminal (co_status (f r))"
  shows "one_in_progress (edit_op i f ops)"
proof -
  have "subseq (map co_host (filter (\<lambda>r. \<not> terminal (co_status r)) (edit_op i f ops)))
      (map co_host (filter (\<lambda>r. \<not> terminal (co_status r)) ops))"
    unfolding edit_op_def using assms(2,3) by (induction ops) auto
  then show ?thesis
    using assms(1) by (auto simp: one_in_progress_def subseq_conv_nths intro: distinct_nthsI)
qed

lemma op_by_id_edit:
  assumes "\<And>r. co_id (f r) = co_id r"
  shows "op_by_id (edit_op i f ops) i = map_option f (op_by_id ops i)"
  using assms by (induction ops) (auto simp: op_by_id_def edit_op_def)

lemma finish_op_terminal:
  assumes "one_in_progress ops" "op_by_id ops i = Some r" "terminal s"
  shows "\<exists>ops' r'. finish_op now i s msg err ops = Some ops' \<and> op_by_id ops' i = Some r'
    \<and> co_status r' = s \<and> co_finished r' = Some now"
proof -
  let ?f = "\<lambda>r. r\<lparr>co_status := s, co_message := msg, co_updated := now, co_finished := Some now,
    co_error := (if err \<noteq> [] then err else co_error r)\<rparr>"
  have "one_in_progress (edit_op i ?f ops)" by (rule edit_terminal_ok [OF assms(1)]) (use assms(3) in simp_all)
  then show ?thesis
    using assms(2) op_by_id_edit [of ?f i ops] by (simp add: finish_op_def Let_def)
qed

text \<open>The end of an issue job is written down: whatever the operations have gone through, when
the job of a recorded operation ends, its row becomes active if a certificate was stored and failed
otherwise, with the time of the end; the unique index of operations in progress never refuses this.\<close>

theorem an_ended_issue_job_is_recorded:
  assumes "foldl (cert_step ta pair keq enc dec) (no_certs ds) es = st"
    and "op_by_id (ir_ops st) i = Some r"
    and "issue_core ta pair keq enc dec acme fresh now hostname domain src ans (ir_svc st) = Returns (svc, res)"
  shows "\<exists>st1 r'. job_end ta pair keq enc dec acme fresh now i hostname domain src ans msg st = Returns st1
    \<and> op_by_id (ir_ops st1) i = Some r' \<and> co_finished r' = Some now
    \<and> co_status r' = (case res of Inl _ \<Rightarrow> Op_failed | Inr _ \<Rightarrow> Op_active)"
proof -
  have "issuer_inv ta pair enc dec (foldl (watched_step ta pair keq enc dec) (no_certs ds, {}) es)"
    by (rule issuers.mrun_inv [OF no_certs_inv])
  then have one: "one_in_progress (ir_ops st)" using assms(1) by (simp add: issuer_inv_def watched_run)
  have "terminal Op_failed" "terminal Op_active" by (simp_all add: terminal_def)
  note fin = this [THEN finish_op_terminal [OF one assms(2)]]
  show ?thesis
  proof (cases res)
    case (Inl e)
    obtain ops r' where "finish_op now i Op_failed (if msg \<noteq> [] then ''failed at '' @ msg else ''failed'')
        (progress_error_text e) (ir_ops st) = Some ops"
      "op_by_id ops i = Some r'" "co_status r' = Op_failed" "co_finished r' = Some now"
      using fin(1) by blast
    then show ?thesis by (simp add: job_end_def assms(3) Inl Let_def)
  next
    case (Inr c)
    obtain ops r' where "finish_op now i Op_active ''issued'' [] (ir_ops st) = Some ops"
      "op_by_id ops i = Some r'" "co_status r' = Op_active" "co_finished r' = Some now"
      using fin(2) by blast
    then show ?thesis by (simp add: job_end_def assms(3) Inr Let_def)
  qed
qed

theorem an_ended_issue_job_is_recorded_witness:
  "\<exists>st st1 r'. foldl (cert_step Some (\<lambda>p k. None) (\<lambda>p k. True) Some Some) (no_certs None)
      [Issue (Some True) ''o1'' 10 ''Shop.Example:443'' None Acme] = st
    \<and> job_end Some (\<lambda>p k. None) (\<lambda>p k. True) Some Some (Some True) ''c1'' 20 ''o1'' ''shop.example'' None Acme
        (Refused Challenge_failed ''no answer'') [] st = Returns st1
    \<and> op_by_id (ir_ops st1) ''o1'' = Some r' \<and> co_status r' = Op_failed"
proof -
  let ?pair = "\<lambda>(p :: string) (k :: string). None :: leaf option"
  let ?keq = "\<lambda>(p :: string) (k :: string). True"
  obtain st where st: "foldl (cert_step Some ?pair ?keq Some Some) (no_certs None)
      [Issue (Some True) ''o1'' 10 ''Shop.Example:443'' None Acme] = st" by blast
  have n: "normalize_host Some ''Shop.Example:443'' = Returns (Inr ''shop.example'')"
    using sample_host(2) by (auto simp: host_key_def split: outcome.splits sum.splits)
  have "\<exists>r. op_by_id (ir_ops st) ''o1'' = Some r"
    unfolding st [symmetric]
    by (simp add: issue_async_def n provider_answer_def no_certs_def active_by_host_def oldest_def create_op_def
        one_in_progress_def op_by_id_def Let_def)
  moreover have "normalize_host Some ''shop.example'' = Returns (Inr ''shop.example'')"
    using normalize_host_again [of Some, OF _ n] by simp
  then have "issue_core Some ?pair ?keq Some Some (Some True) ''c1'' 20 ''shop.example'' None Acme
      (Refused Challenge_failed ''no answer'') (ir_svc st)
    = Returns (ir_svc st, Inl (Issue_refused Challenge_failed ''no answer''))"
    by (simp add: issue_core_def provider_answer_def)
  ultimately show ?thesis using an_ended_issue_job_is_recorded [OF st] st by (metis sum.case(1))
qed

section \<open>What the rows say and what is done about it\<close>

text \<open>A job that fails for a name that has a certificate leaves the domain as the request left it: pending.\<close>

lemma a_failed_reissue_leaves_the_domain_pending:
  assumes "issue_async ta acme fresh now hostname domain src st = Returns (st1, Started o1)"
    and "job_end ta pair keq enc dec acme fresh2 later (co_id o1) h domain src (Refused c why) msg st1 = Returns st2"
    and "provider_answer acme src (Refused c why) = Some (Refused c2 why2)"
    and "normalize_host ta h = Returns (Inr h)" and "cert_by_host (sc_rows (ir_svc st)) h \<noteq> None"
  shows "ir_svc st2 = sync_domain_tls now domain ''managed'' ''pending'' (ir_svc st)"
proof -
  have st1: "ir_svc st1 = sync_domain_tls now domain ''managed'' ''pending'' (ir_svc st)"
    using assms(1) by (auto simp: issue_async_def split: outcome.splits sum.splits option.splits if_splits)
  have core: "issue_core ta pair keq enc dec acme fresh2 later h domain src (Refused c why) (ir_svc st1)
      = Returns (ir_svc st1, Inl (Issue_refused c2 why2))"
    using assms(3,4) by (simp add: issue_core_def)
  have "sync_after_failure later domain h (ir_svc st1) = ir_svc st1"
    using assms(5) by (simp add: sync_after_failure_def st1 frame_simps)
  then have "ir_svc st2 = ir_svc st1" using assms(2) by (auto simp: job_end_def core Let_def)
  then show ?thesis by (simp add: st1)
qed

text \<open>What \<open>LatestByHostname\<close> returns is the operation that was touched longest ago.\<close>

lemma oldest_least: "oldest t xs = Some x \<Longrightarrow> y \<in> set xs \<Longrightarrow> t x \<le> t y"
proof -
  have le: "t (foldl (\<lambda>a b. if t b < t a then b else a) z ys) \<le> t z
      \<and> (\<forall>y \<in> set ys. t (foldl (\<lambda>a b. if t b < t a then b else a) z ys) \<le> t y)" for z ys
    by (induction ys arbitrary: z) fastforce+
  assume "oldest t xs = Some x" "y \<in> set xs"
  then show "t x \<le> t y" using le by (cases xs) (auto simp: oldest_def)
qed

lemma latest_operation_is_the_oldest:
  "latest_by_host ops h = Some r \<Longrightarrow> r2 \<in> set ops \<Longrightarrow> co_host r2 = h \<Longrightarrow> co_updated r \<le> co_updated r2"
  using oldest_least [of co_updated "filter (\<lambda>r. co_host r = h) ops" r r2] by (simp add: latest_by_host_def)

section \<open>Waiting before the next attempt\<close>

lemma doubled_mono: "0 < d \<Longrightarrow> d \<le> doubled n d \<and> doubled n d \<le> max d (2 * hours 24)"
proof (induction n arbitrary: d)
  case (Suc n)
  from Suc.IH [of "d * 2"] Suc.prems show ?case by auto
qed simp

lemma doubled_more: "0 < d \<Longrightarrow> doubled n d \<le> doubled (Suc n) d"
proof (induction n arbitrary: d)
  case (Suc n)
  from Suc.IH [of "d * 2"] Suc.prems show ?case by auto
qed simp

lemma doubled_le: "0 < d \<Longrightarrow> m \<le> n \<Longrightarrow> doubled m d \<le> doubled n d"
  by (rule lift_Suc_mono_le [of "\<lambda>n. doubled n d"]) (rule doubled_more)

lemma hours_pos: "0 < n \<Longrightarrow> 0 < hours n"
  by (simp add: hours_def second_def)

text \<open>The pause after a failed renewal is positive, grows with the number of failures, is at most
a day unless the authority limits the rate, and at least the configured pause when it does; the
doubling stays below two days or the base, so it cannot overflow an \<open>int64\<close> of nanoseconds.\<close>

theorem backoff_is_bounded:
  assumes "attempts \<le> attempts2"
  shows "0 < backoff_duration cfg attempts limited
    \<and> backoff_duration cfg attempts limited \<le> max (hours 24) (if limited then rn_rate cfg else 0)
    \<and> (limited \<longrightarrow> rn_rate cfg \<le> backoff_duration cfg attempts limited)
    \<and> backoff_duration cfg attempts limited \<le> backoff_duration cfg attempts2 limited
    \<and> doubled (nat (attempts - 1)) (rn_base cfg) \<le> max (rn_base cfg) (2 * hours 24)"
proof -
  define base where "base = (if rn_base cfg \<le> 0 then hours 1 else rn_base cfg)"
  have base: "0 < base" by (simp add: base_def hours_pos)
  define cap where "cap n = min (doubled (nat (n - 1)) base) (hours 24)" for n :: int
  have b: "backoff_duration cfg n limited = (if limited \<and> rn_rate cfg > cap n then rn_rate cfg else cap n)" for n
    by (simp add: backoff_duration_def Let_def cap_def base_def min_def)
  have cap: "0 < cap n" "cap n \<le> hours 24" for n
    using doubled_mono [OF base, of "nat (n - 1)"] base hours_pos [of 24] by (simp_all add: cap_def)
  have mono: "cap attempts \<le> cap attempts2"
  proof -
    have "nat (attempts - 1) \<le> nat (attempts2 - 1)" using assms by (intro nat_mono) simp
    from doubled_le [OF base this] show ?thesis unfolding cap_def by (rule min.mono) simp
  qed
  have neg: "d \<le> 0 \<Longrightarrow> doubled n d \<le> 0" for n d
    using hours_pos [of 24] by (induction n arbitrary: d) auto
  have "doubled (nat (attempts - 1)) (rn_base cfg) \<le> max (rn_base cfg) (2 * hours 24)"
    using doubled_mono [of "rn_base cfg"] neg [of "rn_base cfg" "nat (attempts - 1)"] hours_pos [of 24]
    by (cases "0 < rn_base cfg") (auto simp: not_less le_max_iff_disj)
  then show ?thesis using cap [of attempts] mono unfolding b by auto
qed

theorem backoff_is_bounded_witness:
  "backoff_duration default_renew_config 1 False = hours 1
   \<and> backoff_duration default_renew_config 9 False = hours 24
   \<and> backoff_duration default_renew_config 1 True = hours 6
   \<and> backoff_duration default_renew_config 1 False \<le> backoff_duration default_renew_config 9 False"
  using backoff_is_bounded [of 1 9 default_renew_config False] by code_simp

text \<open>The pause has no effect: a certificate whose renewal has just failed is due again for every
scan that follows, with the row saying that it must wait until later; neither the pause nor the limit
on attempts is read when candidates are chosen.\<close>

theorem a_failed_renewal_is_due_at_once:
  assumes "distinct (map ct_id (sc_rows st))"
    and "r \<in> set (due_for_renewal (now + rn_before cfg) (sc_rows st))" and "now \<le> later"
    and "renew_one ta pair keq enc dec (Some True) now cfg r (Refused c why) st = Returns (st1, e)"
  shows "\<exists>r1. r1 \<in> set (due_for_renewal (later + rn_before cfg) (sc_rows st1)) \<and> ct_id r1 = ct_id r
    \<and> ct_attempts r1 = ct_attempts r + 1
    \<and> ct_next_renew r1 = Some (now + backoff_duration cfg (ct_attempts r + 1) (c = Rate_limited))"
proof -
  have r: "r \<in> set (sc_rows st)" "ct_source r = Acme"
    and t: "\<exists>t. ct_expires r = Some t \<and> t < later + rn_before cfg"
    and s: "ct_status r = Cert_active \<or> ct_status r = Cert_pending \<or> ct_status r = Cert_expiring"
    using assms(2,3) by (auto simp: due_for_renewal_def split: option.splits)
  have "st1 = on_renew_failure now cfg r (Renew_refused c why) st"
    using assms(4) r(2) by (simp add: renew_one_def provider_answer_def)
  then obtain m where rows: "sc_rows st1 = edit_cert (ct_id r) (renew_failure now (ct_attempts r + 1)
      (now + backoff_duration cfg (ct_attempts r + 1) (c = Rate_limited)) m) (sc_rows st)"
    by (auto simp: on_renew_failure_def Let_def rate_limited_def)
  have "renew_failure now (ct_attempts r + 1) (now + backoff_duration cfg (ct_attempts r + 1) (c = Rate_limited)) m r
      \<in> set (sc_rows st1)"
    using r(1) by (auto simp: rows edit_cert_def image_iff)
  then show ?thesis
    using r(2) t s by (intro exI [of _ "renew_failure now (ct_attempts r + 1)
        (now + backoff_duration cfg (ct_attempts r + 1) (c = Rate_limited)) m r"])
      (auto simp: due_for_renewal_def renew_failure_def)
qed

theorem a_failed_renewal_is_due_at_once_witness:
  "\<exists>r st st1 e. r \<in> set (due_for_renewal (10 + hours 720) (sc_rows st)) \<and> ct_attempts r = 7
    \<and> renew_one Some (\<lambda>p k. None) (\<lambda>p k. True) Some Some (Some True) 10 default_renew_config r
        (Refused Rate_limited ''slow down'') st = Returns (st1, e)
    \<and> (\<exists>r1 \<in> set (due_for_renewal (10 + hours 720) (sc_rows st1)). ct_attempts r1 = 8 \<and> ct_next_renew r1 = Some (10 + hours 24))"
proof -
  let ?r = "blank_cert\<lparr>ct_id := ''c1'', ct_source := Acme, ct_expires := Some 20, ct_attempts := 7\<rparr>"
  let ?st = "\<lparr>sc_rows = [?r], sc_cache = Map.empty, sc_domains = None\<rparr>"
  have d: "?r \<in> set (due_for_renewal (10 + rn_before default_renew_config) (sc_rows ?st))"
    by (simp add: due_for_renewal_def blank_cert_def default_renew_config_def hours_def second_def)
  obtain st1 e where one: "renew_one Some (\<lambda>p k. None) (\<lambda>p k. True) Some Some (Some True) 10 default_renew_config ?r
      (Refused Rate_limited ''slow down'') ?st = Returns (st1, e)"
    by (simp add: renew_one_def provider_answer_def)
  have before: "rn_before default_renew_config = hours 720" by (simp add: default_renew_config_def)
  have b: "backoff_duration default_renew_config 8 True = hours 24" by code_simp
  obtain r1 where "r1 \<in> set (due_for_renewal (10 + rn_before default_renew_config) (sc_rows st1))"
    "ct_attempts r1 = ct_attempts ?r + 1"
    "ct_next_renew r1 = Some (10 + backoff_duration default_renew_config (ct_attempts ?r + 1) (Rate_limited = Rate_limited))"
    using a_failed_renewal_is_due_at_once [OF _ d _ one, of 10] by auto
  then have r1: "r1 \<in> set (due_for_renewal (10 + hours 720) (sc_rows st1))" "ct_attempts r1 = 8"
    "ct_next_renew r1 = Some (10 + hours 24)"
    using b by (simp_all add: before)
  have d2: "?r \<in> set (due_for_renewal (10 + hours 720) (sc_rows ?st))" using d by (simp only: before)
  show ?thesis
    using d2 one r1 by (intro exI [of _ ?r] exI [of _ ?st] exI [of _ st1] exI [of _ e] conjI bexI [of _ r1]) simp_all
qed

end
