(* ===== verification/Leadership.thy ===== *)
theory Leadership
  imports Reconciler
begin

text \<open>
  \<open>internal/ha\<close>: the identity of a gateway process, the rows of gateway instances and the election of a
  leader among several processes (\<open>coordinator.go\<close>, \<open>repository.go\<close>, \<open>identity.go\<close>). Redis is one key
  with an expiry; whether a call is answered, the clock and the statements of the database are given by
  an environment for each tick. A tick that finds its own lock is split between \<open>GET\<close> and \<open>EXPIRE\<close>,
  which are two calls; the role and the lease in the database are written after the lock, at a later instant; the other calls of a tick are
  taken at one instant.
\<close>

section \<open>identity.go\<close>

text \<open>The state file; \<open>derive\<close> is the UUIDv5 of a host name, \<open>random\<close> a new UUID.\<close>

datatype file_read = No_file | File string | Unreadable

definition short_id_from_seed :: "(string \<Rightarrow> uuid) \<Rightarrow> uuid \<Rightarrow> string \<Rightarrow> string" where
  "short_id_from_seed derive random seed =
    (if trim_space seed = [] then short_id random else short_id (derive seed))"

definition load_or_create :: "(string \<Rightarrow> uuid) \<Rightarrow> uuid \<Rightarrow> string \<Rightarrow> bool \<Rightarrow> file_read \<Rightarrow> (string \<times> file_read) option" where
  "load_or_create derive random host writable f =
    (let create = (if writable
         then Some (short_id_from_seed derive random host, File (short_id_from_seed derive random host)) else None) in
     case f of
       Unreadable \<Rightarrow> None
     | No_file \<Rightarrow> create
     | File s \<Rightarrow> if trim_space s \<noteq> [] then Some (trim_space s, f) else create)"

definition resolve_id :: "(string \<Rightarrow> uuid) \<Rightarrow> uuid \<Rightarrow> string \<Rightarrow> bool \<Rightarrow> string \<Rightarrow> bool \<Rightarrow> file_read \<Rightarrow> string \<times> file_read" where
  "resolve_id derive random host writable configured has_path f =
    (if trim_space configured \<noteq> [] then (trim_space configured, f)
     else if \<not> has_path then (short_id_from_seed derive random host, f)
     else (case load_or_create derive random host writable f of
             Some r \<Rightarrow> r
           | None \<Rightarrow> (short_id_from_seed derive random host, f)))"

section \<open>model.go and repository.go\<close>

datatype gw_status = Gw_online | Gw_offline | Gw_draining | Gw_maintenance
datatype gw_role = Standalone | Leader | Follower

record gw_row =
  gi_id :: uuid
  gi_instance :: string
  gi_addr :: string
  gi_hostname :: string
  gi_status :: gw_status
  gi_role :: gw_role
  gi_lease :: "go_time option"
  gi_version :: string
  gi_started :: go_time
  gi_seen :: "go_time option"
  gi_created :: go_time
  gi_updated :: go_time

record registration =
  rg_instance :: string
  rg_addr :: string
  rg_hostname :: string
  rg_version :: string

text \<open>\<open>Upsert\<close>: a row of the instance is refreshed, keeping its identifier, its creation time and, when
none is given, its lease; the insertion of a taken identifier is refused.\<close>

definition upsert :: "uuid \<Rightarrow> go_time \<Rightarrow> registration \<Rightarrow> gw_status \<Rightarrow> gw_role \<Rightarrow> go_time option \<Rightarrow>
    gw_row list \<Rightarrow> (gw_row \<times> gw_row list) option" where
  "upsert fresh now reg status role lease rows =
    (let fill = (\<lambda>r. r\<lparr>gi_instance := rg_instance reg, gi_addr := rg_addr reg, gi_hostname := rg_hostname reg,
            gi_status := status, gi_role := role,
            gi_lease := (if lease = None then gi_lease r else lease), gi_version := rg_version reg,
            gi_started := now, gi_seen := Some now, gi_updated := now\<rparr>) in
     case find (\<lambda>r. gi_instance r = rg_instance reg) rows of
       Some r \<Rightarrow> Some (fill r, map (\<lambda>x. if gi_instance x = rg_instance reg then fill x else x) rows)
     | None \<Rightarrow>
         (let new = fill \<lparr>gi_id = fresh, gi_instance = [], gi_addr = [], gi_hostname = [], gi_status = status,
                gi_role = role, gi_lease = None, gi_version = [], gi_started = now, gi_seen = None,
                gi_created = now, gi_updated = now\<rparr>
          in if fresh \<in> gi_id ` set rows then None else Some (new, rows @ [new])))"

definition gw_by_id :: "gw_row list \<Rightarrow> uuid \<Rightarrow> gw_row option" where
  "gw_by_id rows i = find (\<lambda>r. gi_id r = i) rows"

definition edit_gw :: "(gw_row \<Rightarrow> bool) \<Rightarrow> (gw_row \<Rightarrow> gw_row) \<Rightarrow> gw_row list \<Rightarrow> gw_row list" where
  "edit_gw p f rows = map (\<lambda>r. if p r then f r else r) rows"

definition live_lease :: "go_time \<Rightarrow> gw_row \<Rightarrow> bool" where
  "live_lease now r \<longleftrightarrow> (case gi_lease r of None \<Rightarrow> True | Some t \<Rightarrow> now < t)"

definition list_leaders :: "go_time \<Rightarrow> gw_row list \<Rightarrow> gw_row list" where
  "list_leaders now rows = filter (\<lambda>r. gi_role r = Leader \<and> live_lease now r) rows"

definition gw_heartbeat :: "go_time \<Rightarrow> uuid \<Rightarrow> gw_role \<Rightarrow> go_time option \<Rightarrow> gw_row list \<Rightarrow> gw_row list option" where
  "gw_heartbeat now i role lease rows =
    (if gw_by_id rows i = None then None
     else Some (edit_gw (\<lambda>r. gi_id r = i) (\<lambda>r. r\<lparr>gi_status := Gw_online, gi_role := role, gi_seen := Some now,
       gi_updated := now, gi_lease := (if lease = None then gi_lease r else lease)\<rparr>) rows))"

text \<open>The condition of \<open>TryAcquireLeaseDB\<close> reads the row of the instance itself and no other.\<close>

definition may_acquire :: "go_time \<Rightarrow> uuid \<Rightarrow> gw_row \<Rightarrow> bool" where
  "may_acquire now i r \<longleftrightarrow> gi_id r = i \<and> gi_status r = Gw_online \<and> gi_role r \<noteq> Leader
    \<and> (case gi_lease r of None \<Rightarrow> True | Some t \<Rightarrow> t < now)"

definition try_acquire_lease :: "go_time \<Rightarrow> uuid \<Rightarrow> gw_role \<Rightarrow> go_time \<Rightarrow> gw_row list \<Rightarrow> bool \<times> gw_row list" where
  "try_acquire_lease now i role until rows =
    (list_ex (may_acquire now i) rows,
     edit_gw (may_acquire now i) (\<lambda>r. r\<lparr>gi_role := role, gi_lease := Some until, gi_updated := now\<rparr>) rows)"

definition may_renew :: "go_time \<Rightarrow> uuid \<Rightarrow> gw_row \<Rightarrow> bool" where
  "may_renew now i r \<longleftrightarrow> gi_id r = i \<and> gi_role r = Leader \<and> gi_status r = Gw_online \<and> live_lease now r"

definition try_renew_lease :: "go_time \<Rightarrow> uuid \<Rightarrow> go_time \<Rightarrow> gw_row list \<Rightarrow> bool \<times> gw_row list" where
  "try_renew_lease now i until rows =
    (list_ex (may_renew now i) rows,
     edit_gw (may_renew now i) (\<lambda>r. r\<lparr>gi_lease := Some until, gi_updated := now\<rparr>) rows)"

definition gw_mark_offline :: "go_time \<Rightarrow> go_time \<Rightarrow> gw_row list \<Rightarrow> gw_row list \<times> nat" where
  "gw_mark_offline now cutoff rows =
    (let p = (\<lambda>r. gi_status r \<noteq> Gw_maintenance \<and> (case gi_seen r of None \<Rightarrow> True | Some t \<Rightarrow> t < cutoff)) in
     (edit_gw p (\<lambda>r. r\<lparr>gi_status := Gw_offline, gi_role := Follower, gi_updated := now\<rparr>) rows,
      length (filter p rows)))"

section \<open>coordinator.go\<close>

record ha_config =
  hc_instance :: string
  hc_addr :: string
  hc_hostname :: string
  hc_version :: string
  hc_enabled :: bool
  hc_heartbeat :: int
  hc_ttl :: int

record coordinator =
  cd_cfg :: ha_config
  cd_redis :: bool
  cd_logger :: bool
  cd_db :: "uuid option"
  cd_leader :: bool
  cd_extending :: bool \<comment> \<open>between \<open>GET\<close> and \<open>EXPIRE\<close> of a tick\<close>

definition new_coordinator :: "bool \<Rightarrow> bool \<Rightarrow> ha_config \<Rightarrow> coordinator" where
  "new_coordinator redis logger cfg =
    \<lparr>cd_cfg = cfg, cd_redis = redis, cd_logger = logger, cd_db = None, cd_leader = False, cd_extending = False\<rparr>"

text \<open>What \<open>Run\<close> fills in before the loop.\<close>

definition run_defaults :: "coordinator \<Rightarrow> coordinator" where
  "run_defaults co = co\<lparr>cd_cfg := (cd_cfg co)\<lparr>
     hc_heartbeat := (if hc_heartbeat (cd_cfg co) \<le> 0 then 5 * second else hc_heartbeat (cd_cfg co)),
     hc_ttl := (if hc_ttl (cd_cfg co) \<le> 0 then 10 * second else hc_ttl (cd_cfg co))\<rparr>\<rparr>"

text \<open>The lock with its expiry, and the table all processes share.\<close>

record ha_world =
  hw_rows :: "gw_row list"
  hw_lock :: "(string \<times> go_time) option"

text \<open>What a tick meets: the clock (a later one for the writes to the database that follow \<open>SET NX\<close> and \<open>EXPIRE\<close>), which calls of Redis are
answered, whether the database takes statements, and the identifier of a new row.\<close>

record ha_env =
  he_now :: go_time
  he_db_now :: go_time
  he_get :: bool
  he_setnx :: bool
  he_expire :: bool
  he_db :: bool
  he_fresh :: uuid

definition holder :: "go_time \<Rightarrow> ha_world \<Rightarrow> string option" where
  "holder now w = (case hw_lock w of None \<Rightarrow> None | Some (h, t) \<Rightarrow> if now < t then Some h else None)"

definition lease_until :: "go_time \<Rightarrow> coordinator \<Rightarrow> go_time" where
  "lease_until now co = now + hc_ttl (cd_cfg co)"

definition update_role :: "ha_env \<Rightarrow> go_time \<Rightarrow> gw_role \<Rightarrow> coordinator \<Rightarrow> ha_world \<Rightarrow> ha_world" where
  "update_role env now role co w =
    (case cd_db co of
       None \<Rightarrow> w
     | Some i \<Rightarrow>
         if \<not> he_db env then w
         else (case gw_heartbeat now i role (Some (lease_until now co)) (hw_rows w) of
                 None \<Rightarrow> w
               | Some rows \<Rightarrow> w\<lparr>hw_rows := rows\<rparr>))"

definition ha_register :: "ha_env \<Rightarrow> coordinator \<Rightarrow> ha_world \<Rightarrow> coordinator \<times> ha_world" where
  "ha_register env co w =
    (if \<not> he_db env then (co, w)
     else (case upsert (he_fresh env) (he_now env)
              \<lparr>rg_instance = hc_instance (cd_cfg co), rg_addr = hc_addr (cd_cfg co),
               rg_hostname = hc_hostname (cd_cfg co), rg_version = hc_version (cd_cfg co)\<rparr>
              Gw_online Follower None (hw_rows w) of
             None \<Rightarrow> (co, w)
           | Some (r, rows) \<Rightarrow> (co\<lparr>cd_db := Some (gi_id r)\<rparr>, w\<lparr>hw_rows := rows\<rparr>)))"

definition acquire_leader_db :: "ha_env \<Rightarrow> coordinator \<Rightarrow> ha_world \<Rightarrow> bool \<times> ha_world" where
  "acquire_leader_db env co w =
    (case cd_db co of
       None \<Rightarrow> (False, w)
     | Some i \<Rightarrow>
         if \<not> he_db env then (False, w)
         else (case try_acquire_lease (he_now env) i Leader (lease_until (he_now env) co) (hw_rows w) of
                 (ok, rows) \<Rightarrow>
                   if ok then (True, update_role env (he_now env) Leader co (w\<lparr>hw_rows := rows\<rparr>))
                   else (False, w\<lparr>hw_rows := rows\<rparr>)))"

definition acquire_leader :: "ha_env \<Rightarrow> coordinator \<Rightarrow> ha_world \<Rightarrow> bool \<times> ha_world" where
  "acquire_leader env co w =
    (if cd_redis co then
       if \<not> he_setnx env then acquire_leader_db env co w
       else if holder (he_now env) w = None
         then (True, update_role env (he_db_now env) Leader co
                (w\<lparr>hw_lock := Some (hc_instance (cd_cfg co), lease_until (he_now env) co)\<rparr>))
         else (False, w)
     else acquire_leader_db env co w)"

text \<open>\<open>renewLeader\<close> up to \<open>EXPIRE\<close>: a lock that is gone is reported by the client as an error, like a
call that fails.\<close>

datatype renewing = Extend_lock | Lock_lost | Try_database

definition renew_begin :: "ha_env \<Rightarrow> coordinator \<Rightarrow> ha_world \<Rightarrow> renewing" where
  "renew_begin env co w =
    (if \<not> cd_redis co \<or> \<not> he_get env then Try_database
     else (case holder (he_now env) w of
             None \<Rightarrow> Try_database
           | Some h \<Rightarrow> if h = hc_instance (cd_cfg co) then Extend_lock else Lock_lost))"

definition renew_db :: "ha_env \<Rightarrow> coordinator \<Rightarrow> ha_world \<Rightarrow> bool \<times> ha_world" where
  "renew_db env co w =
    (case cd_db co of
       None \<Rightarrow> (False, w)
     | Some i \<Rightarrow>
         if \<not> he_db env then (False, w)
         else (case try_renew_lease (he_now env) i (lease_until (he_now env) co) (hw_rows w) of
                 (ok, rows) \<Rightarrow> (ok, w\<lparr>hw_rows := rows\<rparr>)))"

definition compete :: "ha_env \<Rightarrow> coordinator \<Rightarrow> ha_world \<Rightarrow> coordinator \<times> ha_world" where
  "compete env co w =
    (case acquire_leader env co w of (ok, w') \<Rightarrow> (co\<lparr>cd_leader := ok\<rparr>, w'))"

definition tick :: "ha_env \<Rightarrow> coordinator \<Rightarrow> ha_world \<Rightarrow> coordinator \<times> ha_world" where
  "tick env co w =
    (case cd_db co of
       None \<Rightarrow> ha_register env co w
     | Some i \<Rightarrow>
         if \<not> hc_enabled (cd_cfg co) then
           (co, (case (if he_db env then gw_heartbeat (he_now env) i Follower None (hw_rows w) else None) of
                   None \<Rightarrow> w
                 | Some rows \<Rightarrow> w\<lparr>hw_rows := rows\<rparr>))
         else if \<not> cd_leader co then compete env co w
         else (case renew_begin env co w of
                 Extend_lock \<Rightarrow> (co\<lparr>cd_extending := True\<rparr>, w)
               | Lock_lost \<Rightarrow> compete env (co\<lparr>cd_leader := False\<rparr>) w
               | Try_database \<Rightarrow>
                   (case renew_db env co w of
                      (True, w') \<Rightarrow> (co, w')
                    | (False, w') \<Rightarrow> compete env (co\<lparr>cd_leader := False\<rparr>) w')))"

text \<open>The rest of such a tick: \<open>EXPIRE\<close> of the key, whoever holds it now; when it fails, the warning asks the nil error
of \<open>GET\<close> for its text.\<close>

definition tick_extend :: "ha_env \<Rightarrow> coordinator \<Rightarrow> ha_world \<Rightarrow> (coordinator \<times> ha_world) outcome" where
  "tick_extend env co w =
    (if \<not> cd_extending co then Returns (co, w)
     else if he_expire env then Returns
       (co\<lparr>cd_extending := False\<rparr>,
        update_role env (he_db_now env) Leader co
          (case holder (he_now env) w of
             None \<Rightarrow> w\<lparr>hw_lock := None\<rparr>
           | Some h \<Rightarrow> w\<lparr>hw_lock := Some (h, lease_until (he_now env) co)\<rparr>))
     else if cd_logger co then Panics
     else (case renew_db env (co\<lparr>cd_extending := False\<rparr>) w of
             (True, w') \<Rightarrow> Returns (co\<lparr>cd_extending := False\<rparr>, w')
           | (False, w') \<Rightarrow> Returns (compete env (co\<lparr>cd_extending := False, cd_leader := False\<rparr>) w')))"

definition release_leader :: "ha_env \<Rightarrow> coordinator \<Rightarrow> ha_world \<Rightarrow> ha_world" where
  "release_leader env co w =
    (let w1 = (if cd_leader co \<and> cd_redis co \<and> he_get env \<and> holder (he_now env) w = Some (hc_instance (cd_cfg co))
               then w\<lparr>hw_lock := None\<rparr> else w) in
     case cd_db co of
       None \<Rightarrow> w1
     | Some i \<Rightarrow>
         (case (if he_db env then gw_heartbeat (he_now env) i Follower (Some (he_now env)) (hw_rows w1) else None) of
            None \<Rightarrow> w1
          | Some rows \<Rightarrow> w1\<lparr>hw_rows := rows\<rparr>))"

section \<open>Several processes\<close>

text \<open>The processes with what they share, the last instant, and for each process the end of the term it was
last granted (what it may rely on without asking again).\<close>

record cluster =
  cl_proc :: "nat \<Rightarrow> coordinator"
  cl_world :: ha_world
  cl_term :: "nat \<Rightarrow> go_time"
  cl_now :: go_time

datatype ha_event = Tick nat ha_env | Extend nat ha_env | Leave nat ha_env


definition put_proc :: "go_time \<Rightarrow> nat \<Rightarrow> bool \<Rightarrow> coordinator \<times> ha_world \<Rightarrow> cluster \<Rightarrow> cluster" where
  "put_proc now k granted x c = c\<lparr>
     cl_proc := (cl_proc c)(k := fst x), cl_world := snd x, cl_now := now,
     cl_term := (if granted then (cl_term c)(k := lease_until now (fst x)) else cl_term c)\<rparr>"

text \<open>A process that panics or leaves starts again as one that has registered nothing.\<close>

definition restarted :: "coordinator \<Rightarrow> coordinator" where
  "restarted co = co\<lparr>cd_db := None, cd_leader := False, cd_extending := False\<rparr>"

fun ha_step :: "cluster \<Rightarrow> ha_event \<Rightarrow> cluster" where
  "ha_step c (Tick k env) =
    (if cd_extending (cl_proc c k) then c
     else (let x = tick env (cl_proc c k) (cl_world c) in
           put_proc (he_now env) k (cd_leader (fst x) \<and> \<not> cd_extending (fst x)) x c))"
| "ha_step c (Extend k env) =
    (if \<not> cd_extending (cl_proc c k) then c
     else (case tick_extend env (cl_proc c k) (cl_world c) of
             Panics \<Rightarrow> put_proc (he_now env) k False (restarted (cl_proc c k), cl_world c) c
           | Returns x \<Rightarrow> put_proc (he_now env) k (cd_leader (fst x)) x c))"
| "ha_step c (Leave k env) =
    put_proc (he_now env) k False (restarted (cl_proc c k), release_leader env (cl_proc c k) (cl_world c)) c"

definition in_term :: "cluster \<Rightarrow> nat \<Rightarrow> bool" where
  "in_term c k \<longleftrightarrow> cd_leader (cl_proc c k) \<and> cl_now c < cl_term c k"






text \<open>The start: every process with a configuration of its own name, all with Redis, on a table left by earlier
processes and a free lock.\<close>

definition ha_start :: "(nat \<Rightarrow> ha_config) \<Rightarrow> gw_row list \<Rightarrow> go_time \<Rightarrow> cluster" where
  "ha_start cfg rows now =
    \<lparr>cl_proc = (\<lambda>k. run_defaults (new_coordinator True True (cfg k))),
     cl_world = \<lparr>hw_rows = rows, hw_lock = None\<rparr>, cl_term = (\<lambda>k. now), cl_now = now\<rparr>"


subsection \<open>The invariant\<close>

definition same_fleet :: "(nat \<Rightarrow> ha_config) \<Rightarrow> cluster \<Rightarrow> bool" where
  "same_fleet cfg c \<longleftrightarrow> (\<forall>k. cd_cfg (cl_proc c k) = cd_cfg (run_defaults (new_coordinator True True (cfg k)))
     \<and> cd_redis (cl_proc c k) \<and> (cd_extending (cl_proc c k) \<longrightarrow> cd_leader (cl_proc c k))
     \<and> (cd_leader (cl_proc c k) \<longrightarrow> cd_db (cl_proc c k) \<noteq> None \<and> hc_enabled (cd_cfg (cl_proc c k)))
     \<and> cl_term c k \<le> lease_until (cl_now c) (cl_proc c k))"



lemma run_cfg [simp]:
  "hc_instance (cd_cfg (run_defaults co)) = hc_instance (cd_cfg co)"
  "hc_enabled (cd_cfg (run_defaults co)) = hc_enabled (cd_cfg co)"
  "0 < hc_ttl (cd_cfg (run_defaults co))"
  by (simp_all add: run_defaults_def second_def)

lemma fleet_ttl: "same_fleet cfg c \<Longrightarrow> now < lease_until now (cl_proc c k)"
  by (simp add: same_fleet_def lease_until_def)




lemma update_role_lock [simp]: "hw_lock (update_role env now role co w) = hw_lock w"
  by (simp add: update_role_def split: option.split)

subsection \<open>Ticks on a Redis that answers\<close>

definition compete_redis :: "ha_env \<Rightarrow> coordinator \<Rightarrow> ha_world \<Rightarrow> coordinator \<times> ha_world" where
  "compete_redis env co w =
    (if holder (he_now env) w = None
     then (co\<lparr>cd_leader := True\<rparr>, update_role env (he_db_now env) Leader co
             (w\<lparr>hw_lock := Some (hc_instance (cd_cfg co), lease_until (he_now env) co)\<rparr>))
     else (co\<lparr>cd_leader := False\<rparr>, w))"

lemma compete_redis: "cd_redis co \<Longrightarrow> he_setnx env \<Longrightarrow> compete env co w = compete_redis env co w"
  by (simp add: compete_def compete_redis_def acquire_leader_def)




subsection \<open>Every such step keeps the invariant\<close>














section \<open>One leader at a time\<close>


definition gw_config :: "nat \<Rightarrow> ha_config" where
  "gw_config k = \<lparr>hc_instance = ''gw-'' @ replicate k CHR ''i'', hc_addr = ''10.0.0.1'', hc_hostname = [],
     hc_version = ''1'', hc_enabled = True, hc_heartbeat = 3, hc_ttl = 10\<rparr>"

definition good_env :: "go_time \<Rightarrow> uuid \<Rightarrow> ha_env" where
  "good_env now fresh = \<lparr>he_now = now, he_db_now = now, he_get = True, he_setnx = True, he_expire = True,
     he_db = True, he_fresh = fresh\<rparr>"


text \<open>Two processes register and compete; the first is elected, and its lease in the database is written two units after the lock. It extends
the lock in time.\<close>

definition two_gateways :: "ha_event list" where
  "two_gateways = [Tick 0 (good_env 1 ''a''), Tick 1 (good_env 1 ''b''), Tick 0 (good_env 4 []), Tick 1 (good_env 5 [])]"



section \<open>When the calls fail\<close>

text \<open>Property C39. Without Redis the lease in the database elects everyone: a process whose own row is online,
no leader and without a live lease becomes leader at its next tick although another row holds a live
leader lease, and that lease stays, so the table then lists two leaders. The condition of the update
reads only the row of the process itself.\<close>

theorem the_database_elects_a_second_leader:
  assumes "\<not> cd_redis co" and "hc_enabled (cd_cfg co)" and "\<not> cd_leader co" and "0 < hc_ttl (cd_cfg co)"
    and "cd_db co = Some i" and "he_db env"
    and "r \<in> set (hw_rows w)" and "may_acquire (he_now env) i r"
    and "r0 \<in> set (list_leaders (he_now env) (hw_rows w))" and "gi_id r0 \<noteq> i"
  shows "cd_leader (fst (tick env co w))
    \<and> r0 \<in> set (list_leaders (he_now env) (hw_rows (snd (tick env co w))))
    \<and> (\<exists>r1 \<in> set (list_leaders (he_now env) (hw_rows (snd (tick env co w)))). gi_id r1 = i)"
proof -
  let ?now = "he_now env" and ?until = "lease_until (he_now env) co"
  let ?f = "\<lambda>r. r\<lparr>gi_role := Leader, gi_lease := Some ?until, gi_updated := ?now\<rparr>"
  let ?g = "\<lambda>r. r\<lparr>gi_status := Gw_online, gi_role := Leader, gi_seen := Some ?now, gi_updated := ?now,
     gi_lease := Some ?until\<rparr>"
  define rows1 where "rows1 = edit_gw (may_acquire ?now i) ?f (hw_rows w)"
  define rows2 where "rows2 = edit_gw (\<lambda>r. gi_id r = i) ?g rows1"
  have i: "gi_id r = i" using assms(8) by (simp add: may_acquire_def)
  have r1: "?f r \<in> set rows1" using assms(7,8) by (auto simp: rows1_def edit_gw_def image_iff)
  moreover have "gi_id (?f r) = i" using i by simp
  ultimately have "\<exists>x \<in> set rows1. gi_id x = i" by blast
  then have "gw_by_id rows1 i \<noteq> None" by (simp add: gw_by_id_def find_cong_None)
  then have hb: "gw_heartbeat ?now i Leader (Some ?until) rows1 = Some rows2"
    by (simp add: gw_heartbeat_def rows2_def)
  have ok: "list_ex (may_acquire ?now i) (hw_rows w)" using assms(7,8) by (auto simp: list_ex_iff)
  have x: "tick env co w = (co\<lparr>cd_leader := True\<rparr>, w\<lparr>hw_rows := rows2\<rparr>)"
    using assms(1-6) ok hb
    by (simp add: tick_def compete_def acquire_leader_def acquire_leader_db_def try_acquire_lease_def
        update_role_def rows1_def)
  have "r0 \<in> set rows2"
    using assms(9,10) by (auto simp: rows2_def rows1_def edit_gw_def list_leaders_def may_acquire_def image_iff)
  moreover have "?g (?f r) \<in> set rows2"
  proof -
    have "(if gi_id (?f r) = i then ?g (?f r) else ?f r) \<in> set rows2"
      unfolding rows2_def edit_gw_def set_map by (rule imageI [OF r1])
    then show ?thesis using i by simp
  qed
  moreover have "?now < ?until" using assms(4) by (simp add: lease_until_def)
  ultimately show ?thesis
    using assms(9) i unfolding x by (auto simp: list_leaders_def live_lease_def intro!: bexI [of _ "?g (?f r)"])
qed

text \<open>Two processes without Redis: both register, the first has been elected, the second ticks.\<close>

definition alone :: "nat \<Rightarrow> coordinator" where
  "alone k = run_defaults (new_coordinator False True (gw_config k))"

definition first_elected :: ha_world where
  "first_elected =
    (let a = ha_register (good_env 1 ''a'') (alone 0) \<lparr>hw_rows = [], hw_lock = None\<rparr>;
         b = ha_register (good_env 1 ''b'') (alone 1) (snd a)
     in snd (tick (good_env 4 []) (fst a) (snd b)))"

theorem the_database_elects_a_second_leader_witness:
  "\<exists>r r0. r \<in> set (hw_rows first_elected) \<and> r0 \<in> set (list_leaders 5 (hw_rows first_elected)) \<and> gi_id r0 = ''a''
    \<and> (let x = tick (good_env 5 []) ((alone 1)\<lparr>cd_db := Some ''b''\<rparr>) first_elected in
        cd_leader (fst x) \<and> r0 \<in> set (list_leaders 5 (hw_rows (snd x)))
        \<and> (\<exists>r1 \<in> set (list_leaders 5 (hw_rows (snd x))). gi_id r1 = ''b''))"
proof -
  have "map gi_id (list_leaders 5 (hw_rows first_elected)) = [''a'']" by code_simp
  then obtain r0 where r0: "r0 \<in> set (list_leaders 5 (hw_rows first_elected))" "gi_id r0 = ''a''" by force
  have "list_ex (may_acquire 5 ''b'') (hw_rows first_elected)" by code_simp
  then obtain r where r: "r \<in> set (hw_rows first_elected)" "may_acquire 5 ''b'' r" by (auto simp: list_ex_iff)
  have "\<not> cd_redis (alone 1)" "hc_enabled (cd_cfg (alone 1))" "\<not> cd_leader (alone 1)" "0 < hc_ttl (cd_cfg (alone 1))"
    by code_simp+
  moreover have "he_db (good_env 5 [])" "he_now (good_env 5 []) = 5" by (simp_all add: good_env_def)
  ultimately have "cd_leader (fst (tick (good_env 5 []) ((alone 1)\<lparr>cd_db := Some ''b''\<rparr>) first_elected))
    \<and> r0 \<in> set (list_leaders 5 (hw_rows (snd (tick (good_env 5 []) ((alone 1)\<lparr>cd_db := Some ''b''\<rparr>) first_elected))))
    \<and> (\<exists>r1 \<in> set (list_leaders 5 (hw_rows (snd (tick (good_env 5 []) ((alone 1)\<lparr>cd_db := Some ''b''\<rparr>) first_elected)))).
         gi_id r1 = ''b'')"
    using the_database_elects_a_second_leader [of "(alone 1)\<lparr>cd_db := Some ''b''\<rparr>" "''b''" "good_env 5 []" r first_elected r0] r r0
    by simp
  then show ?thesis using r r0 by (auto simp: Let_def)
qed

text \<open>An \<open>EXPIRE\<close> that fails ends the process: its warning asks the error of \<open>GET\<close>, which is nil there, for its text.\<close>

lemma a_failed_expire_panics:
  "cd_extending co \<Longrightarrow> \<not> he_expire env \<Longrightarrow> cd_logger co \<Longrightarrow> tick_extend env co w = Panics"
  by (simp add: tick_extend_def)

text \<open>A follower in a fleet with Redis writes nothing: its row is never seen again after the registration.\<close>

lemma followers_never_beat:
  assumes "cd_db co = Some i" "hc_enabled (cd_cfg co)" "\<not> cd_leader co" "cd_redis co" "he_setnx env"
    and "holder (he_now env) w = Some h"
  shows "tick env co w = (co, w)"
  using assms by (simp add: tick_def compete_redis compete_redis_def)

text \<open>\<open>GET\<close> and \<open>EXPIRE\<close> are two calls: when the lock runs out between them and another process takes it, the
late \<open>EXPIRE\<close> prolongs the lock of the other, and both are leaders.\<close>

lemma a_late_expire_elects_two:
  "let c = foldl ha_step (ha_start gw_config [] 0)
     (two_gateways @ [Tick 0 (good_env 13 []), Tick 1 (good_env 15 []), Extend 0 (good_env 16 [])])
   in in_term c 0 \<and> in_term c 1 \<and> hw_lock (cl_world c) = Some (''gw-i'', 26)"
  by code_simp

text \<open>The lease in the database is written after the lock, so it ends later; a leader that asks in between renews the
lease, stays leader without the lock, and another process takes the lock.\<close>

lemma the_lease_outlasts_the_lock:
  "let c = foldl ha_step (ha_start gw_config [] 0)
     (two_gateways @ [Tick 0 (good_env 12 []), Extend 0 ((good_env 12 [])\<lparr>he_db_now := 14\<rparr>),
        Tick 0 (good_env 23 []), Tick 1 (good_env 23 [])])
   in in_term c 0 \<and> in_term c 1"
  by code_simp

text \<open>A host name gives the same identity to every process on the host that has neither a configured name nor a file.\<close>

lemma same_host_same_identity:
  assumes "trim_space host \<noteq> []"
  shows "fst (resolve_id derive rnd host wr [] False f) = fst (resolve_id derive rnd2 host wr2 [] False f2)"
proof -
  have "trim_space ([] :: string) = []" by (simp add: trim_space_def)
  then show ?thesis using assms by (simp add: resolve_id_def short_id_from_seed_def)
qed

end
