(* ===== verification/Data_Paths.thy ===== *)
theory Data_Paths
  imports Go_Text
begin

text \<open>
  Where the data of a project lives: the checks of path segments (\<open>pkg/pathseg.go\<close>), the data path
  \<open><tenant>/<template>/<project>\<close> (\<open>project/datapath.go\<close>), the mounts a deployment may ask for
  (\<open>deployment/mounts.go\<close>), and the node's own check when it turns a mount into a bind of a host
  directory (\<open>nodeagent/docker/mount.go\<close>). Paths are strings of bytes; links in the file system of the host are not
  modelled. The locale \<open>path_guard\<close> states what both lines of defence promise of a path they let pass.
\<close>

section \<open>Segments and \<open>path.Clean\<close>\<close>

fun join_path :: "string list \<Rightarrow> string" where
  "join_path [] = []"
| "join_path [s] = s"
| "join_path (s # ss) = s @ CHR ''/'' # join_path ss"

abbreviation segments :: "string \<Rightarrow> string list" where
  "segments \<equiv> split_byte CHR ''/''"

definition proper :: "string \<Rightarrow> bool" where
  "proper s \<longleftrightarrow> s \<noteq> [] \<and> s \<noteq> ''.'' \<and> s \<noteq> ''..''"

text \<open>The lexical rules of \<open>path.Clean\<close>: empty segments and \<open>.\<close> go, \<open>..\<close> takes the name before it away, and at the
root it goes as well.\<close>

definition clean_step :: "bool \<Rightarrow> string list \<Rightarrow> string \<Rightarrow> string list" where
  "clean_step rooted acc s =
    (if s = [] \<or> s = ''.'' then acc
     else if s = ''..'' then
       (if acc \<noteq> [] \<and> last acc \<noteq> ''..'' then butlast acc else if rooted then acc else acc @ [''..''])
     else acc @ [s])"

definition clean_segments :: "bool \<Rightarrow> string list \<Rightarrow> string list" where
  "clean_segments rooted ss = foldl (clean_step rooted) [] ss"

definition path_clean :: "string \<Rightarrow> string" where
  "path_clean p =
    (if p = [] then ''.''
     else if hd p = CHR ''/'' then CHR ''/'' # join_path (clean_segments True (segments p))
     else case clean_segments False (segments p) of [] \<Rightarrow> ''.'' | ss \<Rightarrow> join_path ss)"

text \<open>\<open>path.Join\<close> of two paths.\<close>

definition path_join :: "string \<Rightarrow> string \<Rightarrow> string" where
  "path_join a b =
    (if a = [] then (if b = [] then [] else path_clean b)
     else if b = [] then path_clean a else path_clean (a @ CHR ''/'' # b))"

section \<open>Segments of the data path\<close>

datatype path_error =
  Seg_empty | Seg_long | Seg_dots | Seg_chars | Sub_empty | Sub_absolute | Sub_redundant
| Bad_target | Twice_path | Twice_target | No_root | Outside_root

definition seg_allowed :: "char \<Rightarrow> bool" where
  "seg_allowed r \<longleftrightarrow> is_lower r \<or> is_upper r \<or> is_digit r \<or> r \<in> {CHR ''_'', CHR ''-'', CHR ''.''}"

definition validate_segment :: "string \<Rightarrow> path_error option" where
  "validate_segment s =
    (if s = [] then Some Seg_empty
     else if 64 < length s then Some Seg_long
     else if s = ''.'' \<or> s = ''..'' then Some Seg_dots
     else if \<not> list_all seg_allowed s then Some Seg_chars
     else None)"

definition to_slash :: "string \<Rightarrow> string" where
  "to_slash s = map (\<lambda>c. if c = CHR 0x5C then CHR ''/'' else c) s"

definition is_windows_abs :: "string \<Rightarrow> bool" where
  "is_windows_abs s \<longleftrightarrow> 3 \<le> length s \<and> (is_lower (s ! 0) \<or> is_upper (s ! 0)) \<and> s ! 1 = CHR '':''
     \<and> (s ! 2 = CHR ''/'' \<or> s ! 2 = CHR 0x5C)"

definition absolute :: "string \<Rightarrow> bool" where
  "absolute p \<longleftrightarrow> has_prefix p ''/'' \<or> is_windows_abs p"

fun first_error :: "('a \<Rightarrow> 'e option) \<Rightarrow> 'a list \<Rightarrow> 'e option" where
  "first_error f [] = None"
| "first_error f (x # xs) = (case f x of None \<Rightarrow> first_error f xs | Some e \<Rightarrow> Some e)"

definition validate_subpath :: "string \<Rightarrow> path_error option" where
  "validate_subpath p0 =
    (let p = trim_space (to_slash p0) in
     if p = [] then Some Sub_empty
     else if absolute p then Some Sub_absolute
     else if p \<noteq> path_clean p then Some Sub_redundant
     else first_error validate_segment (segments p))"

record data_path =
  dp_tenant :: string
  dp_template :: string
  dp_project :: string
  dp_rel :: string

definition build_data_path :: "string \<Rightarrow> string \<Rightarrow> string \<Rightarrow> path_error + data_path" where
  "build_data_path tenant_slug template_slug project_name =
    (let tenant = trim_space tenant_slug; template = trim_space template_slug; project = trim_space project_name in
     case validate_segment tenant of Some e \<Rightarrow> Inl e | None \<Rightarrow>
     case validate_segment template of Some e \<Rightarrow> Inl e | None \<Rightarrow>
     case validate_segment project of Some e \<Rightarrow> Inl e | None \<Rightarrow>
       Inr \<lparr>dp_tenant = tenant, dp_template = template, dp_project = project,
            dp_rel = tenant @ ''/'' @ template @ ''/'' @ project\<rparr>)"

definition data_sub :: "data_path \<Rightarrow> string \<Rightarrow> path_error + string" where
  "data_sub d sub0 =
    (let sub = trim_space (to_slash sub0) in
     if sub = [] then Inr (dp_rel d)
     else case validate_subpath sub of Some e \<Rightarrow> Inl e | None \<Rightarrow> Inr (dp_rel d @ ''/'' @ sub))"

section \<open>Mounts\<close>

record mount =
  mt_path :: string
  mt_target :: string
  mt_read_only :: bool

definition bad_target :: "mount \<Rightarrow> bool" where
  "bad_target m \<longleftrightarrow> trim_space (mt_target m) = [] \<or> \<not> has_prefix (trim_space (mt_target m)) ''/''"

fun check_mounts :: "string set \<Rightarrow> string set \<Rightarrow> mount list \<Rightarrow> path_error option" where
  "check_mounts paths targets [] = None"
| "check_mounts paths targets (m # ms) =
    (let p = trim_space (to_slash (mt_path m)); target = trim_space (mt_target m) in
     case validate_subpath p of Some e \<Rightarrow> Some e | None \<Rightarrow>
       if bad_target m then Some Bad_target
       else if p \<in> paths then Some Twice_path
       else if target \<in> targets then Some Twice_target
       else check_mounts (insert p paths) (insert target targets) ms)"

definition validate_mounts :: "mount list \<Rightarrow> path_error option" where
  "validate_mounts ms = check_mounts {} {} ms"

subsection \<open>On the node\<close>

fun strip_trailing :: "string \<Rightarrow> string" where
  "strip_trailing s = (if 1 < length s \<and> has_suffix s ''/'' then strip_trailing (butlast s) else s)"

declare strip_trailing.simps [simp del]

definition normalize_root :: "string \<Rightarrow> string" where
  "normalize_root s0 = (let s = trim_space s0 in if s = [] then [] else strip_trailing (to_slash s))"

definition clean_subdir :: "string \<Rightarrow> path_error + string" where
  "clean_subdir p0 =
    (let p = trim_space (to_slash p0) in
     if p = [] then Inl Sub_empty
     else if absolute p then Inl Sub_absolute
     else if p \<noteq> path_clean p then Inl Sub_redundant
     else if \<exists>s \<in> set (segments p). s = ''..'' \<or> s = ''.'' \<or> s = [] then Inl Seg_dots
     else Inr p)"

definition within_root :: "string \<Rightarrow> string \<Rightarrow> bool" where
  "within_root root0 child0 =
    (let root = normalize_root root0; child = path_clean (to_slash child0) in
     root \<noteq> [] \<and> (child = root \<or> has_prefix child (root @ ''/'')))"

definition bind_of :: "string \<Rightarrow> mount \<Rightarrow> path_error + string" where
  "bind_of root m =
    (if bad_target m then Inl Bad_target
     else case clean_subdir (mt_path m) of
       Inl e \<Rightarrow> Inl e
     | Inr sub \<Rightarrow>
         if \<not> within_root root (path_join root sub) then Inl Outside_root
         else Inr (path_join root sub @ '':'' @ trim_space (mt_target m) @ (if mt_read_only m then '':ro'' else [])))"

fun bind_all :: "string \<Rightarrow> mount list \<Rightarrow> path_error + string list" where
  "bind_all root [] = Inr []"
| "bind_all root (m # ms) =
    (case bind_of root m of Inl e \<Rightarrow> Inl e | Inr b \<Rightarrow>
       (case bind_all root ms of Inl e \<Rightarrow> Inl e | Inr bs \<Rightarrow> Inr (b # bs)))"

definition build_binds :: "string \<Rightarrow> mount list \<Rightarrow> path_error + string list" where
  "build_binds root ms =
    (if ms = [] then Inr [] else if root = [] then Inl No_root else bind_all root ms)"

section \<open>Cleaning\<close>

lemma split_join: "ss \<noteq> [] \<Longrightarrow> \<forall>s \<in> set ss. CHR ''/'' \<notin> set s \<Longrightarrow> segments (join_path ss) = ss"
  by (induction ss rule: join_path.induct) (auto simp: split_byte_single split_byte_append)

lemma join_split [simp]: "join_path (segments s) = s"
proof (induction s)
  case (Cons c s)
  then show ?case
    by (cases "segments s"; cases "tl (segments s)") auto
qed simp

lemma join_append: "a \<noteq> [] \<Longrightarrow> b \<noteq> [] \<Longrightarrow> join_path (a @ b) = join_path a @ CHR ''/'' # join_path b"
proof (induction a rule: join_path.induct)
  case (2 s)
  then show ?case by (cases b) auto
qed auto

lemma segments_slash_free: "s \<in> set (segments p) \<Longrightarrow> CHR ''/'' \<notin> set s"
  by (rule split_byte_fields)

lemma segments_join_slash: "segments (a @ CHR ''/'' # b) = segments a @ segments b"
  by (rule split_byte_concat)

text \<open>Segments that cleaning keeps: names, after some \<open>..\<close> when the path is relative.\<close>

definition cleaned :: "bool \<Rightarrow> string list \<Rightarrow> bool" where
  "cleaned rooted ss \<longleftrightarrow> (\<exists>k names. ss = replicate k ''..'' @ names \<and> list_all proper names \<and> (rooted \<longrightarrow> k = 0))"

lemma proper_dots [simp]: "\<not> proper ''..''" "\<not> proper ''.''" "\<not> proper []"
  by (simp_all add: proper_def)

lemma cleaned_Nil [simp]: "cleaned r []"
  by (auto simp: cleaned_def)

lemma cleaned_names: "list_all proper names \<Longrightarrow> cleaned r names"
  unfolding cleaned_def by (rule exI [of _ 0], rule exI [of _ names]) simp

lemma cleaned_append: "cleaned r ss \<Longrightarrow> list_all proper names \<Longrightarrow> cleaned r (ss @ names)"
  by (fastforce simp: cleaned_def)

lemma last_replicate_names: "list_all proper names \<Longrightarrow> names \<noteq> [] \<Longrightarrow> last (replicate k x @ names) \<noteq> ''..''"
  using last_in_set [of names] by (auto simp: list_all_iff proper_def)

lemma clean_step_cleaned: "cleaned r acc \<Longrightarrow> cleaned r (clean_step r acc s)"
proof -
  assume "cleaned r acc"
  then obtain k names where acc: "acc = replicate k ''..'' @ names" and n: "list_all proper names"
    and k: "r \<Longrightarrow> k = 0"
    by (auto simp: cleaned_def)
  show ?thesis
  proof (cases "s = ''..''")
    case s: True
    show ?thesis
    proof (cases "names = []")
      case True
      have "cleaned r (replicate k ''..'' @ (if r then [] else [''..'']))"
        unfolding cleaned_def
        by (rule exI [of _ "if r then k else Suc k"], rule exI [of _ "[]"])
          (use k in \<open>auto simp: replicate_append_same [symmetric]\<close>)
      moreover have "clean_step r acc s = replicate k ''..'' @ (if r then [] else [''..''])"
        using s acc True k by (cases k) (auto simp: clean_step_def replicate_append_same simp flip: replicate_Suc)
      ultimately show ?thesis by simp
    next
      case False
      then have "list_all proper (butlast names)"
        using n by (auto simp: list_all_iff dest: in_set_butlastD)
      moreover have "clean_step r acc s = replicate k ''..'' @ butlast names"
        using s acc False last_replicate_names [OF n False, of k "''..''"]
        by (simp add: clean_step_def butlast_append)
      ultimately show ?thesis
        using k by (auto simp: cleaned_def)
    qed
  next
    case False
    then show ?thesis
      using \<open>cleaned r acc\<close> cleaned_append [of r acc "[s]"] by (auto simp: clean_step_def proper_def)
  qed
qed

lemma foldl_cleaned: "cleaned r acc \<Longrightarrow> cleaned r (foldl (clean_step r) acc ss)"
  by (induction ss arbitrary: acc) (auto intro: clean_step_cleaned)

lemma clean_segments_cleaned [simp]: "cleaned r (clean_segments r ss)"
  by (simp add: clean_segments_def foldl_cleaned)

lemma foldl_names: "list_all proper names \<Longrightarrow> foldl (clean_step r) acc names = acc @ names"
  by (induction names arbitrary: acc) (auto simp: clean_step_def proper_def)

lemma foldl_dots: "foldl (clean_step False) (replicate j ''..'') (replicate k ''..'') = replicate (j + k) ''..''"
proof (induction k arbitrary: j)
  case (Suc k)
  have "clean_step False (replicate j ''..'') ''..'' = replicate (Suc j) ''..''"
  proof (cases j)
    case (Suc i)
    then show ?thesis by (auto simp: clean_step_def replicate_append_same simp flip: replicate_Suc)
  qed (simp add: clean_step_def)
  then show ?case using Suc [of "Suc j"] by simp
qed simp

lemma clean_segments_idem: "cleaned r ss \<Longrightarrow> clean_segments r ss = ss"
proof -
  assume "cleaned r ss"
  then obtain k names where ss: "ss = replicate k ''..'' @ names" and n: "list_all proper names" and k: "r \<Longrightarrow> k = 0"
    by (auto simp: cleaned_def)
  have "foldl (clean_step r) [] (replicate k ''..'') = replicate k ''..''"
    using k foldl_dots [of 0 k] by (cases r) auto
  then show ?thesis
    by (simp add: clean_segments_def ss foldl_names n)
qed

lemma clean_segments_names: "list_all proper names \<Longrightarrow> clean_segments r (ss @ names) = clean_segments r ss @ names"
  by (simp add: clean_segments_def foldl_names)

lemma clean_segments_blank [simp]: "clean_segments r ([] # ss) = clean_segments r ss"
  by (simp add: clean_segments_def clean_step_def)

lemma clean_segments_length: "length (clean_segments r ss) \<le> length ss"
proof -
  have "length (foldl (clean_step r) acc ss) \<le> length acc + length ss" for acc
  proof (induction ss arbitrary: acc)
    case (Cons s ss)
    have "length (clean_step r acc s) \<le> Suc (length acc)"
      by (auto simp: clean_step_def)
    then show ?case using Cons [of "clean_step r acc s"] by simp
  qed simp
  from this [of "[]"] show ?thesis by (simp add: clean_segments_def)
qed

lemma clean_segments_subset: "set (clean_segments r ss) \<subseteq> set ss"
proof -
  have "set (foldl (clean_step r) acc ss) \<subseteq> set acc \<union> set ss" for acc
  proof (induction ss arbitrary: acc)
    case (Cons s ss)
    have "set (clean_step r acc s) \<subseteq> insert s (set acc)"
      by (auto simp: clean_step_def dest: in_set_butlastD)
    then show ?case using Cons [of "clean_step r acc s"] by auto
  qed simp
  from this [of "[]"] show ?thesis by (auto simp: clean_segments_def)
qed

lemma cleaned_nonempty: "cleaned r ss \<Longrightarrow> s \<in> set ss \<Longrightarrow> s \<noteq> []"
proof -
  assume "cleaned r ss" and s: "s \<in> set ss"
  then obtain k names where "ss = replicate k ''..'' @ names" "list_all proper names"
    by (auto simp: cleaned_def)
  with s have "s \<in> set (replicate k ''..'') \<or> proper s" by (auto simp: list_all_iff)
  then show "s \<noteq> []" by (auto simp: set_replicate_conv_if split: if_splits)
qed

lemma clean_slash_free [simp]: "\<forall>s \<in> set (clean_segments r (segments p)). CHR ''/'' \<notin> set s"
  using clean_segments_subset [of r "segments p"] segments_slash_free [of _ p] by (meson subsetD)

lemma segments_rooted: "segments (CHR ''/'' # p) = [] # segments p"
  by simp

lemma hd_join: "ss \<noteq> [] \<Longrightarrow> hd ss \<noteq> [] \<Longrightarrow> hd (join_path ss) = hd (hd ss)"
  by (induction ss rule: join_path.induct) (auto simp: hd_append)

lemma join_nonempty: "ss \<noteq> [] \<Longrightarrow> hd ss \<noteq> [] \<Longrightarrow> join_path ss \<noteq> []"
  by (induction ss rule: join_path.induct) auto

lemma clean_rooted_fix:
  assumes "cleaned True ss" "\<forall>s \<in> set ss. CHR ''/'' \<notin> set s"
  shows "path_clean (CHR ''/'' # join_path ss) = CHR ''/'' # join_path ss"
proof (cases "ss = []")
  case True
  then show ?thesis by (simp add: path_clean_def clean_segments_def clean_step_def)
next
  case False
  then show ?thesis
    using split_join [OF False assms(2)] clean_segments_idem [OF assms(1)] by (simp add: path_clean_def)
qed

lemma clean_relative_fix:
  assumes c: "cleaned False ss" and f: "\<forall>s \<in> set ss. CHR ''/'' \<notin> set s" and ne: "ss \<noteq> []"
  shows "path_clean (join_path ss) = join_path ss"
proof -
  have h: "hd ss \<in> set ss" "hd ss \<noteq> []"
    using ne cleaned_nonempty [OF c, of "hd ss"] by auto
  then have "hd (join_path ss) \<noteq> CHR ''/''" "join_path ss \<noteq> []"
    using f hd_join [OF ne h(2)] join_nonempty [OF ne h(2)] hd_in_set [OF h(2)] by metis+
  then show ?thesis
    using split_join [OF ne f] clean_segments_idem [OF c] ne by (simp add: path_clean_def split: list.split)
qed

lemma path_clean_dot [simp]: "path_clean ''.'' = ''.''"
  by (simp add: path_clean_def clean_segments_def clean_step_def)

lemma path_clean_idem [simp]: "path_clean (path_clean p) = path_clean p"
proof (cases "p \<noteq> [] \<and> hd p = CHR ''/''")
  case True
  then show ?thesis
    using clean_rooted_fix [OF clean_segments_cleaned clean_slash_free, of p] by (simp add: path_clean_def [of p])
next
  case False
  then show ?thesis
    using clean_relative_fix [OF clean_segments_cleaned clean_slash_free, of p]
    by (auto simp: path_clean_def [of p] split: list.split)
qed

lemma join_chars: "set (join_path ss) \<subseteq> insert (CHR ''/'') (\<Union> (set ` set ss))"
  by (induction ss rule: join_path.induct) auto

lemma join_keeps: "s \<in> set ss \<Longrightarrow> set s \<subseteq> set (join_path ss)"
  by (induction ss rule: join_path.induct) auto

lemma path_clean_chars: "set (path_clean p) \<subseteq> set p \<union> {CHR ''/'', CHR ''.''}"
proof -
  have "set s \<subseteq> set p" if "s \<in> set (clean_segments r (segments p))" for s r
    using that clean_segments_subset [of r "segments p"] join_keeps [of s "segments p"] by auto
  then have "set (join_path (clean_segments r (segments p))) \<subseteq> insert (CHR ''/'') (set p)" for r
    using join_chars [of "clean_segments r (segments p)"] by blast
  from this [of True] this [of False] show ?thesis
    by (auto simp: path_clean_def split: list.split)
qed

lemma to_slash_id: "CHR 0x5C \<notin> set p \<Longrightarrow> to_slash p = p"
  by (induction p) (auto simp: to_slash_def)

lemma to_slash_none [simp]: "CHR 0x5C \<notin> set (to_slash p)"
  by (auto simp: to_slash_def)

section \<open>A path under a root\<close>

text \<open>What a bind may name: some names, at least one, under the root.\<close>

definition beneath :: "string \<Rightarrow> string \<Rightarrow> bool" where
  "beneath root p \<longleftrightarrow> (\<exists>names. names \<noteq> [] \<and> list_all proper names \<and> p = root @ CHR ''/'' # join_path names)"

lemma segments_join:
  assumes "root \<noteq> []" and names: "list_all proper (segments q)"
  shows "segments (path_join root q) =
    (if hd root = CHR ''/'' then [] # clean_segments True (tl (segments root)) @ segments q
     else clean_segments False (segments root) @ segments q)"
proof -
  have q: "q \<noteq> []" "segments q \<noteq> []" using names by (auto simp: proper_def)
  have f: "\<forall>s \<in> set (clean_segments r (segments root) @ segments q). CHR ''/'' \<notin> set s" for r
    using segments_slash_free by auto
  have c: "clean_segments r (segments (root @ CHR ''/'' # q)) = clean_segments r (segments root) @ segments q" for r
    using names by (simp add: segments_join_slash clean_segments_names)
  have j: "segments (join_path (clean_segments r (segments root) @ segments q)) = clean_segments r (segments root) @ segments q" for r
    using split_join [OF _ f] q by simp
  show ?thesis
  proof (cases "hd root = CHR ''/''")
    case True
    then obtain xs where "root = CHR ''/'' # xs" using assms(1) by (cases root) auto
    then have "clean_segments True (segments root) = clean_segments True (tl (segments root))" by simp
    with True c [of True] j [of True] assms(1) q show ?thesis
      by (simp add: path_join_def path_clean_def)
  next
    case False
    with c [of False] j [of False] assms(1) q show ?thesis
      by (simp add: path_join_def path_clean_def split: list.split) metis
  qed
qed

lemma strip_chars: "set (strip_trailing s) \<subseteq> set s"
proof (induction s rule: strip_trailing.induct)
  case (1 s)
  then show ?case
    using in_set_butlastD [of _ s] by (subst strip_trailing.simps) (auto split: if_splits)
qed

lemma normal_root_plain: "normalize_root root = root \<Longrightarrow> CHR 0x5C \<notin> set root"
proof -
  assume n: "normalize_root root = root"
  have "CHR 0x5C \<notin> set (normalize_root root)"
    using strip_chars [of "to_slash (trim_space root)"] to_slash_none [of "trim_space root"]
    by (auto simp: normalize_root_def Let_def)
  with n show ?thesis by simp
qed

lemma join_plain:
  assumes "CHR 0x5C \<notin> set a" "CHR 0x5C \<notin> set b"
  shows "CHR 0x5C \<notin> set (path_join a b)"
  using assms path_clean_chars [of a] path_clean_chars [of b] path_clean_chars [of "a @ CHR ''/'' # b"]
  by (auto simp: path_join_def)

lemma path_join_clean [simp]: "a \<noteq> [] \<Longrightarrow> path_clean (path_join a b) = path_join a b"
  by (simp add: path_join_def)

lemma names_suffix:
  assumes "xs @ ys = clean_segments r xs @ names" "list_all proper names"
  shows "list_all proper ys \<and> (ys = [] \<longrightarrow> names = [])"
proof
  have "length (clean_segments r xs) \<le> length xs" by (rule clean_segments_length)
  with assms(1) obtain us where "xs = clean_segments r xs @ us" "names = us @ ys"
    by (metis append_eq_append_conv_if append_take_drop_id append_eq_conv_conj append_eq_append_conv2)
  then show "list_all proper ys" using assms(2) by simp
  show "ys = [] \<longrightarrow> names = []"
  proof
    assume "ys = []"
    then have xs: "xs = clean_segments r xs @ names" using assms(1) by simp
    have "clean_segments r xs = clean_segments r (clean_segments r xs @ names)" using xs by simp
    also have "\<dots> = clean_segments r xs @ names"
      by (rule clean_segments_idem) (simp add: cleaned_append assms(2))
    finally show "names = []" by simp
  qed
qed

lemma join_beneath:
  assumes root: "normalize_root root = root" and names: "list_all proper (segments q)"
    and q: "CHR 0x5C \<notin> set q" and w: "within_root root (path_join root q)"
  shows "beneath root (path_join root q)"
proof -
  have ne: "root \<noteq> []" using w root by (simp add: within_root_def Let_def)
  let ?S = "path_join root q"
  have "to_slash ?S = ?S"
    using to_slash_id join_plain [OF normal_root_plain [OF root] q] by blast
  with w root ne have S: "?S = root \<or> (\<exists>rest. ?S = root @ CHR ''/'' # rest)"
    by (auto simp: within_root_def Let_def has_prefix_append)
  have sr: "segments ?S = (if hd root = CHR ''/'' then [] # clean_segments True (tl (segments root)) @ segments q
     else clean_segments False (segments root) @ segments q)"
    using segments_join [OF ne names] by blast
  have split: "list_all proper ys \<and> ys \<noteq> []" if "segments ?S = segments root @ ys" for ys
  proof (cases "hd root = CHR ''/''")
    case True
    then obtain zs where "segments root = [] # zs" using ne by (cases root) auto
    with that sr True have "zs @ ys = clean_segments True zs @ segments q" by simp
    from names_suffix [OF this names] show ?thesis by auto
  next
    case False
    with that sr have "segments root @ ys = clean_segments False (segments root) @ segments q" by simp
    from names_suffix [OF this names] show ?thesis by auto
  qed
  have "?S \<noteq> root" using split [of "[]"] by auto
  with S obtain rest where rest: "?S = root @ CHR ''/'' # rest" by blast
  then have "segments ?S = segments root @ segments rest" by (simp add: segments_join_slash)
  then show ?thesis
    using split [of "segments rest"] rest unfolding beneath_def by (metis join_split)
qed

text \<open>A root a node can serve: absolute, clean, and not the root of the file system.\<close>

definition good_root :: "string \<Rightarrow> bool" where
  "good_root root \<longleftrightarrow> has_prefix root ''/'' \<and> path_clean root = root \<and> root \<noteq> ''/'' \<and> normalize_root root = root"

lemma join_good:
  assumes "good_root root" and names: "list_all proper (segments q)"
  shows "path_join root q = root @ CHR ''/'' # q"
proof -
  obtain xs where root: "root = CHR ''/'' # xs" using assms(1) by (auto simp: good_root_def has_prefix_append)
  let ?ss = "clean_segments True (segments root)"
  have r: "root = CHR ''/'' # join_path ?ss"
    using assms(1) root by (simp add: good_root_def path_clean_def)
  then have ss: "?ss \<noteq> []" using assms(1) by (auto simp: good_root_def)
  have "clean_segments True (segments (root @ CHR ''/'' # q)) = ?ss @ segments q"
    using names by (simp add: segments_join_slash clean_segments_names)
  then have "path_join root q = CHR ''/'' # join_path (?ss @ segments q)"
    using root names by (auto simp: path_join_def path_clean_def proper_def)
  also have "\<dots> = root @ CHR ''/'' # q"
    using r ss by (simp add: join_append)
  finally show ?thesis .
qed

lemma join_good_within:
  assumes "good_root root" "list_all proper (segments q)" "CHR 0x5C \<notin> set q"
  shows "within_root root (path_join root q)"
proof -
  have n: "normalize_root root = root" "root \<noteq> []" using assms(1) by (auto simp: good_root_def has_prefix_append)
  then have "to_slash (path_join root q) = path_join root q"
    using to_slash_id join_plain [OF normal_root_plain assms(3)] by blast
  with n join_good [OF assms(1,2)] show ?thesis
    by (simp add: within_root_def Let_def has_prefix_append flip: join_good [OF assms(1,2)])
      (simp add: join_good [OF assms(1,2)])
qed

section \<open>The two lines of defence\<close>

lemma trim_plain: "CHR 0x5C \<notin> set s \<Longrightarrow> CHR 0x5C \<notin> set (trim_space s)"
  by (auto dest: trim_space_subset)

lemma to_slash_trim [simp]: "to_slash (trim_space (to_slash s)) = trim_space (to_slash s)"
  by (rule to_slash_id) (simp add: trim_plain)

lemma first_error_None: "first_error f xs = None \<longleftrightarrow> (\<forall>x \<in> set xs. f x = None)"
  by (induction xs) (auto split: option.split)

lemma valid_segment: "validate_segment s = None \<longleftrightarrow> proper s \<and> length s \<le> 64 \<and> list_all seg_allowed s"
  by (auto simp: validate_segment_def proper_def)

lemma seg_allowed_not [simp]: "\<not> seg_allowed CHR '':''" "\<not> seg_allowed CHR ''/''" "\<not> seg_allowed CHR 0x5C"
  by (simp_all add: seg_allowed_def is_lower_def is_upper_def is_digit_def code_def)

lemma seg_allowed_no_space: "seg_allowed c \<Longrightarrow> \<not> is_space c"
  by (auto simp: seg_allowed_def is_lower_def is_upper_def is_digit_def code_def is_space_def)

text \<open>A path all of whose segments are valid.\<close>

definition valid_path :: "string \<Rightarrow> bool" where
  "valid_path p \<longleftrightarrow> (\<forall>s \<in> set (segments p). validate_segment s = None)"

lemma valid_path_chars: "valid_path p \<Longrightarrow> c \<in> set p \<Longrightarrow> seg_allowed c \<or> c = CHR ''/''"
  using join_chars [of "segments p"] by (force simp: valid_path_def valid_segment list_all_iff)

lemma valid_path_proper: "valid_path p \<Longrightarrow> list_all proper (segments p)"
  by (simp add: valid_path_def valid_segment list_all_iff)

lemma valid_path_nonempty: "valid_path p \<Longrightarrow> p \<noteq> []"
  by (auto dest: valid_path_proper)

lemma valid_path_plain: "valid_path p \<Longrightarrow> CHR 0x5C \<notin> set p"
  using valid_path_chars [of p "CHR 0x5C"] by auto

lemma valid_path_trim: "valid_path p \<Longrightarrow> trim_space p = p"
  using valid_path_chars seg_allowed_no_space by (intro trim_space_id) (force simp: is_space_def)

lemma valid_path_relative: "valid_path p \<Longrightarrow> \<not> absolute p"
proof
  assume v: "valid_path p" and "absolute p"
  then consider xs where "p = CHR ''/'' # xs" | "3 \<le> length p" "p ! 1 = CHR '':''"
    by (auto simp: absolute_def is_windows_abs_def has_prefix_append)
  then show False
  proof cases
    case 1
    then show ?thesis using valid_path_proper [OF v] by simp
  next
    case 2
    then have "CHR '':'' \<in> set p" using nth_mem [of 1 p] by simp
    then show ?thesis using valid_path_chars [OF v] by fastforce
  qed
qed

lemma names_clean: "list_all proper (segments p) \<Longrightarrow> path_clean p = p"
proof -
  assume n: "list_all proper (segments p)"
  then have "p \<noteq> []" "hd p \<noteq> CHR ''/''"
    by (auto, cases p) auto
  then show ?thesis
    using clean_segments_idem [OF cleaned_names [OF n]] n by (simp add: path_clean_def split: list.split) (metis join_split)
qed

lemma subpath_valid: "validate_subpath p = None \<longleftrightarrow> valid_path (trim_space (to_slash p))"
proof (cases "valid_path (trim_space (to_slash p))")
  case True
  then show ?thesis
    using valid_path_nonempty [OF True] valid_path_relative [OF True] names_clean [OF valid_path_proper [OF True]]
    by (simp add: validate_subpath_def Let_def first_error_None valid_path_def)
qed (auto simp: validate_subpath_def Let_def first_error_None valid_path_def)

lemma clean_subdir_valid:
  assumes "valid_path (trim_space (to_slash p))"
  shows "clean_subdir p = Inr (trim_space (to_slash p))"
  using valid_path_nonempty [OF assms] valid_path_relative [OF assms] names_clean [OF valid_path_proper [OF assms]]
    valid_path_proper [OF assms]
  by (auto simp: clean_subdir_def Let_def list_all_iff)

text \<open>What a check of paths promises of the path it lets pass: names only, and no backslash.\<close>

locale path_guard =
  fixes admit :: "string \<Rightarrow> string option"
  assumes names: "admit p = Some q \<Longrightarrow> list_all proper (segments q)"
    and plain: "admit p = Some q \<Longrightarrow> CHR 0x5C \<notin> set q"
begin

lemma stays_beneath:
  "admit p = Some q \<Longrightarrow> normalize_root root = root \<Longrightarrow> within_root root (path_join root q) \<Longrightarrow>
    beneath root (path_join root q)"
  by (rule join_beneath) (simp_all add: names plain)

lemma goes_through: "admit p = Some q \<Longrightarrow> good_root root \<Longrightarrow> within_root root (path_join root q)"
  by (rule join_good_within) (simp_all add: names plain)

lemma joined: "admit p = Some q \<Longrightarrow> good_root root \<Longrightarrow> path_join root q = root @ CHR ''/'' # q"
  by (rule join_good) (simp_all add: names)

end

definition admitted_by_node :: "string \<Rightarrow> string option" where
  "admitted_by_node p = (case clean_subdir p of Inl _ \<Rightarrow> None | Inr q \<Rightarrow> Some q)"

definition admitted_by_gateway :: "string \<Rightarrow> string option" where
  "admitted_by_gateway p = (if validate_subpath p = None then Some (trim_space (to_slash p)) else None)"

interpretation node_guard: path_guard admitted_by_node
  by unfold_locales
    (auto simp: admitted_by_node_def clean_subdir_def Let_def list_all_iff proper_def trim_plain split: sum.splits if_splits)

interpretation gateway_guard: path_guard admitted_by_gateway
  by unfold_locales
    (auto simp: admitted_by_gateway_def subpath_valid valid_path_proper valid_path_plain split: if_splits)

lemma gateway_then_node: "admitted_by_gateway p = Some q \<Longrightarrow> admitted_by_node p = Some q \<and> admitted_by_node q = Some q"
  using clean_subdir_valid [of p] clean_subdir_valid [of q]
  by (auto simp: admitted_by_gateway_def admitted_by_node_def subpath_valid split: if_splits)

section \<open>Binds\<close>

definition bind_text :: "string \<Rightarrow> mount \<Rightarrow> string" where
  "bind_text src m = src @ '':'' @ trim_space (mt_target m) @ (if mt_read_only m then '':ro'' else [])"

lemma bind_of_node:
  "bind_of root m = Inr b \<longleftrightarrow> (\<exists>q. \<not> bad_target m \<and> admitted_by_node (mt_path m) = Some q
     \<and> within_root root (path_join root q) \<and> b = bind_text (path_join root q) m)"
  by (auto simp: bind_of_def admitted_by_node_def bind_text_def split: sum.splits)

lemma bind_all_list: "bind_all root ms = Inr bs \<longleftrightarrow> list_all2 (\<lambda>m b. bind_of root m = Inr b) ms bs"
proof (induction ms arbitrary: bs)
  case (Cons m ms)
  then show ?case
    by (cases "bind_of root m"; cases "bind_all root ms") (auto simp: list_all2_Cons1)
qed auto

lemma check_mounts_all:
  "check_mounts ps ts ms = None \<Longrightarrow> m \<in> set ms \<Longrightarrow> \<not> bad_target m \<and> validate_subpath (trim_space (to_slash (mt_path m))) = None"
  by (induction ps ts ms rule: check_mounts.induct) (auto simp: Let_def split: option.splits if_splits)

lemma validated_mount:
  assumes "validate_mounts ms = None" "m \<in> set ms"
  shows "\<not> bad_target m \<and> admitted_by_gateway (mt_path m) = Some (trim_space (to_slash (mt_path m)))"
  using check_mounts_all [of _ _ ms m] assms
  by (auto simp: validate_mounts_def admitted_by_gateway_def subpath_valid)

text \<open>Property C7. Whatever mounts the control plane sends, and whatever paths they name, every bind the
node hands to Docker has a host directory strictly beneath the data root, reached from it by names alone; a mount that would leave the
root makes the whole request fail.\<close>

theorem binds_stay_under_the_root:
  assumes "normalize_root root = root" and "build_binds root ms = Inr bs"
  shows "list_all2 (\<lambda>m b. \<exists>src. beneath root src \<and> b = bind_text src m) ms bs"
proof -
  have "list_all2 (\<lambda>m b. bind_of root m = Inr b) ms bs"
    using assms(2) by (auto simp: build_binds_def bind_all_list split: if_splits)
  then show ?thesis
    by (rule list_all2_mono) (auto simp: bind_of_node intro!: node_guard.stays_beneath assms(1))
qed

definition db_mount :: mount where
  "db_mount = \<lparr>mt_path = ''acme'' @ CHR 0x5C # ''shop/db'', mt_target = ''/var/lib'', mt_read_only = True\<rparr>"

lemma srv_root: "good_root ''/srv''"
  by (simp add: good_root_def has_prefix_def path_clean_def clean_segments_def clean_step_def normalize_root_def
      trim_space_def is_space_def to_slash_def strip_trailing.simps has_suffix_def)

theorem binds_stay_under_the_root_witness:
  "list_all2 (\<lambda>m b. \<exists>src. beneath ''/srv'' src \<and> b = bind_text src m) [db_mount] [''/srv/acme/shop/db:/var/lib:ro'']"
proof (rule binds_stay_under_the_root)
  show "normalize_root ''/srv'' = ''/srv''" using srv_root by (simp add: good_root_def)
  show "build_binds ''/srv'' [db_mount] = Inr [''/srv/acme/shop/db:/var/lib:ro'']"
    by code_simp
qed

text \<open>Property C18. The two lines of defence agree: mounts the gateway accepts are accepted by every node with an absolute, clean root other
than \<open>/\<close>, and each becomes the bind of the very path the gateway has checked, put under that root.\<close>

theorem validated_mounts_are_bound:
  assumes "validate_mounts ms = None" and "good_root root"
  shows "build_binds root ms = Inr (map (\<lambda>m. bind_text (root @ ''/'' @ trim_space (to_slash (mt_path m))) m) ms)"
proof -
  have "bind_of root m = Inr (bind_text (root @ ''/'' @ trim_space (to_slash (mt_path m))) m)" if "m \<in> set ms" for m
    using validated_mount [OF assms(1) that] gateway_guard.joined [OF _ assms(2)] gateway_guard.goes_through [OF _ assms(2)]
      gateway_then_node by (auto simp: bind_of_node)
  then have "bind_all root ms = Inr (map (\<lambda>m. bind_text (root @ ''/'' @ trim_space (to_slash (mt_path m))) m) ms)"
    by (auto simp: bind_all_list list_all2_map2 list.rel_refl_strong)
  with assms(2) show ?thesis by (auto simp: build_binds_def good_root_def has_prefix_append)
qed

theorem validated_mounts_are_bound_witness: "build_binds ''/srv'' [db_mount] = Inr [''/srv/acme/shop/db:/var/lib:ro'']"
proof -
  have "validate_mounts [db_mount] = None" by code_simp
  from validated_mounts_are_bound [OF this srv_root] show ?thesis
    by (simp add: bind_text_def) code_simp
qed

section \<open>Data paths\<close>

lemma data_path_built:
  assumes "build_data_path t p n = Inr d"
  shows "segments (dp_rel d) = [dp_tenant d, dp_template d, dp_project d]" "valid_path (dp_rel d)"
    "dp_tenant d = trim_space t" "dp_template d = trim_space p" "dp_project d = trim_space n"
proof -
  have d: "d = \<lparr>dp_tenant = trim_space t, dp_template = trim_space p, dp_project = trim_space n,
      dp_rel = trim_space t @ ''/'' @ trim_space p @ ''/'' @ trim_space n\<rparr>"
    and v: "validate_segment (trim_space t) = None" "validate_segment (trim_space p) = None" "validate_segment (trim_space n) = None"
    using assms by (auto simp: build_data_path_def Let_def split: option.splits)
  have f: "CHR ''/'' \<notin> set s" if "validate_segment s = None" for s
    using that by (auto simp: valid_segment list_all_iff)
  show s: "segments (dp_rel d) = [dp_tenant d, dp_template d, dp_project d]"
    using v by (simp add: d split_byte_append split_byte_single f)
  show "valid_path (dp_rel d)" unfolding valid_path_def s using v by (simp add: d)
qed (use assms in \<open>auto simp: build_data_path_def Let_def split: option.splits\<close>)

text \<open>Property C37. Tenants are kept apart on the disks of the nodes: the data directories of two projects are equal, or one lies
inside the other, only when tenant, template and project are the same up to blanks around them.\<close>

theorem data_paths_are_apart:
  assumes "build_data_path t p n = Inr d" and "build_data_path t' p' n' = Inr d'"
    and "dp_rel d' = dp_rel d \<or> has_prefix (dp_rel d') (dp_rel d @ ''/'')"
  shows "trim_space t' = trim_space t \<and> trim_space p' = trim_space p \<and> trim_space n' = trim_space n"
proof -
  note s = data_path_built [OF assms(1)] data_path_built [OF assms(2)]
  from assms(3) have "dp_rel d' = dp_rel d"
  proof
    assume "has_prefix (dp_rel d') (dp_rel d @ ''/'')"
    then obtain rest where "dp_rel d' = dp_rel d @ CHR ''/'' # rest" by (auto simp: has_prefix_append)
    then have "segments (dp_rel d') = segments (dp_rel d) @ segments rest" by (simp add: segments_join_slash)
    then show ?thesis using s split_byte_nonempty [of "CHR ''/''" rest] by (auto simp del: split_byte_nonempty)
  qed
  then have "segments (dp_rel d') = segments (dp_rel d)" by simp
  then show ?thesis using s by simp
qed

theorem data_paths_are_apart_witness:
  "trim_space ''acme '' = trim_space ''acme'' \<and> trim_space ''web'' = trim_space ''web'' \<and> trim_space ''shop'' = trim_space ''shop''"
proof -
  have "build_data_path ''acme'' ''web'' ''shop'' = build_data_path ''acme '' ''web'' ''shop''" by code_simp
  moreover have "build_data_path ''acme'' ''web'' ''shop'' = Inr \<lparr>dp_tenant = ''acme'', dp_template = ''web'',
      dp_project = ''shop'', dp_rel = ''acme/web/shop''\<rparr>"
    by code_simp
  ultimately show ?thesis
    using data_paths_are_apart [of "''acme''" "''web''" "''shop''" _ "''acme ''" "''web''" "''shop''"] by (metis (no_types, lifting))
qed

text \<open>The blanks do matter: the slug of a tenant is stored as it is given, so these are two tenants with one directory.\<close>

lemma two_tenants_share_a_directory:
  "trim_space t = trim_space t' \<Longrightarrow> build_data_path t p n = build_data_path t' p n"
  by (simp add: build_data_path_def)

text \<open>A sub-directory of a data path that the gateway builds is one the node takes as it is.\<close>

lemma data_sub_admitted:
  assumes "build_data_path t p n = Inr d" and "data_sub d s = Inr q"
  shows "clean_subdir q = Inr q \<and> (q = dp_rel d \<or> has_prefix q (dp_rel d @ ''/''))"
proof -
  have v: "valid_path (dp_rel d)" by (rule data_path_built [OF assms(1)])
  from assms(2) have "q = dp_rel d \<or> (\<exists>x. q = dp_rel d @ ''/'' @ x \<and> valid_path x)"
    by (auto simp: data_sub_def Let_def subpath_valid split: if_splits option.splits)
  then have "valid_path q \<and> (q = dp_rel d \<or> has_prefix q (dp_rel d @ ''/''))"
    using v by (auto simp: valid_path_def segments_join_slash has_prefix_append)
  then show ?thesis
    using clean_subdir_valid [of q] by (simp add: valid_path_trim to_slash_id valid_path_plain)
qed

text \<open>Roots a node cannot serve: the root of the file system, and a relative root that is not clean.\<close>

lemma the_root_directory_binds_nothing:
  assumes "ms \<noteq> []" shows "build_binds ''/'' ms \<noteq> Inr bs"
proof
  assume b: "build_binds ''/'' ms = Inr bs"
  have r: "normalize_root ''/'' = ''/''"
    by (simp add: normalize_root_def trim_space_def is_space_def to_slash_def strip_trailing.simps)
  obtain m ms' where ms: "ms = m # ms'" using assms by (cases ms) auto
  with b obtain q where q: "admitted_by_node (mt_path m) = Some q" "within_root ''/'' (path_join ''/'' q)"
    by (auto simp: build_binds_def bind_of_node split: sum.splits)
  then have "beneath ''/'' (path_join ''/'' q)" using node_guard.stays_beneath r by blast
  then obtain names where "names \<noteq> []" "path_join ''/'' q = CHR ''/'' # CHR ''/'' # join_path names"
    by (auto simp: beneath_def)
  then have "segments (path_join ''/'' q) = [] # [] # segments (join_path names)" by simp
  moreover have "segments (path_join ''/'' q) = [] # segments q"
    using segments_join [of "''/''" q] node_guard.names [OF q(1)] by (simp add: clean_segments_def clean_step_def)
  ultimately show False using node_guard.names [OF q(1)] by simp
qed

end
