(* ===== verification/Templates.thy ===== *)
theory Templates
  imports Data_Paths "HOL-Library.List_Lexorder" "HOL-Library.Char_ord"
begin

text \<open>
  Application templates (\<open>apptemplate/model.go\<close>, \<open>render.go\<close>, \<open>repository.go\<close>): a Compose
  specification with holes \<open>{{key}}\<close>, the parameters that fill them, and the table of the templates, whose column
  \<open>slug\<close> is unique. The regular expressions of \<open>render.go\<close> are matched by a scanner. The texts of the errors are constructors.
\<close>

section \<open>Holes\<close>

text \<open>\<open>\s\<close> of the expression is ASCII without the vertical tab.\<close>

definition re_space :: "char \<Rightarrow> bool" where
  "re_space c \<longleftrightarrow> c \<in> set [CHR 0x20, CHR 0x09, CHR 0x0A, CHR 0x0C, CHR 0x0D]"

definition key_char :: "char \<Rightarrow> bool" where
  "key_char c \<longleftrightarrow> is_lower c \<or> is_upper c \<or> is_digit c \<or> c = CHR ''_''"

text \<open>The expression at the start of a text: the key, the text matched, and the rest. The classes of its parts do not meet, so no
backtracking is needed.\<close>

definition match_hole :: "string \<Rightarrow> (string \<times> string \<times> string) option" where
  "match_hole s =
    (if \<not> has_prefix s ''{{'' then None
     else let a = dropWhile re_space (drop 2 s); key = takeWhile key_char a;
              b = dropWhile re_space (dropWhile key_char a) in
       if key = [] \<or> \<not> has_prefix b ''}}'' then None
       else Some (key, take (length s - (length b - 2)) s, drop 2 b))"

datatype piece = Letter char | Hole string string

lemma match_hole_shorter: "match_hole s = Some (key, m, rest) \<Longrightarrow> length rest < length s"
proof -
  assume "match_hole s = Some (key, m, rest)"
  then have p: "has_prefix s ''{{''"
    and r: "rest = drop 2 (dropWhile re_space (dropWhile key_char (dropWhile re_space (drop 2 s))))"
    by (auto simp: match_hole_def Let_def split: if_splits)
  have "length (dropWhile re_space (dropWhile key_char (dropWhile re_space xs))) \<le> length xs" for xs
    by (meson length_dropWhile_le order_trans)
  from this [of "drop 2 s"] have "length rest \<le> length (drop 2 s)" by (simp add: r)
  moreover have "length (drop 2 s) < length s"
    using p by (auto simp: has_prefix_append)
  ultimately show ?thesis by simp
qed

function pieces :: "string \<Rightarrow> piece list" where
  "pieces [] = []"
| "pieces (c # s) =
    (case match_hole (c # s) of
       None \<Rightarrow> Letter c # pieces s
     | Some (key, m, rest) \<Rightarrow> Hole key m # pieces rest)"
  by pat_completeness auto
termination
  by (relation "measure length") (auto dest: match_hole_shorter)

definition hole_keys :: "string \<Rightarrow> string set" where
  "hole_keys spec = {k. \<exists>m. Hole k m \<in> set (pieces spec)}"

fun piece_key :: "piece \<Rightarrow> string option" where
  "piece_key (Letter c) = None"
| "piece_key (Hole k m) = Some k"

text \<open>\<open>Placeholders\<close>: the keys, each once, in order.\<close>

definition placeholders :: "string \<Rightarrow> string list" where
  "placeholders spec = sort (remdups (List.map_filter piece_key (pieces spec)))"

fun fill_piece :: "(string \<Rightarrow> string \<Rightarrow> string) \<Rightarrow> piece \<Rightarrow> string" where
  "fill_piece f (Letter c) = [c]"
| "fill_piece f (Hole k m) = f k m"

text \<open>\<open>ReplaceAllStringFunc\<close>.\<close>

definition replace_holes :: "(string \<Rightarrow> string \<Rightarrow> string) \<Rightarrow> string \<Rightarrow> string" where
  "replace_holes f spec = concat (map (fill_piece f) (pieces spec))"

section \<open>Parameters\<close>

definition data_path_key :: string where "data_path_key = ''data_path''"
definition port_key :: string where "port_key = ''port''"
definition data_dir_key :: string where "data_dir_key = ''data_dir''"

definition is_builtin :: "string \<Rightarrow> bool" where
  "is_builtin k \<longleftrightarrow> k = data_path_key \<or> k = port_key \<or> k = data_dir_key"

definition is_reserved :: "string \<Rightarrow> bool" where
  "is_reserved k \<longleftrightarrow> k = data_path_key \<or> k = data_dir_key"

definition is_passthrough :: "string \<Rightarrow> bool" where
  "is_passthrough k \<longleftrightarrow> k = data_dir_key"

datatype param_type = Pt_string | Pt_number | Pt_bool | Pt_select | Pt_other string

record param =
  pm_key :: string
  pm_label :: string
  pm_type :: param_type
  pm_required :: bool
  pm_default :: string
  pm_options :: "string list"
  pm_hint :: string

datatype template_status = Tm_active | Tm_disabled | Tm_other string

record template =
  tm_id :: uuid
  tm_name :: string
  tm_slug :: string
  tm_description :: string
  tm_spec :: string
  tm_params :: "param list"
  tm_status :: template_status
  tm_created :: go_time
  tm_updated :: go_time

datatype template_error =
  Bad_key nat | Reserved_key string | Repeated_key string | No_options string
| No_template | Undeclared string | Not_injected string | Missing string
| Not_number string | Not_bool string | Not_option string
| Bad_slug | Slug_taken | Template_missing

definition key_ok :: "string \<Rightarrow> bool" where
  "key_ok k \<longleftrightarrow> k \<noteq> [] \<and> list_all key_char k"

fun check_params :: "string set \<Rightarrow> nat \<Rightarrow> param list \<Rightarrow> template_error option" where
  "check_params seen i [] = None"
| "check_params seen i (p # ps) =
    (if \<not> key_ok (pm_key p) then Some (Bad_key (i + 1))
     else if is_reserved (pm_key p) then Some (Reserved_key (pm_key p))
     else if pm_key p \<in> seen then Some (Repeated_key (pm_key p))
     else if pm_type p = Pt_select \<and> pm_options p = [] then Some (No_options (pm_key p))
     else check_params (insert (pm_key p) seen) (i + 1) ps)"

definition validate_params :: "param list \<Rightarrow> template_error option" where
  "validate_params ps = check_params {} 0 ps"

subsection \<open>Values\<close>

definition parse_bool_ok :: "string \<Rightarrow> bool" where
  "parse_bool_ok s \<longleftrightarrow> s \<in> set [''1'', ''t'', ''T'', ''TRUE'', ''true'', ''True'', ''0'', ''f'', ''F'', ''FALSE'', ''false'', ''False'']"

text \<open>\<open>strconv.ParseFloat(s, 64)\<close> succeeds: \<open>inf\<close>, \<open>infinity\<close> (with a sign) and \<open>nan\<close>, in any case, or a decimal or
hexadecimal literal, with the underscores of Go, that is not too large for a float64. A scan returns the mantissa without its point, how many of its
digits follow the point, whether there was an underscore, and the rest.\<close>

record float_scan =
  fs_value :: int
  fs_frac :: nat
  fs_dot :: bool
  fs_digits :: bool
  fs_under :: bool

definition digit_of :: "bool \<Rightarrow> char \<Rightarrow> nat option" where
  "digit_of hex c =
    (if is_digit c then Some (code c - 48)
     else if hex \<and> 97 \<le> code (lower_char c) \<and> code (lower_char c) \<le> 102 then Some (code (lower_char c) - 87)
     else None)"

fun scan_mantissa :: "bool \<Rightarrow> float_scan \<Rightarrow> string \<Rightarrow> float_scan \<times> string" where
  "scan_mantissa hex f [] = (f, [])"
| "scan_mantissa hex f (c # s) =
    (if c = CHR ''_'' then scan_mantissa hex (f\<lparr>fs_under := True\<rparr>) s
     else if c = CHR ''.'' then (if fs_dot f then (f, c # s) else scan_mantissa hex (f\<lparr>fs_dot := True\<rparr>) s)
     else case digit_of hex c of
       None \<Rightarrow> (f, c # s)
     | Some d \<Rightarrow> scan_mantissa hex
         (f\<lparr>fs_value := fs_value f * (if hex then 16 else 10) + int d, fs_digits := True,
            fs_frac := (if fs_dot f then fs_frac f + 1 else fs_frac f)\<rparr>) s)"

fun scan_exponent :: "nat \<Rightarrow> bool \<Rightarrow> string \<Rightarrow> nat \<times> bool \<times> string" where
  "scan_exponent e u [] = (e, u, [])"
| "scan_exponent e u (c # s) =
    (if c = CHR ''_'' then scan_exponent e True s
     else if is_digit c then scan_exponent (if e < 10000 then e * 10 + (code c - 48) else e) u s
     else (e, u, c # s))"

text \<open>\<open>underscoreOK\<close>: an underscore stands between digits, or between a digit and a base prefix. The flag says whether the
character before is a digit (0), an underscore (1), or something else (2).\<close>

fun underscores_from :: "bool \<Rightarrow> nat \<Rightarrow> string \<Rightarrow> bool" where
  "underscores_from hex saw [] = (saw \<noteq> 1)"
| "underscores_from hex saw (c # s) =
    (if digit_of hex c \<noteq> None then underscores_from hex 0 s
     else if c = CHR ''_'' then saw = 0 \<and> underscores_from hex 1 s
     else saw \<noteq> 1 \<and> underscores_from hex 2 s)"

definition strip_sign :: "string \<Rightarrow> bool \<times> string" where
  "strip_sign s = (case s of c # t \<Rightarrow> if c = CHR ''-'' then (True, t) else if c = CHR ''+'' then (False, t) else (False, s)
     | [] \<Rightarrow> (False, s))"

definition underscore_ok :: "string \<Rightarrow> bool" where
  "underscore_ok s0 =
    (let s = snd (strip_sign s0) in
     if 2 \<le> length s \<and> s ! 0 = CHR ''0'' \<and> lower_char (s ! 1) \<in> {CHR ''b'', CHR ''o'', CHR ''x''}
     then underscores_from (lower_char (s ! 1) = CHR ''x'') 0 (drop 2 s)
     else underscores_from False 2 s)"

definition max_float_bound :: int where "max_float_bound = 2 ^ 1024 - 2 ^ 970"

definition parse_float_ok :: "string \<Rightarrow> bool" where
  "parse_float_ok s =
    (let t = snd (strip_sign s) in
     if to_lower t \<in> set [''inf'', ''infinity''] \<or> to_lower s = ''nan'' then True
     else
       let hex = (has_prefix t ''0x'' \<or> has_prefix t ''0X'') \<and> 2 < length t;
           (f, r) = scan_mantissa hex \<lparr>fs_value = 0, fs_frac = 0, fs_dot = False, fs_digits = False, fs_under = False\<rparr>
             (if hex then drop 2 t else t);
           base = (if hex then 2 else 10); mark = (if hex then CHR ''p'' else CHR ''e'') in
       if \<not> fs_digits f then False
       else
         let fits = (\<lambda>neg e. let down = (if hex then 4 * fs_frac f else fs_frac f) + (if neg then e else 0);
                                 up = (if neg then 0 else e) in
                       fs_value f * base ^ up < max_float_bound * base ^ down) in
         (case r of
            [] \<Rightarrow> \<not> hex \<and> (fs_under f \<longrightarrow> underscore_ok s) \<and> fits False 0
          | c # r1 \<Rightarrow>
              lower_char c = mark
              \<and> (let (neg, r2) = strip_sign r1; (e, u, r3) = scan_exponent 0 (fs_under f) r2 in
                 r2 \<noteq> [] \<and> is_digit (hd r2) \<and> r3 = [] \<and> (u \<longrightarrow> underscore_ok s) \<and> fits neg e)))"

definition check_value :: "param \<Rightarrow> string \<Rightarrow> template_error option" where
  "check_value p v =
    (case pm_type p of
       Pt_number \<Rightarrow> if parse_float_ok v then None else Some (Not_number (pm_label p))
     | Pt_bool \<Rightarrow> if parse_bool_ok v then None else Some (Not_bool (pm_label p))
     | Pt_select \<Rightarrow> if v \<in> set (pm_options p) then None else Some (Not_option (pm_label p))
     | _ \<Rightarrow> None)"

section \<open>Render\<close>

type_synonym valuation = "string \<Rightarrow> string"

text \<open>The values of the parameters in turn: blank ones fall back to the default, the others are trimmed and checked. The map of the caller is
changed on the way; an absent key reads as the empty string.\<close>

fun settle_values :: "param list \<Rightarrow> valuation \<Rightarrow> template_error + valuation" where
  "settle_values [] vs = Inr vs"
| "settle_values (p # ps) vs =
    (let v0 = trim_space (vs (pm_key p)) in
     if v0 = [] \<and> pm_required p then Inl (Missing (pm_label p))
     else let v = (if v0 = [] then pm_default p else v0) in
       if v = [] then settle_values ps vs
       else case check_value p v of
         Some e \<Rightarrow> Inl e
       | None \<Rightarrow> settle_values ps (vs(pm_key p := v)))"

definition declared_keys :: "template \<Rightarrow> string set" where
  "declared_keys t = pm_key ` set (tm_params t)"

definition undeclared :: "template \<Rightarrow> string \<Rightarrow> bool" where
  "undeclared t k \<longleftrightarrow> \<not> is_builtin k \<and> k \<notin> declared_keys t"

definition not_injected :: "template \<Rightarrow> valuation \<Rightarrow> string \<Rightarrow> bool" where
  "not_injected t vs k \<longleftrightarrow> \<not> is_passthrough k \<and> is_builtin k \<and> k \<notin> declared_keys t \<and> trim_space (vs k) = []"

definition fill :: "valuation \<Rightarrow> string \<Rightarrow> string \<Rightarrow> string" where
  "fill vs k m = (if is_passthrough k then m else vs k)"

definition render :: "template option \<Rightarrow> valuation \<Rightarrow> template_error + string" where
  "render ot vs =
    (case ot of
       None \<Rightarrow> Inl No_template
     | Some t \<Rightarrow>
         let keys = placeholders (tm_spec t) in
         case find (undeclared t) keys of
           Some k \<Rightarrow> Inl (Undeclared k)
         | None \<Rightarrow>
             case (if contains_text ''{{'' (tm_spec t) then find (not_injected t vs) keys else None) of
               Some k \<Rightarrow> Inl (Not_injected k)
             | None \<Rightarrow>
                 (case settle_values (tm_params t) vs of
                    Inl e \<Rightarrow> Inl e
                  | Inr vs' \<Rightarrow> Inr (replace_holes (fill vs') (tm_spec t))))"

section \<open>The table\<close>

record new_template =
  nt_name :: string
  nt_slug :: string
  nt_description :: string
  nt_spec :: string
  nt_params :: "param list"

record template_update =
  tu_name :: "string option"
  tu_description :: "string option"
  tu_clear_description :: bool
  tu_spec :: "string option"
  tu_params :: "param list option"
  tu_status :: "template_status option"

definition create_template :: "uuid \<Rightarrow> go_time \<Rightarrow> new_template \<Rightarrow> template list \<Rightarrow>
    template_error + template \<times> template list" where
  "create_template fresh now n rows =
    (if validate_segment (nt_slug n) \<noteq> None then Inl Bad_slug
     else case validate_params (nt_params n) of
       Some e \<Rightarrow> Inl e
     | None \<Rightarrow>
         if nt_slug n \<in> tm_slug ` set rows then Inl Slug_taken
         else let t = \<lparr>tm_id = fresh, tm_name = nt_name n, tm_slug = nt_slug n, tm_description = nt_description n,
                       tm_spec = nt_spec n, tm_params = nt_params n, tm_status = Tm_active,
                       tm_created = now, tm_updated = now\<rparr>
              in Inr (t, rows @ [t]))"

definition template_by_id :: "uuid \<Rightarrow> template list \<Rightarrow> template option" where
  "template_by_id i rows = find (\<lambda>t. tm_id t = i) rows"

definition apply_template_update :: "go_time \<Rightarrow> template_update \<Rightarrow> template \<Rightarrow> template" where
  "apply_template_update now u t = t\<lparr>
     tm_updated := now,
     tm_name := (case tu_name u of None \<Rightarrow> tm_name t | Some x \<Rightarrow> x),
     tm_description := (case tu_description u of Some x \<Rightarrow> x | None \<Rightarrow> if tu_clear_description u then [] else tm_description t),
     tm_spec := (case tu_spec u of None \<Rightarrow> tm_spec t | Some x \<Rightarrow> x),
     tm_status := (case tu_status u of None \<Rightarrow> tm_status t | Some x \<Rightarrow> x),
     tm_params := (case tu_params u of None \<Rightarrow> tm_params t | Some x \<Rightarrow> x)\<rparr>"

definition update_template :: "go_time \<Rightarrow> uuid \<Rightarrow> template_update \<Rightarrow> template list \<Rightarrow>
    template_error + template \<times> template list" where
  "update_template now i u rows =
    (case template_by_id i rows of
       None \<Rightarrow> Inl Template_missing
     | Some t \<Rightarrow>
         (case (case tu_params u of None \<Rightarrow> None | Some ps \<Rightarrow> validate_params ps) of
            Some e \<Rightarrow> Inl e
          | None \<Rightarrow> let t' = apply_template_update now u t
                     in Inr (t', map (\<lambda>r. if tm_id r = i then t' else r) rows)))"

definition set_template_status :: "go_time \<Rightarrow> uuid \<Rightarrow> template_status \<Rightarrow> template list \<Rightarrow>
    template_error + template \<times> template list" where
  "set_template_status now i st rows = update_template now i
     \<lparr>tu_name = None, tu_description = None, tu_clear_description = False, tu_spec = None, tu_params = None,
      tu_status = Some st\<rparr> rows"

definition delete_template :: "uuid \<Rightarrow> template list \<Rightarrow> template_error + template list" where
  "delete_template i rows =
    (if template_by_id i rows = None then Inl Template_missing else Inr (filter (\<lambda>t. tm_id t \<noteq> i) rows))"

section \<open>The scanner\<close>

fun piece_text :: "piece \<Rightarrow> string" where
  "piece_text (Letter c) = [c]"
| "piece_text (Hole k m) = m"

lemma match_hole_text:
  assumes "match_hole s = Some (k, m, rest)"
  shows "s = m @ rest" "key_ok k"
    "\<exists>a b. list_all re_space a \<and> list_all re_space b \<and> m = ''{{'' @ a @ k @ b @ ''}}''"
proof -
  define t where "t = drop 2 s"
  define a where "a = takeWhile re_space t"
  define t1 where "t1 = dropWhile re_space t"
  define b where "b = takeWhile re_space (dropWhile key_char t1)"
  define t2 where "t2 = dropWhile re_space (dropWhile key_char t1)"
  have m: "has_prefix s ''{{''" "k = takeWhile key_char t1" "k \<noteq> []" "has_prefix t2 ''}}''"
    "m = take (length s - (length t2 - 2)) s" "rest = drop 2 t2"
    using assms by (auto simp: match_hole_def Let_def t_def t1_def t2_def split: if_splits)
  have t2: "t2 = ''}}'' @ rest" using m(4,6) by (auto simp: has_prefix_append)
  have s: "s = ''{{'' @ t" using m(1) by (auto simp: has_prefix_append t_def)
  have "t = a @ k @ b @ t2" by (simp add: a_def m(2) b_def t2_def t1_def flip: append_assoc)
  then have whole: "s = (''{{'' @ a @ k @ b @ ''}}'') @ rest" using s t2 by simp
  have "length s - (length t2 - 2) = length (''{{'' @ a @ k @ b @ ''}}'')" using whole t2 by simp
  then have mm: "m = ''{{'' @ a @ k @ b @ ''}}''" using m(5) whole by (metis append_eq_conv_conj)
  show "s = m @ rest" using whole mm by simp
  show "key_ok k" using m(2,3) by (simp add: key_ok_def list_all_iff) (meson set_takeWhileD)
  have "list_all re_space a" "list_all re_space b"
    by (auto simp: a_def b_def list_all_iff dest: set_takeWhileD)
  with mm show "\<exists>a b. list_all re_space a \<and> list_all re_space b \<and> m = ''{{'' @ a @ k @ b @ ''}}''" by blast
qed

lemma pieces_text [simp]: "concat (map piece_text (pieces s)) = s"
proof (induction s rule: pieces.induct)
  case (2 c s)
  show ?case
  proof (cases "match_hole (c # s)")
    case None
    then show ?thesis using 2(1) by simp
  next
    case (Some x)
    obtain k m rest where x: "x = (k, m, rest)" by (cases x)
    with Some have "concat (map piece_text (pieces rest)) = rest" by (intro 2(2) [OF _ refl]) auto
    moreover have "pieces (c # s) = Hole k m # pieces rest" using Some x by simp
    moreover have "c # s = m @ rest" using match_hole_text(1) Some x by simp
    ultimately show ?thesis by (simp del: pieces.simps)
  qed
qed simp

lemma pieces_keys: "Hole k m \<in> set (pieces s) \<Longrightarrow> key_ok k"
proof (induction s rule: pieces.induct)
  case (2 c s)
  then show ?case
    by (cases "match_hole (c # s)") (auto dest: match_hole_text(2))
qed simp

lemma set_placeholders: "set (placeholders spec) = hole_keys spec"
proof -
  have "k \<in> set (List.map_filter piece_key ps) \<longleftrightarrow> (\<exists>m. Hole k m \<in> set ps)" for k ps
  proof (induction ps)
    case (Cons p ps)
    then show ?case by (cases p) (auto simp: List.map_filter_simps)
  qed (simp add: List.map_filter_simps)
  then show ?thesis by (auto simp: placeholders_def hole_keys_def)
qed

section \<open>What a rendered specification holds\<close>

text \<open>The value a key stands for, read off the declaration instead of computed parameter by parameter.\<close>

definition chosen :: "template \<Rightarrow> valuation \<Rightarrow> valuation" where
  "chosen t vs k =
    (case find (\<lambda>p. pm_key p = k) (tm_params t) of
       None \<Rightarrow> vs k
     | Some p \<Rightarrow>
         if trim_space (vs k) \<noteq> [] then trim_space (vs k)
         else if pm_default p \<noteq> [] then pm_default p else vs k)"

definition satisfied :: "valuation \<Rightarrow> param \<Rightarrow> bool" where
  "satisfied vs p \<longleftrightarrow>
    (if trim_space (vs (pm_key p)) \<noteq> [] then check_value p (trim_space (vs (pm_key p))) = None
     else \<not> pm_required p \<and> (pm_default p \<noteq> [] \<longrightarrow> check_value p (pm_default p) = None))"

lemma check_params_distinct:
  "check_params seen i ps = None \<Longrightarrow> distinct (map pm_key ps) \<and> pm_key ` set ps \<inter> seen = {}
     \<and> (\<forall>p \<in> set ps. key_ok (pm_key p) \<and> \<not> is_reserved (pm_key p))"
  by (induction ps arbitrary: seen i) (fastforce split: if_splits)+

lemma valid_params:
  assumes "validate_params ps = None"
  shows "distinct (map pm_key ps)" "p \<in> set ps \<Longrightarrow> key_ok (pm_key p)" "p \<in> set ps \<Longrightarrow> \<not> is_reserved (pm_key p)"
  using check_params_distinct [of "{}" 0 ps] assms by (auto simp: validate_params_def)

lemma settle_other: "settle_values ps vs = Inr vs' \<Longrightarrow> k \<notin> pm_key ` set ps \<Longrightarrow> vs' k = vs k"
  by (induction ps vs rule: settle_values.induct) (auto simp: Let_def split: if_splits option.splits)

lemma satisfied_other: "pm_key p \<noteq> k \<Longrightarrow> satisfied (vs(k := v)) p = satisfied vs p"
  by (simp add: satisfied_def)

lemma settle_own:
  "settle_values ps vs = Inr vs' \<Longrightarrow> distinct (map pm_key ps) \<Longrightarrow> p \<in> set ps \<Longrightarrow>
    satisfied vs p \<and> vs' (pm_key p) =
      (if trim_space (vs (pm_key p)) \<noteq> [] then trim_space (vs (pm_key p))
       else if pm_default p \<noteq> [] then pm_default p else vs (pm_key p))"
proof (induction ps vs rule: settle_values.induct)
  case (2 q ps vs)
  show ?case
  proof (cases "p = q")
    case True
    have o: "settle_values ps ws = Inr vs' \<Longrightarrow> vs' (pm_key q) = ws (pm_key q)" for ws
      using settle_other [of ps ws vs' "pm_key q"] 2(4) by auto
    show ?thesis
      using 2(3) o True by (auto simp: satisfied_def Let_def split: if_splits option.splits)
  next
    case False
    then have p: "p \<in> set ps" using 2(5) by simp
    then have n: "pm_key p \<noteq> pm_key q" using 2(4) by (metis distinct.simps(2) image_eqI list.simps(9) set_map)
    have d: "distinct (map pm_key ps)" using 2(4) by simp
    have nq: "\<not> (trim_space (vs (pm_key q)) = [] \<and> pm_required q)"
      using 2(3) by (auto simp: Let_def split: if_splits)
    define v where "v = (if trim_space (vs (pm_key q)) = [] then pm_default q else trim_space (vs (pm_key q)))"
    show ?thesis
    proof (cases "v = []")
      case True
      then have "settle_values ps vs = Inr vs'" using 2(3) nq by (simp add: Let_def flip: v_def)
      from 2(1) [OF refl nq v_def True this d p] show ?thesis .
    next
      case False
      then have c: "check_value q v = None" and s: "settle_values ps (vs(pm_key q := v)) = Inr vs'"
        using 2(3) nq by (auto simp: Let_def simp flip: v_def split: option.splits)
      from 2(2) [OF refl nq v_def False c s d p] show ?thesis
        unfolding satisfied_other [OF n] fun_upd_other [OF n] .
    qed
  qed
qed simp

lemma settle_ok:
  "distinct (map pm_key ps) \<Longrightarrow> (\<forall>p \<in> set ps. satisfied vs p) \<Longrightarrow> \<exists>vs'. settle_values ps vs = Inr vs'"
proof (induction ps vs rule: settle_values.induct)
  case (2 q ps vs)
  have "pm_key p \<noteq> pm_key q" if "p \<in> set ps" for p
    using that 2(3) by (metis distinct.simps(2) image_eqI list.simps(9) set_map)
  then have keep: "\<forall>p \<in> set ps. satisfied (vs(pm_key q := v)) p" for v
    using 2(4) satisfied_other by auto
  have d: "distinct (map pm_key ps)" and rest: "\<forall>p \<in> set ps. satisfied vs p" and q: "satisfied vs q"
    using 2(3,4) by auto
  show ?case
  proof (cases "trim_space (vs (pm_key q)) = [] \<and> pm_default q = []")
    case True
    then have "\<exists>vs'. settle_values ps vs = Inr vs'"
      using q by (intro 2(1) [OF refl _ refl _ d rest]) (auto simp: satisfied_def)
    then show ?thesis using True q by (simp add: satisfied_def Let_def)
  next
    case False
    define v where "v = (if trim_space (vs (pm_key q)) = [] then pm_default q else trim_space (vs (pm_key q)))"
    have v: "v \<noteq> []" "check_value q v = None" using False q by (auto simp: v_def satisfied_def)
    have "\<exists>vs'. settle_values ps (vs(pm_key q := v)) = Inr vs'"
      using q v by (intro 2(2) [OF refl _ v_def _ _ d keep]) (auto simp: satisfied_def)
    then show ?thesis using q v by (auto simp: satisfied_def Let_def simp flip: v_def)
  qed
qed simp

lemma settle_chosen:
  assumes "settle_values (tm_params t) vs = Inr vs'" "distinct (map pm_key (tm_params t))"
  shows "vs' k = chosen t vs k"
proof (cases "find (\<lambda>p. pm_key p = k) (tm_params t)")
  case None
  then have "k \<notin> pm_key ` set (tm_params t)" by (auto simp: find_None_iff)
  then show ?thesis using settle_other [OF assms(1), of k] None by (simp add: chosen_def)
next
  case (Some p)
  then have "p \<in> set (tm_params t)" "pm_key p = k" by (auto dest: find_Some_mem)
  then show ?thesis using settle_own [OF assms, of p] Some by (auto simp: chosen_def)
qed

lemma braces_hole: "Hole k m \<in> set (pieces s) \<Longrightarrow> contains_text ''{{'' s"
proof (induction s rule: pieces.induct)
  case (2 c s)
  show ?case
  proof (cases "match_hole (c # s)")
    case None
    then show ?thesis using 2 by simp
  next
    case (Some x)
    then have "has_prefix (c # s) ''{{''" by (auto simp: match_hole_def split: if_splits)
    then show ?thesis by simp
  qed
qed simp

lemma find_placeholders: "find P (placeholders spec) = None \<longleftrightarrow> (\<forall>k \<in> hole_keys spec. \<not> P k)"
  by (simp add: find_None_iff flip: set_placeholders) blast

lemma render_alt:
  assumes "distinct (map pm_key (tm_params t))"
  shows "render (Some t) vs = Inr out \<longleftrightarrow>
    (\<forall>k \<in> hole_keys (tm_spec t). \<not> undeclared t k \<and> \<not> not_injected t vs k)
    \<and> (\<forall>p \<in> set (tm_params t). satisfied vs p)
    \<and> out = replace_holes (fill (chosen t vs)) (tm_spec t)"
proof -
  have b: "\<not> contains_text ''{{'' (tm_spec t) \<Longrightarrow> k \<notin> hole_keys (tm_spec t)" for k
    using braces_hole by (auto simp: hole_keys_def)
  have vs': "vs' = chosen t vs" if "settle_values (tm_params t) vs = Inr vs'" for vs'
    using settle_chosen [OF that assms] by blast
  have ok: "(\<exists>vs'. settle_values (tm_params t) vs = Inr vs') \<longleftrightarrow> (\<forall>p \<in> set (tm_params t). satisfied vs p)"
    using settle_ok [OF assms] settle_own [OF _ assms] by blast
  show ?thesis
  proof (cases "find (undeclared t) (placeholders (tm_spec t)) = None \<and>
      (contains_text ''{{'' (tm_spec t) \<longrightarrow> find (not_injected t vs) (placeholders (tm_spec t)) = None)")
    case True
    then have h: "\<forall>k \<in> hole_keys (tm_spec t). \<not> undeclared t k \<and> \<not> not_injected t vs k"
      using b by (auto simp: find_placeholders)
    show ?thesis
      using True h ok vs' by (cases "settle_values (tm_params t) vs") (auto simp: render_def)
  next
    case False
    then have "\<not> (\<forall>k \<in> hole_keys (tm_spec t). \<not> undeclared t k \<and> \<not> not_injected t vs k)"
      by (auto simp: find_placeholders)
    moreover have "render (Some t) vs \<noteq> Inr out"
      using False by (auto simp: render_def Let_def split: option.splits if_splits)
    ultimately show ?thesis by blast
  qed
qed

text \<open>Property C12. Rendering a template with valid parameters is exactly the substitution it is meant to be: it succeeds just when
every hole is declared or built in, the data path and an undeclared port have been injected, and every parameter is satisfied by its
trimmed value or its default; then each hole holds the value chosen for its key, \<open>{{data_dir}}\<close> stays for the node, and every other letter of the
specification is unchanged.\<close>

theorem render_is_substitution:
  assumes "validate_params (tm_params t) = None"
  shows "render (Some t) vs = Inr out \<longleftrightarrow>
    hole_keys (tm_spec t) \<subseteq> declared_keys t \<union> {data_path_key, port_key, data_dir_key}
    \<and> (\<forall>k \<in> hole_keys (tm_spec t) \<inter> {data_path_key, port_key} - declared_keys t. trim_space (vs k) \<noteq> [])
    \<and> list_all (satisfied vs) (tm_params t)
    \<and> out = concat (map (\<lambda>p. case p of Letter c \<Rightarrow> [c] | Hole k m \<Rightarrow> if k = data_dir_key then m else chosen t vs k)
                     (pieces (tm_spec t)))"
proof -
  have keys: "data_path_key \<noteq> data_dir_key" "port_key \<noteq> data_dir_key"
    by (simp_all add: data_path_key_def data_dir_key_def port_key_def)
  have f: "fill_piece (fill ws) = (\<lambda>p. case p of Letter c \<Rightarrow> [c] | Hole k m \<Rightarrow> if k = data_dir_key then m else ws k)" for ws
    by (rule ext) (simp add: fill_def is_passthrough_def split: piece.split)
  have u: "(\<forall>k \<in> hole_keys (tm_spec t). \<not> undeclared t k \<and> \<not> not_injected t vs k) \<longleftrightarrow>
      hole_keys (tm_spec t) \<subseteq> declared_keys t \<union> {data_path_key, port_key, data_dir_key}
      \<and> (\<forall>k \<in> hole_keys (tm_spec t) \<inter> {data_path_key, port_key} - declared_keys t. trim_space (vs k) \<noteq> [])"
    using keys unfolding undeclared_def not_injected_def is_builtin_def is_passthrough_def by blast
  show ?thesis
    unfolding render_alt [OF valid_params(1) [OF assms]] u replace_holes_def f by (simp add: list_all_iff)
qed

definition size_param :: param where
  "size_param = \<lparr>pm_key = ''n'', pm_label = ''size'', pm_type = Pt_number, pm_required = False, pm_default = ''2'',
     pm_options = [], pm_hint = []\<rparr>"

definition small_template :: template where
  "small_template = \<lparr>tm_id = ''t'', tm_name = ''small'', tm_slug = ''small'', tm_description = [], tm_spec = ''{{data_dir}}/{{n}}'',
     tm_params = [size_param], tm_status = Tm_active, tm_created = 0, tm_updated = 0\<rparr>"

lemma small_params: "validate_params (tm_params small_template) = None"
  by code_simp

lemma small_pieces:
  "pieces (tm_spec small_template) = [Hole ''data_dir'' ''{{data_dir}}'', Letter CHR ''/'', Hole ''n'' ''{{n}}'']"
  by code_simp

lemma small_default: "parse_float_ok ''2''"
  by (simp add: parse_float_ok_def strip_sign_def Let_def has_prefix_def is_digit_def code_def digit_of_def max_float_bound_def
      to_lower_def lower_char_def is_upper_def)

theorem render_is_substitution_witness: "render (Some small_template) (\<lambda>_. []) = Inr ''{{data_dir}}/2''"
proof -
  have keys: "hole_keys (tm_spec small_template) = {''data_dir'', ''n''}"
    by (auto simp: hole_keys_def small_pieces)
  have s: "list_all (satisfied (\<lambda>_. [])) (tm_params small_template)"
    using small_default by (simp add: small_template_def satisfied_def size_param_def check_value_def trim_space_def)
  have "''{{data_dir}}/2'' = concat (map (\<lambda>p. case p of Letter c \<Rightarrow> [c] | Hole k m \<Rightarrow>
      if k = data_dir_key then m else chosen small_template (\<lambda>_. []) k) (pieces (tm_spec small_template)))"
    by (simp add: small_pieces data_dir_key_def) (simp add: chosen_def small_template_def size_param_def trim_space_def)
  moreover have d: "declared_keys small_template = {''n''}"
    by (simp add: declared_keys_def small_template_def size_param_def)
  have "{''data_dir'', ''n''} \<subseteq> {''n''} \<union> {data_path_key, port_key, data_dir_key}"
    "\<forall>k \<in> {''data_dir'', ''n''} \<inter> {data_path_key, port_key} - {''n''}. trim_space [] \<noteq> []"
    by (simp_all add: data_path_key_def port_key_def data_dir_key_def)
  ultimately show ?thesis
    unfolding render_is_substitution [OF small_params] keys d using s by blast
qed

end
