(* ===== verification/Compose_Specs.thy ===== *)
theory Compose_Specs
  imports Templates
begin

text \<open>
  What a node does to a Compose specification before it runs it (\<open>nodeagent/compose/prepare.go\<close>): the data root replaces
  \<open>{{data_dir}}\<close>, every service is labelled as managed, and joined to the network of the project. The YAML package is not part of the program:
  \<open>unmarshal\<close> and \<open>marshal\<close> are arguments, on the values below. A mapping is a list of pairs with distinct keys; the order in which Go
  visits it does not matter, since each service is changed by itself.
\<close>

section \<open>Documents\<close>

text \<open>\<open>Yscalar\<close> is a value that is no string, with its text; \<open>Ytexts\<close> and \<open>Ylabels\<close> are the \<open>[]string\<close> and
\<open>map[string]string\<close> the code puts in itself.\<close>

datatype yaml =
  Ynull | Ytext string | Yscalar string | Ylist "yaml list" | Ymap "(string \<times> yaml) list"
| Ytexts "string list" | Ylabels "(string \<times> string) list"

type_synonym document = "(string \<times> yaml) list"

definition join_words :: "string list \<Rightarrow> string" where
  "join_words ws = concat (map (\<lambda>(i, w). if i = 0 then w else CHR '' '' # w) (zip [0..<length ws] ws))"

text \<open>\<open>fmt.Sprintf("%v")\<close>.\<close>

fun show_value :: "yaml \<Rightarrow> string" where
  "show_value Ynull = ''<nil>''"
| "show_value (Ytext s) = s"
| "show_value (Yscalar s) = s"
| "show_value (Ylist ys) = ''['' @ join_words (map show_value ys) @ '']''"
| "show_value (Ymap kvs) =
     ''map['' @ join_words (map (\<lambda>(k, v). k @ '':'' @ v) (sort_key fst (map (\<lambda>(k, v). (k, show_value v)) kvs))) @ '']''"
| "show_value (Ytexts ws) = ''['' @ join_words ws @ '']''"
| "show_value (Ylabels kvs) = ''map['' @ join_words (map (\<lambda>(k, v). k @ '':'' @ v) (sort_key fst kvs)) @ '']''"

fun as_map :: "yaml option \<Rightarrow> document option" where
  "as_map (Some (Ymap kvs)) = Some kvs"
| "as_map _ = None"

section \<open>Labels and networks\<close>

definition app_label :: string where "app_label = ''maple.application_id''"

fun list_label :: "yaml \<Rightarrow> (string \<times> string) list \<Rightarrow> (string \<times> string) list" where
  "list_label (Ytext s) out =
     (case cut_byte CHR ''='' s of None \<Rightarrow> out | Some (k, v) \<Rightarrow> AList.update (trim_space k) (trim_space v) out)"
| "list_label _ out = out"

fun existing_labels :: "yaml option \<Rightarrow> (string \<times> string) list" where
  "existing_labels (Some (Ymap kvs)) = map (\<lambda>(k, v). (k, show_value v)) kvs"
| "existing_labels (Some (Ylabels kvs)) = kvs"
| "existing_labels (Some (Ylist ys)) = fold list_label ys []"
| "existing_labels _ = []"

definition merge_labels :: "yaml option \<Rightarrow> string \<Rightarrow> string \<Rightarrow> (string \<times> string) list" where
  "merge_labels old managed app =
    (let out = existing_labels old;
         out1 = (if managed \<noteq> [] then AList.update managed ''true'' out else out)
     in if app \<noteq> [] then AList.update app_label app out1 else out1)"

definition project_network_key :: string where "project_network_key = ''project_network''"

fun list_network :: "yaml \<Rightarrow> string list" where
  "list_network (Ytext s) = (if s \<noteq> project_network_key then [s] else [])"
| "list_network _ = []"

fun merge_networks :: "yaml option \<Rightarrow> yaml" where
  "merge_networks (Some (Ymap kvs)) =
     Ymap (if project_network_key \<in> fst ` set kvs then kvs else AList.update project_network_key (Ymap []) kvs)"
| "merge_networks (Some (Ylist ys)) = Ytexts (project_network_key # concat (map list_network ys))"
| "merge_networks (Some (Ytexts ws)) = Ytexts (project_network_key # filter (\<lambda>w. w \<noteq> project_network_key) ws)"
| "merge_networks _ = Ytexts [project_network_key]"

section \<open>Prepare\<close>

fun change_service :: "string \<Rightarrow> string \<Rightarrow> string \<Rightarrow> yaml \<Rightarrow> yaml" where
  "change_service managed app net (Ymap m) =
     (let m1 = AList.update ''labels'' (Ylabels (merge_labels (map_of m ''labels'') managed app)) m
      in Ymap (if net \<noteq> [] then AList.update ''networks'' (merge_networks (map_of m1 ''networks'')) m1 else m1))"
| "change_service managed app net y = y"

definition external_network :: "string \<Rightarrow> yaml" where
  "external_network net = Ymap [(''external'', Yscalar ''true''), (''name'', Ytext net)]"

definition change_document :: "string \<Rightarrow> string \<Rightarrow> string \<Rightarrow> document \<Rightarrow> document \<Rightarrow> document" where
  "change_document managed app net services doc =
    (let doc1 = AList.update ''services'' (Ymap (map (\<lambda>(k, v). (k, change_service managed app net v)) services)) doc
     in if net = [] then doc1
        else AList.update ''networks'' (Ymap (AList.update project_network_key (external_network net)
               (case as_map (map_of doc1 ''networks'') of None \<Rightarrow> [] | Some kvs \<Rightarrow> kvs))) doc1)"

definition data_dir_placeholder :: string where "data_dir_placeholder = ''{{data_dir}}''"

datatype prepare_error = No_data_root | Not_marshalled

definition prepare :: "(string \<Rightarrow> document option) \<Rightarrow> (document \<Rightarrow> string option) \<Rightarrow> string \<Rightarrow> string \<Rightarrow> string \<Rightarrow> string \<Rightarrow>
    string \<Rightarrow> prepare_error + string" where
  "prepare unmarshal marshal spec0 root managed app net =
    (if contains_text data_dir_placeholder spec0 \<and> root = [] then Inl No_data_root
     else
       let spec = (if contains_text data_dir_placeholder spec0 then replace_text data_dir_placeholder root spec0 else spec0) in
       if trim_space spec = [] then Inr spec
       else case unmarshal spec of
         None \<Rightarrow> Inr spec
       | Some doc \<Rightarrow>
           (case as_map (map_of doc ''services'') of
              None \<Rightarrow> Inr spec
            | Some services \<Rightarrow>
                (case marshal (change_document managed app net services doc) of
                   None \<Rightarrow> Inl Not_marshalled
                 | Some out \<Rightarrow> Inr out)))"

section \<open>What a node runs is managed\<close>

lemma merged_labels:
  assumes "managed \<noteq> []" "managed \<noteq> app_label \<or> app = []"
  shows "map_of (merge_labels old managed app) managed = Some ''true''"
    "app \<noteq> [] \<Longrightarrow> map_of (merge_labels old managed app) app_label = Some app"
  using assms by (auto simp: merge_labels_def Let_def)

text \<open>The labels a specification gives a service: an entry of a mapping with its text, in a list the last entry of the form
\<open>key=value\<close>. An entry of a list that has no \<open>=\<close>, or is no text, gives none.\<close>

fun label_pair :: "yaml \<Rightarrow> (string \<times> string) list" where
  "label_pair (Ytext s) = (case cut_byte CHR ''='' s of None \<Rightarrow> [] | Some (k, v) \<Rightarrow> [(trim_space k, trim_space v)])"
| "label_pair _ = []"

fun given_label :: "yaml option \<Rightarrow> string \<Rightarrow> string option" where
  "given_label (Some (Ymap kvs)) k = map_option show_value (map_of kvs k)"
| "given_label (Some (Ylabels kvs)) k = map_of kvs k"
| "given_label (Some (Ylist ys)) k = map_of (rev (concat (map label_pair ys))) k"
| "given_label _ k = None"

text \<open>The networks a service names, and the settings it gives one of them.\<close>

fun named_networks :: "yaml option \<Rightarrow> string set" where
  "named_networks (Some (Ymap kvs)) = fst ` set kvs"
| "named_networks (Some (Ylist ys)) = {s. Ytext s \<in> set ys}"
| "named_networks (Some (Ytexts ws)) = set ws"
| "named_networks _ = {}"

fun network_settings :: "yaml option \<Rightarrow> string \<Rightarrow> yaml option" where
  "network_settings (Some (Ymap kvs)) k = map_of kvs k"
| "network_settings _ k = None"

text \<open>A service as the node must run it, made from the one that was sent.\<close>

definition managed_service :: "string \<Rightarrow> string \<Rightarrow> string \<Rightarrow> document \<Rightarrow> document \<Rightarrow> bool" where
  "managed_service managed app net m m' \<longleftrightarrow>
    (\<exists>labels. map_of m' ''labels'' = Some (Ylabels labels) \<and> map_of labels managed = Some ''true''
       \<and> (app \<noteq> [] \<longrightarrow> map_of labels app_label = Some app)
       \<and> (\<forall>k. k \<noteq> managed \<and> (k \<noteq> app_label \<or> app = []) \<longrightarrow> map_of labels k = given_label (map_of m ''labels'') k))
    \<and> (if net = [] then map_of m' ''networks'' = map_of m ''networks''
       else named_networks (map_of m' ''networks'') = insert project_network_key (named_networks (map_of m ''networks''))
         \<and> (\<forall>k v. network_settings (map_of m ''networks'') k = Some v \<longrightarrow> network_settings (map_of m' ''networks'') k = Some v))
    \<and> (\<forall>k. k \<noteq> ''labels'' \<and> k \<noteq> ''networks'' \<longrightarrow> map_of m' k = map_of m k)"

lemma list_labels:
  "map_of (fold list_label ys out) k = (case map_of (rev (concat (map label_pair ys))) k of None \<Rightarrow> map_of out k | Some v \<Rightarrow> Some v)"
proof (induction ys arbitrary: out)
  case (Cons y ys)
  have "map_of (list_label y out) k = (case map_of (rev (label_pair y)) k of None \<Rightarrow> map_of out k | Some v \<Rightarrow> Some v)"
    by (cases y) (auto split: option.split)
  then show ?case by (simp add: Cons.IH map_add_def split: option.split)
qed simp

lemma map_of_texts: "map_of (map (\<lambda>(k, v). (k, f v)) kvs) k = map_option f (map_of kvs k)"
  by (induction kvs) auto

lemma existing_given: "map_of (existing_labels old) k = given_label old k"
  by (cases old rule: existing_labels.cases) (simp_all add: list_labels map_of_texts split: option.split)

lemma other_labels:
  "k \<noteq> managed \<Longrightarrow> k \<noteq> app_label \<or> app = [] \<Longrightarrow> map_of (merge_labels old managed app) k = given_label old k"
  by (auto simp: merge_labels_def Let_def existing_given)

lemma kept_networks:
  "named_networks (Some (merge_networks old)) = insert project_network_key (named_networks old)"
  "network_settings old k = Some v \<Longrightarrow> network_settings (Some (merge_networks old)) k = Some v"
proof -
  have keys: "fst ` set (AList.update k v kvs) = insert k (fst ` set kvs)" for k :: string and v :: yaml and kvs
    by (simp add: dom_map_of_conv_image_fst [symmetric] update_conv')
  have texts: "concat (map list_network ys) = map (\<lambda>y. case y of Ytext s \<Rightarrow> s) (filter (\<lambda>y. \<exists>s. y = Ytext s \<and> s \<noteq> project_network_key) ys)" for ys
  proof (induction ys)
    case (Cons y ys)
    then show ?case by (cases y) auto
  qed simp
  show "named_networks (Some (merge_networks old)) = insert project_network_key (named_networks old)"
    by (cases old rule: merge_networks.cases) (auto simp: keys texts image_iff split: yaml.splits)
  show "network_settings old k = Some v \<Longrightarrow> network_settings (Some (merge_networks old)) k = Some v"
    by (cases old rule: merge_networks.cases)
      (auto simp: map_of_eq_None_iff [THEN iffD2] dest: map_of_SomeD intro!: rev_image_eqI split: if_splits)
qed

lemma change_service_managed:
  assumes "managed \<noteq> []" "managed \<noteq> app_label \<or> app = []"
  shows "\<exists>m'. change_service managed app net (Ymap m) = Ymap m' \<and> managed_service managed app net m m'"
  using merged_labels [OF assms] other_labels kept_networks by (auto simp: managed_service_def Let_def)

lemma changed_services:
  "map_of (change_document managed app net services doc) ''services'' =
     Some (Ymap (map (\<lambda>(k, v). (k, change_service managed app net v)) services))"
  by (simp add: change_document_def Let_def)

lemma changed_networks:
  "net \<noteq> [] \<Longrightarrow> \<exists>nets. map_of (change_document managed app net services doc) ''networks'' = Some (Ymap nets)
     \<and> map_of nets project_network_key = Some (external_network net)
     \<and> (\<forall>k. k \<noteq> project_network_key \<longrightarrow> map_of nets k = network_settings (map_of doc ''networks'') k)"
  by (cases "map_of doc ''networks''" rule: as_map.cases)
    (simp_all add: change_document_def Let_def update_conv')

lemma changed_rest:
  "k \<noteq> ''services'' \<Longrightarrow> k \<noteq> ''networks'' \<or> net = [] \<Longrightarrow> map_of (change_document managed app net services doc) k = map_of doc k"
  by (simp add: change_document_def Let_def)

text \<open>Property C13. No container of an application escapes the view of the manager: whatever labels and networks a specification writes,
in what the node hands to Compose every service with a body carries the managed label and the identifier of its application, and is
joined to the project's network, which is declared external under the name the manager has chosen. It keeps the networks it named, with the
settings it gave them, and every other label that was given a value; an entry of a list of labels without \<open>=\<close> gives none and is dropped. All its
entries but the labels and the networks are those that were sent, and so are the other networks that are declared and the rest of the document. (The
specification can be read and has a mapping of services; any other is handed to Compose as it is.)\<close>

theorem every_service_is_managed:
  assumes "prepare unmarshal marshal spec root managed app net = Inr out"
    and "unmarshal (replace_text data_dir_placeholder root spec) = Some doc" "trim_space (replace_text data_dir_placeholder root spec) \<noteq> []"
    and "map_of doc ''services'' = Some (Ymap services)"
    and "managed \<noteq> []" "managed \<noteq> app_label \<or> app = []"
  shows "\<exists>doc' services'. marshal doc' = Some out \<and> map_of doc' ''services'' = Some (Ymap services')
    \<and> map fst services' = map fst services
    \<and> (\<forall>name m. map_of services name = Some (Ymap m) \<longrightarrow>
         (\<exists>m'. map_of services' name = Some (Ymap m') \<and> managed_service managed app net m m'))
    \<and> (net \<noteq> [] \<longrightarrow> (\<exists>nets. map_of doc' ''networks'' = Some (Ymap nets) \<and>
         map_of nets project_network_key = Some (external_network net) \<and>
         (\<forall>k. k \<noteq> project_network_key \<longrightarrow> map_of nets k = network_settings (map_of doc ''networks'') k)))
    \<and> (\<forall>k. k \<noteq> ''services'' \<and> (k \<noteq> ''networks'' \<or> net = []) \<longrightarrow> map_of doc' k = map_of doc k)"
proof -
  let ?doc = "change_document managed app net services doc"
  let ?services = "map (\<lambda>(k, v). (k, change_service managed app net v)) services"
  have s: "(if contains_text data_dir_placeholder spec then replace_text data_dir_placeholder root spec else spec)
      = replace_text data_dir_placeholder root spec"
    by (simp add: replace_absent)
  have "marshal ?doc = Some out"
    using assms(1-4) by (auto simp: prepare_def Let_def s split: if_splits option.splits)
  moreover have "\<exists>m'. map_of ?services name = Some (Ymap m') \<and> managed_service managed app net m m'"
    if "map_of services name = Some (Ymap m)" for name m
    using change_service_managed [OF assms(5,6), of net m] that by (auto simp: map_of_texts)
  moreover have "map fst ?services = map fst services"
    by (simp add: split_def comp_def)
  moreover note changed_services [of managed app net services doc]
  moreover have "net \<noteq> [] \<longrightarrow> (\<exists>nets. map_of ?doc ''networks'' = Some (Ymap nets) \<and>
      map_of nets project_network_key = Some (external_network net) \<and>
      (\<forall>k. k \<noteq> project_network_key \<longrightarrow> map_of nets k = network_settings (map_of doc ''networks'') k))"
    using changed_networks by blast
  moreover have "\<forall>k. k \<noteq> ''services'' \<and> (k \<noteq> ''networks'' \<or> net = []) \<longrightarrow> map_of ?doc k = map_of doc k"
    using changed_rest by blast
  ultimately show ?thesis
    by - (rule exI [where x = ?doc], rule exI [where x = ?services], blast)
qed

definition web_document :: document where
  "web_document = [(''services'', Ymap [(''web'', Ymap [(''labels'', Ylist [Ytext ''maple.managed=false''])])])]"

definition managed_web :: document where
  "managed_web = change_document ''maple.managed'' ''a1'' ''maple-a1'' [(''web'', Ymap [(''labels'', Ylist [Ytext ''maple.managed=false''])])] web_document"

theorem every_service_is_managed_witness:
  "\<exists>doc' services'. (if doc' = managed_web then Some ''prepared'' else None) = Some ''prepared''
    \<and> map_of doc' ''services'' = Some (Ymap services') \<and> map fst services' = [''web'']
    \<and> (\<exists>m'. map_of services' ''web'' = Some (Ymap m') \<and>
         managed_service ''maple.managed'' ''a1'' ''maple-a1'' [(''labels'', Ylist [Ytext ''maple.managed=false''])] m')"
proof -
  have r: "replace_text data_dir_placeholder ''/srv'' ''web'' = ''web''"
    by (simp add: data_dir_placeholder_def has_prefix_def)
  have p: "prepare (\<lambda>_. Some web_document) (\<lambda>d. if d = managed_web then Some ''prepared'' else None) ''web'' ''/srv''
      ''maple.managed'' ''a1'' ''maple-a1'' = Inr ''prepared''"
    by (simp add: prepare_def data_dir_placeholder_def has_prefix_def trim_space_def is_space_def web_document_def managed_web_def)
  have d: "map_of web_document ''services'' = Some (Ymap [(''web'', Ymap [(''labels'', Ylist [Ytext ''maple.managed=false''])])])"
    by (simp add: web_document_def)
  have t: "trim_space (replace_text data_dir_placeholder ''/srv'' ''web'') \<noteq> []"
    by (simp add: r trim_space_def is_space_def)
  have l: "''maple.managed'' \<noteq> []" "''maple.managed'' \<noteq> app_label \<or> ''a1'' = []"
    by (simp_all add: app_label_def)
  from every_service_is_managed [OF p refl t d l] obtain doc' services' where
    x: "(if doc' = managed_web then Some ''prepared'' else None) = Some ''prepared''" "map_of doc' ''services'' = Some (Ymap services')"
      "map fst services' = map fst [(''web'', Ymap [(''labels'', Ylist [Ytext ''maple.managed=false''])])]"
    and m: "\<And>name m. map_of [(''web'', Ymap [(''labels'', Ylist [Ytext ''maple.managed=false''])])] name = Some (Ymap m) \<Longrightarrow>
      \<exists>m'. map_of services' name = Some (Ymap m') \<and> managed_service ''maple.managed'' ''a1'' ''maple-a1'' m m'"
    by (elim exE conjE) (rule that; assumption | blast)
  have "map_of [(''web'', Ymap [(''labels'', Ylist [Ytext ''maple.managed=false''])])] ''web'' =
      Some (Ymap [(''labels'', Ylist [Ytext ''maple.managed=false''])])"
    by simp
  from m [OF this] x show ?thesis by (intro exI [of _ doc'] exI [of _ services']) simp
qed

text \<open>What the two halves of rendering leave between them. The expression of the control plane allows blanks in a hole, the node
replaces the bare text only; and the text of a value is replaced as well, although \<open>data_dir\<close> is not a value a user may give.\<close>

lemma a_spaced_data_dir_is_never_replaced:
  assumes "tm_spec t = ''{{ data_dir }}''" "tm_params t = []"
  shows "render (Some t) vs = Inr ''{{ data_dir }}'' \<and>
    prepare (\<lambda>_. None) marshal ''{{ data_dir }}'' root managed app net = Inr ''{{ data_dir }}''"
proof
  have p: "pieces ''{{ data_dir }}'' = [Hole ''data_dir'' ''{{ data_dir }}'']" by code_simp
  show "render (Some t) vs = Inr ''{{ data_dir }}''"
    using assms by (subst render_alt)
      (auto simp: hole_keys_def p replace_holes_def fill_def is_passthrough_def undeclared_def not_injected_def is_builtin_def data_dir_key_def
        data_path_key_def port_key_def simp del: pieces.simps)
  show "prepare (\<lambda>_. None) marshal ''{{ data_dir }}'' root managed app net = Inr ''{{ data_dir }}''"
    by (simp add: prepare_def data_dir_placeholder_def has_prefix_def trim_space_def is_space_def)
qed

lemma a_value_reaches_the_data_root:
  assumes "tm_spec t = ''{{x}}''" "tm_params t = [p]" "pm_key p = ''x''" "pm_type p = Pt_string"
  shows "render (Some t) (\<lambda>_. ''{{data_dir}}'') = Inr ''{{data_dir}}'' \<and>
    prepare (\<lambda>_. None) marshal ''{{data_dir}}'' ''/srv'' managed app net = Inr ''/srv''"
proof
  have h: "pieces ''{{x}}'' = [Hole ''x'' ''{{x}}'']" by code_simp
  show "render (Some t) (\<lambda>_. ''{{data_dir}}'') = Inr ''{{data_dir}}''"
    using assms by (subst render_alt)
      (auto simp: hole_keys_def h replace_holes_def fill_def is_passthrough_def undeclared_def not_injected_def is_builtin_def
        data_dir_key_def data_path_key_def port_key_def chosen_def declared_keys_def satisfied_def check_value_def trim_space_def is_space_def
        simp del: pieces.simps)
  show "prepare (\<lambda>_. None) marshal ''{{data_dir}}'' ''/srv'' managed app net = Inr ''/srv''"
    by (simp add: prepare_def data_dir_placeholder_def has_prefix_def trim_space_def is_space_def)
qed

text \<open>A label without a value, which Compose accepts in a list, is lost.\<close>

lemma flag_labels_are_lost:
  "CHR ''='' \<notin> set s \<Longrightarrow> merge_labels (Some (Ylist [Ytext s])) managed app = merge_labels None managed app"
  by (simp add: merge_labels_def cut_byte_def index_byte_None [THEN iffD2])

end
