(* ===== verification/Applications.thy ===== *)
theory Applications
  imports Compose_Specs Net_Allocator
begin

text \<open>
  Compose applications. On a node: the driver of \<open>docker compose\<close> (\<open>nodeagent/compose/compose.go\<close>) and the actions of the executor
  (\<open>nodeagent/exec/exec.go\<close>). In the container manager: the store (\<open>containermanager/applications/store.go\<close>) and the controller
  that sends the actions (\<open>control.go\<close>), with the address manager of theory \<open>Net_Allocator\<close>. The \<open>docker compose\<close> program is not part of the
  program: which specifications it accepts is an argument, and its commands change the containers of a project as documented,
  or fail as the environment says. The database is not either: what its types accept is an argument. Requests are handled one at a time.
\<close>

section \<open>The driver on a node\<close>

text \<open>The compose file of each project, and its containers: none, or running or stopped ones.\<close>

record compose_host =
  ch_files :: "string \<Rightarrow> string option"
  ch_containers :: "string \<Rightarrow> bool option"

definition set_file :: "string \<Rightarrow> string option \<Rightarrow> compose_host \<Rightarrow> compose_host" where
  "set_file p f h = h\<lparr>ch_files := (ch_files h)(p := f)\<rparr>"

definition set_containers :: "string \<Rightarrow> bool option \<Rightarrow> compose_host \<Rightarrow> compose_host" where
  "set_containers p c h = h\<lparr>ch_containers := (ch_containers h)(p := c)\<rparr>"

text \<open>What a node meets: whether Compose can be started, whether the file of a project can be read, written and deleted, whether
\<open>config -q\<close> comes to an end on a valid file and whether another command does (in time, and with no error of its own), and whether an \<open>up\<close> that
fails has started something.\<close>

record agent_env =
  ae_available :: bool
  ae_read :: bool
  ae_write :: bool
  ae_clear :: bool
  ae_config :: bool
  ae_run :: bool
  ae_left :: bool

record compose_lib =
  cl_unmarshal :: "string \<Rightarrow> document option"
  cl_marshal :: "document \<Rightarrow> string option"
  cl_valid :: "string \<Rightarrow> bool"

record node_config =
  nc_root :: string
  nc_managed :: string

text \<open>Any failure of \<open>config -q\<close> counts as an invalid specification: Compose missing, a command that runs out of time, a context
that is cancelled.\<close>

definition driver_validate :: "compose_lib \<Rightarrow> agent_env \<Rightarrow> string \<Rightarrow> string \<Rightarrow> compose_host \<Rightarrow> bool option \<times> compose_host" where
  "driver_validate lib env p spec h =
    (if \<not> ae_write env then (None, h)
     else (Some (ae_available env \<and> ae_config env \<and> cl_valid lib spec), set_file p (Some spec) h))"

definition driver_up :: "compose_lib \<Rightarrow> agent_env \<Rightarrow> string \<Rightarrow> string \<Rightarrow> compose_host \<Rightarrow> bool \<times> compose_host" where
  "driver_up lib env p spec h =
    (if \<not> ae_write env then (False, h)
     else let h1 = set_file p (Some spec) h in
       if \<not> ae_available env \<or> \<not> cl_valid lib spec then (False, h1)
       else if ae_run env then (True, set_containers p (Some True) h1)
       else (False, if ae_left env then set_containers p (Some True) h1 else h1))"

text \<open>\<open>stop\<close>, \<open>start\<close> and \<open>restart\<close> need a file, and act on the containers there are.\<close>

definition driver_switch :: "compose_lib \<Rightarrow> agent_env \<Rightarrow> bool \<Rightarrow> string \<Rightarrow> compose_host \<Rightarrow> bool \<times> compose_host" where
  "driver_switch lib env on p h =
    (case ch_files h p of
       None \<Rightarrow> (False, h)
     | Some spec \<Rightarrow>
         if \<not> ae_available env \<or> \<not> cl_valid lib spec \<or> \<not> ae_run env then (False, h)
         else (True, set_containers p (map_option (\<lambda>_. on) (ch_containers h p)) h))"

text \<open>\<open>os.RemoveAll\<close>, whose error is not looked at.\<close>

definition clear_project :: "agent_env \<Rightarrow> string \<Rightarrow> compose_host \<Rightarrow> compose_host" where
  "clear_project env p h = (if ae_clear env then set_file p None h else h)"

definition driver_remove :: "compose_lib \<Rightarrow> agent_env \<Rightarrow> string \<Rightarrow> compose_host \<Rightarrow> bool \<times> compose_host" where
  "driver_remove lib env p h =
    (case (if ae_read env then ch_files h p else None) of
       None \<Rightarrow> (True, clear_project env p h)
     | Some spec \<Rightarrow>
         (case driver_validate lib env p spec h of
            (Some True, h1) \<Rightarrow>
              if ae_run env then (True, clear_project env p (set_containers p None h1)) else (False, h1)
          | (_, h1) \<Rightarrow> (True, clear_project env p h1)))"

section \<open>The executor\<close>

record app_spec =
  as_app :: string
  as_version :: string
  as_project :: string
  as_network :: string
  as_yaml :: string

datatype app_action = Validate_app | Deploy_app | Stop_app | Start_app | Restart_app | Remove_app

datatype app_answer = Valid_answer bool | State_answer string

definition spec_param :: "app_spec \<Rightarrow> app_spec option" where
  "spec_param p = (if as_project p = [] \<or> as_yaml p = [] then None else Some p)"

definition prep_param :: "compose_lib \<Rightarrow> node_config \<Rightarrow> app_spec \<Rightarrow> app_spec option" where
  "prep_param lib cfg p0 =
    (case spec_param p0 of
       None \<Rightarrow> None
     | Some p \<Rightarrow>
         (case prepare (cl_unmarshal lib) (cl_marshal lib) (as_yaml p) (nc_root cfg) (nc_managed cfg) (as_app p) (as_network p) of
            Inl e \<Rightarrow> None
          | Inr yaml \<Rightarrow> Some (p\<lparr>as_yaml := yaml\<rparr>)))"

definition answer_state :: "string \<Rightarrow> bool \<times> compose_host \<Rightarrow> app_answer option \<times> compose_host" where
  "answer_state st r = (if fst r then Some (State_answer st) else None, snd r)"

definition app_validate :: "compose_lib \<Rightarrow> node_config \<Rightarrow> agent_env \<Rightarrow> app_spec \<Rightarrow> compose_host \<Rightarrow> app_answer option \<times> compose_host" where
  "app_validate lib cfg env p0 h =
    (case prep_param lib cfg p0 of
       None \<Rightarrow> (None, h)
     | Some p \<Rightarrow>
         if \<not> ae_available env then (None, h)
         else (case driver_validate lib env (as_project p) (as_yaml p) h of
                 (v, h1) \<Rightarrow> (map_option Valid_answer v, h1)))"

definition app_deploy :: "compose_lib \<Rightarrow> node_config \<Rightarrow> agent_env \<Rightarrow> app_spec \<Rightarrow> compose_host \<Rightarrow> app_answer option \<times> compose_host" where
  "app_deploy lib cfg env p0 h =
    (case prep_param lib cfg p0 of
       None \<Rightarrow> (None, h)
     | Some p \<Rightarrow>
         if \<not> ae_available env then (None, h)
         else answer_state ''running'' (driver_up lib env (as_project p) (as_yaml p) h))"

definition app_stop :: "compose_lib \<Rightarrow> agent_env \<Rightarrow> app_spec \<Rightarrow> compose_host \<Rightarrow> app_answer option \<times> compose_host" where
  "app_stop lib env p0 h =
    (case spec_param p0 of None \<Rightarrow> (None, h)
     | Some p \<Rightarrow> answer_state ''stopped'' (driver_switch lib env False (as_project p) h))"

definition app_start :: "compose_lib \<Rightarrow> agent_env \<Rightarrow> app_spec \<Rightarrow> compose_host \<Rightarrow> app_answer option \<times> compose_host" where
  "app_start lib env p0 h =
    (case spec_param p0 of None \<Rightarrow> (None, h)
     | Some p \<Rightarrow> answer_state ''running'' (driver_switch lib env True (as_project p) h))"

definition app_remove :: "compose_lib \<Rightarrow> agent_env \<Rightarrow> app_spec \<Rightarrow> compose_host \<Rightarrow> app_answer option \<times> compose_host" where
  "app_remove lib env p0 h =
    (case spec_param p0 of None \<Rightarrow> (None, h)
     | Some p \<Rightarrow> answer_state ''removed'' (driver_remove lib env (as_project p) h))"

fun execute_app :: "compose_lib \<Rightarrow> node_config \<Rightarrow> agent_env \<Rightarrow> app_action \<Rightarrow> app_spec \<Rightarrow> compose_host \<Rightarrow>
    app_answer option \<times> compose_host" where
  "execute_app lib cfg env Validate_app p h = app_validate lib cfg env p h"
| "execute_app lib cfg env Deploy_app p h = app_deploy lib cfg env p h"
| "execute_app lib cfg env Stop_app p h = app_stop lib env p h"
| "execute_app lib cfg env Start_app p h = app_start lib env p h"
| "execute_app lib cfg env Restart_app p h = app_start lib env p h"
| "execute_app lib cfg env Remove_app p h = app_remove lib env p h"

section \<open>The store\<close>

record application =
  ap_id :: string
  ap_name :: string
  ap_description :: string
  ap_status :: string
  ap_node :: string
  ap_service :: string
  ap_version :: string
  ap_spec :: string
  ap_weight :: int
  ap_created :: go_time
  ap_updated :: go_time

text \<open>The database: whether it answers, how the text of a \<open>::uuid\<close> is read (the text that \<open>::text\<close> gives back, none when it is not a UUID), and
which strings it takes as \<open>TEXT\<close>. The error of a statement is not looked at.\<close>

record app_db =
  db_up :: bool
  db_uuid :: "string \<Rightarrow> string option"
  db_text :: "string \<Rightarrow> bool"

text \<open>An instant as the driver sends it to a \<open>TIMESTAMPTZ\<close>: whole microseconds.\<close>

definition to_micros :: "go_time \<Rightarrow> go_time" where
  "to_micros t = t div 1000 * 1000"

definition texts_of :: "application \<Rightarrow> string list" where
  "texts_of a = [ap_name a, ap_description a, ap_status a, ap_node a, ap_version a, ap_spec a]"

text \<open>The row a statement writes for an application, none when it fails.\<close>

definition app_row :: "app_db \<Rightarrow> application \<Rightarrow> application option" where
  "app_row d a =
    (case (db_uuid d (ap_id a), if ap_service a = [] then Some [] else db_uuid d (ap_service a)) of
       (Some u, Some v) \<Rightarrow>
         if db_up d \<and> list_all (db_text d) (texts_of a) \<and> - (2 ^ 31) \<le> ap_weight a \<and> ap_weight a < 2 ^ 31
         then Some (a\<lparr>ap_id := u, ap_service := v, ap_created := to_micros (ap_created a), ap_updated := to_micros (ap_updated a)\<rparr>)
         else None
     | _ \<Rightarrow> None)"

text \<open>The table, when there is a database, and the applications in memory by key.\<close>

record app_store =
  st_table :: "application list option"
  st_apps :: "(string \<times> application) list"

definition new_app_store :: "application list option \<Rightarrow> app_store" where
  "new_app_store tab = \<lparr>st_table = tab, st_apps = []\<rparr>"

definition load_apps :: "app_store \<Rightarrow> app_store" where
  "load_apps s = (case st_table s of None \<Rightarrow> s
     | Some rows \<Rightarrow> s\<lparr>st_apps := fold (\<lambda>a. AList.update (ap_id a) a) rows (st_apps s)\<rparr>)"

definition persist_app :: "app_db \<Rightarrow> application \<Rightarrow> app_store \<Rightarrow> app_store" where
  "persist_app d a s = (case (st_table s, app_row d a) of
     (Some rows, Some b) \<Rightarrow>
       if ap_id b \<in> ap_id ` set rows
         then s\<lparr>st_table := Some (map (\<lambda>r. if ap_id r = ap_id b then b\<lparr>ap_created := ap_created r\<rparr> else r) rows)\<rparr>
         else s\<lparr>st_table := Some (rows @ [b])\<rparr>
   | _ \<Rightarrow> s)"

definition put_app :: "string \<Rightarrow> go_time \<Rightarrow> app_db \<Rightarrow> application \<Rightarrow> app_store \<Rightarrow> application \<times> app_store" where
  "put_app fresh now d a0 s =
    (let a = a0\<lparr>ap_id := (if ap_id a0 = [] then fresh else ap_id a0),
                 ap_created := (if ap_created a0 = 0 then now else ap_created a0), ap_updated := now\<rparr>;
         apps = AList.update (ap_id a) a (filter (\<lambda>(k, v). \<not> (k \<noteq> ap_id a \<and> ap_id v = ap_id a)) (st_apps s))
     in (a, persist_app d a (s\<lparr>st_apps := apps\<rparr>)))"

definition get_app :: "string \<Rightarrow> app_store \<Rightarrow> application option" where
  "get_app i s = map_of (st_apps s) i"

definition service_for_application :: "string \<Rightarrow> app_store \<Rightarrow> string option" where
  "service_for_application i s = (case get_app i s of None \<Rightarrow> None | Some a \<Rightarrow> if ap_service a = [] then None else Some (ap_service a))"

definition delete_app :: "app_db \<Rightarrow> string \<Rightarrow> app_store \<Rightarrow> app_store" where
  "delete_app d i s = s\<lparr>
     st_apps := filter (\<lambda>(k, v). \<not> (k = i \<or> ap_id v = i)) (st_apps s),
     st_table := (case db_uuid d i of
        Some u \<Rightarrow> if db_up d then map_option (filter (\<lambda>r. ap_id r \<noteq> u)) (st_table s) else st_table s
      | None \<Rightarrow> st_table s)\<rparr>"

definition set_app_status :: "go_time \<Rightarrow> app_db \<Rightarrow> string \<Rightarrow> string \<Rightarrow> app_store \<Rightarrow> app_store" where
  "set_app_status now d i st s = (case get_app i s of
     None \<Rightarrow> s
   | Some a0 \<Rightarrow> let a = a0\<lparr>ap_status := st, ap_updated := now\<rparr>
               in persist_app d a (s\<lparr>st_apps := AList.update i a (st_apps s)\<rparr>))"

section \<open>The controller\<close>

text \<open>The nodes the manager knows, in the order of its configuration, the addresses when they are managed, and what each node's driver
holds.\<close>

record cm_node =
  cn_id :: string
  cn_name :: string
  cn_online :: bool

record app_world =
  aw_store :: app_store
  aw_nodes :: "cm_node list"
  aw_ipam :: "ipam_state option"
  aw_config :: "string \<Rightarrow> node_config"
  aw_hosts :: "string \<Rightarrow> compose_host"

text \<open>A command reaches the node and its answer comes back, the answer is lost on the way (the call runs out of time), or the command is not delivered.\<close>

datatype delivery = Delivered | Answer_lost | Not_delivered

record ctl_env =
  ce_now :: go_time
  ce_fresh :: string
  ce_db :: app_db
  ce_delivery :: delivery
  ce_agent :: agent_env
  ce_net_answer :: "string option"
  ce_net_reached :: bool

definition short_id :: "string \<Rightarrow> string" where
  "short_id s = take 12 (filter (\<lambda>c. c \<noteq> CHR ''-'') s)"

definition project_of :: "application \<Rightarrow> string" where
  "project_of a = ''maple-'' @ short_id (ap_id a)"

definition spec_of :: "application \<Rightarrow> string \<Rightarrow> app_spec" where
  "spec_of a net = \<lparr>as_app = ap_id a, as_version = ap_version a, as_project = project_of a, as_network = net, as_yaml = ap_spec a\<rparr>"

definition node_for :: "application \<Rightarrow> app_world \<Rightarrow> cm_node option" where
  "node_for a w =
    (case (if ap_node a \<noteq> [] then find (\<lambda>n. cn_id n = ap_node a) (aw_nodes w) else None) of
       Some n \<Rightarrow> if cn_online n then Some n else find cn_online (aw_nodes w)
     | None \<Rightarrow> find cn_online (aw_nodes w))"

definition call_app :: "compose_lib \<Rightarrow> ctl_env \<Rightarrow> string \<Rightarrow> app_action \<Rightarrow> app_spec \<Rightarrow> app_world \<Rightarrow> app_answer option \<times> app_world" where
  "call_app lib env n act p w =
    (if ce_delivery env = Not_delivered then (None, w)
     else (case execute_app lib (aw_config w n) (ce_agent env) act p (aw_hosts w n) of
             (r, h) \<Rightarrow> (if ce_delivery env = Delivered then r else None, w\<lparr>aw_hosts := (aw_hosts w)(n := h)\<rparr>)))"

definition put_status :: "ctl_env \<Rightarrow> application \<Rightarrow> string \<Rightarrow> app_world \<Rightarrow> app_world" where
  "put_status env a st w = w\<lparr>aw_store := snd (put_app (ce_fresh env) (ce_now env) (ce_db env) (a\<lparr>ap_status := st\<rparr>) (aw_store w))\<rparr>"

datatype ctl_error = App_missing | No_spec | No_node | Net_not_ready | Call_failed

text \<open>\<open>net.Ensure\<close>: without a provisioner the name is empty.\<close>

definition ensure_net :: "ctl_env \<Rightarrow> string \<Rightarrow> application \<Rightarrow> app_world \<Rightarrow> string option \<times> app_world" where
  "ensure_net env n a w =
    (case aw_ipam w of
       None \<Rightarrow> (Some [], w)
     | Some s \<Rightarrow>
         (case provision_ensure (ce_now env) (ce_fresh env) (ce_net_answer env) n (ap_id a) (project_of a) s of
            (Inl e, s') \<Rightarrow> (None, w\<lparr>aw_ipam := Some s'\<rparr>)
          | (Inr name, s') \<Rightarrow> (Some name, w\<lparr>aw_ipam := Some s'\<rparr>)))"

definition deploy_application :: "compose_lib \<Rightarrow> ctl_env \<Rightarrow> string \<Rightarrow> app_world \<Rightarrow> (ctl_error + application) \<times> app_world" where
  "deploy_application lib env i w =
    (case get_app i (aw_store w) of
       None \<Rightarrow> (Inl App_missing, w)
     | Some a0 \<Rightarrow>
         if ap_spec a0 = [] then (Inl No_spec, w)
         else (case node_for a0 w of
                 None \<Rightarrow> (Inl No_node, w)
               | Some n \<Rightarrow>
                   let a = a0\<lparr>ap_node := cn_id n\<rparr> in
                   (case ensure_net env (cn_id n) a w of
                      (None, w1) \<Rightarrow> (Inl Net_not_ready, put_status env a ''failed'' w1)
                    | (Some net, w1) \<Rightarrow>
                        (case call_app lib env (cn_id n) Deploy_app (spec_of a net) w1 of
                           (None, w2) \<Rightarrow> (Inl Call_failed, put_status env a ''failed'' w2)
                         | (Some r, w2) \<Rightarrow>
                             let st = (case r of State_answer s \<Rightarrow> if s = [] then ''running'' else s | Valid_answer b \<Rightarrow> ''running'');
                                 w3 = put_status env a st w2
                             in (case get_app i (aw_store w3) of None \<Rightarrow> (Inl App_missing, w3) | Some out \<Rightarrow> (Inr out, w3))))))"

text \<open>\<open>action\<close>: \<open>Stop\<close>, \<open>Start\<close> and \<open>Restart\<close>, with the state each records.\<close>

definition control_application :: "compose_lib \<Rightarrow> ctl_env \<Rightarrow> app_action \<Rightarrow> string \<Rightarrow> string \<Rightarrow> app_world \<Rightarrow>
    (ctl_error + application) \<times> app_world" where
  "control_application lib env act st i w =
    (case get_app i (aw_store w) of
       None \<Rightarrow> (Inl App_missing, w)
     | Some a \<Rightarrow>
         (case node_for a w of
            None \<Rightarrow> (Inl No_node, w)
          | Some n \<Rightarrow>
              (case call_app lib env (cn_id n) act (spec_of a []) w of
                 (None, w1) \<Rightarrow> (Inl Call_failed, w1)
               | (Some r, w1) \<Rightarrow>
                   let w2 = w1\<lparr>aw_store := set_app_status (ce_now env) (ce_db env) i st (aw_store w1)\<rparr>
                   in (case get_app i (aw_store w2) of None \<Rightarrow> (Inl App_missing, w2) | Some out \<Rightarrow> (Inr out, w2)))))"

definition stop_application :: "compose_lib \<Rightarrow> ctl_env \<Rightarrow> string \<Rightarrow> app_world \<Rightarrow> (ctl_error + application) \<times> app_world" where
  "stop_application lib env = control_application lib env Stop_app ''stopped''"

definition start_application :: "compose_lib \<Rightarrow> ctl_env \<Rightarrow> string \<Rightarrow> app_world \<Rightarrow> (ctl_error + application) \<times> app_world" where
  "start_application lib env = control_application lib env Start_app ''running''"

definition restart_application :: "compose_lib \<Rightarrow> ctl_env \<Rightarrow> string \<Rightarrow> app_world \<Rightarrow> (ctl_error + application) \<times> app_world" where
  "restart_application lib env = control_application lib env Restart_app ''running''"

definition release_net :: "ctl_env \<Rightarrow> application \<Rightarrow> app_world \<Rightarrow> app_world" where
  "release_net env a w =
    (case aw_ipam w of
       None \<Rightarrow> w
     | Some s \<Rightarrow> w\<lparr>aw_ipam := Some (snd (provision_release (ce_now env) (ce_net_reached env) (ce_net_answer env) (ap_id a) s))\<rparr>)"

definition remove_application :: "compose_lib \<Rightarrow> ctl_env \<Rightarrow> string \<Rightarrow> app_world \<Rightarrow> ctl_error option \<times> app_world" where
  "remove_application lib env i w =
    (case get_app i (aw_store w) of
       None \<Rightarrow> (Some App_missing, w)
     | Some a \<Rightarrow>
         (case node_for a w of
            None \<Rightarrow> (Some No_node, w)
          | Some n \<Rightarrow>
              (case call_app lib env (cn_id n) Remove_app (spec_of a (if aw_ipam w = None then [] else project_of a)) w of
                 (None, w1) \<Rightarrow> (Some Call_failed, w1)
               | (Some r, w1) \<Rightarrow>
                   let w2 = release_net env a w1
                   in (None, w2\<lparr>aw_store := delete_app (ce_db env) i (aw_store w2)\<rparr>))))"

definition validate_application :: "compose_lib \<Rightarrow> ctl_env \<Rightarrow> string \<Rightarrow> app_world \<Rightarrow> (ctl_error + bool) \<times> app_world" where
  "validate_application lib env i w =
    (case get_app i (aw_store w) of
       None \<Rightarrow> (Inl App_missing, w)
     | Some a \<Rightarrow>
         (case node_for a w of
            None \<Rightarrow> (Inl No_node, w)
          | Some n \<Rightarrow>
              (case call_app lib env (cn_id n) Validate_app (spec_of a []) w of
                 (Some (Valid_answer v), w1) \<Rightarrow> (Inr v, w1)
               | (_, w1) \<Rightarrow> (Inl Call_failed, w1))))"

text \<open>\<open>POST /api/mgmt/applications\<close>.\<close>

definition save_application :: "ctl_env \<Rightarrow> application \<Rightarrow> app_world \<Rightarrow> application option \<times> app_world" where
  "save_application env a w =
    (if ap_name a = [] \<or> ap_spec a = [] then (None, w)
     else (case put_app (ce_fresh env) (ce_now env) (ce_db env) a (aw_store w) of
             (out, s) \<Rightarrow> (Some out, w\<lparr>aw_store := s\<rparr>)))"

section \<open>Runs\<close>

datatype app_event =
  Save_ev ctl_env application
| Deploy_ev ctl_env string
| Stop_ev ctl_env string
| Start_ev ctl_env string
| Restart_ev ctl_env string
| Remove_ev ctl_env string
| Validate_ev ctl_env string
| Online_ev string bool

definition set_online :: "string \<Rightarrow> bool \<Rightarrow> app_world \<Rightarrow> app_world" where
  "set_online n b w = w\<lparr>aw_nodes := map (\<lambda>nd. if cn_id nd = n \<and> n \<noteq> [] then nd\<lparr>cn_online := b\<rparr> else nd) (aw_nodes w)\<rparr>"

fun app_step :: "compose_lib \<Rightarrow> app_world \<Rightarrow> app_event \<Rightarrow> app_world" where
  "app_step lib w (Save_ev env a) = snd (save_application env a w)"
| "app_step lib w (Deploy_ev env i) = snd (deploy_application lib env i w)"
| "app_step lib w (Stop_ev env i) = snd (stop_application lib env i w)"
| "app_step lib w (Start_ev env i) = snd (start_application lib env i w)"
| "app_step lib w (Restart_ev env i) = snd (restart_application lib env i w)"
| "app_step lib w (Remove_ev env i) = snd (remove_application lib env i w)"
| "app_step lib w (Validate_ev env i) = snd (validate_application lib env i w)"
| "app_step lib w (Online_ev n b) = set_online n b w"

text \<open>What keeps the containers of an application findable: it is deployed, validated and removed while the node it is
registered on is online, the specifications sent are ones Compose accepts, a node that is sent a removal can read and write the file of the
project and run \<open>config -q\<close> on it, and saving an application again neither moves it
to another node nor takes the project name of another application.\<close>

definition removal_ready :: "agent_env \<Rightarrow> bool" where
  "removal_ready env \<longleftrightarrow> ae_read env \<and> ae_write env \<and> ae_available env \<and> ae_config env"

definition home_online :: "app_world \<Rightarrow> application \<Rightarrow> bool" where
  "home_online w a \<longleftrightarrow> ap_node a = [] \<or>
    (\<exists>nd. find (\<lambda>n. cn_id n = ap_node a) (aw_nodes w) = Some nd \<and> cn_online nd)"

definition accepted_spec :: "compose_lib \<Rightarrow> app_world \<Rightarrow> application \<Rightarrow> bool" where
  "accepted_spec lib w a \<longleftrightarrow>
    (\<forall>n net p. prep_param lib (aw_config w n) (spec_of a net) = Some p \<longrightarrow> cl_valid lib (as_yaml p))"

definition saved_id :: "ctl_env \<Rightarrow> application \<Rightarrow> string" where
  "saved_id env a = (if ap_id a = [] then ce_fresh env else ap_id a)"

fun steady :: "compose_lib \<Rightarrow> app_world \<Rightarrow> app_event \<Rightarrow> bool" where
  "steady lib w (Save_ev env a) =
     (saved_id env a \<noteq> []
      \<and> (\<forall>b. get_app (saved_id env a) (aw_store w) = Some b \<longrightarrow> ap_node b = ap_node a)
      \<and> (\<forall>j b. get_app j (aw_store w) = Some b \<and> short_id (ap_id b) = short_id (saved_id env a) \<longrightarrow> ap_id b = saved_id env a))"
| "steady lib w (Deploy_ev env i) = (\<forall>a. get_app i (aw_store w) = Some a \<longrightarrow> home_online w a \<and> accepted_spec lib w a)"
| "steady lib w (Validate_ev env i) = (\<forall>a. get_app i (aw_store w) = Some a \<longrightarrow> home_online w a \<and> accepted_spec lib w a)"
| "steady lib w (Remove_ev env i) = ((\<forall>a. get_app i (aw_store w) = Some a \<longrightarrow> home_online w a) \<and> removal_ready (ce_agent env))"
| "steady lib w _ = True"

text \<open>Every container belongs to an application in the store that is registered on the very node, and lies beside a file Compose accepts.\<close>

definition keyed_apps :: "app_store \<Rightarrow> bool" where
  "keyed_apps s \<longleftrightarrow> (\<forall>(k, a) \<in> set (st_apps s). k = ap_id a \<and> k \<noteq> [])
    \<and> (\<forall>i j a b. get_app i s = Some a \<and> get_app j s = Some b \<and> short_id (ap_id a) = short_id (ap_id b) \<longrightarrow> i = j)"

definition has_home :: "app_world \<Rightarrow> string \<Rightarrow> string \<Rightarrow> bool" where
  "has_home w n p \<longleftrightarrow> (\<exists>i a. get_app i (aw_store w) = Some a \<and> project_of a = p \<and> ap_node a = n \<and> n \<noteq> [])"

definition removable :: "compose_lib \<Rightarrow> string \<Rightarrow> compose_host \<Rightarrow> bool" where
  "removable lib p h \<longleftrightarrow> (ch_containers h p \<noteq> None \<longrightarrow> (\<exists>f. ch_files h p = Some f \<and> cl_valid lib f))"

definition tracked :: "compose_lib \<Rightarrow> app_world \<Rightarrow> bool" where
  "tracked lib w \<longleftrightarrow> keyed_apps (aw_store w) \<and> (\<forall>nd \<in> set (aw_nodes w). cn_online nd \<longrightarrow> cn_id nd \<noteq> [])
    \<and> (\<forall>n p. ch_containers (aw_hosts w n) p \<noteq> None \<longrightarrow> has_home w n p)
    \<and> (\<forall>n p. removable lib p (aw_hosts w n))"

subsection \<open>The store\<close>

lemma keyed_get: "keyed_apps s \<Longrightarrow> get_app i s = Some a \<Longrightarrow> ap_id a = i \<and> i \<noteq> []"
  by (auto simp: keyed_apps_def get_app_def dest!: map_of_SomeD)


lemma persist_apps [simp]: "st_apps (persist_app d a s) = st_apps s"
  by (simp add: persist_app_def split: option.split)

lemma get_persist [simp]: "get_app i (persist_app d a s) = get_app i s"
  by (simp add: get_app_def)


lemma map_of_filter_keys: "map_of (filter (\<lambda>(k, v). k \<noteq> i) xs) j = (if j = i then None else map_of xs j)"
  by (induction xs) auto

lemma put_apps0:
  assumes "\<forall>(k, a) \<in> set (st_apps s). k = ap_id a" "put_app fresh now d a0 s = (a, s')"
  shows "st_apps s' = AList.update (ap_id a) a (st_apps s)"
proof -
  have f: "filter (\<lambda>(k, v). \<not> (k \<noteq> ap_id a \<and> ap_id v = ap_id a)) (st_apps s) = st_apps s"
    using assms(1) by (auto simp: filter_id_conv)
  then show ?thesis using assms(2) by (auto simp: put_app_def Let_def)
qed

lemma put_apps:
  assumes "keyed_apps s" "put_app fresh now d a0 s = (a, s')"
  shows "st_apps s' = AList.update (ap_id a) a (st_apps s)"
  using put_apps0 [OF _ assms(2)] assms(1) by (auto simp: keyed_apps_def)

lemma get_put:
  assumes "keyed_apps s" "put_app fresh now d a0 s = (a, s')"
  shows "get_app i s' = (if i = ap_id a then Some a else get_app i s)"
  using put_apps [OF assms] by (simp add: get_app_def)


lemma in_update: "x \<in> set (AList.update k v xs) \<Longrightarrow> x = (k, v) \<or> x \<in> set xs"
  by (induction xs) (auto split: if_splits)


subsection \<open>The driver\<close>

lemma prep_project: "prep_param lib cfg p = Some p' \<Longrightarrow> as_project p' = as_project p"
  by (auto simp: prep_param_def spec_param_def split: option.splits if_splits sum.splits)

lemmas driver_defs = driver_validate_def driver_up_def driver_switch_def driver_remove_def clear_project_def set_file_def set_containers_def
  answer_state_def app_validate_def app_deploy_def app_stop_def app_start_def app_remove_def


lemma clear_none: "ch_files h p = None \<Longrightarrow> clear_project env p h = h"
  by (cases h) (auto simp: clear_project_def set_file_def fun_eq_iff)




lemma snd_answer [simp]: "snd (answer_state st r) = snd r"
  by (simp add: answer_state_def)





subsection \<open>Every step keeps the containers tracked\<close>

lemma node_for_online: "node_for a w = Some n \<Longrightarrow> n \<in> set (aw_nodes w) \<and> cn_online n"
  by (auto simp: node_for_def split: option.splits if_splits dest: find_Some_mem)



lemma call_frame [simp]:
  "aw_store (snd (call_app lib env n act p w)) = aw_store w"
  "aw_nodes (snd (call_app lib env n act p w)) = aw_nodes w"
  "aw_ipam (snd (call_app lib env n act p w)) = aw_ipam w"
  "aw_config (snd (call_app lib env n act p w)) = aw_config w"
  by (simp_all add: call_app_def split: prod.split)


lemma spec_project [simp]: "as_project (spec_of a net) = project_of a"
  by (simp add: spec_of_def)








lemma get_set_status:
  "get_app j (set_app_status now d i st s) =
    (if j = i then map_option (\<lambda>a. a\<lparr>ap_status := st, ap_updated := now\<rparr>) (get_app i s) else get_app j s)"
  by (auto simp: set_app_status_def Let_def split: option.split) (simp_all add: get_app_def)



lemma tracked_ipam [simp]: "tracked lib (w\<lparr>aw_ipam := x\<rparr>) = tracked lib w"
  by (simp add: tracked_def has_home_def)

lemma ensure_frame:
  "ensure_net env n a w = (r, w1) \<Longrightarrow> \<exists>x. w1 = w\<lparr>aw_ipam := x\<rparr>"
  by (auto simp: ensure_net_def split: option.splits prod.splits sum.splits intro: exI [of _ "aw_ipam w"])

lemma release_frame: "\<exists>x. release_net env a w = w\<lparr>aw_ipam := x\<rparr>"
  by (auto simp: release_net_def split: option.split intro: exI [of _ "aw_ipam w"])

lemma of_moved [simp]: "spec_of (a\<lparr>ap_node := n\<rparr>) net = spec_of a net" "project_of (a\<lparr>ap_node := n\<rparr>) = project_of a"
  by (simp_all add: spec_of_def project_of_def)










section \<open>What the runs guarantee\<close>

definition fresh_manager :: "cm_node list \<Rightarrow> ipam_state option \<Rightarrow> (string \<Rightarrow> node_config) \<Rightarrow> app_world" where
  "fresh_manager nodes ipam cfg = \<lparr>aw_store = new_app_store None, aw_nodes = nodes, aw_ipam = ipam, aw_config = cfg,
     aw_hosts = (\<lambda>_. \<lparr>ch_files = (\<lambda>_. None), ch_containers = (\<lambda>_. None)\<rparr>)\<rparr>"

definition app_run :: "compose_lib \<Rightarrow> app_world \<Rightarrow> app_event list \<Rightarrow> app_world" where
  "app_run lib = foldl (\<lambda>w e. if steady lib w e then app_step lib w e else w)"



definition calm_agent :: agent_env where
  "calm_agent = \<lparr>ae_available = True, ae_read = True, ae_write = True, ae_clear = True, ae_config = True, ae_run = True, ae_left = False\<rparr>"

text \<open>A database that takes the lower-case form with hyphens for a UUID, and every text without a zero byte.\<close>

definition canonical_uuid :: "string \<Rightarrow> bool" where
  "canonical_uuid s \<longleftrightarrow> length s = 36 \<and>
    list_all (\<lambda>(k, c). if k \<in> {8, 13, 18, 23} then c = CHR ''-'' else c \<in> set ''0123456789abcdef'') (enumerate 0 s)"

definition sample_db :: app_db where
  "sample_db = \<lparr>db_up = True, db_uuid = (\<lambda>s. if canonical_uuid s then Some s else None), db_text = (\<lambda>s. CHR 0x00 \<notin> set s)\<rparr>"

definition calm_ctl :: ctl_env where
  "calm_ctl = \<lparr>ce_now = 1, ce_fresh = ''f'', ce_db = sample_db, ce_delivery = Delivered, ce_agent = calm_agent,
     ce_net_answer = None, ce_net_reached = True\<rparr>"

definition plain_lib :: compose_lib where
  "plain_lib = \<lparr>cl_unmarshal = (\<lambda>_. None), cl_marshal = (\<lambda>_. None), cl_valid = (\<lambda>s. s \<noteq> ''bad'')\<rparr>"

definition shop_app :: application where
  "shop_app = \<lparr>ap_id = ''a1'', ap_name = ''shop'', ap_description = [], ap_status = [], ap_node = ''n1'', ap_service = [],
     ap_version = ''v1'', ap_spec = ''web'', ap_weight = 0, ap_created = 0, ap_updated = 0\<rparr>"

definition two_nodes :: "cm_node list" where
  "two_nodes = [\<lparr>cn_id = ''n1'', cn_name = ''one'', cn_online = True\<rparr>, \<lparr>cn_id = ''n2'', cn_name = ''two'', cn_online = True\<rparr>]"

definition two_node_manager :: app_world where
  "two_node_manager = fresh_manager two_nodes None (\<lambda>_. \<lparr>nc_root = [], nc_managed = ''m''\<rparr>)"

definition shop_runs :: app_world where
  "shop_runs = app_run plain_lib two_node_manager [Save_ev calm_ctl shop_app, Deploy_ev calm_ctl ''a1'']"

lemma prepare_plain: "prepare (\<lambda>_. None) m ''web'' r l i n = Inr ''web''"
  by (simp add: prepare_def data_dir_placeholder_def has_prefix_def trim_space_def is_space_def)

lemmas run_defs = app_run_def fresh_manager_def save_application_def put_app_def Let_def persist_app_def new_app_store_def get_app_def
  deploy_application_def node_for_def ensure_net_def call_app_def spec_of_def project_of_def short_id_def
  app_deploy_def prep_param_def spec_param_def driver_up_def set_file_def set_containers_def answer_state_def put_status_def
  calm_ctl_def calm_agent_def plain_lib_def shop_app_def two_nodes_def two_node_manager_def

definition shop_stored :: application where
  "shop_stored = shop_app\<lparr>ap_status := ''running'', ap_created := 1, ap_updated := 1\<rparr>"

definition shop_host :: compose_host where
  "shop_host = \<lparr>ch_files = (\<lambda>_. None)(''maple-a1'' := Some ''web''), ch_containers = (\<lambda>_. None)(''maple-a1'' := Some True)\<rparr>"

lemma shop_runs_state:
  "shop_runs = two_node_manager\<lparr>aw_store := \<lparr>st_table = None, st_apps = [(''a1'', shop_stored)]\<rparr>,
     aw_hosts := (aw_hosts two_node_manager)(''n1'' := shop_host)\<rparr>"
  by (simp add: shop_runs_def run_defs home_online_def accepted_spec_def saved_id_def prepare_plain shop_stored_def shop_host_def)

lemmas remove_defs = remove_application_def release_net_def call_app_def app_remove_def spec_param_def driver_remove_def
  clear_project_def driver_validate_def set_file_def set_containers_def answer_state_def spec_of_def project_of_def short_id_def node_for_def
  get_app_def delete_app_def Let_def

lemma shop_state_simps:
  "get_app ''a1'' (aw_store shop_runs) = Some shop_stored" "aw_nodes shop_runs = two_nodes" "aw_ipam shop_runs = None"
  "aw_hosts shop_runs ''n1'' = shop_host"
  by (simp_all add: shop_runs_state get_app_def two_node_manager_def fresh_manager_def)


text \<open>Property C36. Without that care containers are left behind for good: when the node an application runs on is offline, its removal is
sent to the first node that is online, which has nothing to remove and says so; the manager then forgets the application, whose containers are still
on the node that was away.\<close>

theorem an_offline_home_keeps_its_containers:
  assumes "get_app i (aw_store w) = Some a" "ap_spec a \<noteq> []"
    and "find (\<lambda>n. cn_id n = ap_node a) (aw_nodes w) = Some home" "\<not> cn_online home"
    and "find cn_online (aw_nodes w) = Some n" "cn_id n \<noteq> ap_node a"
    and "ch_files (aw_hosts w (cn_id n)) (project_of a) = None" "ce_delivery env = Delivered"
  shows "fst (remove_application lib env i w) = None
    \<and> get_app i (aw_store (snd (remove_application lib env i w))) = None
    \<and> aw_hosts (snd (remove_application lib env i w)) (ap_node a) = aw_hosts w (ap_node a)"
proof -
  have n: "node_for a w = Some n" using assms(3-5) by (simp add: node_for_def)
  let ?p = "spec_of a (if aw_ipam w = None then [] else project_of a)"
  have "spec_param ?p = Some ?p" using assms(2) by (simp add: spec_param_def spec_of_def project_of_def)
  then have "app_remove lib (ce_agent env) ?p (aw_hosts w (cn_id n)) = (Some (State_answer ''removed''), aw_hosts w (cn_id n))"
    using assms(7) by (simp add: app_remove_def driver_remove_def answer_state_def clear_none)
  then have c: "call_app lib env (cn_id n) Remove_app ?p w = (Some (State_answer ''removed''), w)"
    using assms(8) by (simp add: call_app_def)
  obtain x where x: "release_net env a w = w\<lparr>aw_ipam := x\<rparr>" using release_frame by blast
  have "remove_application lib env i w = (None, w\<lparr>aw_ipam := x, aw_store := delete_app (ce_db env) i (aw_store w)\<rparr>)"
    using assms(1) n c x by (simp add: remove_application_def Let_def)
  moreover have "get_app i (delete_app d i s) = None" for d s
    by (simp add: get_app_def delete_app_def map_of_eq_None_iff) auto
  ultimately show ?thesis by simp
qed

definition first_node_away :: app_world where
  "first_node_away = set_online ''n1'' False shop_runs"

theorem an_offline_home_keeps_its_containers_witness:
  "fst (remove_application plain_lib calm_ctl ''a1'' first_node_away) = None
   \<and> get_app ''a1'' (aw_store (snd (remove_application plain_lib calm_ctl ''a1'' first_node_away))) = None
   \<and> ch_containers (aw_hosts (snd (remove_application plain_lib calm_ctl ''a1'' first_node_away)) ''n1'') ''maple-a1'' = Some True"
proof -
  have a: "get_app ''a1'' (aw_store first_node_away) = Some shop_stored" "aw_hosts first_node_away = aw_hosts shop_runs"
    by (simp_all add: first_node_away_def set_online_def shop_state_simps)
  have f: "find (\<lambda>n. cn_id n = ap_node shop_stored) (aw_nodes first_node_away) = Some \<lparr>cn_id = ''n1'', cn_name = ''one'', cn_online = False\<rparr>"
    "find cn_online (aw_nodes first_node_away) = Some \<lparr>cn_id = ''n2'', cn_name = ''two'', cn_online = True\<rparr>"
    by (simp_all add: first_node_away_def set_online_def shop_state_simps two_nodes_def shop_stored_def shop_app_def)
  have h: "ch_files (aw_hosts first_node_away ''n2'') (project_of shop_stored) = None"
    by (simp add: a(2) shop_runs_state two_node_manager_def fresh_manager_def)
  have "aw_hosts first_node_away ''n1'' = shop_host" by (simp add: a(2) shop_state_simps)
  then show ?thesis
    using an_offline_home_keeps_its_containers [OF a(1) _ f(1) _ f(2), of calm_ctl plain_lib] h
    by (simp add: shop_stored_def shop_app_def shop_host_def calm_ctl_def)
qed

text \<open>A specification that is rejected replaces the file of the running one, by a validation or by a deployment that fails; the
removal then takes the project for one that never ran.\<close>

lemma a_rejected_specification_hides_the_containers:
  assumes "prep_param lib cfg p = Some p'" "\<not> cl_valid lib (as_yaml p')" "ae_available env" "ae_write env" "ae_clear env" "act \<in> {Validate_app, Deploy_app}"
    and "spec_param q = Some q" "as_project q = as_project p"
  shows "let h1 = snd (execute_app lib cfg env act p h); r = execute_app lib cfg env Remove_app q h1 in
    fst r = Some (State_answer ''removed'') \<and> ch_containers (snd r) (as_project p) = ch_containers h (as_project p)
    \<and> ch_files (snd r) (as_project p) = None"
  using assms prep_project [OF assms(1)] by (auto simp: driver_defs Let_def)

text \<open>So does every other failure of \<open>config -q\<close>: when Compose cannot be started at the moment of the removal, when the command runs out of
time, or when the file cannot be written again, the containers are left running, their file is deleted, and the removal is reported as done.\<close>

lemma a_failing_check_hides_the_containers:
  assumes "ch_files h (as_project p) = Some f" "spec_param p = Some p"
    and "\<not> ae_available env \<or> \<not> ae_config env \<or> \<not> ae_write env" "ae_read env" "ae_clear env"
  shows "let r = execute_app lib cfg env Remove_app p h in
    fst r = Some (State_answer ''removed'') \<and> ch_containers (snd r) = ch_containers h \<and> ch_files (snd r) (as_project p) = None"
  using assms by (auto simp: driver_defs Let_def)

text \<open>Instantiating a project again saves its application with the node of that request, which may be empty, and without a status.\<close>

lemma saving_again_forgets_the_node:
  assumes "keyed_apps (aw_store w)" "ap_id a = i" "i \<noteq> []" "ap_name a \<noteq> []" "ap_spec a \<noteq> []" "ap_node a = []"
  shows "\<exists>b. get_app i (aw_store (snd (save_application env a w))) = Some b \<and> ap_status b = ap_status a
    \<and> node_for b (snd (save_application env a w)) = find cn_online (aw_nodes w)"
proof -
  obtain b s' where put: "put_app (ce_fresh env) (ce_now env) (ce_db env) a (aw_store w) = (b, s')"
    by (cases "put_app (ce_fresh env) (ce_now env) (ce_db env) a (aw_store w)")
  then have b: "ap_id b = i" "ap_node b = []" "ap_status b = ap_status a"
    using assms by (auto simp: put_app_def Let_def)
  then show ?thesis
    using put get_put [OF assms(1) put, of i] assms by (auto simp: save_application_def node_for_def)
qed

text \<open>Property C19. A deployment that succeeds is where the manager says it is: the application is recorded as running on the node that
was called, which is online, and that node runs the project's containers from the very specification it prepared.\<close>

theorem a_deployed_application_runs_on_its_node:
  assumes "keyed_apps (aw_store w)" and "deploy_application lib env i w = (Inr out, w')"
  shows "get_app i (aw_store w') = Some out \<and> ap_status out = ''running''
    \<and> (\<exists>n net p. node_for (the (get_app i (aw_store w))) w = Some n \<and> cn_online n \<and> ap_node out = cn_id n
         \<and> prep_param lib (aw_config w (cn_id n)) (spec_of out net) = Some p \<and> cl_valid lib (as_yaml p)
         \<and> ch_containers (aw_hosts w' (cn_id n)) (project_of out) = Some True
         \<and> ch_files (aw_hosts w' (cn_id n)) (project_of out) = Some (as_yaml p))"
proof -
  obtain a n where a: "get_app i (aw_store w) = Some a" and n: "node_for a w = Some n"
    using assms(2) by (auto simp: deploy_application_def split: option.splits if_splits)
  let ?a = "a\<lparr>ap_node := cn_id n\<rparr>"
  have id: "ap_id a = i" "i \<noteq> []" using keyed_get [OF assms(1) a] by auto
  obtain net w1 where e: "ensure_net env (cn_id n) ?a w = (Some net, w1)"
    using assms(2) a n by (auto simp: deploy_application_def Let_def split: option.splits if_splits prod.splits)
  obtain x where w1: "w1 = w\<lparr>aw_ipam := x\<rparr>" using ensure_frame [OF e] by auto
  obtain r w2 where c: "call_app lib env (cn_id n) Deploy_app (spec_of a net) w1 = (Some r, w2)"
    using assms(2) a n e by (auto simp: deploy_application_def Let_def split: option.splits if_splits prod.splits)
  let ?d = "app_deploy lib (aw_config w (cn_id n)) (ce_agent env) (spec_of a net) (aw_hosts w (cn_id n))"
  have d: "fst ?d = Some r" and h: "aw_hosts w2 (cn_id n) = snd ?d" and s2: "aw_store w2 = aw_store w"
    using c w1 by (auto simp: call_app_def split: if_splits prod.splits)
  obtain p where p: "prep_param lib (aw_config w (cn_id n)) (spec_of a net) = Some p"
    using d by (auto simp: app_deploy_def split: option.splits)
  have up: "cl_valid lib (as_yaml p)" "r = State_answer ''running''"
    "ch_containers (snd ?d) (project_of a) = Some True" "ch_files (snd ?d) (project_of a) = Some (as_yaml p)"
    using d prep_project [OF p] by (auto simp: app_deploy_def p driver_defs Let_def split: if_splits)
  obtain b s' where put: "put_app (ce_fresh env) (ce_now env) (ce_db env) (?a\<lparr>ap_status := ''running''\<rparr>) (aw_store w) = (b, s')"
    by (cases "put_app (ce_fresh env) (ce_now env) (ce_db env) (?a\<lparr>ap_status := ''running''\<rparr>) (aw_store w)")
  have b: "ap_id b = i" "ap_node b = cn_id n" "ap_status b = ''running''" "ap_version b = ap_version a" "ap_spec b = ap_spec a"
    using put id by (auto simp: put_app_def Let_def)
  have out: "out = b" "w' = w2\<lparr>aw_store := s'\<rparr>"
    using assms(2) a n e c up(2) put get_put [OF assms(1) put, of i] b(1) s2
    by (auto simp: deploy_application_def Let_def put_status_def split: if_splits)
  have pr: "project_of b = project_of a" "spec_of b net = spec_of a net"
    using b id by (simp_all add: project_of_def spec_of_def)
  have "get_app i (aw_store w') = Some out" using get_put [OF assms(1) put, of i] b(1) out by simp
  moreover have "aw_hosts w' (cn_id n) = snd ?d" using h out(2) by simp
  ultimately show ?thesis
    using n node_for_online [OF n] b p up pr a unfolding out(1)
    by (intro conjI exI [of _ n] exI [of _ net] exI [of _ p]) simp_all
qed

theorem a_deployed_application_runs_on_its_node_witness:
  "\<exists>out w'. deploy_application plain_lib calm_ctl ''a1'' shop_runs = (Inr out, w') \<and> ap_node out = ''n1''
    \<and> get_app ''a1'' (aw_store w') = Some out"
proof -
  have k: "keyed_apps (aw_store shop_runs)"
    by (simp add: shop_runs_state keyed_apps_def get_app_def shop_stored_def shop_app_def split: if_splits)
  obtain out w' where d: "deploy_application plain_lib calm_ctl ''a1'' shop_runs = (Inr out, w')" "ap_node out = ''n1''"
    by (simp add: shop_runs_state shop_stored_def run_defs prepare_plain)
  from a_deployed_application_runs_on_its_node [OF k d(1)] d show ?thesis by blast
qed

section \<open>Restart\<close>

datatype store_op = Put_op string go_time application | Status_op go_time string string | Delete_op string

text \<open>What a database keeps of an application as it is, but for the instants: canonical UUIDs, texts it takes and a weight of 32 bits.\<close>

definition keeps_app :: "app_db \<Rightarrow> application \<Rightarrow> bool" where
  "keeps_app d a \<longleftrightarrow> db_uuid d (ap_id a) = Some (ap_id a) \<and> (ap_service a = [] \<or> db_uuid d (ap_service a) = Some (ap_service a))
    \<and> list_all (db_text d) (texts_of a) \<and> - (2 ^ 31) \<le> ap_weight a \<and> ap_weight a < 2 ^ 31"

fun storable :: "app_db \<Rightarrow> store_op \<Rightarrow> bool" where
  "storable d (Put_op fresh now a) = keeps_app d (a\<lparr>ap_id := (if ap_id a = [] then fresh else ap_id a)\<rparr>)"
| "storable d (Status_op now i st) = db_text d st"
| "storable d (Delete_op i) = (db_uuid d i = Some i)"

fun store_step :: "app_db \<Rightarrow> app_store \<Rightarrow> store_op \<Rightarrow> app_store" where
  "store_step d s (Put_op fresh now a) = snd (put_app fresh now d a s)"
| "store_step d s (Status_op now i st) = set_app_status now d i st s"
| "store_step d s (Delete_op i) = delete_app d i s"

text \<open>A row beside an application in memory.\<close>

definition stored_as :: "application \<Rightarrow> application \<Rightarrow> bool" where
  "stored_as a r \<longleftrightarrow> r\<lparr>ap_created := 0\<rparr> = a\<lparr>ap_created := 0, ap_updated := to_micros (ap_updated a)\<rparr>"

definition row_of :: "string \<Rightarrow> application list \<Rightarrow> application option" where
  "row_of i rows = find (\<lambda>r. ap_id r = i) rows"

definition mirrored :: "app_db \<Rightarrow> app_store \<Rightarrow> bool" where
  "mirrored d s \<longleftrightarrow> (\<forall>(k, a) \<in> set (st_apps s). k = ap_id a \<and> keeps_app d a)
    \<and> (\<exists>rows. st_table s = Some rows \<and> distinct (map ap_id rows)
         \<and> (\<forall>i. rel_option stored_as (get_app i s) (row_of i rows)))"

lemma row_of_simps [simp]:
  "row_of i [] = None" "row_of i (r # rows) = (if ap_id r = i then Some r else row_of i rows)"
  by (simp_all add: row_of_def)

lemma row_of_append: "row_of i (xs @ ys) = (case row_of i xs of None \<Rightarrow> row_of i ys | Some r \<Rightarrow> Some r)"
  by (induction xs) auto

lemma row_of_filter: "row_of i (filter (\<lambda>r. ap_id r \<noteq> j) rows) = (if i = j then None else row_of i rows)"
  by (induction rows) auto

lemma row_of_map: "(\<And>r. ap_id (f r) = ap_id r) \<Longrightarrow> row_of i (map f rows) = map_option f (row_of i rows)"
  by (induction rows) auto

lemma row_of_None: "row_of i rows = None \<longleftrightarrow> i \<notin> ap_id ` set rows"
  by (induction rows) auto

lemma row_of_id: "row_of i rows = Some r \<Longrightarrow> ap_id r = i"
  by (induction rows) (auto split: if_splits)

lemma app_row_kept:
  assumes "db_up d" "keeps_app d a"
  shows "app_row d a = Some (a\<lparr>ap_created := to_micros (ap_created a), ap_updated := to_micros (ap_updated a)\<rparr>)"
  using assms by (cases a) (auto simp: app_row_def keeps_app_def)

lemma row_of_restored:
  "row_of i (map (\<lambda>r. if ap_id r = ap_id a then a\<lparr>ap_created := ap_created r\<rparr> else r) rows) =
    map_option (\<lambda>r. if ap_id r = ap_id a then a\<lparr>ap_created := ap_created r\<rparr> else r) (row_of i rows)"
  by (rule row_of_map) simp

lemma persisted_row:
  assumes "st_table s = Some rows" "db_up d" "keeps_app d a"
  shows "\<exists>rows'. st_table (persist_app d a s) = Some rows' \<and> (distinct (map ap_id rows) \<longrightarrow> distinct (map ap_id rows'))
    \<and> (\<exists>r. row_of (ap_id a) rows' = Some r \<and> stored_as a r)
    \<and> (\<forall>i. i \<noteq> ap_id a \<longrightarrow> row_of i rows' = row_of i rows)"
proof -
  let ?b = "a\<lparr>ap_created := to_micros (ap_created a), ap_updated := to_micros (ap_updated a)\<rparr>"
  have b: "app_row d a = Some ?b" by (rule app_row_kept [OF assms(2,3)])
  show ?thesis
  proof (cases "ap_id a \<in> ap_id ` set rows")
    case True
    let ?f = "\<lambda>r. if ap_id r = ap_id ?b then ?b\<lparr>ap_created := ap_created r\<rparr> else r"
    define rows' where "rows' = map ?f rows"
    obtain r where r: "row_of (ap_id a) rows = Some r" using True row_of_None by (metis option.exhaust)
    have "map ap_id rows' = map ap_id rows" by (simp add: rows'_def)
    moreover have "row_of i rows' = row_of i rows" if "i \<noteq> ap_id a" for i
      using that row_of_id [of i rows] unfolding rows'_def row_of_restored by (cases "row_of i rows") auto
    moreover have "row_of (ap_id a) rows' = Some (?b\<lparr>ap_created := ap_created r\<rparr>)"
      using r row_of_id [OF r] unfolding rows'_def row_of_restored by simp
    moreover have "st_table (persist_app d a s) = Some rows'"
      using assms(1) True by (simp add: persist_app_def b rows'_def)
    ultimately show ?thesis by (simp add: stored_as_def)
  next
    case False
    then have "row_of (ap_id a) rows = None" by (simp add: row_of_None)
    then show ?thesis
      using assms(1) False by (auto simp: persist_app_def b row_of_append stored_as_def split: option.split)
  qed
qed

lemma mirrored_persist:
  assumes m: "mirrored d s" and d: "db_up d" "keeps_app d a"
    and s1: "st_table s1 = st_table s" "st_apps s1 = AList.update (ap_id a) a (st_apps s)"
  shows "mirrored d (persist_app d a s1)"
proof -
  obtain rows where rows: "st_table s = Some rows" "distinct (map ap_id rows)" "\<And>i. rel_option stored_as (get_app i s) (row_of i rows)"
    using m by (auto simp: mirrored_def)
  obtain rows' r where rows': "st_table (persist_app d a s1) = Some rows'" "distinct (map ap_id rows')"
    "row_of (ap_id a) rows' = Some r" "stored_as a r" "\<And>i. i \<noteq> ap_id a \<Longrightarrow> row_of i rows' = row_of i rows"
    using persisted_row [of s1 rows d a] rows(1,2) s1(1) d by auto
  have "get_app i (persist_app d a s1) = (if i = ap_id a then Some a else get_app i s)" for i
    by (simp add: get_app_def s1)
  then have "rel_option stored_as (get_app i (persist_app d a s1)) (row_of i rows')" for i
    using rows'(3-5) rows(3) by simp
  moreover have "\<forall>(k, b) \<in> set (st_apps (persist_app d a s1)). k = ap_id b \<and> keeps_app d b"
    using m d(2) s1(2) in_update [of _ "ap_id a" a "st_apps s"] by (fastforce simp: mirrored_def)
  ultimately show ?thesis using rows' unfolding mirrored_def by blast
qed

lemma mirrored_step: "db_up d \<Longrightarrow> storable d op \<Longrightarrow> mirrored d s \<Longrightarrow> mirrored d (store_step d s op)"
proof -
  assume d: "db_up d" and op: "storable d op" and m: "mirrored d s"
  then have k: "\<forall>(k, a) \<in> set (st_apps s). k = ap_id a" by (auto simp: mirrored_def)
  show ?thesis
  proof (cases op)
    case (Put_op fresh now a0)
    obtain a s' where put: "put_app fresh now d a0 s = (a, s')" by (cases "put_app fresh now d a0 s")
    then have "s' = persist_app d a (s\<lparr>st_apps := st_apps s'\<rparr>)" by (auto simp: put_app_def Let_def)
    moreover have "keeps_app d a" using op Put_op put by (auto simp: put_app_def Let_def keeps_app_def texts_of_def)
    then have "mirrored d (persist_app d a (s\<lparr>st_apps := st_apps s'\<rparr>))"
      by (intro mirrored_persist [OF m d]) (simp_all add: put_apps0 [OF k put])
    ultimately show ?thesis using Put_op put by simp
  next
    case (Status_op now i st)
    show ?thesis
    proof (cases "get_app i s")
      case (Some a)
      then have i: "ap_id a = i" "keeps_app d a" using m by (auto simp: mirrored_def get_app_def dest!: map_of_SomeD)
      have "keeps_app d (a\<lparr>ap_status := st, ap_updated := now\<rparr>)"
        using i op Status_op by (simp add: keeps_app_def texts_of_def)
      then have "mirrored d (persist_app d (a\<lparr>ap_status := st, ap_updated := now\<rparr>)
          (s\<lparr>st_apps := AList.update i (a\<lparr>ap_status := st, ap_updated := now\<rparr>) (st_apps s)\<rparr>))"
        by (intro mirrored_persist [OF m d]) (simp_all add: i)
      then show ?thesis using Some Status_op by (simp add: set_app_status_def Let_def)
    qed (use m Status_op in \<open>simp add: set_app_status_def\<close>)
  next
    case (Delete_op i)
    obtain rows where rows: "st_table s = Some rows" "distinct (map ap_id rows)" "\<forall>i. rel_option stored_as (get_app i s) (row_of i rows)"
      using m by (auto simp: mirrored_def)
    have "filter (\<lambda>(k, v). \<not> (k = i \<or> ap_id v = i)) (st_apps s) = filter (\<lambda>(k, v). k \<noteq> i) (st_apps s)"
      using k by (auto intro!: filter_cong)
    then have "get_app j (delete_app d i s) = (if j = i then None else get_app j s)" for j
      by (simp add: get_app_def delete_app_def map_of_filter_keys)
    moreover have "st_table (delete_app d i s) = Some (filter (\<lambda>r. ap_id r \<noteq> i) rows)"
      using rows(1) op d Delete_op by (simp add: delete_app_def)
    moreover have "\<forall>(k, a) \<in> set (st_apps (delete_app d i s)). k = ap_id a \<and> keeps_app d a"
      using m by (auto simp: mirrored_def delete_app_def)
    ultimately show ?thesis
      using rows(2,3) Delete_op by (simp add: mirrored_def row_of_filter distinct_map_filter)
  qed
qed

interpretation app_table: machine "\<lambda>s op. if db_up d \<and> storable d op then store_step d s op else s" "mirrored d" for d
  by unfold_locales (simp add: mirrored_step)

lemma storable_run:
  assumes "db_up d" "\<forall>op \<in> set ops. storable d op" "mirrored d s"
  shows "mirrored d (foldl (store_step d) s ops)"
proof -
  have "foldl (store_step d) s ops = foldl (\<lambda>s op. if db_up d \<and> storable d op then store_step d s op else s) s ops"
    using assms(1,2) by (intro foldl_cong) auto
  then show ?thesis using app_table.mrun_inv [OF assms(3)] by simp
qed

lemma get_loaded:
  "distinct (map ap_id rows) \<Longrightarrow> get_app i (load_apps (new_app_store (Some rows))) = row_of i rows"
proof -
  have "map_of (fold (\<lambda>a. AList.update (ap_id a) a) rows xs) i = (case row_of i rows of None \<Rightarrow> map_of xs i | Some a \<Rightarrow> Some a)"
    if "distinct (map ap_id rows)" for xs
    using that
  proof (induction rows arbitrary: xs)
    case (Cons r rows)
    then show ?case using row_of_None [of "ap_id r" rows] by (auto split: option.split)
  qed simp
  then show "distinct (map ap_id rows) \<Longrightarrow> ?thesis"
    by (simp add: get_app_def load_apps_def new_app_store_def split: option.split)
qed

text \<open>Property C38. Applications survive a restart of the manager: after any sequence of saves, changes of status and deletions, one after
another, on a database that answers, with ids and service ids that are canonical UUIDs, texts the database takes and weights of 32 bits, the store
loaded from the table has exactly the applications that were in memory. Each is equal in every column but the two instants: the change is loaded to the
microsecond, and of the creation nothing is promised.\<close>

theorem applications_survive_a_restart:
  assumes "db_up d" "\<forall>op \<in> set ops. storable d op"
  shows "rel_option stored_as (get_app i (foldl (store_step d) (new_app_store (Some [])) ops))
     (get_app i (load_apps (new_app_store (st_table (foldl (store_step d) (new_app_store (Some [])) ops)))))"
proof -
  have "mirrored d (new_app_store (Some []))"
    by (simp add: mirrored_def new_app_store_def get_app_def)
  then have "mirrored d (foldl (store_step d) (new_app_store (Some [])) ops)" by (rule storable_run [OF assms])
  then show ?thesis by (auto simp: mirrored_def get_loaded)
qed

definition shop_uuid :: string where
  "shop_uuid = ''7d444840-9dc0-11d1-b245-5ffdce74fad2''"

lemma shop_uuid_kept: "db_uuid sample_db shop_uuid = Some shop_uuid"
  by (simp add: sample_db_def canonical_uuid_def shop_uuid_def)

theorem applications_survive_a_restart_witness:
  "\<exists>a. get_app shop_uuid (load_apps (new_app_store (st_table (foldl (store_step sample_db) (new_app_store (Some []))
      [Put_op shop_uuid 1234567 (shop_app\<lparr>ap_id := []\<rparr>), Status_op 2345678 shop_uuid ''stopped''])))) = Some a
    \<and> ap_status a = ''stopped'' \<and> ap_spec a = ''web'' \<and> ap_updated a = 2345000"
proof -
  let ?ops = "[Put_op shop_uuid 1234567 (shop_app\<lparr>ap_id := []\<rparr>), Status_op 2345678 shop_uuid ''stopped'']"
  have up: "db_up sample_db" by (simp add: sample_db_def)
  have ops: "\<forall>op \<in> set ?ops. storable sample_db op"
    by (simp add: keeps_app_def texts_of_def shop_uuid_kept shop_app_def) (simp add: sample_db_def)
  have "get_app shop_uuid (foldl (store_step sample_db) (new_app_store (Some [])) ?ops) =
      Some (shop_app\<lparr>ap_id := shop_uuid, ap_status := ''stopped'', ap_created := 1234567, ap_updated := 2345678\<rparr>)"
    by (simp add: put_app_def Let_def get_set_status) (simp add: get_app_def new_app_store_def shop_app_def)
  then obtain a where "get_app shop_uuid (load_apps (new_app_store (st_table (foldl (store_step sample_db) (new_app_store (Some [])) ?ops)))) = Some a"
    and "stored_as (shop_app\<lparr>ap_id := shop_uuid, ap_status := ''stopped'', ap_created := 1234567, ap_updated := 2345678\<rparr>) a"
    using applications_survive_a_restart [OF up ops, of shop_uuid] by (simp only: option_rel_Some1) blast
  then show ?thesis by (cases a) (simp add: stored_as_def shop_app_def to_micros_def)
qed

text \<open>The instant of creation does not survive: the gateway saves an application without one, memory then takes the present, the table keeps the
first. An application whose id is not a UUID is in memory only.\<close>

lemma saving_again_moves_the_creation:
  fixes f :: string
  assumes "ap_id a = i" "i \<noteq> []" "ap_created a = 0" "t1 \<noteq> 0" "t2 \<noteq> 0" "db_up d" "keeps_app d a"
  defines "s \<equiv> foldl (store_step d) (new_app_store (Some [])) [Put_op f t1 a, Put_op f t2 a]"
  shows "map_option ap_created (get_app i s) = Some t2 \<and>
    map_option ap_created (get_app i (load_apps (new_app_store (st_table s)))) = Some (to_micros t1)"
proof -
  have k: "keeps_app d (a\<lparr>ap_id := i, ap_created := x, ap_updated := y\<rparr>)" for x y
    using assms(1,7) by (simp add: keeps_app_def texts_of_def)
  show ?thesis
    using assms(1-5) app_row_kept [OF assms(6) k]
    by (simp add: s_def put_app_def Let_def persist_app_def new_app_store_def get_app_def load_apps_def)
qed

lemma an_application_without_uuid_is_not_stored:
  fixes f :: string and t :: go_time
  assumes "ap_id a \<noteq> []" "db_uuid d (ap_id a) = None"
  defines "s \<equiv> store_step d (new_app_store (Some [])) (Put_op f t a)"
  shows "get_app (ap_id a) s \<noteq> None \<and> get_app (ap_id a) (load_apps (new_app_store (st_table s))) = None"
  using assms(1,2) by (simp add: s_def put_app_def Let_def persist_app_def app_row_def new_app_store_def get_app_def load_apps_def)

end
