(* ===== verification/Spec2Isabelle.thy ===== *)
theory Spec2Isabelle
  imports Net_Invariant Tasksys Release Route_Behaviour Ports Control Proxy Health Accounts Discovery
    Enrollment Agent_Sessions Domains Cert_Issuance Leadership Applications
begin

text \<open>
  Maple Gateway: a reverse-proxy gateway and the container manager that feeds it, written in Go
  (\<open>src/server\<close>). The gateway's data plane turns a request's host into the instance that serves it;
  its control plane stores domains, services, versions, policies and limits in a database that the
  data plane reads as a whole (the route table). The container manager owns nodes: it gives every
  project a subnet of a node's address pools and runs containers by sending tasks to node agents.

  Parts and theories, in the order in which they depend on each other.

  \<^item> \<open>Gateway_Prelude\<close>, \<open>Go_Text\<close>: Go values (panics as \<open>outcome\<close>, \<open>int64\<close> wrap-around as
    \<open>wrap64\<close>, the zero UUID), association lists for maps whose iteration shows, Go's \<open>strings\<close>,
    \<open>strconv\<close> and FNV-1a on byte strings, and the locale \<open>machine\<close>: a step function that keeps an
    invariant, and what follows for every run. Its interpretations are \<open>tasks\<close> (\<open>Tasksys\<close>),
    \<open>conns\<close> (\<open>Load_Balancer\<close>), \<open>rels\<close> (\<open>Release\<close>), \<open>ports\<close>, \<open>node_machine\<close> (\<open>Nodes\<close>) and
    \<open>desired_run\<close> (\<open>Desired\<close>), \<open>registry\<close> (\<open>Instances\<close>) and \<open>registry_reports\<close> (\<open>Discovery\<close>), \<open>sessions\<close>
    (\<open>Agent_Sessions\<close>), \<open>domains\<close> (\<open>Domains\<close>), \<open>issuers\<close> (\<open>Cert_Issuance\<close>), \<open>app_runs\<close> and \<open>app_table\<close>
    (\<open>Applications\<close>).
  \<^item> \<open>Ipam\<close> (\<open>containermanager/ipam/cidr.go\<close>): IPv4 networks on 32-bit words, with 64-bit arithmetic
    where the code uses \<open>uint64\<close>. Lemmas relate every test to sets of addresses.
  \<^item> \<open>Netpools\<close>, \<open>Net_Allocator\<close>, \<open>Net_Invariant\<close> (\<open>containermanager/netpools\<close>): the two stores
    with the tables behind them, the allocator, the pool service, the node checker and the
    provisioner. A run is a sequence of \<open>ipam_event\<close>s, and \<open>ipam_reachable I\<close> are the runs whose events
    satisfy \<open>I\<close>. In the \<open>orderly\<close> runs, in which no network is released twice, every step keeps
    \<open>ipam_inv\<close>, from which two live networks of one node never overlap; the code does not refuse a second
    release, and a lemma shows what it does. The scan over a pool is bounded by the pool's capacity, as in
    the code.
  \<^item> \<open>Tasksys\<close> (\<open>agentprotocol/actions.go\<close>, \<open>containermanager/tasksys\<close>, \<open>api/tasks.go\<close>): tasks sent
    to agents, their life cycle, deadlines, restart and listing. \<open>call_env\<close> holds what a call sees of
    the outside: the clock, the random identifier, who is connected, whether the store accepts a row.
    A handler that the code runs without the lock is split where the lock is released: a delivery is
    \<open>deliver_send\<close>, which hands over the envelope, and \<open>deliver_done\<close>, which records how that went; the
    sweep goes task by task. \<open>task_system\<close> is the manager with the deliveries under way, and a
    \<open>schedule\<close> says what is handled before, between and after the two steps of a call.
  \<^item> \<open>Router_Host\<close> (\<open>internal/router\<close>): targets, the normalisation of hosts, the static resolver.
    IDNA (\<open>golang.org/x/net\<close>) is the parameter \<open>to_ascii\<close>.
  \<^item> \<open>Load_Balancer\<close> (\<open>internal/loadbalancer\<close>): smooth weighted round robin, least connections and
    the hash ring, each an interpretation of the locale \<open>pool_selector\<close>.
  \<^item> \<open>Release\<close> (\<open>internal/release\<close>): canary and blue-green releases on a database of releases and
    versions; actions are transactions with an optimistic check of the phase they were decided on. Requests
    on versions and deployments (\<open>deployment/repository.go\<close>) write the same rows and are steps too, with
    the columns weight and status: \<open>rows_inv\<close> holds after all steps, and what ties the weights of the
    versions to the release (\<open>rel_inv\<close>) after the \<open>undisturbing\<close> ones.
  \<^item> \<open>Rate_Limiter\<close> (\<open>internal/ratelimit\<close>): rules, the in-memory limiter and the Redis limiter, both
    interpretations of the locale \<open>rate_backend\<close>. Redis is a parameter.
  \<^item> \<open>Traffic_Policy\<close> (\<open>internal/traffic\<close>), \<open>Route_Table\<close> (\<open>internal/cache/route.go\<close>,
    \<open>versioning.go\<close>), \<open>Route_Resolver\<close> (\<open>internal/cache/resolver.go\<close>): policies, the table built
    from the rows of the database, and the way from a request to a target. \<open>Route_Safety\<close> shows that
    requests reach only routable instances and always get an answer; \<open>Route_Behaviour\<close> what crosses
    the components: session cookies, limits that share a counter, unreadable policies.
  \<^item> \<open>Net_Address\<close> (\<open>internal/security\<close>): addresses and networks as Go's \<open>net\<close> package reads them, and
    the check that an upstream's address is internal. \<open>Client_Address\<close> (\<open>proxy/headers.go\<close>): trusted
    proxies, the address of the client, and the headers that go upstream after the reverse proxy has
    removed the forwarding headers of the request.
  \<^item> \<open>Request_Logs\<close> (\<open>internal/logs\<close>): the ring buffers, which refine the list of the latest entries
    (locale \<open>latest_entries\<close>, interpreted for both). \<open>Proxy\<close> (\<open>internal/proxy\<close>): \<open>ServeHTTP\<close>, split where it calls
    the reverse proxy, so that requests in flight interleave; the locale \<open>reporting_resolver\<close> is what
    it asks of a resolver that counts connections, and the resolver of the route table provides it.
  \<^item> \<open>Health\<close> (\<open>internal/health\<close>): the active health checker, whose counters refine the histories of
    the instances.
  \<^item> \<open>Accounts\<close> (\<open>internal/rbac\<close>, \<open>auth\<close>, \<open>api/users.go\<close>): roles, tokens and the handlers of accounts.
  \<^item> \<open>Gateway_Nodes\<close>, \<open>Instances\<close>, \<open>Discovery\<close> (\<open>internal/node\<close>, \<open>instance\<close>, \<open>discovery\<close>): the rows of
    nodes and instances, the operations of the two repositories, the watchdog, and the reports of
    the container manager as sequences of repository calls. The locales \<open>instance_invariant\<close> and
    \<open>registry_invariant\<close> say what an invariant of the single calls needs to be kept by every report.

  \<^item> \<open>Ports\<close> (\<open>containermanager/ports\<close>): host ports, one per resource. \<open>Nodes\<close>
    (\<open>containermanager/nodes\<close>, \<open>agentregistry\<close>): the credentials and the on-line state of nodes, shown
    to refine a contract that knows only the last credential issued; the registry of nodes.
  \<^item> \<open>Desired\<close> (\<open>containermanager/desired\<close>): desired states and their table, and what a restart keeps.
    \<open>Rollout\<close> (\<open>containermanager/scheduler\<close>, \<open>rollout\<close>): the choice of nodes and the plan of a round.
  \<^item> \<open>Reconciler\<close>, \<open>Reconcile_Round\<close> (\<open>containermanager/reconciler\<close>): a round as a function from the
    desired states, the snapshot and the marks of stopped instances to the calls it makes. The calls
    are a log; answers, clock, UUIDs and the nodes on line are functions of the log so far.
  \<^item> \<open>Control\<close> (\<open>containermanager/control\<close>, \<open>api/deployments.go\<close>): what operators and the gateway do
    to instances and desired states, and how it meets the reconciler.
  \<^item> \<open>Enrollment\<close> (\<open>containermanager/enrollment\<close>, \<open>api/enrollment.go\<close>): one-time tokens with their
    table, and the admission of agents, split where the gateway is asked, so that admissions race; the
    locale \<open>one_time_tokens\<close> is the contract of the tokens and the store provides it.
    \<open>Agent_Sessions\<close> (\<open>containermanager/agentconn\<close>): connections, the hub and their replacement. The
    handler of a connection goes through the values of \<open>phase\<close>: entering the hub, closing the session it
    replaced, the ready message, leaving the hub and closing are steps of their own.
  \<^item> \<open>Domains\<close> (\<open>internal/domain\<close>): the rows of domains and their route table.
    \<open>Certificates\<close>, \<open>Cert_Issuance\<close> (\<open>internal/certificate\<close>): validation, rows, cache and
    handshakes; uploads, edits and deletions; issue jobs with their recorded operations, and renewal. The
    invariant \<open>certs_ok\<close> says that the cache holds what the rows hold, decrypted, and that each
    certificate covers its name, but for a set of names: those whose rows the database deleted together
    with their domain (\<open>domains_changed\<close>, the foreign key of \<open>migrations/0014_certificates.sql\<close>), which
    the cache serves until everything is loaded again. X.509, the encrypter and the authority's answers are arguments.
  \<^item> \<open>Leadership\<close> (\<open>internal/ha\<close>): the election of a leader among several gateway processes; Redis is one
    key with an expiry. \<open>ha_run I\<close> are the runs whose events satisfy \<open>I\<close>; the election is shown under four
    conditions (\<open>clock_forward\<close>, \<open>redis_answers\<close>, \<open>expire_in_time\<close>, \<open>lease_ends_with_the_lock\<close>), and
    lemmas show what happens without each of the last three.
  \<^item> \<open>Data_Paths\<close> (\<open>pkg/pathseg.go\<close>, \<open>project/datapath.go\<close>, \<open>deployment/mounts.go\<close>,
    \<open>nodeagent/docker/mount.go\<close>): the directories of projects and the two checks a mount passes, one in
    the gateway and one on the node, both interpretations of the locale \<open>path_guard\<close>: what a check lets
    through stays beneath the root. \<open>Templates\<close> (\<open>internal/apptemplate\<close>): parameters, rendering,
    which equals a substitution on the parsed specification, and the table of templates.
  \<^item> \<open>Compose_Specs\<close> (\<open>nodeagent/compose/prepare.go\<close>): what a node adds to a Compose specification. The
    YAML package is two arguments, reading and writing. \<open>Applications\<close> (\<open>nodeagent/compose/compose.go\<close>,
    \<open>exec/exec.go\<close>, \<open>containermanager/applications\<close>): the driver and the actions of the agent, the store and the
    controller. The invariant \<open>tracked\<close> says that all containers on a node belong to a stored
    application that names this node, and lie beside a file that Compose accepts; the events that keep it
    are \<open>steady\<close>, and lemmas show what the others do. What the file system and the command answer on a node
    is \<open>agent_env\<close>. \<open>mirrored\<close> says that the table holds what the store holds, as \<open>app_row\<close> renders it:
    instants in microseconds, and nothing of an application whose id is no UUID; the database is \<open>app_db\<close>.

  How the parts interact. The resolver looks a host up in the route table, applies the route's
  limits through the \<open>Backend\<close> interface, and lets the balancer choose a version and an instance;
  the versions' weights are written by releases. Network allocation uses the address arithmetic, and
  a project's network is provisioned before its containers are created by tasks.

  Bounds and fuel. \<open>pickFromVersionBalanced\<close> and \<open>pickFallback\<close> of the resolver call each other;
  their models take fuel and the value None means that it ran out. Three calls are enough on every
  table that \<open>buildTable\<close> makes (\<open>every_request_is_answered\<close>): a fallback goes to a version that has
  instances. Every other loop is structural recursion or bounded by a count the code computes.

  Time is an integer number of nanoseconds since Go's zero time; \<open>Sub\<close> saturates and durations wrap
  as in Go. Identifiers (UUIDs) are strings, and the model does not check their shape.

  Not modelled: the generated data layer (\<open>ent\<close>) and the queries that only read it; the parsing of
  HTTP requests, JSON codecs and the reverse proxy of net/http, which is an argument of \<open>Proxy\<close>;
  the ACME exchange and X.509; dashboards and settings; the repositories of tenants,
  services and projects, and of deployments all but the weight and the status of versions; the node agent's Docker client, and the parsing of what
  \<open>docker compose ps\<close> prints; the WebSocket and HTTP transport of the container manager. These are
  calls into libraries or services, or rows written as given.
\<close>

end
